(* ===== verification/Prelude.thy ===== *)
theory Prelude
  imports Main "HOL-Library.Word"
begin

text \<open>
  Shared vocabulary of the development: fallible results as sums, byte strings and their
  big-endian codecs, and the rule collections that the component theories fill.
\<close>

named_theorems run_simps \<open>one-step equations of the state machines\<close>
named_theorems inv_intros \<open>preservation rules of the component invariants\<close>
named_theorems codec_simps \<open>round trips of the byte codecs\<close>

section \<open>Results\<close>

text \<open>A fallible computation returns \<open>Inl\<close> of its error or \<open>Inr\<close> of its value.\<close>

definition res_bind :: "'e + 'a \<Rightarrow> ('a \<Rightarrow> 'e + 'b) \<Rightarrow> 'e + 'b" where
  "res_bind r k = (case r of Inl e \<Rightarrow> Inl e | Inr a \<Rightarrow> k a)"

lemma res_bind_simps [simp]:
  "res_bind (Inl e) k = Inl e"
  "res_bind (Inr a) k = k a"
  by (simp_all add: res_bind_def)

lemma res_bind_Inr_iff: "res_bind r k = Inr b \<longleftrightarrow> (\<exists>a. r = Inr a \<and> k a = Inr b)"
  by (cases r) auto

lemma res_bind_Inl_iff:
  "res_bind r k = Inl e \<longleftrightarrow> r = Inl e \<or> (\<exists>a. r = Inr a \<and> k a = Inl e)"
  by (cases r) auto

definition res_map :: "('a \<Rightarrow> 'b) \<Rightarrow> 'e + 'a \<Rightarrow> 'e + 'b" where
  "res_map f r = (case r of Inl e \<Rightarrow> Inl e | Inr a \<Rightarrow> Inr (f a))"

lemma res_map_simps [simp]:
  "res_map f (Inl e) = Inl e"
  "res_map f (Inr a) = Inr (f a)"
  by (simp_all add: res_map_def)

lemma res_map_Inr_iff: "res_map f r = Inr b \<longleftrightarrow> (\<exists>a. r = Inr a \<and> b = f a)"
  by (cases r) auto

text \<open>Collecting the results of an iterator into a list: the first error ends it.\<close>

fun res_traverse :: "('a \<Rightarrow> 'e + 'b) \<Rightarrow> 'a list \<Rightarrow> 'e + 'b list" where
  "res_traverse f [] = Inr []"
| "res_traverse f (x # xs) =
     (case f x of Inl e \<Rightarrow> Inl e
      | Inr y \<Rightarrow> (case res_traverse f xs of Inl e \<Rightarrow> Inl e | Inr ys \<Rightarrow> Inr (y # ys)))"

lemma res_traverse_Inr_iff:
  "res_traverse f xs = Inr ys \<longleftrightarrow> list_all2 (\<lambda>x y. f x = Inr y) xs ys"
proof (induction xs arbitrary: ys)
  case Nil
  then show ?case by auto
next
  case (Cons x xs)
  show ?case
  proof (cases "f x")
    case (Inl e)
    then show ?thesis by (simp add: list_all2_Cons1)
  next
    case (Inr y)
    then show ?thesis
      by (cases "res_traverse f xs") (auto simp: list_all2_Cons1 Cons.IH [symmetric])
  qed
qed

lemma res_traverse_Inl:
  "res_traverse f xs = Inl e \<Longrightarrow> \<exists>x\<in>set xs. f x = Inl e"
  by (induction xs) (auto split: sum.splits)

lemma res_traverse_map_Inr: "(\<And>x. x \<in> set xs \<Longrightarrow> f x = Inr (g x)) \<Longrightarrow> res_traverse f xs = Inr (map g xs)"
  by (induction xs) auto

lemma res_traverse_cong [fundef_cong]:
  "xs = ys \<Longrightarrow> (\<And>x. x \<in> set ys \<Longrightarrow> f x = g x) \<Longrightarrow> res_traverse f xs = res_traverse g ys"
proof (induction xs arbitrary: ys)
  case Nil
  then show ?case by simp
next
  case (Cons x xs)
  then show ?case by (auto split: sum.splits)
qed

section \<open>Bytes\<close>

type_synonym byte = "8 word"
type_synonym bytes = "byte list"

text \<open>
  \<open>to_be n k\<close> is \<open>k\<close> in \<open>n\<close> big-endian bytes, wrapping as the fixed-width integer does;
  \<open>from_be\<close> reads bytes back.
\<close>

fun to_be :: "nat \<Rightarrow> nat \<Rightarrow> bytes" where
  "to_be 0 k = []"
| "to_be (Suc n) k = to_be n (k div 256) @ [word_of_nat k]"

definition from_be :: "bytes \<Rightarrow> nat" where
  "from_be bs = foldl (\<lambda>a b. a * 256 + unat b) 0 bs"

lemma length_to_be [simp]: "length (to_be n k) = n"
  by (induction n arbitrary: k) simp_all

lemma from_be_snoc [simp]: "from_be (bs @ [b]) = from_be bs * 256 + unat b"
  by (simp add: from_be_def)

lemma from_be_Nil [simp]: "from_be [] = 0"
  by (simp add: from_be_def)

lemma unat_byte_less: "unat (b :: byte) < 256"
  using unsigned_less [of b, where ?'a = nat] by simp

lemma unat_byte_of_nat [simp]: "unat (word_of_nat k :: byte) = k mod 256"
  by (simp add: unat_of_nat)

lemma from_be_to_be [codec_simps]: "from_be (to_be n k) = k mod 256 ^ n"
proof (induction n arbitrary: k)
  case 0
  then show ?case by simp
next
  case (Suc n)
  have "from_be (to_be (Suc n) k) = (k div 256) mod 256 ^ n * 256 + k mod 256"
    by (simp add: Suc.IH)
  also have "\<dots> = k mod 256 ^ Suc n"
    by (simp add: mod_mult2_eq mult.commute)
  finally show ?case .
qed

lemma from_be_less: "from_be bs < 256 ^ length bs"
proof (induction bs rule: rev_induct)
  case Nil
  then show ?case by simp
next
  case (snoc b bs)
  then have "from_be bs + 1 \<le> 256 ^ length bs" by simp
  then have "(from_be bs + 1) * 256 \<le> 256 ^ length bs * 256" by (rule mult_right_mono) simp
  then show ?case using unat_byte_less [of b] by simp
qed

lemma to_be_from_be [codec_simps]: "length bs = n \<Longrightarrow> to_be n (from_be bs) = bs"
proof (induction bs arbitrary: n rule: rev_induct)
  case Nil
  then show ?case by simp
next
  case (snoc b bs)
  have "(from_be bs * 256 + unat b) div 256 = from_be bs"
    using unat_byte_less [of b] by simp
  moreover have "(word_of_nat (from_be bs * 256 + unat b) :: byte) = b"
    using unat_byte_less [of b]
    by (simp add: word_unat_eq_iff unat_of_nat del: of_nat_add of_nat_mult)
  ultimately show ?case using snoc by auto
qed

lemma to_be_inj: "to_be n k = to_be n m \<Longrightarrow> k < 256 ^ n \<Longrightarrow> m < 256 ^ n \<Longrightarrow> k = m"
  by (metis from_be_to_be mod_less)

text \<open>Signed integers of the code as \<open>'w word\<close> values, written and read in two's complement.\<close>

definition i32_to_be :: "32 word \<Rightarrow> bytes" where
  "i32_to_be w = to_be 4 (unat w)"

definition i32_from_be :: "bytes \<Rightarrow> 32 word" where
  "i32_from_be bs = word_of_nat (from_be bs)"

lemma length_i32_to_be [simp]: "length (i32_to_be w) = 4"
  by (simp add: i32_to_be_def)

lemma i32_from_to_be [codec_simps]: "i32_from_be (i32_to_be w) = w"
proof -
  have "unat w < 256 ^ 4" using unsigned_less [of w, where ?'a = nat] by simp
  then show ?thesis by (simp add: i32_from_be_def i32_to_be_def from_be_to_be)
qed

lemma i32_to_from_be [codec_simps]: "length bs = 4 \<Longrightarrow> i32_to_be (i32_from_be bs) = bs"
  using from_be_less [of bs]
  by (simp add: i32_from_be_def i32_to_be_def unat_of_nat to_be_from_be)

definition i64_to_be :: "64 word \<Rightarrow> bytes" where
  "i64_to_be w = to_be 8 (unat w)"

definition i64_from_be :: "bytes \<Rightarrow> 64 word" where
  "i64_from_be bs = word_of_nat (from_be bs)"

lemma length_i64_to_be [simp]: "length (i64_to_be w) = 8"
  by (simp add: i64_to_be_def)

lemma i64_from_to_be [codec_simps]: "i64_from_be (i64_to_be w) = w"
proof -
  have "unat w < 256 ^ 8" using unsigned_less [of w, where ?'a = nat] by simp
  then show ?thesis by (simp add: i64_from_be_def i64_to_be_def from_be_to_be)
qed

end
