(* ===== verification/Rust_BTree.thy ===== *)
theory Rust_BTree
  imports Prelude
begin

text \<open>
  The standard library's \<open>BTreeMap\<close>: an association list in strictly ascending key order,
  which is what its iteration, \<open>first_entry\<close> and \<open>into_iter\<close> observe. The locale
  \<open>ordered_map\<close> is the contract the components rely on; \<open>bt\<close> is its interpretation on
  the list operations that compute.
\<close>

section \<open>The contract\<close>

locale ordered_map =
  fixes get :: "'m \<Rightarrow> 'k::linorder \<Rightarrow> 'v option"
    and ins :: "'k \<Rightarrow> 'v \<Rightarrow> 'm \<Rightarrow> 'm"
    and del :: "'k \<Rightarrow> 'm \<Rightarrow> 'm"
    and entries :: "'m \<Rightarrow> ('k \<times> 'v) list"
    and ok :: "'m \<Rightarrow> bool"
  assumes get_ins: "ok m \<Longrightarrow> get (ins k v m) = (get m)(k \<mapsto> v)"
    and get_del: "ok m \<Longrightarrow> get (del k m) = (get m)(k := None)"
    and ok_ins: "ok m \<Longrightarrow> ok (ins k v m)"
    and ok_del: "ok m \<Longrightarrow> ok (del k m)"
    and get_entries: "ok m \<Longrightarrow> map_of (entries m) = get m"
    and entries_sorted: "ok m \<Longrightarrow> sorted_wrt (<) (map fst (entries m))"
begin

lemma get_ins_same: "ok m \<Longrightarrow> get (ins k v m) k = Some v"
  by (simp add: get_ins)

lemma get_ins_other: "ok m \<Longrightarrow> k' \<noteq> k \<Longrightarrow> get (ins k v m) k' = get m k'"
  by (simp add: get_ins)

lemma entries_distinct: "ok m \<Longrightarrow> distinct (map fst (entries m))"
  using entries_sorted strict_sorted_iff by blast

lemma entries_iff: "ok m \<Longrightarrow> (k, v) \<in> set (entries m) \<longleftrightarrow> get m k = Some v"
  by (metis entries_distinct get_entries map_of_eq_Some_iff)

lemma dom_get: "ok m \<Longrightarrow> dom (get m) = fst ` set (entries m)"
  by (metis get_entries dom_map_of_conv_image_fst)

lemma finite_dom_get: "ok m \<Longrightarrow> finite (dom (get m))"
  by (simp add: dom_get)

text \<open>The first entry is the one with the least key.\<close>

lemma first_entry_least:
  assumes "ok m" and "entries m = (k, v) # es" and "get m k' = Some v'"
  shows "k \<le> k'"
proof -
  have "(k', v') \<in> set (entries m)" using assms(1,3) by (simp only: entries_iff)
  with entries_sorted [OF assms(1)] assms(2) show ?thesis by fastforce
qed

lemma entries_Nil: "ok m \<Longrightarrow> entries m = [] \<longleftrightarrow> get m = Map.empty"
  by (metis get_entries map_of_eq_empty_iff)

end

section \<open>Sorted association lists\<close>

type_synonym ('k, 'v) btree = "('k \<times> 'v) list"

definition bt_ok :: "('k::linorder, 'v) btree \<Rightarrow> bool" where
  "bt_ok t \<longleftrightarrow> sorted_wrt (<) (map fst t)"

abbreviation bt_get :: "('k, 'v) btree \<Rightarrow> 'k \<Rightarrow> 'v option" where
  "bt_get t k \<equiv> map_of t k"

fun bt_insert :: "'k::linorder \<Rightarrow> 'v \<Rightarrow> ('k, 'v) btree \<Rightarrow> ('k, 'v) btree" where
  "bt_insert k v [] = [(k, v)]"
| "bt_insert k v ((k', v') # t) =
     (if k < k' then (k, v) # (k', v') # t
      else if k = k' then (k, v) # t
      else (k', v') # bt_insert k v t)"

fun bt_remove :: "'k \<Rightarrow> ('k, 'v) btree \<Rightarrow> ('k, 'v) btree" where
  "bt_remove k [] = []"
| "bt_remove k ((k', v') # t) = (if k = k' then t else (k', v') # bt_remove k t)"

lemma bt_ok_Nil [simp]: "bt_ok []"
  by (simp add: bt_ok_def)

lemma bt_ok_Cons: "bt_ok ((k, v) # t) \<longleftrightarrow> (\<forall>k' \<in> fst ` set t. k < k') \<and> bt_ok t"
  by (auto simp: bt_ok_def)

lemma bt_ok_tl: "bt_ok (e # t) \<Longrightarrow> bt_ok t"
  by (simp add: bt_ok_def)

lemma bt_ok_above_None: "\<forall>k' \<in> fst ` set t. (k :: 'k::linorder) < k' \<Longrightarrow> map_of t k = None"
  unfolding map_of_eq_None_iff by (meson less_irrefl)

lemma bt_get_insert: "map_of (bt_insert k v t) = (map_of t)(k \<mapsto> v)"
  by (induction k v t rule: bt_insert.induct) auto

lemma bt_fst_insert: "fst ` set (bt_insert k v t) = insert k (fst ` set t)"
  by (induction k v t rule: bt_insert.induct) auto

lemma bt_ok_insert: "bt_ok t \<Longrightarrow> bt_ok (bt_insert k v t)"
  by (induction k v t rule: bt_insert.induct) (auto simp: bt_ok_Cons bt_fst_insert)

lemma bt_fst_remove: "fst ` set (bt_remove k t) \<subseteq> fst ` set t"
  by (induction k t rule: bt_remove.induct) auto

lemma bt_ok_remove: "bt_ok t \<Longrightarrow> bt_ok (bt_remove k t)"
proof (induction k t rule: bt_remove.induct)
  case (2 k k' v' t)
  then have "\<forall>a \<in> fst ` set (bt_remove k t). k' < a"
    using bt_fst_remove [of k t] by (auto simp: bt_ok_Cons simp del: fst_conv)
  with 2 show ?case by (simp add: bt_ok_Cons)
qed simp

lemma bt_get_remove: "bt_ok t \<Longrightarrow> map_of (bt_remove k t) = (map_of t)(k := None)"
proof (induction k t rule: bt_remove.induct)
  case (2 k k' v' t)
  then show ?case
    by (auto simp: bt_ok_Cons bt_ok_above_None fun_upd_twist fun_eq_iff)
qed simp

interpretation bt: ordered_map map_of bt_insert bt_remove "\<lambda>t. t" bt_ok
  by unfold_locales
    (auto simp: bt_get_insert bt_get_remove bt_ok_insert bt_ok_remove, simp add: bt_ok_def)

text \<open>Updating the value under each key keeps the order.\<close>

lemma bt_ok_map: "bt_ok (map (\<lambda>e. (fst e, g e)) t) = bt_ok t"
  by (simp add: bt_ok_def comp_def)

lemma map_of_map_val: "map_of (map (\<lambda>e. (fst e, g e)) t) k = map_option (\<lambda>v. g (k, v)) (map_of t k)"
  by (induction t) auto

lemma bt_ok_append_right: "bt_ok (xs @ ys) \<Longrightarrow> bt_ok ys"
  by (simp add: bt_ok_def sorted_wrt_append)

lemma bt_ok_append_less: "bt_ok (xs @ ys) \<Longrightarrow> (k, v) \<in> set xs \<Longrightarrow> (k', v') \<in> set ys \<Longrightarrow> k < k'"
  by (force simp: bt_ok_def sorted_wrt_append)

text \<open>The greatest key is the last one, and the tail of a tree is the tree less its front.\<close>

lemma bt_last_Max:
  assumes "bt_ok t" and "t \<noteq> []"
  shows "Max (fst ` set t) = fst (last t)"
  using assms
proof (induction t rule: rev_induct)
  case Nil
  then show ?case by simp
next
  case (snoc e t)
  have "\<forall>k \<in> fst ` set t. k \<le> fst e"
    using snoc.prems(1) by (auto simp: bt_ok_def sorted_wrt_append intro: less_imp_le)
  then show ?case by (intro Max_eqI) auto
qed

lemma bt_tail_restrict:
  assumes "bt_ok (xs @ ys)"
  shows "map_of ys = map_of (xs @ ys) |` (- fst ` set xs)"
proof
  fix k
  show "map_of ys k = (map_of (xs @ ys) |` (- fst ` set xs)) k"
  proof (cases "k \<in> fst ` set xs")
    case True
    then have "k \<notin> fst ` set ys"
      using bt_ok_append_less [OF assms] by fastforce
    with True show ?thesis by (simp add: map_of_eq_None_iff)
  next
    case False
    then have "map_of xs k = None" by (simp add: map_of_eq_None_iff)
    with False show ?thesis by (simp add: map_add_def)
  qed
qed

text \<open>Counting the values with a property.\<close>

definition bt_count :: "('v \<Rightarrow> bool) \<Rightarrow> ('k, 'v) btree \<Rightarrow> nat" where
  "bt_count P t = length (filter (\<lambda>e. P (snd e)) t)"

lemma bt_count_Nil [simp]: "bt_count P [] = 0"
  by (simp add: bt_count_def)

lemma bt_count_update:
  "bt_ok t \<Longrightarrow> map_of t k = Some v \<Longrightarrow>
   bt_count P (bt_insert k v' t) + of_bool (P v) = bt_count P t + of_bool (P v')"
  by (induction k v' t rule: bt_insert.induct)
    (auto simp: bt_count_def bt_ok_Cons bt_ok_above_None dest!: map_of_SomeD split: if_splits)

lemma bt_count_new:
  "map_of t k = None \<Longrightarrow> bt_count P (bt_insert k v t) = bt_count P t + of_bool (P v)"
  by (induction k v t rule: bt_insert.induct) (auto simp: bt_count_def split: if_splits)

lemma bt_count_remove:
  "bt_ok t \<Longrightarrow> map_of t k = Some v \<Longrightarrow> bt_count P (bt_remove k t) + of_bool (P v) = bt_count P t"
  by (induction k t rule: bt_remove.induct)
    (auto simp: bt_count_def bt_ok_Cons split: if_splits)

lemma bt_count_0: "bt_count P t = 0 \<longleftrightarrow> (\<forall>e\<in>set t. \<not> P (snd e))"
  by (auto simp: bt_count_def filter_empty_conv)

text \<open>Adding the values up.\<close>

definition bt_sum :: "('v \<Rightarrow> nat) \<Rightarrow> ('k, 'v) btree \<Rightarrow> nat" where
  "bt_sum f t = sum_list (map (\<lambda>e. f (snd e)) t)"

lemma bt_sum_update:
  "bt_ok t \<Longrightarrow> map_of t k = Some v \<Longrightarrow> bt_sum f (bt_insert k v' t) + f v = bt_sum f t + f v'"
  by (induction k v' t rule: bt_insert.induct)
    (auto simp: bt_sum_def bt_ok_Cons bt_ok_above_None dest!: map_of_SomeD split: if_splits)

lemma bt_sum_remove:
  "bt_ok t \<Longrightarrow> map_of t k = Some v \<Longrightarrow> bt_sum f (bt_remove k t) + f v = bt_sum f t"
  by (induction k t rule: bt_remove.induct)
    (auto simp: bt_sum_def bt_ok_Cons split: if_splits)

lemma bt_get_in: "bt_ok t \<Longrightarrow> e \<in> set t \<Longrightarrow> map_of t (fst e) = Some (snd e)"
  by (induction t) (auto simp: bt_ok_Cons)

end
