(* ===== verification/Kafka_Tracker.thy ===== *)
theory Kafka_Tracker
  imports Rust_BTree "HOL-Library.List_Lexorder" "HOL-Library.Char_ord"
begin

text \<open>
  The offset tracker of the Kafka backend (\<open>src/crates/kafka/src/tracker.rs\<close>): which
  offset of each partition may be committed, given that records finish out of order and
  that an offset must wait for the sends its handler issued. Offsets and partition
  numbers are only compared, so they are \<open>int\<close>; tickets and send numbers only grow by
  one and are \<open>nat\<close>.
\<close>

section \<open>State\<close>

text \<open>A resolved offset as \<open>store_offset\<close> takes it: topic, partition, offset.\<close>

type_synonym stored = "string \<times> int \<times> int"

record pending =
  pd_ticket :: nat
  pd_done :: bool
  pd_sends_before :: nat

record partition =
  pt_revoked :: bool
  pt_pending :: "(int, pending) btree"

record tracker =
  tr_topics :: "(string, (int, partition) btree) btree"
  tr_delivered :: nat
  tr_out_of_order :: "nat list"
  tr_tickets :: nat

definition pending_resolved :: "nat \<Rightarrow> pending \<Rightarrow> bool" where
  "pending_resolved delivered pd \<longleftrightarrow> pd_done pd \<and> pd_sends_before pd \<le> delivered"

definition partition_default :: partition where
  "partition_default = \<lparr>pt_revoked = False, pt_pending = []\<rparr>"

definition tracker_default :: tracker where
  "tracker_default = \<lparr>tr_topics = [], tr_delivered = 0, tr_out_of_order = [], tr_tickets = 0\<rparr>"

section \<open>Operations\<close>

text \<open>\<open>while let Some(entry) = first_entry() && resolved { last = key; remove }\<close>\<close>

fun resolve_loop :: "nat \<Rightarrow> int option \<Rightarrow> (int, pending) btree \<Rightarrow> int option \<times> (int, pending) btree" where
  "resolve_loop delivered final [] = (final, [])"
| "resolve_loop delivered final ((k, pd) # t) =
     (if pending_resolved delivered pd then resolve_loop delivered (Some k) t
      else (final, (k, pd) # t))"

definition partition_resolve :: "nat \<Rightarrow> partition \<Rightarrow> int option \<times> partition" where
  "partition_resolve delivered st =
     (case resolve_loop delivered None (pt_pending st) of
        (final, rest) \<Rightarrow> (final, st\<lparr>pt_pending := rest\<rparr>))"

definition tracker_partition :: "tracker \<Rightarrow> string \<Rightarrow> int \<Rightarrow> partition option" where
  "tracker_partition s topic p =
     (case bt_get (tr_topics s) topic of None \<Rightarrow> None | Some ps \<Rightarrow> bt_get ps p)"

text \<open>What a write through \<open>partition_mut\<close>'s reference leaves.\<close>

definition tracker_set_partition :: "string \<Rightarrow> int \<Rightarrow> partition \<Rightarrow> tracker \<Rightarrow> tracker" where
  "tracker_set_partition topic p st s =
     (case bt_get (tr_topics s) topic of None \<Rightarrow> s
      | Some ps \<Rightarrow> s\<lparr>tr_topics := bt_insert topic (bt_insert p st ps) (tr_topics s)\<rparr>)"

definition tracker_partition_or_insert :: "string \<Rightarrow> int \<Rightarrow> tracker \<Rightarrow> partition \<times> tracker" where
  "tracker_partition_or_insert topic p s =
     (let ps = (case bt_get (tr_topics s) topic of None \<Rightarrow> [] | Some ps \<Rightarrow> ps);
          st = (case bt_get ps p of None \<Rightarrow> partition_default | Some st \<Rightarrow> st)
      in (st, s\<lparr>tr_topics := bt_insert topic (bt_insert p st ps) (tr_topics s)\<rparr>))"

definition tracker_insert :: "string \<Rightarrow> int \<Rightarrow> int \<Rightarrow> tracker \<Rightarrow> nat \<times> tracker" where
  "tracker_insert topic p offset s =
     (let ticket = tr_tickets s;
          (st, s1) = tracker_partition_or_insert topic p (s\<lparr>tr_tickets := Suc ticket\<rparr>)
      in (ticket,
          if pt_revoked st then s1
          else tracker_set_partition topic p
                 (st\<lparr>pt_pending := bt_insert offset
                    \<lparr>pd_ticket = ticket, pd_done = False, pd_sends_before = 0\<rparr> (pt_pending st)\<rparr>) s1))"

definition tracker_holds :: "tracker \<Rightarrow> string \<Rightarrow> int \<Rightarrow> int \<Rightarrow> nat \<Rightarrow> bool" where
  "tracker_holds s topic p offset ticket =
     (case tracker_partition s topic p of None \<Rightarrow> False
      | Some st \<Rightarrow> (case bt_get (pt_pending st) offset of None \<Rightarrow> False
                   | Some pd \<Rightarrow> pd_ticket pd = ticket))"

definition tracker_done ::
  "string \<Rightarrow> int \<Rightarrow> int \<Rightarrow> nat \<Rightarrow> nat \<Rightarrow> tracker \<Rightarrow> stored option \<times> tracker" where
  "tracker_done topic p offset ticket sends_before s =
     (case tracker_partition s topic p of None \<Rightarrow> (None, s)
      | Some st \<Rightarrow>
         (case bt_get (pt_pending st) offset of None \<Rightarrow> (None, s)
          | Some pd \<Rightarrow>
             if pd_ticket pd \<noteq> ticket then (None, s)
             else
               (let pd' = pd\<lparr>pd_done := True, pd_sends_before := sends_before\<rparr>;
                    st' = st\<lparr>pt_pending := bt_insert offset pd' (pt_pending st)\<rparr>;
                    (final, st'') = partition_resolve (tr_delivered s) st'
                in (map_option (\<lambda>k. (topic, p, k)) final, tracker_set_partition topic p st'' s))))"

text \<open>\<open>while out_of_order.remove(&delivered) { delivered += 1 }\<close>\<close>

function advance_loop :: "nat \<Rightarrow> nat list \<Rightarrow> nat \<times> nat list" where
  "advance_loop d ooo =
     (if d \<in> set ooo then advance_loop (Suc d) (remove1 d ooo) else (d, ooo))"
  by pat_completeness auto
termination
  by (relation "measure (\<lambda>(d, ooo). length ooo)")
    (auto simp: length_remove1 dest: length_pos_if_in_set)

declare advance_loop.simps [simp del]

definition tracker_advance :: "tracker \<Rightarrow> tracker" where
  "tracker_advance s =
     (case advance_loop (Suc (tr_delivered s)) (tr_out_of_order s) of
        (d, ooo) \<Rightarrow> s\<lparr>tr_delivered := d, tr_out_of_order := ooo\<rparr>)"

fun resolve_partitions ::
  "nat \<Rightarrow> string \<Rightarrow> (int, partition) btree \<Rightarrow> stored list \<times> (int, partition) btree" where
  "resolve_partitions delivered topic [] = ([], [])"
| "resolve_partitions delivered topic ((p, st) # ps) =
     (let (final, st') = partition_resolve delivered st;
          (stored, ps') = resolve_partitions delivered topic ps
      in ((case final of None \<Rightarrow> stored | Some k \<Rightarrow> (topic, p, k) # stored), (p, st') # ps'))"

fun resolve_topics ::
  "nat \<Rightarrow> (string, (int, partition) btree) btree
     \<Rightarrow> stored list \<times> (string, (int, partition) btree) btree" where
  "resolve_topics delivered [] = ([], [])"
| "resolve_topics delivered ((topic, ps) # ts) =
     (let (stored, ps') = resolve_partitions delivered topic ps;
          (stored', ts') = resolve_topics delivered ts
      in (stored @ stored', (topic, ps') # ts'))"

definition tracker_resolve_all :: "tracker \<Rightarrow> stored list \<times> tracker" where
  "tracker_resolve_all s =
     (case resolve_topics (tr_delivered s) (tr_topics s) of
        (stored, ts) \<Rightarrow> (stored, s\<lparr>tr_topics := ts\<rparr>))"

definition tracker_note_delivered :: "nat \<Rightarrow> tracker \<Rightarrow> stored list \<times> tracker" where
  "tracker_note_delivered i s =
     (if i < tr_delivered s then ([], s)
      else if tr_delivered s < i then
        ([], s\<lparr>tr_out_of_order := List.insert i (tr_out_of_order s)\<rparr>)
      else tracker_resolve_all (tracker_advance s))"

definition tracker_revoke :: "string \<Rightarrow> int \<Rightarrow> tracker \<Rightarrow> tracker" where
  "tracker_revoke topic p s =
     (let (_, s1) = tracker_partition_or_insert topic p s
      in tracker_set_partition topic p (partition_default\<lparr>pt_revoked := True\<rparr>) s1)"

definition tracker_assign :: "string \<Rightarrow> int \<Rightarrow> tracker \<Rightarrow> tracker" where
  "tracker_assign topic p s =
     (let (st, s1) = tracker_partition_or_insert topic p s
      in tracker_set_partition topic p (st\<lparr>pt_revoked := False\<rparr>) s1)"

text \<open>The calls a tracker receives, in the order its lock serialises them.\<close>

datatype tracker_event =
    Insert string int int
  | Done string int int nat nat
  | Note_Delivered nat
  | Revoke string int
  | Assign string int

fun tracker_step :: "tracker_event \<Rightarrow> tracker \<Rightarrow> stored list \<times> tracker" where
  "tracker_step (Insert topic p offset) s = ([], snd (tracker_insert topic p offset s))"
| "tracker_step (Done topic p offset ticket sends) s =
     (case tracker_done topic p offset ticket sends s of
        (None, s') \<Rightarrow> ([], s') | (Some x, s') \<Rightarrow> ([x], s'))"
| "tracker_step (Note_Delivered i) s = tracker_note_delivered i s"
| "tracker_step (Revoke topic p) s = ([], tracker_revoke topic p s)"
| "tracker_step (Assign topic p) s = ([], tracker_assign topic p s)"

fun tracker_run :: "tracker_event list \<Rightarrow> tracker \<Rightarrow> stored list list \<times> tracker" where
  "tracker_run [] s = ([], s)"
| "tracker_run (e # es) s =
     (let (out, s1) = tracker_step e s; (outs, s2) = tracker_run es s1 in (out # outs, s2))"

section \<open>What the operations do to one partition\<close>

text \<open>
  Every operation is described by its effect on \<open>tr_view\<close>, the state of each partition,
  where a partition the tracker has never seen reads as the default one.
\<close>

definition tr_view :: "tracker \<Rightarrow> string \<Rightarrow> int \<Rightarrow> partition" where
  "tr_view s topic p =
     (case tracker_partition s topic p of None \<Rightarrow> partition_default | Some st \<Rightarrow> st)"

definition tracker_sorted :: "tracker \<Rightarrow> bool" where
  "tracker_sorted s \<longleftrightarrow> bt_ok (tr_topics s) \<and>
     (\<forall>topic ps. bt_get (tr_topics s) topic = Some ps \<longrightarrow> bt_ok ps)"

lemma partition_default_simps [simp]:
  "pt_revoked partition_default = False"
  "pt_pending partition_default = []"
  by (simp_all add: partition_default_def)

lemma tr_view_default [simp]: "tr_view tracker_default topic p = partition_default"
  by (simp add: tr_view_def tracker_partition_def tracker_default_def)

lemma tracker_sorted_default [simp]: "tracker_sorted tracker_default"
  by (simp add: tracker_sorted_def tracker_default_def)

lemma tr_view_cong: "tr_topics s = tr_topics s' \<Longrightarrow> tr_view s = tr_view s'"
  by (simp add: tr_view_def tracker_partition_def fun_eq_iff)

lemma tracker_sorted_cong: "tr_topics s = tr_topics s' \<Longrightarrow> tracker_sorted s = tracker_sorted s'"
  by (simp add: tracker_sorted_def)

lemma tracker_partition_view: "tracker_partition s topic p = Some st \<Longrightarrow> tr_view s topic p = st"
  by (simp add: tr_view_def)

lemma set_partition_fields [simp]:
  "tr_delivered (tracker_set_partition topic p st s) = tr_delivered s"
  "tr_out_of_order (tracker_set_partition topic p st s) = tr_out_of_order s"
  "tr_tickets (tracker_set_partition topic p st s) = tr_tickets s"
  by (auto simp: tracker_set_partition_def split: option.splits)

lemma set_partition_sorted:
  "tracker_sorted s \<Longrightarrow> tracker_sorted (tracker_set_partition topic p st s)"
  by (auto simp: tracker_sorted_def tracker_set_partition_def bt.ok_ins bt.get_ins split: option.splits)

lemma set_partition_present:
  "tracker_partition s topic q \<noteq> None \<Longrightarrow>
     tracker_partition (tracker_set_partition topic p st s) topic q \<noteq> None"
  by (auto simp: tracker_partition_def tracker_set_partition_def bt_get_insert split: option.splits)

lemma set_partition_view:
  assumes "tracker_partition s topic p \<noteq> None"
  shows "tr_view (tracker_set_partition topic p st s) topic' p' =
           (if topic' = topic \<and> p' = p then st else tr_view s topic' p')"
  using assms
  by (auto simp: tr_view_def tracker_partition_def tracker_set_partition_def bt_get_insert
      split: option.splits)

lemma or_insert_result: "fst (tracker_partition_or_insert topic p s) = tr_view s topic p"
  by (auto simp: tracker_partition_or_insert_def tr_view_def tracker_partition_def Let_def
      split: option.splits)

lemma or_insert_fields [simp]:
  "tr_delivered (snd (tracker_partition_or_insert topic p s)) = tr_delivered s"
  "tr_out_of_order (snd (tracker_partition_or_insert topic p s)) = tr_out_of_order s"
  "tr_tickets (snd (tracker_partition_or_insert topic p s)) = tr_tickets s"
  by (simp_all add: tracker_partition_or_insert_def Let_def)

lemma or_insert_sorted:
  "tracker_sorted s \<Longrightarrow> tracker_sorted (snd (tracker_partition_or_insert topic p s))"
  by (auto simp: tracker_sorted_def tracker_partition_or_insert_def Let_def bt.ok_ins bt.get_ins
      split: option.splits)

lemma or_insert_present:
  "tracker_partition (snd (tracker_partition_or_insert topic p s)) topic p \<noteq> None"
  by (simp add: tracker_partition_def tracker_partition_or_insert_def Let_def bt_get_insert)

lemma or_insert_view: "tr_view (snd (tracker_partition_or_insert topic p s)) = tr_view s"
  by (auto simp: fun_eq_iff tr_view_def tracker_partition_def tracker_partition_or_insert_def
      Let_def bt_get_insert split: option.splits)

lemmas or_insert = or_insert_result or_insert_sorted or_insert_present or_insert_view

text \<open>The effect of writing through \<open>partition_or_insert\<close>'s reference.\<close>

lemma or_insert_set_view:
  "tr_view (tracker_set_partition topic p st (snd (tracker_partition_or_insert topic p s))) topic' p' =
     (if topic' = topic \<and> p' = p then st else tr_view s topic' p')"
  by (simp add: set_partition_view [OF or_insert_present] or_insert_view)

lemma insert_view:
  "tr_view (snd (tracker_insert topic p offset s)) topic' p' =
     (if topic' = topic \<and> p' = p \<and> \<not> pt_revoked (tr_view s topic p)
      then (tr_view s topic p)\<lparr>pt_pending := bt_insert offset
             \<lparr>pd_ticket = tr_tickets s, pd_done = False, pd_sends_before = 0\<rparr>
             (pt_pending (tr_view s topic p))\<rparr>
      else tr_view s topic' p')"
proof -
  have v: "tr_view (s\<lparr>tr_tickets := n\<rparr>) = tr_view s" for n
    by (rule tr_view_cong) simp
  show ?thesis
    by (auto simp: tracker_insert_def Let_def case_prod_beta or_insert_result or_insert_set_view
        or_insert_view v)
qed

lemma insert_fields [simp]:
  "tr_delivered (snd (tracker_insert topic p offset s)) = tr_delivered s"
  "tr_out_of_order (snd (tracker_insert topic p offset s)) = tr_out_of_order s"
  "tr_tickets (snd (tracker_insert topic p offset s)) = Suc (tr_tickets s)"
  by (simp_all add: tracker_insert_def Let_def case_prod_beta)

lemma insert_sorted: "tracker_sorted s \<Longrightarrow> tracker_sorted (snd (tracker_insert topic p offset s))"
proof -
  assume "tracker_sorted s"
  then have "tracker_sorted (s\<lparr>tr_tickets := n\<rparr>)" for n
    by (simp add: tracker_sorted_def)
  then show ?thesis
    by (auto simp: tracker_insert_def Let_def case_prod_beta
        intro!: set_partition_sorted or_insert_sorted)
qed

lemma revoke_view:
  "tr_view (tracker_revoke topic p s) topic' p' =
     (if topic' = topic \<and> p' = p then partition_default\<lparr>pt_revoked := True\<rparr>
      else tr_view s topic' p')"
  by (simp add: tracker_revoke_def Let_def case_prod_beta or_insert_set_view)

lemma assign_view:
  "tr_view (tracker_assign topic p s) topic' p' =
     (if topic' = topic \<and> p' = p then (tr_view s topic p)\<lparr>pt_revoked := False\<rparr>
      else tr_view s topic' p')"
  by (simp add: tracker_assign_def Let_def case_prod_beta or_insert_result or_insert_set_view)

lemma revoke_assign_fields [simp]:
  "tr_delivered (tracker_revoke topic p s) = tr_delivered s"
  "tr_out_of_order (tracker_revoke topic p s) = tr_out_of_order s"
  "tr_tickets (tracker_revoke topic p s) = tr_tickets s"
  "tr_delivered (tracker_assign topic p s) = tr_delivered s"
  "tr_out_of_order (tracker_assign topic p s) = tr_out_of_order s"
  "tr_tickets (tracker_assign topic p s) = tr_tickets s"
  by (simp_all add: tracker_revoke_def tracker_assign_def Let_def case_prod_beta)

lemma revoke_assign_sorted:
  "tracker_sorted s \<Longrightarrow> tracker_sorted (tracker_revoke topic p s)"
  "tracker_sorted s \<Longrightarrow> tracker_sorted (tracker_assign topic p s)"
  by (auto simp: tracker_revoke_def tracker_assign_def Let_def case_prod_beta
      intro!: set_partition_sorted or_insert_sorted)

lemma holds_view:
  "tracker_holds s topic p offset ticket \<longleftrightarrow>
     (\<exists>pd. bt_get (pt_pending (tr_view s topic p)) offset = Some pd \<and> pd_ticket pd = ticket)"
  by (auto simp: tracker_holds_def tr_view_def split: option.splits)

text \<open>\<open>done\<close> on a pull the tracker no longer holds changes nothing and resolves nothing.\<close>

lemma done_not_held:
  "\<not> tracker_holds s topic p offset ticket \<Longrightarrow>
     tracker_done topic p offset ticket sends s = (None, s)"
  by (auto simp: tracker_holds_def tracker_done_def split: option.splits)

lemma done_held:
  assumes "tracker_holds s topic p offset ticket"
  obtains pd st where
    "tr_view s topic p = st" "bt_get (pt_pending st) offset = Some pd" "pd_ticket pd = ticket"
    "tracker_partition s topic p = Some st"
    "tracker_done topic p offset ticket sends s =
       (let (final, st') = partition_resolve (tr_delivered s)
              (st\<lparr>pt_pending := bt_insert offset
                 (pd\<lparr>pd_done := True, pd_sends_before := sends\<rparr>) (pt_pending st)\<rparr>)
        in (map_option (\<lambda>k. (topic, p, k)) final, tracker_set_partition topic p st' s))"
proof -
  from assms obtain st pd where "tracker_partition s topic p = Some st"
    "bt_get (pt_pending st) offset = Some pd" "pd_ticket pd = ticket"
    by (auto simp: tracker_holds_def split: option.splits)
  then show ?thesis
    by (intro that [of st pd]) (auto simp: tracker_done_def tr_view_def Let_def)
qed

lemma done_fields [simp]:
  "tr_delivered (snd (tracker_done topic p offset ticket sends s)) = tr_delivered s"
  "tr_out_of_order (snd (tracker_done topic p offset ticket sends s)) = tr_out_of_order s"
  "tr_tickets (snd (tracker_done topic p offset ticket sends s)) = tr_tickets s"
  by (auto simp: tracker_done_def Let_def case_prod_beta split: option.splits)

lemma done_sorted:
  "tracker_sorted s \<Longrightarrow> tracker_sorted (snd (tracker_done topic p offset ticket sends s))"
  by (auto simp: tracker_done_def Let_def case_prod_beta set_partition_sorted split: option.splits)

section \<open>The resolving loop and the watermark\<close>

text \<open>
  The loop of \<open>resolve\<close> takes the longest prefix of resolved records and reports the
  last of them.
\<close>

lemma resolve_loop_eq:
  "resolve_loop d acc t =
     (let done = takeWhile (\<lambda>(k, pd). pending_resolved d pd) t
      in (if done = [] then acc else Some (fst (last done)),
          dropWhile (\<lambda>(k, pd). pending_resolved d pd) t))"
  by (induction t arbitrary: acc) (auto simp: Let_def)

lemma partition_resolve_pending:
  "pt_pending (snd (partition_resolve d st)) =
     dropWhile (\<lambda>(k, pd). pending_resolved d pd) (pt_pending st)"
  by (simp add: partition_resolve_def resolve_loop_eq Let_def)

lemma partition_resolve_revoked [simp]:
  "pt_revoked (snd (partition_resolve d st)) = pt_revoked st"
  by (simp add: partition_resolve_def case_prod_beta)

lemma partition_resolve_default [simp]:
  "partition_resolve d (st\<lparr>pt_pending := []\<rparr>) = (None, st\<lparr>pt_pending := []\<rparr>)"
  by (simp add: partition_resolve_def)

lemma bt_ok_dropWhile: "bt_ok t \<Longrightarrow> bt_ok (dropWhile P t)"
  by (metis bt_ok_append_right takeWhile_dropWhile_id)

lemma resolve_partitions_eq:
  "resolve_partitions d topic ps =
     (List.map_filter (\<lambda>(p, st). map_option (\<lambda>k. (topic, p, k)) (fst (partition_resolve d st))) ps,
      map (\<lambda>(p, st). (p, snd (partition_resolve d st))) ps)"
  by (induction ps) (auto simp: map_filter_simps Let_def case_prod_beta split: option.splits)

lemma resolve_topics_eq:
  "resolve_topics d ts =
     (concat (map (\<lambda>(topic, ps). fst (resolve_partitions d topic ps)) ts),
      map (\<lambda>(topic, ps). (topic, snd (resolve_partitions d topic ps))) ts)"
  by (induction ts) (auto simp: Let_def case_prod_beta)

lemma resolve_all_view:
  "tr_view (snd (tracker_resolve_all s)) topic p =
     snd (partition_resolve (tr_delivered s) (tr_view s topic p))"
proof -
  have "partition_default = partition_default\<lparr>pt_pending := []\<rparr>"
    by (simp add: partition_default_def)
  then have "snd (partition_resolve d partition_default) = partition_default" for d
    by (metis partition_resolve_default snd_conv)
  then show ?thesis
    by (auto simp: tr_view_def tracker_partition_def tracker_resolve_all_def case_prod_beta
        resolve_topics_eq resolve_partitions_eq split_def map_of_map_val
        split: option.splits)
qed

lemma resolve_all_fields [simp]:
  "tr_delivered (snd (tracker_resolve_all s)) = tr_delivered s"
  "tr_out_of_order (snd (tracker_resolve_all s)) = tr_out_of_order s"
  "tr_tickets (snd (tracker_resolve_all s)) = tr_tickets s"
  by (simp_all add: tracker_resolve_all_def case_prod_beta)

lemma resolve_all_sorted: "tracker_sorted s \<Longrightarrow> tracker_sorted (snd (tracker_resolve_all s))"
  by (auto simp: tracker_sorted_def tracker_resolve_all_def case_prod_beta resolve_topics_eq
      resolve_partitions_eq split_def bt_ok_map
      map_of_map_val)

lemma resolve_all_stored:
  assumes "tracker_sorted s"
  shows "(topic, p, k) \<in> set (fst (tracker_resolve_all s)) \<longleftrightarrow>
           fst (partition_resolve (tr_delivered s) (tr_view s topic p)) = Some k"
    (is "?l \<longleftrightarrow> ?r")
proof -
  have ok: "bt_ok (tr_topics s)" and okp: "\<And>t ps. bt_get (tr_topics s) t = Some ps \<Longrightarrow> bt_ok ps"
    using assms by (auto simp: tracker_sorted_def)
  have "?l \<longleftrightarrow> (\<exists>ps st. (topic, ps) \<in> set (tr_topics s) \<and> (p, st) \<in> set ps \<and>
                 fst (partition_resolve (tr_delivered s) st) = Some k)"
    by (force simp: tracker_resolve_all_def case_prod_beta resolve_topics_eq resolve_partitions_eq
        List.map_filter_def)
  also have "\<dots> \<longleftrightarrow> (\<exists>st. tracker_partition s topic p = Some st \<and>
                 fst (partition_resolve (tr_delivered s) st) = Some k)"
    using ok okp by (auto simp: tracker_partition_def bt.entries_iff split: option.splits)
  also have "\<dots> \<longleftrightarrow> ?r"
    using partition_resolve_default [of "tr_delivered s" partition_default]
    by (auto simp: tr_view_def partition_default_def split: option.splits)
  finally show ?thesis .
qed

text \<open>
  The watermark stands for the set of send numbers reported so far: everything below it,
  and the numbers kept out of order above it.
\<close>

definition watermark_ok :: "nat \<Rightarrow> nat list \<Rightarrow> bool" where
  "watermark_ok d ooo \<longleftrightarrow> distinct ooo \<and> (\<forall>i\<in>set ooo. d < i)"

definition reported :: "tracker \<Rightarrow> nat set" where
  "reported s = {..<tr_delivered s} \<union> set (tr_out_of_order s)"

lemma reported_simps [simp]:
  "reported (snd (tracker_insert topic p k s)) = reported s"
  "reported (snd (tracker_done topic p k ticket sends s)) = reported s"
  "reported (tracker_revoke topic p s) = reported s"
  "reported (tracker_assign topic p s) = reported s"
  "reported (snd (tracker_resolve_all s)) = reported s"
  by (simp_all add: reported_def)

lemma advance_loop_watermark:
  assumes "distinct ooo" and "\<forall>i\<in>set ooo. d \<le> i"
  shows "case advance_loop d ooo of (d', ooo') \<Rightarrow>
           watermark_ok d' ooo' \<and> {..<d'} \<union> set ooo' = {..<d} \<union> set ooo \<and> d \<le> d'"
  using assms
proof (induction d ooo rule: advance_loop.induct)
  case (1 d ooo)
  show ?case
  proof (cases "d \<in> set ooo")
    case False
    with "1.prems"(2) have "\<forall>i\<in>set ooo. d < i" by (metis le_neq_implies_less)
    with False show ?thesis
      using "1.prems"(1) by (simp add: advance_loop.simps [of d ooo] watermark_ok_def)
  next
    case True
    have "\<forall>i\<in>set (remove1 d ooo). Suc d \<le> i"
      using "1.prems" by (metis DiffE Suc_leI le_neq_implies_less set_remove1_eq singletonI)
    with "1.IH" [OF True] "1.prems"(1)
    have "case advance_loop (Suc d) (remove1 d ooo) of (d', ooo') \<Rightarrow>
            watermark_ok d' ooo' \<and> {..<d'} \<union> set ooo' = {..<Suc d} \<union> set (remove1 d ooo) \<and> Suc d \<le> d'"
      by simp
    moreover have "{..<Suc d} \<union> set (remove1 d ooo) = {..<d} \<union> set ooo"
      unfolding lessThan_Suc set_remove1_eq [OF "1.prems"(1)] using True by blast
    moreover have "advance_loop d ooo = advance_loop (Suc d) (remove1 d ooo)"
      using True by (simp only: advance_loop.simps [of d ooo] if_True)
    ultimately show ?thesis
      by (simp only: case_prod_beta) (metis Suc_leD)
  qed
qed

lemma advance_view [simp]: "tr_view (tracker_advance s) = tr_view s"
  by (rule tr_view_cong) (simp add: tracker_advance_def case_prod_beta)

lemma advance_sorted [simp]: "tracker_sorted (tracker_advance s) = tracker_sorted s"
  by (rule tracker_sorted_cong) (simp add: tracker_advance_def case_prod_beta)

lemma advance_tickets [simp]: "tr_tickets (tracker_advance s) = tr_tickets s"
  by (simp add: tracker_advance_def case_prod_beta)

lemma advance_watermark:
  assumes "watermark_ok (tr_delivered s) (tr_out_of_order s)"
  shows "watermark_ok (tr_delivered (tracker_advance s)) (tr_out_of_order (tracker_advance s))"
    and "reported (tracker_advance s) = insert (tr_delivered s) (reported s)"
    and "tr_delivered s < tr_delivered (tracker_advance s)"
proof -
  have "distinct (tr_out_of_order s)" "\<forall>i\<in>set (tr_out_of_order s). Suc (tr_delivered s) \<le> i"
    using assms by (auto simp: watermark_ok_def Suc_le_eq)
  from advance_loop_watermark [OF this]
  show "watermark_ok (tr_delivered (tracker_advance s)) (tr_out_of_order (tracker_advance s))"
    and "reported (tracker_advance s) = insert (tr_delivered s) (reported s)"
    and "tr_delivered s < tr_delivered (tracker_advance s)"
    by (auto simp: tracker_advance_def case_prod_beta reported_def lessThan_Suc)
qed

text \<open>A prefix of the send numbers is reported exactly when it lies below the watermark.\<close>

lemma reported_prefix:
  assumes "watermark_ok (tr_delivered s) (tr_out_of_order s)"
  shows "{..<n} \<subseteq> reported s \<longleftrightarrow> n \<le> tr_delivered s"
proof
  assume "{..<n} \<subseteq> reported s"
  moreover have "tr_delivered s \<notin> reported s"
    using assms by (auto simp: reported_def watermark_ok_def)
  ultimately show "n \<le> tr_delivered s" by (meson in_mono lessThan_iff not_le)
qed (auto simp: reported_def)
end
