(* ===== verification/Kafka_Tracker_Spec.thy ===== *)
theory Kafka_Tracker_Spec
  imports Kafka_Tracker
begin

text \<open>
  What the tracker promises, without watermarks, trees and early exits: the set of send
  numbers reported so far and, for each partition, which pulls are outstanding and what
  they wait for. A partition's committable offset is the last one with every outstanding
  record up to it finished and that record's sends reported. The tracker refines it.
\<close>

section \<open>The specification\<close>

text \<open>A pull: its ticket and, once finished, the sends it waits for.\<close>

type_synonym pull = "nat \<times> nat option"

record tracker_spec =
  sp_reported :: "nat set"
  sp_tickets :: nat
  sp_revoked :: "(string \<times> int) set"
  sp_pending :: "string \<times> int \<Rightarrow> int \<Rightarrow> pull option"

definition sp_resolved :: "nat set \<Rightarrow> pull \<Rightarrow> bool" where
  "sp_resolved R e \<longleftrightarrow> (\<exists>n. snd e = Some n \<and> {..<n} \<subseteq> R)"

text \<open>The offsets with every outstanding record up to and including them resolved.\<close>

definition sp_ready :: "nat set \<Rightarrow> (int \<Rightarrow> pull option) \<Rightarrow> int set" where
  "sp_ready R m = {k \<in> dom m. \<forall>k' e. k' \<le> k \<longrightarrow> m k' = Some e \<longrightarrow> sp_resolved R e}"

definition sp_commit :: "nat set \<Rightarrow> (int \<Rightarrow> pull option) \<Rightarrow> int option" where
  "sp_commit R m = (if sp_ready R m = {} then None else Some (Max (sp_ready R m)))"

definition sp_rest :: "nat set \<Rightarrow> (int \<Rightarrow> pull option) \<Rightarrow> int \<Rightarrow> pull option" where
  "sp_rest R m = m |` (- sp_ready R m)"

fun spec_step :: "tracker_event \<Rightarrow> tracker_spec \<Rightarrow> stored set \<times> tracker_spec" where
  "spec_step (Insert topic p k) s =
     ({}, s\<lparr>sp_tickets := Suc (sp_tickets s),
           sp_pending := (if (topic, p) \<in> sp_revoked s then sp_pending s
             else (sp_pending s)((topic, p) := (sp_pending s (topic, p))(k \<mapsto> (sp_tickets s, None))))\<rparr>)"
| "spec_step (Done topic p k ticket sends) s =
     (case sp_pending s (topic, p) k of
        None \<Rightarrow> ({}, s)
      | Some (t, c) \<Rightarrow>
          if t \<noteq> ticket then ({}, s)
          else
            (let m = (sp_pending s (topic, p))(k \<mapsto> (ticket, Some sends))
             in ({(topic, p, o') | o'. sp_commit (sp_reported s) m = Some o'},
                 s\<lparr>sp_pending := (sp_pending s)((topic, p) := sp_rest (sp_reported s) m)\<rparr>)))"
| "spec_step (Note_Delivered i) s =
     (let R = insert i (sp_reported s)
      in ({(topic, p, k). sp_commit R (sp_pending s (topic, p)) = Some k},
          s\<lparr>sp_reported := R, sp_pending := (\<lambda>tp. sp_rest R (sp_pending s tp))\<rparr>))"
| "spec_step (Revoke topic p) s =
     ({}, s\<lparr>sp_revoked := insert (topic, p) (sp_revoked s),
           sp_pending := (sp_pending s)((topic, p) := Map.empty)\<rparr>)"
| "spec_step (Assign topic p) s = ({}, s\<lparr>sp_revoked := sp_revoked s - {(topic, p)}\<rparr>)"

definition spec_init :: tracker_spec where
  "spec_init = \<lparr>sp_reported = {}, sp_tickets = 0, sp_revoked = {}, sp_pending = (\<lambda>_. Map.empty)\<rparr>"

fun spec_run :: "tracker_event list \<Rightarrow> tracker_spec \<Rightarrow> stored set list \<times> tracker_spec" where
  "spec_run [] s = ([], s)"
| "spec_run (e # es) s =
     (let (out, s1) = spec_step e s; (outs, s2) = spec_run es s1 in (out # outs, s2))"

section \<open>Abstraction and invariant\<close>

definition abs_pull :: "pending \<Rightarrow> pull" where
  "abs_pull pd = (pd_ticket pd, if pd_done pd then Some (pd_sends_before pd) else None)"

definition abs_pending :: "(int, pending) btree \<Rightarrow> int \<Rightarrow> pull option" where
  "abs_pending t k = map_option abs_pull (bt_get t k)"

definition abs_tracker :: "tracker \<Rightarrow> tracker_spec" where
  "abs_tracker s =
     \<lparr>sp_reported = reported s, sp_tickets = tr_tickets s,
      sp_revoked = {(topic, p). pt_revoked (tr_view s topic p)},
      sp_pending = (\<lambda>(topic, p). abs_pending (pt_pending (tr_view s topic p)))\<rparr>"

text \<open>
  A partition at rest: in key order, with a first record that is not resolved (or none), with
  tickets already handed out, and empty while revoked.
\<close>

definition partition_ok :: "nat \<Rightarrow> nat \<Rightarrow> partition \<Rightarrow> bool" where
  "partition_ok d tickets st \<longleftrightarrow>
     bt_ok (pt_pending st) \<and>
     (case pt_pending st of [] \<Rightarrow> True | e # _ \<Rightarrow> \<not> pending_resolved d (snd e)) \<and>
     (\<forall>e\<in>set (pt_pending st). pd_ticket (snd e) < tickets) \<and>
     (pt_revoked st \<longrightarrow> pt_pending st = [])"

definition tracker_ok :: "tracker \<Rightarrow> bool" where
  "tracker_ok s \<longleftrightarrow> tracker_sorted s \<and> watermark_ok (tr_delivered s) (tr_out_of_order s) \<and>
     (\<forall>topic p. partition_ok (tr_delivered s) (tr_tickets s) (tr_view s topic p))"

lemma partition_ok_default [simp]: "partition_ok d n partition_default"
  by (simp add: partition_ok_def)

lemma tracker_ok_default [simp, inv_intros]: "tracker_ok tracker_default"
  by (simp add: tracker_ok_def, simp add: tracker_default_def watermark_ok_def)

lemma abs_default: "abs_tracker tracker_default = spec_init"
  by (simp add: abs_tracker_def spec_init_def abs_pending_def fun_eq_iff)
    (simp add: reported_def tracker_default_def)

lemma abs_pending_dom: "dom (abs_pending t) = fst ` set t"
  by (simp add: abs_pending_def dom_def dom_map_of_conv_image_fst [symmetric])

lemma abs_pending_insert: "abs_pending (bt_insert k pd t) = (abs_pending t)(k \<mapsto> abs_pull pd)"
  by (simp add: abs_pending_def bt_get_insert fun_eq_iff)

text \<open>Resolving the sorted list computes the specification's committable prefix.\<close>

lemma abs_resolved:
  assumes "\<And>n. {..<n} \<subseteq> R \<longleftrightarrow> n \<le> d"
  shows "sp_resolved R (abs_pull pd) = pending_resolved d pd"
  using assms by (auto simp: sp_resolved_def abs_pull_def pending_resolved_def)

lemma ready_takeWhile:
  assumes R: "\<And>n. {..<n} \<subseteq> R \<longleftrightarrow> n \<le> d" and ok: "bt_ok t"
  shows "sp_ready R (abs_pending t) = fst ` set (takeWhile (\<lambda>(k, pd). pending_resolved d pd) t)"
  using ok
proof (induction t)
  case Nil
  then show ?case by (simp add: sp_ready_def abs_pending_def)
next
  case (Cons e t)
  obtain k pd where e: "e = (k, pd)" by force
  have okt: "bt_ok t" and above: "\<And>k'. k' \<in> fst ` set t \<Longrightarrow> k < k'"
    using Cons.prems by (auto simp: e bt_ok_Cons)
  have dom: "dom (abs_pending (e # t)) = insert k (fst ` set t)"
    by (simp add: abs_pending_dom e)
  have at_k: "abs_pending (e # t) k = Some (abs_pull pd)"
    by (simp add: abs_pending_def e)
  have at_t: "abs_pending (e # t) k' = abs_pending t k'" if "k' \<noteq> k" for k'
    using that by (simp add: abs_pending_def e)
  have t_k: "abs_pending t k = None"
    using above by (force simp: abs_pending_def map_of_eq_None_iff)
  show ?case
  proof (cases "pending_resolved d pd")
    case False
    have "x \<notin> sp_ready R (abs_pending (e # t))" for x
    proof
      assume x: "x \<in> sp_ready R (abs_pending (e # t))"
      then have "x \<in> insert k (fst ` set t)" using dom by (auto simp: sp_ready_def)
      then have "k \<le> x" using above by (metis insert_iff less_imp_le order_refl)
      with x at_k have "sp_resolved R (abs_pull pd)" unfolding sp_ready_def by blast
      with False show False by (simp only: abs_resolved [OF R])
    qed
    then have "sp_ready R (abs_pending (e # t)) = {}" by blast
    with False show ?thesis by (simp add: e)
  next
    case True
    have "sp_ready R (abs_pending (e # t)) = insert k (sp_ready R (abs_pending t))"
    proof (rule set_eqI)
      fix x
      show "x \<in> sp_ready R (abs_pending (e # t)) \<longleftrightarrow> x \<in> insert k (sp_ready R (abs_pending t))"
      proof (cases "x = k")
        case True
        have "sp_resolved R e'" if "k' \<le> k" "abs_pending (e # t) k' = Some e'" for k' e'
        proof -
          have "k' \<in> insert k (fst ` set t)" using that(2) dom by (metis domI)
          with that(1) above have "k' = k" by force
          with that(2) at_k have "e' = abs_pull pd" by simp
          with \<open>pending_resolved d pd\<close> show ?thesis by (simp only: abs_resolved [OF R])
        qed
        with True show ?thesis by (auto simp: sp_ready_def dom)
      next
        case False
        have "sp_resolved R (abs_pull pd)" using True abs_resolved [OF R] by simp
        then have "(\<forall>k' e'. k' \<le> x \<longrightarrow> abs_pending (e # t) k' = Some e' \<longrightarrow> sp_resolved R e') \<longleftrightarrow>
                   (\<forall>k' e'. k' \<le> x \<longrightarrow> abs_pending t k' = Some e' \<longrightarrow> sp_resolved R e')"
          using at_k at_t t_k by (metis option.distinct(1) option.inject)
        with False show ?thesis by (simp add: sp_ready_def dom abs_pending_dom e)
      qed
    qed
    with True Cons.IH [OF okt] show ?thesis by (simp add: e)
  qed
qed

lemma resolve_refines:
  assumes R: "\<And>n. {..<n} \<subseteq> R \<longleftrightarrow> n \<le> d" and ok: "bt_ok (pt_pending st)"
  shows "fst (partition_resolve d st) = sp_commit R (abs_pending (pt_pending st))"
    and "abs_pending (pt_pending (snd (partition_resolve d st))) =
           sp_rest R (abs_pending (pt_pending st))"
proof -
  let ?t = "pt_pending st"
  let ?P = "\<lambda>(k, pd). pending_resolved d pd"
  let ?tw = "takeWhile ?P ?t"
  let ?dw = "dropWhile ?P ?t"
  have ready: "sp_ready R (abs_pending ?t) = fst ` set ?tw"
    using R ok by (rule ready_takeWhile)
  have ok': "bt_ok (?tw @ ?dw)" using ok by simp
  then have "bt_ok ?tw" unfolding bt_ok_def map_append sorted_wrt_append by blast
  then have "?tw \<noteq> [] \<Longrightarrow> Max (fst ` set ?tw) = fst (last ?tw)" by (rule bt_last_Max)
  then show "fst (partition_resolve d st) = sp_commit R (abs_pending ?t)"
    by (auto simp: partition_resolve_def resolve_loop_eq Let_def sp_commit_def ready)
  have "bt_get ?dw = bt_get ?t |` (- fst ` set ?tw)"
    using bt_tail_restrict [OF ok'] by simp
  then show "abs_pending (pt_pending (snd (partition_resolve d st))) = sp_rest R (abs_pending ?t)"
    by (simp add: partition_resolve_pending sp_rest_def ready fun_eq_iff abs_pending_def
        restrict_map_def)
qed

section \<open>Refinement\<close>

text \<open>Resolving a partition in order leaves it at rest.\<close>

lemma partition_resolve_ok:
  assumes "bt_ok (pt_pending st)" and "\<forall>e\<in>set (pt_pending st). pd_ticket (snd e) < n"
    and "pt_revoked st \<longrightarrow> pt_pending st = []"
  shows "partition_ok d n (snd (partition_resolve d st))"
proof -
  let ?P = "\<lambda>(k, pd). pending_resolved d pd"
  have tks: "\<forall>e\<in>set (dropWhile ?P (pt_pending st)). pd_ticket (snd e) < n"
    using assms(2) by (meson set_dropWhileD)
  have head: "\<not> pending_resolved d (snd e)" if "dropWhile ?P (pt_pending st) = e # es" for e es
    using that hd_dropWhile [of ?P "pt_pending st"] by (simp add: case_prod_beta)
  show ?thesis
    using assms(1,3) tks head
    by (auto simp: partition_ok_def partition_resolve_pending bt_ok_dropWhile split: list.split)
qed

lemma partition_ok_mono: "partition_ok d n st \<Longrightarrow> n \<le> m \<Longrightarrow> partition_ok d m st"
  by (auto simp: partition_ok_def)

lemma partition_ok_Suc: "partition_ok d n st \<Longrightarrow> partition_ok d (Suc n) st"
  by (erule partition_ok_mono) simp

lemma partition_ok_insert:
  assumes "partition_ok d n st" and "\<not> pt_revoked st"
  shows "partition_ok d (Suc n)
    (st\<lparr>pt_pending := bt_insert k \<lparr>pd_ticket = n, pd_done = False, pd_sends_before = 0\<rparr> (pt_pending st)\<rparr>)"
proof -
  have set_ins: "set (bt_insert k v t) \<subseteq> insert (k, v) (set t)" for v and t :: "(int, pending) btree"
    by (induction k v t rule: bt_insert.induct) auto
  have hd_ins: "case bt_insert k v t of [] \<Rightarrow> True | e # _ \<Rightarrow> \<not> pending_resolved d (snd e)"
    if "case t of [] \<Rightarrow> True | e # _ \<Rightarrow> \<not> pending_resolved d (snd e)" "\<not> pd_done v"
    for v and t :: "(int, pending) btree"
    using that by (induction k v t rule: bt_insert.induct) (auto simp: pending_resolved_def)
  show ?thesis
    using assms hd_ins [of "pt_pending st" "\<lparr>pd_ticket = n, pd_done = False, pd_sends_before = 0\<rparr>"]
      set_ins [of "\<lparr>pd_ticket = n, pd_done = False, pd_sends_before = 0\<rparr>" "pt_pending st"]
    by (fastforce simp: partition_ok_def bt.ok_ins)
qed

lemma tracker_ok_insert [inv_intros]:
  assumes "tracker_ok s" shows "tracker_ok (snd (tracker_insert topic p k s))"
  using assms unfolding tracker_ok_def
  by (auto simp: insert_sorted insert_view intro: partition_ok_insert partition_ok_Suc)

lemma tracker_ok_revoke [inv_intros]: "tracker_ok s \<Longrightarrow> tracker_ok (tracker_revoke topic p s)"
  unfolding tracker_ok_def by (auto simp: revoke_assign_sorted revoke_view partition_ok_def)

lemma tracker_ok_assign [inv_intros]: "tracker_ok s \<Longrightarrow> tracker_ok (tracker_assign topic p s)"
  unfolding tracker_ok_def by (auto simp: revoke_assign_sorted assign_view partition_ok_def)

text \<open>What \<open>done\<close> does to a held record, with the resolving step made explicit.\<close>

lemma done_effect:
  assumes "tracker_ok s" and "tracker_holds s topic p k ticket"
  obtains pd st st' where
    "st = tr_view s topic p" "bt_get (pt_pending st) k = Some pd" "pd_ticket pd = ticket"
    "st' = st\<lparr>pt_pending := bt_insert k (pd\<lparr>pd_done := True, pd_sends_before := sends\<rparr>) (pt_pending st)\<rparr>"
    "bt_ok (pt_pending st')" "\<forall>e\<in>set (pt_pending st'). pd_ticket (snd e) < tr_tickets s"
    "pt_revoked st' \<longrightarrow> pt_pending st' = []"
    "fst (tracker_done topic p k ticket sends s) =
       map_option (\<lambda>o'. (topic, p, o')) (fst (partition_resolve (tr_delivered s) st'))"
    "\<And>topic' p'. tr_view (snd (tracker_done topic p k ticket sends s)) topic' p' =
       (if topic' = topic \<and> p' = p then snd (partition_resolve (tr_delivered s) st')
        else tr_view s topic' p')"
proof -
  from done_held [OF assms(2)] obtain pd st where
    st: "tr_view s topic p = st" and pd: "bt_get (pt_pending st) k = Some pd" "pd_ticket pd = ticket"
    and part: "tracker_partition s topic p = Some st"
    and eq: "tracker_done topic p k ticket sends s =
       (let (final, st') = partition_resolve (tr_delivered s)
              (st\<lparr>pt_pending := bt_insert k
                 (pd\<lparr>pd_done := True, pd_sends_before := sends\<rparr>) (pt_pending st)\<rparr>)
        in (map_option (\<lambda>k. (topic, p, k)) final, tracker_set_partition topic p st' s))" .
  have ok: "partition_ok (tr_delivered s) (tr_tickets s) st"
    using assms(1) st by (auto simp: tracker_ok_def)
  have set_ins: "set (bt_insert k v t) \<subseteq> insert (k, v) (set t)" for v and t :: "(int, pending) btree"
    by (induction k v t rule: bt_insert.induct) auto
  have "(k, pd) \<in> set (pt_pending st)" using pd by (auto dest: map_of_SomeD)
  then have tk: "pd_ticket pd < tr_tickets s" and ne: "\<not> pt_revoked st"
    using ok by (auto simp: partition_ok_def)
  have tks: "\<forall>e\<in>set (bt_insert k (pd\<lparr>pd_done := True, pd_sends_before := sends\<rparr>) (pt_pending st)).
          pd_ticket (snd e) < tr_tickets s"
    using set_ins ok tk by (fastforce simp: partition_ok_def)
  show ?thesis
    by (rule that [of st pd "st\<lparr>pt_pending := bt_insert k
            (pd\<lparr>pd_done := True, pd_sends_before := sends\<rparr>) (pt_pending st)\<rparr>"])
      (use st pd ok tks ne eq part in
        \<open>auto simp: partition_ok_def bt.ok_ins Let_def case_prod_beta set_partition_view\<close>)
qed

lemma tracker_ok_done [inv_intros]:
  assumes "tracker_ok s" shows "tracker_ok (snd (tracker_done topic p k ticket sends s))"
proof (cases "tracker_holds s topic p k ticket")
  case False
  with assms show ?thesis by (simp add: done_not_held)
next
  case True
  from done_effect [OF assms True, of sends] obtain st' where
    "bt_ok (pt_pending st')" "\<forall>e\<in>set (pt_pending st'). pd_ticket (snd e) < tr_tickets s"
    "pt_revoked st' \<longrightarrow> pt_pending st' = []"
    and view: "\<And>topic' p'. tr_view (snd (tracker_done topic p k ticket sends s)) topic' p' =
       (if topic' = topic \<and> p' = p then snd (partition_resolve (tr_delivered s) st')
        else tr_view s topic' p')" by metis
  then have "partition_ok (tr_delivered s) (tr_tickets s) (snd (partition_resolve (tr_delivered s) st'))"
    by (intro partition_resolve_ok)
  with assms show ?thesis by (simp add: tracker_ok_def done_sorted view)
qed

lemma tracker_ok_note_delivered [inv_intros]:
  assumes "tracker_ok s" shows "tracker_ok (snd (tracker_note_delivered i s))"
proof -
  have w: "watermark_ok (tr_delivered s) (tr_out_of_order s)" using assms by (simp add: tracker_ok_def)
  have out: "tracker_ok (s\<lparr>tr_out_of_order := List.insert i (tr_out_of_order s)\<rparr>)"
    if "tr_delivered s < i"
    using assms that tr_view_cong [of "s\<lparr>tr_out_of_order := List.insert i (tr_out_of_order s)\<rparr>" s]
    by (auto simp: tracker_ok_def watermark_ok_def tracker_sorted_def)
  have "partition_ok (tr_delivered (tracker_advance s)) (tr_tickets s)
          (snd (partition_resolve (tr_delivered (tracker_advance s)) (tr_view s topic p)))" for topic p
    using assms by (intro partition_resolve_ok) (auto simp: tracker_ok_def partition_ok_def)
  then have "tracker_ok (snd (tracker_resolve_all (tracker_advance s)))"
    using assms advance_watermark [OF w]
    by (simp add: tracker_ok_def resolve_all_sorted resolve_all_view)
  with assms out show ?thesis by (simp add: tracker_note_delivered_def)
qed

lemma tracker_ok_step: "tracker_ok s \<Longrightarrow> tracker_ok (snd (tracker_step e s))"
proof (cases e)
  case (Done topic p k ticket sends)
  then show "tracker_ok s \<Longrightarrow> ?thesis"
    using tracker_ok_done [of s topic p k ticket sends]
    by (cases "tracker_done topic p k ticket sends s") (auto split: option.splits)
qed (auto intro: inv_intros)

lemma tracker_ok_run: "tracker_ok s \<Longrightarrow> tracker_ok (snd (tracker_run es s))"
  by (induction es arbitrary: s) (auto simp: Let_def case_prod_beta intro: tracker_ok_step)

lemma abs_simps [simp]:
  "sp_reported (abs_tracker s) = reported s"
  "sp_tickets (abs_tracker s) = tr_tickets s"
  "(topic, p) \<in> sp_revoked (abs_tracker s) \<longleftrightarrow> pt_revoked (tr_view s topic p)"
  "sp_pending (abs_tracker s) (topic, p) = abs_pending (pt_pending (tr_view s topic p))"
  by (simp_all add: abs_tracker_def)

lemma abs_eqI:
  assumes "reported s = sp_reported a" "tr_tickets s = sp_tickets a"
    and "\<And>topic p. pt_revoked (tr_view s topic p) \<longleftrightarrow> (topic, p) \<in> sp_revoked a"
    and "\<And>topic p. abs_pending (pt_pending (tr_view s topic p)) = sp_pending a (topic, p)"
  shows "abs_tracker s = a"
  using assms by (intro tracker_spec.equality) (auto simp: abs_tracker_def fun_eq_iff)

lemma insert_refines:
  "abs_tracker (snd (tracker_insert topic p k s)) = snd (spec_step (Insert topic p k) (abs_tracker s))"
  by (rule abs_eqI) (auto simp: insert_view reported_def abs_pending_insert abs_pull_def)

lemma revoke_refines:
  "abs_tracker (tracker_revoke topic p s) = snd (spec_step (Revoke topic p) (abs_tracker s))"
  by (rule abs_eqI) (auto simp: revoke_view reported_def abs_pending_def fun_eq_iff)

lemma assign_refines:
  "abs_tracker (tracker_assign topic p s) = snd (spec_step (Assign topic p) (abs_tracker s))"
  by (rule abs_eqI) (auto simp: assign_view reported_def)

text \<open>Below the watermark nothing that waits can be committed: a partition at rest is unchanged.\<close>

lemma at_rest:
  assumes "\<And>n. {..<n} \<subseteq> R \<longleftrightarrow> n \<le> d" and "partition_ok d n st"
  shows "sp_commit R (abs_pending (pt_pending st)) = None"
    and "sp_rest R (abs_pending (pt_pending st)) = abs_pending (pt_pending st)"
proof -
  have "bt_ok (pt_pending st)" using assms(2) by (simp add: partition_ok_def)
  note ready = ready_takeWhile [OF assms(1) this]
  have "takeWhile (\<lambda>(k, pd). pending_resolved d pd) (pt_pending st) = []"
    using assms(2) by (auto simp: partition_ok_def split: list.splits)
  with ready have "sp_ready R (abs_pending (pt_pending st)) = {}" by simp
  then show "sp_commit R (abs_pending (pt_pending st)) = None"
    and "sp_rest R (abs_pending (pt_pending st)) = abs_pending (pt_pending st)"
    by (simp_all add: sp_commit_def sp_rest_def restrict_map_def)
qed

lemma tracker_ok_prefix:
  "tracker_ok s \<Longrightarrow> {..<n} \<subseteq> reported s \<longleftrightarrow> n \<le> tr_delivered s"
  by (rule reported_prefix) (simp add: tracker_ok_def)

lemma done_refines:
  assumes "tracker_ok s"
  shows "set_option (fst (tracker_done topic p k ticket sends s)) =
           fst (spec_step (Done topic p k ticket sends) (abs_tracker s))"
    and "abs_tracker (snd (tracker_done topic p k ticket sends s)) =
           snd (spec_step (Done topic p k ticket sends) (abs_tracker s))"
proof -
  have "set_option (fst (tracker_done topic p k ticket sends s)) =
          fst (spec_step (Done topic p k ticket sends) (abs_tracker s)) \<and>
        abs_tracker (snd (tracker_done topic p k ticket sends s)) =
           snd (spec_step (Done topic p k ticket sends) (abs_tracker s))"
  proof (cases "tracker_holds s topic p k ticket")
    case False
    then show ?thesis
      by (auto simp: done_not_held holds_view abs_pending_def abs_pull_def split: option.splits)
  next
    case True
    from done_effect [OF assms True, of sends] obtain pd st st' where
      st: "st = tr_view s topic p" and pd: "bt_get (pt_pending st) k = Some pd" "pd_ticket pd = ticket"
      and st': "st' = st\<lparr>pt_pending := bt_insert k (pd\<lparr>pd_done := True, pd_sends_before := sends\<rparr>) (pt_pending st)\<rparr>"
      and ok: "bt_ok (pt_pending st')"
      and out: "fst (tracker_done topic p k ticket sends s) =
         map_option (\<lambda>o'. (topic, p, o')) (fst (partition_resolve (tr_delivered s) st'))"
      and view: "\<And>topic' p'. tr_view (snd (tracker_done topic p k ticket sends s)) topic' p' =
         (if topic' = topic \<and> p' = p then snd (partition_resolve (tr_delivered s) st')
          else tr_view s topic' p')" by metis
    let ?m = "(abs_pending (pt_pending st))(k \<mapsto> (ticket, Some sends))"
    have m: "abs_pending (pt_pending st') = ?m"
      using pd by (simp add: st' abs_pending_insert abs_pull_def)
    have spec: "spec_step (Done topic p k ticket sends) (abs_tracker s) =
        ({(topic, p, o') | o'. sp_commit (reported s) ?m = Some o'},
         (abs_tracker s)\<lparr>sp_pending := (sp_pending (abs_tracker s))((topic, p) := sp_rest (reported s) ?m)\<rparr>)"
      using pd by (simp add: st [symmetric] abs_pending_def abs_pull_def Let_def)
    have rev: "pt_revoked st' = pt_revoked st" by (simp add: st')
    note r = resolve_refines [OF tracker_ok_prefix [OF assms] ok]
    have "set_option (fst (tracker_done topic p k ticket sends s)) =
            fst (spec_step (Done topic p k ticket sends) (abs_tracker s))"
      unfolding spec out r(1) m by (auto simp: image_def)
    moreover have "abs_tracker (snd (tracker_done topic p k ticket sends s)) =
           snd (spec_step (Done topic p k ticket sends) (abs_tracker s))"
      unfolding spec
      by (rule abs_eqI) (auto simp: view r(2) m rev st)
    ultimately show ?thesis by blast
  qed
  then show "set_option (fst (tracker_done topic p k ticket sends s)) =
          fst (spec_step (Done topic p k ticket sends) (abs_tracker s))"
    and "abs_tracker (snd (tracker_done topic p k ticket sends s)) =
           snd (spec_step (Done topic p k ticket sends) (abs_tracker s))" by blast+
qed

lemma note_delivered_refines:
  assumes "tracker_ok s"
  shows "set (fst (tracker_note_delivered i s)) =
           fst (spec_step (Note_Delivered i) (abs_tracker s))"
    and "abs_tracker (snd (tracker_note_delivered i s)) =
           snd (spec_step (Note_Delivered i) (abs_tracker s))"
proof -
  let ?R = "insert i (reported s)"
  have okp: "\<And>topic p. partition_ok (tr_delivered s) (tr_tickets s) (tr_view s topic p)"
    and w: "watermark_ok (tr_delivered s) (tr_out_of_order s)"
    and srt: "tracker_sorted s" using assms by (auto simp: tracker_ok_def)
  have "set (fst (tracker_note_delivered i s)) = fst (spec_step (Note_Delivered i) (abs_tracker s)) \<and>
        abs_tracker (snd (tracker_note_delivered i s)) = snd (spec_step (Note_Delivered i) (abs_tracker s))"
  proof (cases "i = tr_delivered s")
    case False
    define s' where "s' = snd (tracker_note_delivered i s)"
    have s': "tr_view s' = tr_view s" "tr_tickets s' = tr_tickets s" "reported s' = ?R"
      "tr_delivered s' = tr_delivered s" and out: "fst (tracker_note_delivered i s) = []"
      using False by (auto simp: s'_def tracker_note_delivered_def reported_def intro!: tr_view_cong)
    have "tracker_ok s'" unfolding s'_def by (rule tracker_ok_note_delivered [OF assms])
    then have R: "\<And>n. {..<n} \<subseteq> ?R \<longleftrightarrow> n \<le> tr_delivered s"
      using tracker_ok_prefix [of s'] s' by simp
    have "abs_tracker s' = snd (spec_step (Note_Delivered i) (abs_tracker s))"
      by (rule abs_eqI) (auto simp: s' at_rest(2) [OF R okp] Let_def)
    with out show ?thesis
      by (auto simp: s'_def Let_def at_rest(1) [OF R okp])
  next
    case True
    define a where "a = tracker_advance s"
    have eq: "tracker_note_delivered i s = tracker_resolve_all a"
      using True by (simp add: tracker_note_delivered_def a_def)
    have R: "reported a = ?R" and a: "tr_view a = tr_view s" "tr_tickets a = tr_tickets s" "tracker_sorted a"
      using True advance_watermark(2) [OF w] srt by (simp_all add: a_def)
    have pre: "\<And>n. {..<n} \<subseteq> ?R \<longleftrightarrow> n \<le> tr_delivered a"
      using reported_prefix [OF advance_watermark(1) [OF w]] R by (simp add: a_def)
    note r = resolve_refines [OF pre]
    have okt: "bt_ok (pt_pending (tr_view s topic p))" for topic p
      using okp [of topic p] by (simp add: partition_ok_def)
    have "set (fst (tracker_note_delivered i s)) = fst (spec_step (Note_Delivered i) (abs_tracker s))"
      unfolding eq by (auto simp: resolve_all_stored [OF a(3)] a r(1) [OF okt] Let_def)
    moreover have "abs_tracker (snd (tracker_note_delivered i s)) =
          snd (spec_step (Note_Delivered i) (abs_tracker s))"
      unfolding eq
      by (rule abs_eqI) (auto simp: resolve_all_view a r(2) [OF okt] Let_def R)
    ultimately show ?thesis by blast
  qed
  then show "set (fst (tracker_note_delivered i s)) = fst (spec_step (Note_Delivered i) (abs_tracker s))"
    and "abs_tracker (snd (tracker_note_delivered i s)) = snd (spec_step (Note_Delivered i) (abs_tracker s))"
    by blast+
qed

lemma tracker_step_refines:
  assumes "tracker_ok s"
  shows "set (fst (tracker_step e s)) = fst (spec_step e (abs_tracker s))"
    and "abs_tracker (snd (tracker_step e s)) = snd (spec_step e (abs_tracker s))"
proof -
  have "set (fst (tracker_step e s)) = fst (spec_step e (abs_tracker s)) \<and>
        abs_tracker (snd (tracker_step e s)) = snd (spec_step e (abs_tracker s))"
  proof (cases e)
    case (Done topic p k ticket sends)
    have "set (fst (tracker_step e s)) = set_option (fst (tracker_done topic p k ticket sends s))"
      "snd (tracker_step e s) = snd (tracker_done topic p k ticket sends s)"
      by (auto simp: Done split: prod.splits option.splits)
    with Done done_refines [OF assms, of topic p k ticket sends] show ?thesis by simp
  next
    case (Note_Delivered i)
    then show ?thesis using note_delivered_refines [OF assms, of i] by simp
  next
    case (Insert topic p k)
    have "fst (spec_step (Insert topic p k) (abs_tracker s)) = {}" by simp
    with Insert insert_refines [of topic p k s] show ?thesis by (simp del: spec_step.simps)
  next
    case (Revoke topic p)
    have "fst (spec_step (Revoke topic p) (abs_tracker s)) = {}" by simp
    with Revoke revoke_refines [of topic p s] show ?thesis by (simp del: spec_step.simps)
  next
    case (Assign topic p)
    have "fst (spec_step (Assign topic p) (abs_tracker s)) = {}" by simp
    with Assign assign_refines [of topic p s] show ?thesis by (simp del: spec_step.simps)
  qed
  then show "set (fst (tracker_step e s)) = fst (spec_step e (abs_tracker s))"
    and "abs_tracker (snd (tracker_step e s)) = snd (spec_step e (abs_tracker s))" by blast+
qed

lemma tracker_run_refines_from:
  "tracker_ok s \<Longrightarrow>
     map set (fst (tracker_run es s)) = fst (spec_run es (abs_tracker s)) \<and>
     abs_tracker (snd (tracker_run es s)) = snd (spec_run es (abs_tracker s))"
proof (induction es arbitrary: s)
  case (Cons e es)
  show ?case
    using Cons.IH [OF tracker_ok_step [OF Cons.prems, of e]] tracker_step_refines [OF Cons.prems, of e]
    by (auto simp: Let_def case_prod_beta simp del: tracker_step.simps spec_step.simps)
qed simp

text \<open>The states a tracker can be in.\<close>

abbreviation tracker_after :: "tracker_event list \<Rightarrow> tracker" where
  "tracker_after es \<equiv> snd (tracker_run es tracker_default)"

lemma tracker_ok_after: "tracker_ok (tracker_after es)"
  by (rule tracker_ok_run) simp

lemma tracker_run_append:
  "snd (tracker_run (es @ fs) s) = snd (tracker_run fs (snd (tracker_run es s)))"
  by (induction es arbitrary: s) (auto simp: Let_def case_prod_beta)

text \<open>A committed offset, read off the specification.\<close>

lemma sp_commit_SomeD:
  assumes "sp_commit R m = Some k" and "finite (dom m)" and "m k' = Some e" and "k' \<le> k"
  shows "sp_resolved R e" and "sp_rest R m k' = None"
proof -
  have "finite (sp_ready R m)" using assms(2) by (rule rev_finite_subset) (auto simp: sp_ready_def)
  then have "k \<in> sp_ready R m"
    using assms(1) Max_in by (fastforce simp: sp_commit_def split: if_splits)
  then have all: "\<And>j e'. j \<le> k \<Longrightarrow> m j = Some e' \<Longrightarrow> sp_resolved R e'"
    unfolding sp_ready_def by blast
  have "sp_resolved R e" using all assms(3,4) by blast
  moreover have "k' \<in> sp_ready R m"
    unfolding sp_ready_def using all assms(3,4) by (blast intro: order_trans)
  ultimately have "sp_resolved R e" "k' \<in> sp_ready R m" by blast+
  then show "sp_resolved R e" "sp_rest R m k' = None" by (auto simp: sp_rest_def)
qed

lemma finite_abs_pending: "finite (dom (abs_pending t))"
  by (simp add: abs_pending_dom)

text \<open>Tickets below a bound stay out of a partition that holds none of them.\<close>

definition only_from :: "nat \<Rightarrow> string \<Rightarrow> int \<Rightarrow> tracker \<Rightarrow> bool" where
  "only_from n topic p s \<longleftrightarrow> n \<le> tr_tickets s \<and>
     (\<forall>k e. sp_pending (abs_tracker s) (topic, p) k = Some e \<longrightarrow> n \<le> fst e)"

lemma sp_rest_le: "sp_rest R m k = Some e \<Longrightarrow> m k = Some e"
  by (auto simp: sp_rest_def restrict_map_def split: if_splits)

lemma only_from_step:
  assumes "tracker_ok s" and "only_from n topic p s"
  shows "only_from n topic p (snd (tracker_step e s))"
proof -
  have le: "n \<le> sp_tickets (abs_tracker s)" using assms(2) by (simp add: only_from_def)
  have old: "\<And>k e. sp_pending (abs_tracker s) (topic, p) k = Some e \<Longrightarrow> n \<le> fst e"
    using assms(2) unfolding only_from_def by blast
  have "n \<le> sp_tickets (snd (spec_step e (abs_tracker s))) \<and>
      (\<forall>k x. sp_pending (snd (spec_step e (abs_tracker s))) (topic, p) k = Some x \<longrightarrow> n \<le> fst x)"
    using le old
    by (cases e) (fastforce simp: Let_def dest!: sp_rest_le split: option.splits if_splits)+
  then show ?thesis
    by (simp add: only_from_def tracker_step_refines(2) [OF assms(1), symmetric])
qed

lemma only_from_run:
  "tracker_ok s \<Longrightarrow> only_from n topic p s \<Longrightarrow> only_from n topic p (snd (tracker_run es s))"
  by (induction es arbitrary: s)
    (auto simp: Let_def case_prod_beta intro: only_from_step tracker_ok_step)

lemma only_from_not_held:
  "only_from n topic p s \<Longrightarrow> ticket < n \<Longrightarrow> \<not> tracker_holds s topic p k ticket"
  by (fastforce simp: only_from_def holds_view abs_pending_def abs_pull_def)

section \<open>Properties\<close>

text \<open>
  C1. Over every sequence of calls the tracker answers what the specification answers and
  ends in a state that abstracts to the specification's: the watermark, the early exits of
  \<open>note_delivered\<close> and the leading-prefix loop lose no commit and invent none.
\<close>

theorem tracker_refines_spec:
  "map set (fst (tracker_run es tracker_default)) = fst (spec_run es spec_init) \<and>
   abs_tracker (snd (tracker_run es tracker_default)) = snd (spec_run es spec_init)"
  using tracker_run_refines_from [of tracker_default es] by (simp add: abs_default)

text \<open>
  C2. An offset is handed over for commit only when every record still outstanding at or
  before it in its partition is finished (this call's \<open>done\<close> included) and every send
  numbered below what that record waits for is reported; those records then leave.
\<close>

theorem tracker_commit_safe:
  assumes "tracker_step e (tracker_after es) = (out, s')"
    and "(topic, p, k) \<in> set out" and "k' \<le> k"
    and "bt_get (pt_pending (tr_view (tracker_after es) topic p)) k' = Some pd"
  shows "(\<exists>n. (e = Done topic p k' (pd_ticket pd) n \<or> pd_done pd \<and> n = pd_sends_before pd) \<and>
            {..<n} \<subseteq> reported s') \<and>
         bt_get (pt_pending (tr_view s' topic p)) k' = None"
proof -
  let ?s = "tracker_after es"
  let ?a = "abs_tracker ?s"
  have out: "set out = fst (spec_step e ?a)" and s': "abs_tracker s' = snd (spec_step e ?a)"
    using tracker_step_refines [OF tracker_ok_after, of e es] assms(1) by simp_all
  have pend: "sp_pending ?a (topic, p) k' = Some (abs_pull pd)"
    using assms(4) by (simp add: abs_pending_def)
  have fin: "finite (dom (sp_pending ?a (topic, p)))"
    by (simp add: finite_abs_pending)
  have res: "sp_resolved (reported s') (abs_pull pd) \<Longrightarrow> pd_done pd \<and> {..<pd_sends_before pd} \<subseteq> reported s'"
    by (auto simp: sp_resolved_def abs_pull_def split: if_splits)
  have gone: "sp_pending (abs_tracker s') (topic, p) k' = None \<Longrightarrow>
      bt_get (pt_pending (tr_view s' topic p)) k' = None"
    by (simp add: abs_pending_def)
  from assms(2) out have "(topic, p, k) \<in> fst (spec_step e ?a)" by simp
  then consider (report) i where "e = Note_Delivered i"
      "sp_commit (insert i (reported ?s)) (sp_pending ?a (topic, p)) = Some k"
    | (finish) j t n c where "e = Done topic p j t n" "sp_pending ?a (topic, p) j = Some (t, c)"
        "sp_commit (reported ?s) ((sp_pending ?a (topic, p))(j \<mapsto> (t, Some n))) = Some k"
    by (cases e) (auto simp: Let_def split: option.splits if_splits)
  then show ?thesis
  proof cases
    case report
    have "reported s' = insert i (reported ?s)"
      using arg_cong [OF s', of sp_reported] report(1) by (simp add: Let_def)
    then have "sp_resolved (reported s') (abs_pull pd)"
      and "sp_pending (abs_tracker s') (topic, p) k' = None"
      using sp_commit_SomeD [OF report(2) fin pend assms(3)] report(1) s' by (simp_all add: Let_def)
    with res gone show ?thesis by blast
  next
    case finish
    let ?m = "(sp_pending ?a (topic, p))(j \<mapsto> (t, Some n))"
    have rep: "reported s' = reported ?s"
      using arg_cong [OF s', of sp_reported] finish(1,2) by (simp add: Let_def)
    have "finite (dom ?m)" using fin by simp
    note commit = sp_commit_SomeD [OF finish(3) this _ assms(3)]
    have after: "sp_pending (abs_tracker s') (topic, p) = sp_rest (reported ?s) ?m"
      using s' finish(1,2) by (simp add: Let_def)
    show ?thesis
    proof (cases "k' = j")
      case True
      then have "?m k' = Some (t, Some n)" "t = pd_ticket pd"
        using pend finish(2) by (auto simp: abs_pull_def)
      with commit [of "(t, Some n)"] show ?thesis
        using gone after rep finish(1) True by (auto simp: sp_resolved_def)
    next
      case False
      then have "?m k' = Some (abs_pull pd)" using pend by simp
      with commit show ?thesis using gone after rep res by metis
    qed
  qed
qed

theorem tracker_commit_safe_witness:
  "let es = [Insert ''t'' 0 5, Insert ''t'' 0 6, Done ''t'' 0 6 1 0]; e = Done ''t'' 0 5 0 0;
       s = tracker_after es; s' = snd (tracker_step e s)
   in fst (tracker_step e s) = [(''t'', 0, 6)] \<and> bt_get (pt_pending (tr_view s' ''t'' 0)) 6 = None"
proof -
  let ?es = "[Insert ''t'' 0 5, Insert ''t'' 0 6, Done ''t'' 0 6 1 0]"
  let ?e = "Done ''t'' 0 5 0 0"
  have out: "fst (tracker_step ?e (tracker_after ?es)) = [(''t'', 0, 6)]" by code_simp
  have pd: "bt_get (pt_pending (tr_view (tracker_after ?es) ''t'' 0)) 6 =
      Some \<lparr>pd_ticket = 1, pd_done = True, pd_sends_before = 0\<rparr>" by code_simp
  have "tracker_step ?e (tracker_after ?es) = ([(''t'', 0, 6)], snd (tracker_step ?e (tracker_after ?es)))"
    using out by (metis prod.collapse)
  from tracker_commit_safe [OF this _ _ pd, of 6] out show ?thesis by (simp add: Let_def)
qed

text \<open>
  No commit is left behind: between calls, the first outstanding record of a partition
  is never both finished and clear of unreported sends.
\<close>

theorem tracker_commit_complete:
  assumes "pt_pending (tr_view (tracker_after es) topic p) = (k, pd) # rest"
  shows "\<not> (pd_done pd \<and> {..<pd_sends_before pd} \<subseteq> reported (tracker_after es))"
proof -
  have "partition_ok (tr_delivered (tracker_after es)) (tr_tickets (tracker_after es))
          (tr_view (tracker_after es) topic p)"
    using tracker_ok_after [of es] by (simp add: tracker_ok_def)
  with assms have "\<not> pending_resolved (tr_delivered (tracker_after es)) pd"
    by (simp add: partition_ok_def)
  then show ?thesis by (simp add: pending_resolved_def tracker_ok_prefix [OF tracker_ok_after])
qed

theorem tracker_commit_complete_witness:
  "let s = tracker_after [Insert ''t'' 0 5, Done ''t'' 0 5 0 2, Note_Delivered 1]
   in \<not> {..<2} \<subseteq> reported s"
proof -
  let ?es = "[Insert ''t'' 0 5, Done ''t'' 0 5 0 2, Note_Delivered 1]"
  have "pt_pending (tr_view (tracker_after ?es) ''t'' 0) =
      [(5, \<lparr>pd_ticket = 0, pd_done = True, pd_sends_before = 2\<rparr>)]" by code_simp
  from tracker_commit_complete [OF this] show ?thesis by (simp add: Let_def)
qed

text \<open>
  A pull dropped by a revoke never comes back: whatever happens after the revoke, no
  ticket handed out before it is held in that partition, and finishing such a pull neither
  commits anything nor changes the tracker, even where its offset has been pulled again.
\<close>

theorem tracker_revoked_ticket_dead:
  assumes "ticket < tr_tickets (tracker_after es)"
  shows "\<not> tracker_holds (tracker_after (es @ Revoke topic p # fs)) topic p k ticket \<and>
         tracker_step (Done topic p k ticket sends) (tracker_after (es @ Revoke topic p # fs)) =
           ([], tracker_after (es @ Revoke topic p # fs))"
proof -
  let ?s = "tracker_revoke topic p (tracker_after es)"
  have "tracker_ok ?s" by (intro inv_intros tracker_ok_after)
  moreover have "only_from (tr_tickets (tracker_after es)) topic p ?s"
    by (auto simp: only_from_def revoke_view abs_pending_def)
  ultimately have "only_from (tr_tickets (tracker_after es)) topic p (snd (tracker_run fs ?s))"
    by (rule only_from_run)
  moreover have "tracker_after (es @ Revoke topic p # fs) = snd (tracker_run fs ?s)"
    by (simp add: tracker_run_append Let_def case_prod_beta)
  ultimately have "\<not> tracker_holds (tracker_after (es @ Revoke topic p # fs)) topic p k ticket"
    using assms only_from_not_held by simp
  then show ?thesis by (simp add: done_not_held)
qed

theorem tracker_revoked_ticket_dead_witness:
  "tracker_holds (tracker_after [Insert ''t'' 0 5, Revoke ''t'' 0, Assign ''t'' 0, Insert ''t'' 0 5]) ''t'' 0 5 1 \<and>
   \<not> tracker_holds (tracker_after [Insert ''t'' 0 5, Revoke ''t'' 0, Assign ''t'' 0, Insert ''t'' 0 5]) ''t'' 0 5 0"
proof -
  have "0 < tr_tickets (tracker_after [Insert ''t'' 0 5])" by code_simp
  from tracker_revoked_ticket_dead [OF this, of "''t''" 0 "[Assign ''t'' 0, Insert ''t'' 0 5]" 5 0]
  have "\<not> tracker_holds (tracker_after [Insert ''t'' 0 5, Revoke ''t'' 0, Assign ''t'' 0, Insert ''t'' 0 5]) ''t'' 0 5 0"
    by simp
  moreover have "tracker_holds (tracker_after [Insert ''t'' 0 5, Revoke ''t'' 0, Assign ''t'' 0, Insert ''t'' 0 5]) ''t'' 0 5 1"
    by code_simp
  ultimately show ?thesis by blast
qed
end
