(* ===== verification/Kafka_Commit.thy ===== *)
theory Kafka_Commit
  imports Kafka_Tracker_Spec
begin

text \<open>
  What the delivery loop relies on of the offset tracker, as a contract: which pulls are
  outstanding, with the ticket of each and whether it is finished, how each event changes
  that, and when an offset may be handed over for commit. The tracker provides it.
\<close>

locale commit_log =
  fixes step :: "tracker_event \<Rightarrow> 't \<Rightarrow> stored list \<times> 't"
    and ok :: "'t \<Rightarrow> bool"
    and tickets :: "'t \<Rightarrow> nat"
    and out :: "'t \<Rightarrow> string \<times> int \<Rightarrow> int \<Rightarrow> (nat \<times> bool) option"
  assumes ok_step: "ok s \<Longrightarrow> ok (snd (step e s))"
    and out_ticket: "ok s \<Longrightarrow> out s tp k = Some (t, f) \<Longrightarrow> t < tickets s"
    and tickets_step:
      "ok s \<Longrightarrow> tickets (snd (step e s)) = (case e of Insert _ _ _ \<Rightarrow> Suc (tickets s) | _ \<Rightarrow> tickets s)"
    and out_step:
      "ok s \<Longrightarrow> out (snd (step e s)) tp k = Some (t, f) \<Longrightarrow>
       (\<exists>topic p. e = Insert topic p k \<and> tp = (topic, p) \<and> t = tickets s \<and> \<not> f) \<or>
       (\<exists>f0. out s tp k = Some (t, f0) \<and>
          (f \<longrightarrow> f0 \<or> (\<exists>topic p n. e = Done topic p k t n \<and> tp = (topic, p))))"
    and commit_step:
      "ok s \<Longrightarrow> (topic, p, k) \<in> set (fst (step e s)) \<Longrightarrow> k' \<le> k \<Longrightarrow> out s (topic, p) k' = Some (t, f) \<Longrightarrow>
       f \<or> (\<exists>n. e = Done topic p k' t n)"
begin

text \<open>A pull that nobody finishes holds every later offset of its partition back.\<close>

lemma unfinished_blocks:
  assumes "ok s" and "out s (topic, p) k' = Some (t, False)" and "\<And>n. e \<noteq> Done topic p k' t n"
    and "(topic, p, k) \<in> set (fst (step e s))"
  shows "k < k'"
  using commit_step [OF assms(1,4) _ assms(2)] assms(3) by (meson leI)

text \<open>Only its own ticket finishes a pull.\<close>

lemma finished_by_ticket:
  assumes "ok s" and "out (snd (step e s)) tp k = Some (t, True)" and "t < tickets s"
  shows "out s tp k = Some (t, True) \<or> (\<exists>topic p n. e = Done topic p k t n \<and> tp = (topic, p))"
  using out_step [OF assms(1,2)] assms(3) by auto

end

section \<open>The tracker provides it\<close>

definition tracker_out :: "tracker \<Rightarrow> string \<times> int \<Rightarrow> int \<Rightarrow> (nat \<times> bool) option" where
  "tracker_out s tp k =
     map_option (\<lambda>pd. (pd_ticket pd, pd_done pd)) (bt_get (pt_pending (tr_view s (fst tp) (snd tp))) k)"

lemma tracker_out_abs:
  "tracker_out s tp k = map_option (\<lambda>e. (fst e, snd e \<noteq> None)) (sp_pending (abs_tracker s) tp k)"
  by (cases tp; cases "bt_get (pt_pending (tr_view s (fst tp) (snd tp))) k")
    (auto simp: tracker_out_def abs_pending_def abs_pull_def)

lemma holds_out: "tracker_holds s topic p k ticket \<longleftrightarrow> (\<exists>f. tracker_out s (topic, p) k = Some (ticket, f))"
  by (auto simp: holds_view tracker_out_def)

lemma tracker_out_ticket:
  assumes "tracker_ok s" and "tracker_out s tp k = Some (t, f)"
  shows "t < tr_tickets s"
proof -
  obtain pd where pd: "bt_get (pt_pending (tr_view s (fst tp) (snd tp))) k = Some pd" "t = pd_ticket pd"
    using assms(2) by (auto simp: tracker_out_def)
  have "partition_ok (tr_delivered s) (tr_tickets s) (tr_view s (fst tp) (snd tp))"
    using assms(1) by (simp add: tracker_ok_def)
  then have "\<forall>e\<in>set (pt_pending (tr_view s (fst tp) (snd tp))). pd_ticket (snd e) < tr_tickets s"
    by (simp add: partition_ok_def)
  from bspec [OF this map_of_SomeD [OF pd(1)]] pd(2) show ?thesis by simp
qed

lemma spec_pending_step:
  "sp_pending (snd (spec_step e a)) tp k = Some (t, c) \<Longrightarrow>
     (\<exists>topic p. e = Insert topic p k \<and> tp = (topic, p) \<and> t = sp_tickets a \<and> c = None) \<or>
     (\<exists>c0. sp_pending a tp k = Some (t, c0) \<and>
        (c \<noteq> None \<longrightarrow> c0 \<noteq> None \<or> (\<exists>topic p n. e = Done topic p k t n \<and> tp = (topic, p))))"
  by (cases e) (auto simp: Let_def dest!: sp_rest_le split: option.splits if_splits)

lemma spec_commit_step:
  assumes "(topic, p, k) \<in> fst (spec_step e a)" and "\<And>tp. finite (dom (sp_pending a tp))"
    and "k' \<le> k" and "sp_pending a (topic, p) k' = Some x"
  shows "snd x \<noteq> None \<or> (\<exists>n. e = Done topic p k' (fst x) n)"
proof -
  from assms(1) consider (report) i where "sp_commit (insert i (sp_reported a)) (sp_pending a (topic, p)) = Some k"
    | (finish) j t n c where "e = Done topic p j t n" "sp_pending a (topic, p) j = Some (t, c)"
        "sp_commit (sp_reported a) ((sp_pending a (topic, p))(j \<mapsto> (t, Some n))) = Some k"
    by (cases e) (auto simp: Let_def split: option.splits if_splits)
  then show ?thesis
  proof cases
    case report
    then have "sp_resolved (insert i (sp_reported a)) x"
      by (rule sp_commit_SomeD(1) [OF _ assms(2,4,3)])
    then show ?thesis by (auto simp: sp_resolved_def)
  next
    case finish
    have fin: "finite (dom ((sp_pending a (topic, p))(j \<mapsto> (t, Some n))))" using assms(2) by simp
    show ?thesis
    proof (cases "k' = j")
      case True
      with finish assms(4) show ?thesis by auto
    next
      case False
      then have "sp_resolved (sp_reported a) x"
        using sp_commit_SomeD(1) [OF finish(3) fin _ assms(3)] assms(4) by simp
      then show ?thesis by (auto simp: sp_resolved_def)
    qed
  qed
qed

interpretation commits: commit_log tracker_step tracker_ok tr_tickets tracker_out
proof unfold_locales
  fix s e assume ok: "tracker_ok s"
  note abs = tracker_step_refines(2) [OF ok, of e]
  show "tracker_ok (snd (tracker_step e s))" by (rule tracker_ok_step [OF ok])
  have t: "tr_tickets (snd (tracker_step e s)) = sp_tickets (snd (spec_step e (abs_tracker s)))"
    using arg_cong [OF abs, of sp_tickets] by simp
  show "tr_tickets (snd (tracker_step e s)) =
      (case e of Insert _ _ _ \<Rightarrow> Suc (tr_tickets s) | _ \<Rightarrow> tr_tickets s)"
    unfolding t by (cases e) (auto simp: Let_def split: option.splits)
  show "(\<exists>topic p. e = Insert topic p k \<and> tp = (topic, p) \<and> t = tr_tickets s \<and> \<not> f) \<or>
       (\<exists>f0. tracker_out s tp k = Some (t, f0) \<and>
          (f \<longrightarrow> f0 \<or> (\<exists>topic p n. e = Done topic p k t n \<and> tp = (topic, p))))"
    if out: "tracker_out (snd (tracker_step e s)) tp k = Some (t, f)" for tp k t f
  proof -
    obtain c where c: "sp_pending (snd (spec_step e (abs_tracker s))) tp k = Some (t, c)" "f \<longleftrightarrow> c \<noteq> None"
      using out abs by (auto simp: tracker_out_abs)
    from spec_pending_step [OF c(1)] show ?thesis
      unfolding tracker_out_abs using c(2) by fastforce
  qed
  show "f \<or> (\<exists>n. e = Done topic p k' t n)"
    if c: "(topic, p, k) \<in> set (fst (tracker_step e s))" and le: "k' \<le> k"
      and o1: "tracker_out s (topic, p) k' = Some (t, f)"
    for topic p k k' t f
  proof -
    have "(topic, p, k) \<in> fst (spec_step e (abs_tracker s))"
      using c tracker_step_refines(1) [OF ok, of e] by simp
    moreover obtain x where "sp_pending (abs_tracker s) (topic, p) k' = Some x" "t = fst x" "f \<longleftrightarrow> snd x \<noteq> None"
      using o1 by (auto simp: tracker_out_abs)
    moreover have "finite (dom (sp_pending (abs_tracker s) tp))" for tp
      by (cases tp) (simp add: finite_abs_pending)
    ultimately show ?thesis using spec_commit_step [OF _ _ le] by metis
  qed
qed (rule tracker_out_ticket)

end
