(* ===== verification/Rust_Text.thy ===== *)
theory Rust_Text
  imports Prelude
begin

text \<open>
  The string operations of the standard library that the backends use. A \<open>str\<close> is the list
  of its UTF-8 bytes, one \<open>char\<close> each, so slicing, searching for an ASCII separator and
  comparing are what Rust does on the bytes.
\<close>

section \<open>Prefixes and substrings\<close>

fun strip_prefix :: "'a list \<Rightarrow> 'a list \<Rightarrow> 'a list option" where
  "strip_prefix [] s = Some s"
| "strip_prefix (p # ps) [] = None"
| "strip_prefix (p # ps) (c # cs) = (if p = c then strip_prefix ps cs else None)"

definition starts_with :: "'a list \<Rightarrow> 'a list \<Rightarrow> bool" where
  "starts_with s p \<longleftrightarrow> strip_prefix p s \<noteq> None"

definition ends_with :: "'a list \<Rightarrow> 'a list \<Rightarrow> bool" where
  "ends_with s p \<longleftrightarrow> starts_with (rev s) (rev p)"

fun str_contains :: "'a list \<Rightarrow> 'a list \<Rightarrow> bool" where
  "str_contains [] p \<longleftrightarrow> p = []"
| "str_contains (c # cs) p \<longleftrightarrow> starts_with (c # cs) p \<or> str_contains cs p"

lemma strip_prefix_Some [simp]: "strip_prefix p s = Some r \<longleftrightarrow> s = p @ r"
  by (induction p s rule: strip_prefix.induct) auto

lemma strip_prefix_append [simp]: "strip_prefix p (p @ r) = Some r"
  by (simp only: strip_prefix_Some)

lemma strip_prefix_None: "strip_prefix p s = None \<longleftrightarrow> (\<nexists>r. s = p @ r)"
  by (metis not_Some_eq strip_prefix_Some)

lemma starts_with_iff: "starts_with s p \<longleftrightarrow> (\<exists>r. s = p @ r)"
  by (simp add: starts_with_def)

lemma ends_with_iff: "ends_with s p \<longleftrightarrow> (\<exists>r. s = r @ p)"
  by (metis ends_with_def rev_append rev_rev_ident starts_with_iff)

lemma str_contains_iff: "str_contains s p \<longleftrightarrow> (\<exists>a b. s = a @ p @ b)"
proof (induction s)
  case Nil
  then show ?case by auto
next
  case (Cons c cs)
  have "(\<exists>a b. c # cs = a @ p @ b) \<longleftrightarrow> (\<exists>b. c # cs = p @ b) \<or> (\<exists>a b. cs = a @ p @ b)"
    by (metis append_Cons append_Nil append_eq_Cons_conv)
  with Cons show ?case by (simp add: starts_with_iff)
qed

definition strip_suffix :: "'a list \<Rightarrow> 'a list \<Rightarrow> 'a list option" where
  "strip_suffix p s = map_option rev (strip_prefix (rev p) (rev s))"

lemma strip_suffix_Some: "strip_suffix p s = Some r \<longleftrightarrow> s = r @ p"
proof -
  have "rev s = rev p @ q \<longleftrightarrow> s = rev q @ p" for q by (metis rev_append rev_rev_ident)
  then show ?thesis by (auto simp: strip_suffix_def intro: exI [of _ "rev r"])
qed

text \<open>\<open>Iterator::find_map\<close>.\<close>

fun find_map :: "('a \<Rightarrow> 'b option) \<Rightarrow> 'a list \<Rightarrow> 'b option" where
  "find_map f [] = None"
| "find_map f (x # xs) = (case f x of None \<Rightarrow> find_map f xs | Some y \<Rightarrow> Some y)"

lemma find_map_Some: "find_map f xs = Some y \<Longrightarrow> \<exists>x \<in> set xs. f x = Some y"
  by (induction xs) (auto split: option.split_asm)

section \<open>Splitting on a character\<close>

fun str_split :: "'a \<Rightarrow> 'a list \<Rightarrow> 'a list list" where
  "str_split c [] = [[]]"
| "str_split c (x # xs) =
     (if x = c then [] # str_split c xs
      else (case str_split c xs of p # ps \<Rightarrow> (x # p) # ps | [] \<Rightarrow> [[x]]))"

fun str_join :: "'a list \<Rightarrow> 'a list list \<Rightarrow> 'a list" where
  "str_join sep [] = []"
| "str_join sep [p] = p"
| "str_join sep (p # q # ps) = p @ sep @ str_join sep (q # ps)"

lemma str_split_not_Nil [simp]: "str_split c s \<noteq> []"
  by (induction s) (auto split: list.splits)

lemma str_split_no_sep: "p \<in> set (str_split c s) \<Longrightarrow> c \<notin> set p"
  by (induction s arbitrary: p) (auto split: list.splits if_splits)

lemma str_join_split [simp]: "str_join [c] (str_split c s) = s"
proof (induction s)
  case Nil
  then show ?case by simp
next
  case (Cons x xs)
  obtain p ps where split: "str_split c xs = p # ps"
    using str_split_not_Nil by (metis neq_Nil_conv)
  with Cons show ?case by (cases ps) auto
qed

lemma str_split_no: "c \<notin> set s \<Longrightarrow> str_split c s = [s]"
  by (induction s) auto

lemma str_split_append:
  "c \<notin> set p \<Longrightarrow> str_split c (p @ c # s) = p # str_split c s"
  by (induction p) auto

lemma str_split_join:
  "ps \<noteq> [] \<Longrightarrow> (\<And>p. p \<in> set ps \<Longrightarrow> c \<notin> set p) \<Longrightarrow> str_split c (str_join [c] ps) = ps"
  by (induction "[c]" ps rule: str_join.induct) (auto simp: str_split_no str_split_append)

text \<open>The last piece, \<open>rsplit(c).next()\<close>.\<close>

lemma str_split_last: "c \<notin> set b \<Longrightarrow> last (str_split c (a @ c # b)) = b"
proof (induction a)
  case Nil
  then show ?case by (simp add: str_split_no)
next
  case (Cons x a)
  obtain p ps where "str_split c (a @ c # b) = p # ps" using str_split_not_Nil by (metis neq_Nil_conv)
  moreover have "ps \<noteq> []"
  proof
    assume "ps = []"
    with calculation have "a @ c # b = p" using str_join_split [of c "a @ c # b"] by simp
    with calculation show False using str_split_no_sep [of p c "a @ c # b"] by auto
  qed
  ultimately show ?case using Cons by auto
qed

lemma last_component_iff:
  "name = last (str_split c path) \<longleftrightarrow>
     c \<notin> set name \<and> (\<exists>dir. path = name \<and> dir = [] \<or> path = dir @ c # name)"
proof -
  have "c \<notin> set (last (str_split c path))" by (rule str_split_no_sep) (rule last_in_set, simp)
  moreover have "\<exists>dir. path = last (str_split c path) \<and> dir = [] \<or> path = dir @ c # last (str_split c path)"
  proof (cases "c \<in> set path")
    case True
    then obtain a b where "path = a @ c # b" "c \<notin> set b" by (metis split_list_last)
    then show ?thesis using str_split_last [of c b a] by auto
  next
    case False
    then show ?thesis by (simp add: str_split_no)
  qed
  ultimately show ?thesis using str_split_last [of c name] str_split_no by (metis last.simps)
qed

text \<open>\<open>split_once\<close> at the first occurrence, \<open>rsplit_once\<close> at the last.\<close>

fun split_once :: "'a \<Rightarrow> 'a list \<Rightarrow> ('a list \<times> 'a list) option" where
  "split_once c [] = None"
| "split_once c (x # xs) =
     (if x = c then Some ([], xs) else map_option (\<lambda>(a, b). (x # a, b)) (split_once c xs))"

definition rsplit_once :: "'a \<Rightarrow> 'a list \<Rightarrow> ('a list \<times> 'a list) option" where
  "rsplit_once c s = map_option (\<lambda>(a, b). (rev b, rev a)) (split_once c (rev s))"

text \<open>\<open>split_once\<close> with a string for its separator.\<close>

fun split_once_str :: "'a list \<Rightarrow> 'a list \<Rightarrow> ('a list \<times> 'a list) option" where
  "split_once_str sep s =
     (case strip_prefix sep s of
        Some r \<Rightarrow> Some ([], r)
      | None \<Rightarrow> (case s of [] \<Rightarrow> None
                | x # xs \<Rightarrow> map_option (\<lambda>(a, b). (x # a, b)) (split_once_str sep xs)))"

declare split_once_str.simps [simp del]

definition str_find :: "'a \<Rightarrow> 'a list \<Rightarrow> nat option" where
  "str_find c s = map_option (\<lambda>(a, b). length a) (split_once c s)"

lemma split_once_Some: "split_once c s = Some (a, b) \<longleftrightarrow> s = a @ c # b \<and> c \<notin> set a"
proof (induction s arbitrary: a)
  case Nil
  then show ?case by simp
next
  case (Cons x xs)
  show ?case
  proof (cases "x = c")
    case True
    then show ?thesis by (auto simp: Cons_eq_append_conv)
  next
    case False
    then show ?thesis by (auto simp: Cons_eq_append_conv Cons.IH)
  qed
qed

lemma split_once_None: "split_once c s = None \<longleftrightarrow> c \<notin> set s"
  by (induction s) auto

lemma rsplit_once_Some: "rsplit_once c s = Some (a, b) \<longleftrightarrow> s = a @ c # b \<and> c \<notin> set b"
proof -
  have "rsplit_once c s = Some (a, b) \<longleftrightarrow> split_once c (rev s) = Some (rev b, rev a)"
    by (auto simp: rsplit_once_def)
  also have "\<dots> \<longleftrightarrow> rev s = rev b @ c # rev a \<and> c \<notin> set b" by (simp add: split_once_Some)
  also have "rev s = rev b @ c # rev a \<longleftrightarrow> s = a @ c # b" by (simp add: rev_swap)
  finally show ?thesis .
qed

lemma rsplit_once_None: "rsplit_once c s = None \<longleftrightarrow> c \<notin> set s"
  by (simp add: rsplit_once_def split_once_None)

text \<open>\<open>replace\<close> of one character by a string.\<close>

definition str_replace_char :: "'a \<Rightarrow> 'a list \<Rightarrow> 'a list \<Rightarrow> 'a list" where
  "str_replace_char c r s = concat (map (\<lambda>x. if x = c then r else [x]) s)"

lemma str_replace_char_simps [simp]:
  "str_replace_char c r [] = []"
  "str_replace_char c r (x # xs) = (if x = c then r else [x]) @ str_replace_char c r xs"
  by (simp_all add: str_replace_char_def)

definition to_ascii_lower :: "char \<Rightarrow> char" where
  "to_ascii_lower c =
     (let n = of_char c :: nat in if 65 \<le> n \<and> n \<le> 90 then char_of (n + 32) else c)"

definition to_ascii_upper :: "char \<Rightarrow> char" where
  "to_ascii_upper c =
     (let n = of_char c :: nat in if 97 \<le> n \<and> n \<le> 122 then char_of (n - 32) else c)"

definition eq_ignore_ascii_case :: "string \<Rightarrow> string \<Rightarrow> bool" where
  "eq_ignore_ascii_case a b \<longleftrightarrow> map to_ascii_lower a = map to_ascii_lower b"

text \<open>\<open>trim\<close> of ASCII whitespace.\<close>

definition ascii_ws :: "char \<Rightarrow> bool" where
  "ascii_ws c \<longleftrightarrow> (of_char c :: nat) = 32 \<or> 9 \<le> (of_char c :: nat) \<and> (of_char c :: nat) \<le> 13"

definition str_trim_start :: "string \<Rightarrow> string" where
  "str_trim_start s = dropWhile ascii_ws s"

definition str_trim_end :: "string \<Rightarrow> string" where
  "str_trim_end s = rev (dropWhile ascii_ws (rev s))"

definition str_trim :: "string \<Rightarrow> string" where
  "str_trim s = str_trim_end (str_trim_start s)"

section \<open>UTF-8\<close>

text \<open>
  The chunks of \<open>Utf8Chunks\<close>: whether the front of a byte string is a character or an
  invalid sequence, and how many bytes it takes. A byte past the end reads as zero.
\<close>

definition byte_at :: "string \<Rightarrow> nat \<Rightarrow> nat" where
  "byte_at s i = (if i < length s then of_char (s ! i) else 0)"

definition utf8_cont :: "nat \<Rightarrow> bool" where
  "utf8_cont b \<longleftrightarrow> 0x80 \<le> b \<and> b \<le> 0xbf"

definition utf8_second :: "nat \<Rightarrow> nat \<Rightarrow> bool" where
  "utf8_second b c \<longleftrightarrow>
     utf8_cont c \<and>
     (b = 0xe0 \<longrightarrow> 0xa0 \<le> c) \<and> (b = 0xed \<longrightarrow> c \<le> 0x9f) \<and>
     (b = 0xf0 \<longrightarrow> 0x90 \<le> c) \<and> (b = 0xf4 \<longrightarrow> c \<le> 0x8f)"

definition utf8_front :: "string \<Rightarrow> bool \<times> nat" where
  "utf8_front s =
     (let b = byte_at s 0 in
      if b < 0x80 then (True, 1)
      else if 0xc2 \<le> b \<and> b \<le> 0xdf then
        (if utf8_cont (byte_at s 1) then (True, 2) else (False, 1))
      else if 0xe0 \<le> b \<and> b \<le> 0xef then
        (if \<not> utf8_second b (byte_at s 1) then (False, 1)
         else if utf8_cont (byte_at s 2) then (True, 3) else (False, 2))
      else if 0xf0 \<le> b \<and> b \<le> 0xf4 then
        (if \<not> utf8_second b (byte_at s 1) then (False, 1)
         else if \<not> utf8_cont (byte_at s 2) then (False, 2)
         else if utf8_cont (byte_at s 3) then (True, 4) else (False, 3))
      else (False, 1))"

lemma utf8_front_pos: "0 < snd (utf8_front s)"
  by (simp add: utf8_front_def Let_def)

lemma utf8_front_drop: "s \<noteq> [] \<Longrightarrow> (ok, n) = utf8_front s \<Longrightarrow> length (drop n s) < length s"
  using utf8_front_pos [of s] by (cases "utf8_front s") (simp add: Let_def)

function utf8_lossy :: "string \<Rightarrow> string" where
  "utf8_lossy s =
     (if s = [] then []
      else case utf8_front s of
        (ok, n) \<Rightarrow>
          (if ok then take n s else [char_of (0xef :: nat), char_of (0xbf :: nat), char_of (0xbd :: nat)]) @
          utf8_lossy (drop n s))"
  by pat_completeness auto
termination
  by (relation "measure length", rule wf_measure, unfold in_measure, rule utf8_front_drop)

declare utf8_lossy.simps [simp del]

function utf8_valid :: "string \<Rightarrow> bool" where
  "utf8_valid s \<longleftrightarrow>
     (if s = [] then True else case utf8_front s of (ok, n) \<Rightarrow> ok \<and> utf8_valid (drop n s))"
  by pat_completeness auto
termination
  by (relation "measure length", rule wf_measure, unfold in_measure, rule utf8_front_drop)

declare utf8_valid.simps [simp del]

lemma utf8_lossy_step:
  "s \<noteq> [] \<Longrightarrow> utf8_front s = (True, n) \<Longrightarrow> utf8_lossy s = take n s @ utf8_lossy (drop n s)"
  by (subst utf8_lossy.simps) simp

lemma utf8_valid_step:
  "s \<noteq> [] \<Longrightarrow> utf8_front s = (ok, n) \<Longrightarrow> utf8_valid s \<longleftrightarrow> ok \<and> utf8_valid (drop n s)"
  by (subst utf8_valid.simps) simp

lemma utf8_Nil [simp]: "utf8_lossy [] = []" "utf8_valid []"
  by (simp_all add: utf8_lossy.simps utf8_valid.simps)

lemma utf8_lossy_valid: "utf8_valid s \<Longrightarrow> utf8_lossy s = s"
proof (induction "length s" arbitrary: s rule: less_induct)
  case less
  show ?case
  proof (cases "s = []")
    case False
    obtain ok n where f: "utf8_front s = (ok, n)" by fastforce
    then have "ok" "utf8_valid (drop n s)" using less.prems utf8_valid_step [OF False f] by simp_all
    moreover from this have "utf8_lossy (drop n s) = drop n s"
      using less.hyps utf8_front_drop [OF False f [symmetric]] by blast
    ultimately show ?thesis using utf8_lossy_step [OF False, of n] f by simp
  qed simp
qed

definition ascii :: "string \<Rightarrow> bool" where
  "ascii s \<longleftrightarrow> (\<forall>c\<in>set s. (of_char c :: nat) < 0x80)"

lemma utf8_valid_ascii: "ascii s \<Longrightarrow> utf8_valid s"
proof (induction s)
  case (Cons c s)
  then have "utf8_front (c # s) = (True, 1)"
    by (simp add: utf8_front_def byte_at_def ascii_def)
  with Cons utf8_valid_step [of "c # s"] show ?case by (simp add: ascii_def)
qed simp

section \<open>Decimal numbers\<close>

text \<open>\<open>to_string\<close> of the integer types, and \<open>str::parse\<close> with its sign, digits and range.\<close>

definition digit_char :: "nat \<Rightarrow> char" where
  "digit_char d = char_of (48 + d)"

fun dec_nat :: "nat \<Rightarrow> string" where
  "dec_nat n = (if n < 10 then [digit_char n] else dec_nat (n div 10) @ [digit_char (n mod 10)])"

declare dec_nat.simps [simp del]

definition dec_int :: "int \<Rightarrow> string" where
  "dec_int i = (if i < 0 then CHR ''-'' # dec_nat (nat (- i)) else dec_nat (nat i))"

definition is_digit :: "char \<Rightarrow> bool" where
  "is_digit c \<longleftrightarrow> 48 \<le> (of_char c :: nat) \<and> (of_char c :: nat) \<le> 57"

definition ascii_alpha :: "char \<Rightarrow> bool" where
  "ascii_alpha c \<longleftrightarrow>
     (let n = of_char c :: nat in 65 \<le> n \<and> n \<le> 90 \<or> 97 \<le> n \<and> n \<le> 122)"

definition digit_val :: "char \<Rightarrow> nat" where
  "digit_val c = (of_char c :: nat) - 48"

definition parse_digits :: "string \<Rightarrow> nat option" where
  "parse_digits s =
     (if s \<noteq> [] \<and> list_all is_digit s then Some (foldl (\<lambda>a c. a * 10 + digit_val c) 0 s) else None)"

text \<open>Of an unsigned 64-bit number.\<close>

definition parse_u64 :: "string \<Rightarrow> nat option" where
  "parse_u64 s =
     Option.bind (case s of [] \<Rightarrow> None | c # cs \<Rightarrow> if c = CHR ''+'' then parse_digits cs else parse_digits s)
       (\<lambda>n. if n < 2 ^ 64 then Some n else None)"

text \<open>The magnitude and sign, before the range of the type is checked.\<close>

fun parse_signed :: "string \<Rightarrow> int option" where
  "parse_signed [] = None"
| "parse_signed (c # cs) =
     (if c = CHR ''+'' then map_option int (parse_digits cs)
      else if c = CHR ''-'' then map_option (\<lambda>n. - int n) (parse_digits cs)
      else map_option int (parse_digits (c # cs)))"

definition parse_int_in :: "int \<Rightarrow> int \<Rightarrow> string \<Rightarrow> int option" where
  "parse_int_in lo hi s =
     (case parse_signed s of None \<Rightarrow> None | Some i \<Rightarrow> if lo \<le> i \<and> i \<le> hi then Some i else None)"

definition parse_i32 :: "string \<Rightarrow> int option" where
  "parse_i32 = parse_int_in (- 2147483648) 2147483647"

lemma digit_char [simp]: "d < 10 \<Longrightarrow> is_digit (digit_char d)" "d < 10 \<Longrightarrow> digit_val (digit_char d) = d"
  by (simp_all add: digit_char_def is_digit_def digit_val_def)

lemma dec_nat_digits: "list_all is_digit (dec_nat n) \<and> dec_nat n \<noteq> []"
  by (induction n rule: dec_nat.induct) (subst (1 2) dec_nat.simps, simp)

lemma parse_dec_nat: "parse_digits (dec_nat n) = Some n"
proof -
  have "foldl (\<lambda>a c. a * 10 + digit_val c) 0 (dec_nat n) = n"
    by (induction n rule: dec_nat.induct) (subst dec_nat.simps, auto)
  then show ?thesis using dec_nat_digits by (simp add: parse_digits_def)
qed

lemma not_digit_sign [simp]: "\<not> is_digit (CHR ''+'')" "\<not> is_digit (CHR ''-'')"
  by (simp_all add: is_digit_def)

lemma parse_signed_dec_int: "parse_signed (dec_int i) = Some i"
proof (cases "i < 0")
  case True
  then show ?thesis by (simp add: dec_int_def parse_dec_nat)
next
  case False
  obtain c cs where c: "dec_nat (nat i) = c # cs" using dec_nat_digits [of "nat i"] by (cases "dec_nat (nat i)") auto
  then have "is_digit c" using dec_nat_digits [of "nat i"] by simp
  then have "c \<noteq> CHR ''+''" "c \<noteq> CHR ''-''" by auto
  with False c show ?thesis using parse_dec_nat [of "nat i"] by (simp add: dec_int_def)
qed

lemma parse_i32_dec: "- 2147483648 \<le> i \<Longrightarrow> i \<le> 2147483647 \<Longrightarrow> parse_i32 (dec_int i) = Some i"
  by (simp add: parse_i32_def parse_int_in_def parse_signed_dec_int)

lemma dec_int_inj: "dec_int i = dec_int j \<longleftrightarrow> i = j"
  by (metis option.inject parse_signed_dec_int)

lemma dec_nat_inj: "dec_nat n = dec_nat m \<longleftrightarrow> n = m"
  by (metis option.inject parse_dec_nat)

text \<open>Bytes read as the text they are the encoding of.\<close>

definition bytes_str :: "bytes \<Rightarrow> string" where
  "bytes_str bs = map (\<lambda>b. char_of (unat b)) bs"

definition str_bytes :: "string \<Rightarrow> bytes" where
  "str_bytes s = map (\<lambda>c. word_of_nat (of_char c)) s"

lemma bytes_str_bytes [simp]: "bytes_str (str_bytes s) = s"
  by (induction s) (simp_all add: bytes_str_def str_bytes_def unat_of_nat)

lemma str_bytes_str [simp]: "str_bytes (bytes_str bs) = bs"
proof (induction bs)
  case (Cons b bs)
  have "unat b mod 256 = unat b" using unat_byte_less [of b] by simp
  with Cons show ?case by (simp add: bytes_str_def str_bytes_def)
qed (simp add: bytes_str_def str_bytes_def)

end
