(* ===== verification/Kafka_Delivery.thy ===== *)
theory Kafka_Delivery
  imports Kafka_Commit Rust_Text
begin

text \<open>
  The delivery loop of the Kafka consumer (\<open>src/crates/kafka/src/consume.rs\<close>) and its lanes
  (\<open>src/crates/kafka/src/consume/lanes.rs\<close>): the loop that pulls records under two
  semaphores, one task per record with the awaits it passes, the per-key queues, and the
  rebalances and delivery reports that run beside them. A step of the relation runs one task,
  the loop or an outside thread from one await to the next.
\<close>

section \<open>Lanes\<close>

text \<open>
  A channel is named by the number of the lane holding its sender; \<open>la_behind\<close> is the
  receiver of the lane ahead, which resolves once that lane is dropped.
\<close>

record lane =
  la_key :: bytes
  la_seq :: nat
  la_behind :: "nat option"

record lanes =
  ln_tails :: "bytes \<Rightarrow> nat option"
  ln_next :: nat

definition lanes_default :: lanes where
  "lanes_default = \<lparr>ln_tails = (\<lambda>_. None), ln_next = 0\<rparr>"

definition lanes_enqueue :: "bytes \<Rightarrow> lanes \<Rightarrow> lane \<times> lanes" where
  "lanes_enqueue key ln =
     (\<lparr>la_key = key, la_seq = ln_next ln, la_behind = ln_tails ln key\<rparr>,
      \<lparr>ln_tails = (ln_tails ln)(key := Some (ln_next ln)), ln_next = Suc (ln_next ln)\<rparr>)"

definition lanes_release :: "lane \<Rightarrow> lanes \<Rightarrow> lanes" where
  "lanes_release lane ln =
     (if ln_tails ln (la_key lane) = Some (la_seq lane)
      then ln\<lparr>ln_tails := (ln_tails ln)(la_key lane := None)\<rparr> else ln)"

definition lane_is_head :: "lane \<Rightarrow> bool" where
  "lane_is_head lane \<longleftrightarrow> la_behind lane = None"

definition lane_turn_ready :: "nat set \<Rightarrow> lane \<Rightarrow> bool" where
  "lane_turn_ready dropped lane \<longleftrightarrow>
     (case la_behind lane of None \<Rightarrow> True | Some q \<Rightarrow> q \<in> dropped)"

section \<open>Tasks and the loop\<close>

record krecord =
  kr_topic :: string
  kr_partition :: int
  kr_offset :: int
  kr_key :: "bytes option"

text \<open>
  Where a task stands: waiting its turn, past it, with the handler, and then letting go of its
  slot, its lane and its place; the flag is whether the outcome was \<open>Ok\<close>.
\<close>

datatype task_phase =
  Waiting | Turned | Handling | Handled bool | Freed bool | Parted bool | Finished bool

record task =
  tk_record :: krecord
  tk_ticket :: nat
  tk_lane :: "lane option"
  tk_slot :: bool
  tk_phase :: task_phase

text \<open>
  The loop takes a place, then a slot, then reaps or pulls; after the stream's end it drains.
  \<open>Ended\<close> carries whether \<open>run\<close> returned \<open>Ok\<close>.
\<close>

datatype loop_phase = Want_Place | Want_Slot | Select | Drain | Ended bool

record delivery =
  dl_prefix :: string
  dl_registry :: bool
  dl_tracker :: tracker
  dl_sends :: nat
  dl_stored :: "stored list"
  dl_slots :: nat
  dl_backlog :: nat
  dl_lanes :: lanes
  dl_dropped :: "nat set"
  dl_loop :: loop_phase
  dl_tasks :: "(nat, task) btree"
  dl_pulled :: nat

definition IN_FLIGHT :: nat where "IN_FLIGHT = 64"
definition BACKLOG :: nat where "BACKLOG = 4096"

definition delivery_init :: "string \<Rightarrow> bool \<Rightarrow> delivery" where
  "delivery_init prefix registry =
     \<lparr>dl_prefix = prefix, dl_registry = registry, dl_tracker = tracker_default, dl_sends = 0,
      dl_stored = [], dl_slots = IN_FLIGHT, dl_backlog = BACKLOG, dl_lanes = lanes_default,
      dl_dropped = {}, dl_loop = Want_Place, dl_tasks = [], dl_pulled = 0\<rparr>"

section \<open>The tracker's calls\<close>

definition shared_event :: "tracker_event \<Rightarrow> delivery \<Rightarrow> delivery" where
  "shared_event e s =
     (case tracker_step e (dl_tracker s) of
        (stored, tr) \<Rightarrow> s\<lparr>dl_tracker := tr, dl_stored := dl_stored s @ stored\<rparr>)"

definition shared_holds :: "delivery \<Rightarrow> task \<Rightarrow> bool" where
  "shared_holds s t =
     tracker_holds (dl_tracker s) (kr_topic (tk_record t)) (kr_partition (tk_record t))
       (kr_offset (tk_record t)) (tk_ticket t)"

text \<open>\<open>Delivery::done\<close>: the offset waits on every send issued so far.\<close>

definition delivery_done :: "task \<Rightarrow> delivery \<Rightarrow> delivery" where
  "delivery_done t s =
     shared_event (Done (kr_topic (tk_record t)) (kr_partition (tk_record t))
       (kr_offset (tk_record t)) (tk_ticket t) (dl_sends s)) s"

section \<open>The steps\<close>

definition set_task :: "nat \<Rightarrow> task \<Rightarrow> delivery \<Rightarrow> delivery" where
  "set_task i t s = s\<lparr>dl_tasks := bt_insert i t (dl_tasks s)\<rparr>"

text \<open>\<open>Delivery::admit\<close>: the offset and the lane are taken before anything is awaited.\<close>

definition delivery_admit :: "krecord \<Rightarrow> delivery \<Rightarrow> delivery" where
  "delivery_admit r s =
     (let ticket = tr_tickets (dl_tracker s);
          s1 = shared_event (Insert (kr_topic r) (kr_partition r) (kr_offset r)) s;
          (lane, lns) =
            (case kr_key r of
               None \<Rightarrow> (None, dl_lanes s1)
             | Some key \<Rightarrow> (case lanes_enqueue key (dl_lanes s1) of (l, lns) \<Rightarrow> (Some l, lns)));
          head = (case lane of None \<Rightarrow> True | Some l \<Rightarrow> lane_is_head l);
          t = \<lparr>tk_record = r, tk_ticket = ticket, tk_lane = lane, tk_slot = head, tk_phase = Waiting\<rparr>
      in s1\<lparr>dl_lanes := lns,
            dl_slots := (if head then dl_slots s1 else Suc (dl_slots s1)),
            dl_tasks := bt_insert (dl_pulled s1) t (dl_tasks s1),
            dl_pulled := Suc (dl_pulled s1)\<rparr>)"

text \<open>What became of the record once it was with \<open>handle\<close>.\<close>

datatype handle_result = Foreign | Rejected | Handler_Ok | Handler_Err

text \<open>
  The result \<open>handle\<close> can come to for a record: a topic without the prefix is foreign, and
  only a registry rejects.
\<close>

definition result_possible :: "delivery \<Rightarrow> task \<Rightarrow> handle_result \<Rightarrow> bool" where
  "result_possible s t result \<longleftrightarrow>
     (case strip_prefix (dl_prefix s) (kr_topic (tk_record t)) of
        None \<Rightarrow> result = Foreign
      | Some _ \<Rightarrow> result = Handler_Ok \<or> result = Handler_Err \<or> (result = Rejected \<and> dl_registry s))"

definition handle_begin :: "nat \<Rightarrow> task \<Rightarrow> delivery \<Rightarrow> delivery" where
  "handle_begin i t s =
     set_task i (t\<lparr>tk_phase := if shared_holds s t then Handling else Handled True\<rparr>) s"

definition handle_end :: "nat \<Rightarrow> task \<Rightarrow> handle_result \<Rightarrow> delivery \<Rightarrow> delivery" where
  "handle_end i t result s =
     (if result = Handler_Err then set_task i (t\<lparr>tk_phase := Handled False\<rparr>) s
      else set_task i (t\<lparr>tk_phase := Handled True\<rparr>) (delivery_done t s))"

datatype dl_event =
  Take_Place | Take_Slot | Reap nat | Pull krecord | Pull_Error | Stream_End | Drained
| Turn nat | Get_Slot nat | Begin nat | Ending nat handle_result
| Drop_Slot nat | Part nat | Drop_Place nat
| Next_Send | Report_Send nat
| Revoke_Parts "(string \<times> int) list" | Assign_Parts "(string \<times> int) list"

definition is_ended :: "loop_phase \<Rightarrow> bool" where
  "is_ended p \<longleftrightarrow> p = Ended True \<or> p = Ended False"

definition is_finished :: "task \<Rightarrow> bool" where
  "is_finished t \<longleftrightarrow> tk_phase t = Finished True \<or> tk_phase t = Finished False"

definition none_finished :: "delivery \<Rightarrow> bool" where
  "none_finished s \<longleftrightarrow> list_all (\<lambda>e. \<not> is_finished (snd e)) (dl_tasks s)"

text \<open>The permits the loop holds across the select, let go as the iteration ends.\<close>

definition loop_lets_go :: "loop_phase \<Rightarrow> delivery \<Rightarrow> delivery" where
  "loop_lets_go p s = s\<lparr>dl_slots := Suc (dl_slots s), dl_backlog := Suc (dl_backlog s), dl_loop := p\<rparr>"

definition with_task :: "nat \<Rightarrow> delivery \<Rightarrow> (task \<Rightarrow> delivery option) \<Rightarrow> delivery option" where
  "with_task i s f =
     (if is_ended (dl_loop s) then None
      else case bt_get (dl_tasks s) i of None \<Rightarrow> None | Some t \<Rightarrow> f t)"

fun reap :: "nat \<Rightarrow> task \<Rightarrow> delivery \<Rightarrow> delivery option" where
  "reap i t s =
     (case tk_phase t of
        Finished ok \<Rightarrow>
          (let gone = s\<lparr>dl_tasks := bt_remove i (dl_tasks s)\<rparr> in
           if dl_loop s = Select then
             Some (if ok then loop_lets_go Want_Place gone else loop_lets_go (Ended False) s)
           else if dl_loop s = Drain then
             Some (if ok then gone else s\<lparr>dl_loop := Ended False\<rparr>)
           else None)
      | _ \<Rightarrow> None)"

fun task_step :: "dl_event \<Rightarrow> task \<Rightarrow> delivery \<Rightarrow> delivery option" where
  "task_step (Turn i) t s =
     (if tk_phase t = Waiting \<and> (case tk_lane t of None \<Rightarrow> True | Some l \<Rightarrow> lane_turn_ready (dl_dropped s) l)
      then Some (set_task i (t\<lparr>tk_phase := Turned\<rparr>) s) else None)"
| "task_step (Get_Slot i) t s =
     (if tk_phase t = Turned \<and> \<not> tk_slot t \<and> 0 < dl_slots s
      then Some (set_task i (t\<lparr>tk_slot := True\<rparr>) (s\<lparr>dl_slots := dl_slots s - 1\<rparr>)) else None)"
| "task_step (Begin i) t s =
     (if tk_phase t = Turned \<and> tk_slot t then Some (handle_begin i t s) else None)"
| "task_step (Ending i result) t s =
     (if tk_phase t = Handling \<and> result_possible s t result then Some (handle_end i t result s) else None)"
| "task_step (Drop_Slot i) t s =
     (case tk_phase t of
        Handled ok \<Rightarrow> Some (set_task i (t\<lparr>tk_slot := False, tk_phase := Freed ok\<rparr>) (s\<lparr>dl_slots := Suc (dl_slots s)\<rparr>))
      | _ \<Rightarrow> None)"
| "task_step (Part i) t s =
     (case tk_phase t of
        Freed ok \<Rightarrow>
          Some (set_task i (t\<lparr>tk_phase := Parted ok\<rparr>)
            (case tk_lane t of
               None \<Rightarrow> s
             | Some l \<Rightarrow> s\<lparr>dl_lanes := lanes_release l (dl_lanes s), dl_dropped := insert (la_seq l) (dl_dropped s)\<rparr>))
      | _ \<Rightarrow> None)"
| "task_step (Drop_Place i) t s =
     (case tk_phase t of
        Parted ok \<Rightarrow> Some (set_task i (t\<lparr>tk_phase := Finished ok\<rparr>) (s\<lparr>dl_backlog := Suc (dl_backlog s)\<rparr>))
      | _ \<Rightarrow> None)"
| "task_step (Reap i) t s = reap i t s"
| "task_step _ t s = None"

fun event_task :: "dl_event \<Rightarrow> nat option" where
  "event_task (Reap i) = Some i"
| "event_task (Turn i) = Some i"
| "event_task (Get_Slot i) = Some i"
| "event_task (Begin i) = Some i"
| "event_task (Ending i _) = Some i"
| "event_task (Drop_Slot i) = Some i"
| "event_task (Part i) = Some i"
| "event_task (Drop_Place i) = Some i"
| "event_task _ = None"

fun loop_step :: "dl_event \<Rightarrow> delivery \<Rightarrow> delivery option" where
  "loop_step Take_Place s =
     (if dl_loop s = Want_Place \<and> 0 < dl_backlog s
      then Some (s\<lparr>dl_backlog := dl_backlog s - 1, dl_loop := Want_Slot\<rparr>) else None)"
| "loop_step Take_Slot s =
     (if dl_loop s = Want_Slot \<and> 0 < dl_slots s
      then Some (s\<lparr>dl_slots := dl_slots s - 1, dl_loop := Select\<rparr>) else None)"
| "loop_step (Pull r) s =
     (if dl_loop s = Select \<and> none_finished s
      then Some ((delivery_admit r s)\<lparr>dl_loop := Want_Place\<rparr>) else None)"
| "loop_step Pull_Error s =
     (if dl_loop s = Select \<and> none_finished s then Some (loop_lets_go (Ended False) s) else None)"
| "loop_step Stream_End s =
     (if dl_loop s = Select \<and> none_finished s then Some (loop_lets_go Drain s) else None)"
| "loop_step Drained s =
     (if dl_loop s = Drain \<and> dl_tasks s = [] then Some (s\<lparr>dl_loop := Ended True\<rparr>) else None)"
| "loop_step Next_Send s = Some (s\<lparr>dl_sends := Suc (dl_sends s)\<rparr>)"
| "loop_step (Report_Send id1) s =
     (if id1 < dl_sends s then Some (shared_event (Note_Delivered id1) s) else None)"
| "loop_step (Revoke_Parts ps) s = Some (fold (\<lambda>(topic, p). shared_event (Revoke topic p)) ps s)"
| "loop_step (Assign_Parts ps) s = Some (fold (\<lambda>(topic, p). shared_event (Assign topic p)) ps s)"
| "loop_step _ s = None"

definition dl_step :: "dl_event \<Rightarrow> delivery \<Rightarrow> delivery option" where
  "dl_step e s =
     (case event_task e of
        Some i \<Rightarrow> with_task i s (\<lambda>t. task_step e t s)
      | None \<Rightarrow> loop_step e s)"

text \<open>The states a run can reach.\<close>

inductive dl_reach :: "string \<Rightarrow> bool \<Rightarrow> delivery \<Rightarrow> bool" for prefix registry where
  dl_start: "dl_reach prefix registry (delivery_init prefix registry)"
| dl_next: "dl_reach prefix registry s \<Longrightarrow> dl_step e s = Some s' \<Longrightarrow> dl_reach prefix registry s'"

end
