(* ===== verification/Kafka_Lanes_Inv.thy ===== *)
theory Kafka_Lanes_Inv
  imports Kafka_Delivery
begin

text \<open>
  The queueing discipline of the lanes, over the tasks' lanes alone: which task has which
  lane and whether it has parted with it, and which tasks are past waiting. The invariant
  gives mutual exclusion and first-in-first-out per key; each of the four things that can
  happen to a lane keeps it.
\<close>

definition lane_live :: "(nat \<Rightarrow> (lane \<times> bool) option) \<Rightarrow> lane \<Rightarrow> bool" where
  "lane_live L l \<longleftrightarrow> (\<exists>i. L i = Some (l, False))"

definition lanes_ok ::
  "nat \<Rightarrow> (nat \<Rightarrow> (lane \<times> bool) option) \<Rightarrow> (nat \<Rightarrow> bool) \<Rightarrow> lanes \<Rightarrow> nat set \<Rightarrow> bool" where
  "lanes_ok n L W ln dropped \<longleftrightarrow>
     (\<forall>i l p. L i = Some (l, p) \<longrightarrow> i < n \<and> la_seq l < ln_next ln \<and> (la_seq l \<in> dropped \<longleftrightarrow> p)) \<and>
     dropped \<subseteq> {..<ln_next ln} \<and>
     (\<forall>i j li pi lj pj. i < j \<longrightarrow> L i = Some (li, pi) \<longrightarrow> L j = Some (lj, pj) \<longrightarrow> la_seq li < la_seq lj) \<and>
     (\<forall>k. (case ln_tails ln k of
             None \<Rightarrow> \<forall>l. lane_live L l \<longrightarrow> la_key l \<noteq> k
           | Some q \<Rightarrow> (\<exists>l. lane_live L l \<and> la_key l = k \<and> la_seq l = q) \<and>
                      (\<forall>l. lane_live L l \<longrightarrow> la_key l = k \<longrightarrow> la_seq l \<le> q))) \<and>
     (\<forall>a b. lane_live L a \<longrightarrow> lane_live L b \<longrightarrow> la_key a = la_key b \<longrightarrow> la_seq a < la_seq b \<longrightarrow>
        (\<exists>q. la_behind b = Some q \<and> la_seq a \<le> q \<and> q \<notin> dropped)) \<and>
     (\<forall>j b p q. L j = Some (b, p) \<longrightarrow> la_behind b = Some q \<longrightarrow> q \<notin> dropped \<longrightarrow>
        (\<exists>a. lane_live L a \<and> la_key a = la_key b \<and> la_seq a = q \<and> q < la_seq b)) \<and>
     (\<forall>j b p. L j = Some (b, p) \<longrightarrow> W j \<longrightarrow> lane_turn_ready dropped b)"

lemma lanes_okD:
  assumes "lanes_ok n L W ln dropped"
  shows "L i = Some (l, p) \<Longrightarrow> i < n" "L i = Some (l, p) \<Longrightarrow> la_seq l < ln_next ln"
    and "L i = Some (l, p) \<Longrightarrow> la_seq l \<in> dropped \<longleftrightarrow> p"
    and "q \<in> dropped \<Longrightarrow> q < ln_next ln"
    and "i < j \<Longrightarrow> L i = Some (li, pi) \<Longrightarrow> L j = Some (lj, pj) \<Longrightarrow> la_seq li < la_seq lj"
    and "ln_tails ln k = None \<Longrightarrow> lane_live L l \<Longrightarrow> la_key l \<noteq> k"
    and "ln_tails ln k = Some q \<Longrightarrow> \<exists>l. lane_live L l \<and> la_key l = k \<and> la_seq l = q"
    and "ln_tails ln k = Some q \<Longrightarrow> lane_live L l \<Longrightarrow> la_key l = k \<Longrightarrow> la_seq l \<le> q"
    and "lane_live L a \<Longrightarrow> lane_live L b \<Longrightarrow> la_key a = la_key b \<Longrightarrow> la_seq a < la_seq b \<Longrightarrow>
        \<exists>q. la_behind b = Some q \<and> la_seq a \<le> q \<and> q \<notin> dropped"
    and "L j = Some (b, p) \<Longrightarrow> la_behind b = Some q \<Longrightarrow> q \<notin> dropped \<Longrightarrow>
        \<exists>a. lane_live L a \<and> la_key a = la_key b \<and> la_seq a = q \<and> q < la_seq b"
    and "L j = Some (b, p) \<Longrightarrow> W j \<Longrightarrow> lane_turn_ready dropped b"
proof -
  have tails: "case ln_tails ln k of
             None \<Rightarrow> \<forall>l. lane_live L l \<longrightarrow> la_key l \<noteq> k
           | Some q \<Rightarrow> (\<exists>l. lane_live L l \<and> la_key l = k \<and> la_seq l = q) \<and>
                      (\<forall>l. lane_live L l \<longrightarrow> la_key l = k \<longrightarrow> la_seq l \<le> q)" for k
    using assms unfolding lanes_ok_def by blast
  show "ln_tails ln k = None \<Longrightarrow> lane_live L l \<Longrightarrow> la_key l \<noteq> k"
    and "ln_tails ln k = Some q \<Longrightarrow> \<exists>l. lane_live L l \<and> la_key l = k \<and> la_seq l = q"
    and "ln_tails ln k = Some q \<Longrightarrow> lane_live L l \<Longrightarrow> la_key l = k \<Longrightarrow> la_seq l \<le> q"
    using tails [of k] by auto
qed (use assms in \<open>unfold lanes_ok_def, blast\<close>)+

lemma lanes_okI:
  assumes "\<And>i l p. L i = Some (l, p) \<Longrightarrow> i < n \<and> la_seq l < ln_next ln \<and> (la_seq l \<in> dropped \<longleftrightarrow> p)"
    and "\<And>q. q \<in> dropped \<Longrightarrow> q < ln_next ln"
    and "\<And>i j li pi lj pj. i < j \<Longrightarrow> L i = Some (li, pi) \<Longrightarrow> L j = Some (lj, pj) \<Longrightarrow> la_seq li < la_seq lj"
    and "\<And>k l. ln_tails ln k = None \<Longrightarrow> lane_live L l \<Longrightarrow> la_key l \<noteq> k"
    and "\<And>k q. ln_tails ln k = Some q \<Longrightarrow> \<exists>l. lane_live L l \<and> la_key l = k \<and> la_seq l = q"
    and "\<And>k q l. ln_tails ln k = Some q \<Longrightarrow> lane_live L l \<Longrightarrow> la_key l = k \<Longrightarrow> la_seq l \<le> q"
    and "\<And>a b. lane_live L a \<Longrightarrow> lane_live L b \<Longrightarrow> la_key a = la_key b \<Longrightarrow> la_seq a < la_seq b \<Longrightarrow>
        \<exists>q. la_behind b = Some q \<and> la_seq a \<le> q \<and> q \<notin> dropped"
    and "\<And>j b p q. L j = Some (b, p) \<Longrightarrow> la_behind b = Some q \<Longrightarrow> q \<notin> dropped \<Longrightarrow>
        \<exists>a. lane_live L a \<and> la_key a = la_key b \<and> la_seq a = q \<and> q < la_seq b"
    and "\<And>j b p. L j = Some (b, p) \<Longrightarrow> W j \<Longrightarrow> lane_turn_ready dropped b"
  shows "lanes_ok n L W ln dropped"
proof -
  have "case ln_tails ln k of
             None \<Rightarrow> \<forall>l. lane_live L l \<longrightarrow> la_key l \<noteq> k
           | Some q \<Rightarrow> (\<exists>l. lane_live L l \<and> la_key l = k \<and> la_seq l = q) \<and>
                      (\<forall>l. lane_live L l \<longrightarrow> la_key l = k \<longrightarrow> la_seq l \<le> q)" for k
    using assms(4-6) by (cases "ln_tails ln k") auto
  moreover have "dropped \<subseteq> {..<ln_next ln}" using assms(2) by blast
  ultimately show ?thesis
    unfolding lanes_ok_def using assms(1,3,7,8,9) by (intro conjI; blast)
qed

lemma lanes_ok_start: "lanes_ok 0 (\<lambda>_. None) W lanes_default {}"
  by (rule lanes_okI) (simp_all add: lane_live_def lanes_default_def)

lemma lanes_ok_mono:
  assumes "lanes_ok n L W ln dropped" and "n \<le> m"
  shows "lanes_ok m L W ln dropped"
proof -
  have "i < m \<and> la_seq l < ln_next ln \<and> (la_seq l \<in> dropped \<longleftrightarrow> p)" if "L i = Some (l, p)" for i l p
    using lanes_okD(1-3) [OF assms(1) that] assms(2) by simp
  then show ?thesis using assms(1) unfolding lanes_ok_def by blast
qed

lemma lanes_ok_past:
  assumes "lanes_ok n L W ln dropped" and "\<And>i l. L i = Some l \<Longrightarrow> V i \<Longrightarrow> W i"
  shows "lanes_ok n L V ln dropped"
proof -
  have "\<forall>j b p. L j = Some (b, p) \<longrightarrow> V j \<longrightarrow> lane_turn_ready dropped b"
    using lanes_okD(11) [OF assms(1)] assms(2) by simp
  with assms(1) show ?thesis unfolding lanes_ok_def by (elim conjE) (intro conjI; assumption)
qed

text \<open>The turn comes.\<close>

lemma lanes_ok_turn:
  assumes "lanes_ok n L W ln dropped" and "\<And>l p. L i = Some (l, p) \<Longrightarrow> lane_turn_ready dropped l"
  shows "lanes_ok n L (W(i := True)) ln dropped"
  by (rule lanes_okI)
    (use lanes_okD [OF assms(1)] assms(2) in \<open>auto split: if_splits\<close>)

text \<open>A live task past waiting is the first of its key.\<close>

lemma lanes_first:
  assumes "lanes_ok n L W ln dropped" and "L j = Some (b, False)" and "W j"
    and "lane_live L a" and "la_key a = la_key b"
  shows "la_seq b \<le> la_seq a"
proof (rule ccontr)
  assume "\<not> la_seq b \<le> la_seq a"
  moreover have "lane_live L b" using assms(2) by (auto simp: lane_live_def)
  ultimately obtain q where q: "la_behind b = Some q" "q \<notin> dropped"
    using lanes_okD(9) [OF assms(1,4) _ assms(5)] by auto
  then show False using lanes_okD(11) [OF assms(1-3)] by (simp add: lane_turn_ready_def)
qed

text \<open>The lane is let go.\<close>

lemma lanes_ok_part:
  assumes ok: "lanes_ok n L W ln dropped" and i: "L i = Some (l, False)" and w: "W i"
  shows "lanes_ok n (L(i := Some (l, True))) W (lanes_release l ln) (insert (la_seq l) dropped)"
proof -
  let ?L = "L(i := Some (l, True))"
  note D = lanes_okD [OF ok]
  have seq_unique: "j = i" if "L j = Some (m, p)" "la_seq m = la_seq l" for j m p
    using D(5) [OF _ that(1) i] D(5) [OF _ i that(1)] that(2) by (metis less_irrefl nat_neq_iff)
  have live: "lane_live ?L m \<longleftrightarrow> lane_live L m \<and> la_seq m \<noteq> la_seq l" for m
  proof
    assume "lane_live ?L m"
    then obtain j where j: "j \<noteq> i" "L j = Some (m, False)" by (auto simp: lane_live_def split: if_splits)
    then show "lane_live L m \<and> la_seq m \<noteq> la_seq l" using seq_unique unfolding lane_live_def by blast
  next
    assume m: "lane_live L m \<and> la_seq m \<noteq> la_seq l"
    then obtain j where "L j = Some (m, False)" by (auto simp: lane_live_def)
    moreover from this m i have "j \<noteq> i" by auto
    ultimately show "lane_live ?L m" unfolding lane_live_def by (intro exI [of _ j]) simp
  qed
  have first: "la_seq l \<le> la_seq a" if "lane_live L a" "la_key a = la_key l" for a
    using lanes_first [OF ok i w that] .
  have nxt: "ln_next (lanes_release l ln) = ln_next ln" by (simp add: lanes_release_def)
  have tails: "ln_tails (lanes_release l ln) k =
      (if k = la_key l \<and> ln_tails ln k = Some (la_seq l) then None else ln_tails ln k)" for k
    by (auto simp: lanes_release_def)
  show ?thesis
  proof (rule lanes_okI)
    fix j m p assume m: "?L j = Some (m, p)"
    then consider (this) "j = i" "m = l" p | (other) "j \<noteq> i" "L j = Some (m, p)" by (auto split: if_splits)
    note cases = this
    obtain p' where m': "L j = Some (m, p')" using cases i by blast
    from cases show "j < n \<and> la_seq m < ln_next (lanes_release l ln) \<and> (la_seq m \<in> insert (la_seq l) dropped \<longleftrightarrow> p)"
    proof cases
      case this
      then show ?thesis using D(1,2) [OF i] by (simp add: nxt)
    next
      case other
      then have "la_seq m \<noteq> la_seq l" using seq_unique by blast
      then show ?thesis using D(1-3) [OF other(2)] by (simp add: nxt)
    qed
    show "\<exists>a. lane_live ?L a \<and> la_key a = la_key m \<and> la_seq a = q \<and> q < la_seq m"
      if q: "la_behind m = Some q" "q \<notin> insert (la_seq l) dropped" for q
      using D(10) [OF m' q(1)] q(2) live by blast
    show "lane_turn_ready (insert (la_seq l) dropped) m" if "W j"
      using D(11) [OF m' that] by (auto simp: lane_turn_ready_def split: option.splits)
  next
    fix q assume "q \<in> insert (la_seq l) dropped"
    then show "q < ln_next (lanes_release l ln)" using D(2) [OF i] D(4) by (auto simp: nxt)
  next
    fix j j' li pi lj pj assume "j < j'" "?L j = Some (li, pi)" "?L j' = Some (lj, pj)"
    then obtain pi' pj' where "L j = Some (li, pi')" "L j' = Some (lj, pj')"
      using i by (auto split: if_splits)
    with \<open>j < j'\<close> show "la_seq li < la_seq lj" by (rule D(5))
  next
    fix k m assume k: "ln_tails (lanes_release l ln) k = None" and m: "lane_live ?L m"
    show "la_key m \<noteq> k"
    proof (cases "k = la_key l \<and> ln_tails ln k = Some (la_seq l)")
      case True
      then have "la_key m = k \<Longrightarrow> la_seq m = la_seq l"
        using first [of m] D(8) [of k "la_seq l" m] m live by (meson antisym)
      then show ?thesis using m live by blast
    next
      case False
      then have "ln_tails ln k = None" using k by (auto simp: tails split: if_splits)
      then show ?thesis using D(6) m live by blast
    qed
  next
    fix k q assume k: "ln_tails (lanes_release l ln) k = Some q"
    then have k0: "ln_tails ln k = Some q" and ne: "k = la_key l \<Longrightarrow> q \<noteq> la_seq l"
      by (auto simp: tails split: if_splits)
    from D(7) [OF k0] obtain m where m: "lane_live L m" "la_key m = k" "la_seq m = q" by blast
    have "la_seq m \<noteq> la_seq l"
    proof
      assume "la_seq m = la_seq l"
      moreover from m(1) obtain j where "L j = Some (m, False)" by (auto simp: lane_live_def)
      ultimately have "m = l" using seq_unique i by fastforce
      with m(2,3) ne show False by simp
    qed
    with m live show "\<exists>m. lane_live ?L m \<and> la_key m = k \<and> la_seq m = q" by blast
    show "la_seq m \<le> q" if "lane_live ?L m" "la_key m = k" for m
      using D(8) [OF k0] that live by blast
  next
    fix a b assume ab: "lane_live ?L a" "lane_live ?L b" "la_key a = la_key b" "la_seq a < la_seq b"
    then obtain q where q: "la_behind b = Some q" "la_seq a \<le> q" "q \<notin> dropped"
      using D(9) [of a b] live by blast
    have "q \<noteq> la_seq l"
    proof
      assume ql: "q = la_seq l"
      obtain j where j: "L j = Some (b, False)" using ab(2) live by (auto simp: lane_live_def)
      obtain c where c: "lane_live L c" "la_key c = la_key b" "la_seq c = q"
        using D(10) [OF j q(1,3)] by blast
      then have "c = l" using seq_unique i ql by (fastforce simp: lane_live_def)
      then have "la_seq l \<le> la_seq a" using first [of a] ab(1,3) c(2) live by simp
      then show False using q(2) ql ab(1) live by auto
    qed
    with q show "\<exists>q. la_behind b = Some q \<and> la_seq a \<le> q \<and> q \<notin> insert (la_seq l) dropped" by auto
  qed
qed

text \<open>A task without a lane, or one that has parted with it, is reaped.\<close>

lemma lanes_ok_forget:
  assumes ok: "lanes_ok n L W ln dropped" and i: "\<And>l p. L i = Some (l, p) \<Longrightarrow> p"
  shows "lanes_ok n (L(i := None)) W ln dropped"
proof -
  have live: "lane_live (L(i := None)) m \<longleftrightarrow> lane_live L m" for m
  proof
    assume "lane_live L m"
    then obtain j where j: "L j = Some (m, False)" by (auto simp: lane_live_def)
    with i have "j \<noteq> i" by blast
    with j show "lane_live (L(i := None)) m" unfolding lane_live_def by (intro exI [of _ j]) simp
  qed (auto simp: lane_live_def split: if_splits)
  note D = lanes_okD [OF ok]
  have sub: "L j = Some x" if "(L(i := None)) j = Some x" for j x using that by (auto split: if_splits)
  show ?thesis
  proof (rule lanes_okI, unfold live)
    show "j < n \<and> la_seq l < ln_next ln \<and> (la_seq l \<in> dropped \<longleftrightarrow> p)"
      if "(L(i := None)) j = Some (l, p)" for j l p using D(1-3) [OF sub [OF that]] by blast
    show "la_seq li < la_seq lj"
      if "k < j" "(L(i := None)) k = Some (li, pi)" "(L(i := None)) j = Some (lj, pj)" for k j li pi lj pj
      by (rule D(5) [OF that(1) sub [OF that(2)] sub [OF that(3)]])
    show "\<exists>a. lane_live L a \<and> la_key a = la_key b \<and> la_seq a = q \<and> q < la_seq b"
      if "(L(i := None)) j = Some (b, p)" "la_behind b = Some q" "q \<notin> dropped" for j b p q
      by (rule D(10) [OF sub [OF that(1)] that(2,3)])
    show "lane_turn_ready dropped b" if "(L(i := None)) j = Some (b, p)" "W j" for j b p
      by (rule D(11) [OF sub [OF that(1)] that(2)])
  qed (use D(4,6-9) in \<open>blast\<close>)+
qed

text \<open>A record joins the lane of its key.\<close>

lemma lanes_ok_enqueue:
  assumes ok: "lanes_ok n L W ln dropped" and e: "lanes_enqueue key ln = (l, ln')" and w: "\<not> W n"
  shows "lanes_ok (Suc n) (L(n := Some (l, False))) W ln' dropped"
proof -
  let ?L = "L(n := Some (l, False))"
  note D = lanes_okD [OF ok]
  have l: "l = \<lparr>la_key = key, la_seq = ln_next ln, la_behind = ln_tails ln key\<rparr>"
    and ln': "ln_tails ln' = (ln_tails ln)(key := Some (ln_next ln))" "ln_next ln' = Suc (ln_next ln)"
    using e by (auto simp: lanes_enqueue_def)
  have new: "L n = None" using D(1) [of n] by (cases "L n") auto
  have live: "lane_live ?L m \<longleftrightarrow> m = l \<or> lane_live L m" for m
  proof
    assume "m = l \<or> lane_live L m"
    then show "lane_live ?L m"
    proof
      assume "lane_live L m"
      then obtain j where j: "L j = Some (m, False)" by (auto simp: lane_live_def)
      with new have "j \<noteq> n" by auto
      with j show "lane_live ?L m" unfolding lane_live_def by (intro exI [of _ j]) simp
    qed (auto simp: lane_live_def)
  qed (auto simp: lane_live_def split: if_splits)
  have less: "la_seq m < ln_next ln" if "lane_live L m" for m
    using that D(2) by (auto simp: lane_live_def)
  have not_dropped: "ln_next ln \<notin> dropped" using D(4) by blast
  show ?thesis
  proof (rule lanes_okI)
    fix j m p assume m: "?L j = Some (m, p)"
    then consider (new) "j = n" "m = l" "\<not> p" | (old) "j \<noteq> n" "L j = Some (m, p)"
      by (cases "j = n") auto
    note cases = this
    from cases show "j < Suc n \<and> la_seq m < ln_next ln' \<and> (la_seq m \<in> dropped \<longleftrightarrow> p)"
    proof cases
      case new
      have "la_seq l = ln_next ln" by (simp add: l)
      then show ?thesis using new not_dropped ln'(2) by simp
    next
      case old
      then show ?thesis using D(1,2,3) [OF old(2)] ln'(2) by simp
    qed
    show "\<exists>a. lane_live ?L a \<and> la_key a = la_key m \<and> la_seq a = q \<and> q < la_seq m"
      if q: "la_behind m = Some q" "q \<notin> dropped" for q
      using cases
    proof cases
      case new
      have f: "la_key l = key" "la_seq l = ln_next ln" "la_behind l = ln_tails ln key" by (simp_all add: l)
      then have "ln_tails ln key = Some q" using q new by simp
      from D(7) [OF this] obtain a where a: "lane_live L a" "la_key a = key" "la_seq a = q" by blast
      with less [OF a(1)] new f live show ?thesis by metis
    next
      case old
      then show ?thesis using D(10) [OF old(2) q] live by blast
    qed
    show "lane_turn_ready dropped m" if "W j"
      using cases
    proof cases
      case new
      then show ?thesis using w that by simp
    next
      case old
      then show ?thesis using D(11) [OF old(2) that] by blast
    qed
  next
    fix q assume "q \<in> dropped"
    then show "q < ln_next ln'" using D(4) [of q] ln'(2) by simp
  next
    fix i j li pi lj pj assume ij: "i < j" "?L i = Some (li, pi)" "?L j = Some (lj, pj)"
    have j: "j = n \<or> L j = Some (lj, pj)" using ij(3) by (cases "j = n") auto
    have "i \<noteq> n"
    proof
      assume "i = n"
      with j ij(1) have "L j = Some (lj, pj)" by auto
      from D(1) [OF this] ij(1) \<open>i = n\<close> show False by simp
    qed
    then have i: "L i = Some (li, pi)" using ij(2) by simp
    show "la_seq li < la_seq lj"
    proof (cases "j = n")
      case True
      then have "lj = l" using ij(3) by simp
      moreover have "la_seq l = ln_next ln" by (simp add: l)
      ultimately show ?thesis using D(2) [OF i] by simp
    next
      case False
      then show ?thesis using j D(5) [OF ij(1) i] by blast
    qed
  next
    fix k m assume t: "ln_tails ln' k = None" and m: "lane_live ?L m"
    then have k: "k \<noteq> key" "ln_tails ln k = None" by (auto simp: ln' split: if_splits)
    from m consider "m = l" | "lane_live L m" using live by blast
    then show "la_key m \<noteq> k"
    proof cases
      case 1
      then show ?thesis using k(1) by (simp add: l)
    next
      case 2
      then show ?thesis by (rule D(6) [OF k(2)])
    qed
  next
    fix k q assume t: "ln_tails ln' k = Some q"
    then consider (new) "k = key" "q = ln_next ln" | (old) "k \<noteq> key" "ln_tails ln k = Some q"
      by (auto simp: ln' split: if_splits)
    note cases = this
    from cases show "\<exists>m. lane_live ?L m \<and> la_key m = k \<and> la_seq m = q"
    proof cases
      case new
      then have "lane_live ?L l \<and> la_key l = k \<and> la_seq l = q" using live by (simp add: l)
      then show ?thesis by blast
    next
      case old
      from D(7) [OF old(2)] live show ?thesis by blast
    qed
    show "la_seq m \<le> q" if m: "lane_live ?L m" and k: "la_key m = k" for m
      using cases
    proof cases
      case new
      from m live consider "m = l" | "lane_live L m" by blast
      then show ?thesis using less [of m] new by cases (simp_all add: l)
    next
      case old
      have "m \<noteq> l" using k old(1) by (auto simp: l)
      then show ?thesis using m live D(8) [OF old(2) _ k] by blast
    qed
  next
    fix a b assume ab: "lane_live ?L a" "lane_live ?L b" "la_key a = la_key b" "la_seq a < la_seq b"
    have "a \<noteq> l"
    proof
      assume "a = l"
      then have s: "la_seq a = ln_next ln" by (simp add: l)
      from ab(2) live consider "b = l" | "lane_live L b" by blast
      then show False using s ab(4) less [of b] by cases (simp_all add: l)
    qed
    then have a: "lane_live L a" using ab(1) live by blast
    show "\<exists>q. la_behind b = Some q \<and> la_seq a \<le> q \<and> q \<notin> dropped"
    proof (cases "b = l")
      case True
      then have k: "la_key a = key" using ab(3) by (simp add: l)
      then obtain q where q: "ln_tails ln key = Some q" using D(6) [of key a] a by (cases "ln_tails ln key") auto
      from D(7) [OF q] obtain m j where "L j = Some (m, False)" "la_seq m = q" by (auto simp: lane_live_def)
      then have "q \<notin> dropped" using D(3) by blast
      with True D(8) [OF q a k] q show ?thesis by (simp add: l)
    next
      case False
      then show ?thesis using D(9) [OF a _ ab(3,4)] ab(2) by (simp add: live)
    qed
  qed
qed

end
