(* ===== verification/Kafka_Delivery_Inv.thy ===== *)
theory Kafka_Delivery_Inv
  imports Kafka_Lanes_Inv
begin

text \<open>
  The invariant of the delivery loop and its consequences: the permits add up, the lanes
  queue, and no task's pull is finished in the tracker before its record was handled.
\<close>

section \<open>The invariant\<close>

fun phase_parted :: "task_phase \<Rightarrow> bool" where
  "phase_parted (Parted _) = True"
| "phase_parted (Finished _) = True"
| "phase_parted _ = False"

fun phase_succeeded :: "task_phase \<Rightarrow> bool" where
  "phase_succeeded (Handled ok) = ok"
| "phase_succeeded (Freed ok) = ok"
| "phase_succeeded (Parted ok) = ok"
| "phase_succeeded (Finished ok) = ok"
| "phase_succeeded _ = False"

fun phase_with_handler :: "task_phase \<Rightarrow> bool" where
  "phase_with_handler Handling = True"
| "phase_with_handler _ = False"

text \<open>What a phase says of the slot.\<close>

fun phase_slot :: "task_phase \<Rightarrow> bool \<Rightarrow> lane option \<Rightarrow> bool" where
  "phase_slot Waiting slot lane = (slot \<longrightarrow> (case lane of None \<Rightarrow> True | Some l \<Rightarrow> lane_is_head l))"
| "phase_slot Turned slot lane = True"
| "phase_slot Handling slot lane = slot"
| "phase_slot (Handled _) slot lane = slot"
| "phase_slot _ slot lane = (\<not> slot)"

definition task_tp :: "task \<Rightarrow> string \<times> int" where
  "task_tp t = (kr_topic (tk_record t), kr_partition (tk_record t))"

definition lane_of :: "delivery \<Rightarrow> nat \<Rightarrow> (lane \<times> bool) option" where
  "lane_of s i =
     (case bt_get (dl_tasks s) i of
        None \<Rightarrow> None
      | Some t \<Rightarrow> map_option (\<lambda>l. (l, phase_parted (tk_phase t))) (tk_lane t))"

definition past :: "delivery \<Rightarrow> nat \<Rightarrow> bool" where
  "past s i = (case bt_get (dl_tasks s) i of None \<Rightarrow> False | Some t \<Rightarrow> tk_phase t \<noteq> Waiting)"

definition permits_ok :: "delivery \<Rightarrow> bool" where
  "permits_ok s \<longleftrightarrow>
     dl_slots s + bt_count tk_slot (dl_tasks s) + of_bool (dl_loop s = Select) = IN_FLIGHT \<and>
     dl_backlog s + bt_count (\<lambda>t. \<not> is_finished t) (dl_tasks s) +
       of_bool (dl_loop s = Want_Slot \<or> dl_loop s = Select) = BACKLOG"

definition task_ok :: "delivery \<Rightarrow> nat \<Rightarrow> task \<Rightarrow> bool" where
  "task_ok s i t \<longleftrightarrow>
     i < dl_pulled s \<and> phase_slot (tk_phase t) (tk_slot t) (tk_lane t) \<and>
     tk_ticket t < tr_tickets (dl_tracker s) \<and>
     map_option la_key (tk_lane t) = kr_key (tk_record t) \<and>
     (tracker_out (dl_tracker s) (task_tp t) (kr_offset (tk_record t)) = Some (tk_ticket t, True) \<longrightarrow>
        phase_succeeded (tk_phase t))"

definition tasks_ok :: "delivery \<Rightarrow> bool" where
  "tasks_ok s \<longleftrightarrow>
     bt_ok (dl_tasks s) \<and> tracker_ok (dl_tracker s) \<and>
     (\<forall>i t. bt_get (dl_tasks s) i = Some t \<longrightarrow> task_ok s i t) \<and>
     (\<forall>i j ti tj. bt_get (dl_tasks s) i = Some ti \<longrightarrow> bt_get (dl_tasks s) j = Some tj \<longrightarrow>
        i < j \<longrightarrow> tk_ticket ti < tk_ticket tj)"

definition dl_ok :: "delivery \<Rightarrow> bool" where
  "dl_ok s \<longleftrightarrow> permits_ok s \<and> tasks_ok s \<and>
     lanes_ok (dl_pulled s) (lane_of s) (past s) (dl_lanes s) (dl_dropped s)"

section \<open>Frames\<close>

declare tracker_step.simps [simp del]

lemma shared_event_frame [simp]:
  "dl_prefix (shared_event e s) = dl_prefix s" "dl_registry (shared_event e s) = dl_registry s"
  "dl_sends (shared_event e s) = dl_sends s" "dl_slots (shared_event e s) = dl_slots s"
  "dl_backlog (shared_event e s) = dl_backlog s" "dl_lanes (shared_event e s) = dl_lanes s"
  "dl_dropped (shared_event e s) = dl_dropped s" "dl_loop (shared_event e s) = dl_loop s"
  "dl_tasks (shared_event e s) = dl_tasks s" "dl_pulled (shared_event e s) = dl_pulled s"
  "dl_tracker (shared_event e s) = snd (tracker_step e (dl_tracker s))"
  "dl_stored (shared_event e s) = dl_stored s @ fst (tracker_step e (dl_tracker s))"
  by (simp_all add: shared_event_def case_prod_beta)

lemma delivery_done_frame [simp]:
  "dl_slots (delivery_done t s) = dl_slots s" "dl_backlog (delivery_done t s) = dl_backlog s"
  "dl_lanes (delivery_done t s) = dl_lanes s" "dl_dropped (delivery_done t s) = dl_dropped s"
  "dl_loop (delivery_done t s) = dl_loop s" "dl_tasks (delivery_done t s) = dl_tasks s"
  "dl_pulled (delivery_done t s) = dl_pulled s"
  by (simp_all add: delivery_done_def)

lemma set_task_frame [simp]:
  "dl_slots (set_task i t s) = dl_slots s" "dl_backlog (set_task i t s) = dl_backlog s"
  "dl_lanes (set_task i t s) = dl_lanes s" "dl_dropped (set_task i t s) = dl_dropped s"
  "dl_loop (set_task i t s) = dl_loop s" "dl_pulled (set_task i t s) = dl_pulled s"
  "dl_tracker (set_task i t s) = dl_tracker s" "dl_stored (set_task i t s) = dl_stored s"
  "dl_tasks (set_task i t s) = bt_insert i t (dl_tasks s)"
  by (simp_all add: set_task_def)

text \<open>A list of rebalance events changes the tracker alone.\<close>

lemma rebalance_fold:
  "fold (\<lambda>(topic, p). shared_event (Revoke topic p)) ps s = fold (\<lambda>x. shared_event (Revoke (fst x) (snd x))) ps s"
  "fold (\<lambda>(topic, p). shared_event (Assign topic p)) ps s = fold (\<lambda>x. shared_event (Assign (fst x) (snd x))) ps s"
  by (simp_all add: split_def)

section \<open>Permits\<close>

lemma permits_shared: "permits_ok (shared_event e s) = permits_ok s"
  by (simp add: permits_ok_def)

lemma permits_fold: "permits_ok s \<Longrightarrow> permits_ok (fold (\<lambda>x. shared_event (f x)) ps s)"
  by (induction ps arbitrary: s) (simp_all add: permits_shared)

lemma permits_update:
  assumes "permits_ok s" and "bt_ok (dl_tasks s)" and "bt_get (dl_tasks s) i = Some t"
    and "dl_tasks s' = bt_insert i t' (dl_tasks s)" and "dl_loop s' = dl_loop s"
    and "dl_slots s' + of_bool (tk_slot t') = dl_slots s + of_bool (tk_slot t)"
    and "dl_backlog s' + of_bool (\<not> is_finished t') = dl_backlog s + of_bool (\<not> is_finished t)"
  shows "permits_ok s'"
  using assms(1) bt_count_update [OF assms(2,3), of tk_slot t']
    bt_count_update [OF assms(2,3), of "\<lambda>t. \<not> is_finished t" t'] assms(4-7)
  unfolding permits_ok_def by simp

lemma is_finished_simps [simp]: "is_finished t \<longleftrightarrow> (\<exists>ok. tk_phase t = Finished ok)"
  by (metis (full_types) is_finished_def)

lemma permits_task_step:
  assumes "permits_ok s" and "tasks_ok s" and "bt_get (dl_tasks s) i = Some t"
    and "task_step e t s = Some s'" and "event_task e = Some i"
  shows "permits_ok s'"
proof -
  have ok: "bt_ok (dl_tasks s)" and t: "task_ok s i t" using assms(2,3) by (auto simp: tasks_ok_def)
  note upd = permits_update [OF assms(1) ok assms(3)]
  show ?thesis
  proof (cases e)
    case (Reap j)
    then obtain ok1 where f: "tk_phase t = Finished ok1"
      using assms(4) by (auto split: task_phase.splits)
    then have "\<not> tk_slot t" "is_finished t" using t by (auto simp: task_ok_def)
    with bt_count_remove [OF ok assms(3), of tk_slot] bt_count_remove [OF ok assms(3), of "\<lambda>t. \<not> is_finished t"]
    have "bt_count tk_slot (bt_remove i (dl_tasks s)) = bt_count tk_slot (dl_tasks s)"
      "bt_count (\<lambda>t. \<not> is_finished t) (bt_remove i (dl_tasks s)) = bt_count (\<lambda>t. \<not> is_finished t) (dl_tasks s)"
      by (simp_all del: is_finished_simps)
    then show ?thesis
      using assms(1,4,5) Reap f
      by (auto simp: permits_ok_def Let_def loop_lets_go_def simp del: is_finished_simps split: if_splits)
  next
    case (Turn j)
    then show ?thesis using assms(4,5)
      by (intro upd [where t' = "t\<lparr>tk_phase := Turned\<rparr>"]) (auto split: if_splits)
  next
    case (Get_Slot j)
    then show ?thesis using assms(4,5)
      by (intro upd [where t' = "t\<lparr>tk_slot := True\<rparr>"]) (auto split: if_splits)
  next
    case (Begin j)
    then show ?thesis using assms(4,5)
      by (intro upd [where t' = "t\<lparr>tk_phase := if shared_holds s t then Handling else Handled True\<rparr>"])
        (auto simp: handle_begin_def split: if_splits)
  next
    case (Ending j r)
    then show ?thesis using assms(4,5)
      by (intro upd [where t' = "t\<lparr>tk_phase := Handled (r \<noteq> Handler_Err)\<rparr>"])
        (auto simp: handle_end_def split: if_splits)
  next
    case (Drop_Slot j)
    then obtain ok1 where p: "tk_phase t = Handled ok1" using assms(4) by (auto split: task_phase.splits)
    then have "tk_slot t" using t by (simp add: task_ok_def)
    with p Drop_Slot show ?thesis using assms(4,5)
      by (intro upd [where t' = "t\<lparr>tk_slot := False, tk_phase := Freed ok1\<rparr>"]) auto
  next
    case (Part j)
    then obtain ok1 where p: "tk_phase t = Freed ok1" using assms(4) by (auto split: task_phase.splits)
    with Part show ?thesis using assms(4,5)
      by (intro upd [where t' = "t\<lparr>tk_phase := Parted ok1\<rparr>"]) (auto split: option.splits)
  next
    case (Drop_Place j)
    then obtain ok1 where p: "tk_phase t = Parted ok1" using assms(4) by (auto split: task_phase.splits)
    with Drop_Place show ?thesis using assms(4,5)
      by (intro upd [where t' = "t\<lparr>tk_phase := Finished ok1\<rparr>"]) auto
  qed (use assms(5) in simp_all)
qed

definition admit_task :: "krecord \<Rightarrow> delivery \<Rightarrow> task" where
  "admit_task r s =
     (let lane = map_option (\<lambda>key. fst (lanes_enqueue key (dl_lanes s))) (kr_key r)
      in \<lparr>tk_record = r, tk_ticket = tr_tickets (dl_tracker s), tk_lane = lane,
          tk_slot = (case lane of None \<Rightarrow> True | Some l \<Rightarrow> lane_is_head l), tk_phase = Waiting\<rparr>)"

lemma admit_frame:
  "dl_tasks (delivery_admit r s) = bt_insert (dl_pulled s) (admit_task r s) (dl_tasks s)"
  "dl_slots (delivery_admit r s) = (if tk_slot (admit_task r s) then dl_slots s else Suc (dl_slots s))"
  "dl_backlog (delivery_admit r s) = dl_backlog s"
  "dl_lanes (delivery_admit r s) =
     (case kr_key r of None \<Rightarrow> dl_lanes s | Some key \<Rightarrow> snd (lanes_enqueue key (dl_lanes s)))"
  "dl_dropped (delivery_admit r s) = dl_dropped s"
  "dl_pulled (delivery_admit r s) = Suc (dl_pulled s)"
  "dl_tracker (delivery_admit r s) =
     snd (tracker_step (Insert (kr_topic r) (kr_partition r) (kr_offset r)) (dl_tracker s))"
  by (auto simp: delivery_admit_def admit_task_def Let_def case_prod_beta split: option.split)

lemma permits_pull:
  assumes "permits_ok s" and "bt_get (dl_tasks s) (dl_pulled s) = None" and "dl_loop s = Select"
  shows "permits_ok ((delivery_admit r s)\<lparr>dl_loop := Want_Place\<rparr>)"
proof -
  have "\<not> is_finished (admit_task r s)" by (simp add: admit_task_def Let_def)
  with assms bt_count_new [OF assms(2), of tk_slot "admit_task r s"]
    bt_count_new [OF assms(2), of "\<lambda>t. \<not> is_finished t" "admit_task r s"]
  show ?thesis by (simp add: permits_ok_def admit_frame del: is_finished_simps)
qed

lemma tasks_okD:
  assumes "tasks_ok s"
  shows "bt_ok (dl_tasks s)" "tracker_ok (dl_tracker s)"
    "bt_get (dl_tasks s) i = Some t \<Longrightarrow> task_ok s i t"
    "bt_get (dl_tasks s) i = Some ti \<Longrightarrow> bt_get (dl_tasks s) j = Some tj \<Longrightarrow> i < j \<Longrightarrow> tk_ticket ti < tk_ticket tj"
  using assms by (auto simp: tasks_ok_def)

lemma pulled_fresh: "tasks_ok s \<Longrightarrow> bt_get (dl_tasks s) (dl_pulled s) = None"
proof (rule ccontr)
  assume ok: "tasks_ok s" and "bt_get (dl_tasks s) (dl_pulled s) \<noteq> None"
  then obtain t where "bt_get (dl_tasks s) (dl_pulled s) = Some t" by blast
  from tasks_okD(3) [OF ok this] show False by (simp add: task_ok_def)
qed

lemma permits_loop_step:
  assumes "permits_ok s" and "tasks_ok s" and "loop_step e s = Some s'" and "event_task e = None"
  shows "permits_ok s'"
proof -
  note new = pulled_fresh [OF assms(2)]
  have let_go: "permits_ok (loop_lets_go p s)" if "dl_loop s = Select" "p \<notin> {Select, Want_Slot}" for p
    using assms(1) that by (simp add: permits_ok_def loop_lets_go_def)
  show ?thesis
  proof (cases e)
    case (Pull r)
    then show ?thesis using assms(1,3) new by (auto intro: permits_pull split: if_splits)
  next
    case (Revoke_Parts ps)
    then have "s' = fold (\<lambda>x. shared_event (Revoke (fst x) (snd x))) ps s"
      using assms(3) by (simp add: rebalance_fold)
    then show ?thesis using permits_fold [OF assms(1)] by simp
  next
    case (Assign_Parts ps)
    then have "s' = fold (\<lambda>x. shared_event (Assign (fst x) (snd x))) ps s"
      using assms(3) by (simp add: rebalance_fold)
    then show ?thesis using permits_fold [OF assms(1)] by simp
  next
    case (Report_Send i)
    then show ?thesis using assms(1,3) by (auto simp: permits_shared split: if_splits)
  next
    case Take_Place
    then show ?thesis using assms(1,3) unfolding permits_ok_def by (auto split: if_split_asm)
  next
    case Take_Slot
    then show ?thesis using assms(1,3) unfolding permits_ok_def by (auto split: if_split_asm)
  next
    case Pull_Error
    then show ?thesis using assms(3) by (auto intro!: let_go split: if_splits)
  next
    case Stream_End
    then show ?thesis using assms(3) by (auto intro!: let_go split: if_splits)
  next
    case Drained
    then show ?thesis using assms(1,3) unfolding permits_ok_def by (auto split: if_split_asm)
  next
    case Next_Send
    then show ?thesis using assms(1,3) by (auto simp: permits_ok_def)
  qed (use assms(4) in simp_all)
qed

section \<open>Tasks and the tracker\<close>

lemma same_ticket_same_task:
  assumes "tasks_ok s" and "bt_get (dl_tasks s) i = Some ti" and "bt_get (dl_tasks s) j = Some tj"
    and "tk_ticket ti = tk_ticket tj"
  shows "i = j"
  using tasks_okD(4) [OF assms(1,2,3)] tasks_okD(4) [OF assms(1,3,2)] assms(4)
  by (metis less_irrefl nat_neq_iff)

text \<open>An event finishes no task's pull but the one whose ticket it carries.\<close>

lemma out_after_event:
  assumes "tasks_ok s" and "bt_get (dl_tasks s) j = Some t"
    and "tracker_out (snd (tracker_step e (dl_tracker s))) (task_tp t) (kr_offset (tk_record t)) = Some (tk_ticket t, True)"
  shows "phase_succeeded (tk_phase t) \<or> (\<exists>topic p k n. e = Done topic p k (tk_ticket t) n)"
  using commits.finished_by_ticket [OF tasks_okD(2) [OF assms(1)] assms(3)] tasks_okD(3) [OF assms(1,2)]
  by (auto simp: task_ok_def)

lemma tickets_grow: "tracker_ok tr \<Longrightarrow> tr_tickets tr \<le> tr_tickets (snd (tracker_step e tr))"
  by (simp only: commits.tickets_step) (simp split: tracker_event.split)

lemma tasks_shared:
  assumes "tasks_ok s" and "\<And>topic p k t n. e \<noteq> Done topic p k t n"
  shows "tasks_ok (shared_event e s)"
proof -
  have "task_ok (shared_event e s) i t" if "bt_get (dl_tasks s) i = Some t" for i t
    using out_after_event [OF assms(1) that, of e] assms(2) tasks_okD(3) [OF assms(1) that]
      tickets_grow [OF tasks_okD(2) [OF assms(1)], of e]
    by (auto simp: task_ok_def)
  then show ?thesis
    using assms(1) commits.ok_step [of "dl_tracker s" e] by (simp add: tasks_ok_def)
qed

text \<open>One task moves on, the tracker having seen at most its own \<open>Done\<close>.\<close>

lemma tasks_update:
  assumes ok: "tasks_ok s" and i: "bt_get (dl_tasks s) i = Some t"
    and "dl_tasks s' = bt_insert i t' (dl_tasks s)" and "dl_pulled s' = dl_pulled s"
    and "tk_record t' = tk_record t" "tk_ticket t' = tk_ticket t" "tk_lane t' = tk_lane t"
    and slot: "phase_slot (tk_phase t') (tk_slot t') (tk_lane t')"
    and tr: "dl_tracker s' = dl_tracker s \<and> (phase_succeeded (tk_phase t) \<longrightarrow> phase_succeeded (tk_phase t')) \<or>
      (\<exists>topic p k n. dl_tracker s' = snd (tracker_step (Done topic p k (tk_ticket t) n) (dl_tracker s)) \<and>
         phase_succeeded (tk_phase t'))"
  shows "tasks_ok s'"
proof -
  note get = bt.get_ins [OF tasks_okD(1) [OF ok]]
  have tok: "tracker_ok (dl_tracker s')"
    using tr tasks_okD(2) [OF ok] commits.ok_step by metis
  have grow: "tr_tickets (dl_tracker s) \<le> tr_tickets (dl_tracker s')"
    using tr tickets_grow [OF tasks_okD(2) [OF ok]] by fastforce
  have "task_ok s' j u" if j: "bt_get (dl_tasks s') j = Some u" for j u
  proof (cases "j = i")
    case True
    then have u: "u = t'" using j assms(3) get by simp
    have out: "tracker_out (dl_tracker s') (task_tp t') (kr_offset (tk_record t')) = Some (tk_ticket t', True) \<longrightarrow>
        phase_succeeded (tk_phase t')"
      using tr tasks_okD(3) [OF ok i] assms(5,6) by (auto simp: task_ok_def task_tp_def)
    then show ?thesis
      using tasks_okD(3) [OF ok i] u assms(4-7) slot grow True by (simp add: task_ok_def)
  next
    case False
    then have ju: "bt_get (dl_tasks s) j = Some u" using j assms(3) get by simp
    have out: "tracker_out (dl_tracker s') (task_tp u) (kr_offset (tk_record u)) = Some (tk_ticket u, True) \<longrightarrow>
        phase_succeeded (tk_phase u)"
      using tr
    proof (elim disjE exE conjE)
      fix topic p k n
      assume d: "dl_tracker s' = snd (tracker_step (Done topic p k (tk_ticket t) n) (dl_tracker s))"
      show ?thesis
        unfolding d using out_after_event [OF ok ju] same_ticket_same_task [OF ok ju i] False by fastforce
    qed (use tasks_okD(3) [OF ok ju] in \<open>auto simp: task_ok_def\<close>)
    then show ?thesis
      using tasks_okD(3) [OF ok ju] assms(4) grow by (simp add: task_ok_def)
  qed
  moreover have "tk_ticket tj < tk_ticket tk"
    if "bt_get (dl_tasks s') j = Some tj" "bt_get (dl_tasks s') k = Some tk" "j < k" for j k tj tk
    using that assms(3,6) get i tasks_okD(4) [OF ok] by (auto split: if_splits)
  ultimately show ?thesis
    using tok tasks_okD(1) [OF ok] assms(3) by (auto simp: tasks_ok_def bt.ok_ins)
qed

lemma delivery_done_tracker:
  "dl_tracker (delivery_done t s) =
     snd (tracker_step (Done (kr_topic (tk_record t)) (kr_partition (tk_record t))
       (kr_offset (tk_record t)) (tk_ticket t) (dl_sends s)) (dl_tracker s))"
  by (simp add: delivery_done_def)

lemma tasks_reap:
  assumes "tasks_ok s" and "dl_tasks s' = bt_remove i (dl_tasks s) \<or> dl_tasks s' = dl_tasks s"
    and "dl_pulled s' = dl_pulled s" and "dl_tracker s' = dl_tracker s"
  shows "tasks_ok s'"
proof -
  have sub: "bt_get (dl_tasks s') j = Some u \<Longrightarrow> bt_get (dl_tasks s) j = Some u" for j u
    using assms(2) bt.get_del [OF tasks_okD(1) [OF assms(1)]] by (auto split: if_splits)
  have "bt_ok (dl_tasks s')" using assms(2) tasks_okD(1) [OF assms(1)] by (auto simp: bt.ok_del)
  moreover have "task_ok s' j u" if "bt_get (dl_tasks s') j = Some u" for j u
    using tasks_okD(3) [OF assms(1) sub [OF that]] assms(3,4) by (simp add: task_ok_def)
  ultimately show ?thesis
    using tasks_okD(2,4) [OF assms(1)] assms(4) sub unfolding tasks_ok_def by metis
qed

lemma tasks_task_step:
  assumes "tasks_ok s" and i: "bt_get (dl_tasks s) i = Some t"
    and "task_step e t s = Some s'" and "event_task e = Some i"
  shows "tasks_ok s'"
proof -
  have slot: "phase_slot (tk_phase t) (tk_slot t) (tk_lane t)"
    using tasks_okD(3) [OF assms(1) i] by (simp add: task_ok_def)
  note upd = tasks_update [OF assms(1) i]
  show ?thesis
  proof (cases e)
    case (Reap j)
    then show ?thesis
      using assms(3,4)
      by (intro tasks_reap [OF assms(1), of s' i])
        (auto simp: Let_def loop_lets_go_def split: task_phase.splits if_splits)
  next
    case (Turn j)
    then show ?thesis using assms(3,4)
      by (intro upd [where t' = "t\<lparr>tk_phase := Turned\<rparr>"]) (auto split: if_splits)
  next
    case (Get_Slot j)
    then show ?thesis using assms(3,4)
      by (intro upd [where t' = "t\<lparr>tk_slot := True\<rparr>"]) (auto split: if_splits)
  next
    case (Begin j)
    then show ?thesis using assms(3,4)
      by (intro upd [where t' = "t\<lparr>tk_phase := if shared_holds s t then Handling else Handled True\<rparr>"])
        (auto simp: handle_begin_def split: if_splits)
  next
    case (Ending j r)
    show ?thesis
    proof (cases "r = Handler_Err")
      case True
      then show ?thesis using assms(3,4) Ending slot
        by (intro upd [where t' = "t\<lparr>tk_phase := Handled False\<rparr>"]) (auto simp: handle_end_def split: if_splits)
    next
      case False
      then show ?thesis using assms(3,4) Ending slot
        by (intro upd [where t' = "t\<lparr>tk_phase := Handled True\<rparr>"])
          (auto simp: handle_end_def delivery_done_tracker split: if_splits, blast)
    qed
  next
    case (Drop_Slot j)
    then obtain ok1 where p: "tk_phase t = Handled ok1" using assms(3) by (auto split: task_phase.splits)
    with Drop_Slot show ?thesis using assms(3,4)
      by (intro upd [where t' = "t\<lparr>tk_slot := False, tk_phase := Freed ok1\<rparr>"]) auto
  next
    case (Part j)
    then obtain ok1 where p: "tk_phase t = Freed ok1" using assms(3) by (auto split: task_phase.splits)
    with Part slot show ?thesis using assms(3,4)
      by (intro upd [where t' = "t\<lparr>tk_phase := Parted ok1\<rparr>"]) (auto split: option.splits)
  next
    case (Drop_Place j)
    then obtain ok1 where p: "tk_phase t = Parted ok1" using assms(3) by (auto split: task_phase.splits)
    with Drop_Place slot show ?thesis using assms(3,4)
      by (intro upd [where t' = "t\<lparr>tk_phase := Finished ok1\<rparr>"]) auto
  qed (use assms(4) in simp_all)
qed

lemma tasks_fold:
  assumes "tasks_ok s" and "\<And>x topic p k t n. f x \<noteq> Done topic p k t n"
  shows "tasks_ok (fold (\<lambda>x. shared_event (f x)) ps s)"
  using assms(1) by (induction ps arbitrary: s) (simp_all add: tasks_shared assms(2))

lemma tasks_pull:
  assumes "tasks_ok s"
  shows "tasks_ok ((delivery_admit r s)\<lparr>dl_loop := p\<rparr>)"
proof -
  let ?e = "Insert (kr_topic r) (kr_partition r) (kr_offset r)"
  let ?s = "(delivery_admit r s)\<lparr>dl_loop := p\<rparr>"
  note D = tasks_okD [OF assms]
  have tickets: "tr_tickets (snd (tracker_step ?e (dl_tracker s))) = Suc (tr_tickets (dl_tracker s))"
    using commits.tickets_step [OF D(2), of ?e] by simp
  have get: "bt_get (dl_tasks ?s) j = (if j = dl_pulled s then Some (admit_task r s) else bt_get (dl_tasks s) j)" for j
    using bt.get_ins [OF D(1)] by (simp add: admit_frame)
  have unfinished: "tracker_out (snd (tracker_step ?e (dl_tracker s))) tp k \<noteq> Some (tr_tickets (dl_tracker s), True)" for tp k
    using commits.out_step [OF D(2), of ?e tp k "tr_tickets (dl_tracker s)" True]
      commits.out_ticket [OF D(2)] by blast
  have "task_ok ?s j t" if j: "bt_get (dl_tasks ?s) j = Some t" for j t
  proof (cases "j = dl_pulled s")
    case True
    then have "t = admit_task r s" using j get by simp
    then show ?thesis
      using True unfinished tickets
      by (cases "kr_key r") (simp_all add: task_ok_def admit_frame admit_task_def Let_def lanes_enqueue_def)
  next
    case False
    then have t: "bt_get (dl_tasks s) j = Some t" using j get by simp
    show ?thesis
      using out_after_event [OF assms t, of ?e] D(3) [OF t] tickets
      by (auto simp: task_ok_def admit_frame)
  qed
  moreover have "tk_ticket ti < tk_ticket tj"
    if "bt_get (dl_tasks ?s) i = Some ti" "bt_get (dl_tasks ?s) j = Some tj" "i < j" for i j ti tj
  proof -
    have "i \<noteq> dl_pulled s"
    proof
      assume "i = dl_pulled s"
      then have "bt_get (dl_tasks s) j = Some tj" using that get by simp
      from D(3) [OF this] \<open>i = dl_pulled s\<close> that(3) show False by (simp add: task_ok_def)
    qed
    then have i: "bt_get (dl_tasks s) i = Some ti" using that(1) get by simp
    show ?thesis
    proof (cases "j = dl_pulled s")
      case True
      then have "tk_ticket tj = tr_tickets (dl_tracker s)" using that(2) get by (auto simp: admit_task_def Let_def)
      then show ?thesis using D(3) [OF i] by (simp add: task_ok_def)
    next
      case False
      then show ?thesis using D(4) [OF i _ that(3)] that(2) get by simp
    qed
  qed
  moreover have "bt_ok (dl_tasks ?s)" using bt.ok_ins [OF D(1)] by (simp add: admit_frame)
  moreover have "tracker_ok (dl_tracker ?s)" using commits.ok_step [OF D(2)] by (simp add: admit_frame)
  ultimately show ?thesis unfolding tasks_ok_def by blast
qed

lemma tasks_loop_step:
  assumes "tasks_ok s" and "loop_step e s = Some s'"
  shows "tasks_ok s'"
proof -
  have same: "tasks_ok s'" if "dl_tasks s' = dl_tasks s" "dl_pulled s' = dl_pulled s" "dl_tracker s' = dl_tracker s"
    using tasks_reap [OF assms(1), of s'] that by simp
  show ?thesis
  proof (cases e)
    case (Pull r)
    then show ?thesis using assms tasks_pull by (auto split: if_split_asm)
  next
    case (Revoke_Parts ps)
    then have "s' = fold (\<lambda>x. shared_event (Revoke (fst x) (snd x))) ps s"
      using assms(2) by (simp add: rebalance_fold)
    then show ?thesis using tasks_fold [OF assms(1), of "\<lambda>x. Revoke (fst x) (snd x)"] by simp
  next
    case (Assign_Parts ps)
    then have "s' = fold (\<lambda>x. shared_event (Assign (fst x) (snd x))) ps s"
      using assms(2) by (simp add: rebalance_fold)
    then show ?thesis using tasks_fold [OF assms(1), of "\<lambda>x. Assign (fst x) (snd x)"] by simp
  next
    case (Report_Send i)
    then have "s' = shared_event (Note_Delivered i) s" using assms(2) by (auto split: if_split_asm)
    then show ?thesis using tasks_shared [OF assms(1)] by simp
  qed (use assms(2) in \<open>(intro same; force simp: loop_lets_go_def split: if_split_asm)\<close>)+
qed

section \<open>The lanes\<close>

lemma lane_view_update:
  assumes "bt_ok (dl_tasks s)" and "dl_tasks s' = bt_insert i t' (dl_tasks s)"
  shows "lane_of s' = (lane_of s)(i := map_option (\<lambda>l. (l, phase_parted (tk_phase t'))) (tk_lane t'))"
    and "past s' = (past s)(i := tk_phase t' \<noteq> Waiting)"
  using bt.get_ins [OF assms(1)] assms(2) by (auto simp: lane_of_def past_def fun_eq_iff)

lemma lane_view_same:
  assumes "bt_ok (dl_tasks s)" and "bt_get (dl_tasks s) i = Some t"
    and "dl_tasks s' = bt_insert i t' (dl_tasks s)" and "tk_lane t' = tk_lane t"
    and "phase_parted (tk_phase t') = phase_parted (tk_phase t)"
    and "(tk_phase t' = Waiting) = (tk_phase t = Waiting)"
  shows "lane_of s' = lane_of s" "past s' = past s"
  unfolding lane_view_update [OF assms(1,3)] using assms(2,4-6)
  by (simp_all add: lane_of_def past_def fun_eq_iff)

definition lanes_inv :: "delivery \<Rightarrow> bool" where
  "lanes_inv s \<longleftrightarrow> lanes_ok (dl_pulled s) (lane_of s) (past s) (dl_lanes s) (dl_dropped s)"

lemma lanes_inv_cong:
  "lanes_inv s \<Longrightarrow> dl_tasks s' = dl_tasks s \<Longrightarrow> dl_pulled s' = dl_pulled s \<Longrightarrow> dl_lanes s' = dl_lanes s \<Longrightarrow>
   dl_dropped s' = dl_dropped s \<Longrightarrow> lanes_inv s'"
  by (simp add: lanes_inv_def lane_of_def [abs_def] past_def [abs_def])

lemma lanes_inv_same:
  assumes "lanes_inv s" and "bt_ok (dl_tasks s)" and "bt_get (dl_tasks s) i = Some t"
    and "dl_tasks s' = bt_insert i t' (dl_tasks s)" and "tk_lane t' = tk_lane t"
    and "phase_parted (tk_phase t') = phase_parted (tk_phase t)"
    and "(tk_phase t' = Waiting) = (tk_phase t = Waiting)"
    and "dl_pulled s' = dl_pulled s" and "dl_lanes s' = dl_lanes s" and "dl_dropped s' = dl_dropped s"
  shows "lanes_inv s'"
  using assms(1,8-10) lane_view_same [OF assms(2-7)] by (simp add: lanes_inv_def)

lemma lanes_fold: "lanes_inv s \<Longrightarrow> lanes_inv (fold (\<lambda>x. shared_event (f x)) ps s)"
proof (induction ps arbitrary: s)
  case (Cons p ps)
  have "lanes_inv (shared_event (f p) s)" by (rule lanes_inv_cong [OF Cons.prems]) simp_all
  with Cons.IH show ?case by simp
qed simp

lemma lanes_pull:
  assumes "lanes_inv s" and "tasks_ok s"
  shows "lanes_inv ((delivery_admit r s)\<lparr>dl_loop := p\<rparr>)"
proof -
  let ?s = "(delivery_admit r s)\<lparr>dl_loop := p\<rparr>"
  let ?n = "dl_pulled s"
  have upd: "dl_tasks ?s = bt_insert ?n (admit_task r s) (dl_tasks s)" by (simp add: admit_frame)
  note view = lane_view_update [OF tasks_okD(1) [OF assms(2)] upd]
  have new: "lane_of s ?n = None" "\<not> past s ?n"
    using pulled_fresh [OF assms(2)] by (simp_all add: lane_of_def past_def)
  have w: "past ?s = past s" using view(2) new(2) by (auto simp: admit_task_def Let_def fun_eq_iff)
  show ?thesis
  proof (cases "kr_key r")
    case None
    then have "lane_of ?s = lane_of s"
      using view(1) new(1) by (auto simp: admit_task_def Let_def fun_eq_iff)
    then show ?thesis
      using assms(1) w None lanes_ok_mono [of ?n _ _ _ _ "Suc ?n"]
      by (simp add: lanes_inv_def admit_frame)
  next
    case (Some key)
    obtain l lns where e: "lanes_enqueue key (dl_lanes s) = (l, lns)" by fastforce
    have "lane_of ?s = (lane_of s)(?n := Some (l, False))"
      using view(1) Some e by (simp add: admit_task_def Let_def)
    then show ?thesis
      using lanes_ok_enqueue [OF assms(1) [unfolded lanes_inv_def] e new(2)] w Some e
      by (simp add: lanes_inv_def admit_frame)
  qed
qed

lemma lanes_loop_step:
  assumes "lanes_inv s" and "tasks_ok s" and "loop_step e s = Some s'"
  shows "lanes_inv s'"
proof (cases e)
  case (Pull r)
  then show ?thesis using assms lanes_pull by (auto split: if_split_asm)
next
  case (Revoke_Parts ps)
  then have "s' = fold (\<lambda>x. shared_event (Revoke (fst x) (snd x))) ps s"
    using assms(3) by (simp add: rebalance_fold)
  then show ?thesis using lanes_fold [OF assms(1)] by simp
next
  case (Assign_Parts ps)
  then have "s' = fold (\<lambda>x. shared_event (Assign (fst x) (snd x))) ps s"
    using assms(3) by (simp add: rebalance_fold)
  then show ?thesis using lanes_fold [OF assms(1)] by simp
qed (use assms(3) in \<open>auto intro!: lanes_inv_cong [OF assms(1)] simp: loop_lets_go_def split: if_split_asm\<close>)

lemma lanes_task_step:
  assumes inv: "lanes_inv s" and ok: "tasks_ok s" and i: "bt_get (dl_tasks s) i = Some t"
    and step: "task_step e t s = Some s'" "event_task e = Some i"
  shows "lanes_inv s'"
proof -
  note bt = tasks_okD(1) [OF ok]
  note same = lanes_inv_same [OF inv bt i]
  note L = inv [unfolded lanes_inv_def]
  show ?thesis
  proof (cases e)
    case (Reap j)
    then obtain ok1 where f: "tk_phase t = Finished ok1" using step by (auto split: task_phase.splits)
    have forget: "lanes_ok (dl_pulled s) ((lane_of s)(i := None)) (past s) (dl_lanes s) (dl_dropped s)"
      by (rule lanes_ok_forget [OF L]) (use i f in \<open>auto simp: lane_of_def\<close>)
    have gone: "lanes_inv s''" if "dl_tasks s'' = bt_remove i (dl_tasks s)" "dl_pulled s'' = dl_pulled s"
      "dl_lanes s'' = dl_lanes s" "dl_dropped s'' = dl_dropped s" for s''
    proof -
      have v: "lane_of s'' = (lane_of s)(i := None)" "past s'' = (past s)(i := False)"
        using bt.get_del [OF bt] that(1) by (auto simp: lane_of_def past_def fun_eq_iff)
      have "lanes_ok (dl_pulled s) ((lane_of s)(i := None)) ((past s)(i := False)) (dl_lanes s) (dl_dropped s)"
        by (rule lanes_ok_past [OF forget]) (simp split: if_split_asm)
      then show ?thesis using that v by (simp add: lanes_inv_def)
    qed
    show ?thesis
      using step Reap f
      by (auto intro: gone lanes_inv_cong [OF inv] simp: Let_def loop_lets_go_def split: if_split_asm)
  next
    case (Turn j)
    then have w: "tk_phase t = Waiting" and r: "case tk_lane t of None \<Rightarrow> True | Some l \<Rightarrow> lane_turn_ready (dl_dropped s) l"
      and s': "s' = set_task i (t\<lparr>tk_phase := Turned\<rparr>) s"
      using step by (auto split: if_split_asm)
    have upd: "dl_tasks s' = bt_insert i (t\<lparr>tk_phase := Turned\<rparr>) (dl_tasks s)" by (simp add: s')
    have v: "lane_of s' = lane_of s" "past s' = (past s)(i := True)"
      unfolding lane_view_update [OF bt upd] using i w by (auto simp: lane_of_def fun_eq_iff)
    have "lanes_ok (dl_pulled s) (lane_of s) ((past s)(i := True)) (dl_lanes s) (dl_dropped s)"
      by (rule lanes_ok_turn [OF L]) (use i r in \<open>auto simp: lane_of_def split: option.splits\<close>)
    then show ?thesis unfolding lanes_inv_def v by (simp add: s')
  next
    case (Get_Slot j)
    then show ?thesis using step
      by (intro same [where t' = "t\<lparr>tk_slot := True\<rparr>"]) (auto split: if_split_asm)
  next
    case (Begin j)
    then show ?thesis using step
      by (intro same [where t' = "t\<lparr>tk_phase := if shared_holds s t then Handling else Handled True\<rparr>"])
        (auto simp: handle_begin_def split: if_split_asm)
  next
    case (Ending j r)
    then show ?thesis using step
      by (intro same [where t' = "t\<lparr>tk_phase := Handled (r \<noteq> Handler_Err)\<rparr>"])
        (auto simp: handle_end_def split: if_split_asm)
  next
    case (Drop_Slot j)
    then obtain ok1 where p: "tk_phase t = Handled ok1" using step by (auto split: task_phase.splits)
    with Drop_Slot step show ?thesis
      by (intro same [where t' = "t\<lparr>tk_slot := False, tk_phase := Freed ok1\<rparr>"]) auto
  next
    case (Part j)
    then obtain ok1 where p: "tk_phase t = Freed ok1" using step by (auto split: task_phase.splits)
    have upd: "dl_tasks s' = bt_insert i (t\<lparr>tk_phase := Parted ok1\<rparr>) (dl_tasks s)"
      using p Part step by (auto split: option.splits)
    note v = lane_view_update [OF bt upd]
    have w: "past s' = past s" using v(2) i p by (auto simp: past_def fun_eq_iff)
    show ?thesis
    proof (cases "tk_lane t")
      case None
      have "lane_of s' = lane_of s" using v(1) i None by (auto simp: lane_of_def fun_eq_iff)
      then show ?thesis using L w p Part step None by (auto simp: lanes_inv_def)
    next
      case (Some l)
      have li: "lane_of s i = Some (l, False)" and wi: "past s i"
        using i p Some by (simp_all add: lane_of_def past_def)
      have "lane_of s' = (lane_of s)(i := Some (l, True))" using v(1) Some by simp
      then show ?thesis
        using lanes_ok_part [OF L li wi] w p Part step Some by (auto simp: lanes_inv_def)
    qed
  next
    case (Drop_Place j)
    then obtain ok1 where p: "tk_phase t = Parted ok1" using step by (auto split: task_phase.splits)
    with Drop_Place step show ?thesis
      by (intro same [where t' = "t\<lparr>tk_phase := Finished ok1\<rparr>"]) auto
  qed (use step in simp_all)
qed

end
