(* ===== verification/Kafka_Delivery_Props.thy ===== *)
theory Kafka_Delivery_Props
  imports Kafka_Delivery_Inv
begin

text \<open>
  What every reachable state of the delivery loop satisfies: bounded concurrency and
  backlog, records of one key handled one at a time in the order they were pulled, offsets
  stored only past handled records, and no deadlock; a drain ends.
\<close>

section \<open>Reachable states\<close>

lemma dl_ok_init: "dl_ok (delivery_init prefix registry)"
proof -
  have "task_ok (delivery_init prefix registry) i t" if "bt_get (dl_tasks (delivery_init prefix registry)) i = Some t" for i t
    using that by (simp add: delivery_init_def)
  then show ?thesis
    by (simp add: dl_ok_def permits_ok_def tasks_ok_def delivery_init_def lane_of_def [abs_def] past_def [abs_def]
        lanes_ok_start IN_FLIGHT_def BACKLOG_def bt_ok_def)
qed

lemma dl_ok_inv: "dl_ok s \<longleftrightarrow> permits_ok s \<and> tasks_ok s \<and> lanes_inv s"
  by (simp add: dl_ok_def lanes_inv_def)

lemma with_task_SomeD:
  assumes "with_task i s f = Some s'"
  obtains t where "bt_get (dl_tasks s) i = Some t" "f t = Some s'" "\<not> is_ended (dl_loop s)"
  using assms by (auto simp: with_task_def split: if_split_asm option.splits)

lemma dl_ok_step:
  assumes "dl_ok s" and "dl_step e s = Some s'"
  shows "dl_ok s'"
proof -
  have ok: "permits_ok s" "tasks_ok s" "lanes_inv s" using assms(1) by (simp_all add: dl_ok_inv)
  show ?thesis
  proof (cases "event_task e")
    case None
    then have "loop_step e s = Some s'" using assms(2) by (simp add: dl_step_def)
    then show ?thesis
      using permits_loop_step [OF ok(1,2) _ None] tasks_loop_step [OF ok(2)] lanes_loop_step [OF ok(3,2)]
      by (simp add: dl_ok_inv)
  next
    case (Some i)
    then have "with_task i s (\<lambda>t. task_step e t s) = Some s'" using assms(2) by (simp add: dl_step_def)
    then obtain t where t: "bt_get (dl_tasks s) i = Some t" "task_step e t s = Some s'"
      by (rule with_task_SomeD)
    then show ?thesis
      using permits_task_step [OF ok(1,2) t Some] tasks_task_step [OF ok(2) t Some]
        lanes_task_step [OF ok(3,2) t Some] by (simp add: dl_ok_inv)
  qed
qed

lemma dl_reach_ok: "dl_reach prefix registry s \<Longrightarrow> dl_ok s"
  by (induction rule: dl_reach.induct) (auto intro: dl_ok_init dl_ok_step)

text \<open>A list of events run from a state, for concrete runs.\<close>

fun dl_run :: "dl_event list \<Rightarrow> delivery \<Rightarrow> delivery option" where
  "dl_run [] s = Some s"
| "dl_run (e # es) s = (case dl_step e s of None \<Rightarrow> None | Some s' \<Rightarrow> dl_run es s')"

lemma dl_run_reach: "dl_reach prefix registry s \<Longrightarrow> dl_run es s = Some s' \<Longrightarrow> dl_reach prefix registry s'"
  by (induction es arbitrary: s) (auto split: option.splits intro: dl_next)

section \<open>Bounds\<close>

text \<open>The tasks a predicate holds of.\<close>

definition tasks_where :: "(task \<Rightarrow> bool) \<Rightarrow> delivery \<Rightarrow> nat" where
  "tasks_where P s = bt_count P (dl_tasks s)"

lemma bt_count_mono: "(\<And>v. P v \<Longrightarrow> Q v) \<Longrightarrow> bt_count P t \<le> bt_count Q t"
  by (induction t) (auto simp: bt_count_def)

lemma bt_count_mono_in: "(\<And>e. e \<in> set t \<Longrightarrow> P (snd e) \<Longrightarrow> Q (snd e)) \<Longrightarrow> bt_count P t \<le> bt_count Q t"
  by (induction t) (auto simp: bt_count_def)

lemma task_in: "tasks_ok s \<Longrightarrow> e \<in> set (dl_tasks s) \<Longrightarrow> bt_get (dl_tasks s) (fst e) = Some (snd e)"
  using bt_get_in [of "dl_tasks s"] by (simp add: tasks_ok_def)

lemma permits_bound:
  assumes "dl_ok s"
  shows "tasks_where (\<lambda>t. tk_phase t = Handling) s \<le> IN_FLIGHT \<and> tasks_where (\<lambda>t. \<not> is_finished t) s \<le> BACKLOG"
proof -
  have ok: "permits_ok s" "tasks_ok s" using assms by (simp_all add: dl_ok_inv)
  have "bt_count (\<lambda>t. tk_phase t = Handling) (dl_tasks s) \<le> bt_count tk_slot (dl_tasks s)"
  proof (rule bt_count_mono_in)
    fix e assume "e \<in> set (dl_tasks s)" and h: "tk_phase (snd e) = Handling"
    then have "task_ok s (fst e) (snd e)" using tasks_okD(3) [OF ok(2) task_in [OF ok(2)]] by blast
    then show "tk_slot (snd e)" using h by (simp add: task_ok_def)
  qed
  then show ?thesis using ok(1) by (simp add: permits_ok_def tasks_where_def)
qed

section \<open>What a task's step does to the tasks\<close>

fun task_rank :: "task_phase \<Rightarrow> bool \<Rightarrow> nat" where
  "task_rank Waiting slot = 8"
| "task_rank Turned slot = (if slot then 6 else 7)"
| "task_rank Handling slot = 5"
| "task_rank (Handled _) slot = 4"
| "task_rank (Freed _) slot = 3"
| "task_rank (Parted _) slot = 2"
| "task_rank (Finished _) slot = 1"

definition rank_of :: "task \<Rightarrow> nat" where
  "rank_of t = task_rank (tk_phase t) (tk_slot t)"

definition moved :: "delivery \<Rightarrow> task \<Rightarrow> task \<Rightarrow> bool" where
  "moved s t t' \<longleftrightarrow>
     tk_record t' = tk_record t \<and> rank_of t' < rank_of t \<and>
     (phase_parted (tk_phase t) \<longrightarrow> phase_parted (tk_phase t')) \<and>
     (tk_phase t = Waiting \<longrightarrow> tk_phase t' = Turned \<and>
        (case tk_lane t of None \<Rightarrow> True | Some l \<Rightarrow> lane_turn_ready (dl_dropped s) l))"

lemma moved_simps:
  "moved s t t' \<longleftrightarrow>
     tk_record t' = tk_record t \<and> task_rank (tk_phase t') (tk_slot t') < task_rank (tk_phase t) (tk_slot t) \<and>
     (phase_parted (tk_phase t) \<longrightarrow> phase_parted (tk_phase t')) \<and>
     (tk_phase t = Waiting \<longrightarrow> tk_phase t' = Turned \<and>
        (case tk_lane t of None \<Rightarrow> True | Some l \<Rightarrow> lane_turn_ready (dl_dropped s) l))"
  by (simp add: moved_def rank_of_def)

lemma task_step_moves:
  assumes "task_step e t s = Some s'" and "event_task e = Some i" and "\<And>i. e \<noteq> Reap i"
  shows "\<exists>t'. dl_tasks s' = bt_insert i t' (dl_tasks s) \<and> moved s t t' \<and> dl_loop s' = dl_loop s"
proof (cases e)
  case (Turn j)
  then show ?thesis using assms(1,2)
    by (intro exI [of _ "t\<lparr>tk_phase := Turned\<rparr>"]) (auto simp: moved_simps split: if_split_asm)
next
  case (Get_Slot j)
  then show ?thesis using assms(1,2)
    by (intro exI [of _ "t\<lparr>tk_slot := True\<rparr>"]) (auto simp: moved_simps split: if_split_asm)
next
  case (Begin j)
  then show ?thesis using assms(1,2)
    by (intro exI [of _ "t\<lparr>tk_phase := if shared_holds s t then Handling else Handled True\<rparr>"])
      (auto simp: moved_simps handle_begin_def split: if_split_asm)
next
  case (Ending j r)
  then show ?thesis using assms(1,2)
    by (intro exI [of _ "t\<lparr>tk_phase := Handled (r \<noteq> Handler_Err)\<rparr>"])
      (auto simp: moved_simps handle_end_def split: if_split_asm)
next
  case (Drop_Slot j)
  then obtain ok1 where "tk_phase t = Handled ok1" using assms(1) by (auto split: task_phase.splits)
  with Drop_Slot show ?thesis using assms(1,2)
    by (intro exI [of _ "t\<lparr>tk_slot := False, tk_phase := Freed ok1\<rparr>"]) (auto simp: moved_simps)
next
  case (Part j)
  then obtain ok1 where "tk_phase t = Freed ok1" using assms(1) by (auto split: task_phase.splits)
  with Part show ?thesis using assms(1,2)
    by (intro exI [of _ "t\<lparr>tk_phase := Parted ok1\<rparr>"]) (auto simp: moved_simps split: option.splits)
next
  case (Drop_Place j)
  then obtain ok1 where "tk_phase t = Parted ok1" using assms(1) by (auto split: task_phase.splits)
  with Drop_Place show ?thesis using assms(1,2)
    by (intro exI [of _ "t\<lparr>tk_phase := Finished ok1\<rparr>"]) (auto simp: moved_simps)
qed (use assms in simp_all)

lemma reap_tasks:
  assumes "task_step (Reap i) t s = Some s'"
  shows "dl_tasks s' = bt_remove i (dl_tasks s) \<or> dl_tasks s' = dl_tasks s"
    and "dl_loop s = Drain \<Longrightarrow> dl_loop s' = Drain \<and> dl_tasks s' = bt_remove i (dl_tasks s) \<or> dl_loop s' = Ended False"
  using assms by (auto simp: Let_def loop_lets_go_def split: task_phase.splits if_split_asm)

lemma loop_step_tasks:
  assumes "loop_step e s = Some s'"
  shows "dl_tasks s' = dl_tasks s \<or> (\<exists>r. dl_tasks s' = bt_insert (dl_pulled s) (admit_task r s) (dl_tasks s))"
proof -
  have fold: "dl_tasks (fold (\<lambda>x. shared_event (f x)) ps s) = dl_tasks s" for f and ps :: "(string \<times> int) list" and s
    by (induction ps arbitrary: s) simp_all
  show ?thesis
    using assms fold by (cases e) (auto simp: loop_lets_go_def admit_frame rebalance_fold split: if_split_asm)
qed

section \<open>Order and exclusion\<close>

text \<open>
  Of two tasks with records of one key, the later is past its wait only once the earlier has
  parted with its lane.
\<close>

definition order_inv :: "delivery \<Rightarrow> bool" where
  "order_inv s \<longleftrightarrow>
     (\<forall>i j ti tj key. bt_get (dl_tasks s) i = Some ti \<longrightarrow> bt_get (dl_tasks s) j = Some tj \<longrightarrow> i < j \<longrightarrow>
        kr_key (tk_record ti) = Some key \<longrightarrow> kr_key (tk_record tj) = Some key \<longrightarrow>
        tk_phase tj \<noteq> Waiting \<longrightarrow> phase_parted (tk_phase ti))"

lemma order_invD:
  "order_inv s \<Longrightarrow> bt_get (dl_tasks s) i = Some ti \<Longrightarrow> bt_get (dl_tasks s) j = Some tj \<Longrightarrow> i < j \<Longrightarrow>
   kr_key (tk_record ti) = Some key \<Longrightarrow> kr_key (tk_record tj) = Some key \<Longrightarrow> tk_phase tj \<noteq> Waiting \<Longrightarrow>
   phase_parted (tk_phase ti)"
  unfolding order_inv_def by blast

text \<open>A task as the lanes' invariant sees it.\<close>

lemma keyed_lane:
  assumes "tasks_ok s" and "bt_get (dl_tasks s) i = Some t" and "kr_key (tk_record t) = Some key"
  obtains l where "tk_lane t = Some l" "la_key l = key" "lane_of s i = Some (l, phase_parted (tk_phase t))"
  using tasks_okD(3) [OF assms(1,2)] assms(2,3) by (auto simp: task_ok_def lane_of_def)

text \<open>A waiting task whose turn has come has no unparted task of its key ahead of it.\<close>

lemma turn_is_first:
  assumes ok: "dl_ok s" and i: "bt_get (dl_tasks s) i = Some ti" and j: "bt_get (dl_tasks s) j = Some tj"
    and key: "kr_key (tk_record ti) = Some key" "kr_key (tk_record tj) = Some key"
    and "i < j" and wait: "tk_phase tj = Waiting"
    and turn: "case tk_lane tj of None \<Rightarrow> True | Some l \<Rightarrow> lane_turn_ready (dl_dropped s) l"
  shows "phase_parted (tk_phase ti)"
proof (rule ccontr)
  assume live: "\<not> phase_parted (tk_phase ti)"
  have tok: "tasks_ok s" and L: "lanes_ok (dl_pulled s) (lane_of s) (past s) (dl_lanes s) (dl_dropped s)"
    using ok by (simp_all add: dl_ok_def)
  obtain a where a: "la_key a = key" "lane_of s i = Some (a, False)"
    using keyed_lane [OF tok i key(1)] live by auto
  obtain b where b: "tk_lane tj = Some b" "la_key b = key" "lane_of s j = Some (b, False)"
    using keyed_lane [OF tok j key(2)] wait by auto
  have "lane_live (lane_of s) a" "lane_live (lane_of s) b" using a(2) b(3) by (auto simp: lane_live_def)
  moreover have "la_seq a < la_seq b" by (rule lanes_okD(5) [OF L \<open>i < j\<close> a(2) b(3)])
  ultimately obtain q where "la_behind b = Some q" "q \<notin> dl_dropped s"
    using lanes_okD(9) [OF L] a(1) b(2) by metis
  then show False using turn b(1) by (simp add: lane_turn_ready_def)
qed

lemma order_step:
  assumes ok: "dl_ok s" and ord: "order_inv s" and step: "dl_step e s = Some s'"
  shows "order_inv s'"
proof -
  have tok: "tasks_ok s" using ok by (simp add: dl_ok_inv)
  note get_ins = bt.get_ins [OF tasks_okD(1) [OF tok]] and get_del = bt.get_del [OF tasks_okD(1) [OF tok]]
  have same: "order_inv s'" if "dl_tasks s' = dl_tasks s \<or> dl_tasks s' = bt_remove i (dl_tasks s)" for i
    using that
  proof
    assume "dl_tasks s' = bt_remove i (dl_tasks s)"
    then show ?thesis using ord unfolding order_inv_def by (simp add: get_del)
  qed (use ord in \<open>simp add: order_inv_def\<close>)
  show ?thesis
  proof (cases "event_task e")
    case None
    then have "loop_step e s = Some s'" using step by (simp add: dl_step_def)
    from loop_step_tasks [OF this] show ?thesis
    proof (elim disjE exE)
      fix r assume t: "dl_tasks s' = bt_insert (dl_pulled s) (admit_task r s) (dl_tasks s)"
      have "tk_phase (admit_task r s) = Waiting" by (simp add: admit_task_def Let_def)
      moreover have "bt_get (dl_tasks s) i = Some ti \<Longrightarrow> i < dl_pulled s" for i ti
        using tasks_okD(3) [OF tok] by (auto simp: task_ok_def)
      ultimately show ?thesis
        using ord unfolding order_inv_def t get_ins by (auto simp: not_less_iff_gr_or_eq dest: less_asym)
    qed (use same in blast)
  next
    case (Some i)
    then have "with_task i s (\<lambda>t. task_step e t s) = Some s'" using step by (simp add: dl_step_def)
    then obtain t where t: "bt_get (dl_tasks s) i = Some t" "task_step e t s = Some s'"
      by (rule with_task_SomeD)
    show ?thesis
    proof (cases "\<exists>j. e = Reap j")
      case True
      then have e: "e = Reap i" using Some by auto
      show ?thesis using reap_tasks(1) [OF t(2) [unfolded e]] same [of i] by blast
    next
      case False
      then obtain t' where t': "dl_tasks s' = bt_insert i t' (dl_tasks s)" "moved s t t'"
        using task_step_moves [OF t(2) Some] by blast
      have ahead: "phase_parted (tk_phase th)" if "bt_get (dl_tasks s) h = Some th" "h < i"
        "kr_key (tk_record th) = Some key" "kr_key (tk_record t') = Some key" for h th key
        using that t'(2) turn_is_first [OF ok that(1) t(1) that(3) _ that(2)] order_invD [OF ord that(1) t(1) that(2,3)]
        by (cases "tk_phase t = Waiting") (auto simp: moved_def)
      have behind: "phase_parted (tk_phase t')" if "bt_get (dl_tasks s) j = Some tj" "i < j"
        "kr_key (tk_record t') = Some key" "kr_key (tk_record tj) = Some key" "tk_phase tj \<noteq> Waiting" for j tj key
        using order_invD [OF ord t(1) that(1,2) _ that(4,5)] that(3) t'(2) by (simp add: moved_def)
      show ?thesis
        unfolding order_inv_def t'(1) get_ins
        using ahead behind order_invD [OF ord] by (auto split: if_split_asm)
    qed
  qed
qed

lemma dl_reach_order: "dl_reach prefix registry s \<Longrightarrow> order_inv s"
proof (induction rule: dl_reach.induct)
  case dl_start
  show ?case by (simp add: order_inv_def delivery_init_def)
next
  case (dl_next s e s')
  then show ?case using order_step dl_reach_ok by blast
qed

section \<open>No deadlock\<close>

text \<open>The events the loop and its tasks drive themselves; a handler's return is one of them.\<close>

fun dl_internal :: "dl_event \<Rightarrow> bool" where
  "dl_internal Take_Place = True"
| "dl_internal Take_Slot = True"
| "dl_internal Drained = True"
| "dl_internal e = (event_task e \<noteq> None)"

definition can_move :: "delivery \<Rightarrow> bool" where
  "can_move s \<longleftrightarrow> (\<exists>e s'. dl_internal e \<and> dl_step e s = Some s')"

lemma can_moveI: "dl_internal e \<Longrightarrow> dl_step e s = Some s' \<Longrightarrow> can_move s"
  by (auto simp: can_move_def)

lemma can_move_task:
  assumes "bt_get (dl_tasks s) i = Some t" and "\<not> is_ended (dl_loop s)" and "event_task e = Some i"
    and "task_step e t s = Some s'"
  shows "can_move s"
  using assms by (intro can_moveI [of e s s']) (cases e; simp add: dl_step_def with_task_def)+

text \<open>A task past its wait moves unless it wants a slot there is none of, or is reaped later.\<close>

lemma task_moves:
  assumes i: "bt_get (dl_tasks s) i = Some t" and live: "\<not> is_ended (dl_loop s)"
    and "tk_phase t = Waiting \<Longrightarrow> (case tk_lane t of None \<Rightarrow> True | Some l \<Rightarrow> lane_turn_ready (dl_dropped s) l)"
    and "tk_phase t = Turned \<Longrightarrow> tk_slot t \<or> 0 < dl_slots s"
    and "\<not> is_finished t \<or> dl_loop s = Select \<or> dl_loop s = Drain"
  shows "can_move s"
proof (cases "tk_phase t")
  case Waiting
  then show ?thesis using assms(3) by (intro can_move_task [OF i live, of "Turn i"]) auto
next
  case Turned
  then show ?thesis using assms(4) can_move_task [OF i live, of "Begin i"] can_move_task [OF i live, of "Get_Slot i"]
    by (cases "tk_slot t") auto
next
  case Handling
  let ?r = "case strip_prefix (dl_prefix s) (kr_topic (tk_record t)) of None \<Rightarrow> Foreign | Some _ \<Rightarrow> Handler_Ok"
  have "result_possible s t ?r" by (auto simp: result_possible_def split: option.splits)
  then show ?thesis using Handling by (intro can_move_task [OF i live, of "Ending i ?r"]) auto
next
  case (Handled x)
  then show ?thesis by (intro can_move_task [OF i live, of "Drop_Slot i"]) auto
next
  case (Freed x)
  then show ?thesis by (intro can_move_task [OF i live, of "Part i"]) auto
next
  case (Parted x)
  then show ?thesis by (intro can_move_task [OF i live, of "Drop_Place i"]) auto
next
  case (Finished x)
  then have "dl_loop s = Select \<or> dl_loop s = Drain" using assms(5) by simp
  then show ?thesis using Finished
    by (cases x; elim disjE) (rule can_move_task [OF i live, of "Reap i"], simp, simp add: Let_def)+
qed

text \<open>Without a free slot a slot is with a task, which can move.\<close>

lemma slotless_moves:
  assumes "dl_ok s" and "\<not> is_ended (dl_loop s)" and "dl_slots s = 0"
  shows "can_move s"
proof -
  have ok: "permits_ok s" "tasks_ok s" using assms(1) by (simp_all add: dl_ok_inv)
  have "bt_count tk_slot (dl_tasks s) \<noteq> 0" using ok(1) assms(3) by (cases "dl_loop s = Select") (auto simp: permits_ok_def IN_FLIGHT_def)
  then obtain e where e: "e \<in> set (dl_tasks s)" "tk_slot (snd e)" by (auto simp: bt_count_0)
  have i: "bt_get (dl_tasks s) (fst e) = Some (snd e)" by (rule task_in [OF ok(2) e(1)])
  have slot: "phase_slot (tk_phase (snd e)) True (tk_lane (snd e))"
    using tasks_okD(3) [OF ok(2) i] e(2) by (simp add: task_ok_def)
  show ?thesis
    by (rule task_moves [OF i assms(2)])
      (use slot e(2) in \<open>auto simp: lane_is_head_def lane_turn_ready_def split: option.splits\<close>)
qed

text \<open>The first of the waiting tasks has its turn, or a task ahead of it is past waiting and unfinished.\<close>

lemma first_waiting_ready:
  assumes ok: "dl_ok s" and i: "bt_get (dl_tasks s) i = Some t" and wait: "tk_phase t = Waiting"
    and least: "\<And>j tj. j < i \<Longrightarrow> bt_get (dl_tasks s) j = Some tj \<Longrightarrow> is_finished tj"
  shows "case tk_lane t of None \<Rightarrow> True | Some l \<Rightarrow> lane_turn_ready (dl_dropped s) l"
proof (cases "tk_lane t")
  case (Some b)
  have tok: "tasks_ok s" and L: "lanes_ok (dl_pulled s) (lane_of s) (past s) (dl_lanes s) (dl_dropped s)"
    using ok by (simp_all add: dl_ok_def)
  have b: "lane_of s i = Some (b, False)" using i wait Some by (simp add: lane_of_def)
  have False if q: "la_behind b = Some q" "q \<notin> dl_dropped s" for q
  proof -
    obtain a where a: "lane_live (lane_of s) a" "la_seq a = q" "q < la_seq b"
      using lanes_okD(10) [OF L b q] by blast
    then obtain j where j: "lane_of s j = Some (a, False)" by (auto simp: lane_live_def)
    then obtain tj where tj: "bt_get (dl_tasks s) j = Some tj" "\<not> phase_parted (tk_phase tj)"
      by (auto simp: lane_of_def split: option.splits)
    have "j < i"
    proof (rule ccontr)
      assume "\<not> j < i"
      then consider "i < j" | "i = j" by linarith
      then show False
        using lanes_okD(5) [OF L _ b j] a(2,3) b j by cases auto
    qed
    from least [OF this tj(1)] tj(2) show False by auto
  qed
  with Some show ?thesis by (auto simp: lane_turn_ready_def split: option.splits)
qed simp

lemma not_stuck:
  assumes ok: "dl_ok s" and live: "\<not> is_ended (dl_loop s)"
  shows "dl_loop s = Select \<and> dl_tasks s = [] \<or> can_move s"
proof (rule ccontr)
  assume stuck: "\<not> (dl_loop s = Select \<and> dl_tasks s = [] \<or> can_move s)"
  have tok: "tasks_ok s" and pok: "permits_ok s" using ok by (simp_all add: dl_ok_inv)
  have slots: "0 < dl_slots s" using slotless_moves [OF ok live] stuck by blast
  have finished: "is_finished t" if "bt_get (dl_tasks s) i = Some t" for i t
    using that
  proof (induction i arbitrary: t rule: less_induct)
    case (less i)
    show ?case
    proof (rule ccontr)
      assume "\<not> is_finished t"
      then have "can_move s"
        using task_moves [OF less.prems live] first_waiting_ready [OF ok less.prems] less.IH slots by blast
      with stuck show False by blast
    qed
  qed
  have "dl_loop s = Want_Place \<or> dl_loop s = Want_Slot"
  proof (rule ccontr)
    assume n: "\<not> ?thesis"
    then have l: "dl_loop s = Select \<or> dl_loop s = Drain"
      using live by (cases "dl_loop s") (auto simp: is_ended_def)
    show False
    proof (cases "dl_tasks s")
      case Nil
      then have "dl_loop s = Drain" using stuck l by blast
      then have "dl_step Drained s = Some (s\<lparr>dl_loop := Ended True\<rparr>)" using Nil by (simp add: dl_step_def)
      then show False using can_moveI [of Drained] stuck by simp
    next
      case (Cons e es)
      then have i: "bt_get (dl_tasks s) (fst e) = Some (snd e)" using task_in [OF tok, of e] by simp
      from finished [OF i] have "can_move s"
        by (intro task_moves [OF i live]) (use l in auto)
      then show False using stuck by blast
    qed
  qed
  moreover have "bt_count (\<lambda>t. \<not> is_finished t) (dl_tasks s) = 0"
    unfolding bt_count_0 using finished task_in [OF tok] by blast
  ultimately have "dl_internal (if dl_loop s = Want_Place then Take_Place else Take_Slot) \<and>
      dl_step (if dl_loop s = Want_Place then Take_Place else Take_Slot) s \<noteq> None"
    using pok slots by (auto simp: permits_ok_def dl_step_def BACKLOG_def simp del: is_finished_simps)
  then show False using can_moveI stuck by blast
qed

section \<open>Shutdown\<close>

definition drain_measure :: "delivery \<Rightarrow> nat" where
  "drain_measure s = (if dl_loop s = Drain then Suc (bt_sum rank_of (dl_tasks s)) else 0)"

definition winding_down :: "delivery \<Rightarrow> bool" where
  "winding_down s \<longleftrightarrow> dl_loop s = Drain \<or> is_ended (dl_loop s)"

lemma rank_pos: "0 < rank_of t"
  by (cases "tk_phase t") (simp_all add: rank_of_def)

lemma drain_step:
  assumes ok: "dl_ok s" and down: "winding_down s" and e: "dl_internal e" and step: "dl_step e s = Some s'"
  shows "winding_down s'" "drain_measure s' < drain_measure s"
proof -
  have bt: "bt_ok (dl_tasks s)" using ok by (simp add: dl_ok_def tasks_ok_def)
  have "winding_down s' \<and> drain_measure s' < drain_measure s"
  proof (cases "event_task e")
    case None
    have "loop_step e s = Some s'" using step None by (simp add: dl_step_def)
    then show ?thesis using e None down
      by (cases e) (auto simp: winding_down_def is_ended_def drain_measure_def split: if_split_asm)
  next
    case (Some i)
    then have "with_task i s (\<lambda>t. task_step e t s) = Some s'" using step by (simp add: dl_step_def)
    then obtain t where t: "bt_get (dl_tasks s) i = Some t" "task_step e t s = Some s'" "\<not> is_ended (dl_loop s)"
      by (rule with_task_SomeD)
    then have d: "dl_loop s = Drain" using down by (simp add: winding_down_def)
    show ?thesis
    proof (cases "\<exists>j. e = Reap j")
      case True
      then have "e = Reap i" using Some by auto
      from reap_tasks(2) [OF t(2) [unfolded this] d] show ?thesis
        using d bt_sum_remove [OF bt t(1), of rank_of] rank_pos [of t]
        by (auto simp: winding_down_def is_ended_def drain_measure_def)
    next
      case False
      then obtain t' where t': "dl_tasks s' = bt_insert i t' (dl_tasks s)" "moved s t t'" "dl_loop s' = dl_loop s"
        using task_step_moves [OF t(2) Some] by blast
      then show ?thesis
        using d bt_sum_update [OF bt t(1), of rank_of t'] by (auto simp: winding_down_def drain_measure_def moved_def)
    qed
  qed
  then show "winding_down s'" "drain_measure s' < drain_measure s" by blast+
qed

lemma drain_run_bounded:
  "dl_ok s \<Longrightarrow> winding_down s \<Longrightarrow> list_all dl_internal es \<Longrightarrow> dl_run es s = Some s' \<Longrightarrow> length es \<le> drain_measure s"
proof (induction es arbitrary: s)
  case (Cons e es)
  then obtain s1 where s1: "dl_step e s = Some s1" "dl_run es s1 = Some s'" by (auto split: option.splits)
  have "length es \<le> drain_measure s1"
    using Cons.IH [OF dl_ok_step [OF Cons.prems(1) s1(1)] drain_step(1) [OF Cons.prems(1,2) _ s1(1)] _ s1(2)] Cons.prems(3)
    by simp
  moreover have "drain_measure s1 < drain_measure s"
    using drain_step(2) [OF Cons.prems(1,2) _ s1(1)] Cons.prems(3) by simp
  ultimately show ?case by simp
qed simp

lemma drain_run_ends:
  "dl_ok s \<Longrightarrow> winding_down s \<Longrightarrow> \<exists>es s'. list_all dl_internal es \<and> dl_run es s = Some s' \<and> is_ended (dl_loop s')"
proof (induction "drain_measure s" arbitrary: s rule: less_induct)
  case less
  show ?case
  proof (cases "is_ended (dl_loop s)")
    case True
    then show ?thesis by (intro exI [of _ "[]"] exI [of _ s]) simp
  next
    case False
    then have "dl_loop s = Drain" using less.prems(2) by (simp add: winding_down_def)
    then obtain e s1 where e: "dl_internal e" "dl_step e s = Some s1"
      using not_stuck [OF less.prems(1) False] by (auto simp: can_move_def)
    from less.hyps [OF drain_step(2) [OF less.prems e] dl_ok_step [OF less.prems(1) e(2)] drain_step(1) [OF less.prems e]]
    obtain es s' where "list_all dl_internal es" "dl_run es s1 = Some s'" "is_ended (dl_loop s')" by blast
    then show ?thesis using e by (intro exI [of _ "e # es"] exI [of _ s']) simp
  qed
qed

section \<open>What is stored\<close>

lemma rebalance_stores_nothing:
  assumes "\<And>x. f x = Revoke (fst x) (snd x) \<or> f x = Assign (fst x) (snd x)"
  shows "dl_stored (fold (\<lambda>x. shared_event (f x)) ps s) = dl_stored s"
proof -
  have "fst (tracker_step (f x) tr) = []" for x tr using assms [of x] by (auto simp: tracker_step.simps)
  then show ?thesis by (induction ps arbitrary: s) simp_all
qed

lemma admit_stores_nothing: "dl_stored (delivery_admit r s) = dl_stored s"
  by (simp add: delivery_admit_def Let_def case_prod_beta tracker_step.simps)

text \<open>An offset is stored by a delivery report or by the end of a task's record.\<close>

lemma step_stored:
  assumes "dl_step e s = Some s'"
  obtains "dl_stored s' = dl_stored s"
  | id where "dl_stored s' = dl_stored s @ fst (tracker_step (Note_Delivered id) (dl_tracker s))"
  | i r t where "e = Ending i r" "r \<noteq> Handler_Err" "bt_get (dl_tasks s) i = Some t"
      "dl_stored s' = dl_stored s @ fst (tracker_step (Done (kr_topic (tk_record t)) (kr_partition (tk_record t))
         (kr_offset (tk_record t)) (tk_ticket t) (dl_sends s)) (dl_tracker s))"
proof (cases "event_task e")
  case None
  then have s': "loop_step e s = Some s'" using assms by (simp add: dl_step_def)
  show ?thesis
  proof (cases e)
    case (Report_Send id)
    then show ?thesis using s' that(2) by (auto split: if_split_asm)
  next
    case (Revoke_Parts ps)
    then show ?thesis using s' that(1) by (auto simp: rebalance_fold rebalance_stores_nothing)
  next
    case (Assign_Parts ps)
    then show ?thesis using s' that(1) by (auto simp: rebalance_fold rebalance_stores_nothing)
  qed (use s' None that(1) in \<open>auto simp: loop_lets_go_def admit_stores_nothing split: if_split_asm\<close>)
next
  case (Some i)
  then have "with_task i s (\<lambda>t. task_step e t s) = Some s'" using assms by (simp add: dl_step_def)
  then obtain t where t: "bt_get (dl_tasks s) i = Some t" "task_step e t s = Some s'" by (rule with_task_SomeD)
  show ?thesis
  proof (cases e)
    case (Ending j r)
    then show ?thesis using t Some that(1,3)
      by (auto simp: handle_end_def delivery_done_def split: if_split_asm)
  qed (use t(2) Some that(1) in \<open>auto simp: handle_begin_def loop_lets_go_def Let_def split: if_split_asm task_phase.splits option.splits\<close>)
qed

lemma stored_past_handled:
  assumes ok: "dl_ok s" and step: "dl_step e s = Some s'" and new: "dl_stored s' = dl_stored s @ new"
    and out: "(topic, p, k) \<in> set new" and i: "bt_get (dl_tasks s) i = Some t"
    and tp: "task_tp t = (topic, p)" and le: "kr_offset (tk_record t) \<le> k" and held: "shared_holds s t"
  shows "phase_succeeded (tk_phase t) \<or> (\<exists>r. e = Ending i r \<and> r \<noteq> Handler_Err)"
proof -
  have tok: "tasks_ok s" using ok by (simp add: dl_ok_def)
  obtain f where f: "tracker_out (dl_tracker s) (topic, p) (kr_offset (tk_record t)) = Some (tk_ticket t, f)"
    using held tp by (auto simp: shared_holds_def holds_out task_tp_def)
  have f_ok: "phase_succeeded (tk_phase t)" if f
    using tasks_okD(3) [OF tok i] f tp that by (simp add: task_ok_def)
  note safe = commits.commit_step [OF tasks_okD(2) [OF tok] _ le f]
  show ?thesis
  proof (cases rule: step_stored [OF step])
    case 1
    then show ?thesis using new out by simp
  next
    case (2 id)
    then have "(topic, p, k) \<in> set (fst (tracker_step (Note_Delivered id) (dl_tracker s)))" using new out by simp
    from safe [OF this] show ?thesis using f_ok by blast
  next
    case (3 j r u)
    then have "(topic, p, k) \<in> set (fst (tracker_step (Done (kr_topic (tk_record u)) (kr_partition (tk_record u))
         (kr_offset (tk_record u)) (tk_ticket u) (dl_sends s)) (dl_tracker s)))" using new out by simp
    from safe [OF this] show ?thesis
      using f_ok same_ticket_same_task [OF tok 3(3) i] 3(1,2) by auto
  qed
qed

section \<open>The properties\<close>

definition demo_record :: "int \<Rightarrow> krecord" where
  "demo_record k = \<lparr>kr_topic = ''t.o'', kr_partition = 0, kr_offset = k, kr_key = Some [7]\<rparr>"

lemmas delivery_eval =
  dl_step_def with_task_def is_ended_def delivery_init_def delivery_admit_def demo_record_def none_finished_def
  IN_FLIGHT_def BACKLOG_def shared_event_def Let_def lanes_enqueue_def lanes_release_def lanes_default_def
  lane_is_head_def lane_turn_ready_def tracker_step.simps tracker_default_def tracker_insert_def
  tracker_partition_or_insert_def tracker_set_partition_def tracker_partition_def tracker_done_def
  tracker_holds_def partition_resolve_def partition_default_def set_task_def handle_begin_def handle_end_def
  delivery_done_def shared_holds_def result_possible_def pending_resolved_def loop_lets_go_def

text \<open>Two records of one key are pulled and the first is handled; then the second starts.\<close>

lemma demo_handling:
  "\<exists>s t. dl_run [Take_Place, Take_Slot, Pull (demo_record 5), Turn 0, Begin 0] (delivery_init ''t.'' False) = Some s \<and>
     bt_get (dl_tasks s) 0 = Some t \<and> task_tp t = (''t.o'', 0) \<and> kr_offset (tk_record t) = 5 \<and>
     shared_holds s t \<and> dl_stored s = [] \<and>
     (\<exists>s'. dl_step (Ending 0 Handler_Ok) s = Some s' \<and> dl_stored s' = [(''t.o'', 0, 5)])"
  by (simp add: delivery_eval task_tp_def)

lemma demo_order:
  "\<exists>s ti tj. dl_run [Take_Place, Take_Slot, Pull (demo_record 5), Take_Place, Take_Slot, Pull (demo_record 6),
       Turn 0, Begin 0, Ending 0 Handler_Ok, Drop_Slot 0, Part 0, Turn 1, Get_Slot 1, Begin 1]
     (delivery_init ''t.'' False) = Some s \<and>
     bt_get (dl_tasks s) 0 = Some ti \<and> bt_get (dl_tasks s) 1 = Some tj \<and>
     tk_record ti = demo_record 5 \<and> tk_record tj = demo_record 6 \<and> tk_phase tj = Handling"
  by (simp add: delivery_eval)

lemma demo_drain:
  "\<exists>s. dl_run [Take_Place, Take_Slot, Pull (demo_record 5), Take_Place, Take_Slot, Stream_End]
     (delivery_init ''t.'' False) = Some s \<and> dl_loop s = Drain"
  by (simp add: delivery_eval)

text \<open>
  C8. In every reachable state of the delivery loop at most 64 handlers run and at most 4096
  tasks are unfinished, whatever the stream, the rebalances and the reports do.
\<close>

theorem delivery_concurrency_bounded:
  assumes "dl_reach prefix registry s"
  shows "tasks_where (\<lambda>t. tk_phase t = Handling) s \<le> 64 \<and> tasks_where (\<lambda>t. \<not> is_finished t) s \<le> 4096"
  using permits_bound [OF dl_reach_ok [OF assms]] by (simp add: IN_FLIGHT_def BACKLOG_def)

theorem delivery_concurrency_bounded_witness:
  "\<exists>s. dl_reach ''t.'' False s \<and> dl_tasks s \<noteq> [] \<and> tasks_where (\<lambda>t. tk_phase t = Handling) s \<le> 64"
proof -
  obtain s t where s: "dl_run [Take_Place, Take_Slot, Pull (demo_record 5), Turn 0, Begin 0] (delivery_init ''t.'' False) = Some s"
    "bt_get (dl_tasks s) 0 = Some t" using demo_handling by blast
  have r: "dl_reach ''t.'' False s" by (rule dl_run_reach [OF dl_start s(1)])
  show ?thesis using r s(2) delivery_concurrency_bounded [OF r] by fastforce
qed

text \<open>
  C9. Of two tasks with records of one key, the one pulled later is past its wait only when
  the earlier has parted with its lane: it was handled, or skipped because its partition was
  revoked, and let go of its slot. So records of one key are handled one at a time, in the
  order they were pulled.
\<close>

theorem same_key_in_order:
  assumes "dl_reach prefix registry s"
    and "bt_get (dl_tasks s) i = Some ti" and "bt_get (dl_tasks s) j = Some tj" and "i < j"
    and "kr_key (tk_record ti) = Some key" and "kr_key (tk_record tj) = Some key"
    and "tk_phase tj \<noteq> Waiting"
  shows "\<exists>ok. tk_phase ti = Parted ok \<or> tk_phase ti = Finished ok"
proof -
  have "phase_parted (tk_phase ti)"
    by (rule order_invD [OF dl_reach_order [OF assms(1)] assms(2-7)])
  then show ?thesis by (cases "tk_phase ti") auto
qed

theorem same_key_in_order_witness:
  "\<exists>s ti tj ok. dl_reach ''t.'' False s \<and> bt_get (dl_tasks s) 0 = Some ti \<and> bt_get (dl_tasks s) 1 = Some tj \<and>
     tk_phase tj = Handling \<and> (tk_phase ti = Parted ok \<or> tk_phase ti = Finished ok)"
proof -
  obtain s ti tj where s: "dl_run [Take_Place, Take_Slot, Pull (demo_record 5), Take_Place, Take_Slot, Pull (demo_record 6),
       Turn 0, Begin 0, Ending 0 Handler_Ok, Drop_Slot 0, Part 0, Turn 1, Get_Slot 1, Begin 1]
     (delivery_init ''t.'' False) = Some s"
    and t: "bt_get (dl_tasks s) 0 = Some ti" "bt_get (dl_tasks s) 1 = Some tj"
     "tk_record ti = demo_record 5" "tk_record tj = demo_record 6" "tk_phase tj = Handling"
    using demo_order by blast
  have r: "dl_reach ''t.'' False s" by (rule dl_run_reach [OF dl_start s])
  show ?thesis using same_key_in_order [OF r t(1,2)] t r by (auto simp: demo_record_def)
qed

text \<open>
  C10. A step that hands an offset over for commit does so only past records whose handling is
  over: a task of the same partition at or before that offset, whose pull the tracker still
  holds, has its handler's success behind it, or is the one this very step ends.
\<close>

theorem offsets_stored_past_handled:
  assumes "dl_reach prefix registry s" and "dl_step e s = Some s'" and "dl_stored s' = dl_stored s @ new"
    and "(topic, p, k) \<in> set new" and "bt_get (dl_tasks s) i = Some t"
    and "kr_topic (tk_record t) = topic" and "kr_partition (tk_record t) = p"
    and "kr_offset (tk_record t) \<le> k" and "shared_holds s t"
  shows "phase_succeeded (tk_phase t) \<or> (\<exists>r. e = Ending i r \<and> r \<noteq> Handler_Err)"
  using stored_past_handled [OF dl_reach_ok [OF assms(1)] assms(2-5) _ assms(8,9)] assms(6,7)
  by (simp add: task_tp_def)

theorem offsets_stored_past_handled_witness:
  "\<exists>s t e r. dl_reach ''t.'' False s \<and> bt_get (dl_tasks s) 0 = Some t \<and>
     (phase_succeeded (tk_phase t) \<or> e = Ending 0 r \<and> r \<noteq> Handler_Err)"
proof -
  obtain s t s' where s: "dl_run [Take_Place, Take_Slot, Pull (demo_record 5), Turn 0, Begin 0] (delivery_init ''t.'' False) = Some s"
    and t: "bt_get (dl_tasks s) 0 = Some t" "task_tp t = (''t.o'', 0)" "kr_offset (tk_record t) = 5"
      "shared_holds s t" "dl_stored s = []"
      "dl_step (Ending 0 Handler_Ok) s = Some s'" "dl_stored s' = [(''t.o'', 0, 5)]"
    using demo_handling by blast
  have r: "dl_reach ''t.'' False s" by (rule dl_run_reach [OF dl_start s])
  have "phase_succeeded (tk_phase t) \<or> (\<exists>r. Ending 0 Handler_Ok = Ending 0 r \<and> r \<noteq> Handler_Err)"
    by (rule offsets_stored_past_handled [OF r t(6), where new = "[(''t.o'', 0, 5)]" and k = 5])
      (use t in \<open>simp_all add: task_tp_def\<close>)
  then show ?thesis using r t(1) by blast
qed

text \<open>
  C11. The loop never deadlocks: in a reachable state that has not ended, either it waits for
  the next record with no task left, or some task or the loop itself can move (the handler
  being one that returns), although tasks wait for lanes, slots and places at once.
\<close>

theorem delivery_never_stuck:
  assumes "dl_reach prefix registry s" and "\<not> is_ended (dl_loop s)"
  shows "dl_loop s = Select \<and> dl_tasks s = [] \<or> (\<exists>e s'. dl_internal e \<and> dl_step e s = Some s')"
  using not_stuck [OF dl_reach_ok [OF assms(1)] assms(2)] by (simp add: can_move_def)

theorem delivery_never_stuck_witness:
  "\<exists>s. dl_reach ''t.'' False s \<and> \<not> is_ended (dl_loop s) \<and> dl_tasks s \<noteq> [] \<and>
     (\<exists>e s'. dl_internal e \<and> dl_step e s = Some s')"
proof -
  obtain s where s: "dl_run [Take_Place, Take_Slot, Pull (demo_record 5), Take_Place, Take_Slot, Stream_End]
     (delivery_init ''t.'' False) = Some s" "dl_loop s = Drain" "dl_tasks s \<noteq> []"
    by (simp add: delivery_eval)
  have r: "dl_reach ''t.'' False s" by (rule dl_run_reach [OF dl_start s(1)])
  have live: "\<not> is_ended (dl_loop s)" using s(2) by (simp add: is_ended_def)
  from delivery_never_stuck [OF r live] show ?thesis using s(3) r live by blast
qed

text \<open>
  C12. Once the stream has ended the loop winds down: every run of its own steps is bounded by
  the work its tasks have left, and some such run ends it.
\<close>

theorem drain_ends:
  assumes "dl_reach prefix registry s" and "dl_loop s = Drain"
  shows "(\<forall>es s'. list_all dl_internal es \<and> dl_run es s = Some s' \<longrightarrow> length es \<le> Suc (bt_sum rank_of (dl_tasks s))) \<and>
    (\<exists>es s'. list_all dl_internal es \<and> dl_run es s = Some s' \<and> is_ended (dl_loop s'))"
proof -
  have ok: "dl_ok s" by (rule dl_reach_ok [OF assms(1)])
  have down: "winding_down s" using assms(2) by (simp add: winding_down_def)
  show ?thesis
    using drain_run_bounded [OF ok down] drain_run_ends [OF ok down] assms(2) by (auto simp: drain_measure_def)
qed

theorem drain_ends_witness:
  "\<exists>s. dl_reach ''t.'' False s \<and> dl_loop s = Drain \<and>
     (\<exists>es s'. list_all dl_internal es \<and> dl_run es s = Some s' \<and> is_ended (dl_loop s'))"
proof -
  obtain s where s: "dl_run [Take_Place, Take_Slot, Pull (demo_record 5), Take_Place, Take_Slot, Stream_End]
     (delivery_init ''t.'' False) = Some s" "dl_loop s = Drain"
    using demo_drain by blast
  have r: "dl_reach ''t.'' False s" by (rule dl_run_reach [OF dl_start s(1)])
  from drain_ends [OF r s(2)] show ?thesis using r s(2) by blast
qed

end
