(* ===== verification/Kafka_Cache.thy ===== *)
theory Kafka_Cache
  imports Rust_BTree
begin

text \<open>
  The schema cache of \<open>src/crates/kafka/src/registry.rs\<close>: ready values and fetches in flight by
  key, and the callers waiting on a fetch. A step is one critical section of
  \<open>Cache::get_or_fetch\<close>, the end of a fetch, or a caller dropped at its await.
\<close>

section \<open>The cache\<close>

text \<open>A fetch is a shared future, told from the others by its number (\<open>ptr_eq\<close>).\<close>

datatype 'v cache_entry = Ready 'v | Fetching nat

record ('k, 'v, 'e) cache =
  ca_entries :: "'k \<Rightarrow> 'v cache_entry option"
  ca_fetches :: "'k list"
  ca_outcomes :: "nat \<Rightarrow> ('e + 'v) option"
  ca_waiting :: "(nat, 'k \<times> nat) btree"
  ca_callers :: nat
  ca_answers :: "nat \<Rightarrow> ('k \<times> ('e + 'v)) option"

definition cache_default :: "('k, 'v, 'e) cache" where
  "cache_default =
     \<lparr>ca_entries = (\<lambda>_. None), ca_fetches = [], ca_outcomes = (\<lambda>_. None), ca_waiting = [],
      ca_callers = 0, ca_answers = (\<lambda>_. None)\<rparr>"

text \<open>\<open>ca_fetches\<close> keeps the key of every fetch created, in order: its length is the next number.\<close>

datatype ('k, 'v, 'e) cache_event =
    Get 'k
  | Fetched nat "'e + 'v"
  | Settle nat
  | Drop_Caller nat

text \<open>The critical section a caller enters with: a ready value answers, a fetch is joined or begun.\<close>

definition cache_lookup :: "'k \<Rightarrow> ('k, 'v, 'e) cache \<Rightarrow> ('k, 'v, 'e) cache" where
  "cache_lookup key c =
     (let i = ca_callers c; c1 = c\<lparr>ca_callers := Suc i\<rparr> in
      case ca_entries c key of
        Some (Ready v) \<Rightarrow> c1\<lparr>ca_answers := (ca_answers c)(i \<mapsto> (key, Inr v))\<rparr>
      | Some (Fetching f) \<Rightarrow> c1\<lparr>ca_waiting := bt_insert i (key, f) (ca_waiting c)\<rparr>
      | None \<Rightarrow>
          (let f = length (ca_fetches c) in
           c1\<lparr>ca_entries := (ca_entries c)(key \<mapsto> Fetching f), ca_fetches := ca_fetches c @ [key],
              ca_waiting := bt_insert i (key, f) (ca_waiting c)\<rparr>))"

text \<open>The critical section after the await: only the entry of this very fetch is settled.\<close>

definition settle_entry ::
  "'k \<Rightarrow> nat \<Rightarrow> 'e + 'v \<Rightarrow> ('k \<Rightarrow> 'v cache_entry option) \<Rightarrow> 'k \<Rightarrow> 'v cache_entry option" where
  "settle_entry key f outcome entries =
     (case entries key of
        Some (Fetching g) \<Rightarrow>
          if g = f then entries(key := (case outcome of Inr v \<Rightarrow> Some (Ready v) | Inl _ \<Rightarrow> None)) else entries
      | _ \<Rightarrow> entries)"

definition cache_settle :: "nat \<Rightarrow> 'k \<Rightarrow> nat \<Rightarrow> 'e + 'v \<Rightarrow> ('k, 'v, 'e) cache \<Rightarrow> ('k, 'v, 'e) cache" where
  "cache_settle i key f outcome c =
     c\<lparr>ca_entries := settle_entry key f outcome (ca_entries c),
       ca_waiting := bt_remove i (ca_waiting c), ca_answers := (ca_answers c)(i \<mapsto> (key, outcome))\<rparr>"

fun cache_step :: "('k, 'v, 'e) cache_event \<Rightarrow> ('k, 'v, 'e) cache \<Rightarrow> ('k, 'v, 'e) cache option" where
  "cache_step (Get key) c = Some (cache_lookup key c)"
| "cache_step (Fetched f outcome) c =
     (if f < length (ca_fetches c) \<and> ca_outcomes c f = None
      then Some (c\<lparr>ca_outcomes := (ca_outcomes c)(f \<mapsto> outcome)\<rparr>) else None)"
| "cache_step (Settle i) c =
     (case bt_get (ca_waiting c) i of
        None \<Rightarrow> None
      | Some (key, f) \<Rightarrow>
          (case ca_outcomes c f of None \<Rightarrow> None | Some outcome \<Rightarrow> Some (cache_settle i key f outcome c)))"
| "cache_step (Drop_Caller i) c =
     (case bt_get (ca_waiting c) i of
        None \<Rightarrow> None | Some _ \<Rightarrow> Some (c\<lparr>ca_waiting := bt_remove i (ca_waiting c)\<rparr>))"

inductive cache_reach :: "('k, 'v, 'e) cache \<Rightarrow> bool" where
  cache_start: "cache_reach cache_default"
| cache_next: "cache_reach c \<Longrightarrow> cache_step e c = Some c' \<Longrightarrow> cache_reach c'"

fun cache_run :: "('k, 'v, 'e) cache_event list \<Rightarrow> ('k, 'v, 'e) cache \<Rightarrow> ('k, 'v, 'e) cache option" where
  "cache_run [] c = Some c"
| "cache_run (e # es) c = (case cache_step e c of None \<Rightarrow> None | Some c' \<Rightarrow> cache_run es c')"

lemma cache_run_reach: "cache_reach c \<Longrightarrow> cache_run es c = Some c' \<Longrightarrow> cache_reach c'"
  by (induction es arbitrary: c) (auto split: option.splits intro: cache_next)

section \<open>The invariant\<close>

text \<open>Which fetch \<open>f\<close> is of which key.\<close>

definition fetch_of :: "('k, 'v, 'e) cache \<Rightarrow> nat \<Rightarrow> 'k \<Rightarrow> bool" where
  "fetch_of c f key \<longleftrightarrow> f < length (ca_fetches c) \<and> ca_fetches c ! f = key"

definition cache_ok :: "('k, 'v, 'e) cache \<Rightarrow> bool" where
  "cache_ok c \<longleftrightarrow>
     bt_ok (ca_waiting c) \<and>
     (\<forall>i key f. bt_get (ca_waiting c) i = Some (key, f) \<longrightarrow> i < ca_callers c \<and> fetch_of c f key) \<and>
     (\<forall>key f. ca_entries c key = Some (Fetching f) \<longrightarrow> fetch_of c f key) \<and>
     (\<forall>f key. fetch_of c f key \<longrightarrow> ca_outcomes c f = None \<longrightarrow> ca_entries c key = Some (Fetching f)) \<and>
     (\<forall>key v. ca_entries c key = Some (Ready v) \<longrightarrow> (\<exists>f. fetch_of c f key \<and> ca_outcomes c f = Some (Inr v))) \<and>
     (\<forall>f r. ca_outcomes c f = Some r \<longrightarrow> f < length (ca_fetches c)) \<and>
     (\<forall>i key r. ca_answers c i = Some (key, r) \<longrightarrow>
        i < ca_callers c \<and> (\<exists>f. fetch_of c f key \<and> ca_outcomes c f = Some r))"

lemma cache_okD:
  assumes "cache_ok c"
  shows "bt_ok (ca_waiting c)"
    and "bt_get (ca_waiting c) i = Some (key, f) \<Longrightarrow> i < ca_callers c"
    and "bt_get (ca_waiting c) i = Some (key, f) \<Longrightarrow> fetch_of c f key"
    and "ca_entries c key = Some (Fetching f) \<Longrightarrow> fetch_of c f key"
    and "fetch_of c f key \<Longrightarrow> ca_outcomes c f = None \<Longrightarrow> ca_entries c key = Some (Fetching f)"
    and "ca_entries c key = Some (Ready v) \<Longrightarrow> \<exists>f. fetch_of c f key \<and> ca_outcomes c f = Some (Inr v)"
    and "ca_outcomes c f = Some r \<Longrightarrow> f < length (ca_fetches c)"
    and "ca_answers c i = Some (key, r) \<Longrightarrow> i < ca_callers c"
    and "ca_answers c i = Some (key, r) \<Longrightarrow> \<exists>f. fetch_of c f key \<and> ca_outcomes c f = Some r"
  using assms unfolding cache_ok_def by blast+

lemma cache_okI:
  assumes "bt_ok (ca_waiting c)"
    and "\<And>i key f. bt_get (ca_waiting c) i = Some (key, f) \<Longrightarrow> i < ca_callers c \<and> fetch_of c f key"
    and "\<And>key f. ca_entries c key = Some (Fetching f) \<Longrightarrow> fetch_of c f key"
    and "\<And>f key. fetch_of c f key \<Longrightarrow> ca_outcomes c f = None \<Longrightarrow> ca_entries c key = Some (Fetching f)"
    and "\<And>key v. ca_entries c key = Some (Ready v) \<Longrightarrow> \<exists>f. fetch_of c f key \<and> ca_outcomes c f = Some (Inr v)"
    and "\<And>f r. ca_outcomes c f = Some r \<Longrightarrow> f < length (ca_fetches c)"
    and "\<And>i key r. ca_answers c i = Some (key, r) \<Longrightarrow> i < ca_callers c \<and> (\<exists>f. fetch_of c f key \<and> ca_outcomes c f = Some r)"
  shows "cache_ok c"
  unfolding cache_ok_def using assms by (intro conjI allI impI; assumption?; blast)

text \<open>Callers come, wait, are answered and go without touching the entries.\<close>

lemma cache_ok_frame:
  assumes "cache_ok c" and "ca_entries c' = ca_entries c" and "ca_outcomes c' = ca_outcomes c" and "ca_fetches c' = ca_fetches c"
    and "bt_ok (ca_waiting c')"
    and "\<And>i key f. bt_get (ca_waiting c') i = Some (key, f) \<Longrightarrow> i < ca_callers c' \<and> fetch_of c f key"
    and "\<And>i key r. ca_answers c' i = Some (key, r) \<Longrightarrow> i < ca_callers c' \<and> (\<exists>f. fetch_of c f key \<and> ca_outcomes c f = Some r)"
  shows "cache_ok c'"
proof -
  have f: "fetch_of c' = fetch_of c" using assms(4) by (simp add: fetch_of_def fun_eq_iff)
  show ?thesis
  proof (rule cache_okI, unfold f assms(2-4))
    show "i < ca_callers c' \<and> (\<exists>g. fetch_of c g key \<and> ca_outcomes c g = Some r)" if "ca_answers c' i = Some (key, r)" for i key r
      by (rule assms(7) [OF that])
  qed (fact assms(5) assms(6) cache_okD(4-7) [OF assms(1)])+
qed

lemma cache_ok_default: "cache_ok cache_default"
  by (simp add: cache_ok_def cache_default_def fetch_of_def)

lemma fetch_of_frame [simp]:
  "fetch_of (c\<lparr>ca_entries := x\<rparr>) = fetch_of c" "fetch_of (c\<lparr>ca_outcomes := y\<rparr>) = fetch_of c"
  "fetch_of (c\<lparr>ca_waiting := z\<rparr>) = fetch_of c" "fetch_of (c\<lparr>ca_answers := a\<rparr>) = fetch_of c"
  "fetch_of (c\<lparr>ca_callers := n\<rparr>) = fetch_of c"
  by (simp_all add: fetch_of_def fun_eq_iff)

lemma fetch_of_fun: "fetch_of c f key \<Longrightarrow> fetch_of c f key' \<Longrightarrow> key = key'"
  by (simp add: fetch_of_def)

lemma cache_ok_lookup:
  assumes ok: "cache_ok c"
  shows "cache_ok (cache_lookup key c)"
proof -
  note D = cache_okD [OF ok] and get = bt.get_ins [OF cache_okD(1) [OF ok]] and ins = bt.ok_ins [OF cache_okD(1) [OF ok]]
  let ?c = "cache_lookup key c" and ?n = "length (ca_fetches c)" and ?i = "ca_callers c"
  show ?thesis
  proof (cases "ca_entries c key")
    case None
    have e: "ca_entries ?c = (ca_entries c)(key \<mapsto> Fetching ?n)" "ca_outcomes ?c = ca_outcomes c"
      "ca_waiting ?c = bt_insert ?i (key, ?n) (ca_waiting c)"
      "ca_callers ?c = Suc ?i" "ca_answers ?c = ca_answers c" "length (ca_fetches ?c) = Suc ?n"
      using None by (simp_all add: cache_lookup_def Let_def)
    have new: "fetch_of ?c f k \<longleftrightarrow> fetch_of c f k \<or> f = ?n \<and> k = key" for f k
      using None by (auto simp: cache_lookup_def Let_def fetch_of_def nth_append)
    show ?thesis
    proof (rule cache_okI)
      show "ca_entries ?c k = Some (Fetching f)" if "fetch_of ?c f k" "ca_outcomes ?c f = None" for f k
        using that D(5) [of f k] None unfolding new e by (cases "f = ?n") (auto simp: fetch_of_def)
      show "i < ca_callers ?c \<and> fetch_of ?c f k" if "bt_get (ca_waiting ?c) i = Some (k, f)" for i k f
        using that D(2,3) unfolding new e get by (cases "i = ?i") (auto simp: less_Suc_eq)
      show "fetch_of ?c f k" if "ca_entries ?c k = Some (Fetching f)" for k f
        using that D(4) unfolding new e by (cases "k = key") auto
      show "\<exists>f. fetch_of ?c f k \<and> ca_outcomes ?c f = Some (Inr v)" if "ca_entries ?c k = Some (Ready v)" for k v
        using that D(6) unfolding new e by (cases "k = key") auto
      show "i < ca_callers ?c \<and> (\<exists>f. fetch_of ?c f k \<and> ca_outcomes ?c f = Some r)" if "ca_answers ?c i = Some (k, r)" for i k r
        using that D(8,9) [of i k r] unfolding new e by (simp add: less_Suc_eq) blast
      show "f < length (ca_fetches ?c)" if "ca_outcomes ?c f = Some r" for f r
        using that D(7) unfolding e by (auto simp: less_Suc_eq)
    qed (simp add: e ins)
  next
    case (Some x)
    show ?thesis
    proof (cases x)
      case (Ready v)
      then have e: "?c = c\<lparr>ca_callers := Suc ?i, ca_answers := (ca_answers c)(?i \<mapsto> (key, Inr v))\<rparr>"
        using Some by (simp add: cache_lookup_def Let_def)
      have r: "\<exists>f. fetch_of c f key \<and> ca_outcomes c f = Some (Inr v)" using D(6) Some Ready by simp
      show ?thesis
      proof (rule cache_ok_frame [OF ok], simp_all add: e)
        show "j < Suc ?i \<and> (\<exists>f. fetch_of c f k \<and> ca_outcomes c f = Some x)"
          if "(if j = ?i then Some (key, Inr v) else ca_answers c j) = Some (k, x)" for j k x
          using that r D(8,9) [of j k x] by (cases "j = ?i") auto
        show "j < Suc ?i \<and> fetch_of c f k" if "bt_get (ca_waiting c) j = Some (k, f)" for j k f
          using D(2,3) [OF that] by simp
      qed (rule D(1))
    next
      case (Fetching f)
      then have e: "?c = c\<lparr>ca_callers := Suc ?i, ca_waiting := bt_insert ?i (key, f) (ca_waiting c)\<rparr>"
        using Some by (simp add: cache_lookup_def Let_def)
      have f: "fetch_of c f key" using D(4) Some Fetching by simp
      show ?thesis
      proof (rule cache_ok_frame [OF ok], simp_all add: e ins get)
        show "j < Suc ?i \<and> fetch_of c g k" if "(if j = ?i then Some (key, f) else bt_get (ca_waiting c) j) = Some (k, g)" for j k g
          using that f D(2,3) [of j k g] by (cases "j = ?i") auto
        show "j < Suc ?i \<and> (\<exists>f. fetch_of c f k \<and> ca_outcomes c f = Some x)" if "ca_answers c j = Some (k, x)" for j k x
          using D(8,9) [OF that] by simp
      qed
    qed
  qed
qed

lemma settle_entry_other: "k \<noteq> key \<Longrightarrow> settle_entry key f r e k = e k"
  by (simp add: settle_entry_def split: option.split cache_entry.split)

lemma settle_entry_same:
  "settle_entry key f r e key =
     (if e key = Some (Fetching f) then (case r of Inr v \<Rightarrow> Some (Ready v) | Inl _ \<Rightarrow> None) else e key)"
  by (auto simp: settle_entry_def split: option.split cache_entry.split)

lemma settle_entry_ready: "e k = Some (Ready v) \<Longrightarrow> settle_entry key f r e k = Some (Ready v)"
  by (cases "k = key") (simp_all add: settle_entry_other settle_entry_same)

lemma cache_ok_settle:
  assumes ok: "cache_ok c" and w: "bt_get (ca_waiting c) i = Some (key, f)" and out: "ca_outcomes c f = Some r"
  shows "cache_ok (cache_settle i key f r c)"
proof -
  note D = cache_okD [OF ok] and get = bt.get_del [OF cache_okD(1) [OF ok]] and del = bt.ok_del [OF cache_okD(1) [OF ok]]
  have fk: "fetch_of c f key" by (rule D(3) [OF w])
  have fetching: "fetch_of c g k" if "settle_entry key f r (ca_entries c) k = Some (Fetching g)" for g k
    using that D(4) by (cases "k = key") (auto simp: settle_entry_other settle_entry_same split: if_splits sum.splits)
  have unresolved: "settle_entry key f r (ca_entries c) k = Some (Fetching g)" if "fetch_of c g k" "ca_outcomes c g = None" for g k
  proof -
    have "ca_entries c k = Some (Fetching g)" by (rule D(5) [OF that])
    moreover have "g \<noteq> f" using that(2) out by auto
    ultimately show ?thesis by (cases "k = key") (simp_all add: settle_entry_other settle_entry_same)
  qed
  have ready: "\<exists>g. fetch_of c g k \<and> ca_outcomes c g = Some (Inr v)"
    if "settle_entry key f r (ca_entries c) k = Some (Ready v)" for k v
    using that D(6) fk out by (cases "k = key") (auto simp: settle_entry_other settle_entry_same split: if_splits sum.splits)
  let ?c = "cache_settle i key f r c"
  have e: "fetch_of ?c = fetch_of c" "ca_entries ?c = settle_entry key f r (ca_entries c)"
    "ca_waiting ?c = bt_remove i (ca_waiting c)" "ca_answers ?c = (ca_answers c)(i \<mapsto> (key, r))"
    "ca_callers ?c = ca_callers c" "ca_outcomes ?c = ca_outcomes c" "ca_fetches ?c = ca_fetches c"
    by (simp_all add: cache_settle_def)
  show ?thesis
  proof (rule cache_okI)
    show "j < ca_callers ?c \<and> (\<exists>g. fetch_of ?c g k \<and> ca_outcomes ?c g = Some x)" if "ca_answers ?c j = Some (k, x)" for j k x
      using that D(2) [OF w] D(8,9) fk out unfolding e by (cases "j = i") auto
    show "j < ca_callers ?c \<and> fetch_of ?c g k" if "bt_get (ca_waiting ?c) j = Some (k, g)" for j k g
      using that D(2,3) unfolding e get by (cases "j = i") auto
    show "bt_ok (ca_waiting ?c)" by (simp add: e del)
    show "fetch_of ?c g k" if "ca_entries ?c k = Some (Fetching g)" for k g
      using fetching that unfolding e by blast
    show "ca_entries ?c k = Some (Fetching g)" if "fetch_of ?c g k" "ca_outcomes ?c g = None" for g k
      using unresolved that unfolding e by blast
    show "\<exists>g. fetch_of ?c g k \<and> ca_outcomes ?c g = Some (Inr v)" if "ca_entries ?c k = Some (Ready v)" for k v
      using ready that unfolding e by blast
    show "g < length (ca_fetches ?c)" if "ca_outcomes ?c g = Some x" for g x
      using D(7) that unfolding e by blast
  qed
qed

lemma cache_ok_step: "cache_ok c \<Longrightarrow> cache_step e c = Some c' \<Longrightarrow> cache_ok c'"
proof (cases e)
  case (Get key)
  then show "cache_ok c \<Longrightarrow> cache_step e c = Some c' \<Longrightarrow> ?thesis" using cache_ok_lookup by auto
next
  case (Fetched f r)
  assume ok: "cache_ok c" and "cache_step e c = Some c'"
  then have c': "c' = c\<lparr>ca_outcomes := (ca_outcomes c)(f \<mapsto> r)\<rparr>" and f: "f < length (ca_fetches c)" "ca_outcomes c f = None"
    using Fetched by (auto split: if_split_asm)
  note D = cache_okD [OF ok]
  have keep: "ca_outcomes c' g = Some x" if "ca_outcomes c g = Some x" for g x using that f(2) c' by auto
  have fk: "fetch_of c' = fetch_of c" and en: "ca_entries c' = ca_entries c" "ca_answers c' = ca_answers c" "ca_callers c' = ca_callers c"
    by (simp_all add: c')
  show ?thesis
  proof (rule cache_okI, unfold fk)
    show "\<exists>g. fetch_of c g key \<and> ca_outcomes c' g = Some (Inr v)" if "ca_entries c' key = Some (Ready v)" for key v
      using D(6) [of key v] that keep unfolding en by blast
    show "i < ca_callers c' \<and> (\<exists>g. fetch_of c g key \<and> ca_outcomes c' g = Some x)" if "ca_answers c' i = Some (key, x)" for i key x
      using D(8,9) [of i key x] that keep unfolding en by blast
    show "ca_entries c' key = Some (Fetching g)" if "fetch_of c g key" "ca_outcomes c' g = None" for g key
      using D(5) [OF that(1)] that(2) c' by (auto split: if_split_asm)
  qed (use D(1-4,7) f c' in \<open>auto split: if_split_asm\<close>)
next
  case (Settle i)
  assume ok: "cache_ok c" and "cache_step e c = Some c'"
  then obtain key f r where w: "bt_get (ca_waiting c) i = Some (key, f)" "ca_outcomes c f = Some r"
    "c' = cache_settle i key f r c"
    using Settle by (auto split: option.splits)
  show ?thesis unfolding w(3) by (rule cache_ok_settle [OF ok w(1,2)])
next
  case (Drop_Caller i)
  assume ok: "cache_ok c" and "cache_step e c = Some c'"
  then have c': "c' = c\<lparr>ca_waiting := bt_remove i (ca_waiting c)\<rparr>" using Drop_Caller by (auto split: option.splits)
  note D = cache_okD [OF ok] and get = bt.get_del [OF cache_okD(1) [OF ok]] and del = bt.ok_del [OF cache_okD(1) [OF ok]]
  show ?thesis
  proof (rule cache_ok_frame [OF ok], simp_all add: c' del get)
    show "j < ca_callers c \<and> fetch_of c f key" if "(if j = i then None else bt_get (ca_waiting c) j) = Some (key, f)" for j key f
      using that D(2,3) [of j key f] by (cases "j = i") auto
    show "j < ca_callers c \<and> (\<exists>f. fetch_of c f key \<and> ca_outcomes c f = Some r)" if "ca_answers c j = Some (key, r)" for j key r
      using D(8,9) [OF that] by simp
  qed
qed

lemma cache_reach_ok: "cache_reach c \<Longrightarrow> cache_ok c"
  by (induction rule: cache_reach.induct) (auto intro: cache_ok_default cache_ok_step)

lemma ready_stays:
  assumes "cache_step e c = Some c'" and "ca_entries c key = Some (Ready v)"
  shows "ca_entries c' key = Some (Ready v)"
proof (cases e)
  case (Get k)
  then show ?thesis using assms by (auto simp: cache_lookup_def Let_def split: option.splits cache_entry.splits)
qed (use assms in \<open>auto simp: cache_settle_def settle_entry_ready split: option.splits if_splits\<close>)

text \<open>Looking up, fetching when that misses, and settling, with nobody in between.\<close>

definition get_or_fetch :: "'k \<Rightarrow> 'e + 'v \<Rightarrow> ('k \<Rightarrow> 'v option) \<Rightarrow> ('e + 'v) \<times> ('k \<Rightarrow> 'v option)" where
  "get_or_fetch key fetch ready =
     (case ready key of
        Some v \<Rightarrow> (Inr v, ready)
      | None \<Rightarrow> (case fetch of Inr v \<Rightarrow> (Inr v, ready(key \<mapsto> v)) | Inl e \<Rightarrow> (Inl e, ready)))"

definition ready_of :: "('k, 'v, 'e) cache \<Rightarrow> 'k \<Rightarrow> 'v option" where
  "ready_of c key = (case ca_entries c key of Some (Ready v) \<Rightarrow> Some v | _ \<Rightarrow> None)"

text \<open>Uninterrupted, a caller's three steps are \<open>get_or_fetch\<close>, whoever the other callers are.\<close>

lemma uninterrupted_call:
  assumes "cache_ok c" and "\<And>f. ca_entries c key \<noteq> Some (Fetching f)"
  shows "\<exists>c'. cache_run
      (if ready_of c key = None then [Get key, Fetched (length (ca_fetches c)) fetch, Settle (ca_callers c)]
       else [Get key]) c = Some c' \<and>
    ca_answers c' (ca_callers c) = Some (key, fst (get_or_fetch key fetch (ready_of c))) \<and>
    ready_of c' = snd (get_or_fetch key fetch (ready_of c))"
proof (cases "ca_entries c key")
  case None
  have out: "ca_outcomes c (length (ca_fetches c)) = None"
    using cache_okD(7) [OF assms(1), of "length (ca_fetches c)"] by (cases "ca_outcomes c (length (ca_fetches c))") auto
  note get = bt.get_ins [OF cache_okD(1) [OF assms(1)]]
  show ?thesis
    using None out
    by (auto simp: cache_lookup_def Let_def ready_of_def get_or_fetch_def get cache_settle_def settle_entry_def fun_eq_iff
        split: sum.split)
next
  case (Some x)
  then show ?thesis
    using assms(2) by (cases x) (auto simp: cache_lookup_def Let_def ready_of_def get_or_fetch_def fun_eq_iff)
qed

text \<open>
  C13. Whatever callers come, wait and are dropped, the schema cache runs at most one fetch
  of a key at a time and none once the key has a value; a value it keeps is what a fetch of
  that very key returned, and so is every answer a caller for the key gets.
\<close>

theorem cache_single_flight:
  assumes "cache_reach c"
  shows "(\<forall>f g. fetch_of c f key \<and> fetch_of c g key \<and> ca_outcomes c f = None \<and> ca_outcomes c g = None \<longrightarrow> f = g) \<and>
    (\<forall>v. ca_entries c key = Some (Ready v) \<longrightarrow>
       (\<exists>f. fetch_of c f key \<and> ca_outcomes c f = Some (Inr v)) \<and> (\<forall>f. fetch_of c f key \<longrightarrow> ca_outcomes c f \<noteq> None)) \<and>
    (\<forall>i r. ca_answers c i = Some (key, r) \<longrightarrow> (\<exists>f. fetch_of c f key \<and> ca_outcomes c f = Some r))"
proof -
  note D = cache_okD [OF cache_reach_ok [OF assms]]
  have "f = g" if "fetch_of c f key" "fetch_of c g key" "ca_outcomes c f = None" "ca_outcomes c g = None" for f g
    using D(5) [OF that(1,3)] D(5) [OF that(2,4)] by simp
  moreover have "ca_outcomes c f \<noteq> None" if "ca_entries c key = Some (Ready v)" "fetch_of c f key" for v f
    using D(5) [OF that(2)] that(1) by auto
  ultimately show ?thesis using D(6,9) by blast
qed

theorem cache_single_flight_witness:
  "\<exists>c :: (nat, nat, nat) cache. cache_reach c \<and> ca_entries c 7 = Some (Ready 1) \<and>
     (\<exists>f. fetch_of c f 7 \<and> ca_outcomes c f = Some (Inr 1))"
proof -
  obtain c :: "(nat, nat, nat) cache" where c: "cache_run [Get 7, Get 7, Fetched 0 (Inr 1), Settle 1] cache_default = Some c"
    "ca_entries c 7 = Some (Ready 1)"
    by (simp add: cache_lookup_def cache_default_def cache_settle_def settle_entry_def Let_def)
  have r: "cache_reach c" by (rule cache_run_reach [OF cache_start c(1)])
  from cache_single_flight [OF r, of 7] show ?thesis using c(2) r by blast
qed

end
