(* ===== verification/Kafka_Registry.thy ===== *)
theory Kafka_Registry
  imports Kafka_Cache Rust_Text
begin

text \<open>
  The schema registry of \<open>src/crates/kafka/src/registry.rs\<close>: the Confluent wire format, the
  schemas fetched by id and by subject, and the encoding and decoding that validate a payload
  against them. The registry's client, the JSON parser and the schema validator are
  third-party code: they are the functions of \<open>registry_env\<close>.
\<close>

section \<open>Wire format\<close>

definition MAGIC_BYTE :: byte where "MAGIC_BYTE = 0"

record payload =
  pl_registry_id :: "32 word"
  pl_data :: bytes

definition payload_encode :: "32 word \<Rightarrow> bytes \<Rightarrow> bytes" where
  "payload_encode registry_id data = MAGIC_BYTE # i32_to_be registry_id @ data"

text \<open>\<open>split_first_chunk::<5>()\<close> fails on fewer than five bytes.\<close>

definition payload_decode :: "bytes \<Rightarrow> payload option" where
  "payload_decode buffer =
     (if length buffer < 5 then None
      else if hd buffer \<noteq> MAGIC_BYTE then None
      else Some \<lparr>pl_registry_id = i32_from_be (take 4 (tl buffer)), pl_data = drop 5 buffer\<rparr>)"

lemma payload_decode_encode [codec_simps]:
  "payload_decode (payload_encode i data) = Some \<lparr>pl_registry_id = i, pl_data = data\<rparr>"
  by (simp add: payload_decode_def payload_encode_def codec_simps)

lemma payload_encode_decode:
  assumes "payload_decode buffer = Some p"
  shows "payload_encode (pl_registry_id p) (pl_data p) = buffer"
proof -
  obtain b rest where b: "buffer = b # rest" "4 \<le> length rest" "b = MAGIC_BYTE"
    using assms by (cases buffer) (auto simp: payload_decode_def split: if_split_asm)
  then have p: "p = \<lparr>pl_registry_id = i32_from_be (take 4 rest), pl_data = drop 4 rest\<rparr>"
    using assms by (simp add: payload_decode_def)
  show ?thesis using b by (simp add: p payload_encode_def codec_simps)
qed

section \<open>Failures and rejections\<close>

datatype failure = Unavailable string | Unknown | Invalid string

text \<open>An answer of the registry with its status, or any other error of its client.\<close>

datatype registry_error = Response_Error nat string string | Client_Error string

definition failure_of :: "registry_error \<Rightarrow> failure" where
  "failure_of error =
     (case error of
        Response_Error code status content \<Rightarrow>
          if code = 404 then Unknown else Unavailable (status @ '': '' @ str_trim content)
      | Client_Error shown \<Rightarrow> Unavailable shown)"

definition failure_text :: "failure \<Rightarrow> string" where
  "failure_text f =
     (case f of
        Unavailable detail \<Rightarrow> ''registry unavailable: '' @ detail
      | Unknown \<Rightarrow> ''not registered''
      | Invalid detail \<Rightarrow> ''invalid schema: '' @ detail)"

datatype reason = Registry_Unavailable | Unknown_Schema | Invalid_Schema | Invalid_Payload

record rejection =
  rj_reason :: reason
  rj_detail :: string

definition rejection_reason :: "rejection \<Rightarrow> string" where
  "rejection_reason r =
     (case rj_reason r of
        Registry_Unavailable \<Rightarrow> ''registry_unavailable''
      | Unknown_Schema \<Rightarrow> ''unknown_schema''
      | Invalid_Schema \<Rightarrow> ''invalid_schema''
      | Invalid_Payload \<Rightarrow> ''invalid_payload'')"

definition rejection_of :: "failure \<Rightarrow> rejection" where
  "rejection_of f =
     \<lparr>rj_reason = (case f of Unavailable _ \<Rightarrow> Registry_Unavailable | Unknown \<Rightarrow> Unknown_Schema | Invalid _ \<Rightarrow> Invalid_Schema),
      rj_detail = failure_text f\<rparr>"

definition rejection_text :: "rejection \<Rightarrow> string" where
  "rejection_text r = rj_detail r @ '' ('' @ rejection_reason r @ '')''"

section \<open>Schemas\<close>

text \<open>What the crate calls: the client's two lookups, \<open>serde_json\<close> and \<open>jsonschema\<close>.\<close>

record ('j, 'v) registry_env =
  re_by_id :: "32 word \<Rightarrow> registry_error + string"
  re_latest :: "string \<Rightarrow> registry_error + 32 word option \<times> string option"
  re_json_text :: "string \<Rightarrow> string + 'j"
  re_json_bytes :: "bytes \<Rightarrow> string + 'j"
  re_validator :: "'j \<Rightarrow> string + 'v"
  re_errors :: "'v \<Rightarrow> 'j \<Rightarrow> string list"

record 'v schema =
  sc_id :: "32 word"
  sc_validator :: 'v

definition id_text :: "32 word \<Rightarrow> string" where
  "id_text i = dec_int (sint i)"

definition schema_compile :: "('j, 'v) registry_env \<Rightarrow> 32 word \<Rightarrow> string \<Rightarrow> failure + 'v schema" where
  "schema_compile env i text1 =
     (case re_json_text env text1 of
        Inl e \<Rightarrow> Inl (Invalid (''schema '' @ id_text i @ '' is not JSON: '' @ e))
      | Inr json \<Rightarrow>
          (case re_validator env json of
             Inl e \<Rightarrow> Inl (Invalid (''schema '' @ id_text i @ '' does not compile: '' @ e))
           | Inr v \<Rightarrow> Inr \<lparr>sc_id = i, sc_validator = v\<rparr>))"

definition schema_check :: "('j, 'v) registry_env \<Rightarrow> 'v schema \<Rightarrow> bytes \<Rightarrow> rejection + unit" where
  "schema_check env schema data =
     (case re_json_bytes env data of
        Inl e \<Rightarrow>
          Inl \<lparr>rj_reason = Invalid_Payload,
               rj_detail = ''not JSON under schema '' @ id_text (sc_id schema) @ '': '' @ e\<rparr>
      | Inr value1 \<Rightarrow>
          (let errors = re_errors env (sc_validator schema) value1 in
           if errors = [] then Inr ()
           else Inl \<lparr>rj_reason = Invalid_Payload,
                     rj_detail = ''fails schema '' @ id_text (sc_id schema) @ '': '' @ str_join ''; '' errors\<rparr>))"

section \<open>The registry\<close>

text \<open>The two caches, as what they hold ready, and the topics warned of.\<close>

record 'v registry =
  rg_by_id :: "32 word \<Rightarrow> 'v schema option"
  rg_by_subject :: "string \<Rightarrow> 'v schema option option"
  rg_unframed :: "string list"

definition registry_new :: "'v registry" where
  "registry_new = \<lparr>rg_by_id = (\<lambda>_. None), rg_by_subject = (\<lambda>_. None), rg_unframed = []\<rparr>"

definition fetch_by_id :: "('j, 'v) registry_env \<Rightarrow> 32 word \<Rightarrow> failure + 'v schema" where
  "fetch_by_id env i =
     (case re_by_id env i of Inr text1 \<Rightarrow> schema_compile env i text1 | Inl error \<Rightarrow> Inl (failure_of error))"

definition registry_by_id ::
  "('j, 'v) registry_env \<Rightarrow> 32 word \<Rightarrow> 'v registry \<Rightarrow> (failure + 'v schema) \<times> 'v registry" where
  "registry_by_id env i s =
     (case get_or_fetch i (fetch_by_id env i) (rg_by_id s) of (r, ready) \<Rightarrow> (r, s\<lparr>rg_by_id := ready\<rparr>))"

definition subject_of :: "string \<Rightarrow> string" where
  "subject_of topic = topic @ ''-value''"

definition fetch_latest :: "('j, 'v) registry_env \<Rightarrow> string \<Rightarrow> failure + 'v schema option" where
  "fetch_latest env subject =
     (let fetched =
        (case re_latest env subject of
           Inr (Some i, Some text1) \<Rightarrow> res_map Some (schema_compile env i text1)
         | Inr _ \<Rightarrow> Inl (Invalid (subject @ '' has no schema id or text''))
         | Inl error \<Rightarrow> Inl (failure_of error))
      in if fetched = Inl Unknown then Inr None else fetched)"

definition registry_latest ::
  "('j, 'v) registry_env \<Rightarrow> string \<Rightarrow> 'v registry \<Rightarrow> (failure + 'v schema option) \<times> 'v registry" where
  "registry_latest env topic s =
     (case get_or_fetch (subject_of topic) (fetch_latest env (subject_of topic)) (rg_by_subject s) of
        (r, ready) \<Rightarrow> (r, s\<lparr>rg_by_subject := ready\<rparr>))"

definition warn_unframed :: "string \<Rightarrow> 'v registry \<Rightarrow> 'v registry" where
  "warn_unframed topic s = s\<lparr>rg_unframed := List.insert topic (rg_unframed s)\<rparr>"

definition registry_encode ::
  "('j, 'v) registry_env \<Rightarrow> string \<Rightarrow> bytes \<Rightarrow> 'v registry \<Rightarrow> (rejection + bytes) \<times> 'v registry" where
  "registry_encode env topic buffer s =
     (case registry_latest env topic s of
        (Inl failure, s1) \<Rightarrow> (Inl (rejection_of failure), s1)
      | (Inr None, s1) \<Rightarrow> (Inr buffer, s1)
      | (Inr (Some schema), s1) \<Rightarrow>
          (case schema_check env schema buffer of
             Inl rejection \<Rightarrow> (Inl rejection, s1)
           | Inr _ \<Rightarrow> (Inr (payload_encode (sc_id schema) buffer), s1)))"

definition registry_decode ::
  "('j, 'v) registry_env \<Rightarrow> string \<Rightarrow> bytes \<Rightarrow> 'v registry \<Rightarrow> (rejection + bytes) \<times> 'v registry" where
  "registry_decode env topic buffer s =
     (case payload_decode buffer of
        None \<Rightarrow> (Inr buffer, warn_unframed topic s)
      | Some framed \<Rightarrow>
          (case registry_by_id env (pl_registry_id framed) s of
             (Inl failure, s1) \<Rightarrow> (Inl (rejection_of failure), s1)
           | (Inr schema, s1) \<Rightarrow>
               (case schema_check env schema (pl_data framed) of
                  Inl rejection \<Rightarrow> (Inl rejection, s1)
                | Inr _ \<Rightarrow> (Inr (pl_data framed), s1))))"

section \<open>What the registry keeps\<close>

text \<open>A kept schema is the compiled answer of the registry to its own id or subject.\<close>

definition registry_ok :: "('j, 'v) registry_env \<Rightarrow> 'v registry \<Rightarrow> bool" where
  "registry_ok env s \<longleftrightarrow>
     (\<forall>i schema. rg_by_id s i = Some schema \<longrightarrow> fetch_by_id env i = Inr schema) \<and>
     (\<forall>subject r. rg_by_subject s subject = Some r \<longrightarrow> fetch_latest env subject = Inr r)"

lemma registry_ok_new [inv_intros]: "registry_ok env registry_new"
  by (simp add: registry_ok_def registry_new_def)

lemma get_or_fetch_ok:
  assumes "\<And>v. ready key = Some v \<Longrightarrow> fetch = Inr v"
  shows "fst (get_or_fetch key fetch ready) = fetch"
    and "snd (get_or_fetch key fetch ready) k = Some v \<Longrightarrow> ready k = Some v \<or> k = key \<and> fetch = Inr v"
  using assms by (auto simp: get_or_fetch_def split: option.splits sum.splits if_splits)

lemma by_id_ok:
  assumes "registry_ok env s"
  shows "fst (registry_by_id env i s) = fetch_by_id env i" "registry_ok env (snd (registry_by_id env i s))"
proof -
  note g = get_or_fetch_ok [of "rg_by_id s" i "fetch_by_id env i"]
  have hit: "\<And>v. rg_by_id s i = Some v \<Longrightarrow> fetch_by_id env i = Inr v" using assms by (simp add: registry_ok_def)
  show "fst (registry_by_id env i s) = fetch_by_id env i"
    using g(1) [OF hit] by (simp add: registry_by_id_def case_prod_beta)
  show "registry_ok env (snd (registry_by_id env i s))"
    using g(2) [OF hit] assms by (auto simp: registry_by_id_def registry_ok_def case_prod_beta)
qed

lemma latest_ok:
  assumes "registry_ok env s"
  shows "fst (registry_latest env topic s) = fetch_latest env (subject_of topic)"
    "registry_ok env (snd (registry_latest env topic s))"
proof -
  note g = get_or_fetch_ok [of "rg_by_subject s" "subject_of topic" "fetch_latest env (subject_of topic)"]
  have hit: "\<And>v. rg_by_subject s (subject_of topic) = Some v \<Longrightarrow> fetch_latest env (subject_of topic) = Inr v"
    using assms by (simp add: registry_ok_def)
  show "fst (registry_latest env topic s) = fetch_latest env (subject_of topic)"
    using g(1) [OF hit] by (simp add: registry_latest_def case_prod_beta)
  have "fetch_latest env subject = Inr r"
    if "snd (get_or_fetch (subject_of topic) (fetch_latest env (subject_of topic)) (rg_by_subject s)) subject = Some r" for subject r
    using g(2) [OF hit that] assms unfolding registry_ok_def by blast
  then show "registry_ok env (snd (registry_latest env topic s))"
    using assms by (simp add: registry_latest_def registry_ok_def case_prod_beta)
qed

text \<open>With the caches out of the way: what the two operations answer.\<close>

lemma encode_answer:
  assumes "registry_ok env s"
  shows "fst (registry_encode env topic buffer s) =
     (case fetch_latest env (subject_of topic) of
        Inl failure \<Rightarrow> Inl (rejection_of failure)
      | Inr None \<Rightarrow> Inr buffer
      | Inr (Some schema) \<Rightarrow> res_map (\<lambda>_. payload_encode (sc_id schema) buffer) (schema_check env schema buffer))"
    and "registry_ok env (snd (registry_encode env topic buffer s))"
  using latest_ok [OF assms, of topic]
  by (auto simp: registry_encode_def split: prod.split sum.split option.split)

lemma decode_answer:
  assumes "registry_ok env s"
  shows "fst (registry_decode env topic buffer s) =
     (case payload_decode buffer of
        None \<Rightarrow> Inr buffer
      | Some framed \<Rightarrow>
          (case fetch_by_id env (pl_registry_id framed) of
             Inl failure \<Rightarrow> Inl (rejection_of failure)
           | Inr schema \<Rightarrow> res_map (\<lambda>_. pl_data framed) (schema_check env schema (pl_data framed))))"
    and "registry_ok env (snd (registry_decode env topic buffer s))"
proof -
  have w: "registry_ok env (warn_unframed topic s)" using assms by (simp add: registry_ok_def warn_unframed_def)
  have b: "fst (registry_by_id env i s) = fetch_by_id env i \<and> registry_ok env (snd (registry_by_id env i s))" for i
    using by_id_ok [OF assms] by blast
  show "fst (registry_decode env topic buffer s) =
     (case payload_decode buffer of
        None \<Rightarrow> Inr buffer
      | Some framed \<Rightarrow>
          (case fetch_by_id env (pl_registry_id framed) of
             Inl failure \<Rightarrow> Inl (rejection_of failure)
           | Inr schema \<Rightarrow> res_map (\<lambda>_. pl_data framed) (schema_check env schema (pl_data framed))))"
  proof (cases "payload_decode buffer")
    case (Some framed)
    then show ?thesis using b [of "pl_registry_id framed"]
      by (auto simp: registry_decode_def res_map_def split: prod.split sum.split)
  qed (simp add: registry_decode_def)
  show "registry_ok env (snd (registry_decode env topic buffer s))"
  proof (cases "payload_decode buffer")
    case None
    then show ?thesis using w by (simp add: registry_decode_def)
  next
    case (Some framed)
    then show ?thesis using b [of "pl_registry_id framed"]
      by (auto simp: registry_decode_def split: prod.split sum.split)
  qed
qed

lemma compile_id: "schema_compile env i text1 = Inr schema \<Longrightarrow> sc_id schema = i"
  by (auto simp: schema_compile_def split: sum.splits)

lemma latest_id:
  assumes "fetch_latest env subject = Inr (Some schema)"
  shows "\<exists>i text1. re_latest env subject = Inr (Some i, Some text1) \<and> schema_compile env i text1 = Inr schema"
  using assms by (auto simp: fetch_latest_def Let_def res_map_Inr_iff split: sum.splits option.splits if_splits prod.splits)

text \<open>
  What one client encodes another decodes back: when the registry answers an id with the
  text it gave as a subject's latest under that id, as it documents, every payload encoded
  for a topic with a schema is decoded, on any topic and by a client with any history, to
  the very bytes the guest sent, and the frame is five bytes longer.
\<close>

theorem registry_round_trip:
  assumes "registry_ok env s" and "registry_ok env s'"
    and "\<And>subject i text1. re_latest env subject = Inr (Some i, Some text1) \<Longrightarrow> re_by_id env i = Inr text1"
    and "fst (registry_encode env topic buffer s) = Inr framed" and "framed \<noteq> buffer"
  shows "fst (registry_decode env topic' framed s') = Inr buffer \<and> length framed = length buffer + 5"
proof -
  obtain schema where l: "fetch_latest env (subject_of topic) = Inr (Some schema)"
    and c: "schema_check env schema buffer = Inr ()" and f: "framed = payload_encode (sc_id schema) buffer"
    using assms(4,5) encode_answer(1) [OF assms(1), of topic buffer]
    by (auto simp: res_map_def split: sum.splits option.splits)
  obtain i text1 where "re_latest env (subject_of topic) = Inr (Some i, Some text1)"
    "schema_compile env i text1 = Inr schema"
    using latest_id [OF l] by blast
  then have "fetch_by_id env (sc_id schema) = Inr schema" using assms(3) compile_id by (fastforce simp: fetch_by_id_def)
  then have "fst (registry_decode env topic' framed s') = Inr buffer"
    using c by (simp add: decode_answer(1) [OF assms(2)] f codec_simps)
  then show ?thesis by (simp add: f payload_encode_def)
qed

text \<open>A registry with one schema, under which every payload is valid.\<close>

definition demo_registry :: "(unit, unit) registry_env" where
  "demo_registry =
     \<lparr>re_by_id = (\<lambda>i. if i = 7 then Inr ''{}'' else Inl (Response_Error 404 ''404 Not Found'' '''')),
      re_latest = (\<lambda>subject. if subject = ''t-value'' then Inr (Some 7, Some ''{}'')
                             else Inl (Response_Error 404 ''404 Not Found'' '''')),
      re_json_text = (\<lambda>_. Inr ()), re_json_bytes = (\<lambda>b. if b = [] then Inl ''EOF'' else Inr ()),
      re_validator = Inr, re_errors = (\<lambda>_ _. [])\<rparr>"

theorem registry_round_trip_witness:
  "fst (registry_decode demo_registry ''u'' [0, 0, 0, 0, 7, 0x7b, 0x7d] registry_new) = Inr [0x7b, 0x7d]"
proof -
  have e: "fst (registry_encode demo_registry ''t'' [0x7b, 0x7d] registry_new) = Inr [0, 0, 0, 0, 7, 0x7b, 0x7d]"
    by code_simp
  have d: "re_by_id demo_registry i = Inr text1" if "re_latest demo_registry subject = Inr (Some i, Some text1)" for subject i text1
    using that by (simp add: demo_registry_def split: if_split_asm)
  show ?thesis
    using registry_round_trip [OF registry_ok_new registry_ok_new d e, where topic' = "''u''"] by simp
qed



end
