(* ===== verification/Kafka_Partitioner.thy ===== *)
theory Kafka_Partitioner
  imports Prelude
begin

unbundle bit_operations_syntax

text \<open>
  The key partitioners of the Kafka backend (\<open>src/crates/kafka/src/partitioner.rs\<close>).
  The Java scheme is 32-bit arithmetic on words. The KafkaJS scheme runs on JavaScript
  Numbers: every value it forms is an integer below \<open>2 ^ 63\<close>, so an \<open>f64\<close> is modelled by
  the integer it holds and a multiplication by rounding the exact product to the nearest
  integer with 53 significant bits, ties to even.
\<close>

section \<open>Java's murmur2\<close>

definition murmur_seed :: "32 word" where "murmur_seed = 0x9747b28c"
definition murmur_m :: "32 word" where "murmur_m = 0x5bd1e995"
definition murmur_r :: nat where "murmur_r = 24"

definition u32_from_le_bytes :: "byte \<Rightarrow> byte \<Rightarrow> byte \<Rightarrow> byte \<Rightarrow> 32 word" where
  "u32_from_le_bytes a b c d = word_of_nat (from_be [d, c, b, a])"

definition java_mix :: "32 word \<Rightarrow> 32 word \<Rightarrow> 32 word" where
  "java_mix hash chunk0 =
     (let chunk1 = chunk0 * murmur_m;
          chunk2 = chunk1 XOR drop_bit murmur_r chunk1;
          chunk3 = chunk2 * murmur_m
      in (hash * murmur_m) XOR chunk3)"

text \<open>\<open>while index + 4 <= data.len()\<close>: the index reached and the hash.\<close>

function java_chunks :: "bytes \<Rightarrow> nat \<Rightarrow> 32 word \<Rightarrow> nat \<times> 32 word" where
  "java_chunks data index hash =
     (if index + 4 \<le> length data then
        java_chunks data (index + 4)
          (java_mix hash (u32_from_le_bytes (data ! index) (data ! (index + 1))
             (data ! (index + 2)) (data ! (index + 3))))
      else (index, hash))"
  by pat_completeness auto
termination
  by (relation "measure (\<lambda>(data, index, hash). length data - index)") auto

declare java_chunks.simps [simp del]

definition java_tail :: "bytes \<Rightarrow> nat \<Rightarrow> 32 word \<Rightarrow> 32 word" where
  "java_tail data index hash0 =
     (let rest = length data - index;
          hash1 = (if 3 \<le> rest then hash0 XOR push_bit 16 (ucast (data ! (index + 2))) else hash0);
          hash2 = (if 2 \<le> rest then hash1 XOR push_bit 8 (ucast (data ! (index + 1))) else hash1)
      in (if 1 \<le> rest then (hash2 XOR ucast (data ! index)) * murmur_m else hash2))"

definition java_final :: "32 word \<Rightarrow> 32 word" where
  "java_final hash0 =
     (let hash1 = hash0 XOR drop_bit 13 hash0;
          hash2 = hash1 * murmur_m
      in hash2 XOR drop_bit 15 hash2)"

definition java_murmur2 :: "bytes \<Rightarrow> 32 word" where
  "java_murmur2 data =
     (case java_chunks data 0 (murmur_seed XOR word_of_nat (length data)) of
        (index, hash) \<Rightarrow> java_final (java_tail data index hash))"

section \<open>KafkaJS's murmur2\<close>

fun bit_length :: "int \<Rightarrow> nat" where
  "bit_length n = (if n \<le> 0 then 0 else Suc (bit_length (n div 2)))"

declare bit_length.simps [simp del]

lemma bit_length_0: "n \<le> 0 \<Longrightarrow> bit_length n = 0"
  by (simp add: bit_length.simps)

lemma bit_length_pos: "0 < n \<Longrightarrow> bit_length n = Suc (bit_length (n div 2))"
  by (simp add: bit_length.simps [of n])

text \<open>The integer with 53 significant bits nearest to \<open>n \<ge> 0\<close>, ties to even.\<close>

definition round53 :: "int \<Rightarrow> int" where
  "round53 n =
     (let e = bit_length n - 53; q = n div 2 ^ e; r = n mod 2 ^ e
      in (if 2 ^ e < 2 * r \<or> (2 * r = 2 ^ e \<and> odd q) then q + 1 else q) * 2 ^ e)"

definition f64_mul :: "int \<Rightarrow> int \<Rightarrow> int" where
  "f64_mul a b = sgn (a * b) * round53 \<bar>a * b\<bar>"

text \<open>\<open>(f as i64) as i32\<close>: the cast to \<open>i64\<close> saturates, the cast to \<open>i32\<close> wraps.\<close>

definition js_i :: "int \<Rightarrow> 32 word" where
  "js_i f = word_of_int (max (- (2 ^ 63)) (min (2 ^ 63 - 1) f))"

definition js_f :: "32 word \<Rightarrow> int" where
  "js_f i = sint i"

definition js_rshift :: "int \<Rightarrow> nat \<Rightarrow> int" where
  "js_rshift f shift = uint (drop_bit shift (js_i f))"

definition js_xor :: "int \<Rightarrow> int \<Rightarrow> int" where
  "js_xor a b = js_f (js_i a XOR js_i b)"

definition js_seed :: int where "js_seed = 0x9747b28c"
definition js_m :: int where "js_m = 0x5bd1e995"

text \<open>\<open>key.chunks(4)\<close>, the short last chunk padded with zeros.\<close>

fun le_chunks :: "bytes \<Rightarrow> 32 word list" where
  "le_chunks (a # b # c # d # bs) = u32_from_le_bytes a b c d # le_chunks bs"
| "le_chunks [a, b, c] = [u32_from_le_bytes a b c 0]"
| "le_chunks [a, b] = [u32_from_le_bytes a b 0 0]"
| "le_chunks [a] = [u32_from_le_bytes a 0 0 0]"
| "le_chunks [] = []"

definition js_mix :: "int \<Rightarrow> 32 word \<Rightarrow> int" where
  "js_mix h chunk =
     (let k0 = js_f chunk;
          k1 = f64_mul k0 js_m;
          k2 = js_xor k1 (js_rshift k1 murmur_r);
          k3 = f64_mul k2 js_m
      in js_xor (f64_mul h js_m) k3)"

definition js_tail :: "bytes \<Rightarrow> int \<Rightarrow> int" where
  "js_tail key h0 =
     (let len = length key;
          tail = 4 * (len div 4);
          h1 = (if 3 \<le> len mod 4 then js_xor h0 (js_f (push_bit 16 (ucast (key ! (tail + 2))))) else h0);
          h2 = (if 2 \<le> len mod 4 then js_xor h1 (js_f (push_bit 8 (ucast (key ! (tail + 1))))) else h1)
      in (if 1 \<le> len mod 4 then f64_mul (js_xor h2 (js_f (ucast (key ! tail)))) js_m else h2))"

definition js_final :: "int \<Rightarrow> int" where
  "js_final h0 =
     (let h1 = js_xor h0 (js_rshift h0 13);
          h2 = f64_mul h1 js_m
      in js_xor h2 (js_rshift h2 15))"

definition murmur2 :: "bytes \<Rightarrow> int" where
  "murmur2 key =
     js_final (js_tail key
       (foldl js_mix (js_f (js_i js_seed XOR word_of_nat (length key))) (le_chunks key)))"

definition to_positive :: "int \<Rightarrow> 32 word" where
  "to_positive x = js_i x AND 0x7fffffff"

section \<open>The partitioner\<close>

datatype partitioner_scheme = KafkaJs | Java

record kafka_partitioner =
  pr_count :: int
  pr_scheme :: partitioner_scheme

text \<open>
  The remainder truncates towards zero; its dividend is never negative. A count of zero
  panics, which is \<open>None\<close>.
\<close>

definition rem_i32 :: "32 word \<Rightarrow> int \<Rightarrow> int option" where
  "rem_i32 x count = (if count = 0 then None else Some (sgn (sint x) * (\<bar>sint x\<bar> mod \<bar>count\<bar>)))"

definition partitioner_kafkajs :: "kafka_partitioner \<Rightarrow> bytes \<Rightarrow> int option" where
  "partitioner_kafkajs pr key = rem_i32 (to_positive (murmur2 key)) (pr_count pr)"

definition partitioner_java :: "kafka_partitioner \<Rightarrow> bytes \<Rightarrow> int option" where
  "partitioner_java pr key = rem_i32 (java_murmur2 key AND 0x7fffffff) (pr_count pr)"

definition partitioner_partition :: "kafka_partitioner \<Rightarrow> bytes \<Rightarrow> int option" where
  "partitioner_partition pr key =
     (case pr_scheme pr of KafkaJs \<Rightarrow> partitioner_kafkajs pr key | Java \<Rightarrow> partitioner_java pr key)"

section \<open>The partition is in range\<close>

lemma and_max_nonneg: "0 \<le> sint (x AND (0x7fffffff :: 32 word))"
proof -
  have "\<not> bit (x AND (0x7fffffff :: 32 word)) 31" by (simp add: bit_and_iff)
  then show ?thesis using bit_last_iff [of "x AND (0x7fffffff :: 32 word)"] by simp
qed

lemma rem_i32_range:
  assumes "0 < count" and "0 \<le> sint x"
  shows "\<exists>p. rem_i32 x count = Some p \<and> 0 \<le> p \<and> p < count \<and> p = sint x mod count"
  using assms by (auto simp: rem_i32_def sgn_if)

section \<open>The casts of the KafkaJS scheme never saturate\<close>

lemma bit_length_bounds: "0 < n \<Longrightarrow> 2 ^ (bit_length n - 1) \<le> n \<and> n < 2 ^ bit_length n"
proof (induction n rule: bit_length.induct)
  case (1 n)
  show ?case
  proof (cases "n = 1")
    case True
    then show ?thesis by (simp add: bit_length.simps)
  next
    case False
    with 1 have *: "2 ^ (bit_length (n div 2) - 1) \<le> n div 2 \<and> n div 2 < 2 ^ bit_length (n div 2)"
      and pos: "0 < n div 2" by auto
    then have "bit_length (n div 2) \<noteq> 0" by (auto simp: bit_length_pos)
    then have "(2::int) ^ bit_length (n div 2) = 2 * 2 ^ (bit_length (n div 2) - 1)"
      by (simp add: power_eq_if)
    with * 1(2) show ?thesis by (simp add: bit_length_pos [of n]) linarith
  qed
qed

text \<open>Rounding to 53 bits cannot carry a value over a power of two.\<close>

lemma round53_le:
  assumes "0 \<le> n" and "n \<le> 2 ^ k"
  shows "0 \<le> round53 n \<and> round53 n \<le> 2 ^ k"
proof -
  define e where "e = bit_length n - 53"
  define q where "q = n div 2 ^ e"
  define r where "r = n mod 2 ^ e"
  have n: "n = q * 2 ^ e + r" unfolding q_def r_def by (rule div_mult_mod_eq [symmetric])
  have r: "0 \<le> r" "r < 2 ^ e" by (simp_all add: r_def)
  have q: "0 \<le> q" using assms(1) by (simp add: q_def pos_imp_zdiv_nonneg_iff)
  have R: "round53 n = (if 2 ^ e < 2 * r \<or> (2 * r = 2 ^ e \<and> odd q) then q + 1 else q) * 2 ^ e"
    by (simp add: round53_def e_def q_def r_def Let_def)
  have ek: "e \<le> k"
  proof (cases "n = 0")
    case True
    then show ?thesis by (simp add: e_def bit_length_0)
  next
    case False
    then have "(2::int) ^ (bit_length n - 1) \<le> 2 ^ k"
      using bit_length_bounds [of n] assms by linarith
    then show ?thesis by (simp add: e_def)
  qed
  then obtain d where d: "k = e + d" using le_Suc_ex by blast
  have up: "(q + 1) * 2 ^ e \<le> 2 ^ k" if "0 < r"
  proof -
    have "q * 2 ^ e < 2 ^ d * 2 ^ e"
      using n that assms(2) unfolding d power_add mult.commute [of "2 ^ e"] by linarith
    then have "q + 1 \<le> 2 ^ d" by simp
    then have "(q + 1) * 2 ^ e \<le> 2 ^ d * 2 ^ e" by (intro mult_right_mono) auto
    then show ?thesis by (simp add: d power_add mult.commute)
  qed
  have low: "q * 2 ^ e \<le> 2 ^ k" using n r assms(2) by linarith
  have "0 < r" if "2 ^ e < 2 * r \<or> (2 * r = 2 ^ e \<and> odd q)"
    using that r by (metis less_le mult_zero_right not_less zero_less_numeral zero_less_power)
  with up low q show ?thesis by (auto simp: R)
qed

definition js_exact :: "int \<Rightarrow> bool" where
  "js_exact f \<longleftrightarrow> \<bar>f\<bar> \<le> 2 ^ 62"

lemma js_exact_i: "js_exact f \<Longrightarrow> js_i f = word_of_int f"
  by (auto simp: js_exact_def js_i_def min_def max_def)

lemma js_f_bounds: "\<bar>js_f w\<bar> \<le> 2 ^ 31"
  using sint_range_size [of w] by (simp add: js_f_def word_size abs_le_iff)

lemma js_exact_f [simp]: "js_exact (js_f w)"
  using js_f_bounds [of w] by (simp add: js_exact_def)

lemma js_exact_xor [simp]: "js_exact (js_xor a b)"
  by (simp add: js_xor_def)

lemma js_exact_mul: "js_exact (f64_mul (js_f w) js_m)"
proof -
  have "\<bar>js_f w * js_m\<bar> \<le> 2 ^ 31 * 2 ^ 31"
    unfolding abs_mult by (rule mult_mono) (use js_f_bounds [of w] in \<open>auto simp: js_m_def\<close>)
  then have "round53 \<bar>js_f w * js_m\<bar> \<le> 2 ^ 62 \<and> 0 \<le> round53 \<bar>js_f w * js_m\<bar>"
    using round53_le [of "\<bar>js_f w * js_m\<bar>" 62] by simp
  then show ?thesis by (auto simp: js_exact_def f64_mul_def abs_mult sgn_if)
qed


section \<open>References\<close>

text \<open>
  KafkaJS as ECMAScript defines its operators: ToInt32 and ToUint32 reduce modulo
  \<open>2 ^ 32\<close>, whatever the magnitude of the Number.
\<close>

definition es_xor :: "int \<Rightarrow> int \<Rightarrow> int" where
  "es_xor a b = sint (word_of_int a XOR word_of_int b :: 32 word)"

definition es_shr :: "int \<Rightarrow> nat \<Rightarrow> int" where
  "es_shr a n = (a mod 2 ^ 32) div 2 ^ n"

definition es_mix :: "int \<Rightarrow> 32 word \<Rightarrow> int" where
  "es_mix h chunk =
     (let k1 = f64_mul (sint chunk) js_m;
          k2 = es_xor k1 (es_shr k1 24)
      in es_xor (f64_mul h js_m) (f64_mul k2 js_m))"

definition es_tail :: "bytes \<Rightarrow> int \<Rightarrow> int" where
  "es_tail rest h =
     (case rest of
        [] \<Rightarrow> h
      | [a] \<Rightarrow> f64_mul (es_xor h (uint a)) js_m
      | [a, b] \<Rightarrow> f64_mul (es_xor (es_xor h (uint b * 2 ^ 8)) (uint a)) js_m
      | a # b # c # _ \<Rightarrow>
          f64_mul (es_xor (es_xor (es_xor h (uint c * 2 ^ 16)) (uint b * 2 ^ 8)) (uint a)) js_m)"

definition es_murmur2 :: "bytes \<Rightarrow> int" where
  "es_murmur2 key =
     (let h1 = es_tail (drop (4 * (length key div 4)) key)
                 (foldl es_mix (es_xor js_seed (int (length key))) (le_chunks key));
          h2 = f64_mul (es_xor h1 (es_shr h1 13)) js_m
      in es_xor h2 (es_shr h2 15))"

lemma js_xor_es: "js_exact a \<Longrightarrow> js_exact b \<Longrightarrow> js_xor a b = es_xor a b"
  by (simp add: js_xor_def es_xor_def js_exact_i js_f_def)

lemma js_rshift_es: "js_exact a \<Longrightarrow> js_rshift a n = es_shr a n"
proof -
  assume "js_exact a"
  then have "js_rshift a n = drop_bit n (take_bit 32 (uint (word_of_int a :: 32 word)))"
    unfolding js_rshift_def by (simp only: js_exact_i unsigned_drop_bit_eq) simp
  also have "\<dots> = es_shr a n"
    by (simp add: es_shr_def uint_word_of_int take_bit_eq_mod drop_bit_eq_div)
  finally show ?thesis .
qed


lemma js_exact_rshift [simp]: "js_exact (js_rshift a n)"
proof -
  have "uint (drop_bit n (js_i a)) < 2 ^ 32" and "0 \<le> uint (drop_bit n (js_i a))"
    using unsigned_less [of "drop_bit n (js_i a)", where ?'a = int] by simp_all
  then show ?thesis unfolding js_exact_def js_rshift_def by simp
qed

lemma js_exact_mul_xor [simp]:
  "js_exact (f64_mul (js_xor a b) js_m)" "js_exact (f64_mul (js_f w) js_m)"
  by (simp_all add: js_xor_def js_exact_mul)

lemma es_scramble:
  assumes "js_exact a"
  shows "es_xor a (es_shr a n) = js_xor a (js_rshift a n)"
  using assms by (simp add: js_rshift_es [symmetric] js_xor_es)

lemma js_mix_es:
  assumes "js_exact (f64_mul h js_m)"
  shows "js_mix h chunk = es_mix h chunk"
  using assms
  by (simp add: js_mix_def es_mix_def Let_def js_f_def [symmetric] es_scramble js_xor_es [symmetric]
      murmur_r_def)

text \<open>A chain of \<open>js_xor\<close> results starting from an \<open>i32\<close>.\<close>

lemma js_fold_es:
  "foldl js_mix (js_f w) ks = foldl es_mix (js_f w) ks \<and> (\<exists>w'. foldl js_mix (js_f w) ks = js_f w')"
proof (induction ks rule: rev_induct)
  case Nil
  then show ?case by auto
next
  case (snoc k ks)
  then obtain w' where w': "foldl js_mix (js_f w) ks = js_f w'" "foldl es_mix (js_f w) ks = js_f w'"
    by metis
  then show ?case
    by (auto simp: js_mix_es [symmetric]) (auto simp: js_mix_def js_xor_def Let_def)
qed


lemma length_small:
  "length xs = Suc 0 \<Longrightarrow> \<exists>a. xs = [a]"
  "length xs = Suc (Suc 0) \<Longrightarrow> \<exists>a b. xs = [a, b]"
  "length xs = Suc (Suc (Suc 0)) \<Longrightarrow> \<exists>a b c. xs = [a, b, c]"
  by (auto simp: length_Suc_conv)

lemma tail_cases:
  fixes key :: bytes
  defines "t \<equiv> 4 * (length key div 4)"
  obtains "length key mod 4 = 0" "drop t key = []"
  | a where "length key mod 4 = 1" "drop t key = [a]" "key ! t = a"
  | a b where "length key mod 4 = 2" "drop t key = [a, b]" "key ! t = a" "key ! (t + 1) = b"
  | a b c where "length key mod 4 = 3" "drop t key = [a, b, c]"
      "key ! t = a" "key ! (t + 1) = b" "key ! (t + 2) = c"
proof -
  have le: "t \<le> length key" by (simp add: t_def)
  have nth: "key ! (t + n) = drop t key ! n" for n by (simp add: nth_drop le)
  have len: "length (drop t key) = length key mod 4"
    by (simp add: t_def minus_mult_div_eq_mod)
  have "length key mod 4 < 4" by simp
  then consider "length key mod 4 = 0" | "length key mod 4 = Suc 0" | "length key mod 4 = Suc (Suc 0)"
    | "length key mod 4 = Suc (Suc (Suc 0))" by linarith
  then show thesis
  proof cases
    case 1
    with len that(1) show thesis by (simp only: length_0_conv)
  next
    case 2
    with len obtain a where "drop t key = [a]" using length_small [of "drop t key"] by (simp only:) blast
    with 2 nth [of 0] that(2) show thesis
      by (simp del: drop_eq_Nil add: numeral_2_eq_2 numeral_3_eq_3)
  next
    case 3
    with len obtain a b where "drop t key = [a, b]" using length_small [of "drop t key"] by (simp only:) blast
    with 3 nth [of 0] nth [of 1] that(3) show thesis
      by (simp del: drop_eq_Nil add: numeral_2_eq_2 numeral_3_eq_3)
  next
    case 4
    with len obtain a b c where "drop t key = [a, b, c]" using length_small [of "drop t key"] by (simp only:) blast
    with 4 nth [of 0] nth [of 1] nth [of 2] that(4) show thesis
      by (simp del: drop_eq_Nil add: numeral_2_eq_2 numeral_3_eq_3)
  qed
qed

lemma js_f_byte: "js_f (push_bit n (ucast (b :: byte))) = uint b * 2 ^ n" if "n \<le> 16"
proof -
  have b: "uint b < 256" "0 \<le> uint b" using unsigned_less [of b, where ?'a = int] by simp_all
  have "uint b * 2 ^ n \<le> 255 * 2 ^ 16"
    using b that by (intro mult_mono power_increasing) auto
  then have less: "uint b * 2 ^ n < 2 ^ 31" by simp
  have "push_bit n (ucast b :: 32 word) = word_of_int (uint b * 2 ^ n)"
    by (simp add: push_bit_eq_mult mult.commute)
  then have "js_f (push_bit n (ucast b)) = sint (word_of_int (uint b * 2 ^ n) :: 32 word)"
    by (simp only: js_f_def)
  also have "\<dots> = uint b * 2 ^ n"
    using less order_trans [of "- (2 ^ 31) :: int" 0 "uint b * 2 ^ n"]
    by (simp only: signed_of_int) (simp add: signed_take_bit_int_eq_self)
  finally show ?thesis .
qed


lemma js_tail_es:
  "js_tail key (js_f w) = es_tail (drop (4 * (length key div 4)) key) (js_f w)"
proof -
  have x: "es_xor (js_f v) (uint b) = js_xor (js_f v) (js_f (ucast b))"
    "es_xor (js_f v) (uint b * 256) = js_xor (js_f v) (js_f (push_bit 8 (ucast b)))"
    "es_xor (js_f v) (uint b * 65536) = js_xor (js_f v) (js_f (push_bit 16 (ucast b)))"
    for v and b :: byte
    using js_f_byte [of 0 b] js_f_byte [of 8 b] js_f_byte [of 16 b]
      js_xor_es [OF js_exact_f js_exact_f, of v "ucast b"]
      js_xor_es [OF js_exact_f js_exact_f, of v "push_bit 8 (ucast b)"]
      js_xor_es [OF js_exact_f js_exact_f, of v "push_bit 16 (ucast b)"]
    by simp_all
  have y: "es_xor (js_xor p q) (uint b) = js_xor (js_xor p q) (js_f (ucast b))"
    "es_xor (js_xor p q) (uint b * 256) = js_xor (js_xor p q) (js_f (push_bit 8 (ucast b)))"
    for p q and b :: byte
    using x [of "js_i p XOR js_i q"] by (simp_all add: js_xor_def)
  show ?thesis
  proof (cases key rule: tail_cases)
    case 1
    then show ?thesis by (simp add: js_tail_def es_tail_def Let_def)
  next
    case (2 a)
    then show ?thesis by (simp add: js_tail_def es_tail_def Let_def x)
  next
    case (3 a b)
    then show ?thesis by (simp add: js_tail_def es_tail_def Let_def x y)
  next
    case (4 a b c)
    then show ?thesis by (simp add: js_tail_def es_tail_def Let_def x y)
  qed
qed

lemma js_final_es: "js_exact h \<Longrightarrow> js_final h = (let h2 = f64_mul (es_xor h (es_shr h 13)) js_m in es_xor h2 (es_shr h2 15))"
  by (simp add: js_final_def Let_def es_scramble)

lemma js_exact_tail: "js_exact (js_tail key (js_f w))"
  by (auto simp: js_tail_def Let_def js_xor_def)

text \<open>
  No intermediate product reaches the \<open>i64\<close> bound, so no cast saturates and the hash is
  KafkaJS's own.
\<close>

lemma murmur2_es: "murmur2 key = es_murmur2 key"
proof -
  obtain w where w: "foldl es_mix (js_f (js_i js_seed XOR word_of_nat (length key))) (le_chunks key) = js_f w"
    using js_fold_es by metis
  have seed: "js_f (js_i js_seed XOR word_of_nat (length key)) = es_xor js_seed (int (length key))"
    by (simp add: js_f_def es_xor_def js_exact_i js_exact_def js_seed_def)
  show ?thesis
    using w js_fold_es [of "js_i js_seed XOR word_of_nat (length key)" "le_chunks key"]
    by (simp add: murmur2_def es_murmur2_def js_final_es js_exact_tail js_tail_es [symmetric]
        seed [symmetric] Let_def)
qed


section \<open>The chunk loop of the Java scheme\<close>

fun java_reference_fold :: "bytes \<Rightarrow> 32 word \<Rightarrow> 32 word \<times> bytes" where
  "java_reference_fold (a # b # c # d # bs) hash =
     java_reference_fold bs (java_mix hash (u32_from_le_bytes a b c d))"
| "java_reference_fold bs hash = (hash, bs)"

definition java_reference_tail :: "bytes \<Rightarrow> 32 word \<Rightarrow> 32 word" where
  "java_reference_tail rest h =
     (case rest of
        [] \<Rightarrow> h
      | [a] \<Rightarrow> (h XOR ucast a) * murmur_m
      | [a, b] \<Rightarrow> ((h XOR push_bit 8 (ucast b)) XOR ucast a) * murmur_m
      | a # b # c # _ \<Rightarrow> (((h XOR push_bit 16 (ucast c)) XOR push_bit 8 (ucast b)) XOR ucast a) * murmur_m)"

definition java_reference :: "bytes \<Rightarrow> 32 word" where
  "java_reference data =
     (case java_reference_fold data (murmur_seed XOR word_of_nat (length data)) of
        (hash, rest) \<Rightarrow> java_final (java_reference_tail rest hash))"

lemma java_chunks_fold:
  "java_chunks data index hash =
     (let r = java_reference_fold (drop index data) hash
      in (length data - length (snd r), fst r)) \<and>
   snd (java_reference_fold (drop index data) hash) =
     drop (length data - length (snd (java_reference_fold (drop index data) hash))) data \<and>
   length (snd (java_reference_fold (drop index data) hash)) < 4"
  if "index \<le> length data"
  using that
proof (induction data index hash rule: java_chunks.induct)
  case (1 data index hash)
  show ?case
  proof (cases "index + 4 \<le> length data")
    case True
    then have "drop index data = data ! index # data ! (index + 1) # data ! (index + 2) #
        data ! (index + 3) # drop (index + 4) data"
      by (simp add: Cons_nth_drop_Suc [symmetric] numeral_2_eq_2 numeral_3_eq_3 numeral_Bit0)
    with 1 True show ?thesis by (simp add: java_chunks.simps [of data index] Let_def)
  next
    case False
    then have "java_reference_fold (drop index data) hash = (hash, drop index data)"
      by (cases "(drop index data, hash)" rule: java_reference_fold.cases)
        (auto dest!: arg_cong [of _ _ length])
    with False 1(2) show ?thesis by (simp add: java_chunks.simps [of data index])
  qed
qed


lemma java_tail_reference:
  "length data - index < 4 \<Longrightarrow> java_tail data index h = java_reference_tail (drop index data) h"
proof -
  assume "length data - index < 4"
  then consider "drop index data = []" | a where "drop index data = [a]"
    | a b where "drop index data = [a, b]" | a b c where "drop index data = [a, b, c]"
    using length_small [of "drop index data"] length_0_conv [of "drop index data"]
    by (simp only: length_drop) (metis One_nat_def Suc_1 less_Suc_eq less_one numeral_3_eq_3 numeral_eq_Suc pred_numeral_simps(2) semiring_norm(26,27))
  then show ?thesis
  proof cases
    case 1
    then show ?thesis by (simp add: java_tail_def java_reference_tail_def)
  next
    case (2 a)
    then have "length data - index = 1" "data ! index = a"
      using length_drop [of index data] nth_drop [of index data 0] by auto
    with 2 show ?thesis by (simp add: java_tail_def java_reference_tail_def Let_def)
  next
    case (3 a b)
    then have "length data - index = 2" "data ! index = a" "data ! (index + 1) = b"
      using length_drop [of index data] nth_drop [of index data 0] nth_drop [of index data 1] by auto
    with 3 show ?thesis by (simp add: java_tail_def java_reference_tail_def Let_def)
  next
    case (4 a b c)
    then have "length data - index = 3" "data ! index = a" "data ! (index + 1) = b" "data ! (index + 2) = c"
      using length_drop [of index data] nth_drop [of index data 0] nth_drop [of index data 1]
        nth_drop [of index data 2] by auto
    with 4 show ?thesis by (simp add: java_tail_def java_reference_tail_def Let_def)
  qed
qed

lemma java_murmur2_reference: "java_murmur2 data = java_reference data"
proof -
  let ?h = "murmur_seed XOR word_of_nat (length data)"
  let ?r = "java_reference_fold data ?h"
  have chunks: "java_chunks data 0 ?h = (length data - length (snd ?r), fst ?r)"
    and rest: "snd ?r = drop (length data - length (snd ?r)) data" and "length (snd ?r) < 4"
    using java_chunks_fold [of 0 data ?h] by (simp_all add: Let_def)
  then have "java_tail data (length data - length (snd ?r)) (fst ?r) = java_reference_tail (snd ?r) (fst ?r)"
    using java_tail_reference [of data "length data - length (snd ?r)" "fst ?r"] by simp
  with chunks show ?thesis
    by (simp add: java_murmur2_def java_reference_def case_prod_beta)
qed

section \<open>The contract of the partitioner\<close>

text \<open>
  C3. The partition of a keyed send: for a positive partition count and every key,
  \<open>Partitioner::partition\<close> returns an existing partition, the one the other producers on
  the cluster pick: the non-negative hash modulo the count, where the hash is KafkaJS's
  (ECMAScript's ToInt32 and ToUint32 on Numbers: no cast of the Rust code saturates) under
  \<open>KafkaJs\<close>, and the chunk-by-chunk Java reference under \<open>Java\<close> (the index loop skips or
  repeats no byte).
\<close>

theorem partition_matches_producers:
  assumes "0 < pr_count pr"
  shows "\<exists>p. partitioner_partition pr key = Some p \<and> 0 \<le> p \<and> p < pr_count pr \<and>
    p = sint ((case pr_scheme pr of
                 KafkaJs \<Rightarrow> word_of_int (es_murmur2 key)
               | Java \<Rightarrow> java_reference key) AND 0x7fffffff :: 32 word) mod pr_count pr"
proof -
  have "js_exact (murmur2 key)" by (simp add: murmur2_def js_final_def Let_def)
  then have "to_positive (murmur2 key) = word_of_int (es_murmur2 key) AND 0x7fffffff"
    using murmur2_es by (simp add: to_positive_def js_exact_i)
  then show ?thesis
    using rem_i32_range [OF assms and_max_nonneg] java_murmur2_reference
    by (auto simp: partitioner_partition_def partitioner_kafkajs_def partitioner_java_def
        split: partitioner_scheme.split)
qed

lemmas partitioner_eval =
  f64_mul_def round53_def bit_length_pos bit_length_0 js_f_def js_i_def js_xor_def js_rshift_def
  u32_from_le_bytes_def from_be_def js_m_def js_seed_def murmur_r_def murmur2_def
  js_tail_def [unfolded Let_def] js_final_def [unfolded Let_def] js_mix_def [unfolded Let_def]
  to_positive_def rem_i32_def partitioner_partition_def partitioner_kafkajs_def

text \<open>The key \<open>599999\<close> of the live tests, over twelve partitions.\<close>

theorem partition_matches_producers_witness:
  "partitioner_partition \<lparr>pr_count = 12, pr_scheme = KafkaJs\<rparr> [0x35, 0x39, 0x39, 0x39, 0x39, 0x39] = Some 6 \<and>
   (\<exists>p. partitioner_partition \<lparr>pr_count = 12, pr_scheme = Java\<rparr> [0x35, 0x39, 0x39, 0x39, 0x39, 0x39] = Some p \<and>
     0 \<le> p \<and> p < 12)"
proof -
  have "partitioner_partition \<lparr>pr_count = 12, pr_scheme = KafkaJs\<rparr> [0x35, 0x39, 0x39, 0x39, 0x39, 0x39] = Some 6"
    by (simp add: partitioner_eval)
  then show ?thesis
    using partition_matches_producers [of "\<lparr>pr_count = 12, pr_scheme = Java\<rparr>" "[0x35, 0x39, 0x39, 0x39, 0x39, 0x39]"]
    by auto
qed

end
