(* ===== verification/Kafka_Send.thy ===== *)
theory Kafka_Send
  imports Kafka_Registry Kafka_Partitioner Kafka_Delivery
begin

text \<open>
  The sending side of the Kafka client (\<open>src/crates/kafka/src/messaging.rs\<close>) with the numbers
  of its sends (\<open>SendId\<close> in \<open>consume.rs\<close>) and the delivery reports that return them
  (\<open>DeliveryContext\<close> in \<open>lib.rs\<close>), and the message a record is delivered as. Sends run
  concurrently; a step runs one of them between its awaits.
\<close>

section \<open>Messages\<close>

type_synonym metadata = "string \<Rightarrow> string option"

record kafka_message =
  km_topic :: string
  km_payload :: bytes
  km_metadata :: "metadata option"

definition explicit_partition :: "metadata \<Rightarrow> int option" where
  "explicit_partition metadata =
     (case metadata ''partition'' of
        None \<Rightarrow> None
      | Some v \<Rightarrow> (case parse_i32 v of None \<Rightarrow> None | Some p \<Rightarrow> if 0 \<le> p then Some p else None))"

text \<open>A record as the consumer's buffer holds it, with its headers and time.\<close>

record owned_message =
  om_record :: krecord
  om_headers :: "(string \<times> bytes option) list option"
  om_payload :: "bytes option"
  om_millis :: "int option"

fun insert_headers :: "(string \<times> bytes option) list \<Rightarrow> metadata \<Rightarrow> metadata" where
  "insert_headers [] m = m"
| "insert_headers ((k, v) # hs) m =
     insert_headers hs (m(k \<mapsto> utf8_lossy (bytes_str (case v of None \<Rightarrow> [] | Some b \<Rightarrow> b))))"

definition message_metadata :: "owned_message \<Rightarrow> metadata" where
  "message_metadata om =
     (let r = om_record om;
          m0 = (case om_headers om of None \<Rightarrow> Map.empty | Some hs \<Rightarrow> insert_headers hs Map.empty);
          m1 = (case kr_key r of None \<Rightarrow> m0 | Some key \<Rightarrow> m0(''key'' \<mapsto> utf8_lossy (bytes_str key)));
          m2 = m1(''source-partition'' \<mapsto> dec_int (kr_partition r));
          m3 = m2(''offset'' \<mapsto> dec_int (kr_offset r))
      in case om_millis om of None \<Rightarrow> m3 | Some millis \<Rightarrow> m3(''timestamp'' \<mapsto> dec_int millis))"

definition message_of :: "owned_message \<Rightarrow> string \<Rightarrow> bytes \<Rightarrow> kafka_message" where
  "message_of om topic payload =
     \<lparr>km_topic = topic, km_payload = payload, km_metadata = Some (message_metadata om)\<rparr>"

section \<open>The record a send makes\<close>

record base_record =
  br_topic :: string
  br_opaque :: nat
  br_payload :: bytes
  br_partition :: "int option"
  br_key :: "string option"

record kafka_client =
  kc_prefix :: string
  kc_partitioner :: kafka_partitioner
  kc_encode :: "(string \<Rightarrow> bytes \<Rightarrow> rejection + bytes) option"

text \<open>
  The partition a send asks for: the explicit one, else the key's. The outer \<open>None\<close> is the
  partitioner's panic on a partition count of zero.
\<close>

definition send_partition :: "kafka_partitioner \<Rightarrow> metadata \<Rightarrow> int option option" where
  "send_partition pr metadata =
     (case explicit_partition metadata of
        Some p \<Rightarrow> Some (Some p)
      | None \<Rightarrow>
          (case metadata ''key'' of
             None \<Rightarrow> Some None
           | Some key \<Rightarrow> map_option Some (partitioner_partition pr (str_bytes key))))"

text \<open>Up to the send's number: the prefixed topic, the encoded payload, the partition.\<close>

datatype send_error = Send_Refused string rejection | Send_Panic | Send_Error string string

definition send_record :: "kafka_client \<Rightarrow> string \<Rightarrow> kafka_message \<Rightarrow> send_error + base_record" where
  "send_record client topic message =
     (let topic = kc_prefix client @ topic in
      case (case kc_encode client of
              Some encode \<Rightarrow> encode topic (km_payload message) | None \<Rightarrow> Inr (km_payload message)) of
        Inl rejection \<Rightarrow> Inl (Send_Refused topic rejection)
      | Inr payload \<Rightarrow>
          (let metadata = (case km_metadata message of None \<Rightarrow> Map.empty | Some m \<Rightarrow> m) in
           case send_partition (kc_partitioner client) metadata of
             None \<Rightarrow> Inl Send_Panic
           | Some chosen \<Rightarrow>
               Inr \<lparr>br_topic = topic, br_opaque = 0, br_payload = payload, br_partition = chosen,
                    br_key = metadata ''key''\<rparr>))"

section \<open>Numbers, reports and retries\<close>

datatype producer_answer = Queued | Queue_Full | Not_Queued string

record send_state =
  ss_sends :: nat
  ss_tracker :: tracker
  ss_stored :: "stored list"
  ss_queue :: "base_record list"
  ss_sleeping :: "base_record list"
  ss_results :: "(nat \<times> string option) list"

definition send_init :: send_state where
  "send_init = \<lparr>ss_sends = 0, ss_tracker = tracker_default, ss_stored = [], ss_queue = [], ss_sleeping = [],
     ss_results = []\<rparr>"

definition note_delivered :: "nat \<Rightarrow> send_state \<Rightarrow> send_state" where
  "note_delivered i s =
     (case tracker_step (Note_Delivered i) (ss_tracker s) of
        (stored, tr) \<Rightarrow> s\<lparr>ss_tracker := tr, ss_stored := ss_stored s @ stored\<rparr>)"

text \<open>The end of a send: \<open>queued\<close> hands its number to the report, otherwise the drop reports it.\<close>

definition send_queued :: "base_record \<Rightarrow> send_state \<Rightarrow> send_state" where
  "send_queued r s = s\<lparr>ss_queue := ss_queue s @ [r], ss_results := ss_results s @ [(br_opaque r, None)]\<rparr>"

definition send_failed :: "base_record \<Rightarrow> string \<Rightarrow> send_state \<Rightarrow> send_state" where
  "send_failed r e s =
     note_delivered (br_opaque r) (s\<lparr>ss_results := ss_results s @ [(br_opaque r, Some e)]\<rparr>)"

definition queue_full_text :: string where "queue_full_text = ''QueueFull''"

text \<open>\<open>enqueue\<close> up to its sleep: a full queue hands the record back for one retry.\<close>

definition send_first :: "base_record \<Rightarrow> producer_answer \<Rightarrow> send_state \<Rightarrow> send_state" where
  "send_first r answer s =
     (case answer of
        Queued \<Rightarrow> send_queued r s
      | Queue_Full \<Rightarrow> s\<lparr>ss_sleeping := ss_sleeping s @ [r]\<rparr>
      | Not_Queued e \<Rightarrow> send_failed r e s)"

definition send_retry :: "base_record \<Rightarrow> producer_answer \<Rightarrow> send_state \<Rightarrow> send_state" where
  "send_retry r answer s =
     (case answer of
        Queued \<Rightarrow> send_queued r s
      | Queue_Full \<Rightarrow> send_failed r queue_full_text s
      | Not_Queued e \<Rightarrow> send_failed r e s)"

definition send_begin :: "kafka_client \<Rightarrow> string \<Rightarrow> kafka_message \<Rightarrow> producer_answer \<Rightarrow> send_state \<Rightarrow> send_state" where
  "send_begin client topic message answer s =
     (case send_record client topic message of
        Inl _ \<Rightarrow> s
      | Inr r \<Rightarrow> send_first (r\<lparr>br_opaque := ss_sends s\<rparr>) answer (s\<lparr>ss_sends := Suc (ss_sends s)\<rparr>))"

text \<open>
  \<open>Wake\<close> and \<open>Cancel\<close> end a sleep, the latter because the caller dropped the send;
  \<open>Report\<close> is librdkafka's report of a queued record, whatever it says.
\<close>

datatype send_event =
    Send kafka_client string kafka_message producer_answer
  | Wake nat producer_answer
  | Cancel nat
  | Report nat
  | Track tracker_event

fun take_at :: "nat \<Rightarrow> 'a list \<Rightarrow> ('a \<times> 'a list) option" where
  "take_at n [] = None"
| "take_at 0 (x # xs) = Some (x, xs)"
| "take_at (Suc n) (x # xs) = map_option (\<lambda>(y, ys). (y, x # ys)) (take_at n xs)"

fun is_report :: "tracker_event \<Rightarrow> bool" where
  "is_report (Note_Delivered _) = True"
| "is_report _ = False"

fun send_step :: "send_event \<Rightarrow> send_state \<Rightarrow> send_state option" where
  "send_step (Send client topic message answer) s = Some (send_begin client topic message answer s)"
| "send_step (Wake n answer) s =
     (case take_at n (ss_sleeping s) of None \<Rightarrow> None
      | Some (r, rest) \<Rightarrow> Some (send_retry r answer (s\<lparr>ss_sleeping := rest\<rparr>)))"
| "send_step (Cancel n) s =
     (case take_at n (ss_sleeping s) of None \<Rightarrow> None
      | Some (r, rest) \<Rightarrow> Some (note_delivered (br_opaque r) (s\<lparr>ss_sleeping := rest\<rparr>)))"
| "send_step (Report n) s =
     (case take_at n (ss_queue s) of None \<Rightarrow> None
      | Some (r, rest) \<Rightarrow> Some (note_delivered (br_opaque r) (s\<lparr>ss_queue := rest\<rparr>)))"
| "send_step (Track e) s =
     (if is_report e then None
      else case tracker_step e (ss_tracker s) of
        (stored, tr) \<Rightarrow> Some (s\<lparr>ss_tracker := tr, ss_stored := ss_stored s @ stored\<rparr>))"

fun send_run :: "send_event list \<Rightarrow> send_state \<Rightarrow> send_state option" where
  "send_run [] s = Some s"
| "send_run (e # es) s = (case send_step e s of None \<Rightarrow> None | Some s' \<Rightarrow> send_run es s')"

section \<open>Every number is accounted for\<close>

definition open_sends :: "send_state \<Rightarrow> nat list" where
  "open_sends s = map br_opaque (ss_queue s) @ map br_opaque (ss_sleeping s)"

definition send_ok :: "send_state \<Rightarrow> bool" where
  "send_ok s \<longleftrightarrow>
     tracker_ok (ss_tracker s) \<and> distinct (open_sends s) \<and>
     reported (ss_tracker s) \<inter> set (open_sends s) = {} \<and>
     reported (ss_tracker s) \<union> set (open_sends s) = {..<ss_sends s}"

lemma reported_step:
  assumes "tracker_ok tr"
  shows "reported (snd (tracker_step e tr)) =
    (case e of Note_Delivered i \<Rightarrow> insert i (reported tr) | _ \<Rightarrow> reported tr)"
  using arg_cong [OF tracker_step_refines(2) [OF assms, of e], of sp_reported]
  by (cases e) (auto simp: Let_def split: option.splits if_splits)

lemma take_at_Some: "take_at n xs = Some (x, rest) \<Longrightarrow> \<exists>a b. xs = a @ x # b \<and> rest = a @ b"
proof (induction n xs arbitrary: rest rule: take_at.induct)
  case (3 n y ys)
  then obtain r1 where "take_at n ys = Some (x, r1)" "rest = y # r1" by auto
  with 3(1) [of r1] obtain a b where "ys = a @ x # b" "r1 = a @ b" by blast
  with \<open>rest = y # r1\<close> show ?case by (intro exI [of _ "y # a"] exI [of _ b]) simp
qed (auto intro: exI [of _ "[]"])

lemma send_ok_init: "send_ok send_init"
  by (simp add: send_ok_def send_init_def open_sends_def, simp add: reported_def tracker_default_def)

lemma note_delivered_frame [simp]:
  "ss_sends (note_delivered i s) = ss_sends s" "open_sends (note_delivered i s) = open_sends s"
  "ss_tracker (note_delivered i s) = snd (tracker_step (Note_Delivered i) (ss_tracker s))"
  by (simp_all add: note_delivered_def case_prod_beta open_sends_def)

text \<open>An open number is reported, and is open no more.\<close>

lemma send_ok_close:
  assumes "tracker_ok (ss_tracker s)" and "distinct (i # open_sends s)"
    and "reported (ss_tracker s) \<inter> set (i # open_sends s) = {}"
    and "reported (ss_tracker s) \<union> set (i # open_sends s) = {..<ss_sends s}"
  shows "send_ok (note_delivered i s)"
  using assms reported_step [OF assms(1), of "Note_Delivered i"] tracker_ok_step [OF assms(1)]
  unfolding send_ok_def by (simp del: tracker_step.simps)

lemma send_ok_failed:
  assumes "tracker_ok (ss_tracker s)" and "distinct (br_opaque r # open_sends s)"
    and "reported (ss_tracker s) \<inter> set (br_opaque r # open_sends s) = {}"
    and "reported (ss_tracker s) \<union> set (br_opaque r # open_sends s) = {..<ss_sends s}"
  shows "send_ok (send_failed r e s)"
  unfolding send_failed_def by (rule send_ok_close) (use assms in \<open>simp_all add: open_sends_def\<close>)

lemma send_ok_queued:
  assumes "tracker_ok (ss_tracker s)" and "distinct (br_opaque r # open_sends s)"
    and "reported (ss_tracker s) \<inter> set (br_opaque r # open_sends s) = {}"
    and "reported (ss_tracker s) \<union> set (br_opaque r # open_sends s) = {..<ss_sends s}"
  shows "send_ok (send_queued r s)"
  using assms by (auto simp: send_ok_def send_queued_def open_sends_def)

lemma send_ok_step:
  assumes ok: "send_ok s" and step: "send_step e s = Some s'"
  shows "send_ok s'"
proof -
  have tr: "tracker_ok (ss_tracker s)" using ok by (simp add: send_ok_def)
  show ?thesis
  proof (cases e)
    case (Send client topic message answer)
    show ?thesis
    proof (cases "send_record client topic message")
      case (Inl x)
      then show ?thesis using Send step ok by (simp add: send_begin_def)
    next
      case (Inr r0)
      let ?r = "r0\<lparr>br_opaque := ss_sends s\<rparr>" and ?s = "s\<lparr>ss_sends := Suc (ss_sends s)\<rparr>"
      have o1: "open_sends ?s = open_sends s" by (simp add: open_sends_def)
      have p: "tracker_ok (ss_tracker ?s)" "distinct (br_opaque ?r # open_sends ?s)"
        "reported (ss_tracker ?s) \<inter> set (br_opaque ?r # open_sends ?s) = {}"
        "reported (ss_tracker ?s) \<union> set (br_opaque ?r # open_sends ?s) = {..<ss_sends ?s}"
        using ok tr unfolding o1 by (auto simp: send_ok_def lessThan_Suc)
      have "send_ok (?s\<lparr>ss_sleeping := ss_sleeping ?s @ [?r]\<rparr>)"
        using p by (auto simp: send_ok_def open_sends_def)
      then show ?thesis
        using Send step Inr send_ok_queued [OF p] send_ok_failed [OF p]
        by (auto simp: send_begin_def send_first_def split: producer_answer.split)
    qed
  next
    case (Wake n answer)
    then obtain r rest where t: "take_at n (ss_sleeping s) = Some (r, rest)"
      "s' = send_retry r answer (s\<lparr>ss_sleeping := rest\<rparr>)"
      using step by (auto split: option.splits)
    from take_at_Some [OF t(1)] obtain a b where ab: "ss_sleeping s = a @ r # b" "rest = a @ b" by blast
    let ?s = "s\<lparr>ss_sleeping := rest\<rparr>"
    have p: "tracker_ok (ss_tracker ?s)" "distinct (br_opaque r # open_sends ?s)"
      "reported (ss_tracker ?s) \<inter> set (br_opaque r # open_sends ?s) = {}"
      "reported (ss_tracker ?s) \<union> set (br_opaque r # open_sends ?s) = {..<ss_sends ?s}"
      using ok tr by (auto simp: send_ok_def open_sends_def ab)
    show ?thesis
      using send_ok_queued [OF p] send_ok_failed [OF p] unfolding t(2) send_retry_def
      by (simp split: producer_answer.split)
  next
    case (Cancel n)
    then obtain r rest where t: "take_at n (ss_sleeping s) = Some (r, rest)"
      "s' = note_delivered (br_opaque r) (s\<lparr>ss_sleeping := rest\<rparr>)"
      using step by (auto split: option.splits)
    from take_at_Some [OF t(1)] obtain a b where "ss_sleeping s = a @ r # b" "rest = a @ b" by blast
    then show ?thesis unfolding t(2)
      by (intro send_ok_close) (use ok tr in \<open>auto simp: send_ok_def open_sends_def\<close>)
  next
    case (Report n)
    then obtain r rest where t: "take_at n (ss_queue s) = Some (r, rest)"
      "s' = note_delivered (br_opaque r) (s\<lparr>ss_queue := rest\<rparr>)"
      using step by (auto split: option.splits)
    from take_at_Some [OF t(1)] obtain a b where "ss_queue s = a @ r # b" "rest = a @ b" by blast
    then show ?thesis unfolding t(2)
      by (intro send_ok_close) (use ok tr in \<open>auto simp: send_ok_def open_sends_def\<close>)
  next
    case (Track ev)
    then have s': "s' = s\<lparr>ss_tracker := snd (tracker_step ev (ss_tracker s)), ss_stored := ss_stored s @ fst (tracker_step ev (ss_tracker s))\<rparr>"
      and n: "\<not> is_report ev"
      using step by (auto simp: case_prod_beta split: if_split_asm)
    have "reported (snd (tracker_step ev (ss_tracker s))) = reported (ss_tracker s)"
      using reported_step [OF tr, of ev] n by (cases ev) simp_all
    then show ?thesis
      using ok tracker_ok_step [OF tr, of ev] unfolding s' by (simp add: send_ok_def open_sends_def)
  qed
qed

lemma send_ok_run: "send_ok s \<Longrightarrow> send_run es s = Some s' \<Longrightarrow> send_ok s'"
  by (induction es arbitrary: s) (auto split: option.splits dest: send_ok_step)

text \<open>
  Whatever the producer answers, whoever drops a send in its retry and however reports,
  records and rebalances interleave, every number given to a send is at any time either
  reported to the tracker or still with exactly one queued record or sleeping send; so once
  none is open the tracker's watermark is the count of sends, and no commit waits for ever.
\<close>

theorem send_numbers_accounted:
  assumes "send_run es send_init = Some s"
  shows "distinct (open_sends s) \<and> reported (ss_tracker s) \<inter> set (open_sends s) = {} \<and>
    reported (ss_tracker s) \<union> set (open_sends s) = {..<ss_sends s} \<and>
    (open_sends s = [] \<longrightarrow> tr_delivered (ss_tracker s) = ss_sends s)"
proof -
  have ok: "send_ok s" by (rule send_ok_run [OF send_ok_init assms])
  have "tr_delivered (ss_tracker s) = ss_sends s" if "open_sends s = []"
  proof -
    have r: "reported (ss_tracker s) = {..<ss_sends s}" and w: "watermark_ok (tr_delivered (ss_tracker s)) (tr_out_of_order (ss_tracker s))"
      using ok that by (auto simp: send_ok_def tracker_ok_def)
    have n: "n \<le> tr_delivered (ss_tracker s) \<longleftrightarrow> n \<le> ss_sends s" for n
      using reported_prefix [OF w, of n] r by (simp add: reported_def)
    show ?thesis using n [of "ss_sends s"] n [of "tr_delivered (ss_tracker s)"] by simp
  qed
  then show ?thesis using ok by (simp add: send_ok_def)
qed

definition demo_client :: "kafka_client" where
  "demo_client = \<lparr>kc_prefix = ''p.'', kc_partitioner = \<lparr>pr_count = 12, pr_scheme = KafkaJs\<rparr>, kc_encode = None\<rparr>"

definition demo_message :: kafka_message where
  "demo_message = \<lparr>km_topic = '''', km_payload = [1], km_metadata = None\<rparr>"

theorem send_numbers_accounted_witness:
  "\<exists>s. send_run [Send demo_client ''t'' demo_message Queue_Full, Send demo_client ''t'' demo_message Queued, Cancel 0, Report 0]
      send_init = Some s \<and> ss_sends s = 2 \<and> tr_delivered (ss_tracker s) = 2"
proof -
  obtain s where s: "send_run [Send demo_client ''t'' demo_message Queue_Full, Send demo_client ''t'' demo_message Queued, Cancel 0, Report 0]
      send_init = Some s" "ss_sends s = 2" "open_sends s = []"
    by (simp add: send_begin_def send_record_def demo_client_def demo_message_def send_partition_def
        explicit_partition_def send_init_def send_first_def send_queued_def note_delivered_def case_prod_beta open_sends_def)
  from send_numbers_accounted [OF s(1)] show ?thesis using s by auto
qed

section \<open>Where a send goes\<close>

lemma insert_headers_keys: "insert_headers hs m k = None \<longleftrightarrow> m k = None \<and> k \<notin> fst ` set hs"
proof (induction hs arbitrary: m)
  case (Cons h hs)
  obtain a b where h: "h = (a, b)" by fastforce
  show ?case unfolding h insert_headers.simps Cons.IH by auto
qed simp

text \<open>
  A send's record keeps the prefixed topic, the encoded payload and the key; it goes to the
  non-negative partition its metadata names, and otherwise to the one its key hashes to; and
  forwarding the metadata of a delivered record pins it to no partition unless a producer's
  own header named one.
\<close>

theorem send_record_exact:
  assumes "send_record client topic message = Inr r"
  shows "br_topic r = kc_prefix client @ topic \<and>
    (case kc_encode client of None \<Rightarrow> br_payload r = km_payload message
     | Some encode \<Rightarrow> encode (br_topic r) (km_payload message) = Inr (br_payload r)) \<and>
    (case km_metadata message of
       None \<Rightarrow> br_partition r = None \<and> br_key r = None
     | Some m \<Rightarrow> br_key r = m ''key'' \<and>
        (\<forall>p. 0 \<le> p \<and> p \<le> 2147483647 \<and> m ''partition'' = Some (dec_int p) \<longrightarrow> br_partition r = Some p) \<and>
        (m ''partition'' = None \<longrightarrow>
           br_partition r = (case m ''key'' of None \<Rightarrow> None
             | Some key \<Rightarrow> partitioner_partition (kc_partitioner client) (str_bytes key)))) \<and>
    (\<forall>om hs. km_metadata message = Some (message_metadata om) \<and> om_headers om = Some hs \<and> ''partition'' \<notin> fst ` set hs \<longrightarrow>
       br_partition r = (case br_key r of None \<Rightarrow> None
             | Some key \<Rightarrow> partitioner_partition (kc_partitioner client) (str_bytes key)))"
proof -
  let ?m = "case km_metadata message of None \<Rightarrow> Map.empty | Some m \<Rightarrow> m"
  have p: "send_partition (kc_partitioner client) ?m = Some (br_partition r)" and k: "br_key r = ?m ''key''"
    and t: "br_topic r = kc_prefix client @ topic"
    and e: "(case kc_encode client of Some encode \<Rightarrow> encode (br_topic r) (km_payload message) | None \<Rightarrow> Inr (km_payload message)) = Inr (br_payload r)"
    using assms unfolding send_record_def Let_def by (auto split: sum.split_asm option.split_asm)
  have explicit: "br_partition r = Some i" if "0 \<le> i" "i \<le> 2147483647" "?m ''partition'' = Some (dec_int i)" for i
    using p that parse_i32_dec [of i] by (simp add: send_partition_def explicit_partition_def)
  have keyed: "br_partition r = (case ?m ''key'' of None \<Rightarrow> None
      | Some key \<Rightarrow> partitioner_partition (kc_partitioner client) (str_bytes key))" if "?m ''partition'' = None"
    using p that by (auto simp: send_partition_def explicit_partition_def split: option.splits)
  have forwarded: "message_metadata om ''partition'' = None" if "om_headers om = Some hs" "''partition'' \<notin> fst ` set hs" for om hs
    using that insert_headers_keys [of hs Map.empty "''partition''"]
    by (simp add: message_metadata_def Let_def split: option.split)
  have payload: "case kc_encode client of None \<Rightarrow> br_payload r = km_payload message
      | Some encode \<Rightarrow> encode (br_topic r) (km_payload message) = Inr (br_payload r)"
    using e by (auto split: option.splits)
  have meta: "case km_metadata message of
       None \<Rightarrow> br_partition r = None \<and> br_key r = None
     | Some m \<Rightarrow> br_key r = m ''key'' \<and>
        (\<forall>p. 0 \<le> p \<and> p \<le> 2147483647 \<and> m ''partition'' = Some (dec_int p) \<longrightarrow> br_partition r = Some p) \<and>
        (m ''partition'' = None \<longrightarrow>
           br_partition r = (case m ''key'' of None \<Rightarrow> None
             | Some key \<Rightarrow> partitioner_partition (kc_partitioner client) (str_bytes key)))"
  proof (cases "km_metadata message")
    case None
    then show ?thesis using k keyed by simp
  next
    case (Some m)
    then show ?thesis using k keyed explicit by (simp only: option.case) blast
  qed
  have onward: "br_partition r = (case br_key r of None \<Rightarrow> None
             | Some key \<Rightarrow> partitioner_partition (kc_partitioner client) (str_bytes key))"
    if "km_metadata message = Some (message_metadata om)" "om_headers om = Some hs" "''partition'' \<notin> fst ` set hs" for om hs
    using keyed forwarded [OF that(2,3)] k that(1) by simp
  have "\<forall>om hs. km_metadata message = Some (message_metadata om) \<and> om_headers om = Some hs \<and> ''partition'' \<notin> fst ` set hs \<longrightarrow>
       br_partition r = (case br_key r of None \<Rightarrow> None
             | Some key \<Rightarrow> partitioner_partition (kc_partitioner client) (str_bytes key))"
    using onward by blast
  with t payload meta show ?thesis by (intro conjI)
qed

theorem send_record_exact_witness:
  "\<exists>r. send_record demo_client ''t'' (demo_message\<lparr>km_metadata := Some [''partition'' \<mapsto> dec_int 3]\<rparr>) = Inr r \<and>
     br_topic r = ''p.t'' \<and> br_partition r = Some 3"
proof -
  have "\<exists>r. send_record demo_client ''t'' (demo_message\<lparr>km_metadata := Some [''partition'' \<mapsto> dec_int 3]\<rparr>) = Inr r"
    by (simp add: send_record_def demo_client_def demo_message_def send_partition_def explicit_partition_def parse_i32_dec)
  then obtain r where r: "send_record demo_client ''t'' (demo_message\<lparr>km_metadata := Some [''partition'' \<mapsto> dec_int 3]\<rparr>) = Inr r"
    by blast
  from send_record_exact [OF r] have "br_topic r = ''p.t''" "br_partition r = Some 3"
    by (simp_all add: demo_client_def)
  then show ?thesis using r by blast
qed

end
