(* ===== verification/Kafka_Client.thy ===== *)
theory Kafka_Client
  imports Kafka_Send
begin

text \<open>
  Connecting the Kafka client (\<open>src/crates/kafka/src/lib.rs\<close>): the options, what is refused, the
  librdkafka settings of the producer and the consumer and the topics subscribed to, and the
  guard of \<open>Endpoint::consume\<close>. Creating the librdkafka clients is left to the environment.
\<close>

record consumer_options =
  co_topics :: "string list"
  co_group_id :: string

record registry_options =
  ro_url :: string
  ro_api_key :: "string option"
  ro_api_secret :: "string option"

record kafka_options =
  ko_client_id :: string
  ko_brokers :: string
  ko_username :: "string option"
  ko_password :: "string option"
  ko_partition_count :: int
  ko_partitioner :: partitioner_scheme
  ko_commit_interval_ms :: nat
  ko_topic_prefix :: "string option"
  ko_consumer :: "consumer_options option"
  ko_registry :: "registry_options option"

text \<open>The \<open>with =\<close> hooks of the environment.\<close>

definition split_topics :: "string \<Rightarrow> string list" where
  "split_topics s = filter (\<lambda>t. t \<noteq> []) (map str_trim (str_split CHR '','' s))"

definition parse_partitioner :: "string \<Rightarrow> string + partitioner_scheme" where
  "parse_partitioner v =
     (if v = ''kafkajs'' then Inr KafkaJs
      else if v = ''java'' then Inr Java
      else Inl (''unknown KAFKA_PARTITIONER `'' @ v @ ''`''))"

type_synonym kafka_config = "string \<Rightarrow> string option"

text \<open>\<open>ClientConfig::from\<close>, with the random number of the client's id.\<close>

definition client_config :: "kafka_options \<Rightarrow> nat \<Rightarrow> kafka_config" where
  "client_config o1 n =
     (let c = [''client.id'' \<mapsto> ko_client_id o1 @ ''-'' @ dec_nat n, ''bootstrap.servers'' \<mapsto> ko_brokers o1] in
      case (ko_username o1, ko_password o1) of
        (Some user, Some pass) \<Rightarrow>
          c(''security.protocol'' \<mapsto> ''SASL_SSL'', ''sasl.mechanisms'' \<mapsto> ''PLAIN'',
            ''sasl.username'' \<mapsto> user, ''sasl.password'' \<mapsto> pass)
      | _ \<Rightarrow> c)"

definition producer_config :: "kafka_config \<Rightarrow> kafka_config" where
  "producer_config c = c(''message.timeout.ms'' \<mapsto> ''120000'')"

definition consumer_config :: "kafka_options \<Rightarrow> consumer_options \<Rightarrow> kafka_config \<Rightarrow> kafka_config" where
  "consumer_config o1 co c =
     c(''group.id'' \<mapsto> co_group_id co, ''enable.auto.offset.store'' \<mapsto> ''false'',
       ''enable.auto.commit'' \<mapsto> ''true'',
       ''auto.commit.interval.ms'' \<mapsto> dec_nat (ko_commit_interval_ms o1),
       ''max.partition.fetch.bytes'' \<mapsto> ''65536'')"

text \<open>\<open>Registry::new\<close>'s check, and the credentials it hands its client.\<close>

definition registry_credentials :: "registry_options \<Rightarrow> string + (string \<times> string option) option" where
  "registry_credentials ro =
     (if ro_api_key ro = None \<and> ro_api_secret ro \<noteq> None
      then Inl ''KAFKA_REGISTRY_API_SECRET requires KAFKA_REGISTRY_API_KEY''
      else Inr (map_option (\<lambda>key. (key, ro_api_secret ro)) (ro_api_key ro)))"

record connected =
  cn_producer :: kafka_config
  cn_prefix :: string
  cn_partitioner :: kafka_partitioner
  cn_registry :: "(string \<times> string option) option option"
  cn_consumer :: "(kafka_config \<times> string list) option"

definition connect_consumer :: "kafka_options \<Rightarrow> string \<Rightarrow> kafka_config \<Rightarrow> string + (kafka_config \<times> string list) option" where
  "connect_consumer o1 prefix c =
     (case ko_consumer o1 of
        None \<Rightarrow> Inr None
      | Some co \<Rightarrow>
          if co_topics co \<noteq> [] \<and> list_all (\<lambda>t. str_trim t \<noteq> []) (co_topics co)
          then Inr (Some (consumer_config o1 co c, map (\<lambda>t. prefix @ t) (co_topics co)))
          else Inl ''KAFKA_TOPICS must contain at least one non-empty topic'')"

definition kafka_connect :: "kafka_options \<Rightarrow> nat \<Rightarrow> string + connected" where
  "kafka_connect o1 n =
     (if (ko_username o1 \<noteq> None) \<noteq> (ko_password o1 \<noteq> None)
      then Inl ''KAFKA_USERNAME and KAFKA_PASSWORD must be set together''
      else
        (let c = client_config o1 n; prefix = (case ko_topic_prefix o1 of None \<Rightarrow> [] | Some p \<Rightarrow> p) in
         case (case ko_registry o1 of None \<Rightarrow> Inr None | Some ro \<Rightarrow> res_map Some (registry_credentials ro)) of
           Inl e \<Rightarrow> Inl e
         | Inr registry \<Rightarrow>
             res_map (\<lambda>consumer.
               \<lparr>cn_producer = producer_config c, cn_prefix = prefix,
                cn_partitioner = \<lparr>pr_count = ko_partition_count o1, pr_scheme = ko_partitioner o1\<rparr>,
                cn_registry = registry, cn_consumer = consumer\<rparr>)
               (connect_consumer o1 prefix c)))"

text \<open>\<open>consume\<close>: the first call takes the flag, and there must be a consumer.\<close>

definition consume_guard :: "connected \<Rightarrow> bool \<Rightarrow> (string + unit) \<times> bool" where
  "consume_guard cn consuming =
     (if cn_consumer cn = None then (Inl ''no topics to consume: the client has no consumer'', consuming)
      else if consuming then (Inl ''already consuming'', True)
      else (Inr (), True))"

text \<open>
  A client that connects never lets librdkafka store an offset by itself, since commits
  are the tracker's, subscribes to exactly the configured topics under the prefix, none of
  them blank, authenticates exactly when both credentials are set, and consumes at most once.
\<close>

theorem connected_client_exact:
  assumes "kafka_connect o1 n = Inr cn"
  shows "(ko_username o1 = None \<longleftrightarrow> ko_password o1 = None) \<and>
    (cn_producer cn ''sasl.username'' = ko_username o1 \<and> cn_producer cn ''sasl.password'' = ko_password o1) \<and>
    (case cn_consumer cn of
       None \<Rightarrow> ko_consumer o1 = None
     | Some (c, topics) \<Rightarrow>
         c ''enable.auto.offset.store'' = Some ''false'' \<and> c ''sasl.username'' = ko_username o1 \<and> topics \<noteq> [] \<and>
         (case ko_consumer o1 of None \<Rightarrow> False
          | Some co \<Rightarrow> topics = map (\<lambda>t. cn_prefix cn @ t) (co_topics co) \<and> (\<forall>t\<in>set (co_topics co). str_trim t \<noteq> []))) \<and>
    (let (r1, f1) = consume_guard cn flag; (r2, f2) = consume_guard cn f1 in r1 \<noteq> Inr () \<or> r2 \<noteq> Inr ())"
proof -
  let ?c = "client_config o1 n"
  have both: "ko_username o1 = None \<longleftrightarrow> ko_password o1 = None"
    using assms by (auto simp: kafka_connect_def split: if_split_asm)
  obtain consumer where k: "connect_consumer o1 (cn_prefix cn) ?c = Inr consumer"
    and cn: "cn_consumer cn = consumer" "cn_producer cn = producer_config ?c"
    using assms by (auto simp: kafka_connect_def Let_def res_map_Inr_iff split: if_split_asm sum.split_asm)
  have sasl: "?c ''sasl.username'' = ko_username o1 \<and> ?c ''sasl.password'' = ko_password o1"
    using both by (cases "ko_username o1"; cases "ko_password o1") (simp_all add: client_config_def Let_def)
  then have p: "cn_producer cn ''sasl.username'' = ko_username o1 \<and> cn_producer cn ''sasl.password'' = ko_password o1"
    by (simp add: cn producer_config_def)
  have c: "case cn_consumer cn of
       None \<Rightarrow> ko_consumer o1 = None
     | Some (c, topics) \<Rightarrow>
         c ''enable.auto.offset.store'' = Some ''false'' \<and> c ''sasl.username'' = ko_username o1 \<and> topics \<noteq> [] \<and>
         (case ko_consumer o1 of None \<Rightarrow> False
          | Some co \<Rightarrow> topics = map (\<lambda>t. cn_prefix cn @ t) (co_topics co) \<and> (\<forall>t\<in>set (co_topics co). str_trim t \<noteq> []))"
    using k sasl unfolding cn connect_consumer_def consumer_config_def
    by (cases "ko_consumer o1") (auto simp: list_all_iff split: if_split_asm)
  have g: "let (r1, f1) = consume_guard cn flag; (r2, f2) = consume_guard cn f1 in r1 \<noteq> Inr () \<or> r2 \<noteq> Inr ()"
    by (simp add: consume_guard_def Let_def)
  from both p c g show ?thesis by blast
qed

definition demo_options :: kafka_options where
  "demo_options =
     \<lparr>ko_client_id = ''omnia'', ko_brokers = ''b:9092'', ko_username = None, ko_password = None,
      ko_partition_count = 12, ko_partitioner = KafkaJs, ko_commit_interval_ms = 200, ko_topic_prefix = Some ''p.'',
      ko_consumer = Some \<lparr>co_topics = split_topics ''a, ,b'', co_group_id = ''g''\<rparr>, ko_registry = None\<rparr>"

theorem connected_client_exact_witness:
  "\<exists>cn c. kafka_connect demo_options 1234 = Inr cn \<and> cn_consumer cn = Some (c, [''p.a'', ''p.b'']) \<and>
     c ''enable.auto.offset.store'' = Some ''false''"
proof -
  have topics: "split_topics ''a, ,b'' = [''a'', ''b'']" and trims: "str_trim ''a'' = ''a''" "str_trim ''b'' = ''b''"
    by code_simp+
  obtain cn where cn: "kafka_connect demo_options 1234 = Inr cn" "cn_prefix cn = ''p.''" "cn_consumer cn \<noteq> None"
    by (simp add: kafka_connect_def demo_options_def Let_def connect_consumer_def topics trims)
  obtain c topics where con: "cn_consumer cn = Some (c, topics)" using cn(3) by auto
  have "c ''enable.auto.offset.store'' = Some ''false'' \<and> topics = [''p.a'', ''p.b'']"
    using connected_client_exact [OF cn(1), of False] con cn(2) by (simp add: demo_options_def topics)
  then show ?thesis using cn(1) con by blast
qed

end
