(* ===== verification/Rust_Json.thy ===== *)
theory Rust_Json
  imports Rust_BTree Rust_Text "HOL-Library.List_Lexorder" "HOL-Library.Char_ord"
begin

text \<open>
  The values of \<open>serde_json\<close> as the backends take them apart: numbers as the three forms its
  \<open>Number\<close> has, objects as its ordered \<open>Map\<close>. A double is its 64 bits. Reading and printing
  text is the library's, and a parameter where it is used.
\<close>

type_synonym f64 = "64 word"

datatype json_num = Pos_Int nat | Neg_Int int | Float f64

datatype json =
    JNull
  | JBool bool
  | JNum json_num
  | JStr string
  | JArr "json list"
  | JObj "(string \<times> json) list"

type_synonym json_map = "(string, json) btree"

text \<open>What a \<open>Number\<close> can hold: a \<open>u64\<close>, a negative \<open>i64\<close>, a finite double.\<close>

definition f64_finite :: "f64 \<Rightarrow> bool" where
  "f64_finite f \<longleftrightarrow> (unat f div 2 ^ 52) mod 2048 \<noteq> 2047"

fun num_ok :: "json_num \<Rightarrow> bool" where
  "num_ok (Pos_Int n) \<longleftrightarrow> n < 18446744073709551616"
| "num_ok (Neg_Int i) \<longleftrightarrow> - 9223372036854775808 \<le> i \<and> i < 0"
| "num_ok (Float f) \<longleftrightarrow> f64_finite f"

fun json_ok :: "json \<Rightarrow> bool" where
  "json_ok (JNum n) \<longleftrightarrow> num_ok n"
| "json_ok (JArr vs) \<longleftrightarrow> list_all json_ok vs"
| "json_ok (JObj kvs) \<longleftrightarrow> bt_ok kvs \<and> list_all (\<lambda>(k, v). json_ok v) kvs"
| "json_ok _ \<longleftrightarrow> True"

definition i64_min :: int where "i64_min = - 9223372036854775808"
definition i64_max :: int where "i64_max = 9223372036854775807"

fun num_i64 :: "json_num \<Rightarrow> int option" where
  "num_i64 (Pos_Int n) = (if int n \<le> i64_max then Some (int n) else None)"
| "num_i64 (Neg_Int i) = Some i"
| "num_i64 (Float _) = None"

fun num_u64 :: "json_num \<Rightarrow> nat option" where
  "num_u64 (Pos_Int n) = Some n"
| "num_u64 _ = None"

fun num_is_f64 :: "json_num \<Rightarrow> bool" where
  "num_is_f64 (Float _) = True"
| "num_is_f64 _ = False"

text \<open>\<open>Number::from(i64)\<close> and \<open>Number::from_f64\<close>.\<close>

definition num_of_i64 :: "int \<Rightarrow> json_num" where
  "num_of_i64 i = (if 0 \<le> i then Pos_Int (nat i) else Neg_Int i)"

definition num_of_f64 :: "f64 \<Rightarrow> json_num option" where
  "num_of_f64 f = (if f64_finite f then Some (Float f) else None)"

definition as_str :: "json \<Rightarrow> string option" where
  "as_str v = (case v of JStr s \<Rightarrow> Some s | _ \<Rightarrow> None)"

definition as_object :: "json \<Rightarrow> json_map option" where
  "as_object v = (case v of JObj m \<Rightarrow> Some m | _ \<Rightarrow> None)"

definition as_array :: "json \<Rightarrow> json list option" where
  "as_array v = (case v of JArr vs \<Rightarrow> Some vs | _ \<Rightarrow> None)"

text \<open>\<open>Value::get\<close> with a key.\<close>

definition json_get :: "json \<Rightarrow> string \<Rightarrow> json option" where
  "json_get v k = (case v of JObj m \<Rightarrow> bt_get m k | _ \<Rightarrow> None)"

text \<open>Collecting entries into a \<open>Map\<close>: the last of a key stays.\<close>

definition json_collect :: "(string \<times> json) list \<Rightarrow> json_map" where
  "json_collect kvs = fold (\<lambda>(k, v) m. bt_insert k v m) kvs []"

lemma num_i64_of [simp]: "num_ok n \<Longrightarrow> num_i64 n = Some i \<Longrightarrow> num_of_i64 i = n"
  by (cases n) (auto simp: num_of_i64_def split: if_splits)

lemma collect_fold:
  "bt_ok m \<Longrightarrow> bt_ok (fold (\<lambda>(k, v) m. bt_insert k v m) kvs m) \<and>
     map_of (fold (\<lambda>(k, v) m. bt_insert k v m) kvs m) = map_of m ++ map_of (rev kvs)"
proof (induction kvs arbitrary: m)
  case (Cons e kvs)
  obtain k v where e: "e = (k, v)" by fastforce
  show ?case using Cons.IH [OF bt_ok_insert [OF Cons.prems, of k v]]
    by (simp add: e bt_get_insert map_add_def fun_eq_iff split: option.split)
qed simp

lemma json_collect_ok: "bt_ok (json_collect kvs)"
  and json_collect_get: "map_of (json_collect kvs) = map_of (rev kvs)"
  using collect_fold [of "[]" kvs] by (simp_all add: json_collect_def)

text \<open>Two ordered maps with the same entries are the same.\<close>

lemma bt_ext:
  fixes a b :: "('k::linorder, 'v) btree"
  assumes "bt_ok a" and "bt_ok b" and "map_of a = map_of b"
  shows "a = b"
proof -
  have a: "sorted (map fst a)" "distinct (map fst a)" and b: "sorted (map fst b)" "distinct (map fst b)"
    using assms(1,2) by (simp_all add: bt_ok_def strict_sorted_iff)
  have s: "set a = set b"
  proof (rule set_eqI)
    fix e
    show "e \<in> set a \<longleftrightarrow> e \<in> set b"
      using map_of_eq_Some_iff [OF a(2), of "fst e" "snd e"] map_of_eq_Some_iff [OF b(2), of "fst e" "snd e"] assms(3)
      by simp
  qed
  then have "inj_on fst (set a \<union> set b)" using a(2) by (simp add: distinct_map)
  from map_sorted_distinct_set_unique [OF this a b s] show ?thesis .
qed

end
