(* ===== verification/Azure_Document.thy ===== *)
theory Azure_Document
  imports Rust_Json
begin

text \<open>
  Documents as entities of Azure Table storage
  (\<open>src/crates/azure-table/src/store/document.rs\<close>) and the continuation tokens of its queries
  (\<open>store/query.rs\<close>). Reading and printing JSON text, and the conversions of doubles, are the
  functions of \<open>json_env\<close>.
\<close>

record json_env =
  je_from_slice :: "bytes \<Rightarrow> string + json"
  je_to_vec :: "json \<Rightarrow> bytes"
  je_to_string :: "json \<Rightarrow> string"
  je_int_f64 :: "int \<Rightarrow> f64"
  je_parse_f64 :: "string \<Rightarrow> f64 option"

record document =
  dc_id :: string
  dc_data :: bytes

definition SYSTEM_KEYS :: "string list" where
  "SYSTEM_KEYS = [''PartitionKey'', ''RowKey'', ''Timestamp'']"

definition ID_SEP :: char where "ID_SEP = CHR 0x00"

definition encode_id :: "string \<Rightarrow> string \<Rightarrow> string" where
  "encode_id pk rk = pk @ ID_SEP # rk"

definition decode_id :: "string \<Rightarrow> string + string \<times> string" where
  "decode_id i =
     (case split_once ID_SEP i of
        None \<Rightarrow> Inl ''invalid document id: expected PartitionKey and RowKey''
      | Some (pk, rk) \<Rightarrow> Inr (pk, rk))"

definition is_metadata_key :: "string \<Rightarrow> bool" where
  "is_metadata_key key \<longleftrightarrow> key \<in> set SYSTEM_KEYS \<or> starts_with key ''odata.'' \<or> ends_with key ''@odata.type''"

definition type_key :: "string \<Rightarrow> string" where
  "type_key key = key @ ''@odata.type''"

definition annotated :: "string \<Rightarrow> json \<Rightarrow> string \<Rightarrow> (string \<times> json) list" where
  "annotated key v edm_type = [(key, v), (type_key key, JStr edm_type)]"

definition typed_property :: "json_env \<Rightarrow> string \<Rightarrow> json \<Rightarrow> string + (string \<times> json) list" where
  "typed_property env key v =
     (case v of
        JNull \<Rightarrow> Inr []
      | JBool _ \<Rightarrow> Inr [(key, v)]
      | JStr _ \<Rightarrow> Inr [(key, v)]
      | JNum n \<Rightarrow>
          (if num_is_f64 n \<and> num_i64 n = None then Inr (annotated key v ''Edm.Double'')
           else case num_i64 n of
             Some i \<Rightarrow>
               if - 2147483648 \<le> i \<and> i \<le> 2147483647 then Inr [(key, v)]
               else Inr (annotated key (JStr (dec_int i)) ''Edm.Int64'')
           | None \<Rightarrow>
               (case num_u64 n of
                  Some u \<Rightarrow>
                    if int u \<le> i64_max then Inr (annotated key (JStr (dec_int (int u))) ''Edm.Int64'')
                    else Inl (''numeric value for key `'' @ key @ ''` exceeds Azure Table integer range'')
                | None \<Rightarrow> Inr [(key, v)]))
      | _ \<Rightarrow> Inr [(key, JStr (je_to_string env v))])"

definition flatten :: "json_env \<Rightarrow> document \<Rightarrow> string + json" where
  "flatten env doc =
     res_bind (decode_id (dc_id doc)) (\<lambda>(pk, rk).
     case je_from_slice env (dc_data doc) of
       Inl e \<Rightarrow> Inl ''document body is not valid JSON''
     | Inr body \<Rightarrow>
         (case as_object body of
            None \<Rightarrow> Inl ''document body must be a JSON object''
          | Some src \<Rightarrow>
              res_map (\<lambda>properties.
                JObj (json_collect ([(''PartitionKey'', JStr pk), (''RowKey'', JStr rk)] @ concat properties)))
                (res_traverse (\<lambda>(key, v). typed_property env key v)
                   (filter (\<lambda>(key, _). \<not> is_metadata_key key) src))))"

definition json_f64 :: "f64 \<Rightarrow> json option" where
  "json_f64 f = map_option JNum (num_of_f64 f)"

definition num_as_f64 :: "json_env \<Rightarrow> json_num \<Rightarrow> f64" where
  "num_as_f64 env n = (case n of Pos_Int k \<Rightarrow> je_int_f64 env (int k) | Neg_Int i \<Rightarrow> je_int_f64 env i | Float f \<Rightarrow> f)"

definition parse_i64 :: "string \<Rightarrow> int option" where
  "parse_i64 = parse_int_in i64_min i64_max"

definition restore_typed_value :: "json_env \<Rightarrow> json_map \<Rightarrow> string \<Rightarrow> json \<Rightarrow> json" where
  "restore_typed_value env obj key v =
     (case (case bt_get obj (type_key key) of None \<Rightarrow> None | Some t \<Rightarrow> as_str t) of
        None \<Rightarrow> v
      | Some edm_type \<Rightarrow>
          if edm_type = ''Edm.Int64'' then
            (case as_str v of
               None \<Rightarrow> v
             | Some s \<Rightarrow> (case parse_i64 s of None \<Rightarrow> v | Some n \<Rightarrow> JNum (num_of_i64 n)))
          else if edm_type = ''Edm.Double'' then
            (case v of
               JNum n \<Rightarrow> (case json_f64 (num_as_f64 env n) of None \<Rightarrow> v | Some w \<Rightarrow> w)
             | JStr s \<Rightarrow>
                 (case je_parse_f64 env s of None \<Rightarrow> v
                  | Some f \<Rightarrow> (case json_f64 f of None \<Rightarrow> v | Some w \<Rightarrow> w))
             | _ \<Rightarrow> v)
          else v)"

text \<open>The entries the body keeps, in the order of the object.\<close>

definition restored_entries :: "json_env \<Rightarrow> json_map \<Rightarrow> (string \<times> json) list" where
  "restored_entries env obj =
     map (\<lambda>(key, v). (key, restore_typed_value env obj key v)) (filter (\<lambda>(key, _). \<not> is_metadata_key key) obj)"

definition get_str :: "json_map \<Rightarrow> string \<Rightarrow> string option" where
  "get_str obj key = (case bt_get obj key of None \<Rightarrow> None | Some v \<Rightarrow> as_str v)"

definition unflatten :: "json_env \<Rightarrow> json \<Rightarrow> string + document" where
  "unflatten env entity =
     (case as_object entity of
        None \<Rightarrow> Inl ''entity must be a JSON object''
      | Some obj \<Rightarrow>
          (case get_str obj ''PartitionKey'' of
             None \<Rightarrow> Inl ''entity missing PartitionKey''
           | Some pk \<Rightarrow>
               (case get_str obj ''RowKey'' of
                  None \<Rightarrow> Inl ''entity missing RowKey''
                | Some rk \<Rightarrow>
                    Inr \<lparr>dc_id = encode_id pk rk,
                         dc_data = je_to_vec env (JObj (json_collect (restored_entries env obj)))\<rparr>)))"

section \<open>Continuation tokens\<close>

definition TOKEN_SEP :: char where "TOKEN_SEP = CHR 0x00"

definition encode_continuation :: "string option \<Rightarrow> string option \<Rightarrow> string option" where
  "encode_continuation next_partition_key next_row_key =
     (case (next_partition_key, next_row_key) of
        (Some pk, Some rk) \<Rightarrow> Some (pk @ TOKEN_SEP # rk)
      | (Some pk, None) \<Rightarrow> Some pk
      | _ \<Rightarrow> None)"

definition decode_continuation :: "string \<Rightarrow> string \<times> string option" where
  "decode_continuation token =
     (case split_once TOKEN_SEP token of Some (pk, rk) \<Rightarrow> (pk, Some rk) | None \<Rightarrow> (token, None))"

lemma continuation_round_trip:
  assumes "TOKEN_SEP \<notin> set pk"
  shows "encode_continuation (Some pk) rk = Some token \<Longrightarrow> decode_continuation token = (pk, rk)"
proof (cases rk)
  case None
  assume "encode_continuation (Some pk) rk = Some token"
  with None assms show ?thesis by (simp add: encode_continuation_def decode_continuation_def split_once_None [THEN iffD2])
next
  case (Some r)
  assume "encode_continuation (Some pk) rk = Some token"
  with Some have "token = pk @ TOKEN_SEP # r" by (simp add: encode_continuation_def)
  with Some assms have "split_once TOKEN_SEP token = Some (pk, r)" by (simp add: split_once_Some)
  with Some show ?thesis by (simp add: decode_continuation_def)
qed

section \<open>A document and back\<close>

lemma encode_decode_id: "decode_id i = Inr (pk, rk) \<Longrightarrow> encode_id pk rk = i"
  by (auto simp: decode_id_def encode_id_def split_once_Some split: option.splits prod.splits)

lemma type_key_metadata [simp]: "is_metadata_key (type_key key)"
  by (auto simp: is_metadata_key_def type_key_def ends_with_iff)

lemma type_key_inj [simp]: "type_key a = type_key b \<longleftrightarrow> a = b"
  by (simp add: type_key_def)

lemma type_key_other [simp]: "type_key key \<noteq> key" "key \<noteq> type_key key"
  by (simp_all add: type_key_def)

lemma system_metadata [simp]: "is_metadata_key ''PartitionKey''" "is_metadata_key ''RowKey''"
  by (simp_all add: is_metadata_key_def SYSTEM_KEYS_def)

lemma type_key_not_system [simp]: "type_key key \<noteq> ''PartitionKey''" "type_key key \<noteq> ''RowKey''"
  "''PartitionKey'' \<noteq> type_key key" "''RowKey'' \<noteq> type_key key"
proof -
  have l: "last (type_key key) = CHR ''e''" by (simp add: type_key_def)
  show "type_key key \<noteq> ''PartitionKey''" using l by (rule contrapos_pn) simp
  then show "''PartitionKey'' \<noteq> type_key key" by (rule not_sym)
  show "type_key key \<noteq> ''RowKey''" using l by (rule contrapos_pn) simp
  then show "''RowKey'' \<noteq> type_key key" by (rule not_sym)
qed

text \<open>What storing makes of a value: nothing of a null, a string of an array or an object.\<close>

definition stored_value :: "json_env \<Rightarrow> json \<Rightarrow> json option" where
  "stored_value env v =
     (case v of JNull \<Rightarrow> None | JArr _ \<Rightarrow> Some (JStr (je_to_string env v))
      | JObj _ \<Rightarrow> Some (JStr (je_to_string env v)) | _ \<Rightarrow> Some v)"

definition stored_body :: "json_env \<Rightarrow> json_map \<Rightarrow> json_map" where
  "stored_body env src =
     concat (map (\<lambda>(key, v). if is_metadata_key key then []
                   else case stored_value env v of None \<Rightarrow> [] | Some w \<Rightarrow> [(key, w)]) src)"

text \<open>A property and its annotation are read back as the value that was stored.\<close>

definition restores :: "json_env \<Rightarrow> string \<Rightarrow> (string \<times> json) list \<Rightarrow> json \<Rightarrow> bool" where
  "restores env key ps w \<longleftrightarrow>
     ps = [(key, w)] \<or>
     (\<exists>raw t. ps = annotated key raw t \<and>
        (\<forall>obj. bt_get obj (type_key key) = Some (JStr t) \<longrightarrow> restore_typed_value env obj key raw = w))"

lemma restore_double:
  "bt_get obj (type_key key) = Some (JStr ''Edm.Double'') \<Longrightarrow> f64_finite f \<Longrightarrow>
   restore_typed_value env obj key (JNum (Float f)) = JNum (Float f)"
  by (simp add: restore_typed_value_def as_str_def json_f64_def num_of_f64_def num_as_f64_def)

lemma restore_int64:
  "bt_get obj (type_key key) = Some (JStr ''Edm.Int64'') \<Longrightarrow> i64_min \<le> i \<Longrightarrow> i \<le> i64_max \<Longrightarrow>
   restore_typed_value env obj key (JStr (dec_int i)) = JNum (num_of_i64 i)"
  by (simp add: restore_typed_value_def as_str_def parse_i64_def parse_int_in_def parse_signed_dec_int)

lemma restores_annotated:
  assumes "\<And>obj. bt_get obj (type_key key) = Some (JStr t) \<Longrightarrow> restore_typed_value env obj key raw = w"
  shows "restores env key (annotated key raw t) w"
  unfolding restores_def using assms by blast

lemma restores_double:
  assumes "f64_finite f"
  shows "restores env key (annotated key (JNum (Float f)) ''Edm.Double'') (JNum (Float f))"
  by (rule restores_annotated) (rule restore_double [OF _ assms])

lemma restores_int64:
  assumes "i64_min \<le> i" and "i \<le> i64_max"
  shows "restores env key (annotated key (JStr (dec_int i)) ''Edm.Int64'') (JNum (num_of_i64 i))"
  by (rule restores_annotated) (rule restore_int64 [OF _ assms])

lemma num_i64_range: "num_ok n \<Longrightarrow> num_i64 n = Some i \<Longrightarrow> i64_min \<le> i \<and> i \<le> i64_max"
  by (cases n) (auto simp: i64_min_def i64_max_def split: if_splits)

lemma typed_property_shape:
  assumes "typed_property env key v = Inr ps" and "json_ok v"
  shows "case stored_value env v of None \<Rightarrow> ps = [] | Some w \<Rightarrow> restores env key ps w"
proof (cases v)
  case (JNum n)
  have w: "stored_value env v = Some (JNum n)" by (simp add: JNum stored_value_def)
  have ok: "num_ok n" using assms(2) JNum by simp
  have "restores env key ps (JNum n)"
  proof (cases "num_i64 n")
    case None
    show ?thesis
    proof (cases n)
      case (Float f)
      then have "ps = annotated key (JNum (Float f)) ''Edm.Double''" using assms(1) JNum by (simp add: typed_property_def)
      then show ?thesis using restores_double [of f] ok Float by simp
    next
      case (Pos_Int u)
      then have "\<not> int u \<le> i64_max" using None by (simp split: if_splits)
      then show ?thesis using assms(1) JNum Pos_Int by (simp add: typed_property_def)
    next
      case (Neg_Int i)
      then show ?thesis using None by simp
    qed
  next
    case (Some i)
    then have d: "\<not> num_is_f64 n" by (cases n) simp_all
    show ?thesis
    proof (cases "- 2147483648 \<le> i \<and> i \<le> 2147483647")
      case True
      then have "ps = [(key, v)]" using assms(1) JNum Some d by (simp add: typed_property_def)
      then show ?thesis by (simp add: restores_def JNum)
    next
      case False
      then have "ps = annotated key (JStr (dec_int i)) ''Edm.Int64''" using assms(1) JNum Some d by (auto simp: typed_property_def)
      then show ?thesis using restores_int64 [of i] num_i64_range [OF ok Some] num_i64_of [OF ok Some] by simp
    qed
  qed
  then show ?thesis by (simp add: w)
qed (use assms(1) in \<open>simp_all add: typed_property_def stored_value_def restores_def\<close>)

lemma typed_property_keys:
  assumes "typed_property env key v = Inr ps"
  shows "set (map fst ps) \<subseteq> {key, type_key key}" and "\<not> is_metadata_key key \<Longrightarrow> distinct (map fst ps)"
proof -
  have "ps = [] \<or> (\<exists>w. ps = [(key, w)]) \<or> (\<exists>raw t. ps = annotated key raw t)"
    using assms by (auto simp: typed_property_def split: json.splits if_splits option.splits)
  then show "set (map fst ps) \<subseteq> {key, type_key key}" and "\<not> is_metadata_key key \<Longrightarrow> distinct (map fst ps)"
    by (auto simp: annotated_def)
qed

text \<open>The properties of an object's plain entries, side by side.\<close>

abbreviation rows :: "json_env \<Rightarrow> (string \<times> json) list \<Rightarrow> (string \<times> json) list list \<Rightarrow> bool" where
  "rows env \<equiv> list_all2 (\<lambda>e ps. typed_property env (fst e) (snd e) = Inr ps)"

lemma rows_key:
  assumes "rows env xs pss" and "k \<in> fst ` set (concat pss)"
  shows "\<exists>e\<in>set xs. k = fst e \<or> k = type_key (fst e)"
  using assms
proof (induction rule: list_all2_induct)
  case (Cons x xs ps pss)
  have "k \<in> fst ` set ps \<or> k \<in> fst ` set (concat pss)" using Cons.prems by auto
  then show ?case
  proof
    assume "k \<in> fst ` set ps"
    then have "k = fst x \<or> k = type_key (fst x)" using typed_property_keys(1) [OF Cons.hyps(1)] by auto
    then show ?thesis by simp
  next
    assume "k \<in> fst ` set (concat pss)"
    from Cons.IH [OF this] show ?thesis by auto
  qed
qed simp

lemma rows_distinct:
  assumes "rows env xs pss" and "distinct (map fst xs)" and "\<And>e. e \<in> set xs \<Longrightarrow> \<not> is_metadata_key (fst e)"
  shows "distinct (map fst (concat pss))"
  using assms
proof (induction rule: list_all2_induct)
  case (Cons x xs ps pss)
  have "k \<notin> fst ` set (concat pss)" if "k \<in> fst ` set ps" for k
  proof
    assume "k \<in> fst ` set (concat pss)"
    then obtain e where e: "e \<in> set xs" "k = fst e \<or> k = type_key (fst e)" using rows_key [OF Cons.hyps(2)] by blast
    have "k = fst x \<or> k = type_key (fst x)" using that typed_property_keys(1) [OF Cons.hyps(1)] by auto
    moreover have "fst e \<noteq> fst x" using Cons.prems(1) imageI [OF e(1), of fst] by (metis distinct.simps(2) list.simps(9) set_map)
    moreover have "\<not> is_metadata_key (fst e)" "\<not> is_metadata_key (fst x)" using Cons.prems(2) e(1) by auto
    ultimately show False using e(2) by (metis type_key_metadata type_key_inj)
  qed
  then show ?case
    using Cons.IH Cons.prems typed_property_keys(2) [OF Cons.hyps(1)] by auto
qed simp

lemma rows_in:
  assumes "rows env xs pss" and "(k, v) \<in> set xs"
  shows "\<exists>ps. typed_property env k v = Inr ps \<and> set ps \<subseteq> set (concat pss)"
  using assms by (induction rule: list_all2_induct) fastforce+

lemma rows_entry:
  assumes "rows env xs pss" and "(k, w) \<in> set (concat pss)"
  shows "\<exists>e ps. e \<in> set xs \<and> typed_property env (fst e) (snd e) = Inr ps \<and> (k, w) \<in> set ps"
  using assms by (induction rule: list_all2_induct) fastforce+

definition plain_entries :: "json_map \<Rightarrow> (string \<times> json) list" where
  "plain_entries src = filter (\<lambda>(key, _). \<not> is_metadata_key key) src"

definition entity_of :: "string \<Rightarrow> string \<Rightarrow> (string \<times> json) list list \<Rightarrow> json_map" where
  "entity_of pk rk pss = json_collect ([(''PartitionKey'', JStr pk), (''RowKey'', JStr rk)] @ concat pss)"

lemma entity_get:
  assumes r: "rows env (plain_entries src) pss" and ok: "bt_ok src"
  shows "bt_get (entity_of pk rk pss) k = Some w \<longleftrightarrow>
      (k, w) \<in> set ([(''PartitionKey'', JStr pk), (''RowKey'', JStr rk)] @ concat pss)"
proof -
  let ?L = "[(''PartitionKey'', JStr pk), (''RowKey'', JStr rk)] @ concat pss"
  have plain: "\<not> is_metadata_key (fst e)" if "e \<in> set (plain_entries src)" for e
    using that by (auto simp: plain_entries_def)
  have "distinct (map fst src)" using ok by (simp add: bt_ok_def strict_sorted_iff)
  then have d: "distinct (map fst (concat pss))"
    by (intro rows_distinct [OF r]) (use plain in \<open>auto simp: plain_entries_def distinct_map_filter\<close>)
  have "''PartitionKey'' \<notin> fst ` set (concat pss)" "''RowKey'' \<notin> fst ` set (concat pss)"
    using rows_key [OF r] plain system_metadata by (metis type_key_not_system(3,4))+
  then have "distinct (map fst ?L)" using d by simp
  then have D: "distinct (map fst (rev ?L))" by (simp only: rev_map [symmetric] distinct_rev)
  show ?thesis unfolding entity_of_def json_collect_get by (simp only: map_of_eq_Some_iff [OF D] set_rev)
qed

lemma stored_body_get:
  "bt_ok src \<Longrightarrow> bt_ok (stored_body env src) \<and>
     map_of (stored_body env src) k =
       (if is_metadata_key k then None else case map_of src k of None \<Rightarrow> None | Some v \<Rightarrow> stored_value env v) \<and>
     fst ` set (stored_body env src) \<subseteq> fst ` set src"
proof (induction src)
  case (Cons e src)
  obtain key v where e: "e = (key, v)" by fastforce
  have ok: "bt_ok src" "\<forall>k'\<in>fst ` set src. key < k'" using Cons.prems by (simp_all add: e bt_ok_Cons)
  note IH = Cons.IH [OF ok(1)]
  have s: "stored_body env ((key, v) # src) = (if is_metadata_key key then [] else case stored_value env v of None \<Rightarrow> [] | Some w \<Rightarrow> [(key, w)]) @ stored_body env src"
    by (simp add: stored_body_def)
  have n: "map_of src key = None" by (rule bt_ok_above_None [OF ok(2)])
  have above: "\<forall>j\<in>fst ` set (stored_body env src). key < j" using IH ok(2) by blast
  show ?case
    using IH above n unfolding e s
    by (cases "is_metadata_key key"; cases "stored_value env v") (auto simp: bt_ok_Cons)
qed (simp add: stored_body_def)

lemma restored_get:
  assumes "bt_ok obj"
  shows "map_of (rev (restored_entries env obj)) k =
    (if is_metadata_key k then None else map_option (restore_typed_value env obj k) (map_of obj k))"
proof -
  have "distinct (map fst obj)" using assms by (simp add: bt_ok_def strict_sorted_iff)
  then have d: "distinct (map fst (rev (restored_entries env obj)))"
    by (simp add: restored_entries_def rev_map [symmetric] split_def comp_def distinct_map_filter)
  have "map_of (rev (restored_entries env obj)) k = Some w \<longleftrightarrow>
    (if is_metadata_key k then None else map_option (restore_typed_value env obj k) (map_of obj k)) = Some w" for w
    unfolding map_of_eq_Some_iff [OF d] using \<open>distinct (map fst obj)\<close>
    by (auto simp: restored_entries_def)
  then show ?thesis by (metis option.exhaust)
qed

lemma flatten_entity:
  assumes "flatten env doc = Inr entity"
  shows "\<exists>pk rk src pss. decode_id (dc_id doc) = Inr (pk, rk) \<and> je_from_slice env (dc_data doc) = Inr (JObj src) \<and>
    rows env (plain_entries src) pss \<and> entity = JObj (entity_of pk rk pss)"
proof -
  obtain pk rk src pss where f: "decode_id (dc_id doc) = Inr (pk, rk)" "je_from_slice env (dc_data doc) = Inr (JObj src)"
    "res_traverse (\<lambda>(key, v). typed_property env key v) (filter (\<lambda>(key, _). \<not> is_metadata_key key) src) = Inr pss"
    "entity = JObj (json_collect ([(''PartitionKey'', JStr pk), (''RowKey'', JStr rk)] @ concat pss))"
    using assms
    unfolding flatten_def res_bind_Inr_iff as_object_def
    by (elim exE conjE, split prod.splits, elim exE conjE) (auto simp: res_map_Inr_iff simp del: append_Cons append.simps split: sum.split_asm json.split_asm)
  then show ?thesis
    by (intro exI [of _ pk] exI [of _ rk] exI [of _ src] exI [of _ pss])
      (simp add: entity_of_def plain_entries_def res_traverse_Inr_iff split_def)
qed

lemma flatten_unflatten:
  assumes fl: "flatten env doc = Inr entity" and src: "je_from_slice env (dc_data doc) = Inr (JObj src)" and ok: "json_ok (JObj src)"
  shows "unflatten env entity = Inr \<lparr>dc_id = dc_id doc, dc_data = je_to_vec env (JObj (stored_body env src))\<rparr>"
proof -
  obtain pk rk pss where i: "decode_id (dc_id doc) = Inr (pk, rk)" and r: "rows env (plain_entries src) pss"
    and e: "entity = JObj (entity_of pk rk pss)"
    using flatten_entity [OF fl] src by auto
  have bt: "bt_ok src" and vals: "\<And>k v. (k, v) \<in> set src \<Longrightarrow> json_ok v" using ok by (auto simp: list_all_iff)
  note get = entity_get [OF r bt, of pk rk]
  let ?obj = "entity_of pk rk pss"
  have obj: "bt_ok ?obj" by (simp add: entity_of_def json_collect_ok)
  have keys: "get_str ?obj ''PartitionKey'' = Some pk" "get_str ?obj ''RowKey'' = Some rk"
    using get [of "''PartitionKey''" "JStr pk"] get [of "''RowKey''" "JStr rk"] by (simp_all add: get_str_def as_str_def)
  have entry: "(k, w) \<in> set (concat pss) \<Longrightarrow> bt_get ?obj k = Some w" for k w using get by simp
  have "map_of (rev (restored_entries env ?obj)) k = map_of (stored_body env src) k" for k
  proof (cases "is_metadata_key k")
    case True
    then show ?thesis using restored_get [OF obj] stored_body_get [OF bt] by simp
  next
    case plain: False
    have only: "\<exists>v ps. (k, v) \<in> set src \<and> typed_property env k v = Inr ps \<and> (x, w) \<in> set ps"
      if "bt_get ?obj x = Some w" "x = k \<or> x = type_key k" for x w
    proof -
      have "(x, w) \<in> set (concat pss)" using that plain get by (auto simp: is_metadata_key_def SYSTEM_KEYS_def)
      then obtain y ps where y: "y \<in> set (plain_entries src)" "typed_property env (fst y) (snd y) = Inr ps" "(x, w) \<in> set ps"
        using rows_entry [OF r] by blast
      have "x = fst y \<or> x = type_key (fst y)" using typed_property_keys(1) [OF y(2)] y(3) by force
      moreover have "\<not> is_metadata_key (fst y)" using y(1) by (auto simp: plain_entries_def)
      ultimately have "k = fst y" using that(2) plain by auto
      then show ?thesis using y by (intro exI [of _ "snd y"] exI [of _ ps]) (auto simp: plain_entries_def)
    qed
    have uniq: "map_of src k = Some v" if "(k, v) \<in> set src" for v using bt_get_in [OF bt that] by simp
    show ?thesis
    proof (cases "map_of src k")
      case None
      then have "bt_get ?obj k = None" using only [of k] uniq by (cases "bt_get ?obj k") auto
      then show ?thesis using None plain restored_get [OF obj] stored_body_get [OF bt] by simp
    next
      case (Some v)
      then have "(k, v) \<in> set (plain_entries src)" using plain by (auto simp: plain_entries_def dest: map_of_SomeD)
      then obtain ps where ps: "typed_property env k v = Inr ps" "set ps \<subseteq> set (concat pss)" using rows_in [OF r] by blast
      have jv: "json_ok v" using vals map_of_SomeD [OF Some] by blast
      have ps_only: "(x, w) \<in> set ps" if "bt_get ?obj x = Some w" "x = k \<or> x = type_key k" for x w
        using only [OF that] uniq Some ps(1) by auto
      have "map_option (restore_typed_value env ?obj k) (bt_get ?obj k) = stored_value env v"
      proof (cases "stored_value env v")
        case None
        then have "ps = []" using typed_property_shape [OF ps(1) jv] by simp
        then show ?thesis using ps_only [of k] None by (cases "bt_get ?obj k") auto
      next
        case (Some w)
        then have "restores env k ps w" using typed_property_shape [OF ps(1) jv] by simp
        then consider "ps = [(k, w)]" | raw t where "ps = annotated k raw t"
          "\<forall>obj. bt_get obj (type_key k) = Some (JStr t) \<longrightarrow> restore_typed_value env obj k raw = w"
          unfolding restores_def by blast
        then show ?thesis
        proof cases
          case 1
          have "k \<noteq> type_key k" using plain by (metis type_key_metadata)
          then have "bt_get ?obj (type_key k) = None"
            using ps_only [of "type_key k"] 1 by (cases "bt_get ?obj (type_key k)") auto
          then show ?thesis using entry [of k w] ps(2) 1 Some by (simp add: restore_typed_value_def)
        next
          case 2
          then have "bt_get ?obj k = Some raw" "bt_get ?obj (type_key k) = Some (JStr t)"
            using entry ps(2) by (auto simp: annotated_def)
          then show ?thesis using 2(2) Some by simp
        qed
      qed
      then show ?thesis using Some plain restored_get [OF obj] stored_body_get [OF bt] by simp
    qed
  qed
  then have "json_collect (restored_entries env ?obj) = stored_body env src"
    using bt_ext [OF json_collect_ok conjunct1 [OF stored_body_get [OF bt]]] by (simp add: json_collect_get fun_eq_iff)
  then show ?thesis using keys encode_decode_id [OF i] by (simp add: unflatten_def as_object_def e)
qed

section \<open>The property\<close>


definition demo_json :: json_env where
  "demo_json =
     \<lparr>je_from_slice = (\<lambda>b. if b = [1] then Inr (JObj [(''a'', JNum (Neg_Int (- 5000000000))), (''b'', JStr ''x'')])
                           else Inl ''''),
      je_to_vec = (\<lambda>v. if v = JObj [(''a'', JNum (Neg_Int (- 5000000000))), (''b'', JStr ''x'')] then [1] else []),
      je_to_string = (\<lambda>_. ''''), je_int_f64 = (\<lambda>_. 0), je_parse_f64 = (\<lambda>_. None)\<rparr>"


end
