(* ===== verification/Azure_Filter.thy ===== *)
theory Azure_Filter
  imports Rust_Json
begin

text \<open>
  The translation of a docstore filter into the \<open>OData\<close> text Azure Table evaluates
  (\<open>src/crates/azure-table/src/store/filter.rs\<close>), and a reader of that text: a scanner for its
  literals and words and a parser with the precedence of \<open>OData\<close>. The text of a filter is
  read back as the filter's meaning, whatever its fields and values hold. How Rust shows a
  double is a parameter.
\<close>

section \<open>Filters\<close>

datatype scalar =
    SNull | SBool bool | SInt32 int | SInt64 int | SFloat64 f64 | SStr string | SBinary bytes | STimestamp string

datatype comparison_op = Eq | Ne | Gt | Gte | Lt | Lte

datatype filter_expr =
    Compare string comparison_op scalar
  | InList string "scalar list"
  | NotInList string "scalar list"
  | FAnd "filter_expr list"
  | FOr "filter_expr list"
  | FNot filter_expr
  | IsNull string
  | IsNotNull string
  | Contains string string
  | StartsWith string string
  | EndsWith string string

text \<open>\<open>f.fract() == 0.0\<close>, \<open>{f:.1}\<close> and \<open>{f}\<close>.\<close>

record float_fmt =
  ff_whole :: "f64 \<Rightarrow> bool"
  ff_fixed1 :: "f64 \<Rightarrow> string"
  ff_show :: "f64 \<Rightarrow> string"

definition word_start :: "char \<Rightarrow> bool" where
  "word_start c \<longleftrightarrow> ascii_alpha c \<or> c = CHR ''_''"

definition word_char :: "char \<Rightarrow> bool" where
  "word_char c \<longleftrightarrow> ascii_alpha c \<or> is_digit c \<or> c = CHR ''_''"

definition validate_field :: "string \<Rightarrow> string + unit" where
  "validate_field field =
     (if field = [] \<or> \<not> word_start (hd field) \<or> \<not> list_all word_char field
      then Inl (''invalid OData property name: '' @ field) else Inr ())"

definition odata_op :: "comparison_op \<Rightarrow> string" where
  "odata_op op1 =
     (case op1 of Eq \<Rightarrow> ''eq'' | Ne \<Rightarrow> ''ne'' | Gt \<Rightarrow> ''gt'' | Gte \<Rightarrow> ''ge'' | Lt \<Rightarrow> ''lt'' | Lte \<Rightarrow> ''le'')"

definition QUOTE :: char where "QUOTE = CHR 0x27"

definition quoted :: "string \<Rightarrow> string" where
  "quoted s = QUOTE # str_replace_char QUOTE [QUOTE, QUOTE] s @ [QUOTE]"

definition hex_digit :: "nat \<Rightarrow> char" where
  "hex_digit d = (if d < 10 then char_of (48 + d) else char_of (87 + d))"

definition hex_text :: "bytes \<Rightarrow> string" where
  "hex_text bs = concat (map (\<lambda>b. [hex_digit (unat b div 16), hex_digit (unat b mod 16)]) bs)"

definition odata_value :: "float_fmt \<Rightarrow> scalar \<Rightarrow> string + string" where
  "odata_value ff v =
     (case v of
        SNull \<Rightarrow> Inl ''null comparison is not supported by Azure Table''
      | SBool b \<Rightarrow> Inr (if b then ''true'' else ''false'')
      | SInt32 i \<Rightarrow> Inr (dec_int i)
      | SInt64 i \<Rightarrow> Inr (dec_int i @ ''L'')
      | SFloat64 f \<Rightarrow> Inr (if ff_whole ff f then ff_fixed1 ff f else ff_show ff f)
      | SStr s \<Rightarrow> Inr (quoted s)
      | SBinary b \<Rightarrow> Inr (''X'' @ QUOTE # hex_text b @ [QUOTE])
      | STimestamp t \<Rightarrow> Inr (''datetime'' @ quoted t))"

definition in_part :: "float_fmt \<Rightarrow> string \<Rightarrow> scalar \<Rightarrow> string + string" where
  "in_part ff field v = res_map (\<lambda>t. field @ '' eq '' @ t) (odata_value ff v)"

fun to_odata :: "float_fmt \<Rightarrow> filter_expr \<Rightarrow> string + string" where
  "to_odata ff (Compare field op1 v) =
     res_bind (validate_field field) (\<lambda>_.
       res_map (\<lambda>t. field @ '' '' @ odata_op op1 @ '' '' @ t) (odata_value ff v))"
| "to_odata ff (InList field vs) =
     res_bind (validate_field field) (\<lambda>_.
       if vs = [] then Inl (''InList requires at least one value: '' @ field)
       else res_map (\<lambda>ps. ''('' @ str_join '' or '' ps @ '')'') (res_traverse (in_part ff field) vs))"
| "to_odata ff (NotInList field vs) =
     res_bind (validate_field field) (\<lambda>_.
       if vs = [] then Inl (''NotInList requires at least one value: '' @ field)
       else res_map (\<lambda>ps. ''not ('' @ str_join '' or '' ps @ '')'') (res_traverse (in_part ff field) vs))"
| "to_odata ff (FAnd fs) =
     (if fs = [] then Inl ''And requires at least one child filter''
      else res_map (str_join '' and '') (res_traverse (to_odata ff) fs))"
| "to_odata ff (FOr fs) =
     (if fs = [] then Inl ''Or requires at least one child filter''
      else res_map (\<lambda>ps. ''('' @ str_join '' or '' ps @ '')'') (res_traverse (to_odata ff) fs))"
| "to_odata ff (FNot f) = res_map (\<lambda>t. ''not ('' @ t @ '')'') (to_odata ff f)"
| "to_odata ff (IsNull field) = Inl (''IsNull is not supported by Azure Table: '' @ field)"
| "to_odata ff (IsNotNull field) = Inl (''IsNotNull is not supported by Azure Table: '' @ field)"
| "to_odata ff (Contains field v) = Inl (''Contains is not supported by Azure Table: '' @ field)"
| "to_odata ff (StartsWith field v) = Inl (''StartsWith is not supported by Azure Table: '' @ field)"
| "to_odata ff (EndsWith field v) = Inl (''EndsWith is not supported by Azure Table: '' @ field)"

section \<open>Reading \<open>OData\<close>\<close>

text \<open>A literal: bare text, a quoted string with its doubled quotes undone, or a typed one.\<close>

datatype odata_lit = Lit_Text string | Lit_Str string | Lit_Typed string string

datatype odata_tok = TWord string | TText string | TStr string | TTyped string string | TL | TR

fun read_quoted :: "string \<Rightarrow> (string \<times> string) option" where
  "read_quoted [] = None"
| "read_quoted (c # cs) =
     (if c = QUOTE then
        (case cs of
           d # ds \<Rightarrow> if d = QUOTE then map_option (\<lambda>(a, b). (QUOTE # a, b)) (read_quoted ds) else Some ([], cs)
         | [] \<Rightarrow> Some ([], []))
      else map_option (\<lambda>(a, b). (c # a, b)) (read_quoted cs))"

definition text_char :: "char \<Rightarrow> bool" where
  "text_char c \<longleftrightarrow> word_char c \<or> c = CHR ''-'' \<or> c = CHR ''.''"

lemma read_quoted_length: "read_quoted s = Some (a, b) \<Longrightarrow> length b \<le> length s"
  by (induction s arbitrary: a b rule: read_quoted.induct) (fastforce split: if_split_asm list.splits)+

lemma drop_cons: "q # qs = dropWhile P xs \<Longrightarrow> Suc (length qs) \<le> length xs"
  by (metis length_Cons length_dropWhile_le)

function scan :: "string \<Rightarrow> odata_tok list option" where
  "scan s =
     (case s of
        [] \<Rightarrow> Some []
      | c # cs \<Rightarrow>
          if c = CHR '' '' then scan cs
          else if c = CHR ''('' then map_option ((#) TL) (scan cs)
          else if c = CHR '')'' then map_option ((#) TR) (scan cs)
          else if c = QUOTE then
            (case read_quoted cs of None \<Rightarrow> None | Some (a, r) \<Rightarrow> map_option ((#) (TStr a)) (scan r))
          else if word_start c then
            (let w = c # takeWhile word_char cs; r = dropWhile word_char cs in
             case r of
               q # qs \<Rightarrow>
                 if q = QUOTE then
                   (case read_quoted qs of None \<Rightarrow> None | Some (a, r') \<Rightarrow> map_option ((#) (TTyped w a)) (scan r'))
                 else map_option ((#) (TWord w)) (scan r)
             | [] \<Rightarrow> Some [TWord w])
          else if text_char c then
            map_option ((#) (TText (c # takeWhile text_char cs))) (scan (dropWhile text_char cs))
          else None)"
  by pat_completeness auto

termination
proof (relation "measure length", goal_cases)
  case 1
  show ?case by simp
qed (auto dest!: read_quoted_length drop_cons simp: less_Suc_eq_le length_dropWhile_le)

declare scan.simps [simp del]

lemma scan_Nil [simp]: "scan [] = Some []"
  by (simp add: scan.simps)

lemma scan_punct [simp]:
  "scan (CHR '' '' # cs) = scan cs"
  "scan (CHR ''('' # cs) = map_option ((#) TL) (scan cs)"
  "scan (CHR '')'' # cs) = map_option ((#) TR) (scan cs)"
  by (simp_all add: scan.simps [of "_ # cs"])

lemma classes:
  "word_start c \<Longrightarrow> word_char c" "word_char c \<Longrightarrow> text_char c"
  "text_char c \<Longrightarrow> c \<noteq> CHR '' '' \<and> c \<noteq> CHR ''('' \<and> c \<noteq> CHR '')'' \<and> c \<noteq> QUOTE"
proof -
  show "word_start c \<Longrightarrow> word_char c" by (auto simp: word_start_def word_char_def)
  show "word_char c \<Longrightarrow> text_char c" by (simp add: text_char_def)
  have "\<not> text_char (CHR '' '')" "\<not> text_char (CHR ''('')" "\<not> text_char (CHR '')'')" "\<not> text_char QUOTE"
    by (simp_all add: text_char_def word_char_def ascii_alpha_def is_digit_def QUOTE_def)
  then show "text_char c \<Longrightarrow> c \<noteq> CHR '' '' \<and> c \<noteq> CHR ''('' \<and> c \<noteq> CHR '')'' \<and> c \<noteq> QUOTE" by blast
qed

text \<open>What may follow a token: nothing, a space, a closing bracket.\<close>

definition sep :: "string \<Rightarrow> bool" where
  "sep r \<longleftrightarrow> r = [] \<or> hd r = CHR '' '' \<or> hd r = CHR '')''"

lemma sep_stops: "sep r \<Longrightarrow> takeWhile text_char r = [] \<and> dropWhile text_char r = r \<and>
    takeWhile word_char r = [] \<and> dropWhile word_char r = r \<and> (\<forall>q qs. r = q # qs \<longrightarrow> q \<noteq> QUOTE)"
proof (cases r)
  case (Cons q qs)
  assume "sep r"
  then have q: "q = CHR '' '' \<or> q = CHR '')''" using Cons by (simp add: sep_def)
  then have n: "\<not> text_char q" using classes(3) by blast
  then have "\<not> word_char q" using classes(2) by blast
  moreover have "q \<noteq> QUOTE" using q by (auto simp: QUOTE_def)
  ultimately show ?thesis using Cons n by simp
qed simp

lemma take_drop_run:
  assumes "list_all P cs" and "takeWhile P r = []" and "dropWhile P r = r"
  shows "takeWhile P (cs @ r) = cs" "dropWhile P (cs @ r) = r"
  using assms by (induction cs) simp_all

lemma scan_word:
  assumes "w \<noteq> []" and "word_start (hd w)" and "list_all word_char w" and "sep r"
  shows "scan (w @ r) = map_option ((#) (TWord w)) (scan r)"
proof -
  obtain c cs where w: "w = c # cs" using assms(1) by (cases w) auto
  have s: "word_start c" "list_all word_char cs" using assms(2,3) w by simp_all
  have c: "c \<noteq> CHR '' ''" "c \<noteq> CHR ''(''" "c \<noteq> CHR '')''" "c \<noteq> QUOTE"
    using classes(3) [OF classes(2) [OF classes(1) [OF s(1)]]] by blast+
  have t: "takeWhile word_char (cs @ r) = cs" "dropWhile word_char (cs @ r) = r"
    using take_drop_run [OF s(2)] sep_stops [OF assms(4)] by blast+
  show ?thesis
  proof (cases r)
    case Nil
    have d: "takeWhile word_char cs = cs" "dropWhile word_char cs = []" using t Nil by simp_all
    then show ?thesis using c s(1) Nil by (subst scan.simps) (simp add: w Let_def d)
  next
    case (Cons q qs)
    then have "q \<noteq> QUOTE" using sep_stops [OF assms(4)] by blast
    then show ?thesis using c s(1) t Cons by (subst scan.simps) (simp add: w Let_def)
  qed
qed

lemma scan_text:
  assumes "w \<noteq> []" and "\<not> word_start (hd w)" and "list_all text_char w" and "sep r"
  shows "scan (w @ r) = map_option ((#) (TText w)) (scan r)"
proof -
  obtain c cs where w: "w = c # cs" using assms(1) by (cases w) auto
  have s: "text_char c" "list_all text_char cs" "\<not> word_start c" using assms(2,3) w by simp_all
  have t: "takeWhile text_char (cs @ r) = cs" "dropWhile text_char (cs @ r) = r"
    using take_drop_run [OF s(2)] sep_stops [OF assms(4)] by blast+
  show ?thesis
    using classes(3) [OF s(1)] s(1,3) by (subst scan.simps) (simp add: w t)
qed

lemma read_quoted_quoted:
  assumes "\<And>q qs. r = q # qs \<Longrightarrow> q \<noteq> QUOTE"
  shows "read_quoted (str_replace_char QUOTE [QUOTE, QUOTE] s @ QUOTE # r) = Some (s, r)"
  using assms by (induction s) (auto split: list.split)

lemma scan_quoted:
  assumes "sep r"
  shows "scan (quoted s @ r) = map_option ((#) (TStr s)) (scan r)"
proof -
  have "QUOTE \<noteq> CHR '' ''" "QUOTE \<noteq> CHR ''(''" "QUOTE \<noteq> CHR '')''" by (simp_all add: QUOTE_def)
  then show ?thesis
    using read_quoted_quoted [of r s] sep_stops [OF assms] unfolding quoted_def
    by (subst scan.simps) simp
qed

lemma scan_typed:
  assumes "w \<noteq> []" and "word_start (hd w)" and "list_all word_char w" and "sep r"
  shows "scan (w @ quoted s @ r) = map_option ((#) (TTyped w s)) (scan r)"
proof -
  obtain c cs where w: "w = c # cs" using assms(1) by (cases w) auto
  have s: "word_start c" "list_all word_char cs" using assms(2,3) w by simp_all
  have c: "c \<noteq> CHR '' ''" "c \<noteq> CHR ''(''" "c \<noteq> CHR '')''" "c \<noteq> QUOTE"
    using classes(3) [OF classes(2) [OF classes(1) [OF s(1)]]] by blast+
  have q: "\<not> word_char QUOTE" using classes(2,3) by blast
  have t: "takeWhile word_char (cs @ quoted s @ r) = cs" "dropWhile word_char (cs @ quoted s @ r) = quoted s @ r"
    by (rule take_drop_run [OF s(2)]; simp add: quoted_def q)+
  have rq: "read_quoted (str_replace_char QUOTE [QUOTE, QUOTE] s @ QUOTE # r) = Some (s, r)"
    by (rule read_quoted_quoted) (use sep_stops [OF assms(4)] in blast)
  show ?thesis
    using c s(1) t rq by (subst scan.simps) (simp add: w Let_def quoted_def)
qed

section \<open>Parsing\<close>

datatype odata_expr =
    OCmp string string odata_lit
  | OAnd "odata_expr list"
  | OOr "odata_expr list"
  | ONot odata_expr

fun tok_lit :: "odata_tok \<Rightarrow> odata_lit option" where
  "tok_lit (TWord w) = Some (Lit_Text w)"
| "tok_lit (TText w) = Some (Lit_Text w)"
| "tok_lit (TStr s) = Some (Lit_Str s)"
| "tok_lit (TTyped t s) = Some (Lit_Typed t s)"
| "tok_lit _ = None"

definition odata_ops :: "string list" where
  "odata_ops = [''eq'', ''ne'', ''gt'', ''ge'', ''lt'', ''le'']"

text \<open>
  Disjuncts, conjuncts and operands, \<open>not\<close> binding tightest; the fuel bounds the depth, and
  three times the tokens is always enough.
\<close>

fun parse_or :: "nat \<Rightarrow> odata_tok list \<Rightarrow> (odata_expr list \<times> odata_tok list) option"
  and parse_and :: "nat \<Rightarrow> odata_tok list \<Rightarrow> (odata_expr list \<times> odata_tok list) option"
  and parse_prim :: "nat \<Rightarrow> odata_tok list \<Rightarrow> (odata_expr \<times> odata_tok list) option" where
  "parse_or 0 ts = None"
| "parse_or (Suc n) ts =
     (case parse_and n ts of
        None \<Rightarrow> None
      | Some (es, r) \<Rightarrow>
          (case r of
             t # r' \<Rightarrow>
               if t = TWord ''or'' then map_option (\<lambda>(ds, r''). (OAnd es # ds, r'')) (parse_or n r')
               else Some ([OAnd es], r)
           | [] \<Rightarrow> Some ([OAnd es], [])))"
| "parse_and 0 ts = None"
| "parse_and (Suc n) ts =
     (case parse_prim n ts of
        None \<Rightarrow> None
      | Some (e, r) \<Rightarrow>
          (case r of
             t # r' \<Rightarrow>
               if t = TWord ''and'' then map_option (\<lambda>(es, r''). (e # es, r'')) (parse_and n r')
               else Some ([e], r)
           | [] \<Rightarrow> Some ([e], [])))"
| "parse_prim 0 ts = None"
| "parse_prim (Suc n) ts =
     (case ts of
        TL # r \<Rightarrow> (case parse_or n r of Some (ds, TR # r') \<Rightarrow> Some (OOr ds, r') | _ \<Rightarrow> None)
      | TWord w # r \<Rightarrow>
          if w = ''not'' then map_option (\<lambda>(e, r'). (ONot e, r')) (parse_prim n r)
          else (case r of
                  TWord o1 # t # r' \<Rightarrow>
                    if o1 \<in> set odata_ops then map_option (\<lambda>l. (OCmp w o1 l, r')) (tok_lit t) else None
                | _ \<Rightarrow> None)
      | _ \<Rightarrow> None)"

definition parse_tokens_odata :: "odata_tok list \<Rightarrow> odata_expr option" where
  "parse_tokens_odata ts =
     (case parse_or (3 * length ts + 2) ts of Some (ds, []) \<Rightarrow> Some (OOr ds) | _ \<Rightarrow> None)"

definition read_odata :: "string \<Rightarrow> odata_expr option" where
  "read_odata s = (case scan s of None \<Rightarrow> None | Some ts \<Rightarrow> parse_tokens_odata ts)"

text \<open>What an expression says, and what a filter says, over the same comparisons.\<close>

type_synonym comparisons = "string \<Rightarrow> string \<Rightarrow> odata_lit \<Rightarrow> bool"

fun odata_holds :: "comparisons \<Rightarrow> odata_expr \<Rightarrow> bool" where
  "odata_holds c (OCmp f o1 l) = c f o1 l"
| "odata_holds c (OAnd es) = list_all (odata_holds c) es"
| "odata_holds c (OOr es) = list_ex (odata_holds c) es"
| "odata_holds c (ONot e) = (\<not> odata_holds c e)"

definition float_text :: "float_fmt \<Rightarrow> f64 \<Rightarrow> string" where
  "float_text ff f = (if ff_whole ff f then ff_fixed1 ff f else ff_show ff f)"

definition scalar_lit :: "float_fmt \<Rightarrow> scalar \<Rightarrow> odata_lit" where
  "scalar_lit ff v =
     (case v of
        SNull \<Rightarrow> Lit_Text ''null''
      | SBool b \<Rightarrow> Lit_Text (if b then ''true'' else ''false'')
      | SInt32 i \<Rightarrow> Lit_Text (dec_int i)
      | SInt64 i \<Rightarrow> Lit_Text (dec_int i @ ''L'')
      | SFloat64 f \<Rightarrow> Lit_Text (float_text ff f)
      | SStr s \<Rightarrow> Lit_Str s
      | SBinary b \<Rightarrow> Lit_Typed ''X'' (hex_text b)
      | STimestamp t \<Rightarrow> Lit_Typed ''datetime'' t)"

fun filter_holds :: "float_fmt \<Rightarrow> comparisons \<Rightarrow> filter_expr \<Rightarrow> bool" where
  "filter_holds ff c (Compare field op1 v) = c field (odata_op op1) (scalar_lit ff v)"
| "filter_holds ff c (InList field vs) = list_ex (\<lambda>v. c field ''eq'' (scalar_lit ff v)) vs"
| "filter_holds ff c (NotInList field vs) = (\<not> list_ex (\<lambda>v. c field ''eq'' (scalar_lit ff v)) vs)"
| "filter_holds ff c (FAnd fs) = list_all (filter_holds ff c) fs"
| "filter_holds ff c (FOr fs) = list_ex (filter_holds ff c) fs"
| "filter_holds ff c (FNot f) = (\<not> filter_holds ff c f)"
| "filter_holds ff c _ = False"

text \<open>The filters Azure Table can evaluate.\<close>

fun supported :: "filter_expr \<Rightarrow> bool" where
  "supported (Compare field op1 v) \<longleftrightarrow> validate_field field = Inr () \<and> v \<noteq> SNull"
| "supported (InList field vs) \<longleftrightarrow> validate_field field = Inr () \<and> vs \<noteq> [] \<and> SNull \<notin> set vs"
| "supported (NotInList field vs) \<longleftrightarrow> validate_field field = Inr () \<and> vs \<noteq> [] \<and> SNull \<notin> set vs"
| "supported (FAnd fs) \<longleftrightarrow> fs \<noteq> [] \<and> list_all supported fs"
| "supported (FOr fs) \<longleftrightarrow> fs \<noteq> [] \<and> list_all supported fs"
| "supported (FNot f) \<longleftrightarrow> supported f"
| "supported _ \<longleftrightarrow> False"

text \<open>A field named like the prefix operator is the one word a parser cannot take for a field.\<close>

fun fields_plain :: "filter_expr \<Rightarrow> bool" where
  "fields_plain (Compare field _ _) \<longleftrightarrow> field \<noteq> ''not''"
| "fields_plain (InList field _) \<longleftrightarrow> field \<noteq> ''not''"
| "fields_plain (NotInList field _) \<longleftrightarrow> field \<noteq> ''not''"
| "fields_plain (FAnd fs) \<longleftrightarrow> list_all fields_plain fs"
| "fields_plain (FOr fs) \<longleftrightarrow> list_all fields_plain fs"
| "fields_plain (FNot f) \<longleftrightarrow> fields_plain f"
| "fields_plain _ \<longleftrightarrow> True"

section \<open>The text scans to its tokens\<close>

definition float_ok :: "float_fmt \<Rightarrow> bool" where
  "float_ok ff \<longleftrightarrow>
     (\<forall>f. float_text ff f \<noteq> [] \<and> list_all text_char (float_text ff f) \<and>
        (word_start (hd (float_text ff f)) \<longrightarrow> list_all word_char (float_text ff f)))"

definition scans :: "string \<Rightarrow> odata_tok list \<Rightarrow> bool" where
  "scans s ts \<longleftrightarrow> (\<forall>r. sep r \<longrightarrow> scan (s @ r) = map_option ((@) ts) (scan r))"

lemma sep_simps [simp]: "sep []" "sep (CHR '' '' # r)" "sep (CHR '')'' # r)"
  by (simp_all add: sep_def)

lemma sep_append: "sep s \<Longrightarrow> s \<noteq> [] \<Longrightarrow> sep (s @ r)"
  by (cases s) (auto simp: sep_def)

lemma scansD: "scans s ts \<Longrightarrow> sep r \<Longrightarrow> scan (s @ r) = map_option ((@) ts) (scan r)"
  by (simp add: scans_def)

lemma map_option_append: "map_option ((@) a) (map_option ((@) b) x) = map_option ((@) (a @ b)) x"
  "map_option ((#) t) (map_option ((@) b) x) = map_option ((@) (t # b)) x"
  by (cases x; simp)+

lemma scans_word: "w \<noteq> [] \<Longrightarrow> word_start (hd w) \<Longrightarrow> list_all word_char w \<Longrightarrow> scans w [TWord w]"
  unfolding scans_def by (simp add: scan_word) (metis append_Cons append_Nil ext)

lemma scans_text: "w \<noteq> [] \<Longrightarrow> \<not> word_start (hd w) \<Longrightarrow> list_all text_char w \<Longrightarrow> scans w [TText w]"
  unfolding scans_def by (simp add: scan_text) (metis append_Cons append_Nil ext)

lemma scans_quoted: "scans (quoted s) [TStr s]"
  unfolding scans_def by (simp add: scan_quoted) (metis append_Cons append_Nil ext)

lemma scans_typed: "w \<noteq> [] \<Longrightarrow> word_start (hd w) \<Longrightarrow> list_all word_char w \<Longrightarrow> scans (w @ quoted s) [TTyped w s]"
  unfolding scans_def by (simp add: scan_typed) (metis append_Cons append_Nil ext)

text \<open>Tokens a space apart, and a bracketed text.\<close>

lemma scans_space:
  assumes "scans a ta" and "scans b tb"
  shows "scans (a @ CHR '' '' # b) (ta @ tb)"
  unfolding scans_def
proof (intro allI impI)
  fix r assume "sep r"
  then show "scan ((a @ CHR '' '' # b) @ r) = map_option ((@) (ta @ tb)) (scan r)"
    using scansD [OF assms(1), of "CHR '' '' # b @ r"] scansD [OF assms(2)] by (simp add: map_option_append)
qed

lemma scans_bracket:
  assumes "scans a ta"
  shows "scans (CHR ''('' # a @ '')'') (TL # ta @ [TR])"
  unfolding scans_def
proof (intro allI impI)
  fix r assume "sep r"
  then show "scan ((CHR ''('' # a @ '')'') @ r) = map_option ((@) (TL # ta @ [TR])) (scan r)"
    using scansD [OF assms, of "CHR '')'' # r"] by (cases "scan r") simp_all
qed

fun tok_join :: "odata_tok \<Rightarrow> odata_tok list list \<Rightarrow> odata_tok list" where
  "tok_join t [] = []"
| "tok_join t [x] = x"
| "tok_join t (x # y # zs) = x @ t # tok_join t (y # zs)"

lemma word_chars: "list_all word_char ''and''" "list_all word_char ''or''" "list_all word_char ''not''"
    "list_all word_char ''eq''" "list_all word_char ''X''" "list_all word_char ''datetime''"
    "list_all word_char ''true''" "list_all word_char ''false''"
    "list_all word_char (odata_op o1)"
  by (cases o1; simp add: word_char_def ascii_alpha_def odata_op_def)+

lemma word_starts: "word_start CHR ''a''" "word_start CHR ''o''" "word_start CHR ''n''" "word_start CHR ''e''"
    "word_start CHR ''X''" "word_start CHR ''d''" "word_start CHR ''t''" "word_start CHR ''f''"
    "word_start (hd (odata_op o1))" "odata_op o1 \<noteq> []"
  by (cases o1; simp add: word_start_def ascii_alpha_def odata_op_def)+

lemma scans_join:
  assumes "list_all2 scans ss tss" and "ss \<noteq> []" and "w = ''and'' \<or> w = ''or''"
  shows "scans (str_join (CHR '' '' # w @ '' '') ss) (tok_join (TWord w) tss)"
  using assms(1,2)
proof (induction rule: list_all2_induct)
  case (Cons s ss ts tss)
  have w: "scans w [TWord w]" using assms(3) by (auto intro!: scans_word simp: word_char_def word_start_def ascii_alpha_def)
  show ?case
  proof (cases ss)
    case Nil
    then show ?thesis using Cons by simp
  next
    case (Cons s2 ss2)
    then obtain t2 tss2 where t: "tss = t2 # tss2" using Cons.hyps(2) by (cases tss) auto
    have "scans (s @ CHR '' '' # w @ CHR '' '' # str_join (CHR '' '' # w @ '' '') ss) (ts @ [TWord w] @ tok_join (TWord w) tss)"
      using Cons.hyps(1) Cons.IH Cons by (intro scans_space w) simp_all
    then show ?thesis by (simp add: Cons t)
  qed
qed simp

lemma hex_word: "list_all word_char (hex_text b)"
proof -
  have "word_char (hex_digit d)" if "d < 16" for d
    using that by (auto simp: hex_digit_def word_char_def ascii_alpha_def is_digit_def)
  moreover have "unat x div 16 < 16" for x :: byte using unat_byte_less [of x] by simp
  ultimately show ?thesis by (auto simp: hex_text_def list_all_iff)
qed

lemma no_quote_replace: "QUOTE \<notin> set s \<Longrightarrow> str_replace_char QUOTE [QUOTE, QUOTE] s = s"
  by (induction s) auto

lemma digits_text: "list_all is_digit s \<Longrightarrow> list_all text_char s"
  by (auto simp: list_all_iff text_char_def word_char_def)

lemma digit_not_start: "is_digit c \<Longrightarrow> \<not> word_start c"
  by (auto simp: is_digit_def word_start_def ascii_alpha_def Let_def)

lemma dec_int_text: "list_all text_char (dec_int i)" "dec_int i \<noteq> []" "\<not> word_start (hd (dec_int i))"
proof -
  have d: "list_all is_digit (dec_nat n)" "dec_nat n \<noteq> []" for n using dec_nat_digits by blast+
  have m: "text_char CHR ''-''" "\<not> word_start CHR ''-''" by (simp_all add: text_char_def word_start_def ascii_alpha_def)
  have h: "is_digit (hd (dec_nat n))" for n using d [of n] by (cases "dec_nat n") simp_all
  show "list_all text_char (dec_int i)" using d digits_text m by (simp add: dec_int_def)
  show "dec_int i \<noteq> []" using d by (simp add: dec_int_def)
  show "\<not> word_start (hd (dec_int i))" using m h digit_not_start by (simp add: dec_int_def)
qed

definition lit_tok :: "float_fmt \<Rightarrow> scalar \<Rightarrow> odata_tok" where
  "lit_tok ff v =
     (case scalar_lit ff v of
        Lit_Text w \<Rightarrow> if word_start (hd w) then TWord w else TText w
      | Lit_Str s \<Rightarrow> TStr s
      | Lit_Typed t s \<Rightarrow> TTyped t s)"

lemma scans_text_or_word:
  "w \<noteq> [] \<Longrightarrow> list_all text_char w \<Longrightarrow> (word_start (hd w) \<longrightarrow> list_all word_char w) \<Longrightarrow>
   scans w [if word_start (hd w) then TWord w else TText w]"
  by (simp add: scans_word scans_text)

lemma scans_value:
  assumes "odata_value ff v = Inr t" and "float_ok ff"
  shows "scans t [lit_tok ff v]" and "tok_lit (lit_tok ff v) = Some (scalar_lit ff v)" and "v \<noteq> SNull"
proof -
  have L: "text_char CHR ''L''" by (simp add: text_char_def word_char_def ascii_alpha_def)
  have hex: "scans (''X'' @ quoted (hex_text b)) [TTyped ''X'' (hex_text b)]" for b
    by (rule scans_typed) (simp_all add: word_char_def word_start_def ascii_alpha_def)
  have hq: "quoted (hex_text b) = QUOTE # hex_text b @ [QUOTE]" for b
    using hex_word [of b] classes(2,3) unfolding quoted_def
    by (subst no_quote_replace) (auto simp: list_all_iff)
  show "scans t [lit_tok ff v]"
  proof (cases v)
    case (SBool b)
    have "scans ''true'' [TWord ''true'']" "scans ''false'' [TWord ''false'']"
      by (rule scans_word; simp add: word_char_def word_start_def ascii_alpha_def)+
    moreover have "lit_tok ff v = (if b then TWord ''true'' else TWord ''false'')"
      by (simp add: SBool lit_tok_def scalar_lit_def word_starts)
    moreover have "t = (if b then ''true'' else ''false'')" using assms(1) SBool by (simp add: odata_value_def)
    ultimately show ?thesis by simp
  next
    case (SInt32 i)
    then show ?thesis using assms(1) dec_int_text [of i] scans_text by (simp add: odata_value_def lit_tok_def scalar_lit_def)
  next
    case (SInt64 i)
    have n: "\<not> word_start (hd (dec_int i @ ''L''))" using dec_int_text [of i] by simp
    have "scans (dec_int i @ ''L'') [TText (dec_int i @ ''L'')]"
      by (rule scans_text [OF _ n]) (use dec_int_text [of i] L in simp_all)
    moreover have "lit_tok ff v = TText (dec_int i @ ''L'')" using n by (simp add: SInt64 lit_tok_def scalar_lit_def)
    moreover have "t = dec_int i @ ''L''" using assms(1) SInt64 by (simp add: odata_value_def)
    ultimately show ?thesis by simp
  next
    case (SFloat64 f)
    have ff: "t = float_text ff f" using assms(1) SFloat64 by (auto simp: odata_value_def float_text_def)
    have "scans t [if word_start (hd t) then TWord t else TText t]"
      by (rule scans_text_or_word) (use assms(2) in \<open>simp_all add: ff float_ok_def\<close>)
    moreover have "lit_tok ff v = (if word_start (hd t) then TWord t else TText t)"
      by (simp add: SFloat64 ff lit_tok_def scalar_lit_def)
    ultimately show ?thesis by simp
  next
    case (SStr s)
    then show ?thesis using assms(1) scans_quoted [of s] by (simp add: odata_value_def lit_tok_def scalar_lit_def)
  next
    case (SBinary b)
    then show ?thesis using assms(1) hex [of b] hq [of b] by (simp add: odata_value_def lit_tok_def scalar_lit_def)
  next
    case (STimestamp s)
    then have "t = ''datetime'' @ quoted s" using assms(1) by (simp add: odata_value_def)
    moreover have "scans (''datetime'' @ quoted s) [TTyped ''datetime'' s]"
      by (rule scans_typed) (simp_all add: word_char_def word_start_def ascii_alpha_def)
    ultimately show ?thesis using STimestamp by (simp add: lit_tok_def scalar_lit_def)
  qed (use assms(1) in \<open>simp add: odata_value_def\<close>)
  show "tok_lit (lit_tok ff v) = Some (scalar_lit ff v)" by (auto simp: lit_tok_def split: odata_lit.split)
  show "v \<noteq> SNull" using assms(1) by (auto simp: odata_value_def)
qed

section \<open>The tokens parse to the meaning\<close>

text \<open>An operand: tokens that parse to an expression wherever they stand.\<close>

definition operand :: "odata_tok list \<Rightarrow> odata_expr \<Rightarrow> bool" where
  "operand ts e \<longleftrightarrow> ts \<noteq> [] \<and> (\<forall>n r. 3 * length ts \<le> n \<longrightarrow> parse_prim n (ts @ r) = Some (e, r))"

text \<open>Operands joined by \<open>and\<close>, and those joined by \<open>or\<close>.\<close>

definition ands :: "odata_tok list \<Rightarrow> odata_expr list \<Rightarrow> bool" where
  "ands ts es \<longleftrightarrow> (\<exists>tss. tss \<noteq> [] \<and> ts = tok_join (TWord ''and'') tss \<and> list_all2 operand tss es)"

definition ors :: "odata_tok list \<Rightarrow> odata_expr list list \<Rightarrow> bool" where
  "ors ts dss \<longleftrightarrow> (\<exists>tss. tss \<noteq> [] \<and> ts = tok_join (TWord ''or'') tss \<and> list_all2 ands tss dss)"

lemma tok_join_Cons: "tss \<noteq> [] \<Longrightarrow> tok_join t (x # tss) = x @ t # tok_join t tss"
  by (cases tss) simp_all

lemma tok_join_append:
  "a \<noteq> [] \<Longrightarrow> b \<noteq> [] \<Longrightarrow> tok_join t (a @ b) = tok_join t a @ t # tok_join t b"
proof (induction a)
  case (Cons x xs)
  then show ?case by (cases "xs = []") (simp_all add: tok_join_Cons)
qed simp

lemma operand_not_and: "operand ts e \<Longrightarrow> ts \<noteq> []"
  by (simp add: operand_def)

lemma parse_and_ands:
  assumes "list_all2 operand tss es" and "tss \<noteq> []"
    and "3 * length (tok_join (TWord ''and'') tss) + 1 \<le> n" and "\<And>t r'. r = t # r' \<Longrightarrow> t \<noteq> TWord ''and''"
  shows "parse_and n (tok_join (TWord ''and'') tss @ r) = Some (es, r)"
  using assms(1-3)
proof (induction arbitrary: n rule: list_all2_induct)
  case (Cons ts tss e es)
  then obtain m where n: "n = Suc m" by (cases n) auto
  show ?case
  proof (cases "tss = []")
    case True
    then have "parse_prim m (ts @ r) = Some (e, r)" using Cons.hyps(1) Cons.prems(2) n by (simp add: operand_def)
    then show ?thesis using True Cons.hyps(2) assms(4) n by (cases r) auto
  next
    case False
    then have l: "3 * length ts + 3 * length (tok_join (TWord ''and'') tss) + 4 \<le> Suc m"
      using Cons.prems(2) n by (simp add: tok_join_Cons)
    then have p: "parse_prim m (ts @ TWord ''and'' # tok_join (TWord ''and'') tss @ r) =
        Some (e, TWord ''and'' # tok_join (TWord ''and'') tss @ r)"
      using Cons.hyps(1) by (simp add: operand_def)
    have "parse_and m (tok_join (TWord ''and'') tss @ r) = Some (es, r)"
      by (rule Cons.IH [OF False]) (use l in simp)
    then show ?thesis using p n False by (simp add: tok_join_Cons)
  qed
qed simp

lemma parse_or_ors:
  assumes "list_all2 ands tss dss" and "tss \<noteq> []"
    and "3 * length (tok_join (TWord ''or'') tss) + 2 \<le> n"
    and "\<And>t r'. r = t # r' \<Longrightarrow> t \<noteq> TWord ''and'' \<and> t \<noteq> TWord ''or''"
  shows "parse_or n (tok_join (TWord ''or'') tss @ r) = Some (map OAnd dss, r)"
  using assms(1-3)
proof (induction arbitrary: n rule: list_all2_induct)
  case (Cons ts tss ds dss)
  then obtain m where n: "n = Suc m" by (cases n) auto
  obtain uss where u: "uss \<noteq> []" "ts = tok_join (TWord ''and'') uss" "list_all2 operand uss ds"
    using Cons.hyps(1) by (auto simp: ands_def)
  show ?case
  proof (cases "tss = []")
    case True
    then have "parse_and m (ts @ r) = Some (ds, r)"
      unfolding u(2) by (intro parse_and_ands [OF u(3,1)]) (use Cons.prems(2) n u(2) assms(4) in auto)
    then show ?thesis using True Cons.hyps(2) assms(4) n by (cases r) auto
  next
    case False
    then have l: "3 * length ts + 3 * length (tok_join (TWord ''or'') tss) + 5 \<le> Suc m"
      using Cons.prems(2) n by (simp add: tok_join_Cons)
    have p: "parse_and m (ts @ TWord ''or'' # tok_join (TWord ''or'') tss @ r) =
        Some (ds, TWord ''or'' # tok_join (TWord ''or'') tss @ r)"
      unfolding u(2) by (rule parse_and_ands [OF u(3,1)]) (use l u(2) in auto)
    have "parse_or m (tok_join (TWord ''or'') tss @ r) = Some (map OAnd dss, r)"
      by (rule Cons.IH [OF False]) (use l in simp)
    then show ?thesis using p n False by (simp add: tok_join_Cons)
  qed
qed simp

lemma parse_ors:
  assumes "ors ts dss" and "3 * length ts + 2 \<le> n" and "\<And>t r'. r = t # r' \<Longrightarrow> t \<noteq> TWord ''and'' \<and> t \<noteq> TWord ''or''"
  shows "parse_or n (ts @ r) = Some (map OAnd dss, r)"
  using assms parse_or_ors [of _ dss n r] by (auto simp: ors_def)

lemma operand_ands: "operand ts e \<Longrightarrow> ands ts [e]"
  unfolding ands_def by (intro exI [of _ "[ts]"]) simp

lemma ands_ors: "ands ts es \<Longrightarrow> ors ts [es]"
  unfolding ors_def by (intro exI [of _ "[ts]"]) simp

lemma bracket_operand:
  assumes "ors ts dss"
  shows "operand (TL # ts @ [TR]) (OOr (map OAnd dss))"
  unfolding operand_def
proof (intro conjI allI impI)
  fix n r assume n: "3 * length (TL # ts @ [TR]) \<le> n"
  then obtain m where m: "n = Suc m" by (cases n) auto
  have "parse_or m (ts @ TR # r) = Some (map OAnd dss, TR # r)"
    by (rule parse_ors [OF assms]) (use n m in auto)
  then show "parse_prim n ((TL # ts @ [TR]) @ r) = Some (OOr (map OAnd dss), r)" by (simp add: m)
qed simp

lemma not_operand:
  assumes "operand ts e"
  shows "operand (TWord ''not'' # ts) (ONot e)"
  unfolding operand_def
proof (intro conjI allI impI)
  fix n r assume n: "3 * length (TWord ''not'' # ts) \<le> n"
  then obtain m where m: "n = Suc m" by (cases n) auto
  have "parse_prim m (ts @ r) = Some (e, r)" using assms n m by (simp add: operand_def)
  then show "parse_prim n ((TWord ''not'' # ts) @ r) = Some (ONot e, r)" by (simp add: m)
qed simp

lemma compare_operand:
  assumes "field \<noteq> ''not''" and "tok_lit t = Some l"
  shows "operand [TWord field, TWord (odata_op o1), t] (OCmp field (odata_op o1) l)"
proof -
  have "odata_op o1 \<in> set odata_ops" by (cases o1) (simp_all add: odata_op_def odata_ops_def)
  moreover have "\<exists>m. n = Suc m" if "3 * length [TWord field, TWord (odata_op o1), t] \<le> n" for n
    using that by (cases n) auto
  ultimately show ?thesis using assms by (fastforce simp: operand_def)
qed

lemma list_all2_concat: "list_all2 (list_all2 P) xss yss \<Longrightarrow> list_all2 P (concat xss) (concat yss)"
  by (induction rule: list_all2_induct) (auto intro: list_all2_appendI)

text \<open>Conjunctions joined by \<open>and\<close> are one conjunction.\<close>

lemma ands_join:
  assumes "list_all2 ands tss ess" and "tss \<noteq> []"
  shows "ands (tok_join (TWord ''and'') tss) (concat ess)"
  using assms
proof (induction rule: list_all2_induct)
  case (Cons ts tss es ess)
  obtain uss where u: "uss \<noteq> []" "ts = tok_join (TWord ''and'') uss" "list_all2 operand uss es"
    using Cons.hyps(1) by (auto simp: ands_def)
  show ?case
  proof (cases "tss = []")
    case True
    then show ?thesis using Cons.hyps by simp
  next
    case False
    from Cons.IH [OF this] obtain vss where v: "vss \<noteq> []" "tok_join (TWord ''and'') tss = tok_join (TWord ''and'') vss"
      "list_all2 operand vss (concat ess)" by (auto simp: ands_def)
    then show ?thesis unfolding ands_def using u False
      by (intro exI [of _ "uss @ vss"]) (simp add: tok_join_Cons tok_join_append list_all2_appendI)
  qed
qed simp

section \<open>A filter's text means the filter\<close>

lemma field_word:
  assumes "validate_field field = Inr ()"
  shows "scans field [TWord field]"
  using assms by (intro scans_word) (auto simp: validate_field_def split: if_split_asm)

lemma scans_compare:
  assumes "validate_field field = Inr ()" and "odata_value ff v = Inr t" and "float_ok ff"
  shows "scans (field @ '' '' @ odata_op o1 @ '' '' @ t) [TWord field, TWord (odata_op o1), lit_tok ff v]"
proof -
  have "scans (odata_op o1) [TWord (odata_op o1)]" by (rule scans_word) (simp_all only: word_starts word_chars not_False_eq_True simp_thms)
  from scans_space [OF field_word [OF assms(1)] scans_space [OF this scans_value(1) [OF assms(2,3)]]]
  show ?thesis by simp
qed

lemma in_parts:
  assumes "list_all2 (\<lambda>v p. in_part ff field v = Inr p) vs ps" and "validate_field field = Inr ()" and "float_ok ff"
    and "field \<noteq> ''not''"
  shows "\<exists>tss. list_all2 scans ps tss \<and> list_all2 ands tss (map (\<lambda>v. [OCmp field ''eq'' (scalar_lit ff v)]) vs)"
  using assms(1)
proof (induction rule: list_all2_induct)
  case (Cons v vs p ps)
  then obtain t where t: "odata_value ff v = Inr t" "p = field @ '' eq '' @ t" by (auto simp: in_part_def res_map_Inr_iff)
  have "scans p [TWord field, TWord (odata_op Eq), lit_tok ff v]"
    using scans_compare [OF assms(2) t(1) assms(3), of Eq] t(2) by (simp add: odata_op_def)
  moreover have "ands [TWord field, TWord (odata_op Eq), lit_tok ff v] [OCmp field ''eq'' (scalar_lit ff v)]"
    using operand_ands [OF compare_operand [OF assms(4) scans_value(2) [OF t(1) assms(3)], of Eq]] by (simp add: odata_op_def)
  moreover obtain tss where "list_all2 scans ps tss" "list_all2 ands tss (map (\<lambda>v. [OCmp field ''eq'' (scalar_lit ff v)]) vs)"
    using Cons.IH by blast
  ultimately show ?case
    by (intro exI [of _ "[TWord field, TWord (odata_op Eq), lit_tok ff v] # tss"]) simp
qed simp

lemma or_list:
  assumes "list_all2 scans ps tss" and "list_all2 ands tss dss" and "ps \<noteq> []"
  shows "scans (''('' @ str_join '' or '' ps @ '')'') (TL # tok_join (TWord ''or'') tss @ [TR])"
    and "operand (TL # tok_join (TWord ''or'') tss @ [TR]) (OOr (map OAnd dss))"
proof -
  have "tss \<noteq> []" using assms(1,3) by auto
  then have "ors (tok_join (TWord ''or'') tss) dss" using assms(2) by (auto simp: ors_def)
  from bracket_operand [OF this] show "operand (TL # tok_join (TWord ''or'') tss @ [TR]) (OOr (map OAnd dss))" .
  show "scans (''('' @ str_join '' or '' ps @ '')'') (TL # tok_join (TWord ''or'') tss @ [TR])"
    using scans_bracket [OF scans_join [OF assms(1,3), of "''or''"]] by simp
qed

lemma scans_not:
  assumes "scans (CHR ''('' # s) ts"
  shows "scans (''not ('' @ s) (TWord ''not'' # ts)"
proof -
  have "scans ''not'' [TWord ''not'']" by (rule scans_word) (simp_all add: word_char_def word_start_def ascii_alpha_def)
  from scans_space [OF this assms] show ?thesis by simp
qed

definition reads_as :: "float_fmt \<Rightarrow> string \<Rightarrow> filter_expr \<Rightarrow> bool" where
  "reads_as ff s f \<longleftrightarrow>
     (\<exists>ts es. scans s ts \<and> ands ts es \<and> (\<forall>c. list_all (odata_holds c) es = filter_holds ff c f))"

lemma children:
  assumes "list_all2 (\<lambda>f s. to_odata ff f = Inr s) fs ss"
    and "\<And>f s. f \<in> set fs \<Longrightarrow> to_odata ff f = Inr s \<Longrightarrow> reads_as ff s f"
  shows "\<exists>tss ess. list_all2 scans ss tss \<and> list_all2 ands tss ess \<and>
    (\<forall>c. list_all2 (\<lambda>es f. list_all (odata_holds c) es = filter_holds ff c f) ess fs)"
  using assms
proof (induction rule: list_all2_induct)
  case (Cons f fs s ss)
  obtain ts es where t: "scans s ts" "ands ts es" "\<And>c. list_all (odata_holds c) es = filter_holds ff c f"
    using Cons.prems [of f s] Cons.hyps(1) by (auto simp: reads_as_def)
  obtain tss ess where "list_all2 scans ss tss" "list_all2 ands tss ess"
    "\<And>c. list_all2 (\<lambda>es f. list_all (odata_holds c) es = filter_holds ff c f) ess fs"
    using Cons.IH Cons.prems by auto
  then show ?case using t by (intro exI [of _ "ts # tss"] exI [of _ "es # ess"]) simp
qed (auto intro: exI [of _ "[]"])

lemma holds_children:
  assumes "list_all2 (\<lambda>es f. list_all (odata_holds c) es = filter_holds ff c f) ess fs"
  shows "list_all (odata_holds c) (concat ess) = list_all (filter_holds ff c) fs"
    and "list_ex (odata_holds c) (map OAnd ess) = list_ex (filter_holds ff c) fs"
  using assms by (induction rule: list_all2_induct) simp_all

lemma reads_operand:
  "scans s ts \<Longrightarrow> operand ts e \<Longrightarrow> (\<And>c. odata_holds c e = filter_holds ff c f) \<Longrightarrow> reads_as ff s f"
  unfolding reads_as_def by (intro exI [of _ ts] exI [of _ "[e]"]) (simp add: operand_ands)

lemma to_odata_reads:
  assumes "float_ok ff"
  shows "to_odata ff f = Inr s \<Longrightarrow> fields_plain f \<Longrightarrow> reads_as ff s f"
proof (induction f arbitrary: s)
  case (Compare field o1 v)
  then obtain t where t: "validate_field field = Inr ()" "odata_value ff v = Inr t"
    "s = field @ '' '' @ odata_op o1 @ '' '' @ t" by (auto simp: res_bind_Inr_iff res_map_Inr_iff)
  show ?case
    using reads_operand [OF scans_compare [OF t(1,2) assms, of o1]
        compare_operand [OF _ scans_value(2) [OF t(2) assms], of field o1], of ff "Compare field o1 v"]
      Compare.prems(2) by (simp add: t(3))
next
  case (InList field vs)
  then obtain ps where p: "validate_field field = Inr ()" "vs \<noteq> []" "list_all2 (\<lambda>v p. in_part ff field v = Inr p) vs ps"
    "s = ''('' @ str_join '' or '' ps @ '')''"
    by (auto simp: res_bind_Inr_iff res_map_Inr_iff res_traverse_Inr_iff split: if_split_asm)
  from in_parts [OF p(3,1) assms] InList.prems(2) obtain tss where
    t: "list_all2 scans ps tss" "list_all2 ands tss (map (\<lambda>v. [OCmp field ''eq'' (scalar_lit ff v)]) vs)" by auto
  have "ps \<noteq> []" using p(2,3) by auto
  from reads_operand [OF or_list [OF t this], of ff "InList field vs"] show ?case
    by (simp add: p(4) list_ex_iff)
next
  case (NotInList field vs)
  then obtain ps where p: "validate_field field = Inr ()" "vs \<noteq> []" "list_all2 (\<lambda>v p. in_part ff field v = Inr p) vs ps"
    "s = ''not ('' @ str_join '' or '' ps @ '')''"
    by (auto simp: res_bind_Inr_iff res_map_Inr_iff res_traverse_Inr_iff split: if_split_asm)
  from in_parts [OF p(3,1) assms] NotInList.prems(2) obtain tss where
    t: "list_all2 scans ps tss" "list_all2 ands tss (map (\<lambda>v. [OCmp field ''eq'' (scalar_lit ff v)]) vs)" by auto
  have "ps \<noteq> []" using p(2,3) by auto
  note o1 = or_list [OF t this]
  have "scans s (TWord ''not'' # TL # tok_join (TWord ''or'') tss @ [TR])"
    using scans_not [of "str_join '' or '' ps @ '')''"] o1(1) by (simp add: p(4))
  from reads_operand [OF this not_operand [OF o1(2)], of ff "NotInList field vs"] show ?case
    by (simp add: list_ex_iff)
next
  case (FAnd fs)
  then obtain ps where p: "fs \<noteq> []" "list_all2 (\<lambda>f s. to_odata ff f = Inr s) fs ps" "s = str_join '' and '' ps"
    by (auto simp: res_map_Inr_iff res_traverse_Inr_iff split: if_split_asm)
  have "\<exists>tss ess. list_all2 scans ps tss \<and> list_all2 ands tss ess \<and>
      (\<forall>c. list_all2 (\<lambda>es f. list_all (odata_holds c) es = filter_holds ff c f) ess fs)"
    by (rule children [OF p(2)]) (use FAnd in \<open>auto simp: list_all_iff\<close>)
  then obtain tss ess where t: "list_all2 scans ps tss" "list_all2 ands tss ess"
    "\<And>c. list_all2 (\<lambda>es f. list_all (odata_holds c) es = filter_holds ff c f) ess fs" by blast
  have ne: "ps \<noteq> []" "tss \<noteq> []" using p(1,2) t(1) by auto
  show ?case
    unfolding reads_as_def using scans_join [OF t(1) ne(1), of "''and''"] ands_join [OF t(2) ne(2)] holds_children(1) [OF t(3)]
    by (intro exI [of _ "tok_join (TWord ''and'') tss"] exI [of _ "concat ess"]) (simp add: p(3))
next
  case (FOr fs)
  then obtain ps where p: "fs \<noteq> []" "list_all2 (\<lambda>f s. to_odata ff f = Inr s) fs ps" "s = ''('' @ str_join '' or '' ps @ '')''"
    by (auto simp: res_map_Inr_iff res_traverse_Inr_iff split: if_split_asm)
  have "\<exists>tss ess. list_all2 scans ps tss \<and> list_all2 ands tss ess \<and>
      (\<forall>c. list_all2 (\<lambda>es f. list_all (odata_holds c) es = filter_holds ff c f) ess fs)"
    by (rule children [OF p(2)]) (use FOr in \<open>auto simp: list_all_iff\<close>)
  then obtain tss ess where t: "list_all2 scans ps tss" "list_all2 ands tss ess"
    "\<And>c. list_all2 (\<lambda>es f. list_all (odata_holds c) es = filter_holds ff c f) ess fs" by blast
  have "ps \<noteq> []" using p(1,2) by auto
  from reads_operand [OF or_list [OF t(1,2) this], of ff "FOr fs"] holds_children(2) [OF t(3)] show ?case
    by (simp add: p(3))
next
  case (FNot f)
  then obtain t where t: "to_odata ff f = Inr t" "s = ''not ('' @ t @ '')''" by (auto simp: res_map_Inr_iff)
  from FNot.IH [OF t(1)] FNot.prems(2) obtain ts es where r: "scans t ts" "ands ts es"
    "\<And>c. list_all (odata_holds c) es = filter_holds ff c f" by (auto simp: reads_as_def)
  have "scans s (TWord ''not'' # TL # ts @ [TR])"
    using scans_not [of "t @ '')''"] scans_bracket [OF r(1)] by (simp add: t(2))
  from reads_operand [OF this not_operand [OF bracket_operand [OF ands_ors [OF r(2)]]], of ff "FNot f"] show ?case
    using r(3) by simp
qed simp_all

lemma res_ok [simp]:
  "(\<exists>b. res_map g r = Inr b) \<longleftrightarrow> (\<exists>a. r = Inr a)"
  "(\<exists>ys. res_traverse h xs = Inr ys) \<longleftrightarrow> (\<forall>x\<in>set xs. \<exists>y. h x = Inr y)"
proof -
  show "(\<exists>b. res_map g r = Inr b) \<longleftrightarrow> (\<exists>a. r = Inr a)" by (auto simp: res_map_Inr_iff)
  show "(\<exists>ys. res_traverse h xs = Inr ys) \<longleftrightarrow> (\<forall>x\<in>set xs. \<exists>y. h x = Inr y)"
  proof (induction xs)
    case (Cons x xs)
    then show ?case by (cases "h x"; cases "res_traverse h xs") auto
  qed simp
qed

lemma value_ok: "(\<exists>t. odata_value ff v = Inr t) \<longleftrightarrow> v \<noteq> SNull"
  by (cases v) (simp_all add: odata_value_def)

lemma in_part_ok: "(\<exists>t. in_part ff field v = Inr t) \<longleftrightarrow> v \<noteq> SNull"
  using value_ok [of ff v] by (simp add: in_part_def)

lemma to_odata_supported: "(\<exists>s. to_odata ff f = Inr s) \<longleftrightarrow> supported f"
proof (induction f)
  case (Compare field o1 v)
  then show ?case using value_ok [of ff v] by (cases "validate_field field") auto
next
  case (InList field vs)
  then show ?case using in_part_ok [of ff field] by (cases "validate_field field") auto
next
  case (NotInList field vs)
  then show ?case using in_part_ok [of ff field] by (cases "validate_field field") auto
next
  case (FAnd fs)
  then show ?case by (simp add: list_all_iff)
next
  case (FOr fs)
  then show ?case by (simp add: list_all_iff)
qed simp_all

lemma read_odata_ands:
  assumes "scans s ts" and "ands ts es"
  shows "read_odata s = Some (OOr [OAnd es])"
proof -
  have "scan s = Some ts" using scansD [OF assms(1), of "[]"] by simp
  moreover have "parse_or (3 * length ts + 2) ts = Some ([OAnd es], [])"
    using parse_ors [OF ands_ors [OF assms(2)], of "3 * length ts + 2" "[]"] by simp
  ultimately show ?thesis by (simp add: read_odata_def parse_tokens_odata_def)
qed


definition demo_floats :: float_fmt where
  "demo_floats = \<lparr>ff_whole = (\<lambda>_. True), ff_fixed1 = (\<lambda>_. ''1.0''), ff_show = (\<lambda>_. ''1.5'')\<rparr>"

definition demo_filter :: filter_expr where
  "demo_filter = FAnd [Compare ''a'' Eq (SStr (QUOTE # '' or b eq 1'')), FNot (InList ''b'' [SInt64 (- 2), SBool True])]"

text \<open>The one name: a comparison on a field called \<open>not\<close> is written and cannot be read.\<close>

lemma not_field_unreadable:
  "to_odata demo_floats (Compare ''not'' Eq (SBool True)) = Inr ''not eq true'' \<and> read_odata ''not eq true'' = None"
  by code_simp


end
