(* ===== verification/Rust_Effect.thy ===== *)
theory Rust_Effect
  imports Prelude
begin

text \<open>
  Fallible code that acts on a state, the \<open>async fn ... -> Result<T>\<close> of the backends, as
  explicit state passing: an action takes the state and returns its error or value with the
  state left behind (an error undoes nothing). \<open>act_spec\<close> is its Hoare triple, one
  postcondition for the value and one for the error; the rules are collected in
  \<open>inv_intros\<close>.
\<close>

type_synonym ('s, 'e, 'a) act = "'s \<Rightarrow> ('e + 'a) \<times> 's"

definition act_return :: "'a \<Rightarrow> ('s, 'e, 'a) act" where
  "act_return a = (\<lambda>s. (Inr a, s))"

definition act_fail :: "'e \<Rightarrow> ('s, 'e, 'a) act" where
  "act_fail e = (\<lambda>s. (Inl e, s))"

definition act_bind :: "('s, 'e, 'a) act \<Rightarrow> ('a \<Rightarrow> ('s, 'e, 'b) act) \<Rightarrow> ('s, 'e, 'b) act" where
  "act_bind m f = (\<lambda>s. case m s of (Inl e, s') \<Rightarrow> (Inl e, s') | (Inr a, s') \<Rightarrow> f a s')"

definition act_then :: "('s, 'e, unit) act \<Rightarrow> ('s, 'e, 'b) act \<Rightarrow> ('s, 'e, 'b) act" where
  "act_then m n = act_bind m (\<lambda>_. n)"

text \<open>The result of an action as a value: what \<open>match f().await\<close> sees.\<close>

definition act_attempt :: "('s, 'e, 'a) act \<Rightarrow> ('s, 'e, 'e + 'a) act" where
  "act_attempt m = (\<lambda>s. case m s of (r, s') \<Rightarrow> (Inr r, s'))"

definition act_result :: "'e + 'a \<Rightarrow> ('s, 'e, 'a) act" where
  "act_result r = (\<lambda>s. (r, s))"

definition act_gets :: "('s \<Rightarrow> 'a) \<Rightarrow> ('s, 'e, 'a) act" where
  "act_gets f = (\<lambda>s. (Inr (f s), s))"

definition act_modify :: "('s \<Rightarrow> 's) \<Rightarrow> ('s, 'e, unit) act" where
  "act_modify f = (\<lambda>s. (Inr (), f s))"

text \<open>\<open>match m.await\<close> on the result itself, and \<open>m.await.context(c)\<close>.\<close>

definition act_match :: "('s, 'e, 'a) act \<Rightarrow> ('e + 'a \<Rightarrow> ('s, 'f, 'b) act) \<Rightarrow> ('s, 'f, 'b) act" where
  "act_match m f = (\<lambda>s. case m s of (r, s') \<Rightarrow> f r s')"

definition act_context :: "string \<Rightarrow> ('s, string, 'a) act \<Rightarrow> ('s, string, 'a) act" where
  "act_context c m = act_match m (\<lambda>r. act_result (case r of Inl e \<Rightarrow> Inl (c @ '': '' @ e) | Inr a \<Rightarrow> Inr a))"

text \<open>\<open>for x in xs { f(x)?; }\<close>\<close>

fun act_for :: "'a list \<Rightarrow> ('a \<Rightarrow> ('s, 'e, unit) act) \<Rightarrow> ('s, 'e, unit) act" where
  "act_for [] f = act_return ()"
| "act_for (x # xs) f = act_then (f x) (act_for xs f)"

lemmas act_defs = act_return_def act_fail_def act_bind_def act_then_def act_attempt_def
  act_result_def act_gets_def act_modify_def

lemma act_return_apply [simp]: "act_return a s = (Inr a, s)"
  and act_fail_apply [simp]: "act_fail e s = (Inl e, s)"
  and act_result_apply [simp]: "act_result r s = (r, s)"
  and act_gets_apply [simp]: "act_gets f s = (Inr (f s), s)"
  and act_modify_apply [simp]: "act_modify g s = (Inr (), g s)"
  by (simp_all add: act_defs)

lemma act_bind_apply:
  "act_bind m f s = (case m s of (Inl e, s') \<Rightarrow> (Inl e, s') | (Inr a, s') \<Rightarrow> f a s')"
  by (simp add: act_bind_def)

lemma act_bind_return [simp]: "act_bind (act_return a) f = f a"
  and act_bind_fail [simp]: "act_bind (act_fail e) f = act_fail e"
  by (simp_all add: act_defs)

lemma act_result_simps [simp]: "act_result (Inr a) = act_return a" "act_result (Inl e) = act_fail e"
  by (simp_all add: act_defs)

lemma act_bind_assoc: "act_bind (act_bind m f) g = act_bind m (\<lambda>a. act_bind (f a) g)"
  by (auto simp: act_bind_def fun_eq_iff split: prod.splits sum.splits)

lemma act_bind_Inr:
  "act_bind m f s = (Inr b, s') \<longleftrightarrow> (\<exists>a s1. m s = (Inr a, s1) \<and> f a s1 = (Inr b, s'))"
  by (auto simp: act_bind_def split: prod.splits sum.splits)

lemma act_bind_Inl:
  "act_bind m f s = (Inl e, s') \<longleftrightarrow>
     m s = (Inl e, s') \<or> (\<exists>a s1. m s = (Inr a, s1) \<and> f a s1 = (Inl e, s'))"
  by (auto simp: act_bind_def split: prod.splits sum.splits)

lemma act_match_apply: "act_match m f s = (case m s of (r, s') \<Rightarrow> f r s')"
  by (simp add: act_match_def)

lemma act_context_Inr: "act_context c m s = (Inr a, s') \<longleftrightarrow> m s = (Inr a, s')"
  by (auto simp: act_context_def act_match_def split: prod.splits sum.splits)

lemma act_attempt_apply [simp]: "act_attempt m s = (Inr (fst (m s)), snd (m s))"
  by (simp add: act_attempt_def split: prod.splits)

section \<open>Triples\<close>

definition act_spec ::
  "('s \<Rightarrow> bool) \<Rightarrow> ('s, 'e, 'a) act \<Rightarrow> ('a \<Rightarrow> 's \<Rightarrow> bool) \<Rightarrow> ('e \<Rightarrow> 's \<Rightarrow> bool) \<Rightarrow> bool" where
  "act_spec P m Q E \<longleftrightarrow>
     (\<forall>s. P s \<longrightarrow> (case m s of (Inl e, s') \<Rightarrow> E e s' | (Inr a, s') \<Rightarrow> Q a s'))"

text \<open>An action that keeps a property of the state whatever it returns.\<close>

abbreviation act_keeps :: "('s \<Rightarrow> bool) \<Rightarrow> ('s, 'e, 'a) act \<Rightarrow> bool" where
  "act_keeps P m \<equiv> act_spec P m (\<lambda>_. P) (\<lambda>_. P)"

lemma act_specI:
  "(\<And>s r s'. P s \<Longrightarrow> m s = (r, s') \<Longrightarrow> case r of Inl e \<Rightarrow> E e s' | Inr a \<Rightarrow> Q a s') \<Longrightarrow> act_spec P m Q E"
  by (fastforce simp: act_spec_def split: prod.splits sum.splits)

lemma act_specD_Inr: "act_spec P m Q E \<Longrightarrow> P s \<Longrightarrow> m s = (Inr a, s') \<Longrightarrow> Q a s'"
  by (fastforce simp: act_spec_def)

lemma act_specD_Inl: "act_spec P m Q E \<Longrightarrow> P s \<Longrightarrow> m s = (Inl e, s') \<Longrightarrow> E e s'"
  by (fastforce simp: act_spec_def)

lemma act_specD: "act_spec P m Q E \<Longrightarrow> P s \<Longrightarrow> m s = (r, s') \<Longrightarrow> case r of Inl e \<Rightarrow> E e s' | Inr a \<Rightarrow> Q a s'"
  by (cases r) (auto dest: act_specD_Inr act_specD_Inl)

lemma act_keepsD: "act_keeps P m \<Longrightarrow> P s \<Longrightarrow> P (snd (m s))"
  by (cases "m s"; cases "fst (m s)") (auto dest: act_specD_Inr act_specD_Inl)

lemma act_spec_bind:
  assumes "act_spec P m R E" and "\<And>a. act_spec (R a) (f a) Q E"
  shows "act_spec P (act_bind m f) Q E"
  using assms by (fastforce simp: act_spec_def act_bind_def split: prod.splits sum.splits)

lemma act_spec_weaken:
  assumes "act_spec P' m Q' E'" and "\<And>s. P s \<Longrightarrow> P' s"
    and "\<And>a s. Q' a s \<Longrightarrow> Q a s" and "\<And>e s. E' e s \<Longrightarrow> E e s"
  shows "act_spec P m Q E"
  using assms by (fastforce simp: act_spec_def split: prod.splits sum.splits)

lemma act_keeps_basic [inv_intros]:
  "act_keeps P (act_return a)" "act_keeps P (act_fail e)" "act_keeps P (act_result r)"
  "act_keeps P (act_gets g)"
  by (auto simp: act_spec_def split: sum.splits)

lemma act_keeps_modify: "(\<And>s. P s \<Longrightarrow> P (f s)) \<Longrightarrow> act_keeps P (act_modify f)"
  by (simp add: act_spec_def)

lemma act_keeps_bind [inv_intros]:
  "act_keeps P m \<Longrightarrow> (\<And>a. act_keeps P (f a)) \<Longrightarrow> act_keeps P (act_bind m f)"
  by (rule act_spec_bind)

lemma act_keeps_then [inv_intros]:
  "act_keeps P m \<Longrightarrow> act_keeps P n \<Longrightarrow> act_keeps P (act_then m n)"
  unfolding act_then_def by (rule act_spec_bind)

lemma act_keeps_attempt [inv_intros]: "act_keeps P m \<Longrightarrow> act_keeps P (act_attempt m)"
  using act_keepsD [of P m] by (simp add: act_spec_def)

lemma act_keeps_for [inv_intros]: "(\<And>x. x \<in> set xs \<Longrightarrow> act_keeps P (f x)) \<Longrightarrow> act_keeps P (act_for xs f)"
  by (induction xs) (auto intro!: inv_intros)

lemma act_keeps_if [inv_intros]:
  "(b \<Longrightarrow> act_keeps P m) \<Longrightarrow> (\<not> b \<Longrightarrow> act_keeps P n) \<Longrightarrow> act_keeps P (if b then m else n)"
  by simp

lemma act_keeps_option [inv_intros]:
  "(x = None \<Longrightarrow> act_keeps P m) \<Longrightarrow> (\<And>a. x = Some a \<Longrightarrow> act_keeps P (f a)) \<Longrightarrow>
   act_keeps P (case x of None \<Rightarrow> m | Some a \<Rightarrow> f a)"
  by (cases x) simp_all

lemma act_keeps_sum [inv_intros]:
  "(\<And>e. x = Inl e \<Longrightarrow> act_keeps P (g e)) \<Longrightarrow> (\<And>a. x = Inr a \<Longrightarrow> act_keeps P (f a)) \<Longrightarrow>
   act_keeps P (case x of Inl e \<Rightarrow> g e | Inr a \<Rightarrow> f a)"
  by (cases x) simp_all

lemma act_keeps_prod [inv_intros]:
  "(\<And>a b. x = (a, b) \<Longrightarrow> act_keeps P (f a b)) \<Longrightarrow> act_keeps P (case x of (a, b) \<Rightarrow> f a b)"
  by (cases x) simp_all

lemma act_keeps_let [inv_intros]: "act_keeps P (f x) \<Longrightarrow> act_keeps P (Let x f)"
  by simp

end
