(* ===== verification/Azure_Store.thy ===== *)
theory Azure_Store
  imports Azure_Document Azure_Filter Rust_Effect
begin

text \<open>
  The document store over the Table service's REST interface
  (\<open>src/crates/azure-table/src/store.rs\<close>): collections and their tables, entity addresses,
  signed requests, the five operations with every answer of the service, and the paging of a
  query. The HTTP client, the clock, HMAC with Base64 and percent-encoding are third-party
  code: they are the functions of \<open>table_env\<close>.
\<close>

record request =
  rq_method :: string
  rq_uri :: string
  rq_headers :: "(string \<times> string) list"
  rq_body :: "json option"

record response =
  rs_status :: nat
  rs_status_line :: string
  rs_headers :: "string \<Rightarrow> string option"
  rs_text :: string
  rs_body :: "string + json"

record 'w table_env =
  te_base_url :: string
  te_account :: string
  te_floats :: float_fmt
  te_json :: json_env
  te_urlencode :: "string \<Rightarrow> string"
  te_hmac_base64 :: "string \<Rightarrow> string"
  te_header_ok :: "string \<Rightarrow> bool"
  te_now :: "'w \<Rightarrow> string"
  te_send :: "request \<Rightarrow> 'w \<Rightarrow> (string + response) \<times> 'w"

type_synonym ('w, 'a) table_act = "('w, string, 'a) act"

section \<open>Collections and addresses\<close>

abbreviation in_quotes :: "string \<Rightarrow> string" where
  "in_quotes s \<equiv> QUOTE # s @ [QUOTE]"

definition validate_table_name :: "string \<Rightarrow> string + unit" where
  "validate_table_name table =
     (if length table < 3 \<or> 63 < length table
      then Inl (''invalid table name '' @ in_quotes table @ '': length must be between 3 and 63 characters'')
      else if \<not> ascii_alpha (hd table)
      then Inl (''invalid table name '' @ in_quotes table @ '': first character must be a letter'')
      else if \<not> list_all (\<lambda>c. ascii_alpha c \<or> is_digit c) table
      then Inl (''invalid table name '' @ in_quotes table @ '': only ASCII letters and digits are allowed'')
      else if eq_ignore_ascii_case table ''tables''
      then Inl (''invalid table name '' @ in_quotes table @ '': reserved table name'')
      else Inr ())"

definition parse_collection :: "string \<Rightarrow> string + string \<times> string option" where
  "parse_collection collection =
     (case split_once CHR ''/'' collection of
        Some (table, pk) \<Rightarrow>
          if table \<noteq> [] \<and> pk \<noteq> [] then res_map (\<lambda>_. (table, Some pk)) (validate_table_name table)
          else if table \<noteq> [] then Inl (''collection '' @ in_quotes collection @ '' has an empty partition key after '' @ in_quotes ''/'')
          else Inl (''collection '' @ in_quotes collection @ '' has an empty table name'')
      | None \<Rightarrow>
          if collection \<noteq> [] then res_map (\<lambda>_. (collection, None)) (validate_table_name collection)
          else Inl ''collection must not be empty'')"

definition double_quotes :: "string \<Rightarrow> string" where
  "double_quotes s = str_replace_char QUOTE [QUOTE, QUOTE] s"

definition escape_entity_key :: "'w table_env \<Rightarrow> string \<Rightarrow> string" where
  "escape_entity_key env v = te_urlencode env (double_quotes v)"

definition entity_uri :: "'w table_env \<Rightarrow> string \<Rightarrow> string \<Rightarrow> string \<Rightarrow> string" where
  "entity_uri env table pk rk =
     te_base_url env @ ''/'' @ table @ ''(PartitionKey='' @ [QUOTE] @ escape_entity_key env pk @ [QUOTE] @
     '',RowKey='' @ [QUOTE] @ escape_entity_key env rk @ [QUOTE] @ '')''"

definition build_odata_filter :: "string option \<Rightarrow> string option \<Rightarrow> string option" where
  "build_odata_filter pk server_filter =
     (let parts = (case pk of None \<Rightarrow> [] | Some pk \<Rightarrow> [''PartitionKey eq '' @ [QUOTE] @ double_quotes pk @ [QUOTE]]) @
                  (case server_filter of None \<Rightarrow> [] | Some sf \<Rightarrow> [sf])
      in if parts = [] then None else Some (str_join '' and '' parts))"

section \<open>Signed requests\<close>

text \<open>\<open>uri.split("://").nth(1)\<close>, from its first slash, up to a question mark.\<close>

definition uri_path :: "string \<Rightarrow> string" where
  "uri_path uri =
     (case split_once_str ''://'' uri of
        None \<Rightarrow> ''/''
      | Some (_, rest) \<Rightarrow>
          (let after_scheme = (case split_once_str ''://'' rest of None \<Rightarrow> rest | Some (a, _) \<Rightarrow> a) in
           case str_find CHR ''/'' after_scheme of
             None \<Rightarrow> ''/''
           | Some i \<Rightarrow> hd (str_split CHR ''?'' (drop i after_scheme))))"

definition sign_request :: "'w table_env \<Rightarrow> string \<Rightarrow> string \<Rightarrow> string" where
  "sign_request env date_time uri =
     ''SharedKeyLite '' @ te_account env @ '':'' @
     te_hmac_base64 env (date_time @ CHR 0x0A # ''/'' @ te_account env @ uri_path uri)"

definition azure_headers :: "'w table_env \<Rightarrow> string \<Rightarrow> string \<Rightarrow> string + (string \<times> string) list" where
  "azure_headers env date auth =
     (if \<not> te_header_ok env date then Inl ''invalid x-ms-date header value''
      else if \<not> te_header_ok env auth then Inl ''invalid Authorization header value''
      else Inr [(''x-ms-date'', date), (''x-ms-version'', ''2026-02-06''), (''Authorization'', auth),
                (''Accept'', ''application/json;odata=fullmetadata'')])"

text \<open>\<open>signed_request\<close>, its extra headers and body, and \<open>send\<close>.\<close>

definition send_signed ::
  "'w table_env \<Rightarrow> string \<Rightarrow> string \<Rightarrow> (string \<times> string) list \<Rightarrow> json option \<Rightarrow> string \<Rightarrow> ('w, response) table_act" where
  "send_signed env method uri extra body context1 w =
     (let now = te_now env w in
      case azure_headers env now (sign_request env now uri) of
        Inl e \<Rightarrow> (Inl e, w)
      | Inr headers \<Rightarrow>
          (case te_send env \<lparr>rq_method = method, rq_uri = uri, rq_headers = headers @ extra, rq_body = body\<rparr> w of
             (Inl e, w') \<Rightarrow> (Inl (context1 @ e), w')
           | (Inr r, w') \<Rightarrow> (Inr r, w')))"

definition is_success :: "response \<Rightarrow> bool" where
  "is_success r \<longleftrightarrow> 200 \<le> rs_status r \<and> rs_status r < 300"

definition failed :: "string \<Rightarrow> response \<Rightarrow> string" where
  "failed what r = what @ '' failed ('' @ rs_status_line r @ ''): '' @ rs_text r"

definition parsed_body :: "response \<Rightarrow> string + json" where
  "parsed_body r =
     (case rs_body r of Inl e \<Rightarrow> Inl (''failed to parse response JSON: '' @ e) | Inr v \<Rightarrow> Inr v)"

definition HTTP_ERROR :: string where "HTTP_ERROR = ''HTTP request error: ''"

section \<open>The operations on one document\<close>

definition table_get :: "'w table_env \<Rightarrow> string \<Rightarrow> string \<Rightarrow> ('w, document option) table_act" where
  "table_get env collection i =
     act_bind (act_result (parse_collection collection)) (\<lambda>(table, _).
     act_bind (act_result (decode_id i)) (\<lambda>(pk, rk).
     act_bind (send_signed env ''GET'' (entity_uri env table pk rk) [] None HTTP_ERROR) (\<lambda>r.
       if rs_status r = 404 then act_return None
       else if \<not> is_success r then act_fail (failed ''Azure Table get'' r)
       else act_bind (act_result (parsed_body r)) (\<lambda>entity.
              act_result (res_map Some (unflatten (te_json env) entity))))))"

definition table_insert :: "'w table_env \<Rightarrow> string \<Rightarrow> document \<Rightarrow> ('w, unit) table_act" where
  "table_insert env collection doc =
     act_bind (act_result (parse_collection collection)) (\<lambda>(table, _).
     act_bind (act_result (flatten (te_json env) doc)) (\<lambda>body.
     act_bind (send_signed env ''POST'' (te_base_url env @ ''/'' @ table) [] (Some body) HTTP_ERROR) (\<lambda>r.
       if rs_status r = 409 then act_fail (''entity already exists in '' @ in_quotes collection @ '' with id '' @ in_quotes (dc_id doc))
       else if \<not> is_success r then act_fail (failed ''Azure Table insert'' r)
       else act_return ())))"

definition table_put :: "'w table_env \<Rightarrow> string \<Rightarrow> document \<Rightarrow> ('w, unit) table_act" where
  "table_put env collection doc =
     act_bind (act_result (parse_collection collection)) (\<lambda>(table, _).
     act_bind (act_result (decode_id (dc_id doc))) (\<lambda>(pk, rk).
     act_bind (act_result (flatten (te_json env) doc)) (\<lambda>body.
     act_bind (send_signed env ''PUT'' (entity_uri env table pk rk) [] (Some body) HTTP_ERROR) (\<lambda>r.
       if \<not> is_success r then act_fail (failed ''Azure Table put'' r) else act_return ()))))"

definition table_delete :: "'w table_env \<Rightarrow> string \<Rightarrow> string \<Rightarrow> ('w, bool) table_act" where
  "table_delete env collection i =
     act_bind (act_result (parse_collection collection)) (\<lambda>(table, _).
     act_bind (act_result (decode_id i)) (\<lambda>(pk, rk).
     act_bind (send_signed env ''DELETE'' (entity_uri env table pk rk) [(''If-Match'', ''*'')] None HTTP_ERROR) (\<lambda>r.
       if rs_status r = 404 then act_return False
       else if \<not> is_success r then act_fail (failed ''Azure Table delete'' r)
       else act_return True)))"

definition ensure_table :: "'w table_env \<Rightarrow> string \<Rightarrow> ('w, bool) table_act" where
  "ensure_table env table =
     act_bind (send_signed env ''POST'' (te_base_url env @ ''/Tables'') []
       (Some (JObj [(''TableName'', JStr table)])) ''create table request: '') (\<lambda>r.
       if rs_status r = 201 \<or> rs_status r = 204 then act_return True
       else if rs_status r = 409 then act_return False
       else act_fail (failed ''create table'' r))"

section \<open>Queries\<close>

definition query_params :: "'w table_env \<Rightarrow> string option \<Rightarrow> nat option \<Rightarrow> string option \<Rightarrow> string list" where
  "query_params env odata_filter fetch_limit continuation =
     (case odata_filter of None \<Rightarrow> [] | Some f \<Rightarrow> [''$filter='' @ te_urlencode env f]) @
     (case fetch_limit of None \<Rightarrow> [] | Some l \<Rightarrow> [''$top='' @ dec_nat l]) @
     (case continuation of None \<Rightarrow> []
      | Some cont \<Rightarrow>
          (case decode_continuation cont of
             (pk, rk) \<Rightarrow>
               (''NextPartitionKey='' @ te_urlencode env pk) #
               (case rk of None \<Rightarrow> [] | Some row \<Rightarrow> [''NextRowKey='' @ te_urlencode env row])))"

definition fetch_page ::
  "'w table_env \<Rightarrow> string \<Rightarrow> string option \<Rightarrow> nat option \<Rightarrow> string option \<Rightarrow> ('w, json \<times> string option) table_act" where
  "fetch_page env table odata_filter fetch_limit continuation =
     (let base_uri = te_base_url env @ ''/'' @ table @ ''()'';
          params = query_params env odata_filter fetch_limit continuation;
          uri = (if params = [] then base_uri else base_uri @ ''?'' @ str_join ''&'' params)
      in act_bind (send_signed env ''GET'' uri [] None HTTP_ERROR) (\<lambda>r.
           if \<not> is_success r then act_fail (failed ''Azure Table query'' r)
           else act_bind (act_result (parsed_body r)) (\<lambda>body.
             act_return (body, encode_continuation (rs_headers r ''x-ms-continuation-NextPartitionKey'')
                                 (rs_headers r ''x-ms-continuation-NextRowKey'')))))"

definition page_documents :: "'w table_env \<Rightarrow> json \<Rightarrow> string + document list" where
  "page_documents env body =
     (case (case json_get body ''value'' of None \<Rightarrow> None | Some v \<Rightarrow> as_array v) of
        None \<Rightarrow> Inr []
      | Some entries \<Rightarrow> res_traverse (unflatten (te_json env)) entries)"

record query_options =
  qo_filter :: "filter_expr option"
  qo_limit :: "nat option"
  qo_offset :: "nat option"
  qo_continuation :: "string option"

record query_result =
  qr_documents :: "document list"
  qr_continuation :: "string option"

text \<open>One request is one unit of fuel; \<open>None\<close> is a loop still running.\<close>

fun query_loop ::
  "nat \<Rightarrow> 'w table_env \<Rightarrow> string \<Rightarrow> string option \<Rightarrow> nat option \<Rightarrow> document list \<Rightarrow> string option \<Rightarrow> 'w
     \<Rightarrow> ((string + query_result) \<times> 'w) option" where
  "query_loop 0 env table odata_filter limit docs cont w = None"
| "query_loop (Suc n) env table odata_filter limit docs cont w =
     (case fetch_page env table odata_filter (map_option (\<lambda>l. l - length docs) limit) cont w of
        (Inl e, w') \<Rightarrow> Some (Inl e, w')
      | (Inr (body, next1), w') \<Rightarrow>
          (case page_documents env body of
             Inl e \<Rightarrow> Some (Inl e, w')
           | Inr page \<Rightarrow>
               (let docs' = docs @ page;
                    reached_limit = (case limit of None \<Rightarrow> False | Some l \<Rightarrow> l \<le> length docs')
                in if next1 = None \<or> reached_limit
                   then Some (Inr \<lparr>qr_documents = docs', qr_continuation = next1\<rparr>, w')
                   else query_loop n env table odata_filter limit docs' next1 w')))"

definition query_filter :: "'w table_env \<Rightarrow> string option \<Rightarrow> query_options \<Rightarrow> string + string option" where
  "query_filter env pk options =
     (case qo_filter options of
        None \<Rightarrow> Inr (build_odata_filter pk None)
      | Some f \<Rightarrow> res_map (\<lambda>s. build_odata_filter pk (Some s)) (to_odata (te_floats env) f))"

definition table_query ::
  "nat \<Rightarrow> 'w table_env \<Rightarrow> string \<Rightarrow> query_options \<Rightarrow> 'w \<Rightarrow> ((string + query_result) \<times> 'w) option" where
  "table_query fuel env collection options w =
     (if (case qo_offset options of None \<Rightarrow> False | Some o1 \<Rightarrow> 0 < o1)
      then Some (Inl (''offset is not supported by Azure Table '' @ [CHR 0xE2, CHR 0x80, CHR 0x94] @
                      '' use continuation tokens for pagination instead''), w)
      else if qo_limit options = Some 0
      then Some (Inr \<lparr>qr_documents = [], qr_continuation = qo_continuation options\<rparr>, w)
      else case parse_collection collection of
        Inl e \<Rightarrow> Some (Inl e, w)
      | Inr (table, pk) \<Rightarrow>
          (case query_filter env pk options of
             Inl e \<Rightarrow> Some (Inl e, w)
           | Inr odata_filter \<Rightarrow>
               query_loop fuel env table odata_filter (qo_limit options) [] (qo_continuation options) w))"

section \<open>A query stays in its partition\<close>

lemma partition_scans:
  "scans (''PartitionKey eq '' @ [QUOTE] @ double_quotes pk @ [QUOTE]) [TWord ''PartitionKey'', TWord ''eq'', TStr pk]"
proof -
  have w: "scans ''PartitionKey'' [TWord ''PartitionKey'']" "scans ''eq'' [TWord ''eq'']"
    by (rule scans_word; simp add: word_char_def word_start_def ascii_alpha_def)+
  show ?thesis using scans_space [OF w(1) scans_space [OF w(2) scans_quoted [of pk]]]
    by (simp add: quoted_def double_quotes_def)
qed


definition demo_query :: query_options where
  "demo_query = \<lparr>qo_filter = Some demo_filter, qo_limit = Some 5, qo_offset = None, qo_continuation = None\<rparr>"

text \<open>A service of one row, answered whole to every request.\<close>

definition demo_table :: "unit table_env" where
  "demo_table = \<lparr>te_base_url = ''https://h'', te_account = ''a'', te_floats = demo_floats, te_json = demo_json,
     te_urlencode = (\<lambda>s. s), te_hmac_base64 = (\<lambda>s. s), te_header_ok = (\<lambda>_. True), te_now = (\<lambda>_. ''now''),
     te_send = (\<lambda>_ w. (Inr \<lparr>rs_status = 200, rs_status_line = ''200 OK'', rs_headers = (\<lambda>_. None), rs_text = [],
       rs_body = Inr (JObj [(''value'', JArr [JObj [(''PartitionKey'', JStr ''p''), (''RowKey'', JStr ''r'')]])])\<rparr>, w))\<rparr>"


section \<open>Paging\<close>

text \<open>
  What the service promises of a scan: it walks its rows in order, a row giving a document or
  none (one the filter drops), answers a stretch of them per request, never more documents
  than \<open>$top\<close>, and names the next row in the continuation headers until the rows are exhausted.
\<close>

definition matching :: "document option list \<Rightarrow> document list" where
  "matching scan_rows = List.map_filter (\<lambda>r. r) scan_rows"

definition token_at :: "(nat \<Rightarrow> string) \<Rightarrow> nat \<Rightarrow> string option" where
  "token_at tok p = (if p = 0 then None else Some (tok p))"

definition serves ::
  "'w table_env \<Rightarrow> string \<Rightarrow> string option \<Rightarrow> document option list \<Rightarrow> (nat \<Rightarrow> string) \<Rightarrow> ('w \<Rightarrow> bool) \<Rightarrow> bool" where
  "serves env table odata_filter scan_rows tok up \<longleftrightarrow>
     (\<forall>p limit1 w. up w \<longrightarrow> (p = 0 \<or> p < length scan_rows) \<longrightarrow> limit1 \<noteq> Some 0 \<longrightarrow>
        (\<exists>q body w'. fetch_page env table odata_filter limit1 (token_at tok p) w =
             (Inr (body, if q < length scan_rows then Some (tok q) else None), w') \<and> up w' \<and> p \<le> q \<and> q \<le> length scan_rows \<and>
           (p < q \<or> q = length scan_rows) \<and> page_documents env body = Inr (matching (take (q - p) (drop p scan_rows))) \<and>
           (case limit1 of None \<Rightarrow> True | Some l \<Rightarrow> length (matching (take (q - p) (drop p scan_rows))) \<le> l)))"

lemma servesD:
  assumes "serves env table odata_filter scan_rows tok up" and "up w" and "p = 0 \<or> p < length scan_rows" and "limit1 \<noteq> Some 0"
  obtains q body w' where "fetch_page env table odata_filter limit1 (token_at tok p) w =
      (Inr (body, if q < length scan_rows then Some (tok q) else None), w')" and "up w'" and "p \<le> q" and "q \<le> length scan_rows"
    and "p < q \<or> q = length scan_rows" and "page_documents env body = Inr (matching (take (q - p) (drop p scan_rows)))"
    and "case limit1 of None \<Rightarrow> True | Some l \<Rightarrow> length (matching (take (q - p) (drop p scan_rows))) \<le> l"
  using assms unfolding serves_def by metis

lemma matching_append: "matching (xs @ ys) = matching xs @ matching ys"
  by (simp add: matching_def map_filter_def)

lemma matching_stretch:
  assumes "p \<le> q"
  shows "matching (take q scan_rows) = matching (take p scan_rows) @ matching (take (q - p) (drop p scan_rows))"
proof -
  have "take q scan_rows = take p scan_rows @ take (q - p) (drop p scan_rows)" using assms take_add [of p "q - p" scan_rows] by simp
  then show ?thesis by (simp add: matching_append)
qed

definition room :: "nat option \<Rightarrow> document list \<Rightarrow> bool" where
  "room limit docs = (case limit of None \<Rightarrow> True | Some l \<Rightarrow> length docs < l)"

definition within :: "nat option \<Rightarrow> document list \<Rightarrow> bool" where
  "within limit docs = (case limit of None \<Rightarrow> True | Some l \<Rightarrow> length docs \<le> l)"

lemma query_loop_pages:
  assumes "serves env table odata_filter scan_rows tok up"
  shows "\<lbrakk>up w; p = 0 \<or> p < length scan_rows; room limit (docs @ matching (take p scan_rows)); length scan_rows - p < fuel\<rbrakk> \<Longrightarrow>
    \<exists>q w'. query_loop fuel env table odata_filter limit (docs @ matching (take p scan_rows)) (token_at tok p) w =
        Some (Inr \<lparr>qr_documents = docs @ matching (take q scan_rows),
                   qr_continuation = (if q < length scan_rows then Some (tok q) else None)\<rparr>, w') \<and>
      p \<le> q \<and> q \<le> length scan_rows \<and> within limit (docs @ matching (take q scan_rows)) \<and>
      (q < length scan_rows \<longrightarrow> \<not> room limit (docs @ matching (take q scan_rows)))"
proof (induction fuel arbitrary: p w)
  case 0
  then show ?case by simp
next
  case (Suc fuel)
  let ?docs = "\<lambda>p. docs @ matching (take p scan_rows)"
  have limit1: "map_option (\<lambda>l. l - length (?docs p)) limit \<noteq> Some 0"
    using Suc.prems(3) by (auto simp: room_def)
  obtain q body w' where
    page: "fetch_page env table odata_filter (map_option (\<lambda>l. l - length (?docs p)) limit) (token_at tok p) w =
        (Inr (body, if q < length scan_rows then Some (tok q) else None), w')" and up: "up w'" and q: "p \<le> q" "q \<le> length scan_rows"
      "p < q \<or> q = length scan_rows" and pd: "page_documents env body = Inr (matching (take (q - p) (drop p scan_rows)))"
    and limit1': "case map_option (\<lambda>l. l - length (?docs p)) limit of None \<Rightarrow> True
               | Some l \<Rightarrow> length (matching (take (q - p) (drop p scan_rows))) \<le> l"
    by (rule servesD [OF assms Suc.prems(1,2) limit1])
  have docs: "?docs p @ matching (take (q - p) (drop p scan_rows)) = ?docs q" using matching_stretch [OF q(1)] by simp
  have inside: "within limit (?docs q)"
    using limit1' Suc.prems(3) matching_stretch [OF q(1), of scan_rows] by (cases limit) (auto simp: within_def room_def)
  have full: "(case limit of None \<Rightarrow> False | Some l \<Rightarrow> l \<le> length (?docs q)) \<longleftrightarrow> \<not> room limit (?docs q)"
    by (auto simp: room_def split: option.splits)
  have step: "query_loop (Suc fuel) env table odata_filter limit (?docs p) (token_at tok p) w =
    (if \<not> q < length scan_rows \<or> \<not> room limit (?docs q)
     then Some (Inr \<lparr>qr_documents = ?docs q, qr_continuation = (if q < length scan_rows then Some (tok q) else None)\<rparr>, w')
     else query_loop fuel env table odata_filter limit (?docs q) (Some (tok q)) w')"
    using page pd docs full by simp
  show ?case
  proof (cases "\<not> q < length scan_rows \<or> \<not> room limit (?docs q)")
    case True
    with step q(1,2) inside show ?thesis by (intro exI [of _ q] exI [of _ w']) auto
  next
    case False
    then have "p < q" "length scan_rows - q < fuel" "token_at tok q = Some (tok q)" using q(3) Suc.prems(4) by (auto simp: token_at_def)
    with Suc.IH [of w' q] up False obtain r w'' where
      "query_loop fuel env table odata_filter limit (?docs q) (Some (tok q)) w' =
        Some (Inr \<lparr>qr_documents = ?docs r, qr_continuation = (if r < length scan_rows then Some (tok r) else None)\<rparr>, w'')"
      "q \<le> r" "r \<le> length scan_rows" "within limit (?docs r)" "r < length scan_rows \<longrightarrow> \<not> room limit (?docs r)"
      by auto
    with step False q(1) show ?thesis by (intro exI [of _ r] exI [of _ w'']) auto
  qed
qed


definition demo_doc :: document where
  "demo_doc = \<lparr>dc_id = encode_id ''p'' ''r'', dc_data = je_to_vec demo_json (JObj [])\<rparr>"

lemma demo_table_serves:
  "serves demo_table ''abc'' sent [Some demo_doc]
     (\<lambda>_. ''t'') (\<lambda>_. True)"
proof -
  have u: "unflatten demo_json (JObj [(''PartitionKey'', JStr ''p''), (''RowKey'', JStr ''r'')]) =
      Inr demo_doc" by code_simp
  let ?body = "JObj [(''value'', JArr [JObj [(''PartitionKey'', JStr ''p''), (''RowKey'', JStr ''r'')]])]"
  have f: "fetch_page demo_table ''abc'' sent l t w = (Inr (?body, None), w)" for l t w
    by (simp add: demo_table_def fetch_page_def Let_def act_bind_def send_signed_def azure_headers_def is_success_def
        parsed_body_def act_result_def act_return_def encode_continuation_def)
  have d: "page_documents demo_table ?body = Inr [demo_doc]"
    by (simp add: demo_table_def page_documents_def json_get_def as_array_def as_object_def u)
  show ?thesis unfolding serves_def
  proof (intro allI impI)
    fix p w and limit1 :: "nat option"
    assume p: "p = 0 \<or> p < length [Some demo_doc]"
      and l: "limit1 \<noteq> Some 0"
    then have "p = 0" by auto
    with l show "\<exists>q body w'. fetch_page demo_table ''abc'' sent limit1 (token_at (\<lambda>_. ''t'') p) w =
        (Inr (body, if q < length [Some demo_doc]
                    then Some ''t'' else None), w') \<and> True \<and> p \<le> q \<and>
        q \<le> length [Some demo_doc] \<and>
        (p < q \<or> q = length [Some demo_doc]) \<and>
        page_documents demo_table body =
          Inr (matching (take (q - p) (drop p [Some demo_doc]))) \<and>
        (case limit1 of None \<Rightarrow> True
         | Some l \<Rightarrow> length (matching (take (q - p)
             (drop p [Some demo_doc]))) \<le> l)"
      by (intro exI [of _ 1] exI [of _ ?body] exI [of _ w])
        (cases limit1, auto simp: f d matching_def map_filter_def)
  qed
qed


section \<open>Connecting\<close>

record table_options =
  ao_name :: string
  ao_key :: string
  ao_endpoint :: string

record table_client =
  ac_name :: string
  ac_base_url :: string
  ac_hmac_key :: bytes

definition trim_end_matches :: "char \<Rightarrow> string \<Rightarrow> string" where
  "trim_end_matches c s = rev (dropWhile (\<lambda>x. x = c) (rev s))"

definition base_url :: "table_options \<Rightarrow> string" where
  "base_url options =
     (if ao_endpoint options = [] then ''https://'' @ ao_name options @ ''.table.core.windows.net''
      else trim_end_matches CHR ''/'' (ao_endpoint options))"

text \<open>Base64 is third-party code; the HTTP client is built by \<open>reqwest\<close>.\<close>

definition table_connect :: "(string \<Rightarrow> bytes option) \<Rightarrow> bool \<Rightarrow> table_options \<Rightarrow> string + table_client" where
  "table_connect decode_base64 http_builds options =
     (case decode_base64 (ao_key options) of
        None \<Rightarrow> Inl ''decoding storage account key from base64''
      | Some key \<Rightarrow>
          if http_builds
          then Inr \<lparr>ac_name = ao_name options, ac_base_url = base_url options, ac_hmac_key = key\<rparr>
          else Inl ''building HTTP client'')"

text \<open>No base address ends with a slash, so every request path has exactly the slashes it is built with.\<close>

lemma trim_end_matches_end: "\<not> ends_with (trim_end_matches c s) [c]"
proof (cases "dropWhile (\<lambda>x. x = c) (rev s)")
  case Nil
  then have "trim_end_matches c s = []" unfolding trim_end_matches_def by simp
  then show ?thesis by (simp add: ends_with_def starts_with_def)
next
  case (Cons x xs)
  then have "x \<noteq> c" by (auto simp: dropWhile_eq_Cons_conv)
  moreover from Cons have "trim_end_matches c s = rev (x # xs)" unfolding trim_end_matches_def by simp
  ultimately show ?thesis by (simp add: ends_with_def starts_with_def)
qed

lemma base_url_no_slash:
  assumes "table_connect decode_base64 http_builds options = Inr client"
  shows "\<not> ends_with (ac_base_url client) ''/''"
proof -
  have "\<not> ends_with (a @ ''.table.core.windows.net'') ''/''" for a
    by (simp add: ends_with_def starts_with_def)
  from this [of "''https://'' @ ao_name options"] have "\<not> ends_with (base_url options) ''/''"
    using trim_end_matches_end by (simp add: base_url_def)
  moreover have "ac_base_url client = base_url options"
    using assms by (auto simp: table_connect_def split: option.splits if_split_asm)
  ultimately show ?thesis by simp
qed

end
