(* ===== verification/Rust_Fs.thy ===== *)
theory Rust_Fs
  imports Rust_Effect Rust_BTree Rust_Text "HOL-Library.List_Lexorder" "HOL-Library.Char_ord"
begin

text \<open>
  The part of \<open>std::fs\<close> and of the system clock the filesystem backend uses: a tree of files
  and directories as a sorted map from paths (lists of names), the system calls as actions on
  it, and their errors with the one kind the code tells apart. Any call may also fail for a
  reason of its own: the state carries the failures to come, one flag per call.
\<close>

type_synonym path = "string list"

datatype fnode = File bytes | Dir

datatype io_error = Not_Found | Io_Other

record fs =
  fs_nodes :: "(path, fnode) btree"
  fs_now :: nat
  fs_faults :: "bool list"

type_synonym 'a io = "(fs, io_error, 'a) act"

definition fs_lookup :: "fs \<Rightarrow> path \<Rightarrow> fnode option" where
  "fs_lookup s p = (if p = [] then Some Dir else bt_get (fs_nodes s) p)"

text \<open>The error of a call on a path that is not there: a file in the middle is not \<open>NotFound\<close>.\<close>

definition fs_missing :: "fs \<Rightarrow> path \<Rightarrow> io_error" where
  "fs_missing s p =
     (if list_ex (\<lambda>k. case fs_lookup s (take k p) of Some (File _) \<Rightarrow> True | _ \<Rightarrow> False) [0..<length p]
      then Io_Other else Not_Found)"

definition fs_put :: "path \<Rightarrow> fnode \<Rightarrow> fs \<Rightarrow> fs" where
  "fs_put p n s = s\<lparr>fs_nodes := bt_insert p n (fs_nodes s)\<rparr>"

definition fs_drop :: "path \<Rightarrow> fs \<Rightarrow> fs" where
  "fs_drop p s = s\<lparr>fs_nodes := bt_remove p (fs_nodes s)\<rparr>"

definition faulty :: "'a io \<Rightarrow> 'a io" where
  "faulty m s =
     (case fs_faults s of
        [] \<Rightarrow> m s
      | b # bs \<Rightarrow> if b then (Inl Io_Other, s\<lparr>fs_faults := bs\<rparr>) else m (s\<lparr>fs_faults := bs\<rparr>))"

section \<open>System calls\<close>

definition fs_read :: "path \<Rightarrow> bytes io" where
  "fs_read p = faulty (\<lambda>s. (case fs_lookup s p of
     Some (File b) \<Rightarrow> Inr b | Some Dir \<Rightarrow> Inl Io_Other | None \<Rightarrow> Inl (fs_missing s p), s))"

definition fs_remove_file :: "path \<Rightarrow> unit io" where
  "fs_remove_file p = faulty (\<lambda>s. case fs_lookup s p of
     Some (File _) \<Rightarrow> (Inr (), fs_drop p s) | Some Dir \<Rightarrow> (Inl Io_Other, s) | None \<Rightarrow> (Inl (fs_missing s p), s))"

definition fs_parent_dir :: "fs \<Rightarrow> path \<Rightarrow> bool" where
  "fs_parent_dir s p \<longleftrightarrow> fs_lookup s (butlast p) = Some Dir"

definition fs_mkdir :: "path \<Rightarrow> unit io" where
  "fs_mkdir p = faulty (\<lambda>s. case fs_lookup s p of
     Some Dir \<Rightarrow> (Inr (), s)
   | Some (File _) \<Rightarrow> (Inl Io_Other, s)
   | None \<Rightarrow> if fs_parent_dir s p then (Inr (), fs_put p Dir s) else (Inl (fs_missing s p), s))"

definition fs_create_dir_all :: "path \<Rightarrow> unit io" where
  "fs_create_dir_all p = act_for (map (\<lambda>k. take k p) [1..<Suc (length p)]) fs_mkdir"

definition fs_create_new :: "path \<Rightarrow> unit io" where
  "fs_create_new p = faulty (\<lambda>s. case fs_lookup s p of
     Some _ \<Rightarrow> (Inl Io_Other, s)
   | None \<Rightarrow> if fs_parent_dir s p then (Inr (), fs_put p (File []) s) else (Inl (fs_missing s p), s))"

definition fs_write :: "path \<Rightarrow> bytes \<Rightarrow> unit io" where
  "fs_write p b = faulty (\<lambda>s. case fs_lookup s p of
     Some (File _) \<Rightarrow> (Inr (), fs_put p (File b) s) | _ \<Rightarrow> (Inl Io_Other, s))"

definition fs_sync :: "unit io" where
  "fs_sync = faulty (\<lambda>s. (Inr (), s))"

definition fs_rename :: "path \<Rightarrow> path \<Rightarrow> unit io" where
  "fs_rename a p = faulty (\<lambda>s. case fs_lookup s a of
     Some (File b) \<Rightarrow>
       if \<not> fs_parent_dir s p then (Inl (fs_missing s p), s)
       else if fs_lookup s p = Some Dir then (Inl Io_Other, s)
       else (Inr (), fs_put p (File b) (fs_drop a s))
   | _ \<Rightarrow> (Inl Io_Other, s))"

definition fs_names :: "fs \<Rightarrow> path \<Rightarrow> string list" where
  "fs_names s dir = map last (filter (\<lambda>p. p \<noteq> [] \<and> butlast p = dir) (map fst (fs_nodes s)))"

definition fs_read_dir :: "path \<Rightarrow> string list io" where
  "fs_read_dir dir = faulty (\<lambda>s. (case fs_lookup s dir of
     Some Dir \<Rightarrow> Inr (fs_names s dir) | Some (File _) \<Rightarrow> Inl Io_Other | None \<Rightarrow> Inl (fs_missing s dir), s))"

definition fs_file_type :: "path \<Rightarrow> fnode io" where
  "fs_file_type p = faulty (\<lambda>s. (case fs_lookup s p of Some n \<Rightarrow> Inr n | None \<Rightarrow> Inl (fs_missing s p), s))"

definition fs_remove_dir_all :: "path \<Rightarrow> unit io" where
  "fs_remove_dir_all dir = faulty (\<lambda>s. case fs_lookup s dir of
     Some Dir \<Rightarrow> (Inr (), s\<lparr>fs_nodes := filter (\<lambda>e. take (length dir) (fst e) \<noteq> dir) (fs_nodes s)\<rparr>)
   | Some (File _) \<Rightarrow> (Inl Io_Other, s)
   | None \<Rightarrow> (Inl (fs_missing s dir), s))"

text \<open>\<open>with_context\<close>, and matching on \<open>NotFound\<close> first.\<close>

definition io_context :: "string \<Rightarrow> 'a io \<Rightarrow> (fs, string, 'a) act" where
  "io_context what m s = (case m s of (Inl _, s') \<Rightarrow> (Inl what, s') | (Inr a, s') \<Rightarrow> (Inr a, s'))"

definition io_found :: "string \<Rightarrow> 'a \<Rightarrow> ('b \<Rightarrow> 'a) \<Rightarrow> 'b io \<Rightarrow> (fs, string, 'a) act" where
  "io_found what absent f m s =
     (case m s of
        (Inr b, s') \<Rightarrow> (Inr (f b), s')
      | (Inl Not_Found, s') \<Rightarrow> (Inr absent, s')
      | (Inl Io_Other, s') \<Rightarrow> (Inl what, s'))"

section \<open>The files of a tree\<close>

definition fs_ok :: "fs \<Rightarrow> bool" where
  "fs_ok s \<longleftrightarrow> bt_ok (fs_nodes s) \<and> (\<forall>p. fs_lookup s p \<noteq> None \<longrightarrow> p \<noteq> [] \<longrightarrow> fs_parent_dir s p)"

definition fs_file :: "fs \<Rightarrow> path \<Rightarrow> bytes option" where
  "fs_file s p = (case fs_lookup s p of Some (File b) \<Rightarrow> Some b | _ \<Rightarrow> None)"

lemma fs_lookup_faults [simp]: "fs_lookup (s\<lparr>fs_faults := bs\<rparr>) p = fs_lookup s p"
  by (simp add: fs_lookup_def)

lemma fs_file_faults [simp]: "fs_file (s\<lparr>fs_faults := bs\<rparr>) = fs_file s"
  by (simp add: fs_file_def fun_eq_iff)

lemma fs_parent_dir_faults [simp]: "fs_parent_dir (s\<lparr>fs_faults := bs\<rparr>) p = fs_parent_dir s p"
  by (simp add: fs_parent_dir_def)

lemma fs_ok_faults [simp]: "fs_ok (s\<lparr>fs_faults := bs\<rparr>) = fs_ok s"
  by (simp add: fs_ok_def)

lemma fs_ok_parent: "fs_ok s \<Longrightarrow> fs_lookup s p = Some n \<Longrightarrow> p \<noteq> [] \<Longrightarrow> fs_parent_dir s p"
  by (simp add: fs_ok_def)

lemma fs_lookup_put: "fs_ok s \<Longrightarrow> p \<noteq> [] \<Longrightarrow> fs_lookup (fs_put p n s) = (fs_lookup s)(p \<mapsto> n)"
  by (auto simp: fs_lookup_def fs_put_def fs_ok_def bt_get_insert fun_eq_iff)

lemma fs_lookup_drop: "fs_ok s \<Longrightarrow> p \<noteq> [] \<Longrightarrow> fs_lookup (fs_drop p s) = (fs_lookup s)(p := None)"
  by (auto simp: fs_lookup_def fs_drop_def fs_ok_def bt_get_remove fun_eq_iff)

text \<open>Every node but the root stands in a directory; the calls keep it so.\<close>

lemma fs_ok_put [simp]:
  assumes "fs_ok s" and "p \<noteq> []" and "fs_parent_dir s p" and "n = Dir \<or> fs_lookup s p \<noteq> Some Dir"
  shows "fs_ok (fs_put p n s)"
proof -
  have l: "fs_lookup (fs_put p n s) = (fs_lookup s)(p \<mapsto> n)" using assms(1,2) by (rule fs_lookup_put)
  have "bt_ok (fs_nodes (fs_put p n s))" using assms(1) by (simp add: fs_ok_def fs_put_def bt_ok_insert)
  moreover have "fs_parent_dir (fs_put p n s) q" if "fs_lookup (fs_put p n s) q \<noteq> None" "q \<noteq> []" for q
  proof -
    have "fs_lookup s (butlast q) = Some Dir"
    proof (cases "q = p")
      case True
      with assms(3) show ?thesis by (simp add: fs_parent_dir_def)
    next
      case False
      with that l assms(1) show ?thesis by (simp add: fs_ok_def fs_parent_dir_def)
    qed
    with assms(4) l show ?thesis by (auto simp: fs_parent_dir_def)
  qed
  ultimately show ?thesis by (simp add: fs_ok_def)
qed

lemma fs_ok_drop [simp]:
  assumes "fs_ok s" and "fs_lookup s p = Some (File b)"
  shows "fs_ok (fs_drop p s)"
proof -
  have "p \<noteq> []" using assms(2) by (auto simp: fs_lookup_def)
  then have l: "fs_lookup (fs_drop p s) = (fs_lookup s)(p := None)" by (rule fs_lookup_drop [OF assms(1)])
  have "bt_ok (fs_nodes (fs_drop p s))" using assms(1) by (simp add: fs_ok_def fs_drop_def bt_ok_remove)
  moreover have "fs_parent_dir (fs_drop p s) q" if "fs_lookup (fs_drop p s) q \<noteq> None" "q \<noteq> []" for q
  proof -
    have "fs_lookup s (butlast q) = Some Dir"
      using that l assms(1) by (simp add: fs_ok_def fs_parent_dir_def split: if_split_asm)
    with assms(2) l show ?thesis by (auto simp: fs_parent_dir_def)
  qed
  ultimately show ?thesis by (simp add: fs_ok_def)
qed

lemma fs_now_put [simp]: "fs_now (fs_put p n s) = fs_now s" "fs_now (fs_drop p s) = fs_now s"
  and fs_faults_put [simp]: "fs_faults (fs_put p n s) = fs_faults s" "fs_faults (fs_drop p s) = fs_faults s"
  by (simp_all add: fs_put_def fs_drop_def)

lemma fs_file_put_dir: "fs_ok s \<Longrightarrow> p \<noteq> [] \<Longrightarrow> fs_file s p = None \<Longrightarrow> fs_file (fs_put p Dir s) = fs_file s"
  by (auto simp: fs_file_def fs_lookup_put fun_eq_iff)

lemma fs_file_put: "fs_ok s \<Longrightarrow> p \<noteq> [] \<Longrightarrow> fs_file (fs_put p (File b) s) = (fs_file s)(p \<mapsto> b)"
  by (auto simp: fs_file_def fs_lookup_put fun_eq_iff)

lemma fs_file_drop: "fs_ok s \<Longrightarrow> p \<noteq> [] \<Longrightarrow> fs_file (fs_drop p s) = (fs_file s)(p := None)"
  by (auto simp: fs_file_def fs_lookup_drop fun_eq_iff)

text \<open>The root is a directory, so what a call finds a file at is never the empty path.\<close>

lemma fs_lookup_File: "fs_lookup s p = Some (File b) \<Longrightarrow> p \<noteq> []"
  by (auto simp: fs_lookup_def)

lemma fs_lookup_None: "fs_lookup s p = None \<Longrightarrow> p \<noteq> []"
  by (auto simp: fs_lookup_def)

section \<open>What each call does to the files\<close>

text \<open>
  \<open>io_eff m G\<close>: from a well-formed tree, \<open>m\<close> leaves a well-formed tree and the clock as it was,
  draws its failures from the front, and relates the tree before, the result and the tree after
  by \<open>G\<close>.
\<close>

definition io_eff :: "(fs, 'e, 'a) act \<Rightarrow> (fs \<Rightarrow> 'e + 'a \<Rightarrow> fs \<Rightarrow> bool) \<Rightarrow> bool" where
  "io_eff m G \<longleftrightarrow> (\<forall>s r s'. fs_ok s \<longrightarrow> m s = (r, s') \<longrightarrow>
     fs_ok s' \<and> fs_now s' = fs_now s \<and> (fs_faults s = [] \<longrightarrow> fs_faults s' = []) \<and> G s r s')"

lemma io_effI:
  assumes "\<And>s r s'. fs_ok s \<Longrightarrow> m s = (r, s') \<Longrightarrow>
    fs_ok s' \<and> fs_now s' = fs_now s \<and> (fs_faults s = [] \<longrightarrow> fs_faults s' = []) \<and> G s r s'"
  shows "io_eff m G"
  unfolding io_eff_def by (intro allI impI) (rule assms)

lemma io_effD:
  assumes "io_eff m G" and "fs_ok s" and "m s = (r, s')"
  shows "fs_ok s'" "fs_now s' = fs_now s" "fs_faults s = [] \<Longrightarrow> fs_faults s' = []" "G s r s'"
  using assms unfolding io_eff_def by blast+

lemma io_eff_weaken: "io_eff m G \<Longrightarrow> (\<And>s r s'. fs_ok s \<Longrightarrow> fs_ok s' \<Longrightarrow> G s r s' \<Longrightarrow> H s r s') \<Longrightarrow> io_eff m H"
  unfolding io_eff_def by blast

lemma io_eff_faulty:
  assumes "\<And>s. fs_ok s \<Longrightarrow> case m s of (r, s') \<Rightarrow>
      fs_ok s' \<and> fs_now s' = fs_now s \<and> fs_faults s' = fs_faults s \<and> G s r s'"
    and "\<And>s bs. fs_faults s = True # bs \<Longrightarrow> G s (Inl Io_Other) (s\<lparr>fs_faults := bs\<rparr>)"
    and "\<And>s e s' bs. G (s\<lparr>fs_faults := bs\<rparr>) (Inl e) s' \<Longrightarrow> fs_faults s = False # bs \<Longrightarrow> G s (Inl e) s'"
    and "\<And>s a s' bs. G (s\<lparr>fs_faults := bs\<rparr>) (Inr a) s' \<Longrightarrow> fs_faults s = False # bs \<Longrightarrow> G s (Inr a) s'"
  shows "io_eff (faulty m) G"
proof (rule io_effI)
  fix s r s' assume ok: "fs_ok s" and run: "faulty m s = (r, s')"
  show "fs_ok s' \<and> fs_now s' = fs_now s \<and> (fs_faults s = [] \<longrightarrow> fs_faults s' = []) \<and> G s r s'"
  proof (cases "fs_faults s")
    case Nil
    with run assms(1) [OF ok] show ?thesis by (simp add: faulty_def)
  next
    case (Cons b bs)
    show ?thesis
    proof (cases b)
      case True
      with run Cons have "r = Inl Io_Other" "s' = s\<lparr>fs_faults := bs\<rparr>" by (simp_all add: faulty_def)
      with ok Cons True assms(2) [of s bs] show ?thesis by simp
    next
      case False
      with run Cons have "m (s\<lparr>fs_faults := bs\<rparr>) = (r, s')" by (simp add: faulty_def)
      with assms(1) [of "s\<lparr>fs_faults := bs\<rparr>"] ok
      have "fs_ok s'" "fs_now s' = fs_now s" "G (s\<lparr>fs_faults := bs\<rparr>) r s'" by simp_all
      then show ?thesis using Cons False assms(3,4) by (cases r) simp_all
    qed
  qed
qed

text \<open>Nothing changes outside a set of paths.\<close>

definition fs_only :: "path set \<Rightarrow> fs \<Rightarrow> fs \<Rightarrow> bool" where
  "fs_only A s s' \<longleftrightarrow> (\<forall>q. q \<notin> A \<longrightarrow> fs_lookup s' q = fs_lookup s q)"

lemma fs_only_refl [simp]: "fs_only A s s"
  by (simp add: fs_only_def)

lemma fs_only_trans: "fs_only A s s1 \<Longrightarrow> fs_only A s1 s' \<Longrightarrow> fs_only A s s'"
  by (simp add: fs_only_def)

lemma fs_only_mono: "fs_only A s s' \<Longrightarrow> A \<subseteq> B \<Longrightarrow> fs_only B s s'"
  by (auto simp: fs_only_def)

lemma fs_only_faults [simp]:
  "fs_only A (s\<lparr>fs_faults := bs\<rparr>) s' = fs_only A s s'" "fs_only A s (s'\<lparr>fs_faults := bs\<rparr>) = fs_only A s s'"
  by (simp_all add: fs_only_def)

lemma fs_only_put: "fs_ok s \<Longrightarrow> p \<noteq> [] \<Longrightarrow> p \<in> A \<Longrightarrow> fs_only A s (fs_put p n s)"
  by (auto simp: fs_only_def fs_lookup_put)

lemma fs_only_drop: "fs_ok s \<Longrightarrow> p \<noteq> [] \<Longrightarrow> p \<in> A \<Longrightarrow> fs_only A s (fs_drop p s)"
  by (auto simp: fs_only_def fs_lookup_drop)

lemma fs_only_file: "fs_only A s s' \<Longrightarrow> q \<notin> A \<Longrightarrow> fs_file s' q = fs_file s q"
  by (simp add: fs_only_def fs_file_def)

lemma fs_missing_faults [simp]: "fs_missing (s\<lparr>fs_faults := bs\<rparr>) p = fs_missing s p"
  by (simp add: fs_missing_def)

lemma fs_names_faults [simp]: "fs_names (s\<lparr>fs_faults := bs\<rparr>) p = fs_names s p"
  by (simp add: fs_names_def)

lemma fs_read_eff:
  "io_eff (fs_read p) (\<lambda>s r s'. fs_only {} s s' \<and>
     (case r of Inr b \<Rightarrow> fs_file s p = Some b | Inl e \<Rightarrow> e = Not_Found \<or> fs_faults s = [] \<longrightarrow> fs_file s p = None))"
  unfolding fs_read_def by (rule io_eff_faulty) (simp_all add: fs_file_def split: option.split fnode.split)

definition fs_dirs :: "fs \<Rightarrow> path set" where
  "fs_dirs s = {q. fs_lookup s q = Some Dir}"

lemma fs_dirs_faults [simp]: "fs_dirs (s\<lparr>fs_faults := bs\<rparr>) = fs_dirs s"
  by (simp add: fs_dirs_def)

lemma fs_dirs_only: "fs_only {} s s' \<Longrightarrow> fs_dirs s' = fs_dirs s"
  by (simp add: fs_dirs_def fs_only_def)

lemma fs_dirs_drop: "fs_ok s \<Longrightarrow> fs_lookup s p = Some (File b) \<Longrightarrow> fs_dirs (fs_drop p s) = fs_dirs s"
  by (auto simp: fs_dirs_def fs_lookup_drop fs_lookup_File)

lemma fs_remove_file_eff:
  "io_eff (fs_remove_file p) (\<lambda>s r s'. fs_only {p} s s' \<and> fs_dirs s' = fs_dirs s \<and>
     (case r of Inr _ \<Rightarrow> fs_file s' p = None
      | Inl e \<Rightarrow> fs_only {} s s' \<and> (e = Not_Found \<or> fs_faults s = [] \<longrightarrow> fs_file s p = None)))"
  unfolding fs_remove_file_def
  by (rule io_eff_faulty)
    (simp_all add: fs_file_def fs_only_drop fs_lookup_drop fs_lookup_File fs_dirs_drop split: option.split fnode.split)

lemma fs_mkdir_eff: "io_eff (fs_mkdir p) (\<lambda>s r s'. fs_only {p} s s' \<and> fs_file s' = fs_file s)"
  unfolding fs_mkdir_def
  by (rule io_eff_faulty)
    (simp_all add: fs_only_put fs_file_put_dir fs_lookup_None fs_file_def [of _ p] split: option.split fnode.split)

lemma io_eff_for:
  assumes "\<And>x. x \<in> set xs \<Longrightarrow> io_eff (f x) (\<lambda>s r s'. fs_only A s s' \<and> fs_file s' = fs_file s)"
  shows "io_eff (act_for xs f) (\<lambda>s r s'. fs_only A s s' \<and> fs_file s' = fs_file s)"
  using assms
proof (induction xs)
  case Nil
  then show ?case by (intro io_effI) auto
next
  case (Cons x xs)
  have a: "io_eff (f x) (\<lambda>s r s'. fs_only A s s' \<and> fs_file s' = fs_file s)" using Cons.prems by simp
  have b: "io_eff (act_for xs f) (\<lambda>s r s'. fs_only A s s' \<and> fs_file s' = fs_file s)" using Cons by simp
  show ?case
  proof (rule io_effI)
    fix s r s' assume ok: "fs_ok s" and "act_for (x # xs) f s = (r, s')"
    then obtain r1 s1 where 1: "f x s = (r1, s1)" and
      2: "case r1 of Inl e \<Rightarrow> r = Inl e \<and> s' = s1 | Inr _ \<Rightarrow> act_for xs f s1 = (r, s')"
      by (cases "f x s") (auto simp: act_then_def act_bind_def split: sum.splits)
    note e = io_effD [OF a ok 1]
    show "fs_ok s' \<and> fs_now s' = fs_now s \<and> (fs_faults s = [] \<longrightarrow> fs_faults s' = []) \<and>
        fs_only A s s' \<and> fs_file s' = fs_file s"
    proof (cases r1)
      case (Inl err)
      with 2 e show ?thesis by simp
    next
      case (Inr u)
      with 2 have "act_for xs f s1 = (r, s')" by simp
      from io_effD [OF b e(1) this] e fs_only_trans [of A s s1 s'] show ?thesis by simp
    qed
  qed
qed

text \<open>The directories on the way to a path.\<close>

definition on_way :: "path \<Rightarrow> path set" where
  "on_way p = {take k p |k. k \<le> length p}"

lemma fs_create_dir_all_eff:
  "io_eff (fs_create_dir_all p) (\<lambda>s r s'. fs_only (on_way p) s s' \<and> fs_file s' = fs_file s)"
  unfolding fs_create_dir_all_def
proof (rule io_eff_for)
  fix q assume "q \<in> set (map (\<lambda>k. take k p) [1..<Suc (length p)])"
  then have q: "{q} \<subseteq> on_way p" by (auto simp: on_way_def)
  show "io_eff (fs_mkdir q) (\<lambda>s r s'. fs_only (on_way p) s s' \<and> fs_file s' = fs_file s)"
    by (rule io_eff_weaken [OF fs_mkdir_eff]) (use fs_only_mono [OF _ q] in blast)
qed

lemma fs_create_new_eff:
  "io_eff (fs_create_new p) (\<lambda>s r s'. fs_only {p} s s' \<and>
     (case r of Inr _ \<Rightarrow> fs_lookup s p = None \<and> fs_lookup s' p = Some (File []) | Inl e \<Rightarrow> fs_only {} s s'))"
  unfolding fs_create_new_def
  by (rule io_eff_faulty) (simp_all add: fs_only_put fs_lookup_put fs_lookup_None split: option.split)

lemma fs_write_eff:
  "io_eff (fs_write p b) (\<lambda>s r s'. fs_only {p} s s' \<and>
     (case r of Inr _ \<Rightarrow> fs_lookup s' p = Some (File b) | Inl e \<Rightarrow> fs_only {} s s'))"
  unfolding fs_write_def
  by (rule io_eff_faulty) (simp_all add: fs_only_put fs_lookup_put fs_lookup_File fs_ok_parent split: option.split fnode.split)

lemma fs_sync_eff: "io_eff fs_sync (\<lambda>s r s'. fs_only {} s s')"
  unfolding fs_sync_def by (rule io_eff_faulty) simp_all

lemma fs_rename_put:
  assumes "fs_ok s" and "fs_lookup s a = Some (File b)" and "fs_parent_dir s p" and "fs_lookup s p \<noteq> Some Dir" and "p \<noteq> []"
  shows "fs_only {a, p} s (fs_put p (File b) (fs_drop a s)) \<and>
    (a \<noteq> p \<longrightarrow> fs_lookup (fs_put p (File b) (fs_drop a s)) a = None) \<and>
    fs_file (fs_put p (File b) (fs_drop a s)) p = Some b \<and> fs_ok (fs_put p (File b) (fs_drop a s))"
proof -
  have ok: "fs_ok (fs_drop a s)" using assms(1,2) by simp
  have l: "fs_lookup (fs_drop a s) = (fs_lookup s)(a := None)"
    using assms(1) fs_lookup_File [OF assms(2)] by (rule fs_lookup_drop)
  have "fs_only {a, p} (fs_drop a s) (fs_put p (File b) (fs_drop a s))" using ok assms(5) by (intro fs_only_put) auto
  moreover have "fs_only {a, p} s (fs_drop a s)" using assms(1) fs_lookup_File [OF assms(2)] by (intro fs_only_drop) auto
  ultimately have "fs_only {a, p} s (fs_put p (File b) (fs_drop a s))" by (rule fs_only_trans [rotated])
  moreover have "fs_ok (fs_put p (File b) (fs_drop a s))"
    using ok assms(2-5) l by (intro fs_ok_put) (auto simp: fs_parent_dir_def)
  ultimately show ?thesis using l by (simp add: fs_lookup_put [OF ok assms(5)] fs_file_def)
qed

lemma fs_rename_eff:
  assumes "p \<noteq> []"
  shows "io_eff (fs_rename a p) (\<lambda>s r s'. fs_only {a, p} s s' \<and>
     (case r of Inr _ \<Rightarrow> (a \<noteq> p \<longrightarrow> fs_lookup s' a = None) \<and> fs_file s' p = fs_file s a | Inl e \<Rightarrow> fs_only {} s s'))"
  unfolding fs_rename_def
proof (rule io_eff_faulty)
  fix s assume "fs_ok s"
  from fs_rename_put [OF this _ _ _ assms] this
  show "case case fs_lookup s a of
     Some (File b) \<Rightarrow>
       if \<not> fs_parent_dir s p then (Inl (fs_missing s p), s)
       else if fs_lookup s p = Some Dir then (Inl Io_Other, s)
       else (Inr (), fs_put p (File b) (fs_drop a s))
   | _ \<Rightarrow> (Inl Io_Other, s) of (r, s') \<Rightarrow> fs_ok s' \<and> fs_now s' = fs_now s \<and> fs_faults s' = fs_faults s \<and>
      fs_only {a, p} s s' \<and> (case r of Inr _ \<Rightarrow> (a \<noteq> p \<longrightarrow> fs_lookup s' a = None) \<and> fs_file s' p = fs_file s a | Inl e \<Rightarrow> fs_only {} s s')"
    by (simp add: fs_file_def [of s] split: option.split fnode.split)
qed (simp_all add: fs_file_def)

lemma fs_read_dir_eff:
  "io_eff (fs_read_dir d) (\<lambda>s r s'. fs_nodes s' = fs_nodes s \<and>
     (case r of Inr ns \<Rightarrow> fs_lookup s d = Some Dir \<and> ns = fs_names s d
      | Inl e \<Rightarrow> fs_faults s = [] \<longrightarrow> fs_lookup s d \<noteq> Some Dir))"
  unfolding fs_read_dir_def by (rule io_eff_faulty) (simp_all split: option.split fnode.split)

lemma fs_file_type_eff:
  "io_eff (fs_file_type p) (\<lambda>s r s'. fs_nodes s' = fs_nodes s \<and>
     (case r of Inr n \<Rightarrow> fs_lookup s p = Some n | Inl e \<Rightarrow> fs_faults s = [] \<longrightarrow> fs_lookup s p = None))"
  unfolding fs_file_type_def by (rule io_eff_faulty) (simp_all split: option.split fnode.split)

section \<open>Composing\<close>

lemma io_eff_bind:
  assumes "io_eff m G" and "\<And>a. io_eff (f a) (H a)"
  shows "io_eff (act_bind m f) (\<lambda>s r s'. (\<exists>e. r = Inl e \<and> G s (Inl e) s') \<or>
    (\<exists>a s1. fs_ok s1 \<and> fs_now s1 = fs_now s \<and> (fs_faults s = [] \<longrightarrow> fs_faults s1 = []) \<and> G s (Inr a) s1 \<and> H a s1 r s'))"
proof (rule io_effI)
  fix s r s' assume ok: "fs_ok s" and run: "act_bind m f s = (r, s')"
  obtain r1 s1 where 1: "m s = (r1, s1)" by (cases "m s")
  note e = io_effD [OF assms(1) ok 1]
  show "fs_ok s' \<and> fs_now s' = fs_now s \<and> (fs_faults s = [] \<longrightarrow> fs_faults s' = []) \<and>
    ((\<exists>e. r = Inl e \<and> G s (Inl e) s') \<or>
    (\<exists>a s1. fs_ok s1 \<and> fs_now s1 = fs_now s \<and> (fs_faults s = [] \<longrightarrow> fs_faults s1 = []) \<and> G s (Inr a) s1 \<and> H a s1 r s'))"
  proof (cases r1)
    case (Inl x)
    with run 1 e show ?thesis by (auto simp: act_bind_def)
  next
    case (Inr a)
    with run 1 have "f a s1 = (r, s')" by (simp add: act_bind_def)
    from io_effD [OF assms(2) e(1) this] e Inr show ?thesis by auto
  qed
qed

lemma io_eff_context:
  assumes "io_eff m G"
  shows "io_eff (io_context what m)
    (\<lambda>s r s'. case r of Inl x \<Rightarrow> x = what \<and> (\<exists>e. G s (Inl e) s') | Inr a \<Rightarrow> G s (Inr a) s')"
proof (rule io_effI)
  fix s r s' assume ok: "fs_ok s" and run: "io_context what m s = (r, s')"
  obtain r1 s1 where 1: "m s = (r1, s1)" by (cases "m s")
  from run 1 io_effD [OF assms ok 1]
  show "fs_ok s' \<and> fs_now s' = fs_now s \<and> (fs_faults s = [] \<longrightarrow> fs_faults s' = []) \<and>
    (case r of Inl x \<Rightarrow> x = what \<and> (\<exists>e. G s (Inl e) s') | Inr a \<Rightarrow> G s (Inr a) s')"
    by (cases r1) (auto simp: io_context_def)
qed

lemma io_eff_found:
  assumes "io_eff m G"
  shows "io_eff (io_found what absent f m)
    (\<lambda>s r s'. case r of Inl x \<Rightarrow> x = what \<and> G s (Inl Io_Other) s'
              | Inr a \<Rightarrow> a = absent \<and> G s (Inl Not_Found) s' \<or> (\<exists>b. a = f b \<and> G s (Inr b) s'))"
proof (rule io_effI)
  fix s r s' assume ok: "fs_ok s" and run: "io_found what absent f m s = (r, s')"
  obtain r1 s1 where 1: "m s = (r1, s1)" by (cases "m s")
  from run 1 io_effD [OF assms ok 1]
  show "fs_ok s' \<and> fs_now s' = fs_now s \<and> (fs_faults s = [] \<longrightarrow> fs_faults s' = []) \<and>
    (case r of Inl x \<Rightarrow> x = what \<and> G s (Inl Io_Other) s'
     | Inr a \<Rightarrow> a = absent \<and> G s (Inl Not_Found) s' \<or> (\<exists>b. a = f b \<and> G s (Inr b) s'))"
    by (cases r1; cases "projl r1") (auto simp: io_found_def)
qed

lemma io_eff_result: "io_eff (act_result x) (\<lambda>s r s'. s' = s \<and> r = x)"
  and io_eff_return: "io_eff (act_return a) (\<lambda>s r s'. s' = s \<and> r = Inr a)"
  and io_eff_fail: "io_eff (act_fail e) (\<lambda>s r s'. s' = s \<and> r = Inl e)"
  and io_eff_gets: "io_eff (act_gets g) (\<lambda>s r s'. s' = s \<and> r = Inr (g s))"
  by (rule io_effI, simp)+

lemma fs_only_none: "fs_only {} s s' \<Longrightarrow> fs_file s' = fs_file s"
  by (simp add: fs_only_def fs_file_def fun_eq_iff)

end
