(* ===== verification/Fs_Names.thy ===== *)
theory Fs_Names
  imports Rust_Fs
begin

text \<open>
  What the two surfaces of the filesystem backend share (\<open>src/crates/filesystem/src/lib.rs\<close>
  and the common part of \<open>keyvalue.rs\<close> and \<open>blobstore.rs\<close>): which names are accepted, the
  listing of a directory tree, and the atomic write through a temporary file. Temporary file
  names are chosen by a third-party crate: a parameter, documented to start with \<open>.tmp\<close> and
  to be unused.
\<close>

definition segment_ok :: "string \<Rightarrow> bool" where
  "segment_ok segment \<longleftrightarrow> segment \<noteq> [] \<and> segment \<noteq> ''.'' \<and> segment \<noteq> ''..'' \<and>
     \<not> list_ex (\<lambda>c. c = CHR ''/'' \<or> c = CHR 0x5C \<or> c = CHR '':'') segment"

abbreviation in_ticks :: "string \<Rightarrow> string" where
  "in_ticks s \<equiv> CHR 0x60 # s @ [CHR 0x60]"

definition name_ok :: "string \<Rightarrow> bool" where
  "name_ok key \<longleftrightarrow> key \<noteq> [] \<and> list_all segment_ok (str_split CHR ''/'' key)"

text \<open>
  \<open>dir.join(key)\<close> as the system resolves it: an absolute key replaces the directory, empty and
  dot components are skipped, two dots climb. An accepted key only descends.
\<close>

fun resolve :: "path \<Rightarrow> path \<Rightarrow> path" where
  "resolve acc [] = acc"
| "resolve acc (x # xs) =
     (if x = [] \<or> x = ''.'' then resolve acc xs
      else if x = ''..'' then resolve (butlast acc) xs
      else resolve (acc @ [x]) xs)"

definition path_join :: "path \<Rightarrow> string \<Rightarrow> path" where
  "path_join dir key = resolve (if key \<noteq> [] \<and> hd key = CHR ''/'' then [] else dir) (str_split CHR ''/'' key)"

definition joined :: "path \<Rightarrow> string \<Rightarrow> path" where
  "joined dir key = dir @ str_split CHR ''/'' key"

lemma resolve_ok: "list_all segment_ok xs \<Longrightarrow> resolve acc xs = acc @ xs"
  by (induction xs arbitrary: acc) (auto simp: segment_ok_def)

lemma path_join_ok [simp]:
  assumes "name_ok key"
  shows "path_join dir key = joined dir key"
proof -
  have ok: "list_all segment_ok (str_split CHR ''/'' key)" using assms by (simp add: name_ok_def)
  have "\<not> (key \<noteq> [] \<and> hd key = CHR ''/'')"
  proof
    assume "key \<noteq> [] \<and> hd key = CHR ''/''"
    then obtain rest where "key = CHR ''/'' # rest" by (cases key) auto
    then have "hd (str_split CHR ''/'' key) = []" by simp
    moreover have "segment_ok (hd (str_split CHR ''/'' key))"
      using ok by (metis list.pred_inject(2) list.exhaust_sel str_split_not_Nil)
    ultimately show False by (simp add: segment_ok_def)
  qed
  then have "(if key \<noteq> [] \<and> hd key = CHR ''/'' then [] else dir) = dir" by (rule if_not_P)
  then show ?thesis unfolding path_join_def joined_def by (simp only: resolve_ok [OF ok])
qed

section \<open>The listing\<close>

fun act_collect :: "('a \<Rightarrow> ('s, 'e, 'b list) act) \<Rightarrow> 'a list \<Rightarrow> ('s, 'e, 'b list) act" where
  "act_collect f [] = act_return []"
| "act_collect f (x # xs) = act_bind (f x) (\<lambda>ys. act_bind (act_collect f xs) (\<lambda>zs. act_return (ys @ zs)))"

text \<open>The fuel bounds the depth of the tree below \<open>dir\<close>.\<close>

fun collect_at :: "nat \<Rightarrow> path \<Rightarrow> string \<Rightarrow> (fs, string, string list) act" where
  "collect_at 0 dir prefix = act_fail ''out of fuel''"
| "collect_at (Suc n) dir prefix =
     act_bind (io_context ''issue reading directory'' (fs_read_dir dir)) (act_collect (\<lambda>name.
       if \<not> utf8_valid name \<or> (prefix = [] \<and> starts_with name ''.tmp'') then act_return []
       else
         let rel = (if prefix = [] then name else prefix @ ''/'' @ name)
         in act_bind (io_context ''issue reading directory entry'' (fs_file_type (dir @ [name]))) (\<lambda>kind.
              case kind of Dir \<Rightarrow> collect_at n (dir @ [name]) rel | File _ \<Rightarrow> act_return [rel])))"

definition fs_collect :: "path \<Rightarrow> (fs, string, string list) act" where
  "fs_collect dir s = collect_at (Suc (length (fs_nodes s))) dir [] s"

section \<open>The atomic write\<close>

type_synonym temp_names = "fs \<Rightarrow> path \<Rightarrow> string"

definition drop_on_error :: "path \<Rightarrow> (fs, string, 'a) act \<Rightarrow> (fs, string, 'a) act" where
  "drop_on_error temp m s =
     (case m s of (Inl e, s') \<Rightarrow> (Inl e, snd (fs_remove_file temp s')) | (Inr a, s') \<Rightarrow> (Inr a, s'))"

definition fill_temp :: "string \<Rightarrow> path \<Rightarrow> path \<Rightarrow> bytes \<Rightarrow> (fs, string, unit) act" where
  "fill_temp what temp path data =
     drop_on_error temp
       (act_then (io_context (''writing '' @ what) (fs_write temp data))
       (act_then (io_context (''syncing '' @ what) fs_sync)
                 (io_context (''persisting '' @ what) (fs_rename temp path))))"

definition atomic_write :: "temp_names \<Rightarrow> string \<Rightarrow> path \<Rightarrow> path \<Rightarrow> bytes \<Rightarrow> (fs, string, unit) act" where
  "atomic_write tmp what dir path data =
     act_then (io_context (''creating parents for '' @ what) (fs_create_dir_all (butlast path)))
     (act_bind (act_gets (\<lambda>s. dir @ [tmp s dir])) (\<lambda>temp.
      act_then (io_context (''creating temp file for '' @ what) (fs_create_new temp))
               (fill_temp what temp path data)))"

definition temps_ok :: "temp_names \<Rightarrow> bool" where
  "temps_ok tmp \<longleftrightarrow> (\<forall>s d. starts_with (tmp s d) ''.tmp'' \<and> fs_lookup s (d @ [tmp s d]) = None)"

definition temps :: "path \<Rightarrow> path set" where
  "temps dir = {dir @ [n] |n. starts_with n ''.tmp''}"

text \<open>
  A write makes its value the whole content of its file, or changes no file but a temporary
  one of its own; with no failing call it leaves no temporary file.
\<close>

definition written :: "path \<Rightarrow> path \<Rightarrow> bytes \<Rightarrow> fs \<Rightarrow> string + unit \<Rightarrow> fs \<Rightarrow> bool" where
  "written dir path data s r s' \<longleftrightarrow>
     fs_only (on_way (butlast path) \<union> temps dir \<union> {path}) s s' \<and>
     (case r of
        Inr _ \<Rightarrow> fs_file s' = (fs_file s)(path \<mapsto> data)
      | Inl _ \<Rightarrow> fs_file s' = fs_file s \<or>
          fs_faults s \<noteq> [] \<and> (\<exists>t \<in> temps dir. fs_file s t = None \<and> (\<forall>q. q \<noteq> t \<longrightarrow> fs_file s' q = fs_file s q)))"

lemma drop_on_error_eff:
  assumes "io_eff m G"
  shows "io_eff (drop_on_error t m) (\<lambda>s r s'. case r of
      Inl e \<Rightarrow> \<exists>s1. G s (Inl e) s1 \<and> fs_only {t} s1 s' \<and> (fs_faults s = [] \<longrightarrow> fs_file s' t = None)
    | Inr a \<Rightarrow> G s (Inr a) s')"
proof (rule io_effI)
  fix s r s' assume ok: "fs_ok s" and run: "drop_on_error t m s = (r, s')"
  obtain r1 s1 where 1: "m s = (r1, s1)" by (cases "m s")
  note e = io_effD [OF assms ok 1]
  obtain r2 s2 where 2: "fs_remove_file t s1 = (r2, s2)" by (cases "fs_remove_file t s1")
  note d = io_effD [OF fs_remove_file_eff e(1) 2]
  have "fs_faults s = [] \<longrightarrow> fs_file s2 t = None"
    using d(4) e(3) fs_only_none [of s1 s2] by (cases r2) auto
  with run 1 2 e d show "fs_ok s' \<and> fs_now s' = fs_now s \<and> (fs_faults s = [] \<longrightarrow> fs_faults s' = []) \<and>
    (case r of Inl e \<Rightarrow> \<exists>s1. G s (Inl e) s1 \<and> fs_only {t} s1 s' \<and> (fs_faults s = [] \<longrightarrow> fs_file s' t = None)
     | Inr a \<Rightarrow> G s (Inr a) s')"
    by (cases r1) (auto simp: drop_on_error_def)
qed

lemma filled_eff:
  assumes "path \<noteq> []"
  shows "io_eff (act_then (io_context c1 (fs_write temp data)) (act_then (io_context c2 fs_sync)
      (io_context c3 (fs_rename temp path))))
    (\<lambda>s r s'. case r of
       Inr _ \<Rightarrow> fs_only {temp, path} s s' \<and> (temp \<noteq> path \<longrightarrow> fs_lookup s' temp = None) \<and> fs_file s' path = Some data
     | Inl _ \<Rightarrow> fs_only {temp} s s')"
proof (rule io_effI)
  fix s r s' assume ok: "fs_ok s"
    and run: "act_then (io_context c1 (fs_write temp data)) (act_then (io_context c2 fs_sync)
      (io_context c3 (fs_rename temp path))) s = (r, s')"
  obtain r1 s1 where 1: "fs_write temp data s = (r1, s1)" by (cases "fs_write temp data s")
  obtain r2 s2 where 2: "fs_sync s1 = (r2, s2)" by (cases "fs_sync s1")
  obtain r3 s3 where 3: "fs_rename temp path s2 = (r3, s3)" by (cases "fs_rename temp path s2")
  note e1 = io_effD [OF fs_write_eff ok 1]
  note e2 = io_effD [OF fs_sync_eff e1(1) 2]
  note e3 = io_effD [OF fs_rename_eff [OF assms] e2(1) 3]
  have o2: "fs_only {temp} s1 s2" using e2(4) fs_only_mono by blast
  have o12: "fs_only {temp} s s2" using e1(4) o2 fs_only_trans by blast
  have o3: "fs_only {temp, path} s s3" using fs_only_trans [OF fs_only_mono [OF o12] conjunct1 [OF e3(4)]] by simp
  have o3': "fs_only {temp} s s3" if "r3 = Inl e" for e
    using e3(4) that fs_only_trans [OF o12] fs_only_mono [of "{}" s2 s3 "{temp}"] by simp
  have v: "fs_file s2 temp = Some data" if "r1 = Inr u" for u
    using e1(4) that fs_only_none [OF e2(4)] by (simp add: fs_file_def)
  show "fs_ok s' \<and> fs_now s' = fs_now s \<and> (fs_faults s = [] \<longrightarrow> fs_faults s' = []) \<and>
    (case r of
       Inr _ \<Rightarrow> fs_only {temp, path} s s' \<and> (temp \<noteq> path \<longrightarrow> fs_lookup s' temp = None) \<and> fs_file s' path = Some data
     | Inl _ \<Rightarrow> fs_only {temp} s s')"
  proof (cases r1)
    case (Inl x)
    with run 1 e1 show ?thesis by (auto simp: act_then_def act_bind_def io_context_def)
  next
    case r1: (Inr u)
    show ?thesis
    proof (cases r2)
      case (Inl x)
      with run r1 1 2 e1 e2 o12 show ?thesis by (auto simp: act_then_def act_bind_def io_context_def)
    next
      case r2: (Inr u')
      from run r1 r2 1 2 3 have "s' = s3" "r = (case r3 of Inl _ \<Rightarrow> Inl c3 | Inr a \<Rightarrow> Inr a)"
        by (cases r3; simp add: act_then_def act_bind_def io_context_def)+
      with e1 e2 e3 o3 o3' v [OF r1] show ?thesis by (cases r3) auto
    qed
  qed
qed

lemma atomic_write_eff:
  assumes "path \<noteq> []" and "temps_ok tmp"
  shows "io_eff (atomic_write tmp what dir path data) (written dir path data)"
proof (rule io_effI)
  fix s r s' assume ok: "fs_ok s" and run: "atomic_write tmp what dir path data s = (r, s')"
  obtain r1 s1 where 1: "fs_create_dir_all (butlast path) s = (r1, s1)" by (cases "fs_create_dir_all (butlast path) s")
  note e1 = io_effD [OF fs_create_dir_all_eff ok 1]
  define temp where "temp = dir @ [tmp s1 dir]"
  have temp: "temp \<in> temps dir" using assms(2) by (auto simp: temp_def temps_def temps_ok_def)
  obtain r2 s2 where 2: "fs_create_new temp s1 = (r2, s2)" by (cases "fs_create_new temp s1")
  note e2 = io_effD [OF fs_create_new_eff e1(1) 2]
  obtain r3 s3 where 3: "fill_temp what temp path data s2 = (r3, s3)" by (cases "fill_temp what temp path data s2")
  note e3 = io_effD [OF drop_on_error_eff [OF filled_eff [OF assms(1)]] e2(1) 3 [unfolded fill_temp_def]]
  let ?A = "on_way (butlast path) \<union> temps dir \<union> {path}"
  have o1: "fs_only ?A s s1" using e1(4) fs_only_mono [of "on_way (butlast path)" s s1 ?A] by auto
  have o2: "fs_only ?A s s2" using fs_only_trans [OF o1 fs_only_mono [OF conjunct1 [OF e2(4)]]] temp by auto
  have "fs_only ?A s2 s3"
  proof (cases r3)
    case (Inl x)
    with e3(4) obtain s4 where "fs_only {temp} s2 s4" "fs_only {temp} s4 s3" by auto
    then have "fs_only {temp} s2 s3" by (rule fs_only_trans)
    then show ?thesis using temp fs_only_mono [of "{temp}" s2 s3 ?A] by auto
  next
    case (Inr u)
    with e3(4) temp fs_only_mono [of "{temp, path}" s2 s3 ?A] show ?thesis by auto
  qed
  with o2 have o3: "fs_only ?A s s3" by (rule fs_only_trans)
  have f2: "fs_file s temp = None" "\<And>q. q \<noteq> temp \<Longrightarrow> fs_file s2 q = fs_file s q" if "r2 = Inr u" for u
  proof -
    have l: "fs_lookup s1 temp = None" "fs_only {temp} s1 s2" using e2(4) that by auto
    have "fs_file s1 temp = None" by (simp add: fs_file_def l)
    with l show "fs_file s temp = None" "\<And>q. q \<noteq> temp \<Longrightarrow> fs_file s2 q = fs_file s q"
      using e1(4) fs_only_file [of "{temp}" s1 s2] by auto
  qed
  show "fs_ok s' \<and> fs_now s' = fs_now s \<and> (fs_faults s = [] \<longrightarrow> fs_faults s' = []) \<and> written dir path data s r s'"
  proof (cases r1)
    case (Inl x)
    with run 1 have "s' = s1" "\<exists>y. r = Inl y" by (auto simp: atomic_write_def act_then_def act_bind_def io_context_def)
    with e1 o1 show ?thesis by (auto simp: written_def)
  next
    case r1: (Inr u)
    show ?thesis
    proof (cases r2)
      case (Inl x)
      with run r1 1 2 have "s' = s2" "\<exists>y. r = Inl y"
        by (auto simp: atomic_write_def act_then_def act_bind_def io_context_def temp_def [symmetric])
      moreover have "fs_file s2 = fs_file s" using e1(4) e2(4) Inl fs_only_none [of s1 s2] by simp
      ultimately show ?thesis using e1 e2 o2 by (auto simp: written_def)
    next
      case r2: (Inr u')
      have "s' = s3" "r = r3"
        using run r1 r2 1 2 3 by (simp_all add: atomic_write_def act_then_def act_bind_def io_context_def temp_def [symmetric])
      moreover have "fs_file s3 = (fs_file s)(path \<mapsto> data)" if r3: "r3 = Inr v" for v
      proof
        fix q
        have "fs_only {temp, path} s2 s3" "temp \<noteq> path \<longrightarrow> fs_file s3 temp = None" "fs_file s3 path = Some data"
          using e3(4) r3 by (auto simp: fs_file_def)
        then show "fs_file s3 q = ((fs_file s)(path \<mapsto> data)) q"
          using f2 [OF r2] fs_only_file [of "{temp, path}" s2 s3 q] by (cases "q = path"; cases "q = temp") auto
      qed
      moreover have "(\<forall>q. q \<noteq> temp \<longrightarrow> fs_file s3 q = fs_file s q) \<and> (fs_faults s = [] \<longrightarrow> fs_file s3 temp = None)"
        if r3: "r3 = Inl x" for x
      proof -
        from e3(4) r3 obtain s4 where s4: "fs_only {temp} s2 s4" "fs_only {temp} s4 s3"
          "fs_faults s2 = [] \<longrightarrow> fs_file s3 temp = None" by auto
        with f2 [OF r2] e1(3) e2(3) show ?thesis
          using fs_only_file [OF s4(1)] fs_only_file [OF s4(2)] by auto
      qed
      moreover have "fs_file s3 = fs_file s" if "\<forall>q. q \<noteq> temp \<longrightarrow> fs_file s3 q = fs_file s q" "fs_file s3 temp = None"
        using that f2(1) [OF r2] by (metis ext)
      ultimately show ?thesis using e1 e2 e3 o3 temp f2(1) [OF r2] by (cases r3) (auto simp: written_def)
    qed
  qed
qed

section \<open>Calls that do not fail\<close>

lemma act_for_append: "act_for (xs @ ys) f s = (case act_for xs f s of (Inl e, s') \<Rightarrow> (Inl e, s') | (Inr _, s') \<Rightarrow> act_for ys f s')"
  by (induction xs arbitrary: s) (auto simp: act_then_def act_bind_def split: prod.splits sum.splits)

definition no_file_above :: "fs \<Rightarrow> path \<Rightarrow> bool" where
  "no_file_above s p \<longleftrightarrow> (\<forall>j<length p. fs_file s (take j p) = None)"

lemma fs_missing_above: "no_file_above s p \<Longrightarrow> fs_missing s p = Not_Found"
  by (fastforce simp: no_file_above_def fs_missing_def fs_file_def list_ex_iff split: option.splits fnode.splits)

lemma mkdir_calm:
  assumes "fs_faults s = []" and "fs_file s p = None" and "fs_parent_dir s p"
  shows "\<exists>s'. fs_mkdir p s = (Inr (), s')" and "fs_ok s \<Longrightarrow> fs_mkdir p s = (Inr (), s') \<Longrightarrow> fs_lookup s' p = Some Dir"
  using assms
  by (auto simp: fs_mkdir_def faulty_def fs_file_def fs_lookup_put fs_lookup_None split: option.splits fnode.splits)

lemma create_dir_all_calm:
  assumes "fs_ok s" and "fs_faults s = []" and "\<And>j. j \<le> length p \<Longrightarrow> fs_file s (take j p) = None"
  shows "\<exists>s'. fs_create_dir_all p s = (Inr (), s') \<and> fs_lookup s' p = Some Dir"
proof -
  let ?mk = "\<lambda>n. act_for (map (\<lambda>k. take k p) [1..<Suc n]) fs_mkdir s"
  have "\<exists>s'. ?mk n = (Inr (), s') \<and> fs_lookup s' (take n p) = Some Dir" if "n \<le> length p" for n
    using that
  proof (induction n)
    case 0
    then show ?case by (simp add: fs_lookup_def)
  next
    case (Suc n)
    then obtain s1 where 1: "?mk n = (Inr (), s1)" "fs_lookup s1 (take n p) = Some Dir" by auto
    have "io_eff (act_for (map (\<lambda>k. take k p) [1..<Suc n]) fs_mkdir) (\<lambda>s r s'. fs_only UNIV s s' \<and> fs_file s' = fs_file s)"
      by (intro io_eff_for io_eff_weaken [OF fs_mkdir_eff]) (auto simp: fs_only_def)
    note e = io_effD [OF this assms(1) 1(1)]
    let ?q = "take (Suc n) p"
    have f: "fs_file s1 ?q = None" using e(4) assms(3) [OF Suc.prems] by simp
    have d: "fs_parent_dir s1 ?q" using 1(2) Suc.prems by (simp add: fs_parent_dir_def butlast_take)
    from mkdir_calm(1) [OF e(3) [OF assms(2)] f d] obtain s2 where 2: "fs_mkdir ?q s1 = (Inr (), s2)" by blast
    have "fs_lookup s2 ?q = Some Dir" by (rule mkdir_calm(2) [OF e(3) [OF assms(2)] f d e(1) 2])
    moreover have "map (\<lambda>k. take k p) [1..<Suc (Suc n)] = map (\<lambda>k. take k p) [1..<Suc n] @ [?q]" by simp
    then have "?mk (Suc n) = (Inr (), s2)"
      using 1(1) 2 by (simp only: act_for_append) (simp add: act_then_def act_bind_def)
    ultimately show ?case by blast
  qed
  from this [of "length p"] show ?thesis by (simp add: fs_create_dir_all_def)
qed

lemma fs_dir_above:
  assumes "fs_ok s" and "fs_lookup s (p @ q) = Some Dir"
  shows "fs_lookup s p = Some Dir"
  using assms(2)
proof (induction q rule: rev_induct)
  case (snoc x q)
  with fs_ok_parent [OF assms(1), of "p @ q @ [x]"] show ?case by (simp add: fs_parent_dir_def butlast_append)
qed simp

lemma fs_above:
  assumes "fs_ok s" and "fs_lookup s (p @ q) \<noteq> None" and "q \<noteq> []"
  shows "fs_lookup s p = Some Dir"
proof -
  from assms(2) have "fs_parent_dir s (p @ q)" using fs_ok_parent [OF assms(1)] assms(3) by blast
  then have "fs_lookup s (p @ butlast q) = Some Dir" using assms(3) by (simp add: fs_parent_dir_def butlast_append)
  then show ?thesis by (rule fs_dir_above [OF assms(1)])
qed

lemma atomic_write_calm:
  assumes ok: "fs_ok s" "fs_faults s = []" and tmp: "temps_ok tmp"
    and path: "path = dir @ segs" "segs \<noteq> []" "no_file_above s path" "fs_lookup s path \<noteq> Some Dir"
  shows "\<exists>s'. atomic_write tmp what dir path data s = (Inr (), s')"
proof -
  have above: "fs_file s (take j (butlast path)) = None" if "j \<le> length (butlast path)" for j
  proof -
    have "j < length path" "take j (butlast path) = take j path"
      using that path(1,2) by (cases segs rule: rev_cases; simp add: butlast_append)+
    then show ?thesis using path(3) by (simp add: no_file_above_def)
  qed
  obtain s1 where 1: "fs_create_dir_all (butlast path) s = (Inr (), s1)" "fs_lookup s1 (butlast path) = Some Dir"
    using create_dir_all_calm [OF ok above] by blast
  note e1 = io_effD [OF fs_create_dir_all_eff ok(1) 1(1)]
  define temp where "temp = dir @ [tmp s1 dir]"
  have c1: "fs_faults s1 = []" using e1(3) ok(2) by simp
  have "path \<noteq> []" using path(1,2) by simp
  then have "length q < length path" if "q \<in> on_way (butlast path)" for q
    using that by (cases path rule: rev_cases) (auto simp: on_way_def)
  then have "path \<notin> on_way (butlast path)" by blast
  then have p1: "fs_lookup s1 path \<noteq> Some Dir" using e1(4) path(4) by (simp add: fs_only_def)
  have "fs_lookup s1 dir = Some Dir"
    using fs_dir_above [OF e1(1), of dir "butlast segs"] 1(2) path(1,2) by (simp add: butlast_append)
  moreover have t1: "fs_lookup s1 temp = None" using tmp by (simp add: temp_def temps_ok_def)
  ultimately obtain s2 where 2: "fs_create_new temp s1 = (Inr (), s2)" and s2: "s2 = fs_put temp (File []) s1"
    using c1 by (simp add: fs_create_new_def faulty_def fs_parent_dir_def temp_def)
  have l2: "fs_lookup s2 = (fs_lookup s1)(temp \<mapsto> File [])" using e1(1) fs_lookup_None [OF t1] by (simp add: s2 fs_lookup_put)
  have ok2: "fs_ok s2" using io_effD(1) [OF fs_create_new_eff e1(1) 2] .
  have c2: "fs_faults s2 = []" using c1 by (simp add: s2)
  define s3 where "s3 = fs_put temp (File data) s2"
  have 3: "fs_write temp data s2 = (Inr (), s3)" using c2 l2 by (simp add: fs_write_def faulty_def s3_def)
  have l3: "fs_lookup s3 = (fs_lookup s1)(temp \<mapsto> File data)" using ok2 fs_lookup_None [OF t1] l2 by (simp add: s3_def fs_lookup_put)
  have c3: "fs_faults s3 = []" using c2 by (simp add: s3_def)
  have "temp \<noteq> butlast path" using t1 1(2) by auto
  then have "fs_parent_dir s3 path" using l3 1(2) by (simp add: fs_parent_dir_def)
  moreover have "fs_lookup s3 path \<noteq> Some Dir" using l3 p1 by simp
  ultimately have "fs_rename temp path s3 = (Inr (), fs_put path (File data) (fs_drop temp s3))"
    using c3 l3 by (simp add: fs_rename_def faulty_def)
  then have "fill_temp what temp path data s2 = (Inr (), fs_put path (File data) (fs_drop temp s3))"
    using 3 c3 by (simp add: fill_temp_def drop_on_error_def act_then_def act_bind_def io_context_def fs_sync_def faulty_def)
  then have "atomic_write tmp what dir path data s = (Inr (), fs_put path (File data) (fs_drop temp s3))"
    using 1(1) 2 by (simp add: atomic_write_def act_then_def act_bind_def io_context_def temp_def [symmetric])
  then show ?thesis by blast
qed

end
