(* ===== verification/Fs_KeyValue.thy ===== *)
theory Fs_KeyValue
  imports Fs_Names
begin

text \<open>
  The key-value surface over a directory tree (\<open>src/crates/filesystem/src/keyvalue.rs\<close>): a
  value is the file \<open>keyvalue/<bucket>/<key>\<close>, its expiry the file
  \<open>keyvalue-ttl/<bucket>/<key>\<close>. Each operation runs under its key's lock, so it is one action
  on the tree; the locks themselves are the last section. The clock stands still within one
  operation. \<open>add_i64\<close>, the host's checked counter addition, is a parameter.
\<close>

record fs_bucket =
  bk_name :: string
  bk_dir :: path
  bk_ttl_dir :: path

definition bucket_dir :: "path \<Rightarrow> string \<Rightarrow> string + path" where
  "bucket_dir root name =
     (if segment_ok name then Inr (root @ [name])
      else Inl (''bucket name '' @ in_ticks name @ '' must be a plain directory name''))"

definition key_path :: "path \<Rightarrow> string \<Rightarrow> string + path" where
  "key_path dir key =
     (if name_ok key then Inr (path_join dir key)
      else Inl (''key '' @ in_ticks key @ '' must be a bucket-relative path''))"

definition open_bucket :: "path \<Rightarrow> string \<Rightarrow> (fs, string, fs_bucket) act" where
  "open_bucket root identifier =
     act_bind (act_result (bucket_dir (root @ [''keyvalue'']) identifier)) (\<lambda>dir.
     act_bind (act_result (bucket_dir (root @ [''keyvalue-ttl'']) identifier)) (\<lambda>ttl_dir.
     act_then (io_context (''creating bucket '' @ in_ticks identifier) (fs_create_dir_all dir))
       (act_return \<lparr>bk_name = identifier, bk_dir = dir, bk_ttl_dir = ttl_dir\<rparr>)))"

section \<open>Files of one key\<close>

definition read_value :: "path \<Rightarrow> string \<Rightarrow> (fs, string, bytes option) act" where
  "read_value path key = io_found (''reading key '' @ in_ticks key) None Some (fs_read path)"

definition remove_key_file :: "path \<Rightarrow> string \<Rightarrow> (fs, string, unit) act" where
  "remove_key_file path key = io_found (''deleting key '' @ in_ticks key) () (\<lambda>_. ()) (fs_remove_file path)"

definition write_value :: "temp_names \<Rightarrow> path \<Rightarrow> string \<Rightarrow> bytes \<Rightarrow> (fs, string, unit) act" where
  "write_value tmp dir key data =
     act_bind (act_result (key_path dir key)) (\<lambda>path. atomic_write tmp (''key '' @ in_ticks key) dir path data)"

definition ttl_past :: "fs \<Rightarrow> bytes \<Rightarrow> bool" where
  "ttl_past s b \<longleftrightarrow> length b = 16 \<and> from_be b \<le> fs_now s"

definition is_expired :: "path \<Rightarrow> string \<Rightarrow> (fs, string, bool) act" where
  "is_expired ttl_dir key =
     act_bind (act_result (key_path ttl_dir key)) (\<lambda>path.
     act_bind (io_found (''reading ttl for key '' @ in_ticks key) None Some (fs_read path)) (\<lambda>read1.
       case read1 of None \<Rightarrow> act_return False | Some b \<Rightarrow> act_gets (\<lambda>s. ttl_past s b)))"

text \<open>A \<open>Duration\<close> is its nanoseconds; \<open>as_millis\<close> truncates, the sum saturates at 128 bits.\<close>

definition expires_at :: "nat \<Rightarrow> nat \<Rightarrow> nat" where
  "expires_at now1 ttl = min (now1 + ttl div 1000000) (2 ^ 128 - 1)"

definition write_ttl :: "temp_names \<Rightarrow> path \<Rightarrow> string \<Rightarrow> nat option \<Rightarrow> (fs, string, unit) act" where
  "write_ttl tmp ttl_dir key ttl =
     (case ttl of
        Some t \<Rightarrow>
          act_bind (act_gets (\<lambda>s. expires_at (fs_now s) t)) (\<lambda>at1.
          act_then (io_context (''creating ttl dir for key '' @ in_ticks key) (fs_create_dir_all ttl_dir))
            (write_value tmp ttl_dir key (to_be 16 at1)))
      | None \<Rightarrow> act_bind (act_result (key_path ttl_dir key)) (\<lambda>path. remove_key_file path key))"

definition remove_entry :: "path \<Rightarrow> path \<Rightarrow> string \<Rightarrow> (fs, string, unit) act" where
  "remove_entry dir ttl_dir key =
     act_bind (act_result (key_path dir key)) (\<lambda>path.
     act_bind (act_result (key_path ttl_dir key)) (\<lambda>ttl_path.
     act_bind (act_attempt (remove_key_file ttl_path key)) (\<lambda>_. remove_key_file path key)))"

definition read_live :: "path \<Rightarrow> path \<Rightarrow> string \<Rightarrow> (fs, string, bytes option) act" where
  "read_live dir ttl_dir key =
     act_bind (act_result (key_path dir key)) (\<lambda>path.
     act_bind (is_expired ttl_dir key) (\<lambda>gone.
       if gone then act_then (remove_entry dir ttl_dir key) (act_return None) else read_value path key))"

section \<open>The operations of a bucket\<close>

definition kv_get :: "fs_bucket \<Rightarrow> string \<Rightarrow> (fs, string, bytes option) act" where
  "kv_get b key = read_live (bk_dir b) (bk_ttl_dir b) key"

definition kv_set :: "temp_names \<Rightarrow> fs_bucket \<Rightarrow> string \<Rightarrow> bytes \<Rightarrow> nat option \<Rightarrow> (fs, string, unit) act" where
  "kv_set tmp b key data ttl =
     act_then (write_value tmp (bk_dir b) key data) (write_ttl tmp (bk_ttl_dir b) key ttl)"

definition kv_delete :: "fs_bucket \<Rightarrow> string \<Rightarrow> (fs, string, unit) act" where
  "kv_delete b key = remove_entry (bk_dir b) (bk_ttl_dir b) key"

definition kv_exists :: "fs_bucket \<Rightarrow> string \<Rightarrow> (fs, string, bool) act" where
  "kv_exists b key = act_bind (read_live (bk_dir b) (bk_ttl_dir b) key) (\<lambda>v. act_return (v \<noteq> None))"

fun live_keys :: "fs_bucket \<Rightarrow> string list \<Rightarrow> (fs, string, string list) act" where
  "live_keys b [] = act_return []"
| "live_keys b (key # keys1) =
     act_bind (is_expired (bk_ttl_dir b) key) (\<lambda>gone.
       if gone
       then act_bind (act_attempt (remove_entry (bk_dir b) (bk_ttl_dir b) key)) (\<lambda>_. live_keys b keys1)
       else act_bind (live_keys b keys1) (\<lambda>live. act_return (key # live)))"

definition kv_keys :: "fs_bucket \<Rightarrow> (fs, string, string list) act" where
  "kv_keys b = act_bind (fs_collect (bk_dir b)) (live_keys b)"

type_synonym counter_add = "bytes option \<Rightarrow> 64 word \<Rightarrow> string + 64 word"

definition kv_increment :: "temp_names \<Rightarrow> counter_add \<Rightarrow> fs_bucket \<Rightarrow> string \<Rightarrow> 64 word \<Rightarrow> (fs, string, 64 word) act" where
  "kv_increment tmp add_fn b key delta =
     act_bind (read_live (bk_dir b) (bk_ttl_dir b) key) (\<lambda>existing.
     act_bind (act_result (case add_fn existing delta of
         Inl _ \<Rightarrow> Inl (''incrementing '' @ in_ticks key @ '' by '' @ dec_int (sint delta)) | Inr n \<Rightarrow> Inr n)) (\<lambda>incremented.
     act_then (write_value tmp (bk_dir b) key (i64_to_be incremented)) (act_return incremented)))"

text \<open>\<open>Ok(Err(observed))\<close> is the left injection.\<close>

definition kv_cas ::
  "temp_names \<Rightarrow> fs_bucket \<Rightarrow> string \<Rightarrow> bytes option \<Rightarrow> bytes \<Rightarrow> (fs, string, bytes option + unit) act" where
  "kv_cas tmp b key expected data =
     act_bind (read_live (bk_dir b) (bk_ttl_dir b) key) (\<lambda>observed.
       if observed = expected
       then act_then (write_value tmp (bk_dir b) key data) (act_return (Inr ()))
       else act_return (Inl observed))"

section \<open>The bucket as a map\<close>

definition bucket_at :: "path \<Rightarrow> string \<Rightarrow> fs_bucket" where
  "bucket_at root name =
     \<lparr>bk_name = name, bk_dir = root @ [''keyvalue'', name], bk_ttl_dir = root @ [''keyvalue-ttl'', name]\<rparr>"

definition kv_expired :: "fs_bucket \<Rightarrow> fs \<Rightarrow> string \<Rightarrow> bool" where
  "kv_expired b s key = (case fs_file s (joined (bk_ttl_dir b) key) of None \<Rightarrow> False | Some t \<Rightarrow> ttl_past s t)"

definition kv_live :: "fs_bucket \<Rightarrow> fs \<Rightarrow> string \<Rightarrow> bytes option" where
  "kv_live b s key = (if kv_expired b s key then None else fs_file s (joined (bk_dir b) key))"

lemma joined_inj: "joined dir a = joined dir c \<longleftrightarrow> a = c"
  by (metis joined_def same_append_eq str_join_split)

lemma joined_apart: "joined (bk_dir (bucket_at root n)) a \<noteq> joined (bk_ttl_dir (bucket_at root m)) c"
  by (simp add: joined_def bucket_at_def)

lemma joined_nonempty [simp]: "joined dir a \<noteq> []"
  by (simp add: joined_def)

lemma ttl_past_same: "fs_now s' = fs_now s \<Longrightarrow> ttl_past s' = ttl_past s"
  by (simp add: ttl_past_def fun_eq_iff)

section \<open>Effects\<close>

lemma fs_only_pair: "fs_only {p} s s' \<Longrightarrow> fs_only {p, q} s s'" "fs_only {q} s s' \<Longrightarrow> fs_only {p, q} s s'"
  by (erule fs_only_mono; blast)+

lemma fs_only_empty: "fs_only {} s s' \<Longrightarrow> fs_only A s s'"
  by (erule fs_only_mono) simp

lemma kv_same:
  assumes "fs_file s' = fs_file s" and "fs_now s' = fs_now s"
  shows "kv_expired b s' = kv_expired b s" "kv_live b s' = kv_live b s"
proof -
  have "ttl_past s' = ttl_past s" using assms(2) by (rule ttl_past_same)
  then have "kv_expired b s' key = kv_expired b s key" for key by (simp add: kv_expired_def assms(1) split: option.split)
  then show "kv_expired b s' = kv_expired b s" ..
  then show "kv_live b s' = kv_live b s" by (intro ext) (simp add: kv_live_def assms(1))
qed

text \<open>The expiry file decides, and reading it changes nothing.\<close>

lemma is_expired_eff:
  assumes "name_ok key"
  shows "io_eff (is_expired (bk_ttl_dir b) key) (\<lambda>s r s'. fs_only {} s s' \<and>
    (case r of Inr x \<Rightarrow> x = kv_expired b s key
     | Inl _ \<Rightarrow> fs_faults s = [] \<longrightarrow> fs_file s (joined (bk_ttl_dir b) key) = None))"
proof (rule io_effI)
  let ?p = "joined (bk_ttl_dir b) key"
  fix s r s' assume ok: "fs_ok s" and run: "is_expired (bk_ttl_dir b) key s = (r, s')"
  obtain r1 s1 where 1: "fs_read ?p s = (r1, s1)" by (cases "fs_read ?p s")
  note e = io_effD [OF fs_read_eff ok 1]
  have "is_expired (bk_ttl_dir b) key s = ((case r1 of Inr c \<Rightarrow> Inr (ttl_past s1 c)
      | Inl e \<Rightarrow> (case e of Not_Found \<Rightarrow> Inr False | Io_Other \<Rightarrow> Inl (''reading ttl for key '' @ in_ticks key))), s1)"
  proof (cases r1)
    case (Inl e)
    with 1 assms show ?thesis by (cases e) (simp_all add: is_expired_def key_path_def act_bind_def io_found_def)
  next
    case (Inr c)
    with 1 assms show ?thesis by (simp add: is_expired_def key_path_def act_bind_def io_found_def)
  qed
  with run have s': "s' = s1" and r: "r = (case r1 of Inr c \<Rightarrow> Inr (ttl_past s1 c)
      | Inl e \<Rightarrow> (case e of Not_Found \<Rightarrow> Inr False | Io_Other \<Rightarrow> Inl (''reading ttl for key '' @ in_ticks key)))"
    by simp_all
  show "fs_ok s' \<and> fs_now s' = fs_now s \<and> (fs_faults s = [] \<longrightarrow> fs_faults s' = []) \<and> fs_only {} s s' \<and>
    (case r of Inr x \<Rightarrow> x = kv_expired b s key | Inl _ \<Rightarrow> fs_faults s = [] \<longrightarrow> fs_file s ?p = None)"
    using e unfolding s' r
    by (cases r1) (auto simp: kv_expired_def ttl_past_same [OF e(2)] split: io_error.splits option.splits)
qed

lemma remove_key_file_eff:
  "io_eff (remove_key_file p key) (\<lambda>s r s'. fs_only {p} s s' \<and> fs_dirs s' = fs_dirs s \<and>
    (case r of Inr _ \<Rightarrow> fs_file s' p = None
     | Inl _ \<Rightarrow> fs_only {} s s' \<and> (fs_faults s = [] \<longrightarrow> fs_file s p = None)))"
  unfolding remove_key_file_def
  by (rule io_eff_weaken [OF io_eff_found [OF fs_remove_file_eff]])
    (auto simp: fs_only_none split: sum.splits)

lemma remove_entry_eff:
  assumes "name_ok key" and "joined dir key \<noteq> joined ttl_dir key"
  shows "io_eff (remove_entry dir ttl_dir key) (\<lambda>s r s'. fs_only {joined dir key, joined ttl_dir key} s s' \<and> fs_dirs s' = fs_dirs s \<and>
    (fs_file s' (joined ttl_dir key) = None \<or>
       fs_faults s \<noteq> [] \<and> fs_file s' (joined ttl_dir key) = fs_file s (joined ttl_dir key)) \<and>
    (case r of Inr _ \<Rightarrow> fs_file s' (joined dir key) = None
     | Inl _ \<Rightarrow> fs_file s' (joined dir key) = fs_file s (joined dir key) \<and>
         (fs_faults s = [] \<longrightarrow> fs_file s (joined dir key) = None)))"
proof (rule io_effI)
  let ?p = "joined dir key" and ?t = "joined ttl_dir key"
  fix s r s' assume ok: "fs_ok s" and run: "remove_entry dir ttl_dir key s = (r, s')"
  obtain r1 s1 where 1: "remove_key_file ?t key s = (r1, s1)" by (cases "remove_key_file ?t key s")
  note e1 = io_effD [OF remove_key_file_eff ok 1]
  have "remove_key_file ?p key s1 = (r, s')"
    using run 1 assms(1) by (simp add: remove_entry_def key_path_def act_bind_def)
  note e2 = io_effD [OF remove_key_file_eff e1(1) this]
  have t: "fs_file s' ?t = fs_file s1 ?t" using e2(4) assms(2) fs_only_file [of "{?p}" s1 s' ?t] by auto
  have p: "fs_file s1 ?p = fs_file s ?p" using e1(4) assms(2) fs_only_file [of "{?t}" s s1 ?p] by auto
  have "fs_only {?p, ?t} s s'"
    using fs_only_trans [OF fs_only_pair(2) fs_only_pair(1)] e1(4) e2(4) by blast
  moreover have "fs_file s1 ?t = None \<or> fs_faults s \<noteq> [] \<and> fs_file s1 ?t = fs_file s ?t"
    using e1(4) by (cases r1) (auto simp: fs_only_none)
  moreover have "case r of Inr _ \<Rightarrow> fs_file s' ?p = None
     | Inl _ \<Rightarrow> fs_file s' ?p = fs_file s ?p \<and> (fs_faults s = [] \<longrightarrow> fs_file s ?p = None)"
    using e2(4) e1(3) p by (cases r) (auto simp: fs_only_none)
  ultimately show "fs_ok s' \<and> fs_now s' = fs_now s \<and> (fs_faults s = [] \<longrightarrow> fs_faults s' = []) \<and>
    fs_only {?p, ?t} s s' \<and> fs_dirs s' = fs_dirs s \<and> (fs_file s' ?t = None \<or> fs_faults s \<noteq> [] \<and> fs_file s' ?t = fs_file s ?t) \<and>
    (case r of Inr _ \<Rightarrow> fs_file s' ?p = None
     | Inl _ \<Rightarrow> fs_file s' ?p = fs_file s ?p \<and> (fs_faults s = [] \<longrightarrow> fs_file s ?p = None))"
    using e1 e2 t by simp
qed

text \<open>
  A locked read returns the live value and leaves it live; a failing call can only leave the
  key as it was or bring the bytes of an expired value back.
\<close>

definition looked_up :: "fs_bucket \<Rightarrow> string \<Rightarrow> fs \<Rightarrow> string + bytes option \<Rightarrow> fs \<Rightarrow> bool" where
  "looked_up b key s r s' \<longleftrightarrow>
     fs_only {joined (bk_dir b) key, joined (bk_ttl_dir b) key} s s' \<and> fs_dirs s' = fs_dirs s \<and>
     (fs_file s' (joined (bk_dir b) key) = fs_file s (joined (bk_dir b) key) \<or>
        kv_expired b s key \<and> fs_file s' (joined (bk_dir b) key) = None) \<and>
     (case r of
        Inr v \<Rightarrow> v = kv_live b s key \<and> kv_live b s' key = v \<and> (fs_faults s = [] \<longrightarrow> \<not> kv_expired b s' key)
      | Inl _ \<Rightarrow> kv_live b s' key = kv_live b s key \<or>
          fs_faults s \<noteq> [] \<and> kv_expired b s key \<and> kv_live b s' key = fs_file s (joined (bk_dir b) key))"

lemma read_live_eff:
  assumes "name_ok key" and "joined (bk_dir b) key \<noteq> joined (bk_ttl_dir b) key"
  shows "io_eff (read_live (bk_dir b) (bk_ttl_dir b) key) (looked_up b key)"
proof (rule io_effI)
  let ?p = "joined (bk_dir b) key" and ?t = "joined (bk_ttl_dir b) key"
  fix s r s' assume ok: "fs_ok s" and run: "read_live (bk_dir b) (bk_ttl_dir b) key s = (r, s')"
  obtain r1 s1 where 1: "is_expired (bk_ttl_dir b) key s = (r1, s1)" by (cases "is_expired (bk_ttl_dir b) key s")
  note e1 = io_effD [OF is_expired_eff [OF assms(1)] ok 1]
  have f1: "fs_file s1 = fs_file s" using e1(4) fs_only_none by blast
  have k1: "kv_expired b s1 = kv_expired b s" "kv_live b s1 = kv_live b s"
    using kv_same [OF f1 e1(2)] by simp_all
  have o1: "fs_only {?p, ?t} s s1" using e1(4) fs_only_empty by blast
  have d1: "fs_dirs s1 = fs_dirs s" using e1(4) fs_dirs_only by blast
  show "fs_ok s' \<and> fs_now s' = fs_now s \<and> (fs_faults s = [] \<longrightarrow> fs_faults s' = []) \<and> looked_up b key s r s'"
  proof (cases r1)
    case (Inl x)
    with run 1 assms(1) have "s' = s1" "r = Inl x" by (simp_all add: read_live_def key_path_def act_bind_def)
    with e1 o1 d1 k1 f1 show ?thesis by (simp add: looked_up_def)
  next
    case (Inr gone)
    with e1(4) have gone: "gone = kv_expired b s key" by simp
    show ?thesis
    proof (cases gone)
      case True
      obtain r2 s2 where 2: "remove_entry (bk_dir b) (bk_ttl_dir b) key s1 = (r2, s2)"
        by (cases "remove_entry (bk_dir b) (bk_ttl_dir b) key s1")
      note e2 = io_effD [OF remove_entry_eff [OF assms] e1(1) 2]
      have s': "s' = s2" "r = (case r2 of Inl x \<Rightarrow> Inl x | Inr _ \<Rightarrow> Inr None)"
        using run 1 2 assms(1) Inr True
        by (cases r2; simp add: read_live_def key_path_def act_bind_def act_then_def)+
      have o2: "fs_only {?p, ?t} s s2" using fs_only_trans [OF o1] e2(4) by blast
      have x: "kv_live b s key = None" using gone True by (simp add: kv_live_def)
      have live2: "kv_live b s2 key = (if kv_expired b s2 key then None else fs_file s2 ?p)" by (simp add: kv_live_def)
      have "kv_live b s2 key = None \<and> (fs_faults s = [] \<longrightarrow> \<not> kv_expired b s2 key)" if "r2 = Inr u" for u
        using e2(4) e1(3) that by (auto simp: kv_live_def kv_expired_def)
      moreover have "fs_file s2 ?p = fs_file s ?p \<or> fs_file s2 ?p = None"
        using e2(4) f1 by (cases r2) auto
      moreover have "kv_live b s2 key = None \<or> fs_faults s \<noteq> [] \<and> kv_live b s2 key = fs_file s ?p" if "r2 = Inl y" for y
        using e2(4) that e1(3) f1 by (auto simp: kv_live_def)
      ultimately show ?thesis
        using e1 e2 o2 d1 x gone True unfolding s' by (cases r2) (auto simp: looked_up_def)
    next
      case False
      obtain r2 s2 where 2: "fs_read ?p s1 = (r2, s2)" by (cases "fs_read ?p s1")
      note e2 = io_effD [OF fs_read_eff e1(1) 2]
      have f2: "fs_file s2 = fs_file s" using e2(4) f1 fs_only_none [of s1 s2] by simp
      have d2: "fs_dirs s2 = fs_dirs s" using e2(4) d1 fs_dirs_only [of s1 s2] by simp
      have k2: "kv_live b s2 = kv_live b s" "kv_expired b s2 = kv_expired b s"
        using kv_same [OF f2] e1(2) e2(2) by simp_all
      have o2: "fs_only {?p, ?t} s s2" using fs_only_trans [OF o1 fs_only_empty] e2(4) by blast
      have "read_live (bk_dir b) (bk_ttl_dir b) key s = ((case r2 of Inr c \<Rightarrow> Inr (Some c)
          | Inl e \<Rightarrow> (case e of Not_Found \<Rightarrow> Inr None | Io_Other \<Rightarrow> Inl (''reading key '' @ in_ticks key))), s2)"
      proof (cases r2)
        case (Inl e)
        with 1 2 assms(1) False show ?thesis
          by (cases e) (simp_all add: \<open>r1 = Inr gone\<close> read_live_def key_path_def act_bind_def read_value_def io_found_def)
      next
        case (Inr c)
        with 1 2 assms(1) \<open>r1 = Inr gone\<close> False show ?thesis
          by (simp add: read_live_def key_path_def act_bind_def read_value_def io_found_def)
      qed
      with run have s': "s' = s2" "r = (case r2 of Inr c \<Rightarrow> Inr (Some c)
          | Inl e \<Rightarrow> (case e of Not_Found \<Rightarrow> Inr None | Io_Other \<Rightarrow> Inl (''reading key '' @ in_ticks key)))"
        by simp_all
      have "kv_live b s key = fs_file s ?p" using gone False by (simp add: kv_live_def)
      with e1 e2 o2 d2 k2 f1 f2 gone False show ?thesis unfolding s'
        by (cases r2) (auto simp: looked_up_def split: io_error.splits)
    qed
  qed
qed

lemma write_value_eff:
  assumes "name_ok key" and "temps_ok tmp"
  shows "io_eff (write_value tmp dir key data) (written dir (joined dir key) data)"
  using atomic_write_eff [OF joined_nonempty assms(2), of "''key '' @ in_ticks key" dir dir key data] assms(1)
  by (simp add: write_value_def key_path_def act_bind_def)

text \<open>A path with nothing in its way: no file above it, no directory at it.\<close>

definition path_clear :: "fs \<Rightarrow> path \<Rightarrow> bool" where
  "path_clear s p \<longleftrightarrow> no_file_above s p \<and> fs_lookup s p \<noteq> Some Dir"

definition kv_clear :: "fs_bucket \<Rightarrow> fs \<Rightarrow> string \<Rightarrow> bool" where
  "kv_clear b s key \<longleftrightarrow> path_clear s (joined (bk_dir b) key) \<and> path_clear s (joined (bk_ttl_dir b) key)"

lemma path_clear_same: "fs_only {} s s' \<Longrightarrow> path_clear s' p = path_clear s p"
  using fs_only_none [of s s'] by (simp add: path_clear_def no_file_above_def) (simp add: fs_only_def)

lemma path_clear_frame:
  assumes "path_clear s p" and "\<And>j. j < length p \<Longrightarrow> fs_file s' (take j p) = fs_file s (take j p)"
    and "fs_lookup s' p = fs_lookup s p"
  shows "path_clear s' p"
  using assms by (simp add: path_clear_def no_file_above_def)

lemma fs_read_calm:
  assumes "fs_faults s = []" and "path_clear s p"
  shows "fs_read p s = ((case fs_file s p of Some c \<Rightarrow> Inr c | None \<Rightarrow> Inl Not_Found), s)"
  using assms fs_missing_above [of s p]
  by (auto simp: fs_read_def faulty_def path_clear_def fs_file_def split: option.splits fnode.splits)

lemma remove_key_file_calm:
  assumes "fs_faults s = []" and "path_clear s p"
  shows "\<exists>s'. remove_key_file p key s = (Inr (), s')"
  using assms fs_missing_above [of s p]
  by (auto simp: remove_key_file_def io_found_def fs_remove_file_def faulty_def path_clear_def
      split: option.splits fnode.splits)

lemma is_expired_calm:
  assumes "fs_faults s = []" and "name_ok key" and "path_clear s (joined (bk_ttl_dir b) key)"
  shows "is_expired (bk_ttl_dir b) key s = (Inr (kv_expired b s key), s)"
  using fs_read_calm [OF assms(1,3)] assms(2)
  by (simp add: is_expired_def key_path_def act_bind_def io_found_def kv_expired_def split: option.split)

text \<open>The value paths and the expiry paths of a bucket are apart, prefixes included.\<close>

lemma take_joined_apart:
  "take j (joined (bk_dir (bucket_at root n)) a) \<noteq> joined (bk_ttl_dir (bucket_at root m)) c"
  "take j (joined (bk_ttl_dir (bucket_at root m)) c) \<noteq> joined (bk_dir (bucket_at root n)) a"
proof -
  have v: "x \<noteq> y" if "take (length root) x = root \<longrightarrow> length x > length root \<longrightarrow> x ! length root = ''keyvalue''"
    "take (length root) y = root" "length y > length root" "y ! length root = ''keyvalue-ttl''" for x y :: path
    using that by auto
  show "take j (joined (bk_dir (bucket_at root n)) a) \<noteq> joined (bk_ttl_dir (bucket_at root m)) c"
    by (rule v) (auto simp: joined_def bucket_at_def nth_append min_def split: if_split_asm)
  have w: "x \<noteq> y" if "take (length root) x = root \<longrightarrow> length x > length root \<longrightarrow> x ! length root = ''keyvalue-ttl''"
    "take (length root) y = root" "length y > length root" "y ! length root = ''keyvalue''" for x y :: path
    using that by auto
  show "take j (joined (bk_ttl_dir (bucket_at root m)) c) \<noteq> joined (bk_dir (bucket_at root n)) a"
    by (rule w) (auto simp: joined_def bucket_at_def nth_append min_def split: if_split_asm)
qed

lemma read_value_calm:
  assumes "fs_faults s = []" and "path_clear s p"
  shows "read_value p key s = (Inr (fs_file s p), s)"
  using fs_read_calm [OF assms] by (simp add: read_value_def io_found_def split: option.split)

lemma remove_entry_calm:
  assumes "b = bucket_at root n" and "fs_ok s" "fs_faults s = []" and "name_ok key" and "kv_clear b s key"
  shows "\<exists>s'. remove_entry (bk_dir b) (bk_ttl_dir b) key s = (Inr (), s')"
proof -
  let ?t = "joined (bk_ttl_dir b) key" and ?p = "joined (bk_dir b) key"
  have c: "path_clear s ?p" "path_clear s ?t" using assms(5) by (simp_all add: kv_clear_def)
  obtain s1 where 1: "remove_key_file ?t key s = (Inr (), s1)" using remove_key_file_calm [OF assms(3) c(2)] by blast
  note e1 = io_effD [OF remove_key_file_eff assms(2) 1]
  have o1: "fs_only {?t} s s1" using e1(4) by simp
  have ap: "take j ?p \<noteq> ?t" for j unfolding assms(1) by (rule take_joined_apart)
  have "path_clear s1 ?p"
  proof (rule path_clear_frame [OF c(1)])
    show "fs_file s1 (take j ?p) = fs_file s (take j ?p)" for j using ap [of j] by (intro fs_only_file [OF o1]) simp
    show "fs_lookup s1 ?p = fs_lookup s ?p" using o1 ap [of "length ?p"] by (simp add: fs_only_def)
  qed
  from remove_key_file_calm [OF e1(3) [OF assms(3)] this] obtain s2 where "remove_key_file ?p key s1 = (Inr (), s2)" by blast
  with 1 assms(4) show ?thesis by (simp add: remove_entry_def key_path_def act_bind_def)
qed

lemma read_live_calm:
  assumes "b = bucket_at root n" and "fs_ok s" "fs_faults s = []" and "name_ok key" and "kv_clear b s key"
  shows "\<exists>v s'. read_live (bk_dir b) (bk_ttl_dir b) key s = (Inr v, s')"
proof -
  have c: "path_clear s (joined (bk_dir b) key)" "path_clear s (joined (bk_ttl_dir b) key)"
    using assms(5) by (simp_all add: kv_clear_def)
  have x: "is_expired (bk_ttl_dir b) key s = (Inr (kv_expired b s key), s)" by (rule is_expired_calm [OF assms(3,4) c(2)])
  obtain s2 where "remove_entry (bk_dir b) (bk_ttl_dir b) key s = (Inr (), s2)"
    using remove_entry_calm [OF assms] by blast
  with x read_value_calm [OF assms(3) c(1), of key] assms(4) show ?thesis
    by (simp add: read_live_def key_path_def act_bind_def act_then_def)
qed

section \<open>The specification: a map whose entries may be dead\<close>

datatype kv_call = Get | Set bytes "nat option" | Delete | Exists | Increment "64 word" | Cas "bytes option" bytes

datatype kv_reply = Value "bytes option" | Stored | Deleted | Present bool | Count "64 word" | Swapped | Stale "bytes option"

definition kv_run :: "temp_names \<Rightarrow> counter_add \<Rightarrow> fs_bucket \<Rightarrow> string \<Rightarrow> kv_call \<Rightarrow> (fs, string, kv_reply) act" where
  "kv_run tmp add_fn b key call =
     (case call of
        Get \<Rightarrow> act_bind (kv_get b key) (\<lambda>v. act_return (Value v))
      | Set data ttl \<Rightarrow> act_then (kv_set tmp b key data ttl) (act_return Stored)
      | Delete \<Rightarrow> act_then (kv_delete b key) (act_return Deleted)
      | Exists \<Rightarrow> act_bind (kv_exists b key) (\<lambda>x. act_return (Present x))
      | Increment delta \<Rightarrow> act_bind (kv_increment tmp add_fn b key delta) (\<lambda>n. act_return (Count n))
      | Cas expected data \<Rightarrow> act_bind (kv_cas tmp b key expected data)
          (\<lambda>r. act_return (case r of Inl seen \<Rightarrow> Stale seen | Inr _ \<Rightarrow> Swapped)))"

definition kv_spec :: "counter_add \<Rightarrow> nat \<Rightarrow> kv_call \<Rightarrow> bytes option \<Rightarrow> kv_reply option \<times> bytes option" where
  "kv_spec add_fn now1 call v =
     (case call of
        Get \<Rightarrow> (Some (Value v), v)
      | Set data ttl \<Rightarrow>
          (Some Stored, case ttl of None \<Rightarrow> Some data | Some t \<Rightarrow> if expires_at now1 t \<le> now1 then None else Some data)
      | Delete \<Rightarrow> (Some Deleted, None)
      | Exists \<Rightarrow> (Some (Present (v \<noteq> None)), v)
      | Increment delta \<Rightarrow> (case add_fn v delta of Inl _ \<Rightarrow> (None, v) | Inr n \<Rightarrow> (Some (Count n), Some (i64_to_be n)))
      | Cas expected data \<Rightarrow> if v = expected then (Some Swapped, Some data) else (Some (Stale v), v))"

lemma kv_live_frame:
  assumes "b = bucket_at root n" and "fs_now s' = fs_now s" and "k \<noteq> key"
    and "\<And>q. q \<noteq> joined (bk_dir b) key \<Longrightarrow> q \<noteq> joined (bk_ttl_dir b) key \<Longrightarrow> fs_file s' q = fs_file s q"
  shows "kv_live b s' k = kv_live b s k"
proof -
  have "joined (bk_dir b) k \<noteq> joined (bk_ttl_dir b) key" "joined (bk_ttl_dir b) k \<noteq> joined (bk_dir b) key"
    unfolding assms(1) using joined_apart by metis+
  then have "fs_file s' (joined (bk_dir b) k) = fs_file s (joined (bk_dir b) k)"
    "fs_file s' (joined (bk_ttl_dir b) k) = fs_file s (joined (bk_ttl_dir b) k)"
    using assms(3,4) by (simp_all add: joined_inj)
  then show ?thesis using ttl_past_same [OF assms(2)] by (simp add: kv_live_def kv_expired_def split: option.split)
qed

lemma kv_live_upd:
  assumes "b = bucket_at root n" and "fs_now s' = fs_now s" and "kv_live b s' key = v"
    and "\<And>q. q \<noteq> joined (bk_dir b) key \<Longrightarrow> q \<noteq> joined (bk_ttl_dir b) key \<Longrightarrow> fs_file s' q = fs_file s q"
  shows "kv_live b s' = (kv_live b s)(key := v)"
  using kv_live_frame [OF assms(1,2) _ assms(4)] assms(3) by (intro ext) auto

lemma to_be_16 [simp]: "length (to_be 16 x) = 16" "from_be (to_be 16 (expires_at a t)) = expires_at a t"
proof -
  show "length (to_be 16 x) = 16" by (simp add: length_to_be)
  have "expires_at a t < 256 ^ 16" by (simp add: expires_at_def min_def)
  then show "from_be (to_be 16 (expires_at a t)) = expires_at a t" by (simp add: from_be_to_be)
qed

text \<open>A locked read, then a write, on a tree with nothing in the way.\<close>

lemma read_live_exact:
  assumes "b = bucket_at root n" and "fs_ok s" "fs_faults s = []" and "name_ok key" and "kv_clear b s key"
  obtains s' where "read_live (bk_dir b) (bk_ttl_dir b) key s = (Inr (kv_live b s key), s')" "fs_ok s'" "fs_faults s' = []"
    "fs_now s' = fs_now s" "kv_live b s' = kv_live b s" "path_clear s' (joined (bk_dir b) key)" "\<not> kv_expired b s' key"
proof -
  obtain v s' where run: "read_live (bk_dir b) (bk_ttl_dir b) key s = (Inr v, s')" using read_live_calm [OF assms] by blast
  have ap: "joined (bk_dir b) key \<noteq> joined (bk_ttl_dir b) key" unfolding assms(1) by (rule joined_apart)
  note e = io_effD [OF read_live_eff [OF assms(4) ap] assms(2) run]
  have o: "fs_only {joined (bk_dir b) key, joined (bk_ttl_dir b) key} s s'" "fs_dirs s' = fs_dirs s"
    and v: "v = kv_live b s key" "kv_live b s' key = v" "\<not> kv_expired b s' key"
    using e(4) assms(3) by (simp_all add: looked_up_def)
  have "kv_live b s' = (kv_live b s)(key := v)"
    by (rule kv_live_upd [OF assms(1) e(2) v(2)]) (rule fs_only_file [OF o(1)], simp)
  then have "kv_live b s' = kv_live b s" using v(1) by simp
  moreover have "path_clear s' (joined (bk_dir b) key)"
  proof -
    have "take j (joined (bk_dir b) key) \<noteq> joined (bk_dir b) key" if "j < length (joined (bk_dir b) key)" for j
      using that by (metis length_take min.absorb4 nat_neq_iff)
    moreover have "take j (joined (bk_dir b) key) \<noteq> joined (bk_ttl_dir b) key" for j
      unfolding assms(1) by (rule take_joined_apart)
    ultimately have "no_file_above s' (joined (bk_dir b) key)"
      using assms(5) fs_only_file [OF o(1)] by (simp add: no_file_above_def kv_clear_def path_clear_def)
    moreover have "joined (bk_dir b) key \<notin> fs_dirs s'"
      using assms(5) o(2) by (simp add: fs_dirs_def kv_clear_def path_clear_def)
    ultimately show ?thesis by (simp add: path_clear_def fs_dirs_def)
  qed
  ultimately show thesis using that [OF run [unfolded v(1)]] e(1,2) e(3) [OF assms(3)] v(3) by blast
qed

lemma write_value_exact:
  assumes "fs_ok s" "fs_faults s = []" and "temps_ok tmp" and "name_ok key" and "path_clear s (joined dir key)"
  obtains s' where "write_value tmp dir key data s = (Inr (), s')" "fs_ok s'" "fs_faults s' = []" "fs_now s' = fs_now s"
    "fs_file s' = (fs_file s)(joined dir key \<mapsto> data)"
    "fs_only (on_way (butlast (joined dir key)) \<union> temps dir \<union> {joined dir key}) s s'"
proof -
  from atomic_write_calm [OF assms(1-3), of "joined dir key" dir "str_split CHR ''/'' key"] assms(5) obtain s' where
    "atomic_write tmp (''key '' @ in_ticks key) dir (joined dir key) data s = (Inr (), s')"
    by (auto simp: joined_def path_clear_def)
  then have run: "write_value tmp dir key data s = (Inr (), s')"
    using assms(4) by (simp add: write_value_def key_path_def act_bind_def)
  note e = io_effD [OF write_value_eff [OF assms(4,3)] assms(1) run]
  show thesis using that [OF run e(1) e(3) [OF assms(2)] e(2)] e(4) by (simp add: written_def)
qed

lemma bucket_apart: "bk_dir (bucket_at root n) @ x \<noteq> bk_ttl_dir (bucket_at root m) @ y"
  by (simp add: bucket_at_def)

lemma written_clear:
  assumes "b = bucket_at root n" and "path_clear s (joined (bk_ttl_dir b) key)"
    and "fs_file s' = (fs_file s)(joined (bk_dir b) key \<mapsto> data)"
    and "fs_only (on_way (butlast (joined (bk_dir b) key)) \<union> temps (bk_dir b) \<union> {joined (bk_dir b) key}) s s'"
  shows "path_clear s' (joined (bk_ttl_dir b) key)"
proof (rule path_clear_frame [OF assms(2)])
  let ?p = "joined (bk_dir b) key" and ?t = "joined (bk_ttl_dir b) key"
  have "take j ?t \<noteq> ?p" for j unfolding assms(1) by (rule take_joined_apart)
  then show "fs_file s' (take j ?t) = fs_file s (take j ?t)" for j by (simp add: assms(3))
  have "take k (butlast ?p) \<noteq> ?t" if "k \<le> length (butlast ?p)" for k
  proof -
    have "take k (butlast ?p) = take k ?p" using that by (cases ?p rule: rev_cases) simp_all
    then show ?thesis using take_joined_apart(1) [of k root n key n key] by (simp add: assms(1))
  qed
  then have "?t \<notin> on_way (butlast ?p)" unfolding on_way_def by fastforce
  moreover have "?t \<notin> temps (bk_dir b)"
    by (auto simp: temps_def joined_def assms(1) bucket_at_def)
  moreover have "?t \<noteq> ?p" unfolding assms(1) using joined_apart by metis
  ultimately show "fs_lookup s' ?t = fs_lookup s ?t" using assms(4) by (simp add: fs_only_def)
qed

lemma write_ttl_exact:
  assumes "fs_ok s" "fs_faults s = []" and "temps_ok tmp" and "name_ok key" and "path_clear s (joined ttl_dir key)"
  obtains s' where "write_ttl tmp ttl_dir key ttl s = (Inr (), s')" "fs_ok s'" "fs_now s' = fs_now s"
    "fs_file s' = (fs_file s)(joined ttl_dir key := map_option (\<lambda>t. to_be 16 (expires_at (fs_now s) t)) ttl)"
proof (cases ttl)
  case None
  obtain s' where run: "remove_key_file (joined ttl_dir key) key s = (Inr (), s')"
    using remove_key_file_calm [OF assms(2,5)] by blast
  note e = io_effD [OF remove_key_file_eff assms(1) run]
  have "fs_file s' = (fs_file s)(joined ttl_dir key := None)"
    using e(4) fs_only_file [of "{joined ttl_dir key}" s s'] by (intro ext) auto
  then show thesis
    using that [of s'] run e(1,2) assms(4) None by (simp add: write_ttl_def key_path_def act_bind_def)
next
  case (Some t)
  let ?t = "joined ttl_dir key"
  have above: "fs_file s (take j ttl_dir) = None" if "j \<le> length ttl_dir" for j
  proof -
    have "j < length ?t" "take j ?t = take j ttl_dir"
      using that by (cases "str_split CHR ''/'' key"; simp add: joined_def)+
    then show ?thesis using assms(5) by (metis path_clear_def no_file_above_def)
  qed
  obtain s1 where 1: "fs_create_dir_all ttl_dir s = (Inr (), s1)"
    using create_dir_all_calm [OF assms(1,2) above] by blast
  note e1 = io_effD [OF fs_create_dir_all_eff assms(1) 1]
  have "length q < length ?t" if "q \<in> on_way ttl_dir" for q
    using that by (cases "str_split CHR ''/'' key") (auto simp: on_way_def joined_def)
  then have "?t \<notin> on_way ttl_dir" by blast
  then have "path_clear s1 ?t"
    using e1(4) by (intro path_clear_frame [OF assms(5)]) (simp_all add: fs_only_def)
  from write_value_exact [OF e1(1) e1(3) [OF assms(2)] assms(3,4) this] obtain s' where
    2: "write_value tmp ttl_dir key (to_be 16 (expires_at (fs_now s) t)) s1 = (Inr (), s')" "fs_ok s'" "fs_now s' = fs_now s1"
      "fs_file s' = (fs_file s1)(?t \<mapsto> to_be 16 (expires_at (fs_now s) t))" by metis
  show thesis
    using that [of s'] 1 2 e1(2,4) Some by (simp add: write_ttl_def act_bind_def act_then_def io_context_def)
qed

lemma kv_set_exact:
  assumes "b = bucket_at root n" and "fs_ok s" "fs_faults s = []" and "temps_ok tmp" and "name_ok key" and "kv_clear b s key"
  shows "\<exists>s'. kv_set tmp b key data ttl s = (Inr (), s') \<and> fs_ok s' \<and>
    kv_live b s' = (kv_live b s)(key := snd (kv_spec add_fn (fs_now s) (Set data ttl) (kv_live b s key)))"
proof -
  let ?p = "joined (bk_dir b) key" and ?t = "joined (bk_ttl_dir b) key"
  have c: "path_clear s ?p" "path_clear s ?t" using assms(6) by (simp_all add: kv_clear_def)
  obtain s1 where 1: "write_value tmp (bk_dir b) key data s = (Inr (), s1)" "fs_ok s1" "fs_faults s1 = []" "fs_now s1 = fs_now s"
    "fs_file s1 = (fs_file s)(?p \<mapsto> data)" "fs_only (on_way (butlast ?p) \<union> temps (bk_dir b) \<union> {?p}) s s1"
    by (rule write_value_exact [OF assms(2-5) c(1)])
  obtain s2 where 2: "write_ttl tmp (bk_ttl_dir b) key ttl s1 = (Inr (), s2)" "fs_ok s2" "fs_now s2 = fs_now s1"
    "fs_file s2 = (fs_file s1)(?t := map_option (\<lambda>t. to_be 16 (expires_at (fs_now s1) t)) ttl)"
    by (rule write_ttl_exact [OF 1(2,3) assms(4,5) written_clear [OF assms(1) c(2) 1(5,6)]])
  have "?p \<noteq> ?t" unfolding assms(1) by (rule joined_apart)
  then have v: "kv_live b s2 key = snd (kv_spec add_fn (fs_now s) (Set data ttl) (kv_live b s key))"
    using 1(4,5) 2(3,4) by (simp add: kv_live_def kv_expired_def kv_spec_def ttl_past_def split: option.split)
  have "kv_live b s2 = (kv_live b s)(key := snd (kv_spec add_fn (fs_now s) (Set data ttl) (kv_live b s key)))"
    by (rule kv_live_upd [OF assms(1) _ v]) (simp_all add: 1(4,5) 2(3,4))
  then show ?thesis using 1(1) 2(1,2) by (simp add: kv_set_def act_then_def act_bind_def)
qed

text \<open>Overwriting a live or absent value keeps its expiry.\<close>

lemma write_live_exact:
  assumes "b = bucket_at root n" and "fs_ok s" "fs_faults s = []" and "temps_ok tmp" and "name_ok key"
    and "path_clear s (joined (bk_dir b) key)" and "\<not> kv_expired b s key"
  shows "\<exists>s'. write_value tmp (bk_dir b) key data s = (Inr (), s') \<and> fs_ok s' \<and> kv_live b s' = (kv_live b s)(key \<mapsto> data)"
proof -
  let ?p = "joined (bk_dir b) key" and ?t = "joined (bk_ttl_dir b) key"
  obtain s1 where 1: "write_value tmp (bk_dir b) key data s = (Inr (), s1)" "fs_ok s1" "fs_now s1 = fs_now s"
    "fs_file s1 = (fs_file s)(?p \<mapsto> data)"
    by (rule write_value_exact [OF assms(2-6)])
  have "?t \<noteq> ?p" unfolding assms(1) using joined_apart by metis
  then have "kv_live b s1 key = Some data"
    using assms(7) 1(3,4) ttl_past_same [OF 1(3)] by (simp add: kv_live_def kv_expired_def split: option.splits)
  from kv_live_upd [OF assms(1) 1(3) this] 1 show ?thesis by simp
qed


lemma kv_run_refines:
  assumes "b = bucket_at root n" and "fs_ok s" "fs_faults s = []" and "temps_ok tmp" and "name_ok key" and "kv_clear b s key"
  shows "\<exists>r s'. kv_run tmp add_fn b key call s = (r, s') \<and> fs_ok s' \<and>
    kv_live b s' = (kv_live b s)(key := snd (kv_spec add_fn (fs_now s) call (kv_live b s key))) \<and>
    (case fst (kv_spec add_fn (fs_now s) call (kv_live b s key)) of None \<Rightarrow> \<exists>e. r = Inl e | Some reply \<Rightarrow> r = Inr reply)"
proof -
  let ?live = "kv_live b s"
  obtain s1 where 1: "read_live (bk_dir b) (bk_ttl_dir b) key s = (Inr (?live key), s1)" "fs_ok s1" "fs_faults s1 = []"
    "kv_live b s1 = ?live" "path_clear s1 (joined (bk_dir b) key)" "\<not> kv_expired b s1 key"
    by (rule read_live_exact [OF assms(1-3,5,6)])
  note w = write_live_exact [OF assms(1) 1(2,3) assms(4,5) 1(5,6), unfolded 1(4)]
  show ?thesis
  proof (cases call)
    case Get
    with 1 show ?thesis by (simp add: kv_run_def kv_get_def kv_spec_def act_bind_def)
  next
    case (Set data ttl)
    from kv_set_exact [OF assms, of data ttl add_fn] obtain s2 where 2: "kv_set tmp b key data ttl s = (Inr (), s2)" "fs_ok s2"
      "kv_live b s2 = ?live(key := snd (kv_spec add_fn (fs_now s) call (?live key)))" by (auto simp: Set)
    then show ?thesis by (simp add: kv_run_def Set act_then_def act_bind_def) (simp add: kv_spec_def)
  next
    case Delete
    obtain s2 where 2: "remove_entry (bk_dir b) (bk_ttl_dir b) key s = (Inr (), s2)"
      using remove_entry_calm [OF assms(1-3,5,6)] by blast
    have ap: "joined (bk_dir b) key \<noteq> joined (bk_ttl_dir b) key" unfolding assms(1) by (rule joined_apart)
    note e = io_effD [OF remove_entry_eff [OF assms(5) ap] assms(2) 2]
    have "kv_live b s2 key = None" using e(4) by (simp add: kv_live_def)
    from kv_live_upd [OF assms(1) e(2) this] fs_only_file e(4) have "kv_live b s2 = ?live(key := None)" by auto
    with 2 e(1) show ?thesis by (simp add: kv_run_def kv_delete_def Delete act_then_def act_bind_def kv_spec_def)
  next
    case Exists
    with 1 show ?thesis by (simp add: kv_run_def kv_exists_def kv_spec_def act_bind_def)
  next
    case (Increment delta)
    show ?thesis
    proof (cases "add_fn (?live key) delta")
      case (Inl x)
      with 1 Increment show ?thesis by (simp add: kv_run_def kv_increment_def kv_spec_def act_bind_def)
    next
      case (Inr m)
      from w [of "i64_to_be m"] obtain s2 where "write_value tmp (bk_dir b) key (i64_to_be m) s1 = (Inr (), s2)" "fs_ok s2"
        "kv_live b s2 = ?live(key \<mapsto> i64_to_be m)" by blast
      with Inr 1 Increment show ?thesis
        by (simp add: kv_run_def kv_increment_def kv_spec_def act_bind_def act_then_def)
    qed
  next
    case (Cas expected data)
    from w [of data] obtain s2 where "write_value tmp (bk_dir b) key data s1 = (Inr (), s2)" "fs_ok s2"
      "kv_live b s2 = ?live(key \<mapsto> data)" by blast
    with 1 Cas show ?thesis by (auto simp: kv_run_def kv_cas_def kv_spec_def act_bind_def act_then_def)
  qed
qed

end
