(* ===== verification/Fs_KV_Props.thy ===== *)
theory Fs_KV_Props
  imports Fs_KeyValue
begin

text \<open>
  The properties of the key-value surface: it refines a map whose entries may have expired, and
  under any failures of the system calls its writes are confined and never torn.
\<close>

section \<open>What a call may touch\<close>

definition kv_region :: "fs_bucket \<Rightarrow> path set" where
  "kv_region b = on_way (bk_dir b) \<union> on_way (bk_ttl_dir b) \<union> range ((@) (bk_dir b)) \<union> range ((@) (bk_ttl_dir b))"

definition confined :: "fs_bucket \<Rightarrow> string \<Rightarrow> fs \<Rightarrow> fs \<Rightarrow> bool" where
  "confined b key s s' \<longleftrightarrow> fs_only (kv_region b) s s' \<and>
     (\<forall>q. q \<noteq> joined (bk_dir b) key \<longrightarrow> q \<noteq> joined (bk_ttl_dir b) key \<longrightarrow>
        fs_file s' q = fs_file s q \<or> q \<in> temps (bk_dir b) \<union> temps (bk_ttl_dir b) \<and> fs_file s q = None)"

lemma confined_refl [simp]: "confined b key s s"
  by (simp add: confined_def)

lemma confined_trans: "confined b key s s1 \<Longrightarrow> confined b key s1 s' \<Longrightarrow> confined b key s s'"
  unfolding confined_def using fs_only_trans by metis

lemma on_way_joined: "on_way (butlast (dir @ segs)) \<subseteq> on_way dir \<union> range ((@) dir)"
proof
  fix q assume "q \<in> on_way (butlast (dir @ segs))"
  then obtain k where q: "q = take k (butlast (dir @ segs))" by (auto simp: on_way_def)
  show "q \<in> on_way dir \<union> range ((@) dir)"
  proof (cases segs rule: rev_cases)
    case Nil
    have "q = take (min k (length dir - 1)) dir" using q Nil by (simp add: butlast_conv_take min.commute)
    then show ?thesis by (auto simp: on_way_def)
  next
    case (snoc xs x)
    show ?thesis
    proof (cases "k \<le> length dir")
      case True
      then show ?thesis using q snoc by (auto simp: on_way_def butlast_append)
    next
      case False
      then have "q = dir @ take (k - length dir) xs" using q snoc by (simp add: butlast_append)
      then show ?thesis by blast
    qed
  qed
qed

lemma region_parts:
  "on_way (bk_dir b) \<subseteq> kv_region b" "on_way (bk_ttl_dir b) \<subseteq> kv_region b"
  "on_way (butlast (joined (bk_dir b) key)) \<union> temps (bk_dir b) \<union> {joined (bk_dir b) key} \<subseteq> kv_region b"
  "on_way (butlast (joined (bk_ttl_dir b) key)) \<union> temps (bk_ttl_dir b) \<union> {joined (bk_ttl_dir b) key} \<subseteq> kv_region b"
  using on_way_joined by (fastforce simp: kv_region_def temps_def joined_def)+

lemma confined_pair:
  assumes "fs_only {joined (bk_dir b) key, joined (bk_ttl_dir b) key} s s'"
  shows "confined b key s s'"
proof -
  have "{joined (bk_dir b) key, joined (bk_ttl_dir b) key} \<subseteq> kv_region b" using region_parts by blast
  with fs_only_mono [OF assms] fs_only_file [OF assms] show ?thesis by (simp add: confined_def)
qed

lemma confined_dirs:
  assumes "fs_only (on_way (bk_ttl_dir b)) s s'" and "fs_file s' = fs_file s"
  shows "confined b key s s'"
  using fs_only_mono [OF assms(1) region_parts(2)] assms(2) by (simp add: confined_def)

lemma confined_written:
  assumes "dir = bk_dir b \<or> dir = bk_ttl_dir b" and "written dir (joined dir key) data s r s'"
  shows "confined b key s s'"
proof -
  have w: "fs_only (on_way (butlast (joined dir key)) \<union> temps dir \<union> {joined dir key}) s s'"
    using assms(2) by (simp add: written_def)
  have "on_way (butlast (joined dir key)) \<union> temps dir \<union> {joined dir key} \<subseteq> kv_region b"
    using assms(1) region_parts(3) [of b key] region_parts(4) [of b key] by (elim disjE) simp_all
  with w have only: "fs_only (kv_region b) s s'" by (rule fs_only_mono)
  have same: "fs_file s' q = fs_file s q \<or> q \<in> temps dir \<and> fs_file s q = None" if "q \<noteq> joined dir key" for q
  proof (cases r)
    case (Inl e)
    with assms(2) have "fs_file s' = fs_file s \<or> (\<exists>t \<in> temps dir. fs_file s t = None \<and> (\<forall>q. q \<noteq> t \<longrightarrow> fs_file s' q = fs_file s q))"
      unfolding written_def by auto
    then show ?thesis by metis
  next
    case (Inr u)
    with assms(2) that show ?thesis unfolding written_def by simp
  qed
  show ?thesis unfolding confined_def
  proof (intro conjI allI impI only)
    fix q assume "q \<noteq> joined (bk_dir b) key" "q \<noteq> joined (bk_ttl_dir b) key"
    with same [of q] assms(1) show "fs_file s' q = fs_file s q \<or> q \<in> temps (bk_dir b) \<union> temps (bk_ttl_dir b) \<and> fs_file s q = None"
      by auto
  qed
qed

section \<open>Any failures\<close>

text \<open>The bytes a call may leave in the value's file beside the ones it found.\<close>

definition kv_written :: "counter_add \<Rightarrow> kv_call \<Rightarrow> bytes option \<Rightarrow> bytes option" where
  "kv_written add_fn call v = (case call of Set data _ \<Rightarrow> Some data | _ \<Rightarrow> snd (kv_spec add_fn 0 call v))"

definition untorn :: "fs_bucket \<Rightarrow> string \<Rightarrow> bytes option \<Rightarrow> fs \<Rightarrow> fs \<Rightarrow> bool" where
  "untorn b key new s s' \<longleftrightarrow> fs_file s' (joined (bk_dir b) key) \<in> {fs_file s (joined (bk_dir b) key), kv_live b s key, new}"

lemma joined_not_temp:
  assumes "\<not> starts_with key ''.tmp''"
  shows "joined dir key \<notin> temps dir"
proof
  assume "joined dir key \<in> temps dir"
  then obtain n where "str_split CHR ''/'' key = [n]" "starts_with n ''.tmp''" by (auto simp: joined_def temps_def)
  then have "key = n" by (metis str_join.simps(2) str_join_split)
  with assms \<open>starts_with n ''.tmp''\<close> show False by simp
qed

lemma written_value:
  assumes "written dir (joined dir key) data s r s'" and "\<not> starts_with key ''.tmp''"
  shows "fs_file s' (joined dir key) = (case r of Inr _ \<Rightarrow> Some data | Inl _ \<Rightarrow> fs_file s (joined dir key))"
proof (cases r)
  case (Inl e)
  with assms(1) have "fs_file s' = fs_file s \<or> (\<exists>t \<in> temps dir. \<forall>q. q \<noteq> t \<longrightarrow> fs_file s' q = fs_file s q)"
    unfolding written_def by auto
  with joined_not_temp [OF assms(2), of dir] have "fs_file s' (joined dir key) = fs_file s (joined dir key)" by metis
  with Inl show ?thesis by simp
next
  case (Inr u)
  with assms(1) show ?thesis by (simp add: written_def)
qed

lemma read_live_safe:
  assumes "b = bucket_at root n" and "fs_ok s" and "name_ok key"
    and "read_live (bk_dir b) (bk_ttl_dir b) key s = (r, s')"
  shows "fs_ok s'" "confined b key s s'" "\<And>v. r = Inr v \<Longrightarrow> v = kv_live b s key"
    "fs_file s' (joined (bk_dir b) key) \<in> {fs_file s (joined (bk_dir b) key), kv_live b s key}"
proof -
  have ap: "joined (bk_dir b) key \<noteq> joined (bk_ttl_dir b) key" unfolding assms(1) by (rule joined_apart)
  note e = io_effD [OF read_live_eff [OF assms(3) ap] assms(2,4)]
  show "fs_ok s'" by (rule e(1))
  show "confined b key s s'" using e(4) by (intro confined_pair) (simp add: looked_up_def)
  show "v = kv_live b s key" if "r = Inr v" for v using e(4) that by (simp add: looked_up_def)
  show "fs_file s' (joined (bk_dir b) key) \<in> {fs_file s (joined (bk_dir b) key), kv_live b s key}"
    using e(4) by (auto simp: looked_up_def kv_live_def)
qed

lemma write_value_safe:
  assumes "b = bucket_at root n" and "fs_ok s" and "temps_ok tmp" and "name_ok key" and "\<not> starts_with key ''.tmp''"
    and "write_value tmp (bk_dir b) key data s = (r, s')"
  shows "fs_ok s'" "confined b key s s'"
    "fs_file s' (joined (bk_dir b) key) \<in> {fs_file s (joined (bk_dir b) key), Some data}"
proof -
  note e = io_effD [OF write_value_eff [OF assms(4,3)] assms(2,6)]
  show "fs_ok s'" by (rule e(1))
  show "confined b key s s'" by (rule confined_written [OF _ e(4)]) simp
  show "fs_file s' (joined (bk_dir b) key) \<in> {fs_file s (joined (bk_dir b) key), Some data}"
    using written_value [OF e(4) assms(5)] by (cases r) simp_all
qed

lemma write_ttl_safe:
  assumes "b = bucket_at root n" and "fs_ok s" and "temps_ok tmp" and "name_ok key"
    and "write_ttl tmp (bk_ttl_dir b) key ttl s = (r, s')"
  shows "confined b key s s'" "fs_file s' (joined (bk_dir b) key) = fs_file s (joined (bk_dir b) key)"
proof -
  let ?p = "joined (bk_dir b) key" and ?t = "joined (bk_ttl_dir b) key"
  have ap: "?p \<noteq> ?t" unfolding assms(1) by (rule joined_apart)
  have "confined b key s s' \<and> fs_file s' ?p = fs_file s ?p"
  proof (cases ttl)
    case None
    with assms(4,5) have "remove_key_file ?t key s = (r, s')" by (simp add: write_ttl_def key_path_def act_bind_def)
    note e = io_effD [OF remove_key_file_eff assms(2) this]
    have o: "fs_only {?t} s s'" using e(4) by simp
    have "fs_only {?p, ?t} s s'" using o by (rule fs_only_mono) simp
    with o ap show ?thesis using confined_pair fs_only_file [OF o] by simp
  next
    case (Some t)
    obtain r1 s1 where 1: "fs_create_dir_all (bk_ttl_dir b) s = (r1, s1)" by (cases "fs_create_dir_all (bk_ttl_dir b) s")
    note e1 = io_effD [OF fs_create_dir_all_eff assms(2) 1]
    have c1: "confined b key s s1" using e1(4) by (intro confined_dirs) simp_all
    show ?thesis
    proof (cases r1)
      case (Inl e)
      with assms(5) 1 Some have "s' = s1" by (simp add: write_ttl_def act_bind_def act_then_def io_context_def)
      with c1 e1(4) show ?thesis by simp
    next
      case (Inr u)
      with assms(5) 1 Some obtain data where w: "write_value tmp (bk_ttl_dir b) key data s1 = (r, s')"
        by (simp add: write_ttl_def act_bind_def act_then_def io_context_def)
      note e2 = io_effD [OF write_value_eff [OF assms(4,3)] e1(1) w]
      have c2: "confined b key s1 s'" by (rule confined_written [OF _ e2(4)]) simp
      have "?p \<notin> temps (bk_ttl_dir b)" by (auto simp: assms(1) temps_def joined_def bucket_at_def)
      have "fs_file s' ?p = fs_file s1 ?p"
      proof (cases r)
        case (Inl e)
        with e2(4) have "fs_file s' = fs_file s1 \<or> (\<exists>t \<in> temps (bk_ttl_dir b). \<forall>q. q \<noteq> t \<longrightarrow> fs_file s' q = fs_file s1 q)"
          unfolding written_def by auto
        with \<open>?p \<notin> temps (bk_ttl_dir b)\<close> show ?thesis by metis
      next
        case (Inr u')
        with e2(4) ap show ?thesis by (simp add: written_def)
      qed
      with confined_trans [OF c1 c2] e1(4) show ?thesis by simp
    qed
  qed
  then show "confined b key s s'" "fs_file s' ?p = fs_file s ?p" by simp_all
qed

definition call_safe :: "counter_add \<Rightarrow> fs_bucket \<Rightarrow> string \<Rightarrow> kv_call \<Rightarrow> fs \<Rightarrow> string + kv_reply \<Rightarrow> fs \<Rightarrow> bool" where
  "call_safe add_fn b key call s r s' \<longleftrightarrow>
     confined b key s s' \<and> untorn b key (kv_written add_fn call (kv_live b s key)) s s' \<and>
     (\<forall>reply. r = Inr reply \<longrightarrow> fst (kv_spec add_fn (fs_now s) call (kv_live b s key)) = Some reply)"

text \<open>A call that reads, and perhaps writes what it computed from the value.\<close>

lemma read_then_safe:
  assumes "b = bucket_at root n" and "fs_ok s" and "temps_ok tmp" and "name_ok key" and "\<not> starts_with key ''.tmp''"
    and "act_bind (read_live (bk_dir b) (bk_ttl_dir b) key) (\<lambda>v. case next1 v of
        Inl x \<Rightarrow> act_result x
      | Inr (data, reply) \<Rightarrow> act_then (write_value tmp (bk_dir b) key data) (act_return reply)) s = (r, s')"
    and "\<And>reply. next1 (kv_live b s key) = Inl (Inr reply) \<Longrightarrow> fst (kv_spec add_fn (fs_now s) call (kv_live b s key)) = Some reply"
    and "\<And>data reply. next1 (kv_live b s key) = Inr (data, reply) \<Longrightarrow>
       fst (kv_spec add_fn (fs_now s) call (kv_live b s key)) = Some reply \<and> kv_written add_fn call (kv_live b s key) = Some data"
  shows "call_safe add_fn b key call s r s'"
proof -
  let ?v = "kv_live b s key" and ?p = "joined (bk_dir b) key"
  obtain r1 s1 where 1: "read_live (bk_dir b) (bk_ttl_dir b) key s = (r1, s1)"
    by (cases "read_live (bk_dir b) (bk_ttl_dir b) key s")
  note a = read_live_safe [OF assms(1,2,4) 1]
  show ?thesis
  proof (cases r1)
    case (Inl e)
    with assms(6) 1 have "s' = s1" "r = Inl e" by (simp_all add: act_bind_def)
    with a show ?thesis by (auto simp: call_safe_def untorn_def)
  next
    case (Inr v)
    with a(3) have v: "v = ?v" by simp
    show ?thesis
    proof (cases "next1 ?v")
      case n: (Inl x)
      with assms(6) 1 Inr v have "s' = s1" "r = x" by (simp_all add: act_bind_def)
      with a assms(7) n show ?thesis by (auto simp: call_safe_def untorn_def)
    next
      case n: (Inr dr)
      obtain data reply where dr: "dr = (data, reply)" by (cases dr)
      obtain r2 s2 where 2: "write_value tmp (bk_dir b) key data s1 = (r2, s2)" by (cases "write_value tmp (bk_dir b) key data s1")
      note c = write_value_safe [OF assms(1) a(1) assms(3-5) 2]
      have "s' = s2" "r = (case r2 of Inl e \<Rightarrow> Inl e | Inr _ \<Rightarrow> Inr reply)"
        using assms(6) 1 2 Inr v n dr by (cases r2; simp add: act_bind_def act_then_def)+
      moreover have "fst (kv_spec add_fn (fs_now s) call ?v) = Some reply" "kv_written add_fn call ?v = Some data"
        using assms(8) n dr by simp_all
      ultimately show ?thesis
        using a(4) c(3) confined_trans [OF a(2) c(2)] by (cases r2) (auto simp: call_safe_def untorn_def)
    qed
  qed
qed

lemma kv_run_safe:
  assumes "b = bucket_at root n" and "fs_ok s" and "temps_ok tmp" and "name_ok key" and "\<not> starts_with key ''.tmp''"
    and "kv_run tmp add_fn b key call s = (r, s')"
  shows "call_safe add_fn b key call s r s'"
proof (cases call)
  case Get
  have run: "act_bind (read_live (bk_dir b) (bk_ttl_dir b) key) (\<lambda>v. case Inl (Inr (Value v)) of Inl x \<Rightarrow> act_result x
      | Inr (data, reply) \<Rightarrow> act_then (write_value tmp (bk_dir b) key data) (act_return reply)) s = (r, s')"
    using assms(6) by (simp add: Get kv_run_def kv_get_def)
  show ?thesis by (rule read_then_safe [OF assms(1-5) run]) (auto simp: Get kv_spec_def)
next
  case Exists
  have run: "act_bind (read_live (bk_dir b) (bk_ttl_dir b) key) (\<lambda>v. case Inl (Inr (Present (v \<noteq> None))) of Inl x \<Rightarrow> act_result x
      | Inr (data, reply) \<Rightarrow> act_then (write_value tmp (bk_dir b) key data) (act_return reply)) s = (r, s')"
    using assms(6) by (simp only: Exists kv_run_def kv_call.case kv_exists_def act_bind_assoc act_bind_return sum.case act_result_simps)
  show ?thesis by (rule read_then_safe [OF assms(1-5) run]) (auto simp: Exists kv_spec_def)
next
  case (Cas expected data)
  let ?next = "\<lambda>v. if v = expected then Inr (data, Swapped) else Inl (Inr (Stale v))"
  have "act_bind (if v = expected then act_then (write_value tmp (bk_dir b) key data) (act_return (Inr ()))
        else act_return (Inl v)) (\<lambda>r. act_return (case r of Inl seen \<Rightarrow> Stale seen | Inr _ \<Rightarrow> Swapped)) =
     (case ?next v of Inl x \<Rightarrow> act_result x
      | Inr (data, reply) \<Rightarrow> act_then (write_value tmp (bk_dir b) key data) (act_return reply))" for v
    by (simp add: act_then_def act_bind_def fun_eq_iff split: sum.splits prod.splits)
  then have run: "act_bind (read_live (bk_dir b) (bk_ttl_dir b) key) (\<lambda>v. case ?next v of Inl x \<Rightarrow> act_result x
      | Inr (data, reply) \<Rightarrow> act_then (write_value tmp (bk_dir b) key data) (act_return reply)) s = (r, s')"
    using assms(6) by (simp only: Cas kv_run_def kv_call.case kv_cas_def act_bind_assoc)
  show ?thesis by (rule read_then_safe [OF assms(1-5) run]) (auto simp: Cas kv_spec_def kv_written_def split: if_split_asm)
next
  case (Increment delta)
  let ?next = "\<lambda>v. case add_fn v delta of
      Inl _ \<Rightarrow> Inl (Inl (''incrementing '' @ in_ticks key @ '' by '' @ dec_int (sint delta))) | Inr n \<Rightarrow> Inr (i64_to_be n, Count n)"
  have "act_bind (act_bind (act_result (case add_fn v delta of
         Inl _ \<Rightarrow> Inl (''incrementing '' @ in_ticks key @ '' by '' @ dec_int (sint delta)) | Inr n \<Rightarrow> Inr n)) (\<lambda>incremented.
       act_then (write_value tmp (bk_dir b) key (i64_to_be incremented)) (act_return incremented))) (\<lambda>n. act_return (Count n)) =
     (case ?next v of Inl x \<Rightarrow> act_result x
      | Inr (data, reply) \<Rightarrow> act_then (write_value tmp (bk_dir b) key data) (act_return reply))" for v
    by (cases "add_fn v delta") (simp_all add: act_then_def act_bind_def fun_eq_iff split: sum.splits prod.splits)
  then have run: "act_bind (read_live (bk_dir b) (bk_ttl_dir b) key) (\<lambda>v. case ?next v of Inl x \<Rightarrow> act_result x
      | Inr (data, reply) \<Rightarrow> act_then (write_value tmp (bk_dir b) key data) (act_return reply)) s = (r, s')"
    using assms(6) by (simp only: Increment kv_run_def kv_call.case kv_increment_def act_bind_assoc)
  show ?thesis
    by (rule read_then_safe [OF assms(1-5) run]) (auto simp: Increment kv_spec_def kv_written_def split: sum.splits)
next
  case (Set data ttl)
  obtain r1 s1 where 1: "write_value tmp (bk_dir b) key data s = (r1, s1)" by (cases "write_value tmp (bk_dir b) key data s")
  note c = write_value_safe [OF assms(1-5) 1]
  show ?thesis
  proof (cases r1)
    case (Inl e)
    with assms(6) 1 Set have "s' = s1" "r = Inl e" by (simp_all add: kv_run_def kv_set_def act_then_def act_bind_def)
    with c Set show ?thesis by (auto simp: call_safe_def untorn_def kv_written_def)
  next
    case (Inr u)
    obtain r2 s2 where 2: "write_ttl tmp (bk_ttl_dir b) key ttl s1 = (r2, s2)" by (cases "write_ttl tmp (bk_ttl_dir b) key ttl s1")
    note d = write_ttl_safe [OF assms(1) c(1) assms(3,4) 2]
    have "s' = s2" "r = (case r2 of Inl e \<Rightarrow> Inl e | Inr _ \<Rightarrow> Inr Stored)"
      using assms(6) 1 2 Inr Set by (cases r2; simp add: kv_run_def kv_set_def act_then_def act_bind_def)+
    with c d confined_trans [OF c(2) d(1)] Set show ?thesis
      by (cases r2) (auto simp: call_safe_def untorn_def kv_written_def kv_spec_def)
  qed
next
  case Delete
  have ap: "joined (bk_dir b) key \<noteq> joined (bk_ttl_dir b) key" unfolding assms(1) by (rule joined_apart)
  obtain r1 s1 where 1: "remove_entry (bk_dir b) (bk_ttl_dir b) key s = (r1, s1)"
    by (cases "remove_entry (bk_dir b) (bk_ttl_dir b) key s")
  note e = io_effD [OF remove_entry_eff [OF assms(4) ap] assms(2) 1]
  have "confined b key s s1" using e(4) by (intro confined_pair) simp
  moreover have "s' = s1" "r = (case r1 of Inl e \<Rightarrow> Inl e | Inr _ \<Rightarrow> Inr Deleted)"
    using assms(6) 1 Delete by (cases r1; simp add: kv_run_def kv_delete_def act_then_def act_bind_def)+
  ultimately show ?thesis using e(4) Delete
    by (cases r1) (auto simp: call_safe_def untorn_def kv_written_def kv_spec_def)
qed

lemma kv_run_refused:
  assumes "\<not> name_ok key"
  shows "\<exists>e. kv_run tmp add_fn b key call s = (Inl e, s)"
  using assms
  by (cases call) (simp_all add: kv_run_def kv_get_def kv_set_def kv_delete_def kv_exists_def kv_increment_def kv_cas_def
      read_live_def write_value_def remove_entry_def key_path_def act_then_def)

lemma open_bucket_at:
  assumes "open_bucket root name s = (Inr b, s')"
  shows "b = bucket_at root name \<and> segment_ok name"
  using assms
  by (auto simp: open_bucket_def bucket_dir_def bucket_at_def act_bind_def act_then_def split: if_split_asm sum.splits prod.splits)

text \<open>
  C19. With no failing system call and nothing in the way of the key, every operation of a bucket
  answers and acts as on a map from keys to live bytes: expiry hides a value and is kept by
  \<open>increment\<close> and \<open>cas\<close>, \<open>set\<close> replaces it, a stale swap changes nothing, no other key changes.
\<close>

theorem kv_refines_map:
  assumes "open_bucket root name s0 = (Inr b, s1)" and "fs_ok s" and "fs_faults s = []" and "temps_ok tmp"
    and "name_ok key" and "kv_clear b s key"
  shows "\<exists>r s'. kv_run tmp add_fn b key call s = (r, s') \<and> fs_ok s' \<and>
    kv_live b s' = (kv_live b s)(key := snd (kv_spec add_fn (fs_now s) call (kv_live b s key))) \<and>
    (case fst (kv_spec add_fn (fs_now s) call (kv_live b s key)) of None \<Rightarrow> \<exists>e. r = Inl e | Some reply \<Rightarrow> r = Inr reply)"
  using kv_run_refines [OF conjunct1 [OF open_bucket_at [OF assms(1)]] assms(2-6)] .

text \<open>
  C20. Whichever system calls fail, an operation on a key is refused without a trace or stays in
  its bucket's two directories, changes no file of another key, leaves in the value's file its
  old bytes, the live value or the whole new value, and acknowledges only what the map would.
\<close>

theorem kv_writes_confined:
  assumes "open_bucket root name s0 = (Inr b, s1)" and "fs_ok s" and "temps_ok tmp" and "\<not> starts_with key ''.tmp''"
    and "kv_run tmp add_fn b key call s = (r, s')"
  shows "if name_ok key then call_safe add_fn b key call s r s' else s' = s \<and> (\<exists>e. r = Inl e)"
  using kv_run_safe [OF conjunct1 [OF open_bucket_at [OF assms(1)]] assms(2,3) _ assms(4,5)]
    kv_run_refused [of key tmp add_fn b call s] assms(5) by auto

section \<open>A concrete bucket\<close>

definition demo_temps :: temp_names where
  "demo_temps s d = ''.tmp'' @ replicate (sum_list (map (\<lambda>e. sum_list (map length (fst e))) (fs_nodes s))) CHR ''x''"

lemma demo_temps_ok: "temps_ok demo_temps"
proof -
  have "fs_lookup s (d @ [demo_temps s d]) = None" for s d
  proof (rule ccontr)
    let ?n = "demo_temps s d" and ?N = "sum_list (map (\<lambda>e. sum_list (map length (fst e))) (fs_nodes s))"
    assume "fs_lookup s (d @ [?n]) \<noteq> None"
    then obtain x where "(d @ [?n], x) \<in> set (fs_nodes s)" by (auto simp: fs_lookup_def dest: map_of_SomeD)
    then have "sum_list (map length (d @ [?n])) \<in> set (map (\<lambda>e. sum_list (map length (fst e))) (fs_nodes s))"
      by (force simp: image_iff)
    then have "sum_list (map length (d @ [?n])) \<le> ?N" by (rule member_le_sum_list) simp
    moreover have "length ?n = 4 + ?N" by (simp add: demo_temps_def)
    ultimately show False by simp
  qed
  moreover have "starts_with (demo_temps s d) ''.tmp''" for s d by (simp add: demo_temps_def starts_with_def)
  ultimately show ?thesis by (simp add: temps_ok_def)
qed

definition demo_fs :: "bool list \<Rightarrow> fs" where
  "demo_fs faults1 = \<lparr>fs_nodes = [], fs_now = 1000, fs_faults = faults1\<rparr>"

lemma demo_fs_ok: "fs_ok (demo_fs faults1)"
  by (simp add: fs_ok_def demo_fs_def fs_lookup_def)

lemma demo_bucket: "open_bucket [] ''b'' (demo_fs []) = (Inr (bucket_at [] ''b''), snd (open_bucket [] ''b'' (demo_fs [])))"
  by code_simp

theorem kv_refines_map_witness:
  "\<exists>r s'. kv_run demo_temps (\<lambda>_ d. Inr d) (bucket_at [] ''b'') ''a/k'' (Set [7] (Some 5000000)) (demo_fs []) = (r, s') \<and> fs_ok s' \<and>
     r = Inr Stored \<and> kv_live (bucket_at [] ''b'') s' ''a/k'' = Some [7]"
proof -
  have n: "name_ok ''a/k''" by code_simp
  have c: "kv_clear (bucket_at [] ''b'') (demo_fs []) ''a/k''"
    by (auto simp: kv_clear_def path_clear_def no_file_above_def fs_file_def fs_lookup_def demo_fs_def)
  from kv_refines_map [OF demo_bucket demo_fs_ok _ demo_temps_ok n c, where add_fn = "\<lambda>_ d. Inr d" and call = "Set [7] (Some 5000000)"]
  show ?thesis by (auto simp: kv_spec_def expires_at_def demo_fs_def)
qed

theorem kv_writes_confined_witness:
  "\<exists>r s'. kv_run demo_temps (\<lambda>_ d. Inr d) (bucket_at [] ''b'') ''k'' (Set [7] None) (demo_fs [False, True]) = (r, s') \<and>
     call_safe (\<lambda>_ d. Inr d) (bucket_at [] ''b'') ''k'' (Set [7] None) (demo_fs [False, True]) r s'"
proof -
  let ?run = "kv_run demo_temps (\<lambda>_ d. Inr d) (bucket_at [] ''b'') ''k'' (Set [7] None) (demo_fs [False, True])"
  have n: "name_ok ''k''" "\<not> starts_with ''k'' ''.tmp''" by code_simp+
  have "?run = (fst ?run, snd ?run)" by simp
  from kv_writes_confined [OF demo_bucket demo_fs_ok demo_temps_ok n(2) this] n(1)
  have "call_safe (\<lambda>_ d. Inr d) (bucket_at [] ''b'') ''k'' (Set [7] None) (demo_fs [False, True]) (fst ?run) (snd ?run)" by simp
  then show ?thesis by (metis prod.collapse)
qed

section \<open>Three sequences of calls\<close>

text \<open>
  An expired key whose value cannot be removed comes back without an expiry, because its expiry
  file is removed first; a swap is acknowledged and lost when the expiry file stays; and a
  deleted nested key leaves a directory no plain key can take the place of.
\<close>

definition run_calls :: "fs_bucket \<Rightarrow> (string \<times> kv_call) list \<Rightarrow> fs \<Rightarrow> (string + kv_reply) list" where
  "run_calls b calls s =
     rev (fst (fold (\<lambda>(key, call) (rs, s). case kv_run demo_temps (\<lambda>_ d. Inr d) b key call s of (r, s') \<Rightarrow> (r # rs, s'))
       calls ([], s)))"

definition expired_fs :: "bool list \<Rightarrow> fs" where
  "expired_fs faults1 = \<lparr>fs_nodes = [([''keyvalue''], Dir), ([''keyvalue'', ''b''], Dir), ([''keyvalue'', ''b'', ''k''], File [1]),
     ([''keyvalue-ttl''], Dir), ([''keyvalue-ttl'', ''b''], Dir), ([''keyvalue-ttl'', ''b'', ''k''], File (to_be 16 5))],
     fs_now = 1000, fs_faults = faults1\<rparr>"

lemma expired_value_returns:
  "run_calls (bucket_at [] ''b'') [(''k'', Get), (''k'', Get)] (expired_fs [False, False, True]) =
     [Inl (''deleting key '' @ in_ticks ''k''), Inr (Value (Some [1]))]"
  by code_simp

lemma acknowledged_swap_lost:
  "run_calls (bucket_at [] ''b'') [(''k'', Cas None [2]), (''k'', Get)] (expired_fs [False, True]) =
     [Inr Swapped, Inr (Value None)]"
  by code_simp

lemma deleted_key_blocks_prefix:
  "run_calls (bucket_at [] ''b'') [(''a/c'', Set [1] None), (''a/c'', Delete), (''a'', Set [2] None)] (demo_fs []) =
     [Inr Stored, Inr Deleted, Inl (''persisting key '' @ in_ticks ''a'')]"
  by code_simp

end
