(* ===== verification/Fs_Listing.thy ===== *)
theory Fs_Listing
  imports Fs_KV_Props
begin

text \<open>
  The listing of a bucket: with no failing call it returns exactly the live keys, except those
  whose first name starts as a temporary file's does; expired ones are removed on the way. And
  the blob surface's read and listing.
\<close>

section \<open>The tree below a directory\<close>

definition fs_names_ok :: "fs \<Rightarrow> bool" where
  "fs_names_ok s \<longleftrightarrow> (\<forall>p. fs_lookup s p \<noteq> None \<longrightarrow> list_all (\<lambda>x. segment_ok x \<and> utf8_valid x) p)"

lemma fs_names_iff: "x \<in> set (fs_names s dir) \<longleftrightarrow> fs_lookup s (dir @ [x]) \<noteq> None"
proof -
  have "fs_lookup s (dir @ [x]) \<noteq> None \<longleftrightarrow> dir @ [x] \<in> fst ` set (fs_nodes s)"
    by (simp add: fs_lookup_def map_of_eq_None_iff)
  also have "\<dots> \<longleftrightarrow> x \<in> set (fs_names s dir)"
    by (auto simp: fs_names_def image_iff intro!: rev_bexI [of "(dir @ [x], _)"])
      (metis append_butlast_last_id fst_conv snoc_eq_iff_butlast)
  finally show ?thesis ..
qed

lemma fs_depth:
  assumes "fs_ok s" and "fs_lookup s p \<noteq> None"
  shows "length p \<le> length (fs_nodes s)"
proof -
  have "fs_lookup s (take k p) \<noteq> None" if "k \<le> length p" for k
    using fs_above [OF assms(1), of "take k p" "drop k p"] assms(2) by (cases "k = length p") (use that in auto)
  then have "take k p \<in> fst ` set (fs_nodes s)" if "0 < k" "k \<le> length p" for k
  proof -
    have "take k p \<noteq> []" using that by auto
    then have "bt_get (fs_nodes s) (take k p) \<noteq> None" using \<open>\<And>k. k \<le> length p \<Longrightarrow> fs_lookup s (take k p) \<noteq> None\<close> [OF that(2)]
      by (simp add: fs_lookup_def)
    then show ?thesis by (simp add: map_of_eq_None_iff)
  qed
  then have "(\<lambda>k. take k p) ` {1..length p} \<subseteq> fst ` set (fs_nodes s)" by auto
  moreover have "inj_on (\<lambda>k. take k p) {1..length p}"
    by (rule inj_on_inverseI [where g = length]) simp
  ultimately have "length p \<le> card (fst ` set (fs_nodes s))"
    using card_mono [OF _ \<open>_ \<subseteq> _\<close>] by (simp add: card_image)
  also have "\<dots> \<le> length (fs_nodes s)" using card_image_le card_length le_trans by blast
  finally show ?thesis .
qed

section \<open>Collecting\<close>

text \<open>With no failing call an action that only reads leaves the state.\<close>

lemma act_collect_calm:
  assumes "\<And>x. x \<in> set xs \<Longrightarrow> f x s = (Inr (g x), s)"
  shows "act_collect f xs s = (Inr (concat (map g xs)), s)"
  using assms by (induction xs) (simp_all add: act_bind_def)

lemma distinct_fs_names:
  assumes "fs_ok s"
  shows "distinct (fs_names s dir)"
proof -
  have "distinct (map fst (fs_nodes s))" using assms bt.entries_distinct by (auto simp: fs_ok_def)
  moreover have "inj_on last {p. p \<noteq> [] \<and> butlast p = dir}"
    by (rule inj_onI) (metis (mono_tags, lifting) append_butlast_last_id mem_Collect_eq)
  then have "inj_on last (set (filter (\<lambda>p. p \<noteq> [] \<and> butlast p = dir) (map fst (fs_nodes s))))"
    by (rule inj_on_subset) auto
  ultimately show ?thesis by (simp add: fs_names_def distinct_map)
qed

lemma distinct_concat_map:
  assumes "distinct xs" and "\<And>x. x \<in> set xs \<Longrightarrow> distinct (g x)"
    and "\<And>x y n. x \<in> set xs \<Longrightarrow> y \<in> set xs \<Longrightarrow> n \<in> set (g x) \<Longrightarrow> n \<in> set (g y) \<Longrightarrow> x = y"
  shows "distinct (concat (map g xs))"
  using assms
proof (induction xs)
  case (Cons x xs)
  have "distinct (concat (map g xs))" using Cons.prems by (intro Cons.IH) (simp, simp, metis list.set_intros(2))
  moreover have "set (g x) \<inter> set (concat (map g xs)) = {}"
  proof (rule ccontr)
    assume "set (g x) \<inter> set (concat (map g xs)) \<noteq> {}"
    then obtain n y where "n \<in> set (g x)" "y \<in> set xs" "n \<in> set (g y)" by auto
    with Cons.prems(3) [of x y n] Cons.prems(1) show False by auto
  qed
  ultimately show ?case using Cons.prems(2) by simp
qed simp

definition plain :: "path \<Rightarrow> bool" where
  "plain ps \<longleftrightarrow> (\<forall>p \<in> set ps. p \<noteq> [] \<and> CHR ''/'' \<notin> set p)"

lemma plain_names: "fs_names_ok s \<Longrightarrow> fs_lookup s p \<noteq> None \<Longrightarrow> plain p"
  by (auto simp: fs_names_ok_def plain_def list_all_iff segment_ok_def list_ex_iff)

lemma str_join_append:
  "ps \<noteq> [] \<Longrightarrow> qs \<noteq> [] \<Longrightarrow> str_join sep (ps @ qs) = str_join sep ps @ sep @ str_join sep qs"
proof (induction sep ps rule: str_join.induct)
  case (2 sep p)
  then show ?case by (cases qs) auto
qed auto

lemma plain_split: "plain ps \<Longrightarrow> ps \<noteq> [] \<Longrightarrow> str_split CHR ''/'' (str_join ''/'' ps) = ps"
  by (rule str_split_join) (auto simp: plain_def)

lemma str_join_plain: "plain ps \<Longrightarrow> str_join ''/'' ps = [] \<longleftrightarrow> ps = []"
  by (cases "(''/'', ps)" rule: str_join.cases) (auto simp: plain_def)

definition listed :: "fs \<Rightarrow> path \<Rightarrow> string \<Rightarrow> string set" where
  "listed s dir prefix =
     {(if prefix = [] then [] else prefix @ ''/'') @ str_join ''/'' segs |segs.
        segs \<noteq> [] \<and> fs_file s (dir @ segs) \<noteq> None \<and> \<not> (prefix = [] \<and> starts_with (hd segs) ''.tmp'')}"

lemma listed_split:
  assumes "fs_names_ok s" and "plain ps" and "name \<in> listed s dir (str_join ''/'' ps)"
  obtains segs where "segs \<noteq> []" "str_split CHR ''/'' name = ps @ segs" "fs_file s (dir @ segs) \<noteq> None"
proof -
  from assms(3) obtain segs where s: "segs \<noteq> []" "fs_file s (dir @ segs) \<noteq> None"
    and name: "name = (if str_join ''/'' ps = [] then [] else str_join ''/'' ps @ ''/'') @ str_join ''/'' segs"
    by (auto simp: listed_def)
  have "fs_lookup s (dir @ segs) \<noteq> None" using s(2) by (auto simp: fs_file_def split: option.splits)
  then have "plain (dir @ segs)" by (rule plain_names [OF assms(1)])
  then have pl: "plain (ps @ segs)" using assms(2) by (auto simp: plain_def)
  have "name = str_join ''/'' (ps @ segs)"
    using name s(1) str_join_append [of ps segs "''/''"] str_join_plain [OF assms(2)] by (cases "ps = []") auto
  then have "str_split CHR ''/'' name = ps @ segs"
    using plain_split [OF pl] s(1) by simp
  with s show thesis using that by blast
qed

lemma listed_step:
  assumes "fs_ok s" and "fs_lookup s dir = Some Dir"
  shows "listed s dir prefix = (\<Union>x \<in> set (fs_names s dir).
    if prefix = [] \<and> starts_with x ''.tmp'' then {}
    else case fs_lookup s (dir @ [x]) of
        Some (File _) \<Rightarrow> {if prefix = [] then x else prefix @ ''/'' @ x}
      | _ \<Rightarrow> {(if prefix = [] then x else prefix @ ''/'' @ x) @ ''/'' @ str_join ''/'' segs |segs.
             segs \<noteq> [] \<and> fs_file s ((dir @ [x]) @ segs) \<noteq> None})" (is "?L = (\<Union>x \<in> _. ?part x)")
proof (intro subset_antisym subsetI)
  fix name assume "name \<in> ?L"
  then obtain segs where segs: "segs \<noteq> []" "fs_file s (dir @ segs) \<noteq> None" "\<not> (prefix = [] \<and> starts_with (hd segs) ''.tmp'')"
    and name: "name = (if prefix = [] then [] else prefix @ ''/'') @ str_join ''/'' segs" by (auto simp: listed_def)
  then obtain x rest where x: "segs = x # rest" by (cases segs) auto
  have l: "fs_lookup s (dir @ x # rest) \<noteq> None" using segs(2) x by (auto simp: fs_file_def split: option.splits)
  show "name \<in> (\<Union>x \<in> set (fs_names s dir). ?part x)"
  proof (cases rest)
    case Nil
    with l have "x \<in> set (fs_names s dir)" by (simp add: fs_names_iff)
    moreover have "name \<in> ?part x"
      using segs name x Nil by (auto simp: fs_file_def split: option.splits fnode.splits)
    ultimately show ?thesis by blast
  next
    case (Cons y ys)
    with fs_above [OF assms(1), of "dir @ [x]" rest] l have d: "fs_lookup s (dir @ [x]) = Some Dir" by simp
    then have "x \<in> set (fs_names s dir)" by (simp add: fs_names_iff)
    moreover have "name \<in> ?part x" using segs name x Cons d by auto
    ultimately show ?thesis by blast
  qed
next
  fix name assume "name \<in> (\<Union>x \<in> set (fs_names s dir). ?part x)"
  then obtain x where x: "x \<in> set (fs_names s dir)" "name \<in> ?part x" by blast
  show "name \<in> ?L"
  proof (cases "fs_lookup s (dir @ [x])")
    case None
    with x(1) show ?thesis by (simp add: fs_names_iff)
  next
    case (Some nd)
    show ?thesis
    proof (cases nd)
      case (File c)
      with x(2) Some show ?thesis
        by (auto simp: listed_def fs_file_def split: if_split_asm intro!: exI [of _ "[x]"])
    next
      case Dir
      with x(2) Some obtain segs where "segs \<noteq> []" "fs_file s (dir @ x # segs) \<noteq> None" "\<not> (prefix = [] \<and> starts_with x ''.tmp'')"
        "name = (if prefix = [] then x else prefix @ ''/'' @ x) @ ''/'' @ str_join ''/'' segs"
        by (auto split: if_split_asm)
      then show ?thesis by (cases segs) (auto simp: listed_def intro!: exI [of _ "x # segs"])
    qed
  qed
qed

lemma collect_at_calm:
  assumes "fs_ok s" and "fs_faults s = []" and "fs_names_ok s"
  shows "fs_lookup s dir = Some Dir \<Longrightarrow> length (fs_nodes s) < n + length dir \<Longrightarrow> plain ps \<Longrightarrow> prefix = str_join ''/'' ps \<Longrightarrow>
    \<exists>names. collect_at n dir prefix s = (Inr names, s) \<and> set names = listed s dir prefix \<and> distinct names"
proof (induction n arbitrary: dir prefix ps)
  case 0
  then show ?case using fs_depth [OF assms(1), of dir] by simp
next
  case (Suc n)
  let ?rel = "\<lambda>x. if prefix = [] then x else prefix @ ''/'' @ x"
  let ?f = "\<lambda>name. if \<not> utf8_valid name \<or> (prefix = [] \<and> starts_with name ''.tmp'') then act_return []
     else let rel = ?rel name
       in act_bind (io_context ''issue reading directory entry'' (fs_file_type (dir @ [name]))) (\<lambda>kind.
            case kind of Dir \<Rightarrow> collect_at n (dir @ [name]) rel | File _ \<Rightarrow> act_return [rel])"
  define part where "part x = (if prefix = [] \<and> starts_with x ''.tmp'' then {}
     else case fs_lookup s (dir @ [x]) of Some (File _) \<Rightarrow> {?rel x} | _ \<Rightarrow> listed s (dir @ [x]) (?rel x))" for x
  have rel: "?rel x = str_join ''/'' (ps @ [x])" "plain (ps @ [x])" if "x \<in> set (fs_names s dir)" for x
  proof -
    from that have "plain (dir @ [x])" using plain_names [OF assms(3)] by (simp add: fs_names_iff)
    then show "plain (ps @ [x])" using Suc.prems(3) by (auto simp: plain_def)
    show "?rel x = str_join ''/'' (ps @ [x])"
      using str_join_append [of ps "[x]" "''/''"] str_join_plain [OF Suc.prems(3)] Suc.prems(4) by (cases "ps = []") auto
  qed
  have "\<exists>ys. ?f x s = (Inr ys, s) \<and> set ys = part x \<and> distinct ys" if x: "x \<in> set (fs_names s dir)" for x
  proof -
    from x obtain nd where nd: "fs_lookup s (dir @ [x]) = Some nd" by (auto simp: fs_names_iff)
    with assms(3) have "utf8_valid x" by (fastforce simp: fs_names_ok_def)
    moreover have "fs_file_type (dir @ [x]) s = (Inr nd, s)" using nd assms(2) by (simp add: fs_file_type_def faulty_def)
    moreover have "\<exists>ys. collect_at n (dir @ [x]) (?rel x) s = (Inr ys, s) \<and> set ys = listed s (dir @ [x]) (?rel x) \<and> distinct ys"
      if "nd = Dir"
      using Suc.IH [of "dir @ [x]" "ps @ [x]" "?rel x"] nd that Suc.prems(2) rel [OF x] by simp
    ultimately show ?thesis
      by (cases nd) (auto simp: part_def nd act_bind_def io_context_def Let_def)
  qed
  then have "\<forall>x \<in> set (fs_names s dir). \<exists>ys. ?f x s = (Inr ys, s) \<and> set ys = part x \<and> distinct ys" by blast
  from bchoice [OF this] obtain g where
    g: "\<And>x. x \<in> set (fs_names s dir) \<Longrightarrow> ?f x s = (Inr (g x), s) \<and> set (g x) = part x \<and> distinct (g x)" by blast
  have "act_collect ?f (fs_names s dir) s = (Inr (concat (map g (fs_names s dir))), s)"
    using g by (intro act_collect_calm) blast
  moreover have "fs_read_dir dir s = (Inr (fs_names s dir), s)"
    using Suc.prems(1) assms(2) by (simp add: fs_read_dir_def faulty_def)
  ultimately have run: "collect_at (Suc n) dir prefix s = (Inr (concat (map g (fs_names s dir))), s)"
    by (simp add: act_bind_def io_context_def)
  have "set (concat (map g (fs_names s dir))) = (\<Union>x \<in> set (fs_names s dir). part x)" using g by auto
  also have "\<dots> = listed s dir prefix"
    unfolding listed_step [OF assms(1) Suc.prems(1), of prefix]
  proof (rule SUP_cong [OF refl])
    fix x assume "x \<in> set (fs_names s dir)"
    then have "x \<noteq> []" using assms(3) by (auto simp: fs_names_iff fs_names_ok_def segment_ok_def)
    then show "part x = (if prefix = [] \<and> starts_with x ''.tmp'' then {}
        else case fs_lookup s (dir @ [x]) of Some (File _) \<Rightarrow> {?rel x}
          | _ \<Rightarrow> {?rel x @ ''/'' @ str_join ''/'' segs |segs. segs \<noteq> [] \<and> fs_file s ((dir @ [x]) @ segs) \<noteq> None})"
      by (simp add: part_def listed_def split: option.split fnode.split)
  qed
  finally have names: "set (concat (map g (fs_names s dir))) = listed s dir prefix" .
  have "\<exists>rest. str_split CHR ''/'' nm = ps @ x # rest" if x: "x \<in> set (fs_names s dir)" and nm: "nm \<in> set (g x)" for x nm
  proof -
    from nm g [OF x] have "nm = ?rel x \<or> nm \<in> listed s (dir @ [x]) (?rel x)"
      by (auto simp: part_def split: if_split_asm option.splits fnode.splits)
    then show ?thesis
    proof
      assume "nm = ?rel x"
      then have "str_split CHR ''/'' nm = ps @ [x]" using rel [OF x] plain_split [of "ps @ [x]"] by simp
      then show ?thesis by blast
    next
      assume "nm \<in> listed s (dir @ [x]) (?rel x)"
      then have "nm \<in> listed s (dir @ [x]) (str_join ''/'' (ps @ [x]))" by (simp only: rel(1) [OF x])
      then obtain segs where "str_split CHR ''/'' nm = (ps @ [x]) @ segs" by (rule listed_split [OF assms(3) rel(2) [OF x]])
      then show ?thesis by simp
    qed
  qed
  note first = this
  have "distinct (concat (map g (fs_names s dir)))"
  proof (rule distinct_concat_map [OF distinct_fs_names [OF assms(1)]])
    show "distinct (g x)" if "x \<in> set (fs_names s dir)" for x using g [OF that] by blast
    show "x = y" if "x \<in> set (fs_names s dir)" "y \<in> set (fs_names s dir)" "nm \<in> set (g x)" "nm \<in> set (g y)" for x y nm
      using first [OF that(1,3)] first [OF that(2,4)] by auto
  qed
  with names run show ?case by blast
qed

section \<open>The live keys\<close>

definition holds_less :: "fs \<Rightarrow> fs \<Rightarrow> bool" where
  "holds_less s s' \<longleftrightarrow> fs_ok s' \<and> fs_faults s' = [] \<and> fs_now s' = fs_now s \<and> fs_dirs s' = fs_dirs s \<and>
     (\<forall>q. fs_file s' q \<noteq> None \<longrightarrow> fs_file s q \<noteq> None)"

lemma path_clear_less: "holds_less s s' \<Longrightarrow> path_clear s p \<Longrightarrow> path_clear s' p"
  unfolding holds_less_def path_clear_def no_file_above_def fs_dirs_def by blast

lemma remove_expired:
  assumes "b = bucket_at root n" and "fs_ok s" "fs_faults s = []" and "name_ok key" and "kv_expired b s key"
    and "remove_entry (bk_dir b) (bk_ttl_dir b) key s = (r, s')"
  shows "holds_less s s'" "kv_live b s' = kv_live b s"
    "fs_only {joined (bk_dir b) key, joined (bk_ttl_dir b) key} s s'"
proof -
  have ap: "joined (bk_dir b) key \<noteq> joined (bk_ttl_dir b) key" unfolding assms(1) by (rule joined_apart)
  note e = io_effD [OF remove_entry_eff [OF assms(4) ap] assms(2,6)]
  have o: "fs_only {joined (bk_dir b) key, joined (bk_ttl_dir b) key} s s'" using e(4) by simp
  have "fs_file s' (joined (bk_ttl_dir b) key) = None" "fs_file s' (joined (bk_dir b) key) = None"
    using e(4) assms(3) by (cases r; auto)+
  then show "holds_less s s'" "kv_live b s' = kv_live b s"
    "fs_only {joined (bk_dir b) key, joined (bk_ttl_dir b) key} s s'"
  proof -
    show "fs_only {joined (bk_dir b) key, joined (bk_ttl_dir b) key} s s'" by (rule o)
    assume n: "fs_file s' (joined (bk_ttl_dir b) key) = None" "fs_file s' (joined (bk_dir b) key) = None"
    have "fs_file s q \<noteq> None" if "fs_file s' q \<noteq> None" for q
      using that n fs_only_file [OF o, of q] by (cases "q \<in> {joined (bk_dir b) key, joined (bk_ttl_dir b) key}") auto
    then show "holds_less s s'" using e assms(3) by (simp add: holds_less_def)
    have "kv_live b s' key = kv_live b s key" using n assms(5) by (simp add: kv_live_def)
    from kv_live_upd [OF assms(1) e(2) this] show "kv_live b s' = kv_live b s" using fs_only_file [OF o] by simp
  qed
qed

lemma live_keys_calm:
  assumes "b = bucket_at root n"
  shows "fs_ok s \<Longrightarrow> fs_faults s = [] \<Longrightarrow> \<forall>k \<in> set ks. name_ok k \<and> path_clear s (joined (bk_ttl_dir b) k) \<Longrightarrow>
    \<forall>k \<in> set ks. fs_file s (joined (bk_dir b) k) \<noteq> None \<Longrightarrow> distinct ks \<Longrightarrow>
    \<exists>live s'. live_keys b ks s = (Inr live, s') \<and> set live = {k \<in> set ks. kv_live b s k \<noteq> None} \<and> kv_live b s' = kv_live b s"
proof (induction ks arbitrary: s)
  case Nil
  then show ?case by simp
next
  case (Cons k ks)
  have k: "name_ok k" "path_clear s (joined (bk_ttl_dir b) k)" using Cons.prems(3) by simp_all
  note x = is_expired_calm [OF Cons.prems(2) k]
  show ?case
  proof (cases "kv_expired b s k")
    case True
    obtain r s1 where 1: "remove_entry (bk_dir b) (bk_ttl_dir b) k s = (r, s1)" by (cases "remove_entry (bk_dir b) (bk_ttl_dir b) k s")
    note e = remove_expired [OF assms Cons.prems(1,2) k(1) True 1]
    have "fs_file s1 (joined (bk_dir b) j) = fs_file s (joined (bk_dir b) j)" if "j \<in> set ks" for j
    proof -
      have "j \<noteq> k" using that Cons.prems(5) by auto
      then have "joined (bk_dir b) j \<noteq> joined (bk_dir b) k" by (simp add: joined_inj)
      moreover have "joined (bk_dir b) j \<noteq> joined (bk_ttl_dir b) k" unfolding assms by (rule joined_apart)
      ultimately show ?thesis using e(3) fs_only_file [of _ s s1] by blast
    qed
    then have "\<forall>j \<in> set ks. fs_file s1 (joined (bk_dir b) j) \<noteq> None" using Cons.prems(4) by simp
    with Cons.IH [of s1] e path_clear_less [OF e(1)] Cons.prems obtain live s2 where
      2: "live_keys b ks s1 = (Inr live, s2)" "set live = {k \<in> set ks. kv_live b s k \<noteq> None}" "kv_live b s2 = kv_live b s"
      by (auto simp: holds_less_def)
    have "kv_live b s k = None" using True by (simp add: kv_live_def)
    with 1 2 x True show ?thesis by (auto simp: act_bind_def)
  next
    case False
    with Cons.IH [of s] Cons.prems obtain live s2 where
      2: "live_keys b ks s = (Inr live, s2)" "set live = {k \<in> set ks. kv_live b s k \<noteq> None}" "kv_live b s2 = kv_live b s"
      by auto
    moreover have "kv_live b s k \<noteq> None" using Cons.prems(4) False by (simp add: kv_live_def)
    ultimately show ?thesis using x False by (auto simp: act_bind_def)
  qed
qed

lemma joined_listed:
  assumes "fs_names_ok s"
  shows "listed s dir [] = {k. fs_file s (joined dir k) \<noteq> None \<and> \<not> starts_with (hd (str_split CHR ''/'' k)) ''.tmp''}"
proof (intro subset_antisym subsetI CollectI)
  fix k assume "k \<in> listed s dir []"
  then obtain segs where segs: "segs \<noteq> []" "fs_file s (dir @ segs) \<noteq> None" "\<not> starts_with (hd segs) ''.tmp''" "k = str_join ''/'' segs"
    by (auto simp: listed_def)
  have "fs_lookup s (dir @ segs) \<noteq> None" using segs(2) by (auto simp: fs_file_def split: option.splits)
  then have "plain segs" using plain_names [OF assms] by (fastforce simp: plain_def)
  with segs have "str_split CHR ''/'' k = segs" by (simp add: plain_split)
  with segs show "fs_file s (joined dir k) \<noteq> None \<and> \<not> starts_with (hd (str_split CHR ''/'' k)) ''.tmp''"
    by (simp add: joined_def)
next
  fix k assume "k \<in> {k. fs_file s (joined dir k) \<noteq> None \<and> \<not> starts_with (hd (str_split CHR ''/'' k)) ''.tmp''}"
  then show "k \<in> listed s dir []"
    by (auto simp: listed_def joined_def intro!: exI [of _ "str_split CHR ''/'' k"])
qed

lemma file_name_ok:
  assumes "fs_names_ok s" and "fs_file s (joined dir k) \<noteq> None"
  shows "name_ok k"
proof -
  have "fs_lookup s (dir @ str_split CHR ''/'' k) \<noteq> None"
    using assms(2) by (auto simp: joined_def fs_file_def split: option.splits)
  then have "list_all segment_ok (str_split CHR ''/'' k)"
    using assms(1) by (fastforce simp: fs_names_ok_def list_all_iff)
  moreover have "k \<noteq> []" using calculation by (auto simp: segment_ok_def)
  ultimately show ?thesis by (simp add: name_ok_def)
qed

text \<open>
  With no failing system call the listing of a bucket is complete and exact: it returns, once
  each, the keys that have a live value, but for those whose first name starts with \<open>.tmp\<close>,
  and changes no live value. (A key such as \<open>.tmpnotes\<close> can be set and read and is never listed.)
\<close>

theorem kv_keys_exact:
  assumes "open_bucket root name s0 = (Inr b, s1)" and "fs_ok s" and "fs_faults s = []" and "fs_names_ok s"
    and "fs_lookup s (bk_dir b) = Some Dir"
    and "\<And>k. fs_file s (joined (bk_dir b) k) \<noteq> None \<Longrightarrow> path_clear s (joined (bk_ttl_dir b) k)"
  shows "\<exists>live s'. kv_keys b s = (Inr live, s') \<and> kv_live b s' = kv_live b s \<and>
    set live = {k. kv_live b s k \<noteq> None \<and> \<not> starts_with (hd (str_split CHR ''/'' k)) ''.tmp''}"
proof -
  have b: "b = bucket_at root name" using open_bucket_at [OF assms(1)] by simp
  from collect_at_calm [OF assms(2-5), of "Suc (length (fs_nodes s))" "[]" "[]"] obtain names where
    c: "fs_collect (bk_dir b) s = (Inr names, s)" and names: "set names = listed s (bk_dir b) []" "distinct names"
    by (auto simp: fs_collect_def plain_def)
  have k: "\<forall>k \<in> set names. fs_file s (joined (bk_dir b) k) \<noteq> None"
    using names(1) joined_listed [OF assms(4)] by blast
  then have "\<forall>k \<in> set names. name_ok k \<and> path_clear s (joined (bk_ttl_dir b) k)"
    using file_name_ok [OF assms(4)] assms(6) by blast
  from live_keys_calm [OF b assms(2,3) this k names(2)] obtain live s' where
    l: "live_keys b names s = (Inr live, s')" "set live = {k \<in> set names. kv_live b s k \<noteq> None}" "kv_live b s' = kv_live b s"
    by blast
  have "set live = {k. kv_live b s k \<noteq> None \<and> \<not> starts_with (hd (str_split CHR ''/'' k)) ''.tmp''}"
    unfolding l(2) names(1) joined_listed [OF assms(4)] by (auto simp: kv_live_def split: if_split_asm)
  with c l show ?thesis by (simp add: kv_keys_def act_bind_def)
qed

definition demo_tree :: fs where
  "demo_tree = \<lparr>fs_nodes = [([''keyvalue''], Dir), ([''keyvalue'', ''b''], Dir), ([''keyvalue'', ''b'', ''.tmpk''], File [1]),
     ([''keyvalue'', ''b'', ''k''], File [2])], fs_now = 1000, fs_faults = []\<rparr>"

theorem kv_keys_exact_witness:
  "\<exists>live s'. kv_keys (bucket_at [] ''b'') demo_tree = (Inr live, s') \<and> kv_live (bucket_at [] ''b'') s' = kv_live (bucket_at [] ''b'') demo_tree \<and>
     set live = {k. kv_live (bucket_at [] ''b'') demo_tree k \<noteq> None \<and> \<not> starts_with (hd (str_split CHR ''/'' k)) ''.tmp''}"
proof (rule kv_keys_exact [OF demo_bucket])
  have l: "fs_lookup demo_tree p = (if p = [] then Some Dir else if p = [''keyvalue''] then Some Dir
      else if p = [''keyvalue'', ''b''] then Some Dir else if p = [''keyvalue'', ''b'', ''.tmpk''] then Some (File [1])
      else if p = [''keyvalue'', ''b'', ''k''] then Some (File [2]) else None)" for p
    by (simp add: fs_lookup_def demo_tree_def)
  have "bt_ok (fs_nodes demo_tree)" by code_simp
  then show "fs_ok demo_tree" by (auto simp: fs_ok_def l fs_parent_dir_def split: if_split_asm)
  show "fs_faults demo_tree = []" by (simp add: demo_tree_def)
  have "segment_ok x \<and> utf8_valid x" if "x \<in> {''keyvalue'', ''b'', ''.tmpk'', ''k''}" for x
  proof -
    have "list_all (\<lambda>x. segment_ok x \<and> utf8_valid x) [''keyvalue'', ''b'', ''.tmpk'', ''k'']" by code_simp
    with that show ?thesis by auto
  qed
  then show "fs_names_ok demo_tree" by (auto simp: fs_names_ok_def l split: if_split_asm)
  show "fs_lookup demo_tree (bk_dir (bucket_at [] ''b'')) = Some Dir" by (simp add: l bucket_at_def)
  show "path_clear demo_tree (joined (bk_ttl_dir (bucket_at [] ''b'')) k)" for k
    by (auto simp: path_clear_def no_file_above_def fs_file_def l joined_def bucket_at_def take_Cons split: if_split_asm nat.splits)
qed

end
