(* ===== verification/Fs_Locks.thy ===== *)
theory Fs_Locks
  imports Prelude
begin

text \<open>
  The locks of the key-value surface (\<open>src/crates/filesystem/src/keyvalue.rs\<close>): per bucket
  a table of weak references to the mutexes of its keys, shared by every handle on the bucket.
  A mutex is its address; the table's strong counts are the holders. Taking a key's lock prunes
  the dead entries when it has to make a new one. Each table operation runs under the table's
  own mutex, so it is one step; callers may hold, and drop, their locks in any order.
\<close>

record lock_table =
  lt_keys :: "string \<Rightarrow> nat option"
  lt_strong :: "nat \<Rightarrow> nat"
  lt_next :: nat

definition locks_default :: lock_table where
  "locks_default = \<lparr>lt_keys = (\<lambda>_. None), lt_strong = (\<lambda>_. 0), lt_next = 0\<rparr>"

text \<open>\<open>Weak::upgrade\<close>: the mutex if it is alive, with one more holder.\<close>

definition lock_upgrade :: "lock_table \<Rightarrow> string \<Rightarrow> nat option" where
  "lock_upgrade t key = (case lt_keys t key of Some i \<Rightarrow> if 0 < lt_strong t i then Some i else None | None \<Rightarrow> None)"

definition key_lock :: "string \<Rightarrow> lock_table \<Rightarrow> nat \<times> lock_table" where
  "key_lock key t =
     (case lock_upgrade t key of
        Some i \<Rightarrow> (i, t\<lparr>lt_strong := (lt_strong t)(i := Suc (lt_strong t i))\<rparr>)
      | None \<Rightarrow>
          let kept = (\<lambda>k. case lt_keys t k of Some j \<Rightarrow> if 0 < lt_strong t j then Some j else None | None \<Rightarrow> None);
              i = lt_next t
          in (i, \<lparr>lt_keys = kept(key \<mapsto> i), lt_strong = (lt_strong t)(i := 1), lt_next = Suc i\<rparr>))"

definition lock_drop :: "nat \<Rightarrow> lock_table \<Rightarrow> lock_table" where
  "lock_drop i t = t\<lparr>lt_strong := (lt_strong t)(i := lt_strong t i - 1)\<rparr>"

text \<open>The table with the operations in flight: each holds the lock of its key.\<close>

type_synonym lock_state = "lock_table \<times> (string \<times> nat) list"

inductive lock_step :: "lock_state \<Rightarrow> lock_state \<Rightarrow> bool" where
  start: "key_lock key t = (i, t') \<Longrightarrow> lock_step (t, held) (t', (key, i) # held)"
| finish: "lock_step (t, before @ (key, i) # after1) (lock_drop i t, before @ after1)"

inductive_cases lock_stepE: "lock_step (t, held) st"

definition lock_reach :: "lock_state \<Rightarrow> bool" where
  "lock_reach st \<longleftrightarrow> lock_step\<^sup>*\<^sup>* (locks_default, []) st"

definition holders :: "nat \<Rightarrow> (string \<times> nat) list \<Rightarrow> nat" where
  "holders i held = length (filter (\<lambda>h. snd h = i) held)"

definition lock_inv :: "lock_state \<Rightarrow> bool" where
  "lock_inv st \<longleftrightarrow>
     (case st of (t, held) \<Rightarrow>
        (\<forall>i. lt_strong t i = holders i held) \<and>
        (\<forall>key i. (key, i) \<in> set held \<longrightarrow> lt_keys t key = Some i) \<and>
        (\<forall>key i. lt_keys t key = Some i \<longrightarrow> i < lt_next t) \<and>
        (\<forall>i. lt_next t \<le> i \<longrightarrow> lt_strong t i = 0) \<and>
        (\<forall>key key' i. lt_keys t key = Some i \<longrightarrow> lt_keys t key' = Some i \<longrightarrow> key = key'))"

lemma holders_Cons: "holders i ((key, j) # held) = (if j = i then Suc (holders i held) else holders i held)"
  by (simp add: holders_def)

lemma holders_drop: "holders i (before @ (key, j) # after1) = (if j = i then Suc (holders i (before @ after1)) else holders i (before @ after1))"
  by (simp add: holders_def)

lemma holders_pos: "(key, i) \<in> set held \<Longrightarrow> 0 < holders i held"
  by (force simp: holders_def filter_empty_conv)

lemma lock_inv_start:
  assumes "lock_inv (t, held)" and "key_lock key t = (i, t')"
  shows "lock_inv (t', (key, i) # held)"
proof (cases "lock_upgrade t key")
  case (Some j)
  then have "lt_keys t key = Some j" by (auto simp: lock_upgrade_def split: option.splits if_split_asm)
  moreover from this assms(1) have "\<not> lt_next t \<le> j" by (simp add: lock_inv_def not_le)
  ultimately show ?thesis using assms Some by (auto simp: lock_inv_def key_lock_def holders_Cons)
next
  case None
  from assms(1) have st: "\<And>i. lt_strong t i = holders i held" and k: "\<And>key i. (key, i) \<in> set held \<Longrightarrow> lt_keys t key = Some i"
    and b: "\<And>key i. lt_keys t key = Some i \<Longrightarrow> i < lt_next t" and z: "\<And>i. lt_next t \<le> i \<Longrightarrow> lt_strong t i = 0"
    and inj: "\<And>k k' i. lt_keys t k = Some i \<Longrightarrow> lt_keys t k' = Some i \<Longrightarrow> k = k'"
    by (auto simp: lock_inv_def)
  have i: "i = lt_next t" and t': "t' = \<lparr>lt_keys = (\<lambda>k. case lt_keys t k of Some j \<Rightarrow> if 0 < lt_strong t j then Some j else None
      | None \<Rightarrow> None)(key \<mapsto> lt_next t), lt_strong = (lt_strong t)(lt_next t := 1), lt_next = Suc (lt_next t)\<rparr>"
    using assms(2) None by (auto simp: key_lock_def Let_def)
  have other: "key' \<noteq> key" if "(key', j) \<in> set held" for key' j
  proof
    assume "key' = key"
    with k [OF that] have "lt_keys t key = Some j" by simp
    with None have "lt_strong t j = 0" by (simp add: lock_upgrade_def split: if_split_asm)
    with holders_pos [OF that] st show False by simp
  qed
  have "lt_keys t' key' = Some j" if "(key', j) \<in> set held" for key' j
    using k [OF that] other [OF that] holders_pos [OF that] st by (simp add: t')
  moreover have "lt_strong t' j = holders j ((key, i) # held)" for j
  proof -
    have "holders (lt_next t) held = 0" using st [of "lt_next t"] z [of "lt_next t"] by simp
    then show ?thesis using st [of j] by (cases "j = lt_next t") (simp_all add: t' i holders_Cons)
  qed
  moreover have "j < lt_next t'" if "lt_keys t' key' = Some j" for key' j
    using that b by (auto simp: t' less_Suc_eq split: if_split_asm option.splits)
  moreover have "lt_strong t' j = 0" if "lt_next t' \<le> j" for j
    using that z by (simp add: t')
  moreover have "lt_keys t' key = Some i" by (simp add: t' i)
  moreover have "k1 = k2" if "lt_keys t' k1 = Some j" "lt_keys t' k2 = Some j" for k1 k2 j
    using that inj [of k1 j k2] b [of k1 j] b [of k2 j] by (auto simp: t' split: if_split_asm option.splits)
  ultimately show ?thesis by (auto simp: lock_inv_def)
qed

lemma lock_inv_step: "lock_step st st' \<Longrightarrow> lock_inv st \<Longrightarrow> lock_inv st'"
proof (induction rule: lock_step.induct)
  case (start key t i t' held)
  then show ?case using lock_inv_start by blast
next
  case (finish t before key i after1)
  then show ?case by (auto simp: lock_inv_def lock_drop_def holders_drop split: if_split_asm)
qed

lemma lock_reach_inv: "lock_reach st \<Longrightarrow> lock_inv st"
  unfolding lock_reach_def
proof (induction rule: rtranclp_induct)
  case base
  then show ?case by (simp add: lock_inv_def locks_default_def holders_def)
next
  case (step y z)
  then show ?case using lock_inv_step by blast
qed

text \<open>
  Whatever operations of a bucket are in flight, and in whatever order they started and ended,
  two of them on the same key hold the same mutex, and two on different keys different ones:
  operations on one key exclude each other, and no other operations wait.
\<close>

theorem one_lock_per_key:
  assumes "lock_reach (t, held)" and "(key, i) \<in> set held" and "(key', i') \<in> set held"
  shows "i = i' \<longleftrightarrow> key = key'"
proof -
  have "lt_keys t key = Some i" "lt_keys t key' = Some i'"
    and inj: "\<And>k k' i. lt_keys t k = Some i \<Longrightarrow> lt_keys t k' = Some i \<Longrightarrow> k = k'"
    using lock_reach_inv [OF assms(1)] assms(2,3) by (simp_all add: lock_inv_def)
  then show ?thesis by (cases "key = key'") auto
qed

theorem one_lock_per_key_witness:
  "\<exists>t held i i' j. lock_reach (t, held) \<and> held = [(''a'', i'), (''b'', j), (''a'', i)] \<and> i = i' \<and> i \<noteq> j"
proof -
  obtain i t1 where 1: "key_lock ''a'' locks_default = (i, t1)" by (cases "key_lock ''a'' locks_default")
  obtain j t2 where 2: "key_lock ''b'' t1 = (j, t2)" by (cases "key_lock ''b'' t1")
  obtain i' t3 where 3: "key_lock ''a'' t2 = (i', t3)" by (cases "key_lock ''a'' t2")
  have "lock_step (locks_default, []) (t1, [(''a'', i)])" "lock_step (t1, [(''a'', i)]) (t2, [(''b'', j), (''a'', i)])"
    "lock_step (t2, [(''b'', j), (''a'', i)]) (t3, [(''a'', i'), (''b'', j), (''a'', i)])"
    using 1 2 3 by (auto intro: lock_step.start)
  then have r: "lock_reach (t3, [(''a'', i'), (''b'', j), (''a'', i)])"
    unfolding lock_reach_def by (meson rtranclp.rtrancl_refl rtranclp.rtrancl_into_rtrancl)
  from one_lock_per_key [OF r, of "''a''" i "''a''" i'] one_lock_per_key [OF r, of "''a''" i "''b''" j] r show ?thesis by auto
qed

end
