(* ===== verification/Fs_Blob.thy ===== *)
theory Fs_Blob
  imports Fs_Names "HOL-Library.Word"
begin

text \<open>
  The blob surface over a directory tree (\<open>src/crates/filesystem/src/blobstore.rs\<close>), and the
  byte range of a read at the width the code computes it. A creation time is what the file
  system reports of a path: a parameter.
\<close>

record fs_container =
  ct_name :: string
  ct_dir :: path

definition container_dir :: "path \<Rightarrow> string \<Rightarrow> string + path" where
  "container_dir root name =
     (if segment_ok name then Inr (root @ [name])
      else Inl (''container name '' @ in_ticks name @ '' must be a plain directory name''))"

definition object_path :: "path \<Rightarrow> string \<Rightarrow> string + path" where
  "object_path dir name =
     (if name_ok name then Inr (path_join dir name)
      else Inl (''object name '' @ in_ticks name @ '' must be a container-relative path''))"

section \<open>Containers\<close>

definition create_container :: "path \<Rightarrow> string \<Rightarrow> (fs, string, fs_container) act" where
  "create_container client_root name =
     act_bind (act_result (container_dir (client_root @ [''blobstore'']) name)) (\<lambda>dir.
     act_then (io_context (''creating container '' @ in_ticks name) (fs_create_dir_all dir))
       (act_return \<lparr>ct_name = name, ct_dir = dir\<rparr>))"

definition get_container :: "path \<Rightarrow> string \<Rightarrow> (fs, string, fs_container) act" where
  "get_container client_root name = create_container client_root name"

definition delete_container :: "path \<Rightarrow> string \<Rightarrow> (fs, string, unit) act" where
  "delete_container client_root name =
     act_bind (act_result (container_dir (client_root @ [''blobstore'']) name)) (\<lambda>dir.
       io_found (''deleting container '' @ in_ticks name) () (\<lambda>_. ()) (fs_remove_dir_all dir))"

text \<open>\<open>is_dir\<close> and \<open>is_file\<close> answer false where the metadata cannot be read.\<close>

definition fs_is :: "(fnode \<Rightarrow> bool) \<Rightarrow> path \<Rightarrow> (fs, string, bool) act" where
  "fs_is P p s = (case fs_file_type p s of (Inr n, s') \<Rightarrow> (Inr (P n), s') | (Inl _, s') \<Rightarrow> (Inr False, s'))"

definition container_exists :: "path \<Rightarrow> string \<Rightarrow> (fs, string, bool) act" where
  "container_exists client_root name =
     act_bind (act_result (container_dir (client_root @ [''blobstore'']) name)) (fs_is (\<lambda>n. n = Dir))"

section \<open>The byte range of a read\<close>

definition U64_MAX :: "64 word" where "U64_MAX = - 1"

text \<open>\<open>data.slice(from..to)\<close>: \<open>None\<close> is its panic.\<close>

definition bytes_slice :: "nat \<Rightarrow> nat \<Rightarrow> bytes \<Rightarrow> bytes option" where
  "bytes_slice from1 to1 data =
     (if from1 \<le> to1 \<and> to1 \<le> length data then Some (take (to1 - from1) (drop from1 data)) else None)"

definition saturating_succ :: "64 word \<Rightarrow> 64 word" where
  "saturating_succ w = (if w = U64_MAX then U64_MAX else w + 1)"

definition clamp :: "nat \<Rightarrow> 64 word \<Rightarrow> nat" where
  "clamp len bound = min (unat bound) len"

definition object_slice :: "64 word \<Rightarrow> 64 word \<Rightarrow> bytes \<Rightarrow> (string + bytes) option" where
  "object_slice start end1 data =
     (let unbounded = (end1 = 0 \<or> end1 = U64_MAX) in
      if \<not> unbounded \<and> end1 < start
      then Some (Inl (''invalid byte range: end ('' @ dec_nat (unat end1) @ '') < start ('' @ dec_nat (unat start) @ '')''))
      else let len = length data; from1 = clamp len start;
               to1 = (if unbounded then len else clamp len (saturating_succ end1))
           in map_option Inr (bytes_slice from1 to1 data))"

section \<open>Objects\<close>

definition get_data :: "fs_container \<Rightarrow> string \<Rightarrow> 64 word \<Rightarrow> 64 word \<Rightarrow> (fs, string, bytes option) act" where
  "get_data c name start end1 =
     act_bind (act_result (object_path (ct_dir c) name)) (\<lambda>path.
     act_bind (io_found (''reading object '' @ in_ticks name) None Some (fs_read path)) (\<lambda>read1.
       case read1 of
         None \<Rightarrow> act_return None
       | Some data \<Rightarrow>
           (case object_slice start end1 data of
              None \<Rightarrow> act_fail ''range out of bounds''
            | Some (Inl e) \<Rightarrow> act_fail e
            | Some (Inr part) \<Rightarrow> act_return (Some part))))"

definition write_data :: "temp_names \<Rightarrow> fs_container \<Rightarrow> string \<Rightarrow> bytes \<Rightarrow> (fs, string, unit) act" where
  "write_data tmp c name data =
     act_bind (act_result (object_path (ct_dir c) name)) (\<lambda>path.
       atomic_write tmp (''object '' @ in_ticks name) (ct_dir c) path data)"

definition list_objects :: "fs_container \<Rightarrow> (fs, string, string list) act" where
  "list_objects c = fs_collect (ct_dir c)"

definition delete_object :: "fs_container \<Rightarrow> string \<Rightarrow> (fs, string, unit) act" where
  "delete_object c name =
     act_bind (act_result (object_path (ct_dir c) name)) (\<lambda>path.
       io_found (''deleting object '' @ in_ticks name) () (\<lambda>_. ()) (fs_remove_file path))"

definition has_object :: "fs_container \<Rightarrow> string \<Rightarrow> (fs, string, bool) act" where
  "has_object c name =
     act_bind (act_result (object_path (ct_dir c) name)) (fs_is (\<lambda>n. case n of File _ \<Rightarrow> True | Dir \<Rightarrow> False))"

record object_metadata =
  om_name :: string
  om_container :: string
  om_created_at :: nat
  om_size :: nat

text \<open>A directory's size is the file system's own business.\<close>

definition object_info :: "(path \<Rightarrow> nat) \<Rightarrow> (path \<Rightarrow> nat) \<Rightarrow> fs_container \<Rightarrow> string \<Rightarrow> (fs, string, object_metadata) act" where
  "object_info created_secs dir_size c name =
     act_bind (act_result (object_path (ct_dir c) name)) (\<lambda>path.
     act_bind (io_found (''reading object '' @ in_ticks name) None Some (fs_file_type path)) (\<lambda>meta.
       case meta of
         None \<Rightarrow> act_fail (''object not found: '' @ name)
       | Some n \<Rightarrow> act_return \<lparr>om_name = name, om_container = ct_name c, om_created_at = created_secs path,
           om_size = (case n of File data \<Rightarrow> length data | Dir \<Rightarrow> dir_size path)\<rparr>))"

section \<open>Reads stay in bounds\<close>

lemma unat_U64_MAX: "unat U64_MAX = 2 ^ 64 - 1"
  by (simp add: U64_MAX_def unsigned_minus_1_eq_mask mask_eq_exp_minus_1)

lemma unat_saturating_succ: "unat (saturating_succ w) = min (unat w + 1) (2 ^ 64 - 1)"
proof (cases "w = U64_MAX")
  case True
  then show ?thesis by (simp add: saturating_succ_def unat_U64_MAX)
next
  case False
  have "unat w < 2 ^ 64" using unsigned_less [of w, where ?'a = nat] by simp
  moreover have "unat w \<noteq> 2 ^ 64 - 1" using False unat_U64_MAX by (metis word_unat_eq_iff)
  ultimately have l: "unat w + 1 < 2 ^ 64" by linarith
  then have "unat (w + 1) = unat w + 1" by (simp add: unat_plus_simple unat_word_ariths)
  with l False show ?thesis by (simp add: saturating_succ_def)
qed

text \<open>
  Reading a range never panics, whatever the bounds and the object's length: with an end of 0
  or the largest number the read runs from the start to the end of the data; otherwise it is
  refused exactly when the end is before the start, and else returns the bytes from the start
  to the end, both included, as far as the data reaches.
\<close>

theorem object_range_exact:
  "object_slice start end1 data =
    (if end1 = 0 \<or> end1 = U64_MAX then Some (Inr (drop (unat start) data))
     else if end1 < start then Some (Inl (''invalid byte range: end ('' @ dec_nat (unat end1) @ '') < start ('' @ dec_nat (unat start) @ '')''))
     else Some (Inr (drop (unat start) (take (Suc (unat end1)) data))))"
proof (cases "end1 = 0 \<or> end1 = U64_MAX")
  case True
  then show ?thesis by (auto simp: object_slice_def bytes_slice_def clamp_def min_def Let_def)
next
  case False
  show ?thesis
  proof (cases "end1 < start")
    case True
    with False show ?thesis by (simp add: object_slice_def)
  next
    case le: False
    then have se: "unat start \<le> unat end1" by (simp add: word_le_nat_alt not_less)
      have "unat end1 < 2 ^ 64" using unsigned_less [of end1, where ?'a = nat] by simp
    moreover have "unat end1 \<noteq> 2 ^ 64 - 1" using False unat_U64_MAX by (metis word_unat_eq_iff)
    ultimately have s: "unat (saturating_succ end1) = Suc (unat end1)" by (simp add: unat_saturating_succ)
    have "take (min (Suc (unat end1)) (length data) - min (unat start) (length data)) (drop (min (unat start) (length data)) data) =
        drop (unat start) (take (Suc (unat end1)) data)"
      using se by (simp add: drop_take min_def)
    then show ?thesis using False le se s
      by (simp add: object_slice_def bytes_slice_def clamp_def Let_def)
  qed
qed

end
