(* ===== verification/Rust_Num.thy ===== *)
theory Rust_Num
  imports Rust_Json
begin

text \<open>
  Counters of the backends: unsigned integers that saturate at the top of their width, and
  durations, which are nanoseconds and saturate too. And the backticks around a name in an
  error message.
\<close>

definition U64_TOP :: nat where "U64_TOP = 2 ^ 64 - 1"
definition U32_TOP :: nat where "U32_TOP = 2 ^ 32 - 1"
definition DURATION_TOP :: nat where "DURATION_TOP = 2 ^ 64 * 1000000000 - 1"

definition sat_add :: "nat \<Rightarrow> nat \<Rightarrow> nat \<Rightarrow> nat" where
  "sat_add top1 a b = min (a + b) top1"

lemma sat_add_assoc: "sat_add t (sat_add t a b) c = min (a + b + c) t"
  by (auto simp: sat_add_def min_def)

lemma sat_add_le: "sat_add t a b \<le> t"
  by (simp add: sat_add_def)

lemma sat_add_comm: "sat_add t a b = sat_add t b a"
  by (simp add: sat_add_def add.commute)

definition BACKTICK :: char where "BACKTICK = CHR 0x60"

abbreviation ticks :: "string \<Rightarrow> string" where
  "ticks s \<equiv> BACKTICK # s @ [BACKTICK]"

end
