(* ===== verification/Genai_Observe.thy ===== *)
theory Genai_Observe
  imports Rust_Num
begin

text \<open>
  Telemetry of one completion (\<open>src/crates/genai/src/observe.rs\<close>): the phase it waits in, the
  outcome an error is filed under, the counters and times, and the provider's bill, added up at
  the width of the code. Instants and durations are nanoseconds.
\<close>

section \<open>Phases and outcomes\<close>

datatype phase = Phase_Model | Phase_Tool string | Phase_Shell | Phase_Check

definition SHELL_TOOL :: string where "SHELL_TOOL = ''shell''"

definition phase_of_tool :: "string \<Rightarrow> phase" where
  "phase_of_tool name = (if name = SHELL_TOOL then Phase_Shell else Phase_Tool name)"

fun phase_text :: "phase \<Rightarrow> string" where
  "phase_text Phase_Model = ''the model''"
| "phase_text (Phase_Tool tool) = ''tool '' @ ticks tool"
| "phase_text Phase_Shell = ''the shell''"
| "phase_text Phase_Check = ''the guest'' @ [CHR 0x27] @ ''s check''"

text \<open>
  The errors of the provider's client as the code tells them apart; an error given a context
  keeps what it is underneath (\<open>downcast_ref\<close> sees through \<open>context\<close>).
\<close>

datatype web_error = Failed_Status | Failed_Not_Json | Failed_Invalid_Json | Reqwest | Json_Value_Ext

datatype genai_error = Web_Model_Call web_error | Web_Adapter_Call web_error | Genai_Other

datatype conv_error =
    Timed_Out nat phase
  | Budget_Exhausted string
  | Chat_Failed genai_error
  | Invalid_Request string
  | Grant_Denied string
  | Failed string
  | In_Context string conv_error

datatype outcome = Out_Ok | Corrected | Out_Timeout | Abort | Exhausted | Provider | Transport | Out_Error

fun outcome_of_web :: "web_error \<Rightarrow> outcome" where
  "outcome_of_web Failed_Status = Provider"
| "outcome_of_web Failed_Not_Json = Transport"
| "outcome_of_web Failed_Invalid_Json = Transport"
| "outcome_of_web Reqwest = Transport"
| "outcome_of_web Json_Value_Ext = Out_Error"

fun outcome_of :: "conv_error \<Rightarrow> outcome" where
  "outcome_of (Timed_Out _ _) = Out_Timeout"
| "outcome_of (Budget_Exhausted _) = Exhausted"
| "outcome_of (Chat_Failed (Web_Model_Call e)) = outcome_of_web e"
| "outcome_of (Chat_Failed (Web_Adapter_Call e)) = outcome_of_web e"
| "outcome_of (Chat_Failed Genai_Other) = Out_Error"
| "outcome_of (Invalid_Request _) = Out_Error"
| "outcome_of (Grant_Denied _) = Out_Error"
| "outcome_of (Failed _) = Out_Error"
| "outcome_of (In_Context _ e) = outcome_of e"

definition outcome_answered :: "outcome \<Rightarrow> bool" where
  "outcome_answered o1 \<longleftrightarrow> o1 = Out_Ok \<or> o1 = Corrected"

fun outcome_str :: "outcome \<Rightarrow> string" where
  "outcome_str Out_Ok = ''ok''"
| "outcome_str Corrected = ''corrected''"
| "outcome_str Out_Timeout = ''timeout''"
| "outcome_str Abort = ''abort''"
| "outcome_str Exhausted = ''exhausted''"
| "outcome_str Provider = ''provider''"
| "outcome_str Transport = ''transport''"
| "outcome_str Out_Error = ''error''"

text \<open>\<open>Timeout::into_error\<close>: what the guest reads.\<close>

definition timeout_text :: "nat \<Rightarrow> phase \<Rightarrow> string" where
  "timeout_text after1 waiting =
     ''completion timed out after '' @ dec_nat (after1 div 1000000000) @ ''s waiting on '' @ phase_text waiting @
     '' (absolute cap on one reply exceeded)''"

section \<open>The bill\<close>

record prompt_details =
  pd_cached :: "int option"
  pd_creation :: "int option"

record chat_usage =
  cu_prompt :: "int option"
  cu_completion :: "int option"
  cu_total :: "int option"
  cu_prompt_details :: "prompt_details option"
  cu_reasoning_details :: "int option option"

record bill =
  bl_input :: nat
  bl_cache_read :: nat
  bl_cache_write :: nat
  bl_output :: nat
  bl_reasoning :: nat
  bl_total :: "nat option"

record guest_usage =
  gu_input :: nat
  gu_output :: nat
  gu_reasoning :: "nat option"

definition non_negative :: "int \<Rightarrow> nat" where
  "non_negative n = (if n < 0 then 0 else nat n)"

definition wire_count :: "int option \<Rightarrow> nat" where
  "wire_count n = (case n of None \<Rightarrow> 0 | Some n \<Rightarrow> non_negative n)"

definition bill_of :: "chat_usage \<Rightarrow> bill" where
  "bill_of u =
     \<lparr>bl_input = wire_count (cu_prompt u),
      bl_cache_read = wire_count (Option.bind (cu_prompt_details u) pd_cached),
      bl_cache_write = wire_count (Option.bind (cu_prompt_details u) pd_creation),
      bl_output = wire_count (cu_completion u),
      bl_reasoning = wire_count (Option.bind (cu_reasoning_details u) (\<lambda>r. r)),
      bl_total = Option.bind (cu_total u) (\<lambda>t. if t < 0 then None else Some (nat t))\<rparr>"

definition total_add :: "nat option \<Rightarrow> nat option \<Rightarrow> nat option" where
  "total_add a b =
     (case (a, b) of
        (None, None) \<Rightarrow> None
      | (Some t, None) \<Rightarrow> Some t
      | (None, Some t) \<Rightarrow> Some t
      | (Some x, Some y) \<Rightarrow> Some (sat_add U64_TOP x y))"

definition bill_add :: "bill \<Rightarrow> bill \<Rightarrow> bill" where
  "bill_add a b =
     \<lparr>bl_input = sat_add U64_TOP (bl_input a) (bl_input b),
      bl_cache_read = sat_add U64_TOP (bl_cache_read a) (bl_cache_read b),
      bl_cache_write = sat_add U64_TOP (bl_cache_write a) (bl_cache_write b),
      bl_output = sat_add U64_TOP (bl_output a) (bl_output b),
      bl_reasoning = sat_add U64_TOP (bl_reasoning a) (bl_reasoning b),
      bl_total = total_add (bl_total a) (bl_total b)\<rparr>"

definition bill_zero :: bill where
  "bill_zero = \<lparr>bl_input = 0, bl_cache_read = 0, bl_cache_write = 0, bl_output = 0, bl_reasoning = 0, bl_total = None\<rparr>"

definition usage_of :: "chat_usage \<Rightarrow> guest_usage option" where
  "usage_of u =
     (if cu_prompt u = None \<and> cu_completion u = None then None
      else Some \<lparr>gu_input = (case cu_prompt u of None \<Rightarrow> 0 | Some n \<Rightarrow> non_negative n),
                 gu_output = (case cu_completion u of None \<Rightarrow> 0 | Some n \<Rightarrow> non_negative n),
                 gu_reasoning = map_option non_negative (Option.bind (cu_reasoning_details u) (\<lambda>r. r))\<rparr>)"

section \<open>A completion\<close>

record completion =
  cp_attempts :: nat
  cp_retries :: nat
  cp_cuts :: nat
  cp_corrected :: bool
  cp_bill :: bill
  cp_model :: nat
  cp_tool :: nat
  cp_check :: nat
  cp_at :: nat
  cp_phase :: phase
  cp_rounds :: nat
  cp_tool_calls :: nat
  cp_emitted :: "outcome option"

definition completion_start :: "nat \<Rightarrow> completion" where
  "completion_start now =
     \<lparr>cp_attempts = 0, cp_retries = 0, cp_cuts = 0, cp_corrected = False, cp_bill = bill_zero, cp_model = 0, cp_tool = 0,
      cp_check = 0, cp_at = now, cp_phase = Phase_Model, cp_rounds = 0, cp_tool_calls = 0, cp_emitted = None\<rparr>"

definition completion_book :: "nat \<Rightarrow> completion \<Rightarrow> completion" where
  "completion_book now c =
     (let spent = now - cp_at c in
      case cp_phase c of
        Phase_Model \<Rightarrow> c\<lparr>cp_model := sat_add DURATION_TOP (cp_model c) spent\<rparr>
      | Phase_Tool _ \<Rightarrow> c\<lparr>cp_tool := sat_add DURATION_TOP (cp_tool c) spent\<rparr>
      | Phase_Shell \<Rightarrow> c\<lparr>cp_tool := sat_add DURATION_TOP (cp_tool c) spent\<rparr>
      | Phase_Check \<Rightarrow> c\<lparr>cp_check := sat_add DURATION_TOP (cp_check c) spent\<rparr>)"

definition completion_enter :: "nat \<Rightarrow> phase \<Rightarrow> completion \<Rightarrow> completion" where
  "completion_enter now p c =
     (let c = completion_book now c;
          c = (case p of
                 Phase_Model \<Rightarrow> c\<lparr>cp_rounds := Suc (cp_rounds c)\<rparr>
               | Phase_Tool _ \<Rightarrow> c\<lparr>cp_tool_calls := Suc (cp_tool_calls c)\<rparr>
               | Phase_Shell \<Rightarrow> c\<lparr>cp_tool_calls := Suc (cp_tool_calls c)\<rparr>
               | Phase_Check \<Rightarrow> c)
      in c\<lparr>cp_at := now, cp_phase := p\<rparr>)"

definition completion_answered :: "chat_usage \<Rightarrow> nat option \<Rightarrow> bool \<Rightarrow> completion \<Rightarrow> guest_usage option \<times> completion" where
  "completion_answered u reply_bytes cut1 c =
     (let c = (if reply_bytes \<noteq> None then c\<lparr>cp_attempts := sat_add U32_TOP (cp_attempts c) 1\<rparr> else c);
          c = (if cut1 then c\<lparr>cp_cuts := sat_add U32_TOP (cp_cuts c) 1\<rparr> else c)
      in (usage_of u, c\<lparr>cp_bill := bill_add (cp_bill c) (bill_of u)\<rparr>))"

definition completion_rejected :: "completion \<Rightarrow> completion" where
  "completion_rejected c = c\<lparr>cp_corrected := True\<rparr>"

definition completion_retried :: "completion \<Rightarrow> completion" where
  "completion_retried c = c\<lparr>cp_retries := sat_add U32_TOP (cp_retries c) 1\<rparr>"

definition completion_emit :: "nat \<Rightarrow> outcome \<Rightarrow> completion \<Rightarrow> completion" where
  "completion_emit now o1 c =
     (if cp_emitted c \<noteq> None then c else (completion_book now c)\<lparr>cp_emitted := Some o1\<rparr>)"

definition completion_finish :: "nat \<Rightarrow> conv_error + 'a \<Rightarrow> completion \<Rightarrow> completion" where
  "completion_finish now result c =
     completion_emit now (case result of Inr _ \<Rightarrow> if cp_corrected c then Corrected else Out_Ok | Inl e \<Rightarrow> outcome_of e) c"

definition completion_drop :: "nat \<Rightarrow> completion \<Rightarrow> completion" where
  "completion_drop now c = completion_emit now Abort c"

text \<open>One line per completion: what \<open>finish\<close> filed is not replaced by the drop.\<close>

lemma finish_then_drop: "cp_emitted (completion_drop later (completion_finish now r c)) = cp_emitted (completion_finish now r c)"
  by (simp add: completion_drop_def completion_finish_def completion_emit_def)

text \<open>
  The booked bill is the sum of the rounds' bills cut off at the width once, so the order of
  the rounds does not matter.
\<close>

lemma bill_add_input: "bl_input (bill_add a b) = min (bl_input a + bl_input b) U64_TOP"
  by (simp add: bill_add_def sat_add_def)

lemma bill_input_sum:
  "bl_input b0 \<le> U64_TOP \<Longrightarrow>
   bl_input (fold (\<lambda>u b. bill_add b (bill_of u)) us b0) = min (bl_input b0 + (\<Sum>u\<leftarrow>us. bl_input (bill_of u))) U64_TOP"
proof (induction us arbitrary: b0)
  case (Cons u us)
  have "bl_input (bill_add b0 (bill_of u)) \<le> U64_TOP" by (simp add: bill_add_input)
  from Cons.IH [OF this] show ?case by (simp add: bill_add_input min_def)
qed simp

lemma outcome_str_inj: "outcome_str a = outcome_str b \<Longrightarrow> a = b"
  by (cases a; cases b) simp_all

end
