(* ===== verification/Genai_Request.thy ===== *)
theory Genai_Request
  imports Genai_Observe
begin

text \<open>
  From a guest's request to the provider's (\<open>src/crates/genai/src/request.rs\<close>, the tool
  list of \<open>tools.rs\<close>): messages, declared tools and the workspace's, the response format with
  the schema it is checked against, and the generation options. Parsing JSON, compiling a JSON
  Schema and widening a 32-bit float are third-party code or the compiler's: the fields of
  \<open>request_env\<close>.
\<close>

section \<open>The request of a guest\<close>

datatype role = Role_System | Role_Assistant | Role_User

record guest_message =
  gm_role :: role
  gm_content :: string

record guest_function =
  fn_name :: string
  fn_description :: string
  fn_parameters :: string

datatype guest_tool = Tool_Function guest_function | Tool_Mcp string

datatype format = Format_Text | Format_Json | Format_Schema string string

datatype effort = Minimal | Low | Medium | High

record generation =
  gn_max_tokens :: "nat option"
  gn_temperature :: "32 word option"
  gn_top_p :: "32 word option"
  gn_stop :: "string list"
  gn_seed :: "nat option"
  gn_effort :: "effort option"

record guest_request =
  gr_model :: "string option"
  gr_system :: "string option"
  gr_messages :: "guest_message list"
  gr_tools :: "guest_tool list"
  gr_format :: format
  gr_check :: bool
  gr_generation :: "generation option"

section \<open>The request of the provider\<close>

record tool_call =
  tc_id :: string
  tc_name :: string
  tc_args :: json

datatype chat_message =
  Msg_System string | Msg_User string | Msg_Assistant string | Msg_Calls "tool_call list" | Msg_Response string string

record chat_tool =
  ch_name :: string
  ch_description :: "string option"
  ch_schema :: "json option"

record chat_request =
  cr_system :: "string option"
  cr_messages :: "chat_message list"
  cr_tools :: "chat_tool list option"

datatype response_format = Json_Mode | Json_Spec string json

record chat_options =
  co_capture_usage :: bool
  co_format :: "response_format option"
  co_no_tools :: bool
  co_max_tokens :: "nat option"
  co_temperature :: "f64 option"
  co_top_p :: "f64 option"
  co_stop :: "string list"
  co_seed :: "nat option"
  co_effort :: "effort option"

record request_env =
  re_parse :: "string \<Rightarrow> string + json"
  re_validator :: "json \<Rightarrow> string + unit"
  re_widen :: "32 word \<Rightarrow> f64"
  re_read_schema :: json
  re_list_schema :: json
  re_shell_schema :: json
  re_descriptions :: "string \<Rightarrow> string"

datatype access = Private | Read_Only | Shell_Access

definition is_lent :: "access \<Rightarrow> bool" where
  "is_lent a \<longleftrightarrow> a \<noteq> Private"

definition workspace_tools :: "request_env \<Rightarrow> access \<Rightarrow> chat_tool list" where
  "workspace_tools env a =
     (if is_lent a
      then [\<lparr>ch_name = ''read'', ch_description = Some (re_descriptions env ''read''), ch_schema = Some (re_read_schema env)\<rparr>,
            \<lparr>ch_name = ''list'', ch_description = Some (re_descriptions env ''list''), ch_schema = Some (re_list_schema env)\<rparr>]
      else []) @
     (if a = Shell_Access
      then [\<lparr>ch_name = SHELL_TOOL, ch_description = Some (re_descriptions env SHELL_TOOL), ch_schema = Some (re_shell_schema env)\<rparr>]
      else [])"

definition function_tool :: "request_env \<Rightarrow> guest_function \<Rightarrow> conv_error + chat_tool" where
  "function_tool env f =
     (case re_parse env (fn_parameters f) of
        Inl e \<Rightarrow> Inl (Invalid_Request (''function tool '' @ ticks (fn_name f) @ '' parameters is not valid JSON: '' @ e))
      | Inr schema \<Rightarrow> Inr \<lparr>ch_name = fn_name f, ch_description = Some (fn_description f), ch_schema = Some schema\<rparr>)"

definition declared_tool :: "request_env \<Rightarrow> guest_tool \<Rightarrow> conv_error + chat_tool" where
  "declared_tool env t =
     (case t of
        Tool_Function f \<Rightarrow>
          if fn_name f = SHELL_TOOL
          then Inl (Invalid_Request (''tool '' @ ticks SHELL_TOOL @ '' is reserved by the backend''))
          else function_tool env f
      | Tool_Mcp name \<Rightarrow> Inl (Invalid_Request (''MCP server '' @ ticks name @ '': genai does not support MCP servers'')))"

definition message_of_role :: "guest_message \<Rightarrow> chat_message" where
  "message_of_role m =
     (case gm_role m of
        Role_System \<Rightarrow> Msg_System (gm_content m)
      | Role_Assistant \<Rightarrow> Msg_Assistant (gm_content m)
      | Role_User \<Rightarrow> Msg_User (gm_content m))"

definition chat_request_of :: "request_env \<Rightarrow> guest_request \<Rightarrow> access \<Rightarrow> conv_error + chat_request" where
  "chat_request_of env r a =
     res_map (\<lambda>declared.
         let tools = declared @ workspace_tools env a
         in \<lparr>cr_system = gr_system r, cr_messages = map message_of_role (gr_messages r),
             cr_tools = (if tools = [] then None else Some tools)\<rparr>)
       (res_traverse (declared_tool env) (gr_tools r))"

definition translate_format :: "request_env \<Rightarrow> format \<Rightarrow> conv_error + response_format option \<times> json option" where
  "translate_format env f =
     (case f of
        Format_Text \<Rightarrow> Inr (None, None)
      | Format_Json \<Rightarrow> Inr (Some Json_Mode, None)
      | Format_Schema name text1 \<Rightarrow>
          (case re_parse env text1 of
             Inl e \<Rightarrow> Inl (Invalid_Request (''format schema is not valid JSON: '' @ e))
           | Inr schema \<Rightarrow>
               (case re_validator env schema of
                  Inl e \<Rightarrow> Inl (Invalid_Request (''format schema '' @ ticks name @ '' is not a valid JSON Schema: '' @ e))
                | Inr _ \<Rightarrow> Inr (Some (Json_Spec name schema), Some schema))))"

definition chat_options_of :: "request_env \<Rightarrow> guest_request \<Rightarrow> nat \<Rightarrow> response_format option \<Rightarrow> chat_options" where
  "chat_options_of env r max_tokens response_format =
     (let g = gr_generation r in
      \<lparr>co_capture_usage = True, co_format = response_format, co_no_tools = False,
       co_max_tokens = Some (case Option.bind g gn_max_tokens of None \<Rightarrow> max_tokens | Some n \<Rightarrow> n),
       co_temperature = map_option (re_widen env) (Option.bind g gn_temperature),
       co_top_p = map_option (re_widen env) (Option.bind g gn_top_p),
       co_stop = (case g of None \<Rightarrow> [] | Some g \<Rightarrow> gn_stop g),
       co_seed = Option.bind g gn_seed, co_effort = Option.bind g gn_effort\<rparr>)"

definition prompt_bytes :: "guest_request \<Rightarrow> nat" where
  "prompt_bytes r =
     (case gr_system r of None \<Rightarrow> 0 | Some s \<Rightarrow> length s) + sum_list (map (\<lambda>m. length (gm_content m)) (gr_messages r))"

record prepared =
  pr_model :: string
  pr_chat :: chat_request
  pr_options :: chat_options
  pr_format :: format
  pr_validator :: "json option"
  pr_check :: bool
  pr_prompt_bytes :: nat

definition translate :: "request_env \<Rightarrow> guest_request \<Rightarrow> string \<Rightarrow> nat \<Rightarrow> access \<Rightarrow> conv_error + prepared" where
  "translate env r default_model max_tokens a =
     res_bind (translate_format env (gr_format r)) (\<lambda>(response_format, validator).
     res_map (\<lambda>chat.
         \<lparr>pr_model = (case gr_model r of None \<Rightarrow> default_model | Some m \<Rightarrow> m), pr_chat = chat,
          pr_options = chat_options_of env r max_tokens response_format, pr_format = gr_format r,
          pr_validator = validator, pr_check = gr_check r, pr_prompt_bytes = prompt_bytes r\<rparr>)
       (chat_request_of env r a))"

definition declared :: "prepared \<Rightarrow> string list" where
  "declared p = (case cr_tools (pr_chat p) of None \<Rightarrow> [] | Some tools \<Rightarrow> map ch_name tools)"

section \<open>Which tools a request gets\<close>

lemma res_traverse_Inr_length: "res_traverse f xs = Inr ys \<Longrightarrow> length ys = length xs"
  by (induction xs arbitrary: ys) (auto simp: res_bind_def res_map_def split: sum.splits)

lemma declared_tool_name:
  "declared_tool env t = Inr c \<Longrightarrow> \<exists>f. t = Tool_Function f \<and> ch_name c = fn_name f \<and> fn_name f \<noteq> SHELL_TOOL"
  by (auto simp: declared_tool_def function_tool_def split: guest_tool.splits if_split_asm sum.splits)

lemma declared_tools_names:
  assumes "res_traverse (declared_tool env) ts = Inr cs"
  shows "SHELL_TOOL \<notin> ch_name ` set cs"
proof
  assume "SHELL_TOOL \<in> ch_name ` set cs"
  then obtain c where c: "c \<in> set cs" "ch_name c = SHELL_TOOL" by auto
  from c(1) assms obtain t where "declared_tool env t = Inr c"
    by (auto simp: res_traverse_Inr_iff list_all2_conv_all_nth in_set_conv_nth)
  from declared_tool_name [OF this] c(2) show False by auto
qed

text \<open>The shell is declared to the provider exactly when the workspace grants one, whatever a guest names its tools.\<close>

lemma shell_declared_iff:
  assumes "translate env r m n a = Inr p"
  shows "SHELL_TOOL \<in> set (declared p) \<longleftrightarrow> a = Shell_Access"
proof -
  obtain cs where cs: "res_traverse (declared_tool env) (gr_tools r) = Inr cs"
    and t: "cr_tools (pr_chat p) = (if cs @ workspace_tools env a = [] then None else Some (cs @ workspace_tools env a))"
    using assms
    by (auto simp: translate_def chat_request_of_def res_bind_def res_map_def Let_def split: sum.splits prod.splits)
  have "SHELL_TOOL \<notin> ch_name ` set cs" by (rule declared_tools_names [OF cs])
  with t show ?thesis
    by (auto simp: declared_def workspace_tools_def SHELL_TOOL_def image_iff split: if_split_asm)
qed

end
