(* ===== verification/Genai_Tools.thy ===== *)
theory Genai_Tools
  imports Genai_Request Rust_Effect
begin

text \<open>
  The tool calls of a model (\<open>src/crates/genai/src/tools.rs\<close>, \<open>shell.rs\<close>): which of the
  workspace's tools, the sandboxed shell and the guest's functions answers a call, and what the
  model reads back. The guest's host, the sandbox's process and the deserializer of a tool's
  arguments are the fields of \<open>tool_env\<close>; an await of \<open>None\<close> is the reply's timer firing while
  the code waits there. Texts are their UTF-8 bytes.
\<close>

section \<open>What the tools call\<close>

record proc_output =
  po_stdout :: string
  po_stderr :: string
  po_code :: "int option"
  po_signal :: "int option"

datatype proc_error = Proc_Timed_Out nat | Proc_Failed conv_error

record 'w tool_env =
  te_read :: "string \<Rightarrow> 'w \<Rightarrow> (string + string) option \<times> 'w"
  te_list :: "string \<Rightarrow> 'w \<Rightarrow> (string + json) option \<times> 'w"
  te_call :: "string \<Rightarrow> string \<Rightarrow> 'w \<Rightarrow> (conv_error + (string + string)) option \<times> 'w"
  te_check :: "string \<Rightarrow> 'w \<Rightarrow> (conv_error + (string + unit)) \<times> 'w"
  te_command :: "'w \<Rightarrow> (conv_error + unit) \<times> 'w"
  te_output :: "string \<Rightarrow> nat \<Rightarrow> 'w \<Rightarrow> (proc_error + proc_output) option \<times> 'w"
  te_read_args :: "json \<Rightarrow> string + string"
  te_list_args :: "json \<Rightarrow> string + string option"
  te_shell_args :: "json \<Rightarrow> string + string"
  te_print :: "json \<Rightarrow> string"
  te_print_list :: "json \<Rightarrow> string + string"
  te_utf8_error :: "string \<Rightarrow> string"

text \<open>Why the work on a reply stops: its timer, or an error.\<close>

datatype stop = Stop_Elapsed | Stop_Error conv_error

definition env_await :: "('w \<Rightarrow> 'a option \<times> 'w) \<Rightarrow> ('w, stop, 'a) act" where
  "env_await m = (\<lambda>w. case m w of (None, w') \<Rightarrow> (Inl Stop_Elapsed, w') | (Some a, w') \<Rightarrow> (Inr a, w'))"

definition act_try :: "conv_error + 'a \<Rightarrow> ('w, stop, 'a) act" where
  "act_try r = (case r of Inl e \<Rightarrow> act_fail (Stop_Error e) | Inr a \<Rightarrow> act_return a)"

definition res_context :: "string \<Rightarrow> conv_error + 'a \<Rightarrow> conv_error + 'a" where
  "res_context c r = (case r of Inl e \<Rightarrow> Inl (In_Context c e) | Inr a \<Rightarrow> Inr a)"

section \<open>The shell\<close>

definition status_success :: "proc_output \<Rightarrow> bool" where
  "status_success out \<longleftrightarrow> po_code out = Some 0"

definition end_line :: "string \<Rightarrow> string" where
  "end_line s = (if s \<noteq> [] \<and> \<not> ends_with s [CHR 0x0A] then s @ [CHR 0x0A] else s)"

definition render :: "proc_output \<Rightarrow> string" where
  "render out =
     (let s = utf8_lossy (po_stdout out);
          s = (if po_stderr out \<noteq> []
               then end_line s @ ''--- stderr ---'' @ [CHR 0x0A] @ utf8_lossy (po_stderr out)
               else s)
      in if \<not> status_success out
         then end_line s @ ''--- exit ---'' @ [CHR 0x0A] @
           (case (po_code out, po_signal out) of
              (Some code, _) \<Rightarrow> ''exit '' @ dec_int code
            | (None, Some signal) \<Rightarrow> ''killed by signal '' @ dec_int signal
            | (None, None) \<Rightarrow> ''exit unknown'')
         else if s = [] then ''exit 0'' else s)"

definition exit_of :: "proc_output \<Rightarrow> string" where
  "exit_of out =
     (case (po_code out, po_signal out) of
        (Some code, _) \<Rightarrow> dec_int code
      | (None, Some signal) \<Rightarrow> ''signal '' @ dec_int signal
      | (None, None) \<Rightarrow> ''unknown'')"

record shell_run =
  sr_result :: string
  sr_exit :: string

definition first_line :: "string \<Rightarrow> string" where
  "first_line s = (let l = hd (str_split (CHR 0x0A) s) in if ends_with l [CHR 0x0D] \<and> CHR 0x0A \<in> set s then butlast l else l)"

record shell =
  sh_cwd :: string
  sh_timeout :: nat

definition shell_exec :: "'w tool_env \<Rightarrow> shell \<Rightarrow> string \<Rightarrow> ('w, stop, shell_run) act" where
  "shell_exec env sh command =
     act_bind (\<lambda>w. case te_command env w of (r, w') \<Rightarrow>
                     act_try (res_context (''resolving '' @ ticks ''sh'' @ '' for the shell tool'') r) w') (\<lambda>_.
     act_bind (env_await (te_output env command (sh_timeout sh))) (\<lambda>r.
     case r of
       Inr out \<Rightarrow> act_return \<lparr>sr_result = render out, sr_exit = exit_of out\<rparr>
     | Inl (Proc_Timed_Out bound) \<Rightarrow>
         act_return
           \<lparr>sr_result = ''the command did not exit within '' @ dec_nat (bound div 1000000000) @
                         ''s and was killed with everything it started'',
            sr_exit = ''timed out''\<rparr>
     | Inl (Proc_Failed e) \<Rightarrow>
         act_fail (Stop_Error (In_Context (''running '' @ ticks (first_line command) @ '' in the shell'') e))))"

section \<open>The tools\<close>

record tools =
  tl_shell :: "shell option"
  tl_declared :: "string list"
  tl_cap :: nat

definition within_cap :: "tools \<Rightarrow> string \<Rightarrow> string + string" where
  "within_cap t s =
     (if tl_cap t < length s
      then Inl (''result of '' @ dec_nat (length s) @ '' bytes exceeds the '' @ dec_nat (tl_cap t) @ ''-byte cap'')
      else Inr s)"

definition undeclared :: "tools \<Rightarrow> string \<Rightarrow> string" where
  "undeclared t name =
     (if tl_declared t = [] then ticks name @ '' is not declared; this request declares no tools''
      else ticks name @ '' is not declared; the tools are '' @ str_join '', '' (map (\<lambda>d. ticks d) (tl_declared t)))"

definition args_of :: "(json \<Rightarrow> string + 'a) \<Rightarrow> json \<Rightarrow> string + 'a" where
  "args_of parse v = (case parse v of Inl e \<Rightarrow> Inl (''invalid arguments: '' @ e) | Inr a \<Rightarrow> Inr a)"

definition tools_read :: "'w tool_env \<Rightarrow> tools \<Rightarrow> json \<Rightarrow> ('w, stop, string + string) act" where
  "tools_read env t arguments =
     (case args_of (te_read_args env) arguments of
        Inl e \<Rightarrow> act_return (Inl e)
      | Inr path \<Rightarrow>
          act_bind (env_await (te_read env path)) (\<lambda>r.
          act_return (res_bind r (\<lambda>bytes.
            if utf8_valid bytes then within_cap t bytes
            else Inl (ticks path @ '' is not UTF-8: '' @ te_utf8_error env bytes)))))"

definition tools_list :: "'w tool_env \<Rightarrow> tools \<Rightarrow> json \<Rightarrow> ('w, stop, string + string) act" where
  "tools_list env t arguments =
     (case args_of (te_list_args env) arguments of
        Inl e \<Rightarrow> act_return (Inl e)
      | Inr path \<Rightarrow>
          act_bind (env_await (te_list env (case path of None \<Rightarrow> [] | Some p \<Rightarrow> p))) (\<lambda>r.
          act_return (res_bind (res_bind r (te_print_list env)) (within_cap t))))"

definition tools_shell :: "'w tool_env \<Rightarrow> tools \<Rightarrow> json \<Rightarrow> ('w, stop, string + shell_run) act" where
  "tools_shell env t arguments =
     (case tl_shell t of
        None \<Rightarrow> act_return (Inl ''no shell on this workspace'')
      | Some sh \<Rightarrow>
          (case args_of (te_shell_args env) arguments of
             Inl reason \<Rightarrow> act_return (Inl reason)
           | Inr command \<Rightarrow> act_bind (shell_exec env sh command) (\<lambda>r. act_return (Inr r))))"

definition tools_guest :: "'w tool_env \<Rightarrow> tool_call \<Rightarrow> ('w, stop, string + string) act" where
  "tools_guest env c =
     act_bind (env_await (te_call env (tc_name c) (te_print env (tc_args c)))) (\<lambda>r.
     act_try (res_context (''calling tool '' @ ticks (tc_name c)) r))"

definition tools_call :: "'w tool_env \<Rightarrow> tools \<Rightarrow> tool_call \<Rightarrow> ('w, stop, string + string) act" where
  "tools_call env t c =
     (if tc_name c = SHELL_TOOL
      then act_bind (tools_shell env t (tc_args c)) (\<lambda>r. act_return (res_map sr_result r))
      else if tc_name c \<notin> set (tl_declared t) then act_return (Inl (undeclared t (tc_name c)))
      else if tc_name c = ''read'' then tools_read env t (tc_args c)
      else if tc_name c = ''list'' then tools_list env t (tc_args c)
      else tools_guest env c)"

text \<open>A call to the guest's check is outside the timer of a reply.\<close>

definition tools_check :: "'w tool_env \<Rightarrow> string \<Rightarrow> 'w \<Rightarrow> (conv_error + (string + unit)) \<times> 'w" where
  "tools_check env candidate = te_check env candidate"

section \<open>The summary of a call in the log\<close>

definition utf8_starts :: "string \<Rightarrow> nat list" where
  "utf8_starts s = filter (\<lambda>i. \<not> utf8_cont (byte_at s i)) [0..<length s]"

function str_replace :: "string \<Rightarrow> string \<Rightarrow> string \<Rightarrow> string" where
  "str_replace p r s =
     (if p = [] \<or> s = [] then s
      else case strip_prefix p s of
             Some rest \<Rightarrow> r @ str_replace p r rest
           | None \<Rightarrow> hd s # str_replace p r (tl s))"
  by auto
termination by (relation "measure (\<lambda>(p, r, s). length s)") (auto simp: strip_prefix_Some)

definition SUBJECT_WIDTH :: nat where "SUBJECT_WIDTH = 80"

definition ELLIPSIS :: string where "ELLIPSIS = [CHR 0xE2, CHR 0x80, CHR 0xA6]"

definition trim_end_slashes :: "string \<Rightarrow> string" where
  "trim_end_slashes s = rev (dropWhile (\<lambda>c. c = CHR ''/'') (rev s))"

definition subject :: "json \<Rightarrow> string option \<Rightarrow> string option" where
  "subject arguments cwd =
     map_option (\<lambda>s.
         let line = first_line s;
             line = (case cwd of
                       Some root \<Rightarrow> if trim_end_slashes root \<noteq> [] then str_replace (trim_end_slashes root @ ''/'') ''./'' line else line
                     | None \<Rightarrow> line)
         in if SUBJECT_WIDTH < length (utf8_starts line) then take (utf8_starts line ! SUBJECT_WIDTH) line @ ELLIPSIS else line)
       (List.find (\<lambda>_. True)
         (List.map_filter (\<lambda>k. Option.bind (json_get arguments k) as_str) [''path'', ''command'', ''pattern'', ''query'', ''url'']))"

end
