(* ===== verification/Genai_Conversation.thy ===== *)
theory Genai_Conversation
  imports Genai_Tools
begin

text \<open>
  One completion (\<open>src/crates/genai/src/conversation.rs\<close>): rounds with the provider, the tool
  calls between them, the nudge of a malformed answer, the guest's check of a candidate, and
  the budgets of all of them. The provider's client, the clock and the JSON library are the
  fields of \<open>conv_env\<close>. The loops are functions on the state, their measure the rounds left.
\<close>

section \<open>The state\<close>

record budgets =
  bd_rounds :: nat
  bd_candidates :: nat
  bd_repeats :: nat
  bd_timeout :: nat

definition REPEAT_NOTE_FROM :: nat where "REPEAT_NOTE_FROM = 3"
definition MAX_RESULT_BYTES :: nat where "MAX_RESULT_BYTES = 64 * 1024"
definition TRANSPORT_RETRY_WAITS :: "nat list" where "TRANSPORT_RETRY_WAITS = [1, 5, 15]"

record chat_response =
  rs_text :: "string option"
  rs_calls :: "tool_call list"
  rs_usage :: chat_usage
  rs_max_tokens :: bool

record 'w conv_env =
  ce_tools :: "'w tool_env"
  ce_exec :: "string \<Rightarrow> chat_request \<Rightarrow> chat_options \<Rightarrow> 'w \<Rightarrow> (genai_error + chat_response) option \<times> 'w"
  ce_sleep :: "nat \<Rightarrow> 'w \<Rightarrow> unit option \<times> 'w"
  ce_now :: "'w \<Rightarrow> nat"
  ce_hash :: "string \<Rightarrow> json \<Rightarrow> nat"
  ce_candidate :: "format \<Rightarrow> string \<Rightarrow> string"
  ce_parse :: "string \<Rightarrow> string + json"
  ce_faults :: "json \<Rightarrow> json \<Rightarrow> (string \<times> string \<times> string) list"

record tool_turn =
  tt_tool :: string
  tt_args :: json
  tt_result :: json

record conversation =
  cv_model :: string
  cv_chat :: chat_request
  cv_options :: chat_options
  cv_format :: format
  cv_validator :: "json option"
  cv_check :: bool
  cv_tools :: tools
  cv_budgets :: budgets
  cv_round :: nat
  cv_candidates :: nat
  cv_repeats :: "nat \<rightharpoonup> nat"
  cv_nudged :: bool
  cv_transcript :: "tool_turn list"
  cv_completion :: completion

record model_reply =
  rp_text :: string
  rp_usage :: "guest_usage option"

record nudge =
  nd_fault :: string
  nd_prompt :: string

record answer =
  an_answer :: string
  an_usage :: "guest_usage option"
  an_transcript :: "tool_turn list option"

type_synonym ('w, 'a) conv_act = "('w \<times> conversation, stop, 'a) act"

definition conversation_new :: "nat \<Rightarrow> prepared \<Rightarrow> tools \<Rightarrow> budgets \<Rightarrow> conversation" where
  "conversation_new now p t b =
     \<lparr>cv_model = pr_model p, cv_chat = pr_chat p, cv_options = pr_options p, cv_format = pr_format p,
      cv_validator = pr_validator p, cv_check = pr_check p, cv_tools = t, cv_budgets = b, cv_round = 0,
      cv_candidates = 0, cv_repeats = Map.empty, cv_nudged = False, cv_transcript = [],
      cv_completion = completion_start now\<rparr>"

definition on_world :: "('w, 'e, 'a) act \<Rightarrow> ('w \<times> conversation, 'e, 'a) act" where
  "on_world m = (\<lambda>(w, c). case m w of (r, w') \<Rightarrow> (r, (w', c)))"

definition on_conv :: "(conversation \<Rightarrow> conversation) \<Rightarrow> ('w \<times> conversation, 'e, unit) act" where
  "on_conv f = (\<lambda>(w, c). (Inr (), (w, f c)))"

definition conv_gets :: "(conversation \<Rightarrow> 'a) \<Rightarrow> ('w \<times> conversation, 'e, 'a) act" where
  "conv_gets f = (\<lambda>(w, c). (Inr (f c), (w, c)))"

definition enter :: "'w conv_env \<Rightarrow> phase \<Rightarrow> ('w \<times> conversation, 'e, unit) act" where
  "enter env p =
     (\<lambda>(w, c). (Inr (), (w, c\<lparr>cv_completion := completion_enter (ce_now env w) p (cv_completion c)\<rparr>)))"

section \<open>Texts\<close>

definition char_boundary :: "string \<Rightarrow> nat \<Rightarrow> bool" where
  "char_boundary s i \<longleftrightarrow> i = 0 \<or> i = length s \<or> i < length s \<and> \<not> utf8_cont (byte_at s i)"

fun floor_char_boundary :: "string \<Rightarrow> nat \<Rightarrow> nat" where
  "floor_char_boundary s 0 = 0"
| "floor_char_boundary s (Suc i) =
     (if length s \<le> Suc i then length s else if char_boundary s (Suc i) then Suc i else floor_char_boundary s i)"

function ceil_char_boundary :: "string \<Rightarrow> nat \<Rightarrow> nat" where
  "ceil_char_boundary s i =
     (if length s \<le> i then length s else if char_boundary s i then i else ceil_char_boundary s (Suc i))"
  by auto
termination by (relation "measure (\<lambda>(s, i). length s - i)") auto

declare ceil_char_boundary.simps [simp del]

definition truncate_text :: "string \<Rightarrow> nat \<Rightarrow> string" where
  "truncate_text s cap =
     (if length s \<le> cap then s
      else let head = floor_char_boundary s (cap div 2); tail = ceil_char_boundary s (length s - (cap - head))
           in take head s @ [CHR 0x0A] @ ''['' @ ELLIPSIS @ '' '' @ dec_nat (tail - head) @ '' bytes omitted '' @ ELLIPSIS @
              '']'' @ [CHR 0x0A] @ drop tail s)"

lemma floor_char_boundary: "floor_char_boundary s i \<le> i \<and> floor_char_boundary s i \<le> length s \<and> char_boundary s (floor_char_boundary s i)"
  by (induction i) (auto simp: char_boundary_def le_Suc_eq)

lemma ceil_char_boundary:
  "i \<le> length s \<Longrightarrow> i \<le> ceil_char_boundary s i \<and> ceil_char_boundary s i \<le> length s \<and> char_boundary s (ceil_char_boundary s i)"
proof (induction s i rule: ceil_char_boundary.induct)
  case (1 s i)
  show ?case
  proof (cases "length s \<le> i \<or> char_boundary s i")
    case True
    with "1.prems" show ?thesis by (subst (1 2 3) ceil_char_boundary.simps) (auto simp: char_boundary_def)
  next
    case False
    then have "ceil_char_boundary s i = ceil_char_boundary s (Suc i)" by (subst ceil_char_boundary.simps) simp
    with False "1.IH" show ?thesis by simp
  qed
qed

text \<open>
  A result over the cap keeps its two ends, each cut between characters, and the ends together
  are within the cap.
\<close>

lemma truncate_keeps_ends:
  assumes "cap < length s"
  obtains h t mark where "truncate_text s cap = take h s @ mark @ drop t s" "h \<le> cap div 2" "h \<le> t" "t \<le> length s"
    "h + (length s - t) \<le> cap" "char_boundary s h" "char_boundary s t"
proof -
  define h where "h = floor_char_boundary s (cap div 2)"
  define t where "t = ceil_char_boundary s (length s - (cap - h))"
  have h: "h \<le> cap div 2" "char_boundary s h"
    using floor_char_boundary [of s "cap div 2"] unfolding h_def by blast+
  have "length s - (cap - h) \<le> length s" by simp
  from ceil_char_boundary [OF this] have t: "length s - (cap - h) \<le> t" "t \<le> length s" "char_boundary s t"
    unfolding t_def by blast+
  have ends: "h \<le> t" "h + (length s - t) \<le> cap" using h(1) t(1,2) assms by linarith+
  have "truncate_text s cap = take h s @ ([CHR 0x0A] @ ''['' @ ELLIPSIS @ '' '' @ dec_nat (t - h) @ '' bytes omitted '' @
      ELLIPSIS @ '']'' @ [CHR 0x0A]) @ drop t s"
    unfolding truncate_text_def Let_def h_def [symmetric] t_def [symmetric] using assms by (simp only: not_le [symmetric] if_False append_assoc)
  from that [OF this h(1) ends(1) t(2) ends(2) h(2) t(3)] show thesis .
qed

definition at_path :: "string \<Rightarrow> string \<Rightarrow> string" where
  "at_path path fault = (if path = [] then fault else ''at '' @ ticks path @ '': '' @ fault)"

definition REFUSED_IN_CLOSING :: string where
  "REFUSED_IN_CLOSING =
     ''not run: your final answer is due now. Reply with only your final answer as a single JSON value in the shape the prompt asked for, and nothing else.''"

definition off_shape :: "'w conv_env \<Rightarrow> conversation \<Rightarrow> string \<Rightarrow> nudge option" where
  "off_shape env c candidate =
     (if cv_format c = Format_Text then None
      else case ce_parse env candidate of
        Inl fault \<Rightarrow>
          Some \<lparr>nd_fault = fault,
                nd_prompt = ''Your last reply is not one well-formed JSON value ('' @ fault @
                  ''), so it is not the answer. Reply now with only your final answer as a single JSON value in the shape the prompt asked for, and nothing else.''\<rparr>
      | Inr v \<Rightarrow>
          (case cv_validator c of
             None \<Rightarrow> None
           | Some schema \<Rightarrow>
               (let faults = ce_faults env schema v in
                if faults = [] then None
                else Some
                  \<lparr>nd_fault = str_join ''; '' (map (\<lambda>(path, masked, _). at_path path masked) faults),
                   nd_prompt = ''Your last reply is JSON but not in the shape the prompt asked for ('' @
                     str_join ''; '' (map (\<lambda>(path, _, detailed). at_path path detailed) faults) @
                     ''), so it is not the answer. Reply now with only your final answer as a single JSON value in exactly that shape, and nothing else.''\<rparr>)))"

section \<open>A round with the provider\<close>

definition append_message :: "chat_message \<Rightarrow> chat_request \<Rightarrow> chat_request" where
  "append_message m r = r\<lparr>cr_messages := cr_messages r @ [m]\<rparr>"

definition chat_default :: chat_request where
  "chat_default = \<lparr>cr_system = None, cr_messages = [], cr_tools = None\<rparr>"

definition closing :: "conversation \<Rightarrow> bool" where
  "closing c \<longleftrightarrow> cv_nudged c \<or> cv_round c = bd_rounds (cv_budgets c)"

definition round_request :: "conversation \<Rightarrow> chat_request \<times> chat_options" where
  "round_request c =
     (let chat = cv_chat c; options = cv_options c;
          options = (if cv_nudged c then options\<lparr>co_format := Some Json_Mode\<rparr> else options);
          options = (if closing c \<and> (case cr_tools chat of None \<Rightarrow> False | Some ts \<Rightarrow> ts \<noteq> [])
                     then options\<lparr>co_no_tools := True\<rparr> else options)
      in (chat, options))"

definition is_cut :: "conversation \<Rightarrow> chat_response \<Rightarrow> bool" where
  "is_cut c r \<longleftrightarrow>
     rs_max_tokens r \<or>
     (case (co_max_tokens (cv_options c), cu_completion (rs_usage r)) of
        (Some bound, Some spent) \<Rightarrow> 0 \<le> spent \<and> bound \<le> nat spent
      | _ \<Rightarrow> False)"

definition is_transport :: "genai_error \<Rightarrow> bool" where
  "is_transport e \<longleftrightarrow> e = Web_Model_Call Reqwest \<or> e = Web_Adapter_Call Reqwest"

fun exec_chat :: "'w conv_env \<Rightarrow> chat_request \<Rightarrow> chat_options \<Rightarrow> nat list \<Rightarrow> ('w, chat_response) conv_act" where
  "exec_chat env chat options waits =
     act_bind (conv_gets cv_model) (\<lambda>model.
     act_bind (on_world (env_await (ce_exec env model chat options))) (\<lambda>r.
     case r of
       Inr response \<Rightarrow> act_return response
     | Inl error \<Rightarrow>
         (let failure = act_fail (Stop_Error (In_Context (''genai exec_chat failed for model '' @ ticks model) (Chat_Failed error))) in
          case waits of
            [] \<Rightarrow> failure
          | wait # rest \<Rightarrow>
              if is_transport error
              then act_then (on_conv (\<lambda>c. c\<lparr>cv_completion := completion_retried (cv_completion c)\<rparr>))
                (act_then (on_world (env_await (ce_sleep env wait)))
                  (exec_chat env chat options rest))
              else failure)))"

declare exec_chat.simps [simp del]

section \<open>Tool calls\<close>

definition identity :: "'w conv_env \<Rightarrow> tool_call \<Rightarrow> nat" where
  "identity env call = ce_hash env (tc_name call) (tc_args call)"

definition push_turn :: "tool_call \<Rightarrow> string \<Rightarrow> conversation \<Rightarrow> conversation" where
  "push_turn call result c =
     c\<lparr>cv_transcript := cv_transcript c @ [\<lparr>tt_tool = tc_name call, tt_args = tc_args call, tt_result = JStr result\<rparr>]\<rparr>"

definition call_failed :: "'w conv_env \<Rightarrow> tool_call \<Rightarrow> string \<Rightarrow> ('w, string) conv_act" where
  "call_failed env call reason =
     (\<lambda>(w, c).
        let count = Suc (case cv_repeats c (identity env call) of None \<Rightarrow> 0 | Some n \<Rightarrow> n);
            c = c\<lparr>cv_repeats := (cv_repeats c)(identity env call \<mapsto> count)\<rparr>;
            result = ''tool '' @ ticks (tc_name call) @ '' failed: '' @ reason
        in (if bd_repeats (cv_budgets c) \<le> count
            then Inl (Stop_Error (Budget_Exhausted
              (''tool '' @ ticks (tc_name call) @ '' failed '' @ dec_nat count @ '' times with the same arguments: '' @ reason)))
            else if count < REPEAT_NOTE_FROM then Inr result
            else Inr (result @ [CHR 0x0A, CHR 0x0A] @ ''This exact call has now failed '' @ dec_nat count @
              '' times, and the same call will fail the same way. Change the arguments or the approach: after '' @
              dec_nat (bd_repeats (cv_budgets c)) @ '' identical failures the task ends.''),
            (w, c)))"

definition run_call :: "'w conv_env \<Rightarrow> tool_call \<Rightarrow> ('w, string) conv_act" where
  "run_call env call =
     act_then (enter env (phase_of_tool (tc_name call)))
     (act_bind (conv_gets cv_tools) (\<lambda>t.
      act_bind (on_world (tools_call (ce_tools env) t call)) (\<lambda>outcome.
      case outcome of
        Inr s \<Rightarrow>
          act_then (on_conv (\<lambda>c. c\<lparr>cv_repeats := (cv_repeats c)(identity env call := None)\<rparr>))
            (act_return (truncate_text s MAX_RESULT_BYTES))
      | Inl reason \<Rightarrow> call_failed env call (truncate_text reason MAX_RESULT_BYTES))))"

fun run_tool_calls :: "'w conv_env \<Rightarrow> tool_call list \<Rightarrow> chat_request \<Rightarrow> ('w, chat_request) conv_act" where
  "run_tool_calls env [] chat = act_return chat"
| "run_tool_calls env (call # calls) chat =
     act_bind (run_call env call) (\<lambda>result.
     act_then (on_conv (push_turn call result))
       (run_tool_calls env calls (append_message (Msg_Response (tc_id call) result) chat)))"

text \<open>\<open>mem::take\<close> leaves the default request behind until the round's is put back.\<close>

definition take_chat :: "('w \<times> conversation, 'e, chat_request) act" where
  "take_chat = (\<lambda>(w, c). (Inr (cv_chat c), (w, c\<lparr>cv_chat := chat_default\<rparr>)))"

definition put_chat :: "chat_request \<Rightarrow> ('w \<times> conversation, 'e, unit) act" where
  "put_chat chat = on_conv (\<lambda>c. c\<lparr>cv_chat := chat\<rparr>)"

definition tool_round :: "'w conv_env \<Rightarrow> tool_call list \<Rightarrow> ('w, unit) conv_act" where
  "tool_round env calls =
     act_bind take_chat (\<lambda>chat.
     act_bind (run_tool_calls env calls (append_message (Msg_Calls calls) chat)) put_chat)"

definition refuse_calls :: "tool_call list \<Rightarrow> string \<Rightarrow> conversation \<Rightarrow> conversation" where
  "refuse_calls calls refusal c =
     (let c = c\<lparr>cv_chat := append_message (Msg_Calls calls) (cv_chat c)\<rparr> in
      fold (\<lambda>call c. (push_turn call refusal c)\<lparr>cv_chat := append_message (Msg_Response (tc_id call) refusal) (cv_chat c)\<rparr>)
        calls c)"

definition refuse_closing :: "tool_call list \<Rightarrow> conversation \<Rightarrow> conversation" where
  "refuse_closing calls c = refuse_calls calls REFUSED_IN_CLOSING c"

definition refuse_cut :: "tool_call list \<Rightarrow> conversation \<Rightarrow> conversation" where
  "refuse_cut calls c =
     (let bound = (case co_max_tokens (cv_options c) of None \<Rightarrow> 0 | Some n \<Rightarrow> n) in
      refuse_calls calls
        (''not run: your reply ran to the cap of '' @ dec_nat bound @
         '' tokens and was cut there, so the arguments of this call did not arrive as you wrote them. Send smaller calls, fewer files or edits a call and each shorter, so one reply stays within the cap.'') c)"

section \<open>A reply\<close>

text \<open>
  What \<open>next_reply\<close> does with a response, its telemetry first; \<open>None\<close> is \<open>continue\<close>.
\<close>

definition take_response :: "'w conv_env \<Rightarrow> bool \<Rightarrow> chat_response \<Rightarrow> ('w, model_reply option) conv_act" where
  "take_response env closed response =
     act_bind (conv_gets (\<lambda>c. is_cut c response)) (\<lambda>was_cut.
     let calls = rs_calls response;
         reply_bytes = (if calls = [] then map_option length (rs_text response) else None)
     in act_then (on_conv (\<lambda>c. c\<lparr>cv_completion := snd (completion_answered (rs_usage response) reply_bytes was_cut (cv_completion c))\<rparr>))
        (if calls \<noteq> []
         then act_then
           (if closed then on_conv (refuse_closing calls)
            else if was_cut then on_conv (refuse_cut calls)
            else tool_round env calls)
           (act_return None)
         else case rs_text response of
           None \<Rightarrow>
             act_bind (conv_gets cv_model) (\<lambda>model. act_fail (Stop_Error (Failed
               (''genai returned neither content nor tool calls (model '' @ ticks model @ '')''))))
         | Some s \<Rightarrow> act_return (Some \<lparr>rp_text = s, rp_usage = usage_of (rs_usage response)\<rparr>)))"

text \<open>The body of its loop.\<close>

definition reply_round :: "'w conv_env \<Rightarrow> ('w, model_reply option) conv_act" where
  "reply_round env =
     act_then (on_conv (\<lambda>c. c\<lparr>cv_round := Suc (cv_round c)\<rparr>))
     (act_then (enter env Phase_Model)
     (act_bind (conv_gets (\<lambda>c. (closing c, round_request c))) (\<lambda>(closed, chat, options).
      act_bind (exec_chat env chat options TRANSPORT_RETRY_WAITS) (take_response env closed))))"

section \<open>Reasoning about a round\<close>

definition responses :: "tool_call list \<Rightarrow> string list \<Rightarrow> chat_message list" where
  "responses calls rs = map2 (\<lambda>call r. Msg_Response (tc_id call) r) calls rs"

definition append_messages :: "chat_message list \<Rightarrow> chat_request \<Rightarrow> chat_request" where
  "append_messages ms r = r\<lparr>cr_messages := cr_messages r @ ms\<rparr>"

lemma append_messages_simps [simp]:
  "append_message m r = append_messages [m] r"
  "append_messages ms (append_messages ns r) = append_messages (ns @ ms) r"
  "append_messages [] r = r"
  "cr_messages (append_messages ms r) = cr_messages r @ ms"
  "cr_tools (append_messages ms r) = cr_tools r"
  "cr_system (append_messages ms r) = cr_system r"
  by (simp_all add: append_message_def append_messages_def)

lemma responses_simps [simp]: "responses [] rs = []" "responses (c # cs) (r # rs) = Msg_Response (tc_id c) r # responses cs rs"
  by (simp_all add: responses_def)

lemma fold_refuse:
  "fold (\<lambda>call c. (push_turn call refusal c)\<lparr>cv_chat := append_message (Msg_Response (tc_id call) refusal) (cv_chat c)\<rparr>) calls c =
     c\<lparr>cv_chat := append_messages (responses calls (replicate (length calls) refusal)) (cv_chat c),
       cv_transcript := cv_transcript c @
         map (\<lambda>call. \<lparr>tt_tool = tc_name call, tt_args = tc_args call, tt_result = JStr refusal\<rparr>) calls\<rparr>"
  by (induction calls arbitrary: c) (simp_all add: push_turn_def)

lemma refuse_calls_eq:
  "refuse_calls calls refusal c =
     c\<lparr>cv_chat := append_messages (Msg_Calls calls # responses calls (replicate (length calls) refusal)) (cv_chat c),
       cv_transcript := cv_transcript c @
         map (\<lambda>call. \<lparr>tt_tool = tc_name call, tt_args = tc_args call, tt_result = JStr refusal\<rparr>) calls\<rparr>"
  unfolding refuse_calls_def Let_def fold_refuse by simp

lemma conv_steps:
  "act_then (on_conv f) m (w, c) = m (w, f c)"
  "act_then (enter env p) m (w, c) = m (w, c\<lparr>cv_completion := completion_enter (ce_now env w) p (cv_completion c)\<rparr>)"
  "act_bind (conv_gets g) h (w, c) = h (g c) (w, c)"
  by (simp_all add: act_then_def act_bind_def on_conv_def enter_def conv_gets_def)

text \<open>
  What is kept by a provider call with its retries: a property of the state indexed by the
  requests the provider may have got, which only those requests count up.
\<close>

locale exec_logic =
  fixes env :: "'w conv_env" and P :: "nat \<Rightarrow> 'w \<times> conversation \<Rightarrow> bool" and good :: "chat_request \<Rightarrow> bool"
  assumes P_exec: "P k (w, c) \<Longrightarrow> good chat \<Longrightarrow> P (Suc k) (snd (ce_exec env (cv_model c) chat options w), c)"
    and P_sleep: "P k (w, c) \<Longrightarrow> P k (snd (ce_sleep env d w), c)"
    and P_completion: "P k (w, c) \<Longrightarrow> P k (w, c\<lparr>cv_completion := x\<rparr>)"
    and P_mono: "P k s \<Longrightarrow> k \<le> k' \<Longrightarrow> P k' s"
begin

lemma enter_keeps: "act_keeps (P k) (enter env p)"
  by (auto simp: act_spec_def enter_def intro: P_completion)

lemma exec_step:
  assumes "good chat"
    and f: "\<And>model r. act_spec (P (Suc k)) (f model r) Q E" and E: "\<And>s. P (Suc k) s \<Longrightarrow> E Stop_Elapsed s"
  shows "act_spec (P k) (act_bind (conv_gets cv_model) (\<lambda>model.
           act_bind (on_world (env_await (ce_exec env model chat options))) (f model))) Q E"
proof (rule act_specI)
  fix s r s'
  assume P: "P k s" and run: "act_bind (conv_gets cv_model) (\<lambda>model.
           act_bind (on_world (env_await (ce_exec env model chat options))) (f model)) s = (r, s')"
  obtain w c where s: "s = (w, c)" by fastforce
  obtain x w' where x: "ce_exec env (cv_model c) chat options w = (x, w')" by fastforce
  have P': "P (Suc k) (w', c)" using P_exec [OF P [unfolded s] assms(1), of options] x by simp
  show "case r of Inl e \<Rightarrow> E e s' | Inr a \<Rightarrow> Q a s'"
  proof (cases x)
    case None
    with run E [OF P'] show ?thesis by (auto simp: s x act_bind_def conv_gets_def on_world_def env_await_def)
  next
    case (Some y)
    with run have "f (cv_model c) y (w', c) = (r, s')"
      by (simp add: s x act_bind_def conv_gets_def on_world_def env_await_def)
    then show ?thesis by (rule act_specD [OF f P'])
  qed
qed

lemma pause_keeps:
  "act_spec (P k) (act_then (on_conv (\<lambda>c. c\<lparr>cv_completion := completion_retried (cv_completion c)\<rparr>))
     (on_world (env_await (ce_sleep env d)))) (\<lambda>_. P k) (\<lambda>_. P k)"
proof (rule act_specI)
  fix s r s'
  assume P: "P k s" and run: "act_then (on_conv (\<lambda>c. c\<lparr>cv_completion := completion_retried (cv_completion c)\<rparr>))
     (on_world (env_await (ce_sleep env d))) s = (r, s')"
  obtain w c where s: "s = (w, c)" by fastforce
  have "P k (snd (ce_sleep env d w), c\<lparr>cv_completion := completion_retried (cv_completion c)\<rparr>)"
    by (rule P_sleep, rule P_completion, rule P [unfolded s])
  with run have "P k s'"
    by (auto simp: s act_then_def act_bind_def on_conv_def on_world_def env_await_def split: prod.splits option.splits)
  then show "case r of Inl e \<Rightarrow> P k s' | Inr a \<Rightarrow> P k s'" by (cases r) auto
qed

lemma fail_weak: "(\<And>s. R s \<Longrightarrow> E e s) \<Longrightarrow> act_spec R (act_fail e) Q E"
  by (simp add: act_spec_def)

lemma exec_chat_logic:
  assumes good: "good chat"
  shows "act_spec (P k) (exec_chat env chat options waits) (\<lambda>_. P (k + Suc (length waits))) (\<lambda>_. P (k + Suc (length waits)))"
proof (induction waits arbitrary: k)
  case Nil
  show ?case
    by (subst exec_chat.simps, rule exec_step [OF good])
      (auto simp: act_spec_def Let_def split: sum.splits intro: P_mono)
next
  case (Cons d waits)
  have again: "act_spec (P (Suc k)) (act_then (on_conv (\<lambda>c. c\<lparr>cv_completion := completion_retried (cv_completion c)\<rparr>))
      (act_then (on_world (env_await (ce_sleep env d))) (exec_chat env chat options waits)))
      (\<lambda>_. P (k + Suc (length (d # waits)))) (\<lambda>_. P (k + Suc (length (d # waits))))"
  proof -
    have "act_spec (P (Suc k)) (act_bind (act_then (on_conv (\<lambda>c. c\<lparr>cv_completion := completion_retried (cv_completion c)\<rparr>))
        (on_world (env_await (ce_sleep env d)))) (\<lambda>_. exec_chat env chat options waits))
      (\<lambda>_. P (k + Suc (length (d # waits)))) (\<lambda>_. P (k + Suc (length (d # waits))))"
    proof (rule act_spec_bind)
      show "act_spec (P (Suc k)) (act_then (on_conv (\<lambda>c. c\<lparr>cv_completion := completion_retried (cv_completion c)\<rparr>))
          (on_world (env_await (ce_sleep env d)))) (\<lambda>_. P (Suc k)) (\<lambda>_. P (k + Suc (length (d # waits))))"
        by (rule act_spec_weaken [OF pause_keeps [of "Suc k" d]]) (auto intro: P_mono)
      show "act_spec (P (Suc k)) (exec_chat env chat options waits)
          (\<lambda>_. P (k + Suc (length (d # waits)))) (\<lambda>_. P (k + Suc (length (d # waits))))"
        using Cons.IH [of "Suc k"] by simp
    qed
    then show ?thesis by (simp add: act_then_def act_bind_assoc)
  qed
  have resp: "act_spec (P (Suc k)) (act_return x) (\<lambda>_. P (k + Suc (length (d # waits)))) E" for x E
    by (auto simp: act_spec_def intro: P_mono)
  show ?case
    by (subst exec_chat.simps, rule exec_step [OF good])
      (auto simp only: Let_def list.case split: sum.split if_split intro!: fail_weak again resp intro: P_mono)
qed

end

interpretation chat_frame: exec_logic env "\<lambda>_ (w, c). cv_chat c = chat0" "\<lambda>_. True" for env chat0
  by unfold_locales auto

text \<open>
  And by a round: the property must not depend on what the tools and the transcript change,
  and a call message with its responses keeps the chat good.
\<close>

locale round_logic = exec_logic env P good
  for env :: "'w conv_env" and P :: "nat \<Rightarrow> 'w \<times> conversation \<Rightarrow> bool" and good :: "chat_request \<Rightarrow> bool" +
  assumes P_tool: "P k (w, c) \<Longrightarrow> P k (snd (tools_call (ce_tools env) (cv_tools c) call w), c)"
    and P_repeats: "P k (w, c) \<Longrightarrow> P k (w, c\<lparr>cv_repeats := m\<rparr>)"
    and P_transcript: "P k (w, c) \<Longrightarrow> P k (w, c\<lparr>cv_transcript := ts\<rparr>)"
    and P_chat: "P k (w, c) \<Longrightarrow> P k (w, c\<lparr>cv_chat := chat\<rparr>)"
    and good_calls: "good chat \<Longrightarrow> length rs = length calls \<Longrightarrow> good (append_messages (Msg_Calls calls # responses calls rs) chat)"
begin

lemma call_failed_keeps: "act_keeps (P k) (call_failed env call reason)"
  by (auto simp: act_spec_def call_failed_def Let_def intro: P_repeats)

lemma tools_keep: "act_keeps (P k) (act_bind (conv_gets cv_tools) (\<lambda>t. on_world (tools_call (ce_tools env) t call)))"
proof (rule act_specI)
  fix s r s'
  assume P: "P k s" and run: "act_bind (conv_gets cv_tools) (\<lambda>t. on_world (tools_call (ce_tools env) t call)) s = (r, s')"
  obtain w c where s: "s = (w, c)" by fastforce
  have "P k (snd (tools_call (ce_tools env) (cv_tools c) call w), c)" by (rule P_tool, rule P [unfolded s])
  with run have "P k s'" by (auto simp: s act_bind_def conv_gets_def on_world_def split: prod.splits)
  then show "case r of Inl e \<Rightarrow> P k s' | Inr a \<Rightarrow> P k s'" by (cases r) auto
qed

lemma run_call_keeps: "act_keeps (P k) (run_call env call)"
proof -
  have rest: "act_keeps (P k) (case outcome of
        Inr s \<Rightarrow> act_then (on_conv (\<lambda>c. c\<lparr>cv_repeats := (cv_repeats c)(identity env call := None)\<rparr>))
            (act_return (truncate_text s MAX_RESULT_BYTES))
      | Inl reason \<Rightarrow> call_failed env call (truncate_text reason MAX_RESULT_BYTES))" for outcome
    by (auto split: sum.split intro!: call_failed_keeps act_keeps_then act_keeps_basic)
      (auto simp: act_spec_def on_conv_def intro: P_repeats)
  have "act_keeps (P k) (act_bind (act_bind (conv_gets cv_tools) (\<lambda>t. on_world (tools_call (ce_tools env) t call)))
      (\<lambda>outcome. case outcome of
        Inr s \<Rightarrow> act_then (on_conv (\<lambda>c. c\<lparr>cv_repeats := (cv_repeats c)(identity env call := None)\<rparr>))
            (act_return (truncate_text s MAX_RESULT_BYTES))
      | Inl reason \<Rightarrow> call_failed env call (truncate_text reason MAX_RESULT_BYTES)))"
    by (rule act_keeps_bind [OF tools_keep rest])
  then show ?thesis unfolding run_call_def act_bind_assoc by (rule act_keeps_then [OF enter_keeps])
qed

lemma run_tool_calls_logic:
  "act_spec (P k) (run_tool_calls env calls chat)
     (\<lambda>chat' s. P k s \<and> (\<exists>rs. length rs = length calls \<and> chat' = append_messages (responses calls rs) chat)) (\<lambda>_. P k)"
proof (induction calls arbitrary: chat)
  case Nil
  show ?case by (auto simp: act_spec_def)
next
  case (Cons call calls)
  show ?case unfolding run_tool_calls.simps
  proof (rule act_spec_bind [where R = "\<lambda>_. P k", OF run_call_keeps])
    fix r
    have push: "act_keeps (P k) (on_conv (push_turn call r))"
      by (auto simp: act_spec_def on_conv_def push_turn_def intro: P_transcript)
    have "act_spec (P k) (run_tool_calls env calls (append_message (Msg_Response (tc_id call) r) chat))
        (\<lambda>chat' s. P k s \<and> (\<exists>rs. length rs = length (call # calls) \<and> chat' = append_messages (responses (call # calls) rs) chat))
        (\<lambda>_. P k)"
      by (rule act_spec_weaken [OF Cons.IH]) (auto intro: exI [where x = "r # rs" for rs, OF conjI])
    then show "act_spec (P k) (act_then (on_conv (push_turn call r))
          (run_tool_calls env calls (append_message (Msg_Response (tc_id call) r) chat)))
        (\<lambda>chat' s. P k s \<and> (\<exists>rs. length rs = length (call # calls) \<and> chat' = append_messages (responses (call # calls) rs) chat))
        (\<lambda>_. P k)"
      unfolding act_then_def by (rule act_spec_bind [OF push])
  qed
qed

lemma tool_round_logic:
  "act_spec (\<lambda>(w, c). P k (w, c) \<and> good (cv_chat c)) (tool_round env calls)
     (\<lambda>_ (w, c). P k (w, c) \<and> good (cv_chat c)) (\<lambda>_. P k)"
  unfolding tool_round_def
proof (rule act_spec_bind)
  show "act_spec (\<lambda>(w, c). P k (w, c) \<and> good (cv_chat c)) take_chat (\<lambda>chat s. P k s \<and> good chat) (\<lambda>_. P k)"
    by (auto simp: act_spec_def take_chat_def intro: P_chat)
next
  fix chat
  show "act_spec (\<lambda>s. P k s \<and> good chat) (act_bind (run_tool_calls env calls (append_message (Msg_Calls calls) chat)) put_chat)
      (\<lambda>_ (w, c). P k (w, c) \<and> good (cv_chat c)) (\<lambda>_. P k)"
  proof (cases "good chat")
    case True
    have 1: "act_spec (\<lambda>s. P k s \<and> good chat) (run_tool_calls env calls (append_message (Msg_Calls calls) chat))
        (\<lambda>chat' s. P k s \<and> good chat') (\<lambda>_. P k)"
      by (rule act_spec_weaken [OF run_tool_calls_logic]) (auto intro: good_calls [OF True])
    show ?thesis
      by (rule act_spec_bind [OF 1]) (auto simp: act_spec_def put_chat_def on_conv_def intro: P_chat)
  qed (simp add: act_spec_def)
qed

lemma refuse_calls_logic:
  assumes "P k (w, c)" and "good (cv_chat c)"
  shows "P k (w, refuse_calls calls refusal c)" and "good (cv_chat (refuse_calls calls refusal c))"
  using assms by (auto simp: refuse_calls_eq intro: P_chat P_transcript good_calls)

lemma exec_chat_round:
  "act_spec (\<lambda>(w, c). P k (w, c) \<and> cv_chat c = chat \<and> good chat) (exec_chat env chat options TRANSPORT_RETRY_WAITS)
     (\<lambda>_ (w, c). P (k + 4) (w, c) \<and> good (cv_chat c)) (\<lambda>_. P (k + 4))"
proof (cases "good chat")
  case True
  show ?thesis
  proof (rule act_specI)
    fix s r s'
    assume pre: "case s of (w, c) \<Rightarrow> P k (w, c) \<and> cv_chat c = chat \<and> good chat"
      and run: "exec_chat env chat options TRANSPORT_RETRY_WAITS s = (r, s')"
    obtain w c w' c' where s: "s = (w, c)" "s' = (w', c')" by fastforce
    have "case r of Inl e \<Rightarrow> P (k + 4) s' | Inr a \<Rightarrow> P (k + 4) s'"
      using act_specD [OF exec_chat_logic _ run] pre by (simp add: s TRANSPORT_RETRY_WAITS_def eval_nat_numeral)
    moreover have "cv_chat c' = chat"
      using act_specD [OF chat_frame.exec_chat_logic _ run, of chat] pre by (auto simp: s split: sum.splits)
    ultimately show "case r of Inl e \<Rightarrow> P (k + 4) s' | Inr a \<Rightarrow> (case s' of (w, c) \<Rightarrow> P (k + 4) (w, c) \<and> good (cv_chat c))"
      using pre by (auto simp: s split: sum.splits)
  qed
qed (simp add: act_spec_def)

lemma take_response_logic:
  "act_spec (\<lambda>(w, c). P k (w, c) \<and> good (cv_chat c)) (take_response env closed response)
     (\<lambda>_ (w, c). P k (w, c) \<and> good (cv_chat c)) (\<lambda>_. P k)"
proof -
  let ?I = "\<lambda>(w, c). P k (w, c) \<and> good (cv_chat c)"
  let ?calls = "rs_calls response"
  have refused: "act_spec ?I (on_conv (refuse_calls calls msg) :: ('w, unit) conv_act) (\<lambda>_. ?I) (\<lambda>_. P k)" for calls msg
    by (auto simp: act_spec_def on_conv_def intro: refuse_calls_logic)
  have was_cut: "act_spec ?I (on_conv (refuse_cut ?calls) :: ('w, unit) conv_act) (\<lambda>_. ?I) (\<lambda>_. P k)"
    by (auto simp: act_spec_def on_conv_def refuse_cut_def Let_def intro: refuse_calls_logic)
  have handled: "act_spec ?I (if closed then on_conv (refuse_closing ?calls) else if b then on_conv (refuse_cut ?calls)
      else tool_round env ?calls) (\<lambda>_. ?I) (\<lambda>_. P k)" for b
    using refused [of ?calls REFUSED_IN_CLOSING] was_cut tool_round_logic [of k ?calls]
    by (simp add: refuse_closing_def [abs_def])
  have told: "act_spec ?I (on_conv (\<lambda>c. c\<lparr>cv_completion := f (cv_completion c)\<rparr>) :: ('w, unit) conv_act) (\<lambda>_. ?I) (\<lambda>_. P k)" for f
    by (auto simp: act_spec_def on_conv_def intro: P_completion)
  have reply: "act_spec ?I (case rs_text response of
           None \<Rightarrow> act_bind (conv_gets cv_model) (\<lambda>model. act_fail (f model))
         | Some s \<Rightarrow> act_return (g s)) (\<lambda>_. ?I) (\<lambda>_. P k)" for f :: "string \<Rightarrow> stop" and g :: "string \<Rightarrow> model_reply option"
    by (cases "rs_text response") (auto simp: act_spec_def act_bind_def conv_gets_def)
  have calls: "act_spec ?I (act_then (if closed then on_conv (refuse_closing ?calls) else if b then on_conv (refuse_cut ?calls)
      else tool_round env ?calls) (act_return (None :: model_reply option))) (\<lambda>_. ?I) (\<lambda>_. P k)" for b
    unfolding act_then_def by (rule act_spec_bind [OF handled]) (simp add: act_spec_def)
  show ?thesis
    unfolding take_response_def Let_def
  proof (rule act_spec_bind [where R = "\<lambda>_. ?I"], goal_cases)
    case 1
    show ?case by (simp add: act_spec_def conv_gets_def)
  next
    case (2 was_cut)
    show ?case
      unfolding act_then_def [of "on_conv (\<lambda>c. c\<lparr>cv_completion := _ c\<rparr>)"]
      by (rule act_spec_bind [OF told]) (simp only: calls reply split: if_split, simp)
  qed
qed

lemma reply_round_logic:
  "act_spec (\<lambda>(w, c). P k (w, c\<lparr>cv_round := Suc (cv_round c)\<rparr>) \<and> good (cv_chat c)) (reply_round env)
     (\<lambda>_ (w, c). P (k + 4) (w, c) \<and> good (cv_chat c)) (\<lambda>_. P (k + 4))"
proof (rule act_specI)
  fix s r s'
  assume pre: "case s of (w, c) \<Rightarrow> P k (w, c\<lparr>cv_round := Suc (cv_round c)\<rparr>) \<and> good (cv_chat c)"
    and run': "reply_round env s = (r, s')"
  obtain w c where s: "s = (w, c)" by fastforce
  have P: "P k (w, c\<lparr>cv_round := Suc (cv_round c)\<rparr>)" and good: "good (cv_chat c)"
    and run: "reply_round env (w, c) = (r, s')" using pre run' by (simp_all add: s)
  define c1 where "c1 = c\<lparr>cv_round := Suc (cv_round c),
      cv_completion := completion_enter (ce_now env w) Phase_Model (cv_completion c)\<rparr>"
  have P1: "P k (w, c1) \<and> cv_chat c1 = fst (round_request c1) \<and> good (fst (round_request c1))"
    using P good by (auto simp: c1_def round_request_def Let_def intro: P_completion)
  have step: "reply_round env (w, c) = act_bind (exec_chat env (fst (round_request c1)) (snd (round_request c1)) TRANSPORT_RETRY_WAITS)
      (take_response env (closing c1)) (w, c1)"
    by (cases "round_request c1") (simp add: reply_round_def conv_steps c1_def [symmetric])
  show "case r of Inl e \<Rightarrow> P (k + 4) s' | Inr a \<Rightarrow> (case s' of (w, c) \<Rightarrow> P (k + 4) (w, c) \<and> good (cv_chat c))"
    using act_specD [OF act_spec_bind [OF exec_chat_round take_response_logic] _ run [unfolded step]] P1 by simp
qed

end

end
