(* ===== verification/Genai_Run.thy ===== *)
theory Genai_Run
  imports Genai_Conversation
begin

text \<open>
  The loops of a completion (\<open>src/crates/genai/src/conversation.rs\<close>: \<open>next_reply\<close>, \<open>run\<close>,
  \<open>complete\<close>), total because each reply takes a round, and what is kept along them.
\<close>

section \<open>The next reply\<close>

text \<open>What the rounds of a reply leave as it is.\<close>

definition held :: "conversation \<Rightarrow> string \<times> chat_options \<times> format \<times> json option \<times> bool \<times> tools \<times> budgets \<times> nat \<times> bool" where
  "held c = (cv_model c, cv_options c, cv_format c, cv_validator c, cv_check c, cv_tools c, cv_budgets c, cv_candidates c, cv_nudged c)"

lemma held_simps [simp]:
  "held (c\<lparr>cv_completion := x\<rparr>) = held c"
  "held (c\<lparr>cv_repeats := m\<rparr>) = held c"
  "held (c\<lparr>cv_transcript := ts\<rparr>) = held c"
  "held (c\<lparr>cv_chat := chat\<rparr>) = held c"
  "held (c\<lparr>cv_round := n\<rparr>) = held c"
  by (simp_all add: held_def)

interpretation round_frame: round_logic env "\<lambda>_ (w, c). held c = h \<and> cv_round c = n" "\<lambda>_. True" for env h n
  by unfold_locales auto

lemma reply_round_frame:
  assumes "reply_round env (w, c) = (r, (w', c'))"
  shows "held c' = held c \<and> cv_round c' = Suc (cv_round c)"
  using act_specD [OF round_frame.reply_round_logic [of "held c" "Suc (cv_round c)"] _ assms]
  by (auto split: sum.splits)

lemma reply_round_less:
  assumes "reply_round env s = (Inr None, s')" and "cv_round (snd s) < bd_rounds (cv_budgets (snd s))"
  shows "bd_rounds (cv_budgets (snd s')) - cv_round (snd s') < bd_rounds (cv_budgets (snd s)) - cv_round (snd s)"
  using reply_round_frame [of env "fst s" "snd s" "Inr None" "fst s'" "snd s'"] assms by (simp add: held_def)

function next_reply :: "'w conv_env \<Rightarrow> 'w \<times> conversation \<Rightarrow> (stop + model_reply option) \<times> 'w \<times> conversation" where
  "next_reply env s =
     (if cv_round (snd s) < bd_rounds (cv_budgets (snd s))
      then case reply_round env s of
             (Inl e, s') \<Rightarrow> (Inl e, s')
           | (Inr (Some r), s') \<Rightarrow> (Inr (Some r), s')
           | (Inr None, s') \<Rightarrow> next_reply env s'
      else (Inr None, s))"
  by auto
termination
  by (relation "measure (\<lambda>(env, s). bd_rounds (cv_budgets (snd s)) - cv_round (snd s))") (auto intro: reply_round_less [OF sym])

declare next_reply.simps [simp del]

lemma next_reply_cases:
  assumes "next_reply env s = (r, s')"
  obtains (stopped) e where "cv_round (snd s) < bd_rounds (cv_budgets (snd s))" "reply_round env s = (Inl e, s')" "r = Inl e"
    | (replied) x where "cv_round (snd s) < bd_rounds (cv_budgets (snd s))" "reply_round env s = (Inr (Some x), s')" "r = Inr (Some x)"
    | (again) s1 where "cv_round (snd s) < bd_rounds (cv_budgets (snd s))" "reply_round env s = (Inr None, s1)" "next_reply env s1 = (r, s')"
    | (spent) "bd_rounds (cv_budgets (snd s)) \<le> cv_round (snd s)" "r = Inr None" "s' = s"
proof (cases "cv_round (snd s) < bd_rounds (cv_budgets (snd s))")
  case True
  obtain x s1 where x: "reply_round env s = (x, s1)" by (cases "reply_round env s")
  have n: "next_reply env s = (case (x, s1) of
             (Inl e, s') \<Rightarrow> (Inl e, s')
           | (Inr (Some r), s') \<Rightarrow> (Inr (Some r), s')
           | (Inr None, s') \<Rightarrow> next_reply env s')"
    by (subst next_reply.simps) (simp only: x if_P [OF True])
  show thesis
  proof (cases x)
    case (Inl e)
    with n assms have "s1 = s'" "r = Inl e" by simp_all
    with True x Inl show thesis by (intro stopped [of e]) simp_all
  next
    case (Inr y)
    show thesis
    proof (cases y)
      case None
      with n assms Inr have "next_reply env s1 = (r, s')" by simp
      with True x Inr None show thesis by (intro again [of s1]) simp_all
    next
      case (Some z)
      with n assms Inr have "s1 = s'" "r = Inr (Some z)" by simp_all
      with True x Inr Some show thesis by (intro replied [of z]) simp_all
    qed
  qed
next
  case False
  have "next_reply env s = (Inr None, s)" by (subst next_reply.simps) (simp only: if_not_P [OF False])
  with assms False show thesis by (intro spent) simp_all
qed

lemma next_reply_frame:
  "next_reply env s = (r, s') \<Longrightarrow>
     held (snd s') = held (snd s) \<and> cv_round (snd s) \<le> cv_round (snd s') \<and>
     (cv_round (snd s) \<le> bd_rounds (cv_budgets (snd s)) \<longrightarrow> cv_round (snd s') \<le> bd_rounds (cv_budgets (snd s))) \<and>
     (\<forall>x. r = Inr (Some x) \<longrightarrow> cv_round (snd s) < cv_round (snd s'))"
proof (induction env s arbitrary: r s' rule: next_reply.induct)
  case (1 env s)
  have held_b: "held a = held b \<Longrightarrow> cv_budgets a = cv_budgets b" for a b by (simp add: held_def)
  from "1.prems" show ?case
  proof (cases rule: next_reply_cases)
    case (stopped e)
    then show ?thesis using reply_round_frame [of env "fst s" "snd s" "Inl e" "fst s'" "snd s'"] by auto
  next
    case (replied x)
    then show ?thesis using reply_round_frame [of env "fst s" "snd s" "Inr (Some x)" "fst s'" "snd s'"] by auto
  next
    case (again s1)
    have f: "held (snd s1) = held (snd s) \<and> cv_round (snd s1) = Suc (cv_round (snd s))"
      using again reply_round_frame [of env "fst s" "snd s" "Inr None" "fst s1" "snd s1"] by auto
    have "held (snd s') = held (snd s1) \<and> cv_round (snd s1) \<le> cv_round (snd s') \<and>
       (cv_round (snd s1) \<le> bd_rounds (cv_budgets (snd s1)) \<longrightarrow> cv_round (snd s') \<le> bd_rounds (cv_budgets (snd s1))) \<and>
       (\<forall>x. r = Inr (Some x) \<longrightarrow> cv_round (snd s1) < cv_round (snd s'))"
      by (rule "1.IH" [OF again(1) again(2) [symmetric] refl refl again(3)]) 
    with f held_b [of "snd s1" "snd s"] again(1) show ?thesis by auto
  next
    case spent
    then show ?thesis by simp
  qed
qed

section \<open>The loop of a completion\<close>

definition take_answer :: "string \<Rightarrow> guest_usage option \<Rightarrow> conversation \<Rightarrow> answer \<times> conversation" where
  "take_answer a usage c =
     (\<lparr>an_answer = a, an_usage = usage, an_transcript = Some (cv_transcript c)\<rparr>, c\<lparr>cv_transcript := []\<rparr>)"

definition say :: "string \<Rightarrow> string \<Rightarrow> conversation \<Rightarrow> conversation" where
  "say candidate user c =
     c\<lparr>cv_chat := append_message (Msg_User user) (append_message (Msg_Assistant candidate) (cv_chat c))\<rparr>"

text \<open>What \<open>run\<close> does with a reply: \<open>None\<close> is the next turn of its loop.\<close>

definition settle :: "'w conv_env \<Rightarrow> model_reply \<Rightarrow> ('w \<times> conversation, conv_error, answer option) act" where
  "settle env reply =
     (\<lambda>(w, c).
        let candidate = ce_candidate env (cv_format c) (rp_text reply);
            finished = (\<lambda>w c. case take_answer candidate (rp_usage reply) c of (a, c) \<Rightarrow> (Inr (Some a), (w, c)))
        in if \<not> cv_check c then finished w c
           else case (if cv_nudged c then None else off_shape env c candidate) of
             Some n \<Rightarrow> (Inr None, (w, say candidate (nd_prompt n) (c\<lparr>cv_nudged := True\<rparr>)))
           | None \<Rightarrow>
               (let c = c\<lparr>cv_candidates := Suc (cv_candidates c),
                          cv_completion := completion_enter (ce_now env w) Phase_Check (cv_completion c)\<rparr>
                in case tools_check (ce_tools env) candidate w of
                     (Inl e, w) \<Rightarrow> (Inl e, (w, c))
                   | (Inr (Inr _), w) \<Rightarrow> finished w c
                   | (Inr (Inl correction), w) \<Rightarrow>
                       if bd_candidates (cv_budgets c) \<le> cv_candidates c \<or> cv_round c = bd_rounds (cv_budgets c)
                       then (Inl (Budget_Exhausted correction), (w, c))
                       else (Inr None, (w, say candidate correction
                              (c\<lparr>cv_completion := completion_rejected (cv_completion c), cv_nudged := False\<rparr>)))))"

definition static :: "conversation \<Rightarrow> string \<times> chat_options \<times> format \<times> json option \<times> bool \<times> tools \<times> budgets" where
  "static c = (cv_model c, cv_options c, cv_format c, cv_validator c, cv_check c, cv_tools c, cv_budgets c)"

lemma settle_frame:
  "settle env x (w, c) = (r, (w', c')) \<Longrightarrow> static c' = static c \<and> cv_round c' = cv_round c"
  by (auto simp: settle_def take_answer_def say_def static_def Let_def
      split: if_split_asm option.splits sum.splits prod.splits)

lemma run_less:
  assumes "next_reply env s = (Inr (Some x), s1)" and "settle env x s1 = (r, s2)"
  shows "bd_rounds (cv_budgets (snd s2)) - cv_round (snd s2) < bd_rounds (cv_budgets (snd s)) - cv_round (snd s)"
proof -
  have h: "cv_budgets a = cv_budgets b" if "held a = held b" for a b using that by (simp add: held_def)
  have g: "cv_budgets (snd s2) = cv_budgets (snd s1)" "cv_round (snd s2) = cv_round (snd s1)"
    using settle_frame [of env x "fst s1" "snd s1" r "fst s2" "snd s2"] assms(2) by (simp_all add: static_def)
  have "cv_round (snd s) < bd_rounds (cv_budgets (snd s))"
    using assms(1) by (cases rule: next_reply_cases) simp_all
  moreover have "held (snd s1) = held (snd s)" "cv_round (snd s) < cv_round (snd s1)"
    using next_reply_frame [OF assms(1)] by simp_all
  ultimately show ?thesis using g h [of "snd s1" "snd s"] by simp
qed

lemma run_less_pairs:
  assumes "(Inr (Some x), a, b) = next_reply env (w, c)" and "(Inr None, a', b') = settle env x (a, b)"
  shows "bd_rounds (cv_budgets b') - cv_round b' < bd_rounds (cv_budgets c) - cv_round c"
  using run_less [OF assms(1) [symmetric] assms(2) [symmetric]] by simp

function run :: "'w conv_env \<Rightarrow> 'w \<times> conversation \<Rightarrow> (conv_error + answer) \<times> 'w \<times> conversation" where
  "run env s =
     (case next_reply env s of
        (Inl Stop_Elapsed, s') \<Rightarrow>
          (Inl (Timed_Out (bd_timeout (cv_budgets (snd s'))) (cp_phase (cv_completion (snd s')))), s')
      | (Inl (Stop_Error e), s') \<Rightarrow> (Inl e, s')
      | (Inr None, s') \<Rightarrow>
          (Inl (Budget_Exhausted (''no answer after '' @ dec_nat (bd_rounds (cv_budgets (snd s'))) @ '' model round-trips'')), s')
      | (Inr (Some x), s') \<Rightarrow>
          (case settle env x s' of
             (Inl e, s2) \<Rightarrow> (Inl e, s2)
           | (Inr (Some a), s2) \<Rightarrow> (Inr a, s2)
           | (Inr None, s2) \<Rightarrow> run env s2))"
  by auto
termination
  by (relation "measure (\<lambda>(env, s). bd_rounds (cv_budgets (snd s)) - cv_round (snd s))") (auto intro: run_less_pairs)

declare run.simps [simp del]

lemma run_unfold:
  assumes "next_reply env s = (y, s1)"
  shows "y = Inl Stop_Elapsed \<Longrightarrow> run env s = (Inl (Timed_Out (bd_timeout (cv_budgets (snd s1))) (cp_phase (cv_completion (snd s1)))), s1)"
    and "y = Inl (Stop_Error e) \<Longrightarrow> run env s = (Inl e, s1)"
    and "y = Inr None \<Longrightarrow> run env s =
      (Inl (Budget_Exhausted (''no answer after '' @ dec_nat (bd_rounds (cv_budgets (snd s1))) @ '' model round-trips'')), s1)"
    and "y = Inr (Some x) \<Longrightarrow> settle env x s1 = (Inl e', s2) \<Longrightarrow> run env s = (Inl e', s2)"
    and "y = Inr (Some x) \<Longrightarrow> settle env x s1 = (Inr (Some a), s2) \<Longrightarrow> run env s = (Inr a, s2)"
    and "y = Inr (Some x) \<Longrightarrow> settle env x s1 = (Inr None, s2) \<Longrightarrow> run env s = run env s2"
  by (subst run.simps, simp only: assms prod.case sum.case option.case stop.case)+

lemma run_cases:
  assumes "run env s = (r, s')"
  obtains (elapsed) e e' where "next_reply env s = (Inl e, s')" "r = Inl e'"
    | (spent) e where "next_reply env s = (Inr None, s')" "r = Inl (Budget_Exhausted e)"
    | (failed) x s1 e where "next_reply env s = (Inr (Some x), s1)" "settle env x s1 = (Inl e, s')" "r = Inl e"
    | (answered) x s1 a where "next_reply env s = (Inr (Some x), s1)" "settle env x s1 = (Inr (Some a), s')" "r = Inr a"
    | (again) x s1 s2 where "next_reply env s = (Inr (Some x), s1)" "settle env x s1 = (Inr None, s2)" "run env s2 = (r, s')"
proof -
  obtain y s1 where n: "next_reply env s = (y, s1)" by (cases "next_reply env s")
  consider "y = Inl Stop_Elapsed" | e where "y = Inl (Stop_Error e)" | "y = Inr None" | x where "y = Inr (Some x)"
    by (metis option.exhaust stop.exhaust sum.exhaust)
  then show thesis
  proof cases
    case 1
    with run_unfold(1) [OF n] assms n show thesis by (intro elapsed) simp_all
  next
    case 2
    with run_unfold(2) [OF n] assms n show thesis by (intro elapsed) simp_all
  next
    case 3
    with run_unfold(3) [OF n] assms n show thesis by (intro spent) simp_all
  next
    case (4 x)
    with n have x: "next_reply env s = (Inr (Some x), s1)" by simp
    obtain t s2 where t: "settle env x s1 = (t, s2)" by (cases "settle env x s1")
    consider e where "t = Inl e" | a where "t = Inr (Some a)" | "t = Inr None"
      by (metis option.exhaust sum.exhaust)
    then show thesis
    proof cases
      case 1
      with run_unfold(4) [OF x refl] t assms x show thesis by (intro failed) simp_all
    next
      case 2
      with run_unfold(5) [OF x refl] t assms x show thesis by (intro answered) simp_all
    next
      case 3
      with run_unfold(6) [OF x refl] t assms x show thesis by (intro again) simp_all
    qed
  qed
qed

section \<open>What a completion keeps\<close>

locale run_logic = round_logic env P good
  for env :: "'w conv_env" and P :: "nat \<Rightarrow> 'w \<times> conversation \<Rightarrow> bool" and good :: "chat_request \<Rightarrow> bool" +
  assumes P_round: "P k (w, c) \<Longrightarrow> P k (w, c\<lparr>cv_round := n\<rparr>)"
    and P_nudged: "P k (w, c) \<Longrightarrow> P k (w, c\<lparr>cv_nudged := b\<rparr>)"
    and P_check: "P k (w, c) \<Longrightarrow> cv_check c \<Longrightarrow>
      P k (snd (te_check (ce_tools env) candidate w), c\<lparr>cv_candidates := Suc (cv_candidates c)\<rparr>)"
    and good_said: "good chat \<Longrightarrow> good (append_messages [Msg_Assistant a, Msg_User u] chat)"
begin

lemma reply_round_keeps:
  assumes run: "reply_round env s = (r, s')" and P: "P (4 * cv_round (snd s)) s" and good: "good (cv_chat (snd s))"
  shows "P (4 * cv_round (snd s')) s'" and "r = Inr x \<Longrightarrow> good (cv_chat (snd s'))"
proof -
  have f: "cv_round (snd s') = Suc (cv_round (snd s))"
    using reply_round_frame [of env "fst s" "snd s" r "fst s'" "snd s'"] run by simp
  have "case s of (w, c) \<Rightarrow> P (4 * cv_round (snd s)) (w, c\<lparr>cv_round := Suc (cv_round c)\<rparr>) \<and> good (cv_chat c)"
    using P good by (cases s) (simp add: P_round)
  from act_specD [OF reply_round_logic this run]
  have "P (4 * cv_round (snd s) + 4) s' \<and> (\<forall>x. r = Inr x \<longrightarrow> good (cv_chat (snd s')))"
    by (cases r; cases s') simp_all
  then show "P (4 * cv_round (snd s')) s'" and "r = Inr x \<Longrightarrow> good (cv_chat (snd s'))" by (auto simp: f add.commute)
qed

lemma next_reply_keeps:
  "next_reply env s = (r, s') \<Longrightarrow> P (4 * cv_round (snd s)) s \<Longrightarrow> good (cv_chat (snd s)) \<Longrightarrow>
     P (4 * cv_round (snd s')) s' \<and> (\<forall>x. r = Inr x \<longrightarrow> good (cv_chat (snd s')))"
proof (induction "bd_rounds (cv_budgets (snd s)) - cv_round (snd s)" arbitrary: s r s' rule: less_induct)
  case less
  from less.prems(1) show ?case
  proof (cases rule: next_reply_cases)
    case (again s1)
    have good: "good (cv_chat (snd s1))" and P1: "P (4 * cv_round (snd s1)) s1"
      using reply_round_keeps [OF again(2) less.prems(2,3)] by simp_all
    show ?thesis
      by (rule less.hyps [OF reply_round_less [OF again(2,1)] again(3) P1 good])
  qed (use less.prems in \<open>auto dest: reply_round_keeps\<close>)
qed

lemma settle_keeps:
  assumes "settle env x (w, c) = (r, s')" and P: "P k (w, c)" and "good (cv_chat c)"
  shows "P k s'" and "r = Inr None \<longrightarrow> good (cv_chat (snd s'))"
proof -
  let ?candidate = "ce_candidate env (cv_format c) (rp_text x)"
  obtain z w1 where z: "te_check (ce_tools env) ?candidate w = (z, w1)" by (cases "te_check (ce_tools env) ?candidate w")
  have P1: "cv_check c \<Longrightarrow> P k (w1, c\<lparr>cv_candidates := Suc (cv_candidates c)\<rparr>)"
    using P_check [OF P, of ?candidate] z by simp
  show "P k s'"
    using assms P1 by (auto simp: settle_def take_answer_def say_def Let_def tools_check_def z
      intro!: P_transcript P_chat P_nudged P_completion
      split: if_split_asm option.splits sum.splits prod.splits)
  show "r = Inr None \<longrightarrow> good (cv_chat (snd s'))"
    using assms good_said [of "cv_chat c"]
    by (auto simp: settle_def take_answer_def say_def Let_def tools_check_def z
      split: if_split_asm option.splits sum.splits prod.splits)
qed

lemma run_keeps:
  "run env s = (r, s') \<Longrightarrow> P (4 * cv_round (snd s)) s \<Longrightarrow> good (cv_chat (snd s)) \<Longrightarrow> P (4 * cv_round (snd s')) s'"
proof (induction "bd_rounds (cv_budgets (snd s)) - cv_round (snd s)" arbitrary: s rule: less_induct)
  case less
  have settled: "P (4 * cv_round (snd s2)) s2 \<and> (q = Inr None \<longrightarrow> good (cv_chat (snd s2)))"
    if n: "next_reply env s = (Inr (Some x), s1)" and t: "settle env x s1 = (q, s2)" for x s1 q s2
  proof -
    have k: "P (4 * cv_round (snd s1)) s1" "good (cv_chat (snd s1))"
      using next_reply_keeps [OF n less.prems(2,3)] by simp_all
    have "cv_round (snd s2) = cv_round (snd s1)"
      using settle_frame [of env x "fst s1" "snd s1" q "fst s2" "snd s2"] t by simp
    moreover have "P (4 * cv_round (snd s1)) s2" "q = Inr None \<longrightarrow> good (cv_chat (snd s2))"
      using settle_keeps [of x "fst s1" "snd s1" q s2] t k by simp_all
    ultimately show ?thesis by simp
  qed
  from less.prems(1) show ?case
  proof (cases rule: run_cases)
    case (again x s1 s2)
    have k: "P (4 * cv_round (snd s2)) s2" "good (cv_chat (snd s2))" using settled [OF again(1,2)] by simp_all
    show ?thesis by (rule less.hyps [OF run_less [OF again(1,2)] again(3) k])
  qed (use less.prems settled next_reply_keeps in blast)+
qed

end

lemma held_static: "held a = held b \<Longrightarrow> static a = static b \<and> cv_candidates a = cv_candidates b"
  by (simp add: held_def static_def)

lemma static_budgets: "static a = static b \<Longrightarrow> cv_budgets a = cv_budgets b"
  by (simp add: static_def)

lemma settle_candidates:
  assumes "settle env x (w, c) = (r, (w', c'))"
  shows "cv_candidates c' \<le> Suc (cv_candidates c)"
    and "r = Inr None \<Longrightarrow> cv_candidates c < bd_candidates (cv_budgets c) \<Longrightarrow> cv_candidates c' < bd_candidates (cv_budgets c)"
  using assms by (auto simp: settle_def take_answer_def say_def Let_def split: if_split_asm option.splits sum.splits prod.splits)

text \<open>The rounds and the candidates stay within their budgets.\<close>

definition in_budget :: "budgets \<Rightarrow> conversation \<Rightarrow> bool" where
  "in_budget b c \<longleftrightarrow> cv_budgets c = b \<and> cv_round c \<le> bd_rounds b \<and> cv_candidates c \<le> bd_candidates b"

lemma next_reply_in_budget:
  assumes "next_reply env s = (r, s')" and "in_budget b (snd s)"
  shows "in_budget b (snd s')" and "cv_candidates (snd s') = cv_candidates (snd s)" and "static (snd s') = static (snd s)"
  using next_reply_frame [OF assms(1)] assms(2) held_static [of "snd s'" "snd s"] static_budgets [of "snd s'" "snd s"]
  by (auto simp: in_budget_def)

lemma settle_in_budget:
  assumes t: "settle env x s = (r, s')" and "in_budget b (snd s)" and "cv_candidates (snd s) < bd_candidates b"
  shows "in_budget b (snd s')" and "r = Inr None \<Longrightarrow> cv_candidates (snd s') < bd_candidates b" and "static (snd s') = static (snd s)"
proof -
  obtain w c w' c' where s: "s = (w, c)" "s' = (w', c')" by (cases s, cases s')
  note t' = t [unfolded s]
  show "in_budget b (snd s')" and "r = Inr None \<Longrightarrow> cv_candidates (snd s') < bd_candidates b" and "static (snd s') = static (snd s)"
    using settle_frame [OF t'] settle_candidates [OF t'] assms(2,3) static_budgets [of c' c] by (auto simp: s in_budget_def)
qed

lemma run_in_budget:
  "run env s = (r, s') \<Longrightarrow> in_budget b (snd s) \<Longrightarrow> cv_candidates (snd s) < bd_candidates b \<Longrightarrow>
     in_budget b (snd s') \<and> static (snd s') = static (snd s)"
proof (induction "bd_rounds (cv_budgets (snd s)) - cv_round (snd s)" arbitrary: s rule: less_induct)
  case less
  have settled: "in_budget b (snd s2) \<and> static (snd s2) = static (snd s) \<and> (q = Inr None \<longrightarrow> cv_candidates (snd s2) < bd_candidates b)"
    if n: "next_reply env s = (Inr (Some x), s1)" and t: "settle env x s1 = (q, s2)" for x s1 q s2
  proof -
    note k = next_reply_in_budget [OF n less.prems(2)]
    have "cv_candidates (snd s1) < bd_candidates b" using k less.prems(3) by simp
    from settle_in_budget [OF t k(1) this] k show ?thesis by simp
  qed
  from less.prems(1) show ?case
  proof (cases rule: run_cases)
    case (again x s1 s2)
    note k = settled [OF again(1,2)]
    have "in_budget b (snd s') \<and> static (snd s') = static (snd s2)"
      by (rule less.hyps [OF run_less [OF again(1,2)] again(3)]) (use k in simp_all)
    with k show ?thesis by simp
  next
    case (elapsed e e')
    show ?thesis using next_reply_in_budget [OF elapsed(1) less.prems(2)] by simp
  next
    case (spent e)
    show ?thesis using next_reply_in_budget [OF spent(1) less.prems(2)] by simp
  next
    case (failed x s1 e)
    show ?thesis using settled [OF failed(1,2)] by simp
  next
    case (answered x s1 a)
    show ?thesis using settled [OF answered(1,2)] by simp
  qed
qed

section \<open>A completion\<close>

definition complete :: "'w conv_env \<Rightarrow> 'w \<times> conversation \<Rightarrow> (conv_error + answer) \<times> 'w \<times> conversation" where
  "complete env s =
     (case run env s of (r, (w, c)) \<Rightarrow>
        (r, (w, c\<lparr>cv_completion := completion_finish (ce_now env w) r (cv_completion c)\<rparr>)))"

end
