(* ===== verification/Genai_Props.thy ===== *)
theory Genai_Props
  imports Genai_Run "HOL-Library.Code_Target_Nat"
begin

text \<open>
  What a completion does to its surroundings, whatever they answer: the calls it makes are
  written to a log beside the world, so the properties read the log of \<open>complete\<close>.
\<close>

section \<open>The log\<close>

datatype event =
    Ev_Exec string chat_request chat_options
  | Ev_Read string
  | Ev_List string
  | Ev_Call string string
  | Ev_Output string
  | Ev_Check string bool

definition with_log :: "('r \<Rightarrow> event list) \<Rightarrow> ('w \<Rightarrow> 'r \<times> 'w) \<Rightarrow> 'w \<times> event list \<Rightarrow> 'r \<times> 'w \<times> event list" where
  "with_log ev m = (\<lambda>(w, log). case m w of (r, w') \<Rightarrow> (r, (w', log @ ev r)))"

definition trace_tools :: "'w tool_env \<Rightarrow> ('w \<times> event list) tool_env" where
  "trace_tools env =
     \<lparr>te_read = (\<lambda>p. with_log (\<lambda>_. [Ev_Read p]) (te_read env p)),
      te_list = (\<lambda>p. with_log (\<lambda>_. [Ev_List p]) (te_list env p)),
      te_call = (\<lambda>n a. with_log (\<lambda>_. [Ev_Call n a]) (te_call env n a)),
      te_check = (\<lambda>s. with_log (\<lambda>r. [Ev_Check s (r = Inr (Inr ()))]) (te_check env s)),
      te_command = with_log (\<lambda>_. []) (te_command env),
      te_output = (\<lambda>s t. with_log (\<lambda>_. [Ev_Output s]) (te_output env s t)),
      te_read_args = te_read_args env, te_list_args = te_list_args env, te_shell_args = te_shell_args env,
      te_print = te_print env, te_print_list = te_print_list env, te_utf8_error = te_utf8_error env\<rparr>"

definition trace_env :: "'w conv_env \<Rightarrow> ('w \<times> event list) conv_env" where
  "trace_env env =
     \<lparr>ce_tools = trace_tools (ce_tools env),
      ce_exec = (\<lambda>m chat options. with_log (\<lambda>_. [Ev_Exec m chat options]) (ce_exec env m chat options)),
      ce_sleep = (\<lambda>d. with_log (\<lambda>_. []) (ce_sleep env d)),
      ce_now = (\<lambda>(w, _). ce_now env w), ce_hash = ce_hash env, ce_candidate = ce_candidate env,
      ce_parse = ce_parse env, ce_faults = ce_faults env\<rparr>"

fun is_exec :: "event \<Rightarrow> bool" where
  "is_exec (Ev_Exec _ _ _) = True" | "is_exec _ = False"

fun is_check :: "event \<Rightarrow> bool" where
  "is_check (Ev_Check _ _) = True" | "is_check _ = False"

definition count_of :: "(event \<Rightarrow> bool) \<Rightarrow> event list \<Rightarrow> nat" where
  "count_of p log = length (filter p log)"

lemma count_of_simps [simp]:
  "count_of p [] = 0" "count_of p (a @ b) = count_of p a + count_of p b" "count_of p (e # l) = (if p e then 1 else 0) + count_of p l"
  by (simp_all add: count_of_def)

section \<open>What every event must be\<close>

text \<open>A message of tool calls is followed by one response for each, in order.\<close>

fun answers :: "tool_call \<Rightarrow> chat_message \<Rightarrow> bool" where
  "answers call (Msg_Response i _) \<longleftrightarrow> i = tc_id call"
| "answers call _ \<longleftrightarrow> False"

function paired :: "chat_message list \<Rightarrow> bool" where
  "paired [] \<longleftrightarrow> True"
| "paired (Msg_Calls calls # ms) \<longleftrightarrow> list_all2 answers calls (take (length calls) ms) \<and> paired (drop (length calls) ms)"
| "paired (Msg_Response _ _ # ms) \<longleftrightarrow> False"
| "paired (Msg_System _ # ms) \<longleftrightarrow> paired ms"
| "paired (Msg_User _ # ms) \<longleftrightarrow> paired ms"
| "paired (Msg_Assistant _ # ms) \<longleftrightarrow> paired ms"
  by pat_completeness auto
termination by (relation "measure length") auto

lemma paired_append: "paired ms \<Longrightarrow> paired ns \<Longrightarrow> paired (ms @ ns)"
proof (induction ms rule: paired.induct)
  case (2 calls ms)
  have "length calls \<le> length ms" using "2.prems"(1) by (auto dest: list_all2_lengthD)
  with 2 show ?case by simp
qed simp_all

lemma paired_responses: "length rs = length calls \<Longrightarrow> paired (Msg_Calls calls # responses calls rs)"
  by (auto simp: responses_def list_all2_conv_all_nth)

lemma paired_guest: "paired (map message_of_role ms)"
  by (induction ms) (auto simp: message_of_role_def split: role.split)

definition chat_ok :: "chat_request \<Rightarrow> chat_request \<Rightarrow> bool" where
  "chat_ok chat0 chat \<longleftrightarrow> (\<exists>ms. chat = append_messages ms chat0 \<and> paired ms)"

fun event_ok :: "conversation \<Rightarrow> event \<Rightarrow> bool" where
  "event_ok s (Ev_Exec m chat options) \<longleftrightarrow> m = cv_model s \<and> chat_ok (cv_chat s) chat"
| "event_ok s (Ev_Read _) \<longleftrightarrow> ''read'' \<in> set (tl_declared (cv_tools s))"
| "event_ok s (Ev_List _) \<longleftrightarrow> ''list'' \<in> set (tl_declared (cv_tools s))"
| "event_ok s (Ev_Call n _) \<longleftrightarrow> n \<in> set (tl_declared (cv_tools s)) \<and> n \<notin> {''read'', ''list'', SHELL_TOOL}"
| "event_ok s (Ev_Output _) \<longleftrightarrow> tl_shell (cv_tools s) \<noteq> None"
| "event_ok s (Ev_Check _ _) \<longleftrightarrow> cv_check s"

definition trace_ok :: "conversation \<Rightarrow> nat \<Rightarrow> ('w \<times> event list) \<times> conversation \<Rightarrow> bool" where
  "trace_ok s k =
     (\<lambda>((w, log), c). static c = static s \<and> count_of is_exec log \<le> k \<and> count_of is_check log = cv_candidates c \<and>
        list_all (event_ok s) log)"

definition tool_event :: "tools \<Rightarrow> event \<Rightarrow> bool" where
  "tool_event t e \<longleftrightarrow>
     (case e of
        Ev_Read _ \<Rightarrow> ''read'' \<in> set (tl_declared t)
      | Ev_List _ \<Rightarrow> ''list'' \<in> set (tl_declared t)
      | Ev_Call n _ \<Rightarrow> n \<in> set (tl_declared t) \<and> n \<notin> {''read'', ''list'', SHELL_TOOL}
      | Ev_Output _ \<Rightarrow> tl_shell t \<noteq> None
      | _ \<Rightarrow> False)"

lemma tools_events:
  assumes "tools_call (trace_tools env) t call (w, log) = (r, (w', log'))"
  shows "\<exists>evs. log' = log @ evs \<and> list_all (tool_event t) evs"
proof -
  have call: "tools_guest (trace_tools env) call (w, log) = (r, (w', log')) \<Longrightarrow> \<exists>a. log' = log @ [Ev_Call (tc_name call) a]"
    by (auto simp: tools_guest_def trace_tools_def with_log_def env_await_def act_bind_def act_try_def
        split: prod.splits option.splits sum.splits)
  have read: "tools_read (trace_tools env) t v (w, log) = (r, (w', log')) \<Longrightarrow> log' = log \<or> (\<exists>p. log' = log @ [Ev_Read p])" for v
    by (auto simp: tools_read_def trace_tools_def with_log_def env_await_def act_bind_def
        split: prod.splits option.splits sum.splits)
  have list: "tools_list (trace_tools env) t v (w, log) = (r, (w', log')) \<Longrightarrow> log' = log \<or> (\<exists>p. log' = log @ [Ev_List p])" for v
    by (auto simp: tools_list_def trace_tools_def with_log_def env_await_def act_bind_def
        split: prod.splits option.splits sum.splits)
  have exec: "shell_exec (trace_tools env) sh s (w, log) = (q, (w', log')) \<Longrightarrow> log' = log \<or> log' = log @ [Ev_Output s]" for sh s q
    by (auto simp: shell_exec_def trace_tools_def with_log_def env_await_def act_bind_def act_try_def res_context_def
        split: prod.splits option.splits sum.splits proc_error.splits)
  have shell: "tools_shell (trace_tools env) t v (w, log) = (q, (w', log')) \<Longrightarrow>
      log' = log \<or> (\<exists>s. log' = log @ [Ev_Output s]) \<and> tl_shell t \<noteq> None" for v q
    using exec by (auto simp: tools_shell_def act_bind_def split: prod.splits option.splits sum.splits)
  consider "tc_name call = SHELL_TOOL" | "tc_name call \<noteq> SHELL_TOOL" "tc_name call \<notin> set (tl_declared t)"
    | "tc_name call = ''read''" "''read'' \<in> set (tl_declared t)"
    | "tc_name call = ''list''" "''list'' \<in> set (tl_declared t)"
    | "tc_name call \<in> set (tl_declared t)" "tc_name call \<notin> {''read'', ''list'', SHELL_TOOL}"
    by (metis insertE singletonD)
  then show ?thesis
  proof cases
    case 1
    obtain q where "tools_shell (trace_tools env) t (tc_args call) (w, log) = (q, (w', log'))"
      using assms 1 by (auto simp: tools_call_def act_bind_def split: prod.splits sum.splits)
    from shell [OF this] show ?thesis by (auto simp: tool_event_def)
  next
    case 2
    with assms show ?thesis by (simp add: tools_call_def)
  next
    case 3
    with assms read [of "tc_args call"] show ?thesis by (auto simp: tools_call_def tool_event_def SHELL_TOOL_def)
  next
    case 4
    with assms list [of "tc_args call"] show ?thesis by (auto simp: tools_call_def tool_event_def SHELL_TOOL_def)
  next
    case 5
    with assms call show ?thesis by (auto simp: tools_call_def tool_event_def)
  qed
qed

lemma tool_event_ok: "list_all (tool_event (cv_tools s)) evs \<Longrightarrow>
    list_all (event_ok s) evs \<and> count_of is_exec evs = 0 \<and> count_of is_check evs = 0"
proof (induction evs)
  case (Cons e evs)
  then show ?case by (cases e) (simp_all add: tool_event_def)
qed simp

lemma trace_ok_tools:
  assumes "trace_ok s k (w, c)"
  shows "trace_ok s k (snd (tools_call (ce_tools (trace_env env)) (cv_tools c) call w), c)"
proof -
  obtain w0 log0 where w: "w = (w0, log0)" by fastforce
  obtain r w' log' where run: "tools_call (trace_tools (ce_tools env)) (cv_tools c) call (w0, log0) = (r, (w', log'))"
    by (cases "tools_call (trace_tools (ce_tools env)) (cv_tools c) call (w0, log0)")
  obtain evs where evs: "log' = log0 @ evs" "list_all (tool_event (cv_tools c)) evs" using tools_events [OF run] by auto
  have t: "cv_tools c = cv_tools s" using assms by (auto simp: trace_ok_def w static_def)
  have k: "tools_call (ce_tools (trace_env env)) (cv_tools c) call w = (r, (w', log0 @ evs))"
    using run evs(1) by (simp add: trace_env_def w)
  show ?thesis using evs(2) tool_event_ok [of s evs] assms t unfolding k by (auto simp: trace_ok_def w)
qed

interpretation traced: run_logic "trace_env env" "trace_ok s" "chat_ok (cv_chat s)" for env :: "'w conv_env" and s
proof (unfold_locales, goal_cases)
  case (1 k w c chat options)
  then show ?case
    by (cases w) (auto simp: trace_ok_def trace_env_def with_log_def static_def split: prod.split)
next
  case (2 k w c d)
  then show ?case by (cases w) (auto simp: trace_ok_def trace_env_def with_log_def split: prod.split)
next
  case (5 k w c call)
  then show ?case by (rule trace_ok_tools)
next
  case (9 chat rs calls)
  then obtain ms where "chat = append_messages ms (cv_chat s)" "paired ms" by (auto simp: chat_ok_def)
  with 9 show ?case using paired_append [OF _ paired_responses, of ms rs calls] by (auto simp: chat_ok_def)
next
  case (12 k w c candidate)
  then show ?case
    by (cases w) (auto simp: trace_ok_def trace_env_def trace_tools_def with_log_def static_def split: prod.split)
next
  case (13 chat a u)
  then obtain ms where "chat = append_messages ms (cv_chat s)" "paired ms" by (auto simp: chat_ok_def)
  moreover have "paired [Msg_Assistant a, Msg_User u]" by simp
  ultimately show ?case using paired_append [of ms "[Msg_Assistant a, Msg_User u]"] by (auto simp: chat_ok_def)
qed (auto simp: trace_ok_def static_def)

section \<open>Properties\<close>

lemma trace_ok_start: "trace_ok (conversation_new now p t b) 0 ((w, []), conversation_new now p t b)"
  by (simp add: trace_ok_def conversation_new_def)

lemma chat_ok_start: "chat_ok chat0 chat0"
  unfolding chat_ok_def by (rule exI [of _ "[]"]) simp

lemma complete_trace:
  assumes "complete (trace_env env) ((w, []), conversation_new now p t b) = (r, ((w', log), c))"
  obtains c1 where "trace_ok (conversation_new now p t b) (4 * cv_round c1) ((w', log), c1)"
    and "run (trace_env env) ((w, []), conversation_new now p t b) = (r, ((w', log), c1))"
proof -
  obtain c1 where run: "run (trace_env env) ((w, []), conversation_new now p t b) = (r, ((w', log), c1))"
    using assms by (auto simp: complete_def split: prod.splits)
  have 0: "cv_round (conversation_new now p t b) = 0" by (simp add: conversation_new_def)
  have "trace_ok (conversation_new now p t b) (4 * cv_round (snd ((w', log), c1))) ((w', log), c1)"
    by (rule traced.run_keeps [OF run])
      (simp_all only: snd_conv 0 mult_0_right trace_ok_start chat_ok_start)
  then have "trace_ok (conversation_new now p t b) (4 * cv_round c1) ((w', log), c1)" by simp
  with run that show thesis by blast
qed

lemma in_budget_start: "in_budget b (conversation_new now p t b)"
  by (simp add: in_budget_def conversation_new_def)

text \<open>
  C21. A completion always returns, and within its budgets: the provider gets at most four
  requests a round, one and its three retries, and the guest's check sees no more candidates
  than the budget has.
\<close>

theorem completion_within_budgets:
  assumes "0 < bd_candidates b"
  shows "case complete (trace_env env) ((w, []), conversation_new now p t b) of (r, ((w', log), c)) \<Rightarrow>
    count_of is_exec log \<le> 4 * bd_rounds b \<and> count_of is_check log \<le> bd_candidates b"
proof -
  obtain r w' log c where run: "complete (trace_env env) ((w, []), conversation_new now p t b) = (r, ((w', log), c))"
    by (cases "complete (trace_env env) ((w, []), conversation_new now p t b)") auto
  obtain c1 where ok: "trace_ok (conversation_new now p t b) (4 * cv_round c1) ((w', log), c1)"
    and r: "run (trace_env env) ((w, []), conversation_new now p t b) = (r, ((w', log), c1))"
    using complete_trace [OF run] by metis
  have "cv_candidates (conversation_new now p t b) < bd_candidates b" using assms by (simp add: conversation_new_def)
  with run_in_budget [OF r] in_budget_start have "in_budget b c1" by simp
  with ok show ?thesis unfolding run by (auto simp: trace_ok_def in_budget_def)
qed

lemma declared_functions:
  assumes "translate renv req model0 mt acc = Inr p"
  shows "n \<in> set (declared p) \<Longrightarrow> n \<notin> {''read'', ''list'', SHELL_TOOL} \<Longrightarrow> \<exists>f. Tool_Function f \<in> set (gr_tools req) \<and> fn_name f = n"
    and "pr_check p = gr_check req" and "paired (cr_messages (pr_chat p))"
    and "cr_messages (pr_chat p) = map message_of_role (gr_messages req)"
proof -
  obtain cs where cs: "res_traverse (declared_tool renv) (gr_tools req) = Inr cs"
    and t: "cr_tools (pr_chat p) = (if cs @ workspace_tools renv acc = [] then None else Some (cs @ workspace_tools renv acc))"
    and m: "cr_messages (pr_chat p) = map message_of_role (gr_messages req)" and "pr_check p = gr_check req"
    using assms
    by (auto simp: translate_def chat_request_of_def res_bind_def res_map_def Let_def split: sum.splits prod.splits)
  then show "pr_check p = gr_check req" and "paired (cr_messages (pr_chat p))"
    and "cr_messages (pr_chat p) = map message_of_role (gr_messages req)" by (simp_all add: paired_guest)
  assume n: "n \<in> set (declared p)" "n \<notin> {''read'', ''list'', SHELL_TOOL}"
  then have "n \<in> ch_name ` set cs"
    using t by (auto simp: declared_def workspace_tools_def split: if_split_asm)
  then obtain x where x: "x \<in> set cs" "ch_name x = n" by auto
  obtain i where i: "i < length cs" "x = cs ! i" using x(1) by (auto simp: in_set_conv_nth)
  have "gr_tools req ! i \<in> set (gr_tools req)" "declared_tool renv (gr_tools req ! i) = Inr x"
    using cs i by (simp_all add: res_traverse_Inr_iff list_all2_conv_all_nth)
  then obtain y where "y \<in> set (gr_tools req)" "declared_tool renv y = Inr x" by blast
  with declared_tool_name [of renv y x] x show "\<exists>f. Tool_Function f \<in> set (gr_tools req) \<and> fn_name f = n" by auto
qed

text \<open>
  C22. Whatever the provider answers, every request it gets is the guest's own conversation
  continued, each message of tool calls followed by one response for each call in its order;
  and a tool call reaches the guest only by the name of a function the guest declared.
\<close>

theorem completion_history_paired:
  assumes "translate renv req model0 mt acc = Inr p" and "tl_declared t = declared p"
  shows "case complete (trace_env env) ((w, []), conversation_new now p t b) of (r, ((w', log), c)) \<Rightarrow>
    list_all (\<lambda>e. case e of
        Ev_Exec m chat options \<Rightarrow> m = pr_model p \<and> paired (cr_messages chat) \<and> cr_tools chat = cr_tools (pr_chat p) \<and>
          (\<exists>ms. cr_messages chat = map message_of_role (gr_messages req) @ ms)
      | Ev_Call n args \<Rightarrow> \<exists>f. Tool_Function f \<in> set (gr_tools req) \<and> fn_name f = n
      | Ev_Output command \<Rightarrow> tl_shell t \<noteq> None
      | Ev_Check candidate accepted \<Rightarrow> gr_check req
      | _ \<Rightarrow> True) log"
proof -
  obtain r w' log c where run: "complete (trace_env env) ((w, []), conversation_new now p t b) = (r, ((w', log), c))"
    by (cases "complete (trace_env env) ((w, []), conversation_new now p t b)") auto
  obtain c1 where ok: "trace_ok (conversation_new now p t b) (4 * cv_round c1) ((w', log), c1)"
    using complete_trace [OF run] by metis
  have "list_all (event_ok (conversation_new now p t b)) log" using ok by (simp add: trace_ok_def)
  moreover have "case e of
        Ev_Exec m chat options \<Rightarrow> m = pr_model p \<and> paired (cr_messages chat) \<and> cr_tools chat = cr_tools (pr_chat p) \<and>
          (\<exists>ms. cr_messages chat = map message_of_role (gr_messages req) @ ms)
      | Ev_Call n args \<Rightarrow> \<exists>f. Tool_Function f \<in> set (gr_tools req) \<and> fn_name f = n
      | Ev_Output command \<Rightarrow> tl_shell t \<noteq> None
      | Ev_Check candidate accepted \<Rightarrow> gr_check req
      | _ \<Rightarrow> True" if e: "event_ok (conversation_new now p t b) e" for e
  proof (cases e)
    case (Ev_Exec m chat options)
    with e obtain ms where "m = pr_model p" "chat = append_messages ms (pr_chat p)" "paired ms"
      by (auto simp: chat_ok_def conversation_new_def)
    with Ev_Exec declared_functions(3,4) [OF assms(1)] show ?thesis by (simp add: paired_append)
  next
    case (Ev_Call n args)
    with e assms(2) have "n \<in> set (declared p)" "n \<notin> {''read'', ''list'', SHELL_TOOL}" by (simp_all add: conversation_new_def)
    with Ev_Call declared_functions(1) [OF assms(1)] show ?thesis by simp
  qed (use e declared_functions(2) [OF assms(1)] in \<open>simp_all add: conversation_new_def\<close>)
  ultimately show ?thesis unfolding run by (simp add: list_all_iff)
qed

lemma checked_run:
  "run (trace_env env) s = (Inr a, s') \<Longrightarrow> cv_check (snd s) \<Longrightarrow> \<exists>l. snd (fst s') = l @ [Ev_Check (an_answer a) True]"
proof (induction "bd_rounds (cv_budgets (snd s)) - cv_round (snd s)" arbitrary: s rule: less_induct)
  case less
  have next_check: "cv_check (snd s1)" if "next_reply (trace_env env) s = (q, s1)" for q s1
    using next_reply_frame [OF that] less.prems(2) by (simp add: held_def)
  from less.prems(1) show ?case
  proof (cases rule: run_cases)
    case (answered x s1 a')
    obtain w log c where s1: "s1 = ((w, log), c)" by (cases s1) auto
    from answered(2,3) next_check [OF answered(1)] show ?thesis
      by (auto simp: s1 settle_def tools_check_def trace_env_def trace_tools_def with_log_def take_answer_def Let_def
          split: if_split_asm option.splits sum.splits prod.splits)
  next
    case (again x s1 s2)
    have "cv_check (snd s2)"
      using next_check [OF again(1)] settle_frame [of "trace_env env" x "fst s1" "snd s1" "Inr None" "fst s2" "snd s2"] again(2)
      by (simp add: static_def)
    with less.hyps [OF run_less [OF again(1,2)] again(3)] show ?thesis by simp
  qed simp_all
qed

text \<open>
  An answer to a request with a check is one the guest's check accepted, and nothing
  happened after it did: the last event is that acceptance.
\<close>

theorem checked_answer_accepted:
  assumes "pr_check p"
  shows "case complete (trace_env env) ((w, []), conversation_new now p t b) of
      (Inr a, ((w', log), c)) \<Rightarrow> \<exists>l. log = l @ [Ev_Check (an_answer a) True]
    | (Inl e, _) \<Rightarrow> True"
proof -
  obtain r w' log c where run: "complete (trace_env env) ((w, []), conversation_new now p t b) = (r, ((w', log), c))"
    by (cases "complete (trace_env env) ((w, []), conversation_new now p t b)") auto
  show ?thesis
  proof (cases r)
    case (Inr a)
    obtain c1 where "run (trace_env env) ((w, []), conversation_new now p t b) = (Inr a, ((w', log), c1))"
      using complete_trace [OF run] Inr by metis
    from checked_run [OF this] assms have "\<exists>l. log = l @ [Ev_Check (an_answer a) True]" by (simp add: conversation_new_def)
    with Inr show ?thesis unfolding run by simp
  qed (simp add: run)
qed

section \<open>A completion on given answers\<close>

text \<open>
  A provider that calls the guest's function \<open>look\<close>, then answers twice; a guest whose check
  turns the first answer away. The world is what is left of both.
\<close>

definition demo_usage :: chat_usage where
  "demo_usage = \<lparr>cu_prompt = Some 7, cu_completion = Some 5, cu_total = None, cu_prompt_details = None, cu_reasoning_details = None\<rparr>"

definition demo_call :: tool_call where
  "demo_call = \<lparr>tc_id = ''c1'', tc_name = ''look'', tc_args = JObj []\<rparr>"

definition demo_env :: "(chat_response list \<times> bool list) conv_env" where
  "demo_env =
     \<lparr>ce_tools =
        \<lparr>te_read = (\<lambda>_ w. (Some (Inl ''none''), w)), te_list = (\<lambda>_ w. (Some (Inl ''none''), w)),
         te_call = (\<lambda>_ _ w. (Some (Inr (Inr ''seen'')), w)),
         te_check = (\<lambda>_ (rs, bs). (Inr (if hd bs then Inr () else Inl ''again''), (rs, tl bs))),
         te_command = (\<lambda>w. (Inr (), w)), te_output = (\<lambda>_ _ w. (None, w)),
         te_read_args = (\<lambda>_. Inl ''no''), te_list_args = (\<lambda>_. Inl ''no''), te_shell_args = (\<lambda>_. Inl ''no''),
         te_print = (\<lambda>_. ''{}''), te_print_list = (\<lambda>_. Inl ''no''), te_utf8_error = (\<lambda>_. [])\<rparr>,
      ce_exec = (\<lambda>_ _ _ (rs, bs). case rs of [] \<Rightarrow> (Some (Inl Genai_Other), (rs, bs)) | r # rs \<Rightarrow> (Some (Inr r), (rs, bs))),
      ce_sleep = (\<lambda>_ w. (Some (), w)), ce_now = (\<lambda>_. 0), ce_hash = (\<lambda>n _. length n), ce_candidate = (\<lambda>_ s. s),
      ce_parse = (\<lambda>_. Inl ''no''), ce_faults = (\<lambda>_ _. [])\<rparr>"

definition demo_world :: "chat_response list \<times> bool list" where
  "demo_world =
     ([\<lparr>rs_text = None, rs_calls = [demo_call], rs_usage = demo_usage, rs_max_tokens = False\<rparr>,
       \<lparr>rs_text = Some ''first'', rs_calls = [], rs_usage = demo_usage, rs_max_tokens = False\<rparr>,
       \<lparr>rs_text = Some ''second'', rs_calls = [], rs_usage = demo_usage, rs_max_tokens = False\<rparr>], [False, True])"

definition demo_request :: guest_request where
  "demo_request =
     \<lparr>gr_model = None, gr_system = None, gr_messages = [\<lparr>gm_role = Role_User, gm_content = ''hi''\<rparr>],
      gr_tools = [Tool_Function \<lparr>fn_name = ''look'', fn_description = [], fn_parameters = ''{}''\<rparr>],
      gr_format = Format_Text, gr_check = True, gr_generation = None\<rparr>"

definition demo_request_env :: request_env where
  "demo_request_env =
     \<lparr>re_parse = (\<lambda>_. Inr (JObj [])), re_validator = (\<lambda>_. Inr ()), re_widen = (\<lambda>_. 0), re_read_schema = JNull,
      re_list_schema = JNull, re_shell_schema = JNull, re_descriptions = (\<lambda>_. [])\<rparr>"

definition demo_prepared :: prepared where
  "demo_prepared = (case translate demo_request_env demo_request ''m'' 100 Private of Inr p \<Rightarrow> p | Inl _ \<Rightarrow> undefined)"

definition demo_tools :: tools where
  "demo_tools = \<lparr>tl_shell = None, tl_declared = [''look''], tl_cap = 100\<rparr>"

definition demo_budgets :: budgets where
  "demo_budgets = \<lparr>bd_rounds = 5, bd_candidates = 2, bd_repeats = 3, bd_timeout = 600\<rparr>"

lemma demo_run:
  "(case complete (trace_env demo_env) ((demo_world, []), conversation_new 0 demo_prepared demo_tools demo_budgets) of
      (r, ((w, log), c)) \<Rightarrow> map_option an_answer (case r of Inr a \<Rightarrow> Some a | Inl _ \<Rightarrow> None) = Some ''second'' \<and>
        count_of is_exec log = 3 \<and> count_of is_check log = 2 \<and> cv_round c = 3)"
  by code_simp

lemma completion_within_budgets_witness:
  "0 < bd_candidates demo_budgets \<and>
   (case complete (trace_env demo_env) ((demo_world, []), conversation_new 0 demo_prepared demo_tools demo_budgets) of (r, ((w', log), c)) \<Rightarrow>
      count_of is_exec log \<le> 4 * bd_rounds demo_budgets \<and> count_of is_check log \<le> bd_candidates demo_budgets)"
proof -
  have "0 < bd_candidates demo_budgets" by (simp add: demo_budgets_def)
  with completion_within_budgets [OF this, of demo_env demo_world 0 demo_prepared demo_tools] show ?thesis by simp
qed

lemma completion_history_paired_witness:
  "translate demo_request_env demo_request ''m'' 100 Private = Inr demo_prepared \<and> tl_declared demo_tools = declared demo_prepared \<and>
   (case complete (trace_env demo_env) ((demo_world, []), conversation_new 0 demo_prepared demo_tools demo_budgets) of (r, ((w', log), c)) \<Rightarrow>
    list_all (\<lambda>e. case e of
        Ev_Exec m chat options \<Rightarrow> m = pr_model demo_prepared \<and> paired (cr_messages chat) \<and> cr_tools chat = cr_tools (pr_chat demo_prepared) \<and>
          (\<exists>ms. cr_messages chat = map message_of_role (gr_messages demo_request) @ ms)
      | Ev_Call n args \<Rightarrow> \<exists>f. Tool_Function f \<in> set (gr_tools demo_request) \<and> fn_name f = n
      | Ev_Output command \<Rightarrow> tl_shell demo_tools \<noteq> None
      | Ev_Check candidate accepted \<Rightarrow> gr_check demo_request
      | _ \<Rightarrow> True) log)"
proof -
  have 1: "translate demo_request_env demo_request ''m'' 100 Private = Inr demo_prepared" by code_simp
  have 2: "tl_declared demo_tools = declared demo_prepared" by code_simp
  show ?thesis by (intro conjI 1 2 completion_history_paired [OF 1 2])
qed

lemma checked_answer_accepted_witness:
  "pr_check demo_prepared \<and>
   (case complete (trace_env demo_env) ((demo_world, []), conversation_new 0 demo_prepared demo_tools demo_budgets) of
      (Inr a, ((w', log), c)) \<Rightarrow> \<exists>l. log = l @ [Ev_Check (an_answer a) True]
    | (Inl e, _) \<Rightarrow> True)"
proof -
  have 1: "pr_check demo_prepared" by code_simp
  show ?thesis by (intro conjI 1 checked_answer_accepted [OF 1])
qed

end
