(* ===== verification/Genai_Client.thy ===== *)
theory Genai_Client
  imports Genai_Run
begin

text \<open>
  Connecting and opening a completion (\<open>src/crates/genai/src/lib.rs\<close>, \<open>model.rs\<close>): the budgets
  a client accepts, the endpoint it is given, and the steps from a request to its conversation.
  The sandbox crate's two operations, with the world they act on, are the fields of \<open>sandbox\<close>;
  the HTTP client's builder is a parameter.
\<close>

section \<open>Connecting\<close>

record connect_options =
  op_model :: string
  op_endpoint :: "string option"
  op_shell_roots :: "string list"
  op_max_rounds :: nat
  op_max_tool_calls :: nat
  op_max_candidates :: nat
  op_max_repeats :: nat
  op_max_tokens :: nat
  op_timeout_secs :: nat
  op_shell_timeout_secs :: nat

definition default_options :: connect_options where
  "default_options =
     \<lparr>op_model = ''gpt-5.5'', op_endpoint = None, op_shell_roots = [], op_max_rounds = 128, op_max_tool_calls = 128,
      op_max_candidates = 2, op_max_repeats = 5, op_max_tokens = 32768, op_timeout_secs = 600, op_shell_timeout_secs = 600\<rparr>"

record 'w sandbox =
  sb_access :: "string option \<Rightarrow> 'w \<Rightarrow> (conv_error + access) \<times> 'w"
  sb_prepare :: "string option \<Rightarrow> string list \<times> string list \<times> (string \<times> string) list \<Rightarrow> 'w \<Rightarrow> (conv_error + string) \<times> 'w"

record 'w genai_client =
  gc_model :: string
  gc_base :: "string option"
  gc_sandbox :: "'w sandbox option"
  gc_budgets :: budgets
  gc_max_tool_calls :: nat
  gc_max_tokens :: nat
  gc_shell_timeout :: nat

definition NANOS :: nat where "NANOS = 1000000000"

definition ensure :: "bool \<Rightarrow> string \<Rightarrow> conv_error + unit" where
  "ensure b e = (if b then Inr () else Inl (Failed e))"

definition ensure_positive :: "nat \<Rightarrow> string \<Rightarrow> conv_error + unit" where
  "ensure_positive n name = ensure (0 < n) (name @ '' must be greater than 0'')"

text \<open>The URL of a gateway always ends in a slash, so that joining keeps its last segment.\<close>

definition build_client :: "connect_options \<Rightarrow> (conv_error + unit) \<Rightarrow> conv_error + string option" where
  "build_client opts built =
     res_bind built (\<lambda>_.
     case op_endpoint opts of
       None \<Rightarrow> Inr None
     | Some endpoint \<Rightarrow>
         res_map (\<lambda>_. Some (if ends_with endpoint ''/'' then endpoint else endpoint @ ''/''))
           (ensure (starts_with endpoint ''http://'' \<or> starts_with endpoint ''https://'')
             (''endpoint must be an http(s) URL, got '' @ ticks endpoint)))"

definition genai_connect ::
  "connect_options \<Rightarrow> (conv_error + unit) \<Rightarrow> (string list \<Rightarrow> conv_error + 'w sandbox) \<Rightarrow> conv_error + 'w genai_client" where
  "genai_connect opts built connect_sandbox =
     res_bind (ensure_positive (op_max_rounds opts) ''max_rounds'') (\<lambda>_.
     res_bind (ensure_positive (op_max_tool_calls opts) ''max_tool_calls'') (\<lambda>_.
     res_bind (ensure_positive (op_max_candidates opts) ''max_candidates'') (\<lambda>_.
     res_bind (ensure_positive (op_max_repeats opts) ''max_repeats'') (\<lambda>_.
     res_bind (ensure_positive (op_max_tokens opts) ''max_tokens'') (\<lambda>_.
     res_bind (ensure_positive (op_timeout_secs opts) ''timeout_secs'') (\<lambda>_.
     res_bind (ensure_positive (op_shell_timeout_secs opts) ''shell_timeout_secs'') (\<lambda>_.
     res_bind (build_client opts built) (\<lambda>base.
     res_map (\<lambda>sandbox.
         \<lparr>gc_model = op_model opts, gc_base = base, gc_sandbox = sandbox,
          gc_budgets = \<lparr>bd_rounds = op_max_rounds opts, bd_candidates = op_max_candidates opts,
                        bd_repeats = op_max_repeats opts, bd_timeout = op_timeout_secs opts * NANOS\<rparr>,
          gc_max_tool_calls = op_max_tool_calls opts, gc_max_tokens = op_max_tokens opts,
          gc_shell_timeout = op_shell_timeout_secs opts * NANOS\<rparr>)
       (if op_shell_roots opts = [] then Inr None
        else res_map Some (connect_sandbox (op_shell_roots opts)))))))))))"

text \<open>\<open>split_paths\<close> on \<open>:\<close>, the empty ones dropped.\<close>

definition shell_paths :: "string \<Rightarrow> string list" where
  "shell_paths s = filter (\<lambda>p. p \<noteq> []) (str_split (CHR '':'') s)"

section \<open>Opening a completion\<close>

record worker =
  wk_egress :: "string list"
  wk_read :: "string list"
  wk_env :: "(string \<times> string) list"

definition client_access :: "'w genai_client \<Rightarrow> string option \<Rightarrow> ('w, conv_error, access) act" where
  "client_access client workspace =
     (case gc_sandbox client of
        Some sandbox \<Rightarrow> sb_access sandbox workspace
      | None \<Rightarrow> act_return (if workspace \<noteq> None then Read_Only else Private))"

text \<open>A grant the sandbox denies is the guest's fault.\<close>

definition refusal :: "conv_error \<Rightarrow> conv_error" where
  "refusal e = (case e of Grant_Denied denied \<Rightarrow> Invalid_Request (''worker grant: '' @ denied) | _ \<Rightarrow> e)"

definition client_shell ::
  "'w genai_client \<Rightarrow> worker option \<Rightarrow> access \<Rightarrow> string option \<Rightarrow> ('w, conv_error, shell option) act" where
  "client_shell client worker a workspace =
     (case (gc_sandbox client, a) of
        (Some sandbox, Shell_Access) \<Rightarrow>
          (let grant = (case worker of None \<Rightarrow> ([], [], []) | Some k \<Rightarrow> (wk_egress k, wk_read k, wk_env k))
           in (\<lambda>w. case sb_prepare sandbox workspace grant w of
                (Inl e, w') \<Rightarrow> (Inl (refusal e), w')
              | (Inr cwd, w') \<Rightarrow> (Inr (Some \<lparr>sh_cwd = cwd, sh_timeout = gc_shell_timeout client\<rparr>), w')))
      | _ \<Rightarrow>
          if worker = None then act_return None
          else act_fail (Invalid_Request
            (if \<not> is_lent a then ''worker grant needs a workspace''
             else if gc_sandbox client = None then ''worker grant needs a shell: no shell root is configured''
             else ''worker grant needs a shell: the workspace is not under a shell root'')))"

definition stage ::
  "request_env \<Rightarrow> nat \<Rightarrow> nat \<Rightarrow> 'w genai_client \<Rightarrow> guest_request \<Rightarrow> worker option \<Rightarrow> string option \<Rightarrow> ('w, conv_error, conversation) act" where
  "stage renv max_result_bytes now client request worker workspace =
     act_bind (client_access client workspace) (\<lambda>a.
     act_bind (act_result (translate renv request (gc_model client) (gc_max_tokens client) a)) (\<lambda>prepared.
     act_bind (client_shell client worker a workspace) (\<lambda>shell.
     act_return (conversation_new now prepared
       \<lparr>tl_shell = shell, tl_declared = declared prepared, tl_cap = max_result_bytes\<rparr> (gc_budgets client)))))"

section \<open>What a staged completion is\<close>

text \<open>A request that does not translate is refused before a session is prepared.\<close>

lemma stage_refuses_first:
  assumes "client_access client workspace w = (Inr a, w')" and "translate renv r (gc_model client) (gc_max_tokens client) a = Inl e"
  shows "stage renv cap now client r worker workspace w = (Inl e, w')"
  using assms by (simp add: stage_def act_bind_def)

lemma connected_budgets:
  assumes "genai_connect opts built cs = Inr client"
  shows "0 < bd_rounds (gc_budgets client) \<and> 0 < bd_candidates (gc_budgets client) \<and> 0 < bd_repeats (gc_budgets client) \<and>
    0 < bd_timeout (gc_budgets client)"
  using assms by (auto simp: genai_connect_def res_bind_Inr_iff res_map_Inr_iff ensure_positive_def ensure_def NANOS_def split: if_split_asm)

lemma connected_base:
  assumes "genai_connect opts built cs = Inr client" and "gc_base client = Some base"
  shows "ends_with base ''/'' \<and> (starts_with base ''http://'' \<or> starts_with base ''https://'')"
proof -
  have "build_client opts built = Inr (Some base)"
    using assms by (auto simp: genai_connect_def res_bind_Inr_iff res_map_Inr_iff)
  then have "\<exists>e. base = (if ends_with e ''/'' then e else e @ ''/'') \<and> (starts_with e ''http://'' \<or> starts_with e ''https://'')"
    by (cases "op_endpoint opts") (auto simp: build_client_def res_bind_Inr_iff res_map_Inr_iff ensure_def split: if_split_asm)
  then obtain e where e: "base = (if ends_with e ''/'' then e else e @ ''/'')"
    and h: "starts_with e ''http://'' \<or> starts_with e ''https://''" by blast
  have "ends_with base ''/''" by (auto simp: e ends_with_iff)
  moreover have "starts_with e p \<Longrightarrow> starts_with base p" for p
    by (auto simp: e starts_with_iff)
  ultimately show ?thesis using h by blast
qed

text \<open>The shell a conversation runs commands in is there exactly when the model is told of one.\<close>

lemma staged_shell:
  assumes "stage renv cap now client r worker workspace w = (Inr c, w')"
  shows "tl_shell (cv_tools c) \<noteq> None \<longleftrightarrow> SHELL_TOOL \<in> set (tl_declared (cv_tools c)) \<and> gc_sandbox client \<noteq> None"
proof -
  obtain a p sh w1 where p: "translate renv r (gc_model client) (gc_max_tokens client) a = Inr p"
    and sh: "client_shell client worker a workspace w1 = (Inr sh, w')"
    and c: "c = conversation_new now p \<lparr>tl_shell = sh, tl_declared = declared p, tl_cap = cap\<rparr> (gc_budgets client)"
    using assms by (auto simp: stage_def act_bind_Inr)
  have "sh \<noteq> None \<longleftrightarrow> a = Shell_Access \<and> gc_sandbox client \<noteq> None"
    using sh by (auto simp: client_shell_def Let_def split: option.splits access.splits if_split_asm prod.splits sum.splits)
  with c shell_declared_iff [OF p] show ?thesis by (simp add: conversation_new_def)
qed

end
