(* ===== verification/Sandbox_Proxy.thy ===== *)
theory Sandbox_Proxy
  imports Rust_Text Rust_Effect
begin

text \<open>
  The egress proxy (\<open>src/crates/sandbox/src/proxy.rs\<close>): the grant's allowlist, the classes of
  addresses no listed host may lead to, and the handling of one \<open>CONNECT\<close>. Addresses are words,
  read from text as the standard library reads them. The resolver, the host's interfaces and the
  sockets are the fields of \<open>proxy_env\<close>; hyper's reading of the request is its argument.
\<close>

section \<open>Addresses\<close>

datatype ip = V4 "32 word" | V6 "128 word"

definition v4_octet :: "nat \<Rightarrow> 32 word \<Rightarrow> nat" where
  "v4_octet i a = unat a div 256 ^ (3 - i) mod 256"

definition v6_segment :: "nat \<Rightarrow> 128 word \<Rightarrow> nat" where
  "v6_segment i a = unat a div 65536 ^ (7 - i) mod 65536"

definition v4_of :: "nat \<Rightarrow> nat \<Rightarrow> nat \<Rightarrow> nat \<Rightarrow> 32 word" where
  "v4_of a b c d = word_of_nat (((a * 256 + b) * 256 + c) * 256 + d)"

definition v6_of :: "nat list \<Rightarrow> 128 word" where
  "v6_of segments = word_of_nat (foldl (\<lambda>n s. n * 65536 + s) 0 segments)"

text \<open>The predicates of \<open>std::net\<close> the code uses.\<close>

definition v4_unspecified :: "32 word \<Rightarrow> bool" where "v4_unspecified a \<longleftrightarrow> a = 0"
definition v4_loopback :: "32 word \<Rightarrow> bool" where "v4_loopback a \<longleftrightarrow> v4_octet 0 a = 127"
definition v4_broadcast :: "32 word \<Rightarrow> bool" where "v4_broadcast a \<longleftrightarrow> a = v4_of 255 255 255 255"
definition v4_link_local :: "32 word \<Rightarrow> bool" where "v4_link_local a \<longleftrightarrow> v4_octet 0 a = 169 \<and> v4_octet 1 a = 254"
definition v4_multicast :: "32 word \<Rightarrow> bool" where "v4_multicast a \<longleftrightarrow> 224 \<le> v4_octet 0 a \<and> v4_octet 0 a \<le> 239"

definition v6_unspecified :: "128 word \<Rightarrow> bool" where "v6_unspecified a \<longleftrightarrow> a = 0"
definition v6_loopback :: "128 word \<Rightarrow> bool" where "v6_loopback a \<longleftrightarrow> a = 1"
definition v6_link_local :: "128 word \<Rightarrow> bool" where "v6_link_local a \<longleftrightarrow> v6_segment 0 a div 64 = 0xfe80 div 64"
definition v6_multicast :: "128 word \<Rightarrow> bool" where "v6_multicast a \<longleftrightarrow> v6_segment 0 a div 256 = 255"

text \<open>\<open>to_ipv4\<close>: mapped as \<open>::ffff:a.b.c.d\<close>, or compatible as \<open>::a.b.c.d\<close>.\<close>

definition v6_to_v4 :: "128 word \<Rightarrow> 32 word option" where
  "v6_to_v4 a =
     (if list_all (\<lambda>i. v6_segment i a = 0) [0..<5] \<and> (v6_segment 5 a = 0 \<or> v6_segment 5 a = 65535)
      then Some (word_of_nat (v6_segment 6 a * 65536 + v6_segment 7 a)) else None)"

section \<open>Reading an address\<close>

definition hex_val :: "char \<Rightarrow> nat option" where
  "hex_val c =
     (let n = of_char c :: nat in
      if 48 \<le> n \<and> n \<le> 57 then Some (n - 48)
      else if 97 \<le> n \<and> n \<le> 102 then Some (n - 87)
      else if 65 \<le> n \<and> n \<le> 70 then Some (n - 55) else None)"

definition radix_digit :: "nat \<Rightarrow> char \<Rightarrow> nat option" where
  "radix_digit radix c = (case hex_val c of None \<Rightarrow> None | Some d \<Rightarrow> if d < radix then Some d else None)"

text \<open>\<open>read_number\<close>: at most \<open>digits\<close> digits and below \<open>limit\<close>; more of either is no number.\<close>

fun digits_of :: "nat \<Rightarrow> string \<Rightarrow> nat list \<times> string" where
  "digits_of radix [] = ([], [])"
| "digits_of radix (c # s) =
     (case radix_digit radix c of
        None \<Rightarrow> ([], c # s)
      | Some d \<Rightarrow> (case digits_of radix s of (ds, r) \<Rightarrow> (d # ds, r)))"

definition read_number :: "nat \<Rightarrow> nat \<Rightarrow> nat \<Rightarrow> bool \<Rightarrow> string \<Rightarrow> (nat \<times> string) option" where
  "read_number radix digits limit zero_prefix s =
     (case digits_of radix s of (ds, r) \<Rightarrow>
        let n = foldl (\<lambda>n d. n * radix + d) 0 ds in
        if ds = [] \<or> digits < length ds \<or> limit \<le> n \<or> \<not> zero_prefix \<and> hd ds = 0 \<and> 1 < length ds then None else Some (n, r))"

definition read_char :: "char \<Rightarrow> string \<Rightarrow> string option" where
  "read_char c s = (case s of [] \<Rightarrow> None | d # r \<Rightarrow> if d = c then Some r else None)"

definition read_octet :: "string \<Rightarrow> (nat \<times> string) option" where
  "read_octet s = read_number 10 3 256 False s"

definition read_dot_octet :: "string \<Rightarrow> (nat \<times> string) option" where
  "read_dot_octet s = Option.bind (read_char (CHR ''.'') s) read_octet"

definition read_ipv4 :: "string \<Rightarrow> (32 word \<times> string) option" where
  "read_ipv4 s =
     Option.bind (read_octet s) (\<lambda>(a, s).
     Option.bind (read_dot_octet s) (\<lambda>(b, s).
     Option.bind (read_dot_octet s) (\<lambda>(c, s).
     Option.bind (read_dot_octet s) (\<lambda>(d, s). Some (v4_of a b c d, s)))))"

text \<open>
  \<open>read_groups\<close>: up to \<open>n\<close> groups, the last two of them possibly an IPv4 address, which ends
  them. The flag tells whether they end in one.
\<close>

fun read_groups :: "nat \<Rightarrow> bool \<Rightarrow> string \<Rightarrow> nat list \<times> bool \<times> string" where
  "read_groups 0 first s = ([], False, s)"
| "read_groups (Suc n) first s =
     (let rest = (if first then Some s else read_char (CHR '':'') s) in
      case (if n = 0 then None else Option.bind rest read_ipv4) of
        Some (a, r) \<Rightarrow> ([unat a div 65536, unat a mod 65536], True, r)
      | None \<Rightarrow>
          (case Option.bind rest (read_number 16 4 65536 True) of
             Some (g, r) \<Rightarrow> (case read_groups n False r of (gs, v4, r) \<Rightarrow> (g # gs, v4, r))
           | None \<Rightarrow> ([], False, s)))"

definition read_ipv6 :: "string \<Rightarrow> (128 word \<times> string) option" where
  "read_ipv6 s =
     (case read_groups 8 True s of (head, v4, r) \<Rightarrow>
        if length head = 8 then Some (v6_of head, r)
        else if v4 then None
        else Option.bind (read_char (CHR '':'') r) (\<lambda>r.
          Option.bind (read_char (CHR '':'') r) (\<lambda>r.
          (case read_groups (8 - (length head + 1)) True r of (tail, _, r) \<Rightarrow>
             Some (v6_of (head @ replicate (8 - length head - length tail) 0 @ tail), r)))))"

definition parse_ip :: "string \<Rightarrow> ip option" where
  "parse_ip s =
     (case read_ipv4 s of
        Some (a, r) \<Rightarrow> if r = [] then Some (V4 a) else None
      | None \<Rightarrow>
          (case read_ipv6 s of
             Some (a, r) \<Rightarrow> if r = [] then Some (V6 a) else None
           | None \<Rightarrow> None))"

section \<open>The denied addresses\<close>

datatype denied_address = Unspecified | Loopback | Link_Local | Multicast | Broadcast | Metadata | Own

definition METADATA :: "ip list" where
  "METADATA = [V6 (v6_of [0xfd00, 0xec2, 0, 0, 0, 0, 0, 0x254]), V4 (v4_of 100 100 100 200)]"

definition denied_v4 :: "32 word \<Rightarrow> denied_address option" where
  "denied_v4 a =
     (if v4_unspecified a then Some Unspecified
      else if v4_loopback a then Some Loopback
      else if v4_broadcast a then Some Broadcast
      else if a = v4_of 169 254 169 254 \<or> V4 a \<in> set METADATA then Some Metadata
      else if v4_link_local a then Some Link_Local
      else if v4_multicast a then Some Multicast
      else None)"

definition denied_v6 :: "128 word \<Rightarrow> denied_address option" where
  "denied_v6 a =
     (if v6_unspecified a then Some Unspecified
      else if v6_loopback a then Some Loopback
      else if V6 a \<in> set METADATA then Some Metadata
      else if v6_link_local a then Some Link_Local
      else if v6_multicast a then Some Multicast
      else None)"

definition ip_canonical :: "ip \<Rightarrow> ip" where
  "ip_canonical a =
     (case a of
        V6 v6 \<Rightarrow> if \<not> v6_unspecified v6 \<and> \<not> v6_loopback v6
                   then (case v6_to_v4 v6 of None \<Rightarrow> a | Some v4 \<Rightarrow> V4 v4) else a
      | V4 _ \<Rightarrow> a)"

definition denied_of :: "ip \<Rightarrow> ip list \<Rightarrow> denied_address option" where
  "denied_of address own =
     (let address = ip_canonical address;
          class = (case address of V4 v4 \<Rightarrow> denied_v4 v4 | V6 v6 \<Rightarrow> denied_v6 v6)
      in case class of Some d \<Rightarrow> Some d | None \<Rightarrow> if address \<in> set own then Some Own else None)"

fun denied_text :: "denied_address \<Rightarrow> string" where
  "denied_text Unspecified = ''an unspecified address''"
| "denied_text Loopback = ''a loopback address''"
| "denied_text Link_Local = ''a link-local address''"
| "denied_text Multicast = ''a multicast address''"
| "denied_text Broadcast = ''the broadcast address''"
| "denied_text Metadata = ''a cloud metadata address''"
| "denied_text Own = ''an address of the host'' @ [CHR 0x27] @ ''s own''"

section \<open>The allowlist\<close>

datatype entry = Exact string | Suffix string | Literal ip

definition trim_brackets :: "string \<Rightarrow> string" where
  "trim_brackets s =
     (let b = (\<lambda>c. c = CHR ''['' \<or> c = CHR '']'') in rev (dropWhile b (rev (dropWhile b s))))"

definition entry_parse :: "string \<Rightarrow> entry" where
  "entry_parse s =
     (let s = map to_ascii_lower (trim_brackets (str_trim s)) in
      case (parse_ip s, strip_prefix ''*.'' s) of
        (Some a, _) \<Rightarrow> Literal a
      | (None, Some suffix) \<Rightarrow> Suffix suffix
      | (None, None) \<Rightarrow> Exact s)"

fun entry_admits :: "string \<Rightarrow> entry \<Rightarrow> bool" where
  "entry_admits host (Exact name) \<longleftrightarrow> host = name"
| "entry_admits host (Suffix suffix) \<longleftrightarrow>
     host = suffix \<or> (case strip_suffix suffix host of None \<Rightarrow> False | Some rest \<Rightarrow> ends_with rest ''.'')"
| "entry_admits host (Literal _) \<longleftrightarrow> False"

datatype admission = Admit_Name | Admit_Literal ip

definition allowlist_admits :: "entry list \<Rightarrow> string \<Rightarrow> admission option" where
  "allowlist_admits entries host =
     (let host = map to_ascii_lower (trim_brackets host) in
      case parse_ip host of
        Some a \<Rightarrow> if Literal a \<in> set entries then Some (Admit_Literal a) else None
      | None \<Rightarrow> if list_ex (entry_admits host) entries then Some Admit_Name else None)"

section \<open>One CONNECT\<close>

type_synonym socket = "ip \<times> nat"

record 'w proxy_env =
  pe_lookup :: "string \<Rightarrow> nat \<Rightarrow> 'w \<Rightarrow> socket list option \<times> 'w"
  pe_own :: "'w \<Rightarrow> ip list option \<times> 'w"
  pe_connect :: "socket \<Rightarrow> 'w \<Rightarrow> bool \<times> 'w"

record connect_request =
  rq_is_connect :: bool
  rq_authority :: "(string \<times> nat option) option"

datatype status = Method_Not_Allowed | Bad_Request | Forbidden | Bad_Gateway | Status_OK

record proxy_response =
  re_status :: status
  re_body :: string

definition answer_with :: "status \<Rightarrow> string \<Rightarrow> proxy_response" where
  "answer_with st reason = \<lparr>re_status = st, re_body = reason @ [CHR 0x0A]\<rparr>"

text \<open>\<open>own\<close>: an error reading the interfaces is no address at all.\<close>

definition own :: "'w proxy_env \<Rightarrow> 'w \<Rightarrow> ip list \<times> 'w" where
  "own env w = (case pe_own env w of (None, w) \<Rightarrow> ([], w) | (Some as, w) \<Rightarrow> (as, w))"

definition literal :: "'w proxy_env \<Rightarrow> ip \<Rightarrow> nat \<Rightarrow> 'w \<Rightarrow> (denied_address + socket list) \<times> 'w" where
  "literal env address port w =
     (case own env w of (mine, w) \<Rightarrow>
        (case denied_of address mine of
           None \<Rightarrow> Inr [(address, port)]
         | Some Loopback \<Rightarrow> Inr [(address, port)]
         | Some d \<Rightarrow> Inl d, w))"

fun vet_all :: "ip list \<Rightarrow> socket list \<Rightarrow> socket list \<times> denied_address option \<Rightarrow> socket list \<times> denied_address option" where
  "vet_all mine [] acc = acc"
| "vet_all mine (a # as) (admitted, denied) =
     (case denied_of (fst a) mine of
        Some d \<Rightarrow> vet_all mine as (admitted, Some d)
      | None \<Rightarrow> vet_all mine as (admitted @ [a], denied))"

definition vetted :: "'w proxy_env \<Rightarrow> string \<Rightarrow> nat \<Rightarrow> 'w \<Rightarrow> (denied_address + socket list) \<times> 'w" where
  "vetted env host port w =
     (case own env w of (mine, w) \<Rightarrow>
      case pe_lookup env host port w of (resolved, w) \<Rightarrow>
      case vet_all mine (case resolved of None \<Rightarrow> [] | Some as \<Rightarrow> as) ([], None) of (admitted, denied) \<Rightarrow>
        (case denied of
           Some d \<Rightarrow> if admitted = [] then Inl d else Inr admitted
         | None \<Rightarrow> Inr admitted, w))"

fun connect_any :: "'w proxy_env \<Rightarrow> socket list \<Rightarrow> 'w \<Rightarrow> socket option \<times> 'w" where
  "connect_any env [] w = (None, w)"
| "connect_any env (a # as) w =
     (case pe_connect env a w of (connected, w) \<Rightarrow> if connected then (Some a, w) else connect_any env as w)"

text \<open>The response to a request, and the upstream of the tunnel it opens.\<close>

definition proxy_handle :: "'w proxy_env \<Rightarrow> entry list \<Rightarrow> connect_request \<Rightarrow> 'w \<Rightarrow> (proxy_response \<times> socket option) \<times> 'w" where
  "proxy_handle env entries rq w =
     (if \<not> rq_is_connect rq then ((answer_with Method_Not_Allowed ''only CONNECT is proxied'', None), w)
      else case rq_authority rq of
        Some (host, Some port) \<Rightarrow>
          (case (case allowlist_admits entries host of
                   None \<Rightarrow> (Inl ''is not on the allowlist'', w)
                 | Some (Admit_Literal a) \<Rightarrow>
                     (case literal env a port w of
                        (Inl d, w) \<Rightarrow> (Inl (''is '' @ denied_text d), w)
                      | (Inr as, w) \<Rightarrow> (Inr as, w))
                 | Some Admit_Name \<Rightarrow>
                     (case vetted env host port w of
                        (Inl d, w) \<Rightarrow> (Inl (''resolves to '' @ denied_text d), w)
                      | (Inr as, w) \<Rightarrow> (Inr as, w))) of
             (Inl why, w) \<Rightarrow> ((answer_with Forbidden (CHR 0x60 # host @ [CHR 0x60, CHR '' ''] @ why), None), w)
           | (Inr as, w) \<Rightarrow>
               (case connect_any env as w of
                  (Some upstream, w) \<Rightarrow> ((\<lparr>re_status = Status_OK, re_body = []\<rparr>, Some upstream), w)
                | (None, w) \<Rightarrow>
                    ((answer_with Bad_Gateway
                       (CHR 0x60 # host @ '':'' @ dec_nat port @ [CHR 0x60] @ '' is unreachable''), None), w)))
      | _ \<Rightarrow> ((answer_with Bad_Request ''CONNECT needs host:port'', None), w))"

end
