(* ===== verification/Sandbox_Egress.thy ===== *)
theory Sandbox_Egress
  imports Sandbox_Proxy
begin

text \<open>
  What the egress proxy lets through: the denied classes are exactly the documented address
  ranges, a listed name is matched whole or beneath its suffix, and no tunnel is even attempted
  to an address the grant's allowlist and the classes do not allow.
\<close>

section \<open>The denied ranges\<close>

definition v4_blocked :: "nat \<Rightarrow> bool" where
  "v4_blocked n \<longleftrightarrow>
     n = 0 \<or> 0x7f000000 \<le> n \<and> n \<le> 0x7fffffff \<or> 0xa9fe0000 \<le> n \<and> n \<le> 0xa9feffff \<or>
     n = 0x646464c8 \<or> 0xe0000000 \<le> n \<and> n \<le> 0xefffffff \<or> n = 0xffffffff"

definition v6_blocked :: "nat \<Rightarrow> bool" where
  "v6_blocked n \<longleftrightarrow>
     n = 0 \<or> n = 1 \<or> n = 0xfd000ec2000000000000000000000254 \<or>
     0xfe800000000000000000000000000000 \<le> n \<and> n < 0xfec00000000000000000000000000000 \<or>
     0xff000000000000000000000000000000 \<le> n"

text \<open>An IPv6 address that carries an IPv4 one is judged as that one.\<close>

fun ip_blocked :: "ip \<Rightarrow> bool" where
  "ip_blocked (V4 a) \<longleftrightarrow> v4_blocked (unat a)"
| "ip_blocked (V6 a) \<longleftrightarrow>
     (let n = unat a in
      if 1 < n \<and> (n < 2 ^ 32 \<or> n div 2 ^ 32 = 0xffff) then v4_blocked (n mod 2 ^ 32) else v6_blocked n)"

lemma unat_v4_of: "a < 256 \<Longrightarrow> b < 256 \<Longrightarrow> c < 256 \<Longrightarrow> d < 256 \<Longrightarrow> unat (v4_of a b c d) = ((a * 256 + b) * 256 + c) * 256 + d"
  unfolding v4_of_def by (simp only: unat_of_nat) simp

lemma div_eq_range: "0 < m \<Longrightarrow> n div m = q \<longleftrightarrow> q * m \<le> n \<and> n < Suc q * (m :: nat)"
  by (metis less_eq_div_iff_mult_less_eq div_less_iff_less_mult less_Suc_eq_le order_antisym_conv order_refl)

lemma div_le_range: "0 < m \<Longrightarrow> n div m \<le> q \<longleftrightarrow> n < Suc q * (m :: nat)"
  by (metis div_less_iff_less_mult less_Suc_eq_le)

lemma denied_v4_iff: "denied_v4 a \<noteq> None \<longleftrightarrow> v4_blocked (unat a)"
proof -
  let ?n = "unat a"
  have n: "?n < 2 ^ 32" using unsigned_less [of a] by simp
  have num: "a = v4_of b c d e \<longleftrightarrow> ?n = ((b * 256 + c) * 256 + d) * 256 + e" if "b < 256" "c < 256" "d < 256" "e < 256" for b c d e
    using unat_v4_of [OF that] by (metis word_unat_eq_iff)
  have z: "a = 0 \<longleftrightarrow> ?n = 0" by (simp add: unat_eq_0)
  have o0: "v4_octet 0 a = ?n div 16777216" and o1: "v4_octet 1 a = ?n div 65536 mod 256"
    using n by (simp_all add: v4_octet_def)
  have "denied_v4 a \<noteq> None \<longleftrightarrow> ?n = 0 \<or> ?n div 16777216 = 127 \<or> ?n = 0xffffffff \<or> ?n = 0xa9fea9fe \<or> ?n = 0x646464c8 \<or>
      (?n div 16777216 = 169 \<and> ?n div 65536 mod 256 = 254) \<or> (224 \<le> ?n div 16777216 \<and> ?n div 16777216 \<le> 239)"
    unfolding denied_v4_def v4_unspecified_def v4_loopback_def v4_broadcast_def v4_link_local_def v4_multicast_def METADATA_def o0 o1
    by (simp add: num z)
  also have "?n div 16777216 = 127 \<longleftrightarrow> 0x7f000000 \<le> ?n \<and> ?n \<le> 0x7fffffff"
    by (auto simp: div_eq_range)
  also have "?n div 16777216 = 169 \<and> ?n div 65536 mod 256 = 254 \<longleftrightarrow> ?n div 65536 = 43518"
  proof -
    have "?n div 16777216 = ?n div 65536 div 256" by (simp add: div_mult2_eq [symmetric])
    moreover have "x div 256 = 169 \<and> x mod 256 = 254 \<longleftrightarrow> x = 43518" for x :: nat
    proof
      assume x: "x div 256 = 169 \<and> x mod 256 = 254"
      have "x = x div 256 * 256 + x mod 256" by (rule div_mult_mod_eq [symmetric])
      also have "\<dots> = 43518" using x by simp
      finally show "x = 43518" .
    qed simp
    ultimately show ?thesis by simp
  qed
  also have "?n div 65536 = 43518 \<longleftrightarrow> 0xa9fe0000 \<le> ?n \<and> ?n \<le> 0xa9feffff" by (auto simp: div_eq_range)
  also have "224 \<le> ?n div 16777216 \<and> ?n div 16777216 \<le> 239 \<longleftrightarrow> 0xe0000000 \<le> ?n \<and> ?n \<le> 0xefffffff"
    by (auto simp: less_eq_div_iff_mult_less_eq div_le_range)
  finally have "denied_v4 a \<noteq> None \<longleftrightarrow> ?n = 0 \<or> (0x7f000000 \<le> ?n \<and> ?n \<le> 0x7fffffff) \<or> ?n = 0xffffffff \<or> ?n = 0xa9fea9fe \<or>
      ?n = 0x646464c8 \<or> (0xa9fe0000 \<le> ?n \<and> ?n \<le> 0xa9feffff) \<or> (0xe0000000 \<le> ?n \<and> ?n \<le> 0xefffffff)" .
  also have "\<dots> \<longleftrightarrow> v4_blocked ?n" unfolding v4_blocked_def by auto
  finally show ?thesis .
qed

lemma v6_of_unat: "n < 2 ^ 128 \<Longrightarrow> unat (word_of_nat n :: 128 word) = n"
  by (simp add: unat_of_nat)

lemma segment_values:
  fixes a :: "128 word"
  defines "n \<equiv> unat a"
  shows "v6_segment 0 a = n div 2 ^ 112"
    and "v6_segment (Suc 0) a = n div 2 ^ 96 mod 65536" and "v6_segment 2 a = n div 2 ^ 80 mod 65536"
    and "v6_segment 3 a = n div 2 ^ 64 mod 65536" and "v6_segment 4 a = n div 2 ^ 48 mod 65536"
    and "v6_segment 5 a = n div 2 ^ 32 mod 65536" and "v6_segment 6 a = n div 65536 mod 65536" and "v6_segment 7 a = n mod 65536"
proof -
  have n: "n < 2 ^ 128" using unsigned_less [of a] by (simp add: n_def)
  show "v6_segment 0 a = n div 2 ^ 112" using n by (simp add: v6_segment_def n_def [symmetric])
qed (simp_all add: v6_segment_def n_def)

lemma segment_zero: "0 < m \<Longrightarrow> n < m * 65536 \<Longrightarrow> n div m mod 65536 = 0 \<Longrightarrow> n < (m :: nat)"
proof -
  assume m: "0 < m" "n < m * 65536" "n div m mod 65536 = 0"
  have "n div m < 65536" using m by (simp add: div_less_iff_less_mult mult.commute)
  with m(3) have "n div m = 0" by simp
  with m(1) show "n < m" by (simp add: div_eq_0_iff)
qed

lemma high_zero:
  assumes n: "n < (2 :: nat) ^ 128"
  shows "n div 2 ^ 112 = 0 \<and> n div 2 ^ 96 mod 65536 = 0 \<and> n div 2 ^ 80 mod 65536 = 0 \<and> n div 2 ^ 64 mod 65536 = 0 \<and>
    n div 2 ^ 48 mod 65536 = 0 \<longleftrightarrow> n < 2 ^ 48"
proof
  assume z: "n div 2 ^ 112 = 0 \<and> n div 2 ^ 96 mod 65536 = 0 \<and> n div 2 ^ 80 mod 65536 = 0 \<and> n div 2 ^ 64 mod 65536 = 0 \<and>
    n div 2 ^ 48 mod 65536 = 0"
  have "n < 2 ^ 96 * 65536" using z by (simp add: div_eq_0_iff)
  then have "n < 2 ^ 96" by (rule segment_zero [rotated]) (use z in simp_all)
  then have "n < 2 ^ 80" using z by (intro segment_zero [of "2 ^ 80" n]) simp_all
  then have "n < 2 ^ 64" using z by (intro segment_zero [of "2 ^ 64" n]) simp_all
  then show "n < 2 ^ 48" using z by (intro segment_zero [of "2 ^ 48" n]) simp_all
next
  assume n: "n < 2 ^ 48"
  have "n div 2 ^ 112 = 0" "n div 2 ^ 96 = 0" "n div 2 ^ 80 = 0" "n div 2 ^ 64 = 0" "n div 2 ^ 48 = 0"
    using n by simp_all
  then show "n div 2 ^ 112 = 0 \<and> n div 2 ^ 96 mod 65536 = 0 \<and> n div 2 ^ 80 mod 65536 = 0 \<and> n div 2 ^ 64 mod 65536 = 0 \<and>
    n div 2 ^ 48 mod 65536 = 0" by simp
qed

lemma v6_to_v4_iff:
  "v6_to_v4 a = (let n = unat a in if n < 2 ^ 32 \<or> n div 2 ^ 32 = 0xffff then Some (word_of_nat (n mod 2 ^ 32)) else None)"
proof -
  let ?n = "unat a"
  have n: "?n < 2 ^ 128" using unsigned_less [of a] by simp
  have l: "[0..<5] = [0, 1, 2, 3, 4 :: nat]" by (simp add: upt_rec)
  have low: "list_all (\<lambda>i. v6_segment i a = 0) [0..<5] \<longleftrightarrow> ?n < 2 ^ 48"
    unfolding l list.pred_inject One_nat_def segment_values using high_zero [OF n] by simp
  have s5: "v6_segment 5 a = ?n div 2 ^ 32" if "?n < 2 ^ 48" using that by (simp add: segment_values)
  have "?n mod 2 ^ 32 = ?n mod (65536 * 65536)" by simp
  also have "\<dots> = ?n div 65536 mod 65536 * 65536 + ?n mod 65536" by (simp only: mod_mult2_eq)
  finally have s67: "v6_segment 6 a * 65536 + v6_segment 7 a = ?n mod 2 ^ 32" by (simp only: segment_values)
  have "?n < 2 ^ 48 \<and> (?n div 2 ^ 32 = 0 \<or> ?n div 2 ^ 32 = 65535) \<longleftrightarrow> ?n < 2 ^ 32 \<or> ?n div 2 ^ 32 = 65535"
    by (auto simp: div_eq_range)
  then show ?thesis
    unfolding v6_to_v4_def Let_def s67 low using s5 by auto
qed

lemma denied_v6_iff: "denied_v6 a \<noteq> None \<longleftrightarrow> v6_blocked (unat a)"
proof -
  let ?n = "unat a"
  have n: "?n < 2 ^ 128" using unsigned_less [of a] by simp
  have z: "a = 0 \<longleftrightarrow> ?n = 0" by (simp add: unat_eq_0)
  have o: "a = 1 \<longleftrightarrow> ?n = 1" by (metis unsigned_1 word_unat_eq_iff)
  have meta: "a = v6_of [0xfd00, 0xec2, 0, 0, 0, 0, 0, 0x254] \<longleftrightarrow> ?n = 0xfd000ec2000000000000000000000254"
  proof -
    have "unat (v6_of [0xfd00, 0xec2, 0, 0, 0, 0, 0, 0x254]) = 0xfd000ec2000000000000000000000254"
      unfolding v6_of_def foldl.simps by (subst v6_of_unat) simp_all
    then show ?thesis by (metis word_unat_eq_iff)
  qed
  have local: "v6_link_local a \<longleftrightarrow> 0xfe800000000000000000000000000000 \<le> ?n \<and> ?n < 0xfec00000000000000000000000000000"
    unfolding v6_link_local_def segment_values div_mult2_eq [symmetric] by (auto simp: div_eq_range)
  have multi: "v6_multicast a \<longleftrightarrow> 0xff000000000000000000000000000000 \<le> ?n"
    unfolding v6_multicast_def segment_values div_mult2_eq [symmetric] using n by (auto simp: div_eq_range)
  show ?thesis
    unfolding denied_v6_def v6_unspecified_def v6_loopback_def METADATA_def local multi z o v6_blocked_def
    by (simp add: meta)
qed

lemma denied_exact: "denied_of a mine \<noteq> None \<longleftrightarrow> ip_blocked a \<or> ip_canonical a \<in> set mine"
proof -
  have "denied_of a mine \<noteq> None \<longleftrightarrow> (case ip_canonical a of V4 v4 \<Rightarrow> denied_v4 v4 \<noteq> None | V6 v6 \<Rightarrow> denied_v6 v6 \<noteq> None) \<or>
      ip_canonical a \<in> set mine"
    by (simp add: denied_of_def Let_def split: option.split ip.split)
  also have "(case ip_canonical a of V4 v4 \<Rightarrow> denied_v4 v4 \<noteq> None | V6 v6 \<Rightarrow> denied_v6 v6 \<noteq> None) \<longleftrightarrow> ip_blocked a"
  proof (cases a)
    case (V4 v4)
    then show ?thesis using denied_v4_iff by (simp add: ip_canonical_def)
  next
    case (V6 v6)
    have z: "v6 = 0 \<longleftrightarrow> unat v6 = 0" by (simp add: unat_eq_0)
    have o: "v6 = 1 \<longleftrightarrow> unat v6 = 1" by (metis unsigned_1 word_unat_eq_iff)
    have w: "unat (word_of_nat (unat v6 mod 2 ^ 32) :: 32 word) = unat v6 mod 2 ^ 32" by (simp add: unat_of_nat)
    note d4 = denied_v4_iff [of "word_of_nat (unat v6 mod 2 ^ 32)", unfolded w]
    show ?thesis
    proof (cases "1 < unat v6")
      case True
      then have c: "v6 \<noteq> 0" "v6 \<noteq> 1" by (auto simp: z o)
      show ?thesis
        unfolding V6 ip_canonical_def v6_unspecified_def v6_loopback_def v6_to_v4_iff Let_def ip_blocked.simps
        using c True d4 denied_v6_iff [of v6] by simp
    next
      case False
      then have c: "v6 = 0 \<or> v6 = 1" unfolding z o by linarith
      show ?thesis
        unfolding V6 ip_canonical_def v6_unspecified_def v6_loopback_def Let_def ip_blocked.simps
        using c False denied_v6_iff [of v6] by auto
    qed
  qed
  finally show ?thesis .
qed

section \<open>The names a list admits\<close>

lemma entry_admits_iff:
  "entry_admits host e \<longleftrightarrow>
     e = Exact host \<or> (\<exists>suffix. e = Suffix suffix \<and> (host = suffix \<or> (\<exists>p. host = p @ ''.'' @ suffix)))"
proof (cases e)
  case (Suffix suffix)
  have "(case strip_suffix suffix host of None \<Rightarrow> False | Some rest \<Rightarrow> ends_with rest ''.'') \<longleftrightarrow>
      (\<exists>rest. strip_suffix suffix host = Some rest \<and> ends_with rest ''.'')"
    by (simp split: option.split)
  also have "\<dots> \<longleftrightarrow> (\<exists>rest. host = rest @ suffix \<and> ends_with rest ''.'')" unfolding strip_suffix_Some ..
  also have "\<dots> \<longleftrightarrow> (\<exists>p. host = p @ ''.'' @ suffix)"
    by (auto simp: ends_with_iff)
  finally have s: "(case strip_suffix suffix host of None \<Rightarrow> False | Some rest \<Rightarrow> ends_with rest ''.'') \<longleftrightarrow> (\<exists>p. host = p @ ''.'' @ suffix)" .
  show ?thesis unfolding Suffix entry_admits.simps s by simp
qed auto

lemma allowlist_name_iff:
  assumes "parse_ip (map to_ascii_lower (trim_brackets host)) = None"
  shows "allowlist_admits entries host = Some Admit_Name \<longleftrightarrow>
    (let h = map to_ascii_lower (trim_brackets host) in
     \<exists>e \<in> set entries. e = Exact h \<or> (\<exists>suffix. e = Suffix suffix \<and> (h = suffix \<or> (\<exists>p. h = p @ ''.'' @ suffix))))"
  using assms by (simp add: allowlist_admits_def Let_def list_ex_iff entry_admits_iff)

section \<open>The upstreams of a CONNECT\<close>

text \<open>The environment with every address the proxy tries to connect written down.\<close>

definition watch_env :: "'w proxy_env \<Rightarrow> ('w \<times> socket list) proxy_env" where
  "watch_env env =
     \<lparr>pe_lookup = (\<lambda>h p (w, log). case pe_lookup env h p w of (r, w) \<Rightarrow> (r, (w, log))),
      pe_own = (\<lambda>(w, log). case pe_own env w of (r, w) \<Rightarrow> (r, (w, log))),
      pe_connect = (\<lambda>a (w, log). case pe_connect env a w of (r, w) \<Rightarrow> (r, (w, log @ [a])))\<rparr>"

lemma vet_all_ok:
  "vet_all mine as (admitted, denied) = (admitted', denied') \<Longrightarrow>
     \<forall>a \<in> set admitted. denied_of (fst a) mine = None \<Longrightarrow> \<forall>a \<in> set admitted'. denied_of (fst a) mine = None"
proof (induction as arbitrary: admitted denied)
  case (Cons a as)
  show ?case
  proof (cases "denied_of (fst a) mine")
    case None
    have "\<forall>x \<in> set (admitted @ [a]). denied_of (fst x) mine = None" using Cons.prems(2) None by simp
    with Cons.IH [of "admitted @ [a]" denied] Cons.prems(1) None show ?thesis by simp
  next
    case (Some d)
    with Cons.IH [of admitted "Some d"] Cons.prems show ?thesis by simp
  qed
qed simp

lemma connect_any_log:
  "connect_any (watch_env env) as (w, log) = (r, (w', log')) \<Longrightarrow> \<exists>tried. log' = log @ tried \<and> set tried \<subseteq> set as"
proof (induction as arbitrary: w log)
  case (Cons a as)
  obtain ok w1 where c: "pe_connect env a w = (ok, w1)" by (cases "pe_connect env a w")
  show ?case
  proof (cases ok)
    case True
    with Cons.prems c show ?thesis by (auto simp: watch_env_def)
  next
    case False
    with Cons.prems c have "connect_any (watch_env env) as (w1, log @ [a]) = (r, (w', log'))" by (simp add: watch_env_def)
    from Cons.IH [OF this] show ?thesis by auto
  qed
qed simp

lemma lookup_watch: "pe_lookup (watch_env env) h p (w, log) = (case pe_lookup env h p w of (r, w) \<Rightarrow> (r, (w, log)))"
  by (simp add: watch_env_def)

lemma own_watch: "own (watch_env env) (w, log) = (fst (own env w), (snd (own env w), log))"
  by (auto simp: own_def watch_env_def split: prod.split option.split)

lemma vetted_watch:
  assumes "vetted (watch_env env) host port (w, log) = (r, s)"
  shows "\<exists>w'. s = (w', log)" and "r = Inr as \<Longrightarrow> a \<in> set as \<Longrightarrow> denied_of (fst a) (fst (own env w)) = None"
proof -
  obtain resolved w1 where l: "pe_lookup env host port (snd (own env w)) = (resolved, w1)"
    by (cases "pe_lookup env host port (snd (own env w))")
  obtain admitted denied where v: "vet_all (fst (own env w)) (case resolved of None \<Rightarrow> [] | Some as \<Rightarrow> as) ([], None) = (admitted, denied)"
    by fastforce
  have r: "(case denied of Some d \<Rightarrow> if admitted = [] then Inl d else Inr admitted | None \<Rightarrow> Inr admitted, (w1, log)) = (r, s)"
    using assms by (simp add: vetted_def own_watch lookup_watch l v)
  then show "\<exists>w'. s = (w', log)" by blast
  assume "r = Inr as" "a \<in> set as"
  with r have "a \<in> set admitted" by (auto split: option.splits if_split_asm)
  with vet_all_ok [OF v] show "denied_of (fst a) (fst (own env w)) = None" by simp
qed

text \<open>
  C23. A grant's egress is all the proxy ever tries to reach: every address it connects to was
  asked for by a CONNECT to a host on the allowlist, and is either an address a listed name
  resolved to, in none of the denied ranges and not the host's own, or a listed literal as
  written, which only among the denied ranges may be a loopback address.
\<close>

theorem egress_confined:
  "case proxy_handle (watch_env env) entries rq (w, []) of ((res, tunnel), (w', tried)) \<Rightarrow>
     list_all (\<lambda>(a, port). rq_is_connect rq \<and>
       (\<exists>host p. rq_authority rq = Some (host, Some p) \<and>
         (allowlist_admits entries host = Some Admit_Name \<and> \<not> ip_blocked a \<and> ip_canonical a \<notin> set (fst (own env w)) \<or>
          allowlist_admits entries host = Some (Admit_Literal a) \<and> port = p \<and> Literal a \<in> set entries \<and>
            denied_of a (fst (own env w)) \<in> {None, Some Loopback}))) tried"
proof -
  let ?ok = "\<lambda>(a, port). rq_is_connect rq \<and>
       (\<exists>host p. rq_authority rq = Some (host, Some p) \<and>
         (allowlist_admits entries host = Some Admit_Name \<and> \<not> ip_blocked a \<and> ip_canonical a \<notin> set (fst (own env w)) \<or>
          allowlist_admits entries host = Some (Admit_Literal a) \<and> port = p \<and> Literal a \<in> set entries \<and>
            denied_of a (fst (own env w)) \<in> {None, Some Loopback}))"
  have tried: "list_all ?ok tried"
    if "connect_any (watch_env env) as (w1, []) = (r, (w', tried))" and "\<And>a. a \<in> set as \<Longrightarrow> ?ok a" for as w1 r w' tried
    using connect_any_log [OF that(1)] that(2) by (fastforce simp: list_all_iff)
  show ?thesis
  proof (cases "\<exists>host p. rq_is_connect rq \<and> rq_authority rq = Some (host, Some p)")
    case False
    then show ?thesis by (auto simp: proxy_handle_def split: option.splits)
  next
    case True
    then obtain host p where rq: "rq_is_connect rq" "rq_authority rq = Some (host, Some p)" by blast
    show ?thesis
    proof (cases "allowlist_admits entries host")
      case None
      with rq show ?thesis by (simp add: proxy_handle_def)
    next
      case (Some adm)
      show ?thesis
      proof (cases adm)
        case Admit_Name
        obtain q w1 where v: "vetted (watch_env env) host p (w, []) = (q, (w1, []))"
          using vetted_watch(1) [of env host p w "[]"] by (cases "vetted (watch_env env) host p (w, [])") auto
        show ?thesis
        proof (cases q)
          case (Inl d)
          with rq Some Admit_Name v show ?thesis by (simp add: proxy_handle_def)
        next
          case (Inr as)
          have ok: "?ok a" if "a \<in> set as" for a
            using vetted_watch(2) [OF v Inr that] denied_exact [of "fst a" "fst (own env w)"] rq Some Admit_Name by (cases a) simp
          obtain up w' log where c: "connect_any (watch_env env) as (w1, []) = (up, (w', log))"
            by (cases "connect_any (watch_env env) as (w1, [])")
          have "list_all ?ok log" using tried [OF c] ok by blast
          with rq Some Admit_Name v Inr c show ?thesis by (cases up) (simp_all add: proxy_handle_def)
        qed
      next
        case (Admit_Literal a)
        have e: "Literal a \<in> set entries"
          using Some Admit_Literal by (auto simp: allowlist_admits_def Let_def split: option.splits if_split_asm)
        have l: "literal (watch_env env) a p (w, []) =
            (case denied_of a (fst (own env w)) of None \<Rightarrow> Inr [(a, p)] | Some Loopback \<Rightarrow> Inr [(a, p)] | Some d \<Rightarrow> Inl d,
             (snd (own env w), []))"
          by (simp add: literal_def own_watch)
        show ?thesis
        proof (cases "denied_of a (fst (own env w)) \<in> {None, Some Loopback}")
          case True
          then have l': "literal (watch_env env) a p (w, []) = (Inr [(a, p)], (snd (own env w), []))" using l by auto
          obtain up w' log where c: "connect_any (watch_env env) [(a, p)] (snd (own env w), []) = (up, (w', log))"
            by (cases "connect_any (watch_env env) [(a, p)] (snd (own env w), [])")
          have "list_all ?ok log" using tried [OF c] rq Some Admit_Literal e True by simp
          with rq Some Admit_Literal l' c show ?thesis by (cases up) (simp_all add: proxy_handle_def del: connect_any.simps)
        next
          case False
          then obtain d where "literal (watch_env env) a p (w, []) = (Inl d, (snd (own env w), []))"
            using l by (auto split: option.splits denied_address.splits)
          with rq Some Admit_Literal show ?thesis by (simp add: proxy_handle_def)
        qed
      qed
    qed
  qed
qed

end
