(* ===== verification/Sandbox_Grant.thy ===== *)
theory Sandbox_Grant
  imports Rust_Json
begin

text \<open>
  The sandbox's policy (\<open>src/crates/sandbox/src/lib.rs\<close>, \<open>session.rs\<close>): what connecting reads
  of the host, and what a grant opens to a process: the directories it reads, its environment,
  its working directory and the program it runs. \<open>host_fs\<close> is what the host's file system
  answers while a session is prepared; it is only read.
\<close>

section \<open>Paths\<close>

text \<open>
  The components of a \<open>Path\<close>: whether it is absolute, and its names. Empty names and dots are
  left out, but for a dot that leads a relative path.
\<close>

definition path_comps :: "string \<Rightarrow> bool \<times> string list" where
  "path_comps s =
     (let absolute = s \<noteq> [] \<and> hd s = CHR ''/''; parts = str_split (CHR ''/'') s;
          names = filter (\<lambda>p. p \<noteq> [] \<and> p \<noteq> ''.'') parts
      in (absolute, if \<not> absolute \<and> hd parts = ''.'' then ''.'' # names else names))"

definition path_starts_with :: "string \<Rightarrow> string \<Rightarrow> bool" where
  "path_starts_with a b \<longleftrightarrow>
     fst (path_comps a) = fst (path_comps b) \<and> take (length (snd (path_comps b))) (snd (path_comps a)) = snd (path_comps b)"

definition path_eq :: "string \<Rightarrow> string \<Rightarrow> bool" where
  "path_eq a b \<longleftrightarrow> path_comps a = path_comps b"

definition path_add :: "string \<Rightarrow> string \<Rightarrow> string" where
  "path_add dir s =
     (if s \<noteq> [] \<and> hd s = CHR ''/'' then s else if dir = [] \<or> ends_with dir ''/'' then dir @ s else dir @ ''/'' @ s)"

section \<open>Names\<close>

definition INHERITED :: "string list" where "INHERITED = [''PATH'', ''LANG'', ''TZ'', ''TERM'']"
definition SCRATCH :: "string list" where "SCRATCH = [''HOME'', ''TMPDIR'']"
definition PROXY :: "string list" where
  "PROXY = [''HTTP_PROXY'', ''HTTPS_PROXY'', ''ALL_PROXY'', ''http_proxy'', ''https_proxy'', ''all_proxy'']"
definition NO_PROXY :: "string list" where "NO_PROXY = [''NO_PROXY'', ''no_proxy'']"
definition LOOPBACK :: string where "LOOPBACK = ''127.0.0.1,localhost,::1,[::1]''"
definition REFUSED :: "string list" where "REFUSED = [''NODE_USE_SYSTEM_CA'', ''BUN_OPTIONS'', ''NODE_OPTIONS'']"
definition LOADER :: "string list" where "LOADER = [''LD_'', ''DYLD_'']"
definition GIT :: "string list" where "GIT = [''GIT_DIR'', ''GIT_WORK_TREE'', ''GIT_COMMON_DIR'', ''GIT_INDEX_FILE'']"
definition STORES :: "string list" where
  "STORES =
     [''.ssh'', ''.gnupg'', ''.aws'', ''.azure'', ''.kube'', ''.docker'', ''.config/gh'', ''.config/gcloud'',
      ''.password-store'', ''Library/Keychains'']"

definition reserved :: "string \<Rightarrow> string list \<Rightarrow> string option" where
  "reserved name refused =
     (if list_ex (\<lambda>own. name \<in> set own) [SCRATCH, PROXY, NO_PROXY] then Some ''is set by the sandbox''
      else if name \<in> set REFUSED \<or> name \<in> set refused then Some ''is refused''
      else if list_ex (\<lambda>p. starts_with name p) LOADER then Some ''is read by the dynamic loader''
      else if name \<in> set GIT then Some ''selects a repository''
      else None)"

definition inherits :: "string \<Rightarrow> string list \<Rightarrow> bool" where
  "inherits name inherit \<longleftrightarrow>
     utf8_valid name \<and> (name \<in> set INHERITED \<or> starts_with name ''LC_'' \<or> name \<in> set inherit)"

definition is_ascii_alpha :: "char \<Rightarrow> bool" where
  "is_ascii_alpha c \<longleftrightarrow> (let n = of_char c :: nat in 65 \<le> n \<and> n \<le> 90 \<or> 97 \<le> n \<and> n \<le> 122)"

definition is_name :: "string \<Rightarrow> bool" where
  "is_name name \<longleftrightarrow>
     name \<noteq> [] \<and> (hd name = CHR ''_'' \<or> is_ascii_alpha (hd name)) \<and>
     list_all (\<lambda>c. c = CHR ''_'' \<or> is_ascii_alpha c \<or> is_digit c) (tl name)"

definition overlaps :: "string \<Rightarrow> string \<Rightarrow> bool" where
  "overlaps a b \<longleftrightarrow> path_starts_with a b \<or> path_starts_with b a"

section \<open>The sandbox\<close>

datatype sandbox_error = Denied string | Sandbox_Failed string

abbreviation sb_quoted :: "string \<Rightarrow> string" where
  "sb_quoted s \<equiv> CHR 0x60 # s @ [CHR 0x60]"

datatype io_failure = Not_Found | Io_Failed string

record host_fs =
  hf_canonical :: "string \<Rightarrow> io_failure + string"
  hf_is_dir :: "string \<Rightarrow> string + bool"
  hf_executable :: "string \<Rightarrow> bool"
  hf_absolute :: "string \<Rightarrow> string + string"
  hf_create_dir_all :: "string \<Rightarrow> string + unit"
  hf_create_dir :: "string \<Rightarrow> string + unit"
  hf_open :: "string \<Rightarrow> string + unit"

record sandbox_options =
  so_shell_roots :: "string list"
  so_inherit :: "string list"
  so_refused :: "string list"

record grant =
  gt_egress :: "string list"
  gt_read :: "string list"
  gt_env :: "(string \<times> string) list"

record policy =
  sp_options :: sandbox_options
  sp_inherited :: "(string, string) btree"
  sp_home :: "string option"

definition bt_extend :: "('k::linorder \<times> 'v) list \<Rightarrow> ('k, 'v) btree \<Rightarrow> ('k, 'v) btree" where
  "bt_extend kvs m = fold (\<lambda>(k, v) m. bt_insert k v m) kvs m"

fun check_inherit :: "string list \<Rightarrow> string list \<Rightarrow> sandbox_error + unit" where
  "check_inherit refused [] = Inr ()"
| "check_inherit refused (name # names) =
     (case reserved name refused of
        Some why \<Rightarrow> Inl (Sandbox_Failed (''inherit '' @ sb_quoted name @ '' '' @ why))
      | None \<Rightarrow> check_inherit refused names)"

definition connect_root :: "host_fs \<Rightarrow> string \<Rightarrow> sandbox_error + string" where
  "connect_root fs root =
     (case hf_absolute fs root of
        Inl e \<Rightarrow> Inl (Sandbox_Failed (''resolving shell root '' @ root @ '': '' @ e))
      | Inr absolute \<Rightarrow> Inr (case hf_canonical fs absolute of Inr r \<Rightarrow> r | Inl _ \<Rightarrow> absolute))"

definition sandbox_connect ::
  "host_fs \<Rightarrow> (string \<times> string) list \<Rightarrow> string option \<Rightarrow> (sandbox_error + unit) \<Rightarrow> sandbox_options \<Rightarrow> sandbox_error + policy" where
  "sandbox_connect fs vars home_var probed options =
     res_bind (check_inherit (so_refused options) (so_inherit options)) (\<lambda>_.
     res_bind (res_traverse (connect_root fs) (so_shell_roots options)) (\<lambda>roots.
     res_map (\<lambda>_.
        \<lparr>sp_options = options\<lparr>so_shell_roots := roots\<rparr>,
         sp_inherited = bt_extend (filter (\<lambda>(name, _). inherits name (so_inherit options)) vars) [],
         sp_home = Option.bind home_var (\<lambda>h. case hf_canonical fs h of Inr r \<Rightarrow> Some r | Inl _ \<Rightarrow> None)\<rparr>)
       probed))"

datatype session_access = Private_Dir | Lent_Read | Lent_Shell

definition workspace_of :: "host_fs \<Rightarrow> policy \<Rightarrow> string \<Rightarrow> sandbox_error + string \<times> session_access" where
  "workspace_of fs sb path =
     (case hf_create_dir_all fs path of
        Inl e \<Rightarrow> Inl (Sandbox_Failed (''creating '' @ path @ '': '' @ e))
      | Inr _ \<Rightarrow>
          (case hf_canonical fs path of
             Inl _ \<Rightarrow> Inl (Sandbox_Failed (''canonicalizing '' @ path))
           | Inr cwd \<Rightarrow>
               Inr (cwd,
                 if list_ex (\<lambda>root. path_starts_with cwd (case hf_canonical fs root of Inr r \<Rightarrow> r | Inl _ \<Rightarrow> root))
                      (so_shell_roots (sp_options sb))
                 then Lent_Shell else Lent_Read)))"

definition sandbox_access :: "host_fs \<Rightarrow> policy \<Rightarrow> string option \<Rightarrow> sandbox_error + session_access" where
  "sandbox_access fs sb workspace =
     (case workspace of Some path \<Rightarrow> res_map snd (workspace_of fs sb path) | None \<Rightarrow> Inr Private_Dir)"

definition host_path :: "policy \<Rightarrow> string" where
  "host_path sb = (case map_of (sp_inherited sb) ''PATH'' of Some p \<Rightarrow> p | None \<Rightarrow> [])"

definition home_of :: "policy \<Rightarrow> string \<Rightarrow> sandbox_error + string" where
  "home_of sb spelled =
     (case sp_home sb of
        Some home \<Rightarrow> Inr home
      | None \<Rightarrow> Inl (Denied (sb_quoted spelled @ '' names the home, which the host has none of'')))"

section \<open>The directories a grant reads\<close>

definition overlaps_store :: "host_fs \<Rightarrow> string \<Rightarrow> string \<Rightarrow> bool" where
  "overlaps_store fs home root \<longleftrightarrow>
     list_ex (\<lambda>store. let spelled = path_add home store in
         overlaps root spelled \<or> (case hf_canonical fs spelled of Inr resolved \<Rightarrow> overlaps root resolved | Inl _ \<Rightarrow> False))
       STORES"

definition deny_root :: "string \<Rightarrow> string \<Rightarrow> sandbox_error + 'a" where
  "deny_root spelled why = Inl (Denied (''read root '' @ sb_quoted spelled @ '' '' @ why))"

definition read_root :: "host_fs \<Rightarrow> policy \<Rightarrow> string \<Rightarrow> sandbox_error + string option" where
  "read_root fs sb spelled =
     (case strip_prefix ''~/'' spelled of
        None \<Rightarrow> deny_root spelled (''must be a directory beneath the home, '' @ sb_quoted ''~/<path>'')
      | Some rest \<Rightarrow>
          if rest = [] then deny_root spelled (''must be a directory beneath the home, '' @ sb_quoted ''~/<path>'')
          else if list_ex (\<lambda>s. s = ''.'' \<or> s = ''..'') (str_split (CHR ''/'') rest)
          then deny_root spelled (''must not step through '' @ sb_quoted ''.'' @ '' or '' @ sb_quoted ''..'')
          else if list_ex (overlaps rest) STORES then deny_root spelled ''is a credential store''
          else res_bind (home_of sb spelled) (\<lambda>home.
            let asked = path_add home rest in
            case hf_canonical fs asked of
              Inl Not_Found \<Rightarrow> Inr None
            | Inl (Io_Failed e) \<Rightarrow> Inl (Sandbox_Failed (''resolving read root '' @ asked @ '': '' @ e))
            | Inr root \<Rightarrow>
                if path_eq root home \<or> \<not> path_starts_with root home
                then deny_root spelled (''resolves to '' @ root @ '', outside the home'')
                else if overlaps_store fs home root then deny_root spelled (''resolves to '' @ root @ '', a credential store'')
                else case hf_is_dir fs root of
                  Inl e \<Rightarrow> Inl (Sandbox_Failed (''reading read root '' @ root @ '': '' @ e))
                | Inr dir \<Rightarrow> if dir then Inr (Some root) else deny_root spelled ''is not a directory''))"

fun read_roots_from :: "host_fs \<Rightarrow> policy \<Rightarrow> string list \<Rightarrow> string list \<Rightarrow> sandbox_error + string list" where
  "read_roots_from fs sb [] roots = Inr roots"
| "read_roots_from fs sb (r # rs) roots =
     res_bind (read_root fs sb r) (\<lambda>root.
       read_roots_from fs sb rs
         (case root of Some p \<Rightarrow> if list_ex (path_eq p) roots then roots else roots @ [p] | None \<Rightarrow> roots))"

definition read_roots :: "host_fs \<Rightarrow> policy \<Rightarrow> string list \<Rightarrow> sandbox_error + string list" where
  "read_roots fs sb rs = read_roots_from fs sb rs []"

section \<open>The environment\<close>

definition sandbox_vars :: "string \<Rightarrow> string \<Rightarrow> (string \<times> string) list" where
  "sandbox_vars scratch proxy =
     map (\<lambda>n. (n, scratch)) SCRATCH @ map (\<lambda>n. (n, ''http://'' @ proxy)) PROXY @ map (\<lambda>n. (n, LOOPBACK)) NO_PROXY"

fun grant_env :: "policy \<Rightarrow> (string \<times> string) list \<Rightarrow> (string, string) btree \<Rightarrow> sandbox_error + (string, string) btree" where
  "grant_env sb [] env = Inr env"
| "grant_env sb ((name, v) # granted) env =
     (if \<not> is_name name then Inl (Denied (sb_quoted name @ '' is not an environment variable name''))
      else case reserved name (so_refused (sp_options sb)) of
        Some why \<Rightarrow> Inl (Denied (''env '' @ sb_quoted name @ '' '' @ why))
      | None \<Rightarrow>
          if name \<in> set (so_inherit (sp_options sb)) then Inl (Denied (''env '' @ sb_quoted name @ '' is inherited from the host''))
          else res_bind (case strip_prefix ''~/'' v of
                   Some rest \<Rightarrow> res_map (\<lambda>home. path_add home rest) (home_of sb v)
                 | None \<Rightarrow> Inr v)
            (\<lambda>v. grant_env sb granted (bt_insert name v env)))"

definition sandbox_env :: "policy \<Rightarrow> string \<Rightarrow> string \<Rightarrow> (string \<times> string) list \<Rightarrow> sandbox_error + (string, string) btree" where
  "sandbox_env sb scratch proxy granted = grant_env sb granted (bt_extend (sandbox_vars scratch proxy) (sp_inherited sb))"

section \<open>A session\<close>

record session =
  ss_cwd :: string
  ss_access :: session_access
  ss_scratch :: string
  ss_env :: "(string, string) btree"
  ss_path :: string
  ss_read :: "string list"

text \<open>The scratch directory and the proxy's address are the host's to give.\<close>

definition host_step :: "string \<Rightarrow> string \<Rightarrow> string + unit \<Rightarrow> sandbox_error + unit" where
  "host_step doing path r = (case r of Inl e \<Rightarrow> Inl (Sandbox_Failed (doing @ '' '' @ path @ '': '' @ e)) | Inr _ \<Rightarrow> Inr ())"

definition session_prepare ::
  "host_fs \<Rightarrow> (sandbox_error + string) \<Rightarrow> (string list \<Rightarrow> sandbox_error + string) \<Rightarrow> policy \<Rightarrow> string option \<Rightarrow> grant \<Rightarrow> sandbox_error + session" where
  "session_prepare fs scratch_dir bind_proxy sb workspace g =
     res_bind scratch_dir (\<lambda>scratch.
     res_bind (case workspace of
         Some path \<Rightarrow> workspace_of fs sb path
       | None \<Rightarrow> (let cwd = path_add scratch ''cwd'' in
           res_map (\<lambda>_. (cwd, Private_Dir)) (host_step ''creating'' cwd (hf_create_dir fs cwd)))) (\<lambda>(cwd, a).
     res_bind (host_step ''opening'' cwd (hf_open fs cwd)) (\<lambda>_.
     res_bind (read_roots fs sb (gt_read g)) (\<lambda>read.
     res_bind (bind_proxy (gt_egress g)) (\<lambda>proxy.
     res_map (\<lambda>env. \<lparr>ss_cwd = cwd, ss_access = a, ss_scratch = scratch, ss_env = env, ss_path = host_path sb, ss_read = read\<rparr>)
       (sandbox_env sb scratch proxy (gt_env g)))))))"

definition session_program :: "host_fs \<Rightarrow> session \<Rightarrow> string \<Rightarrow> sandbox_error + string" where
  "session_program fs s program =
     (if CHR ''/'' \<in> set program then Inr program
      else case List.find (hf_executable fs) (map (\<lambda>dir. path_add dir program) (str_split (CHR '':'') (ss_path s))) of
        Some p \<Rightarrow> Inr p
      | None \<Rightarrow> Inl (Sandbox_Failed (sb_quoted program @ '' is not on PATH'')))"

section \<open>What a grant can open\<close>

definition root_ok :: "host_fs \<Rightarrow> policy \<Rightarrow> string \<Rightarrow> bool" where
  "root_ok fs sb root \<longleftrightarrow>
     (\<exists>home. sp_home sb = Some home \<and> path_starts_with root home \<and> \<not> path_eq root home \<and> hf_is_dir fs root = Inr True \<and>
        list_all (\<lambda>store. \<not> overlaps root (path_add home store) \<and>
            (case hf_canonical fs (path_add home store) of Inr r \<Rightarrow> \<not> overlaps root r | Inl _ \<Rightarrow> True)) STORES)"

lemma read_root_ok: "read_root fs sb spelled = Inr (Some root) \<Longrightarrow> root_ok fs sb root"
  by (auto simp: read_root_def deny_root_def home_of_def res_bind_Inr_iff Let_def root_ok_def overlaps_store_def list_all_iff list_ex_iff
      split: option.splits if_split_asm sum.splits io_failure.splits)

lemma read_roots_from_ok:
  "read_roots_from fs sb rs roots = Inr roots' \<Longrightarrow> list_all (root_ok fs sb) roots \<Longrightarrow> list_all (root_ok fs sb) roots'"
proof (induction rs arbitrary: roots)
  case (Cons r rs)
  then obtain root where r: "read_root fs sb r = Inr root"
    and rest: "read_roots_from fs sb rs (case root of Some p \<Rightarrow> if list_ex (path_eq p) roots then roots else roots @ [p] | None \<Rightarrow> roots) = Inr roots'"
    by (auto simp: res_bind_Inr_iff)
  show ?case
    by (rule Cons.IH [OF rest]) (use Cons.prems(2) read_root_ok [of fs sb r] r in \<open>auto split: option.split\<close>)
qed simp

lemma bt_extend_get: "bt_ok m \<Longrightarrow> bt_ok (bt_extend kvs m) \<and> map_of (bt_extend kvs m) = map_of m ++ map_of (rev kvs)"
  unfolding bt_extend_def by (rule collect_fold)

definition own_names :: "string list" where "own_names = SCRATCH @ PROXY @ NO_PROXY"

lemma reserved_own: "name \<in> set own_names \<Longrightarrow> reserved name refused \<noteq> None"
  by (auto simp: reserved_def own_names_def)

lemma sandbox_vars_get:
  "map_of (rev (sandbox_vars scratch proxy)) name = Some v \<longleftrightarrow> (name, v) \<in> set (sandbox_vars scratch proxy)"
proof -
  have "distinct (map fst (rev (sandbox_vars scratch proxy)))"
    by (simp add: sandbox_vars_def SCRATCH_def PROXY_def NO_PROXY_def)
  then show ?thesis by (simp add: map_of_eq_Some_iff)
qed

lemma sandbox_vars_names: "fst ` set (sandbox_vars scratch proxy) = set own_names"
proof -
  have "map fst (sandbox_vars scratch proxy) = own_names" by (simp add: sandbox_vars_def own_names_def comp_def)
  then show ?thesis by (metis set_map)
qed

lemma sandbox_var_own: "(n, v) \<in> set (sandbox_vars scratch proxy) \<Longrightarrow> n \<in> set own_names"
  using sandbox_vars_names [of scratch proxy] by (metis fst_conv imageI)

text \<open>What the grant adds: never a reserved name, never one the backend inherits.\<close>

lemma grant_env_get:
  "grant_env sb granted env = Inr env' \<Longrightarrow>
     (map_of env' name = map_of env name \<or>
      reserved name (so_refused (sp_options sb)) = None \<and> name \<notin> set (so_inherit (sp_options sb)) \<and> name \<in> fst ` set granted)"
proof (induction sb granted env rule: grant_env.induct)
  case (2 sb n v granted env)
  from "2.prems" obtain u where c: "is_name n" "reserved n (so_refused (sp_options sb)) = None" "n \<notin> set (so_inherit (sp_options sb))"
    and rest: "grant_env sb granted (bt_insert n u env) = Inr env'"
    by (auto simp: res_bind_Inr_iff split: if_split_asm option.splits)
  have "map_of env' name = map_of (bt_insert n u env) name \<or>
      reserved name (so_refused (sp_options sb)) = None \<and> name \<notin> set (so_inherit (sp_options sb)) \<and> name \<in> fst ` set granted"
    using "2.IH" c rest by blast
  with c show ?case by (cases "name = n") (simp_all add: bt_get_insert)
qed simp

lemma check_inherit_ok: "check_inherit refused names = Inr () \<Longrightarrow> list_all (\<lambda>n. reserved n refused = None) names"
  by (induction names) (auto split: option.splits)

lemma connect_facts:
  assumes "sandbox_connect fs vars home_var probed options = Inr sb"
  shows "list_all (\<lambda>n. reserved n (so_refused options) = None) (so_inherit options)"
    and "so_refused (sp_options sb) = so_refused options" and "so_inherit (sp_options sb) = so_inherit options"
    and "bt_ok (sp_inherited sb)"
    and "map_of (sp_inherited sb) n = Some v \<Longrightarrow> (n, v) \<in> set vars \<and> inherits n (so_inherit options)"
proof -
  have sb: "check_inherit (so_refused options) (so_inherit options) = Inr ()"
    "so_refused (sp_options sb) = so_refused options" "so_inherit (sp_options sb) = so_inherit options"
    "sp_inherited sb = bt_extend (filter (\<lambda>(name, _). inherits name (so_inherit options)) vars) []"
    using assms by (auto simp: sandbox_connect_def res_bind_Inr_iff res_map_Inr_iff)
  show "list_all (\<lambda>n. reserved n (so_refused options) = None) (so_inherit options)" by (rule check_inherit_ok [OF sb(1)])
  show "so_refused (sp_options sb) = so_refused options" "so_inherit (sp_options sb) = so_inherit options" by (rule sb)+
  let ?kept = "filter (\<lambda>(name, _). inherits name (so_inherit options)) vars"
  have m: "bt_ok (sp_inherited sb) \<and> map_of (sp_inherited sb) = map_of (rev ?kept)"
    using bt_extend_get [of "[]" ?kept] unfolding sb(4) by simp
  then show "bt_ok (sp_inherited sb)" ..
  assume "map_of (sp_inherited sb) n = Some v"
  then have "map_of (rev ?kept) n = Some v" using m by simp
  from map_of_SomeD [OF this] show "(n, v) \<in> set vars \<and> inherits n (so_inherit options)" by simp
qed

lemma sandbox_env_own:
  assumes ok: "bt_ok (sp_inherited sb)" and e: "sandbox_env sb scratch proxy granted = Inr env"
  shows "list_all (\<lambda>(n, v). map_of env n = Some v) (sandbox_vars scratch proxy)"
  unfolding list_all_iff
proof clarify
  fix n v assume nv: "(n, v) \<in> set (sandbox_vars scratch proxy)"
  then have "n \<in> set own_names" using sandbox_vars_names [of scratch proxy] by force
  then have "map_of env n = map_of (bt_extend (sandbox_vars scratch proxy) (sp_inherited sb)) n"
    using grant_env_get [OF e [unfolded sandbox_env_def], of n] reserved_own [of n "so_refused (sp_options sb)"] by auto
  also have "\<dots> = Some v" using bt_extend_get [OF ok, of "sandbox_vars scratch proxy"] nv
    by (simp add: map_add_def sandbox_vars_get [THEN iffD2])
  finally show "map_of env n = Some v" .
qed

lemma sandbox_env_other:
  assumes ok: "bt_ok (sp_inherited sb)" and e: "sandbox_env sb scratch proxy granted = Inr env" and v: "map_of env n = Some v"
  shows "n \<in> set own_names \<or> map_of (sp_inherited sb) n = Some v \<or>
    reserved n (so_refused (sp_options sb)) = None \<and> n \<notin> set (so_inherit (sp_options sb)) \<and> n \<in> fst ` set granted"
proof -
  have "map_of (bt_extend (sandbox_vars scratch proxy) (sp_inherited sb)) n = Some v \<Longrightarrow>
      n \<in> set own_names \<or> map_of (sp_inherited sb) n = Some v"
    using bt_extend_get [OF ok, of "sandbox_vars scratch proxy"]
    by (auto simp: map_add_def sandbox_vars_get split: option.splits dest: sandbox_var_own)
  with grant_env_get [OF e [unfolded sandbox_env_def], of n] v show ?thesis by auto
qed

text \<open>
  C24. What a session opens: every directory it reads is beneath the operator's home and at,
  above and beneath no credential store, as spelled and as resolved; its scratch and proxy
  variables are the sandbox's whatever the grant sets; and any other variable is either the
  host's own, of a name the sandbox inherits, or one the grant sets of a name the sandbox
  neither reserves nor inherits. Programs are looked up on the host's path.
\<close>

theorem session_confined:
  "case sandbox_connect fs0 vars home_var probed options of Inl e \<Rightarrow> True | Inr sb \<Rightarrow>
   (case session_prepare fs scratch_dir bind_proxy sb workspace g of Inl e \<Rightarrow> True | Inr s \<Rightarrow>
      list_all (root_ok fs sb) (ss_read s) \<and>
      (\<exists>proxy. bind_proxy (gt_egress g) = Inr proxy \<and>
        list_all (\<lambda>(n, v). map_of (ss_env s) n = Some v) (sandbox_vars (ss_scratch s) proxy)) \<and>
      (\<forall>n. case map_of (ss_env s) n of None \<Rightarrow> True | Some v \<Rightarrow>
        n \<in> set own_names \<or> (n, v) \<in> set vars \<and> inherits n (so_inherit options) \<or>
        reserved n (so_refused options) = None \<and> n \<notin> set (so_inherit options) \<and> n \<in> fst ` set (gt_env g)) \<and>
      ss_path s = host_path sb)"
proof (cases "sandbox_connect fs0 vars home_var probed options")
  case (Inr sb)
  note c = connect_facts [OF Inr]
  show ?thesis
  proof (cases "session_prepare fs scratch_dir bind_proxy sb workspace g")
    case (Inr s)
    then obtain scratch cwd a read proxy env where
      read: "read_roots fs sb (gt_read g) = Inr read" and proxy: "bind_proxy (gt_egress g) = Inr proxy"
      and env: "sandbox_env sb scratch proxy (gt_env g) = Inr env"
      and s: "s = \<lparr>ss_cwd = cwd, ss_access = a, ss_scratch = scratch, ss_env = env, ss_path = host_path sb, ss_read = read\<rparr>"
      by (auto simp: session_prepare_def res_bind_Inr_iff res_map_Inr_iff)
    have 1: "list_all (root_ok fs sb) read" using read_roots_from_ok [OF read [unfolded read_roots_def]] by simp
    have 2: "list_all (\<lambda>(n, v). map_of env n = Some v) (sandbox_vars scratch proxy)" by (rule sandbox_env_own [OF c(4) env])
    have 3: "n \<in> set own_names \<or> (n, v) \<in> set vars \<and> inherits n (so_inherit options) \<or>
        reserved n (so_refused options) = None \<and> n \<notin> set (so_inherit options) \<and> n \<in> fst ` set (gt_env g)"
      if "map_of env n = Some v" for n v
      using sandbox_env_other [OF c(4) env that] c(5) [of n v] c(2,3) by auto
    show ?thesis unfolding \<open>sandbox_connect fs0 vars home_var probed options = Inr sb\<close> Inr sum.case s session.simps
      using 1 2 3 proxy by (auto split: option.split)
  qed (simp add: \<open>sandbox_connect fs0 vars home_var probed options = Inr sb\<close>)
qed simp

text \<open>
  A variable that every process inherits is inherited although the backend refuses its name:
  the refused names are held against the grant and the backend's own list only.
\<close>

lemma refused_name_inherited:
  "case sandbox_connect
      \<lparr>hf_canonical = Inr, hf_is_dir = (\<lambda>_. Inr True), hf_executable = (\<lambda>_. True), hf_absolute = Inr, hf_create_dir_all = (\<lambda>_. Inr ()),
       hf_create_dir = (\<lambda>_. Inr ()), hf_open = (\<lambda>_. Inr ())\<rparr>
      [(''TERM'', ''xterm'')] None (Inr ()) \<lparr>so_shell_roots = [], so_inherit = [], so_refused = [''TERM'']\<rparr> of
     Inr sb \<Rightarrow> res_map (\<lambda>env. map_of env ''TERM'') (sandbox_env sb ''/s'' ''127.0.0.1:1'' []) = Inr (Some ''xterm'')
   | Inl _ \<Rightarrow> False"
  by code_simp

end
