(* ===== verification/Git_Command.thy ===== *)
theory Git_Command
  imports Rust_Text Rust_Effect Rust_BTree "HOL-Library.List_Lexorder" "HOL-Library.Char_ord"
begin

text \<open>
  One \<open>git\<close> process of the backend (\<open>src/crates/git/src/command.rs\<close>) and the client's map of
  the working copies it laid (\<open>src/crates/git/src/lib.rs\<close>). Git itself, the file system and
  the process's current directory are the parameters of \<open>git_env\<close>; every process spawned is
  recorded in the log of the state, so what the backend hands to git can be stated.
\<close>

section \<open>Errors, places and outputs\<close>

text \<open>The typed errors of \<open>omnia:vcs\<close>, and \<open>anyhow\<close>'s context message for any other.\<close>

datatype vcs_error =
  Not_A_Repository
| Exists_At string
| Not_Found string
| Access_Denied string
| Diverged_From string
| Other_Error string
| Untyped string

text \<open>A place: its recorded path and the directory handle the runtime opened.\<close>

record place =
  pl_path :: string
  pl_dir :: nat

record git_output =
  out_code :: "int option"
  out_stdout :: string
  out_stderr :: string

definition output_success :: "git_output \<Rightarrow> bool" where
  "output_success o1 \<longleftrightarrow> out_code o1 = Some 0"

definition output_text :: "git_output \<Rightarrow> string" where
  "output_text o1 = utf8_lossy (out_stdout o1)"

section \<open>A process\<close>

record invocation =
  iv_cwd :: "nat option"
  iv_args :: "string list"
  iv_unset :: "string list"
  iv_env :: "(string \<times> string) list"

text \<open>
  The world the backend acts on: \<open>ge_run\<close> runs the binary and gives its exit code, stdout and
  stderr, or the context of a failed spawn or wait; the other fields are the file system.
\<close>

record 'w git_env =
  ge_binary :: string
  ge_run :: "string \<Rightarrow> invocation \<Rightarrow> 'w \<Rightarrow> (string + git_output) \<times> 'w"
  ge_absolute :: "string \<Rightarrow> string option"
  ge_exists :: "nat \<Rightarrow> string \<Rightarrow> 'w \<Rightarrow> bool"
  ge_create_dir :: "nat \<Rightarrow> string \<Rightarrow> 'w \<Rightarrow> bool \<times> 'w"
  ge_write :: "nat \<Rightarrow> string \<Rightarrow> string \<Rightarrow> 'w \<Rightarrow> bool \<times> 'w"
  ge_temp :: "string \<Rightarrow> 'w \<Rightarrow> (string + string) \<times> 'w"

record 'w git_st =
  gs_world :: 'w
  gs_worktrees :: "(string, string) btree"
  gs_log :: "invocation list"

type_synonym ('w, 'a) git = "('w git_st, vcs_error, 'a) act"

definition SCRUBBED :: "string list" where
  "SCRUBBED = [''GIT_DIR'', ''GIT_WORK_TREE'', ''GIT_COMMON_DIR'', ''GIT_INDEX_FILE'']"

definition FIXED :: "(string \<times> string) list" where
  "FIXED =
     [(''GIT_TERMINAL_PROMPT'', ''0''), (''GIT_EDITOR'', '':''), (''GIT_MERGE_AUTOEDIT'', ''no''),
      (''GIT_ALLOW_PROTOCOL'', ''''), (''GIT_NO_LAZY_FETCH'', ''1''), (''LC_ALL'', ''C'')]"

text \<open>\<open>Path::parent\<close> of a slash-separated path without dot components.\<close>

definition trim_slashes :: "string \<Rightarrow> string" where
  "trim_slashes p = rev (dropWhile (\<lambda>c. c = CHR ''/'') (rev p))"

definition path_parent :: "string \<Rightarrow> string option" where
  "path_parent p =
     (let q = trim_slashes p
      in if q = [] then None
         else (case rsplit_once CHR ''/'' q of
                 None \<Rightarrow> Some []
               | Some (dir, _) \<Rightarrow> Some (if trim_slashes dir = [] then ''/'' else trim_slashes dir)))"

definition ceiling_dir :: "'w git_env \<Rightarrow> place \<Rightarrow> string option" where
  "ceiling_dir env pl =
     (case ge_absolute env (pl_path pl) of None \<Rightarrow> None | Some p \<Rightarrow> path_parent p)"

section \<open>The working copies\<close>

definition worktree_key :: "'w git_env \<Rightarrow> place \<Rightarrow> string option" where
  "worktree_key env at = ge_absolute env (pl_path at)"

definition client_register :: "'w git_env \<Rightarrow> place \<Rightarrow> string \<Rightarrow> ('w, unit) git" where
  "client_register env at gitdir =
     act_modify (\<lambda>s. case worktree_key env at of
         None \<Rightarrow> s
       | Some worktree \<Rightarrow> s\<lparr>gs_worktrees := bt_insert worktree gitdir (gs_worktrees s)\<rparr>)"

definition client_forget :: "'w git_env \<Rightarrow> place \<Rightarrow> ('w, unit) git" where
  "client_forget env at =
     act_modify (\<lambda>s. case worktree_key env at of
         None \<Rightarrow> s
       | Some worktree \<Rightarrow> s\<lparr>gs_worktrees := bt_remove worktree (gs_worktrees s)\<rparr>)"

definition client_gitdir :: "'w git_env \<Rightarrow> place \<Rightarrow> 'w git_st \<Rightarrow> string option" where
  "client_gitdir env at s =
     (case worktree_key env at of None \<Rightarrow> None | Some worktree \<Rightarrow> bt_get (gs_worktrees s) worktree)"

section \<open>\<open>Client::git\<close>\<close>

text \<open>
  The process for a command line: entered in the place's handle, addressed through the
  recorded gitdir or bounded by the ceiling, the repository selection unset, and the fixed
  environment followed by the operation's own.
\<close>

definition git_invocation ::
  "'w git_env \<Rightarrow> place option \<Rightarrow> string list \<Rightarrow> (string \<times> string) list \<Rightarrow> 'w git_st \<Rightarrow> invocation" where
  "git_invocation env at args extra s =
     (case at of
        None \<Rightarrow> \<lparr>iv_cwd = None, iv_args = args, iv_unset = SCRUBBED, iv_env = FIXED @ extra\<rparr>
      | Some pl \<Rightarrow>
          (case client_gitdir env pl s of
             Some gitdir \<Rightarrow>
               \<lparr>iv_cwd = Some (pl_dir pl), iv_args = (''--git-dir='' @ gitdir) # args,
                iv_unset = SCRUBBED, iv_env = FIXED @ extra\<rparr>
           | None \<Rightarrow>
               \<lparr>iv_cwd = Some (pl_dir pl), iv_args = args, iv_unset = SCRUBBED,
                iv_env = (case ceiling_dir env pl of
                            None \<Rightarrow> [] | Some c \<Rightarrow> [(''GIT_CEILING_DIRECTORIES'', c)]) @ FIXED @ extra\<rparr>))"

definition client_git ::
  "'w git_env \<Rightarrow> place option \<Rightarrow> string list \<Rightarrow> (string \<times> string) list \<Rightarrow> ('w, git_output) git" where
  "client_git env at args extra =
     (\<lambda>s. let iv = git_invocation env at args extra s in
        case ge_run env (ge_binary env) iv (gs_world s) of
          (r, w) \<Rightarrow>
            (case r of
               Inl e \<Rightarrow> Inl (Untyped e)
             | Inr o1 \<Rightarrow> Inr (o1\<lparr>out_stderr := utf8_lossy (out_stderr o1)\<rparr>),
             s\<lparr>gs_world := w, gs_log := gs_log s @ [iv]\<rparr>))"

definition display_path :: "place \<Rightarrow> string" where
  "display_path pl = utf8_lossy (pl_path pl)"

section \<open>The version gate\<close>

fun digits_value :: "string \<Rightarrow> nat \<Rightarrow> nat" where
  "digits_value [] n = n"
| "digits_value (c # cs) n = digits_value cs (n * 10 + (of_char c - 48))"

definition is_ascii_digit :: "char \<Rightarrow> bool" where
  "is_ascii_digit c \<longleftrightarrow> 48 \<le> (of_char c :: nat) \<and> (of_char c :: nat) \<le> 57"

text \<open>\<open>digits.parse::<u32>()\<close> of the leading digits: none, or too many, is \<open>None\<close>.\<close>

definition leading_number :: "string \<Rightarrow> nat option" where
  "leading_number part =
     (let digits = takeWhile is_ascii_digit part
      in if digits = [] \<or> 4294967295 < digits_value digits 0 then None else Some (digits_value digits 0))"

text \<open>\<open>split_whitespace().next()\<close>\<close>

definition first_word :: "string \<Rightarrow> string option" where
  "first_word s =
     (let r = dropWhile ascii_ws s in if r = [] then None else Some (takeWhile (\<lambda>c. \<not> ascii_ws c) r))"

definition version :: "string \<Rightarrow> (nat \<times> nat \<times> nat) option" where
  "version stdout =
     (case strip_prefix ''git version '' (str_trim stdout) of
        None \<Rightarrow> None
      | Some rest \<Rightarrow>
          (case first_word rest of
             None \<Rightarrow> None
           | Some token \<Rightarrow>
               (case map leading_number (str_split CHR ''.'' token) of
                  Some major # Some minor # parts \<Rightarrow>
                    Some (major, minor, (case parts of Some patch # _ \<Rightarrow> patch | _ \<Rightarrow> 0))
                | _ \<Rightarrow> None)))"

definition MIN_VERSION :: "nat \<times> nat" where "MIN_VERSION = (2, 26)"

definition version_ok :: "nat \<Rightarrow> nat \<Rightarrow> bool" where
  "version_ok major minor \<longleftrightarrow>
     fst MIN_VERSION < major \<or> (major = fst MIN_VERSION \<and> snd MIN_VERSION \<le> minor)"

definition connect_with :: "'w git_env \<Rightarrow> ('w, unit) git" where
  "connect_with env =
     act_bind (client_git env None [''--version''] []) (\<lambda>output1.
       if \<not> output_success output1 then
         act_fail (Untyped (''`git --version` failed: '' @ str_trim (out_stderr output1)))
       else
         (case version (output_text output1) of
            None \<Rightarrow> act_fail (Untyped (''unrecognised `git --version`: '' @ str_trim (output_text output1)))
          | Some (major, minor, patch) \<Rightarrow>
              if version_ok major minor then act_return ()
              else act_fail (Untyped ''git is too old'')))"

section \<open>Lemmas\<close>

text \<open>The last setting of a variable is the one the process sees.\<close>

definition iv_var :: "invocation \<Rightarrow> string \<Rightarrow> string option" where
  "iv_var iv k = map_of (rev (iv_env iv)) k"

lemma client_git_log:
  "gs_log (snd (client_git env at args extra s)) = gs_log s @ [git_invocation env at args extra s]"
  by (simp add: client_git_def Let_def split: prod.splits)

lemma client_git_worktrees [simp]:
  "gs_worktrees (snd (client_git env at args extra s)) = gs_worktrees s"
  by (simp add: client_git_def Let_def split: prod.splits)

lemma register_log [simp]: "gs_log (snd (client_register env at g s)) = gs_log s"
  and forget_log [simp]: "gs_log (snd (client_forget env at s)) = gs_log s"
  by (auto simp: client_register_def client_forget_def split: option.splits)

lemma fixed_vars:
  assumes "k \<in> fst ` set FIXED" and "k \<notin> fst ` set extra"
  shows "iv_var (git_invocation env at args extra s) k = map_of (rev FIXED) k"
proof -
  have "map_of (rev extra) k = None" using assms(2) by (simp add: map_of_eq_None_iff)
  moreover have "map_of (rev FIXED) k \<noteq> None" using assms(1) by (simp add: map_of_eq_None_iff)
  ultimately show ?thesis
    by (auto simp: git_invocation_def iv_var_def map_add_def split: option.split)
qed

lemma extra_var:
  "map_of (rev extra) k = Some v \<Longrightarrow> iv_var (git_invocation env at args extra s) k = Some v"
  by (auto simp: git_invocation_def iv_var_def map_add_def split: option.split)

end
