(* ===== verification/Git_Refusal.thy ===== *)
theory Git_Refusal
  imports Git_Command
begin

text \<open>
  What a failed git said, read into a class (\<open>src/crates/git/src/vcs/refusal.rs\<close>) and into
  the typed error of the operation (\<open>refuse\<close> in \<open>src/crates/git/src/vcs.rs\<close>).
\<close>

datatype refusal_class =
  Class_NotARepository | Class_Exists | Class_NotFound | Class_Access | Class_Diverged | Class_Other

definition NOT_A_REPOSITORY :: "string list" where
  "NOT_A_REPOSITORY = [''not a git repository'', ''must be run in a work tree'']"

definition EXISTS :: "string list" where
  "EXISTS = [''already exists'']"

definition DIVERGED :: "string list" where
  "DIVERGED = [''(non-fast-forward)'', ''(fetch first)'', ''(stale info)'']"

definition NOT_FOUND :: "string list" where
  "NOT_FOUND =
     [''unknown revision'', ''not a valid object name'', ''invalid reference'',
      ''Needed a single revision'', ''bad revision'', ''does not appear to be a git repository'',
      ''couldn'' @ [CHR 0x27] @ ''t find remote ref'', ''no such remote'', ''not something we can merge'',
      ''remote ref does not exist'', ''Remote branch'', ''does not match any'', ''not found'']"

definition ACCESS :: "string list" where
  "ACCESS =
     [''Authentication failed'', ''Permission denied'', ''could not read Username'',
      ''terminal prompts disabled'', ''Could not resolve host'',
      ''Could not read from remote repository'', ''Connection refused'', ''Connection timed out'',
      ''Network is unreachable'', ''Host key verification failed'', ''unable to access'',
      ''The requested URL returned error: 403'']"

definition says :: "string \<Rightarrow> string list \<Rightarrow> bool" where
  "says stderr patterns \<longleftrightarrow> (\<exists>pattern\<in>set patterns. str_contains stderr pattern)"

definition classify :: "string \<Rightarrow> refusal_class" where
  "classify stderr =
     (if says stderr NOT_A_REPOSITORY then Class_NotARepository
      else if says stderr EXISTS then Class_Exists
      else if says stderr DIVERGED then Class_Diverged
      else if says stderr NOT_FOUND then Class_NotFound
      else if says stderr ACCESS then Class_Access
      else Class_Other)"

definition refuse :: "git_output \<Rightarrow> place \<Rightarrow> string \<Rightarrow> string option \<Rightarrow> vcs_error" where
  "refuse o1 at missing label =
     (let detail = str_trim (out_stderr o1)
      in case classify (out_stderr o1) of
           Class_NotARepository \<Rightarrow> Not_A_Repository
         | Class_Exists \<Rightarrow> Exists_At (display_path at)
         | Class_NotFound \<Rightarrow> Not_Found missing
         | Class_Access \<Rightarrow> Access_Denied detail
         | Class_Diverged \<Rightarrow> (case label of Some l \<Rightarrow> Diverged_From l | None \<Rightarrow> Other_Error detail)
         | Class_Other \<Rightarrow> Other_Error detail)"

text \<open>\<open>Repo::refuse_push\<close>\<close>

definition refuse_push :: "git_output \<Rightarrow> place \<Rightarrow> string \<Rightarrow> string \<Rightarrow> vcs_error" where
  "refuse_push o1 at remote label =
     (let missing = (if str_contains (out_stderr o1) ''src refspec'' then label else remote)
      in refuse o1 at missing (Some label))"

lemma says_iff: "says s ps \<longleftrightarrow> (\<exists>p\<in>set ps. \<exists>a b. s = a @ p @ b)"
  by (simp add: says_def str_contains_iff)

text \<open>An operation that pushes nothing is never refused as diverged.\<close>

lemma refuse_not_diverged: "refuse o1 at missing None \<noteq> Diverged_From l"
  by (simp add: refuse_def Let_def split: refusal_class.split)

lemma refuse_push_diverged:
  "refuse_push o1 at remote label = Diverged_From l \<longleftrightarrow> classify (out_stderr o1) = Class_Diverged \<and> l = label"
  by (auto simp: refuse_push_def refuse_def Let_def split: refusal_class.split)

end
