(* ===== verification/Git_Pins.thy ===== *)
theory Git_Pins
  imports Git_Refusal
begin

text \<open>
  The pins that hold one repository's operations to host policy
  (\<open>src/crates/git/src/command/pins.rs\<close>): reading the configuration listing, building the
  \<open>-c\<close> overrides, and the protocol and pack command of a transport. How git reads a \<open>-c\<close>
  argument is a parameter of the theorems, with its documented behaviour as hypothesis.
\<close>

section \<open>Settings\<close>

datatype scope = Host | Repo

record setting =
  st_scope :: scope
  st_key :: string
  st_value :: string

record pins =
  pn_pins :: "string list"
  pn_blocked :: "string option"

definition FORCED :: "string list" where
  "FORCED =
     [''core.hooksPath=/dev/null'', ''core.fsmonitor=false'', ''core.alternateRefsCommand='',
      ''commit.gpgsign=false'', ''push.gpgsign=false'', ''merge.verifySignatures=false'',
      ''submodule.recurse=false'', ''fetch.recurseSubmodules=no'']"

definition HOST_PINNED_KEYS :: "(string \<times> string) list" where
  "HOST_PINNED_KEYS =
     [(''core.sshcommand'', ''core.sshCommand''), (''core.askpass'', ''core.askPass''),
      (''gpg.program'', ''gpg.program''), (''gpg.openpgp.program'', ''gpg.openpgp.program''),
      (''gpg.x509.program'', ''gpg.x509.program''), (''gpg.ssh.program'', ''gpg.ssh.program'')]"

definition ALLOWED_HTTP_KEYS :: "string list" where
  "ALLOWED_HTTP_KEYS =
     [''postbuffer'', ''lowspeedlimit'', ''lowspeedtime'', ''maxrequests'', ''minsessions'',
      ''useragent'', ''version'']"

definition LOCAL_PACK_PINS :: "string list" where
  "LOCAL_PACK_PINS =
     [''core.hooksPath=/dev/null'', ''core.alternateRefsCommand='', ''core.fsmonitor=false'',
      ''receive.denyCurrentBranch=refuse'']"

definition is_repo :: "setting \<Rightarrow> bool" where
  "is_repo s \<longleftrightarrow> st_scope s = Repo"

definition is_host :: "setting \<Rightarrow> bool" where
  "is_host s \<longleftrightarrow> st_scope s = Host"

definition is_driver_key :: "string \<Rightarrow> bool" where
  "is_driver_key key \<longleftrightarrow>
     (case rsplit_once CHR ''.'' key of
        None \<Rightarrow> False
      | Some (named, lst) \<Rightarrow>
          (starts_with named ''filter.'' \<and> lst \<in> {''clean'', ''smudge'', ''process''}) \<or>
          (starts_with named ''merge.'' \<and> lst = ''driver''))"

definition is_driver :: "setting \<Rightarrow> bool" where
  "is_driver s \<longleftrightarrow> is_driver_key (st_key s)"

definition is_helper_key :: "string \<Rightarrow> bool" where
  "is_helper_key key \<longleftrightarrow>
     starts_with key ''credential.'' \<and>
     (case rsplit_once CHR ''.'' key of None \<Rightarrow> False | Some (_, lst) \<Rightarrow> lst = ''helper'')"

definition is_helper :: "setting \<Rightarrow> bool" where
  "is_helper s \<longleftrightarrow> is_helper_key (st_key s)"

definition is_transport_override :: "setting \<Rightarrow> bool" where
  "is_transport_override s \<longleftrightarrow>
     (case rsplit_once CHR ''.'' (st_key s) of
        None \<Rightarrow> False
      | Some (named, lst) \<Rightarrow>
          (let rewrite = starts_with named ''url.'' \<and> lst \<in> {''insteadof'', ''pushinsteadof''};
               http = (named = ''http'' \<or> starts_with named ''http.'') \<and> lst \<notin> set ALLOWED_HTTP_KEYS;
               proxy = starts_with named ''remote.'' \<and> lst \<in> {''proxy'', ''proxyauthmethod''}
           in rewrite \<or> http \<or> proxy))"

section \<open>The listing\<close>

text \<open>
  \<open>config --show-scope --list -z\<close>: scope and pair by turns. A repository key that is not
  UTF-8 is the error.
\<close>

definition key_of_pair :: "string \<Rightarrow> string" where
  "key_of_pair pair = (case split_once CHR 0x0A pair of Some (key, _) \<Rightarrow> key | None \<Rightarrow> pair)"

definition value_of_pair :: "string \<Rightarrow> string" where
  "value_of_pair pair = (case split_once CHR 0x0A pair of Some (_, v) \<Rightarrow> v | None \<Rightarrow> [])"

definition scope_of :: "string \<Rightarrow> scope" where
  "scope_of word = (if word \<in> {''local'', ''worktree''} then Repo else Host)"

fun parse_tokens :: "string list \<Rightarrow> string + setting list" where
  "parse_tokens (word # pair # tokens) =
     (if word = [] then Inr []
      else
        (let scope = scope_of word; key = key_of_pair pair in
         if \<not> utf8_valid key \<and> scope = Repo then Inl (utf8_lossy key)
         else
           res_map (\<lambda>rest. \<lparr>st_scope = scope, st_key = utf8_lossy key,
                            st_value = utf8_lossy (value_of_pair pair)\<rparr> # rest)
             (parse_tokens tokens)))"
| "parse_tokens _ = Inr []"

definition parse_listing :: "string \<Rightarrow> string + setting list" where
  "parse_listing listing = parse_tokens (str_split CHR 0x00 listing)"

section \<open>Building the pins\<close>

definition repo_set :: "setting list \<Rightarrow> string \<Rightarrow> bool" where
  "repo_set settings key \<longleftrightarrow> (\<exists>s\<in>set settings. is_repo s \<and> st_key s = key)"

definition host_values :: "setting list \<Rightarrow> string \<Rightarrow> string list" where
  "host_values settings key = map st_value (filter (\<lambda>s. is_host s \<and> st_key s = key) settings)"

definition host_value :: "setting list \<Rightarrow> string \<Rightarrow> string option" where
  "host_value settings key =
     (let vs = host_values settings key in if vs = [] then None else Some (last vs))"

fun repo_credential_loop :: "setting list \<Rightarrow> string list \<Rightarrow> string list" where
  "repo_credential_loop [] keys = keys"
| "repo_credential_loop (s # ss) keys =
     repo_credential_loop ss
       (if is_repo s \<and> is_helper s \<and> st_key s \<notin> set keys then keys @ [st_key s] else keys)"

definition repo_credential_keys :: "setting list \<Rightarrow> string list" where
  "repo_credential_keys settings = repo_credential_loop settings []"

definition pin_of :: "string \<Rightarrow> string \<Rightarrow> string" where
  "pin_of key v = key @ ''='' @ v"

definition host_pins :: "setting list \<Rightarrow> string list" where
  "host_pins settings =
     concat (map (\<lambda>(key, pin).
        if repo_set settings key
        then [pin_of pin (case host_value settings key of Some v \<Rightarrow> v | None \<Rightarrow> [])] else [])
      HOST_PINNED_KEYS)"

definition driver_pins :: "setting list \<Rightarrow> string list" where
  "driver_pins settings =
     map (\<lambda>s. pin_of (st_key s) []) (filter (\<lambda>s. is_repo s \<and> is_driver s) settings)"

definition credential_pins :: "setting list \<Rightarrow> string list" where
  "credential_pins settings =
     concat (map (\<lambda>key. pin_of key [] # map (pin_of key) (host_values settings key))
       (repo_credential_keys settings))"

definition pins_build :: "setting list \<Rightarrow> pins" where
  "pins_build settings =
     \<lparr>pn_pins = FORCED @ host_pins settings @ driver_pins settings @ credential_pins settings,
      pn_blocked = map_option st_key (List.find (\<lambda>s. is_repo s \<and> is_transport_override s) settings)\<rparr>"

definition pins_forced :: pins where
  "pins_forced = pins_build []"

definition pins_args :: "pins \<Rightarrow> string list" where
  "pins_args p = concat (map (\<lambda>pin. [''-c'', pin]) (pn_pins p))"

definition pins_read :: "'w git_env \<Rightarrow> place \<Rightarrow> ('w, pins) git" where
  "pins_read env at =
     act_bind (client_git env (Some at) [''config'', ''--show-scope'', ''--list'', ''-z''] []) (\<lambda>o1.
       if \<not> output_success o1 then act_return pins_forced
       else
         (case parse_listing (out_stdout o1) of
            Inl key \<Rightarrow>
              act_fail (Other_Error (display_path at @ '': the repository sets '' @ key @
                '', which is not UTF-8 and no pin can name''))
          | Inr settings \<Rightarrow> act_return (pins_build settings)))"

section \<open>Transports\<close>

definition is_local :: "string \<Rightarrow> bool" where
  "is_local address =
     (case split_once_str ''://'' address of
        Some (scheme, _) \<Rightarrow> eq_ignore_ascii_case scheme ''file''
      | None \<Rightarrow>
          (case (str_find CHR '':'' address, str_find CHR ''/'' address) of
             (Some colon, Some slash) \<Rightarrow> slash < colon
           | (Some _, None) \<Rightarrow> False
           | (None, _) \<Rightarrow> True))"

definition shell_quote :: "string \<Rightarrow> string" where
  "shell_quote v =
     [CHR 0x27] @ str_replace_char (CHR 0x27) [CHR 0x27, CHR 0x5C, CHR 0x27, CHR 0x27] v @ [CHR 0x27]"

definition pack_arg :: "string \<Rightarrow> string \<Rightarrow> string" where
  "pack_arg binary operation =
     ''--'' @ operation @ ''='' @ shell_quote binary @
     concat (map (\<lambda>pin. '' -c '' @ pin) LOCAL_PACK_PINS) @ '' '' @ operation"

definition transport_args :: "string \<Rightarrow> string \<Rightarrow> bool \<Rightarrow> string \<times> string" where
  "transport_args binary address push =
     (let operation = (if push then ''receive-pack'' else ''upload-pack'')
      in if is_local address then (''file'', pack_arg binary operation)
         else (''http:https:ssh'', ''--'' @ operation @ ''=git-'' @ operation))"

section \<open>What the pins set\<close>

text \<open>
  Git's reading of a \<open>-c\<close> argument, a parameter: \<open>cli arg\<close> is the key as git lists it and
  the value. Documented: the name ends at the first equals sign, section and variable names
  are case-insensitive and listed in lower case, and the name of a listed key is itself.
\<close>

definition cli_reads ::
  "(string \<Rightarrow> (string \<times> string) option) \<Rightarrow> (string \<Rightarrow> string) \<Rightarrow> bool" where
  "cli_reads cli canon \<longleftrightarrow>
     (\<forall>k v. CHR ''='' \<notin> set k \<longrightarrow> cli (pin_of k v) = Some (canon k, v)) \<and>
     (\<forall>k. CHR ''='' \<notin> set k \<longrightarrow> CHR ''='' \<notin> set (canon k)) \<and>
     (\<forall>(key, pin)\<in>set HOST_PINNED_KEYS. canon pin = key) \<and>
     canon ''core.hooksPath'' = ''core.hookspath'' \<and> canon ''core.fsmonitor'' = ''core.fsmonitor'' \<and>
     canon ''core.alternateRefsCommand'' = ''core.alternaterefscommand'' \<and>
     canon ''commit.gpgsign'' = ''commit.gpgsign'' \<and> canon ''push.gpgsign'' = ''push.gpgsign'' \<and>
     canon ''merge.verifySignatures'' = ''merge.verifysignatures'' \<and>
     canon ''submodule.recurse'' = ''submodule.recurse'' \<and>
     canon ''fetch.recurseSubmodules'' = ''fetch.recursesubmodules''"

text \<open>The values a command line of pins gives a key, in order.\<close>

definition cli_values :: "(string \<Rightarrow> (string \<times> string) option) \<Rightarrow> string list \<Rightarrow> string \<Rightarrow> string list" where
  "cli_values cli ps key =
     concat (map (\<lambda>p. case cli p of Some (k, v) \<Rightarrow> if k = key then [v] else [] | None \<Rightarrow> []) ps)"

definition nameable :: "(string \<Rightarrow> string) \<Rightarrow> setting list \<Rightarrow> bool" where
  "nameable canon settings \<longleftrightarrow>
     (\<forall>s\<in>set settings. is_repo s \<longrightarrow> CHR ''='' \<notin> set (st_key s) \<and> canon (st_key s) = st_key s)"

lemma cli_values_append: "cli_values cli (ps @ qs) k = cli_values cli ps k @ cli_values cli qs k"
  by (simp add: cli_values_def)

lemma cli_values_Nil [simp]: "cli_values cli [] k = []"
  by (simp add: cli_values_def)

lemma cli_values_pin:
  "cli_reads cli canon \<Longrightarrow> CHR ''='' \<notin> set k \<Longrightarrow>
   cli_values cli (pin_of k v # ps) key = (if canon k = key then [v] else []) @ cli_values cli ps key"
  by (simp add: cli_values_def cli_reads_def)

lemma cli_values_concat: "cli_values cli (concat (map f xs)) key = concat (map (\<lambda>x. cli_values cli (f x) key) xs)"
  by (induction xs) (simp_all add: cli_values_append)

lemma concat_only: "distinct xs \<Longrightarrow> concat (map (\<lambda>x. if x = k then g x else []) xs) = (if k \<in> set xs then g k else [])"
  by (induction xs) (auto simp: concat_eq_Nil_conv)

lemma cli_values_pins:
  assumes "cli_reads cli canon" and "CHR ''='' \<notin> set k"
  shows "cli_values cli (map (pin_of k) vs) key = (if canon k = key then vs else [])"
  by (induction vs) (simp_all add: cli_values_pin [OF assms])

text \<open>The credential keys: each helper key the repository set, once.\<close>

lemma repo_credential_loop:
  "distinct keys \<Longrightarrow> distinct (repo_credential_loop ss keys) \<and>
   set (repo_credential_loop ss keys) = set keys \<union> st_key ` {s \<in> set ss. is_repo s \<and> is_helper s}"
  by (induction ss arbitrary: keys) auto

lemma repo_credential_keys:
  "distinct (repo_credential_keys settings)"
  "set (repo_credential_keys settings) = st_key ` {s \<in> set settings. is_repo s \<and> is_helper s}"
  using repo_credential_loop [of "[]" settings] by (simp_all add: repo_credential_keys_def)

text \<open>No forced or host-pinned key is a driver's or a helper's, and no key is both.\<close>

definition FORCED_SETS :: "(string \<times> string) list" where
  "FORCED_SETS =
     [(''core.hookspath'', ''/dev/null''), (''core.fsmonitor'', ''false''),
      (''core.alternaterefscommand'', []), (''commit.gpgsign'', ''false''),
      (''push.gpgsign'', ''false''), (''merge.verifysignatures'', ''false''),
      (''submodule.recurse'', ''false''), (''fetch.recursesubmodules'', ''no'')]"

definition fixed_keys :: "string list" where
  "fixed_keys = map fst FORCED_SETS @ map fst HOST_PINNED_KEYS"

lemma fixed_keys_apart: "k \<in> set fixed_keys \<Longrightarrow> \<not> is_driver_key k \<and> \<not> is_helper_key k"
proof -
  have "list_all (\<lambda>k. \<not> is_driver_key k \<and> \<not> is_helper_key k) fixed_keys" by code_simp
  then show "k \<in> set fixed_keys \<Longrightarrow> \<not> is_driver_key k \<and> \<not> is_helper_key k"
    by (simp add: list_all_iff)
qed

lemma driver_not_helper: "is_driver_key k \<Longrightarrow> \<not> is_helper_key k"
  by (auto simp: is_driver_key_def is_helper_key_def split: option.splits)

text \<open>What each group of pins gives a key.\<close>

lemma FORCED_pins:
  "FORCED =
     [pin_of ''core.hooksPath'' ''/dev/null'', pin_of ''core.fsmonitor'' ''false'',
      pin_of ''core.alternateRefsCommand'' [], pin_of ''commit.gpgsign'' ''false'',
      pin_of ''push.gpgsign'' ''false'', pin_of ''merge.verifySignatures'' ''false'',
      pin_of ''submodule.recurse'' ''false'', pin_of ''fetch.recurseSubmodules'' ''no'']"
  by (simp add: FORCED_def pin_of_def)

lemma cli_values_forced:
  assumes "cli_reads cli canon"
  shows "cli_values cli FORCED key = (case map_of FORCED_SETS key of Some v \<Rightarrow> [v] | None \<Rightarrow> [])"
proof -
  note c = assms [unfolded cli_reads_def]
  show ?thesis
    unfolding FORCED_pins FORCED_SETS_def
    by (simp add: cli_values_pin [OF assms] c)
qed

lemma cli_values_host:
  assumes "cli_reads cli canon"
  shows "cli_values cli (host_pins settings) key =
    (if key \<in> set (map fst HOST_PINNED_KEYS) \<and> repo_set settings key
     then [case host_value settings key of Some v \<Rightarrow> v | None \<Rightarrow> []] else [])"
proof -
  have c: "canon pin = key" if "(key, pin) \<in> set HOST_PINNED_KEYS" for key pin
    using assms that by (auto simp: cli_reads_def)
  show ?thesis
    unfolding host_pins_def cli_values_concat using c
    by (auto simp: HOST_PINNED_KEYS_def cli_values_pin [OF assms])
qed

lemma cli_values_drivers:
  assumes "cli_reads cli canon" and "nameable canon settings"
  shows "cli_values cli (driver_pins settings) key =
    map (\<lambda>_. []) (filter (\<lambda>s. is_repo s \<and> is_driver s \<and> st_key s = key) settings)"
  using assms(2) unfolding driver_pins_def nameable_def
  by (induction settings) (auto simp: cli_values_pin [OF assms(1)])

lemma cli_values_credentials:
  assumes "cli_reads cli canon" and "nameable canon settings"
  shows "cli_values cli (credential_pins settings) key =
    (if key \<in> set (repo_credential_keys settings) then [] # host_values settings key else [])"
proof -
  let ?f = "\<lambda>k. pin_of k [] # map (pin_of k) (host_values settings k)"
  have "map (\<lambda>k. cli_values cli (?f k) key) (repo_credential_keys settings) =
      map (\<lambda>k. if k = key then [] # host_values settings k else []) (repo_credential_keys settings)"
  proof (rule map_cong [OF refl])
    fix k assume "k \<in> set (repo_credential_keys settings)"
    then have "CHR ''='' \<notin> set k" "canon k = k"
      using assms(2) by (auto simp: repo_credential_keys nameable_def)
    then show "cli_values cli (?f k) key = (if k = key then [] # host_values settings k else [])"
      by (simp add: cli_values_pin [OF assms(1)] cli_values_pins [OF assms(1)])
  qed
  then show ?thesis
    unfolding credential_pins_def cli_values_concat
    by (simp only: concat_only [OF repo_credential_keys(1)])
qed

lemma cli_values_build:
  assumes "cli_reads cli canon" and "nameable canon settings"
  shows "cli_values cli (pn_pins (pins_build settings)) key =
    (case map_of FORCED_SETS key of Some v \<Rightarrow> [v] | None \<Rightarrow> []) @
    (if key \<in> set (map fst HOST_PINNED_KEYS) \<and> repo_set settings key
     then [case host_value settings key of Some v \<Rightarrow> v | None \<Rightarrow> []] else []) @
    map (\<lambda>_. []) (filter (\<lambda>s. is_repo s \<and> is_driver s \<and> st_key s = key) settings) @
    (if key \<in> set (repo_credential_keys settings) then [] # host_values settings key else [])"
  by (simp only: pins_build_def pins.simps cli_values_append cli_values_forced [OF assms(1)]
      cli_values_host [OF assms(1)] cli_values_drivers [OF assms] cli_values_credentials [OF assms])

lemma fixed_keys_split: "set fixed_keys = fst ` set FORCED_SETS \<union> fst ` set HOST_PINNED_KEYS"
  by (simp add: fixed_keys_def)

lemma forced_not_host: "map_of FORCED_SETS k = Some v \<Longrightarrow> k \<notin> fst ` set HOST_PINNED_KEYS"
  by (auto simp: FORCED_SETS_def HOST_PINNED_KEYS_def split: if_splits)

section \<open>Properties\<close>

lemma map_const_set: "xs \<noteq> [] \<Longrightarrow> map (\<lambda>_. c) xs \<noteq> [] \<and> set (map (\<lambda>_. c) xs) = {c}"
  by (cases xs) auto


text \<open>A reading of \<open>-c\<close> with the documented behaviour, for the witnesses.\<close>

definition git_canon :: "string \<Rightarrow> string" where
  "git_canon k =
     (case rsplit_once CHR ''.'' k of
        None \<Rightarrow> map to_ascii_lower k
      | Some (named, lst) \<Rightarrow>
          (case split_once CHR ''.'' named of
             None \<Rightarrow> map to_ascii_lower named @ ''.'' @ map to_ascii_lower lst
           | Some (section, sub) \<Rightarrow>
               map to_ascii_lower section @ ''.'' @ sub @ ''.'' @ map to_ascii_lower lst))"

definition git_cli :: "string \<Rightarrow> (string \<times> string) option" where
  "git_cli p = map_option (\<lambda>(k, v). (git_canon k, v)) (split_once CHR ''='' p)"

lemma lower_not_equals: "to_ascii_lower c = CHR ''='' \<longleftrightarrow> c = CHR ''=''"
proof
  assume l: "to_ascii_lower c = CHR ''=''"
  show "c = CHR ''=''"
  proof (rule ccontr)
    assume "c \<noteq> CHR ''=''"
    with l have n: "65 \<le> (of_char c :: nat)" "(of_char c :: nat) \<le> 90"
      and "(char_of (of_char c + 32 :: nat) :: char) = CHR ''=''"
      by (auto simp: to_ascii_lower_def Let_def split: if_splits)
    then have "(of_char (char_of (of_char c + 32 :: nat) :: char) :: nat) = of_char CHR ''=''" by simp
    then show False using n by (simp add: of_char_of)
  qed
qed (simp add: to_ascii_lower_def)

lemma git_cli_reads: "cli_reads git_cli git_canon"
  unfolding cli_reads_def
proof (intro conjI allI impI)
  fix k v :: string assume "CHR ''='' \<notin> set k"
  then have "split_once CHR ''='' (pin_of k v) = Some (k, v)"
    by (simp add: split_once_Some pin_of_def)
  then show "git_cli (pin_of k v) = Some (git_canon k, v)" by (simp add: git_cli_def)
next
  fix k :: string assume "CHR ''='' \<notin> set k"
  then show "CHR ''='' \<notin> set (git_canon k)"
    by (auto simp: git_canon_def rsplit_once_Some split_once_Some lower_not_equals
        dest: sym split: option.splits)
qed (code_simp)+


text \<open>Every pin is a key, an equals sign and a value.\<close>

lemma pins_have_equals: "p \<in> set (pn_pins (pins_build settings)) \<Longrightarrow> CHR ''='' \<in> set p"
  by (auto simp: pins_build_def FORCED_pins host_pins_def driver_pins_def credential_pins_def pin_of_def
      split: if_splits)

lemma cli_split:
  assumes "cli_reads cli canon" and "CHR ''='' \<in> set p"
  obtains k v where "cli p = Some (k, v)" and "CHR ''='' \<notin> set k"
proof -
  obtain a b where "split_once CHR ''='' p = Some (a, b)"
    using assms(2) by (cases "split_once CHR ''='' p") (auto simp: split_once_None)
  then have "p = pin_of a b" "CHR ''='' \<notin> set a" by (auto simp: split_once_Some pin_of_def)
  with assms(1) that show thesis by (auto simp: cli_reads_def)
qed

text \<open>
  The limit of the pins: a key with an equals sign in its subsection, which git accepts
  and the listing passes, is one that no command line of pins gives any value, so a filter
  or merge driver the repository planted under such a name keeps the repository's program;
  the build neither refuses it nor blocks the transport for it.
\<close>

theorem pins_miss_equals_keys:
  assumes "cli_reads cli canon"
    and "s = \<lparr>st_scope = Repo, st_key = ''filter.'' @ name @ ''.clean'', st_value = program\<rparr>"
    and "CHR ''='' \<in> set name"
  shows "is_driver s \<and> pin_of (st_key s) [] \<in> set (pn_pins (pins_build [s])) \<and>
    cli_values cli (pn_pins (pins_build (s # settings))) (st_key s) = [] \<and> pn_blocked (pins_build [s]) = None"
proof -
  have key: "st_key s = (''filter.'' @ name) @ CHR ''.'' # ''clean''" using assms(2) by simp
  have "rsplit_once CHR ''.'' (st_key s) = Some (''filter.'' @ name, ''clean'')"
    unfolding key by (simp add: rsplit_once_Some)
  then have d: "is_driver s" and t: "\<not> is_transport_override s"
    by (simp_all add: is_driver_def is_driver_key_def is_transport_override_def starts_with_iff Let_def)
  have "cli_values cli (pn_pins (pins_build ss)) (st_key s) = []" for ss
  proof -
    have "(case cli p of Some (k, v) \<Rightarrow> if k = st_key s then [v] else [] | None \<Rightarrow> []) = []"
      if p: "p \<in> set (pn_pins (pins_build ss))" for p
    proof -
      obtain k v where "cli p = Some (k, v)" "CHR ''='' \<notin> set k"
        using cli_split [OF assms(1) pins_have_equals [OF p]] by blast
      moreover have "CHR ''='' \<in> set (st_key s)" using assms(3) by (simp add: key)
      ultimately show ?thesis by auto
    qed
    then show ?thesis by (auto simp: cli_values_def concat_eq_Nil_conv)
  qed
  moreover have "is_repo s" using assms(2) by (simp add: is_repo_def)
  then have "pin_of (st_key s) [] \<in> set (pn_pins (pins_build [s]))" and "pn_blocked (pins_build [s]) = None"
    using d t by (simp_all add: pins_build_def driver_pins_def)
  ultimately show ?thesis using d by blast
qed

theorem pins_miss_equals_keys_witness:
  "cli_values git_cli (pn_pins (pins_build
     [\<lparr>st_scope = Repo, st_key = ''filter.x=y.clean'', st_value = ''evil''\<rparr>])) ''filter.x=y.clean'' = []"
  using pins_miss_equals_keys [OF git_cli_reads refl, of "''x=y''" "''evil''" "[]"] by simp

section \<open>The listing round trip\<close>

definition scope_words :: "scope \<Rightarrow> string set" where
  "scope_words sc = (case sc of Repo \<Rightarrow> {''local'', ''worktree''} | Host \<Rightarrow> {''system'', ''global'', ''command''})"

definition render_setting :: "string \<Rightarrow> setting \<Rightarrow> string list" where
  "render_setting word s = [word, st_key s @ CHR 0x0A # st_value s]"

definition listable :: "string \<times> setting \<Rightarrow> bool" where
  "listable e \<longleftrightarrow> (case e of (word, s) \<Rightarrow>
     word \<in> scope_words (st_scope s) \<and>
     CHR 0x0A \<notin> set (st_key s) \<and> CHR 0x00 \<notin> set (st_key s) \<and> CHR 0x00 \<notin> set (st_value s) \<and>
     utf8_valid (st_key s) \<and> utf8_valid (st_value s))"

definition render_listing :: "(string \<times> setting) list \<Rightarrow> string" where
  "render_listing es = concat (map (\<lambda>t. t @ [CHR 0x00]) (concat (map (\<lambda>(w, s). render_setting w s) es)))"

lemma listable_no_nul: "listable (w, s) \<Longrightarrow> t \<in> set (render_setting w s) \<Longrightarrow> CHR 0x00 \<notin> set t"
  by (cases "st_scope s") (auto simp: render_setting_def listable_def scope_words_def)

lemma split_terminated:
  "(\<And>t. t \<in> set ts \<Longrightarrow> c \<notin> set t) \<Longrightarrow> str_split c (concat (map (\<lambda>t. t @ [c]) ts)) = ts @ [[]]"
  by (induction ts) (auto simp: str_split_append)

lemma parse_tokens_render:
  "list_all listable es \<Longrightarrow>
   parse_tokens (concat (map (\<lambda>(w, s). render_setting w s) es) @ [[]]) = Inr (map snd es)"
proof (induction es)
  case (Cons e es)
  obtain w s where e: "e = (w, s)" by fastforce
  with Cons.prems have l: "listable (w, s)" by simp
  then have w: "w \<noteq> []" "scope_of w = st_scope s"
    by (auto simp: listable_def scope_words_def scope_of_def split: scope.splits)
  have "split_once CHR 0x0A (st_key s @ CHR 0x0A # st_value s) = Some (st_key s, st_value s)"
    using l by (simp add: split_once_Some listable_def)
  then have "key_of_pair (st_key s @ CHR 0x0A # st_value s) = st_key s"
    "value_of_pair (st_key s @ CHR 0x0A # st_value s) = st_value s"
    by (simp_all add: key_of_pair_def value_of_pair_def)
  with Cons w l show ?case
    by (simp add: e render_setting_def Let_def listable_def utf8_lossy_valid)
qed simp

text \<open>
  Reading the configuration: the listing \<open>config --show-scope --list -z\<close> prints of any
  settings (keys and values in UTF-8) is read back as exactly those settings, in order, each
  with the repository's or the host's scope.
\<close>

theorem parse_listing_render:
  assumes "list_all listable es"
  shows "parse_listing (render_listing es) = Inr (map snd es)"
proof -
  have "CHR 0x00 \<notin> set t" if t: "t \<in> set (concat (map (\<lambda>(w, s). render_setting w s) es))" for t
  proof -
    from t obtain w s where "(w, s) \<in> set es" "t \<in> set (render_setting w s)" by auto
    then show ?thesis using assms listable_no_nul [of w s t] by (auto simp: list_all_iff)
  qed
  from split_terminated [of "concat (map (\<lambda>(w, s). render_setting w s) es)" "CHR 0x00", OF this]
  show ?thesis
    using parse_tokens_render [OF assms] by (simp add: parse_listing_def render_listing_def)
qed

theorem parse_listing_render_witness:
  "parse_listing (render_listing [(''local'', \<lparr>st_scope = Repo, st_key = ''filter.a.clean'', st_value = ''x''\<rparr>)]) =
     Inr [\<lparr>st_scope = Repo, st_key = ''filter.a.clean'', st_value = ''x''\<rparr>]"
proof -
  have "list_all listable [(''local'', \<lparr>st_scope = Repo, st_key = ''filter.a.clean'', st_value = ''x''\<rparr>)]"
    by (simp add: listable_def scope_words_def utf8_valid_ascii ascii_def)
  from parse_listing_render [OF this] show ?thesis by simp
qed

section \<open>The pack command as the shell reads it\<close>

text \<open>
  POSIX word splitting with single quotes and backslashes, the quoting git applies to the
  value of \<open>--upload-pack\<close>: \<open>w\<close> is the word under way, none between words.
\<close>

fun sh_words :: "bool \<Rightarrow> string option \<Rightarrow> string \<Rightarrow> string list option" where
  "sh_words True w [] = None"
| "sh_words False w [] = Some (case w of None \<Rightarrow> [] | Some x \<Rightarrow> [x])"
| "sh_words True w (c # s) =
     (if c = CHR 0x27 then sh_words False w s
      else sh_words True (Some ((case w of None \<Rightarrow> [] | Some x \<Rightarrow> x) @ [c])) s)"
| "sh_words False w (c # s) =
     (if c = CHR 0x27 then sh_words True (Some (case w of None \<Rightarrow> [] | Some x \<Rightarrow> x)) s
      else if c = CHR '' '' then
        map_option (\<lambda>ws. (case w of None \<Rightarrow> [] | Some x \<Rightarrow> [x]) @ ws) (sh_words False None s)
      else if c = CHR 0x5C then
        (case s of [] \<Rightarrow> None
         | d # r \<Rightarrow> sh_words False (Some ((case w of None \<Rightarrow> [] | Some x \<Rightarrow> x) @ [d])) r)
      else sh_words False (Some ((case w of None \<Rightarrow> [] | Some x \<Rightarrow> x) @ [c])) s)"

lemma sh_words_quoted:
  "sh_words True (Some u) (str_replace_char (CHR 0x27) [CHR 0x27, CHR 0x5C, CHR 0x27, CHR 0x27] v @ CHR 0x27 # r) =
   sh_words False (Some (u @ v)) r"
  by (induction v arbitrary: u) simp_all

lemma sh_words_quote: "sh_words False None (shell_quote v @ r) = sh_words False (Some v) r"
  using sh_words_quoted [of "[]" v r] by (simp add: shell_quote_def)

definition sh_plain :: "string \<Rightarrow> bool" where
  "sh_plain v \<longleftrightarrow> v \<noteq> [] \<and> (\<forall>c\<in>set v. c \<noteq> CHR 0x27 \<and> c \<noteq> CHR '' '' \<and> c \<noteq> CHR 0x5C)"

lemma sh_words_plain:
  "(\<forall>c\<in>set v. c \<noteq> CHR 0x27 \<and> c \<noteq> CHR '' '' \<and> c \<noteq> CHR 0x5C) \<Longrightarrow>
   sh_words False (Some u) (v @ r) = sh_words False (Some (u @ v)) r"
  by (induction v arbitrary: u) auto

lemma sh_words_space:
  assumes "sh_plain v"
  shows "sh_words False (Some u) (CHR '' '' # v @ r) =
     map_option (\<lambda>ws. u # ws) (sh_words False (Some v) r)"
proof -
  obtain c v' where v: "v = c # v'" using assms by (cases v) (auto simp: sh_plain_def)
  have c: "c \<noteq> CHR 0x27" "c \<noteq> CHR '' ''" "c \<noteq> CHR 0x5C" using assms by (simp_all add: v sh_plain_def)
  have app: "((@) [u]) = (#) u" by (simp add: fun_eq_iff)
  have "sh_words False (Some u) (CHR '' '' # v @ r) = map_option (\<lambda>ws. u # ws) (sh_words False None (c # v' @ r))"
    unfolding v append_Cons sh_words.simps(4) [of _ "CHR '' ''"] by (simp add: app del: sh_words.simps)
  also have "sh_words False None (c # v' @ r) = sh_words False (Some [c]) (v' @ r)"
    unfolding sh_words.simps(4) using c by (simp del: sh_words.simps)
  also have "\<dots> = sh_words False (Some v) r"
    using sh_words_plain [of v' "[c]" r] assms by (simp add: v sh_plain_def)
  finally show ?thesis .
qed

lemma sh_words_pins:
  assumes "list_all sh_plain ps" and "sh_plain op1"
  shows "sh_words False (Some u) (concat (map (\<lambda>pin. '' -c '' @ pin) ps) @ CHR '' '' # op1) =
    Some (u # concat (map (\<lambda>pin. [''-c'', pin]) ps) @ [op1])"
  using assms(1)
proof (induction ps arbitrary: u)
  case Nil
  then show ?case using sh_words_space [OF assms(2), of u "[]"] by simp
next
  case (Cons p ps)
  then have p: "sh_plain p" by simp
  have c: "sh_plain ''-c''" by (simp add: sh_plain_def)
  show ?case
    using sh_words_space [OF c, of u] sh_words_space [OF p] Cons by simp
qed

text \<open>
  A transport cannot choose the program: the protocol list and the pack command are
  given for every address; across a network the command is git's default by name, and for a
  local address it is one the shell reads as exactly this client's binary, whatever bytes its
  path holds, the pins of the far side each under \<open>-c\<close>, and the operation.
\<close>

theorem transport_args_pack:
  "let (protocol, pack) = transport_args binary address push;
       operation = (if push then ''receive-pack'' else ''upload-pack'')
   in if is_local address
      then protocol = ''file'' \<and>
        (\<exists>command. pack = ''--'' @ operation @ ''='' @ command \<and>
           sh_words False None command =
             Some (binary # concat (map (\<lambda>pin. [''-c'', pin]) LOCAL_PACK_PINS) @ [operation]))
      else protocol = ''http:https:ssh'' \<and> pack = ''--'' @ operation @ ''=git-'' @ operation"
proof -
  have "sh_words False None (shell_quote binary @ concat (map (\<lambda>pin. '' -c '' @ pin) LOCAL_PACK_PINS) @ CHR '' '' # op1) =
      Some (binary # concat (map (\<lambda>pin. [''-c'', pin]) LOCAL_PACK_PINS) @ [op1])"
    if "sh_plain op1" for op1
    unfolding sh_words_quote
    by (rule sh_words_pins [OF _ that]) (simp add: LOCAL_PACK_PINS_def sh_plain_def)
  moreover have "sh_plain (if push then ''receive-pack'' else ''upload-pack'')"
    by (simp add: sh_plain_def)
  ultimately show ?thesis
    unfolding transport_args_def Let_def pack_arg_def
    by (simp only: if_True prod.case split: if_split) fastforce
qed

end
