(* ===== verification/Git_Glob.thy ===== *)
theory Git_Glob
  imports Rust_Text
begin

text \<open>
  The path globs of a merge policy (\<open>matches\<close>, \<open>tokens\<close> and \<open>glob\<close> of
  \<open>src/crates/git/src/vcs/policy.rs\<close>): the tokeniser with its folding of adjacent
  wildcards, and the matcher's table, one row per token over every cut of the text. The
  reference is the language a pattern denotes, read one token at a time without folding.
\<close>

section \<open>The tokeniser\<close>

datatype token = Byte char | One | Star | Dirs | All

fun token_wild :: "token \<Rightarrow> bool" where
  "token_wild Star = True"
| "token_wild Dirs = True"
| "token_wild All = True"
| "token_wild _ = False"

fun needs_byte :: "token \<Rightarrow> bool" where
  "needs_byte (Byte _) = True"
| "needs_byte One = True"
| "needs_byte _ = False"

text \<open>The token at the front of a pattern and what follows it.\<close>

fun next_token :: "char \<Rightarrow> string \<Rightarrow> token \<times> string" where
  "next_token byte after =
     (if byte = CHR ''*'' then
        (case after of
           c # after' \<Rightarrow>
             if c = CHR ''*'' then
               (case strip_prefix ''/'' after' of Some rest \<Rightarrow> (Dirs, rest) | None \<Rightarrow> (All, after'))
             else (Star, after)
         | [] \<Rightarrow> (Star, after))
      else if byte = CHR ''?'' then (One, after)
      else (Byte byte, after))"

lemma next_token_shorter: "length (snd (next_token b r)) \<le> length r"
proof (cases r)
  case (Cons c cs)
  then show ?thesis by (cases cs) (auto split: option.splits simp: strip_prefix_None)
qed auto

declare next_token.simps [simp del]

text \<open>Pushing a token on the vector, its last element folded with an adjacent wildcard.\<close>

definition push_token :: "token list \<Rightarrow> token \<Rightarrow> token list" where
  "push_token tokens token =
     (if tokens \<noteq> [] \<and> token_wild (last tokens) \<and> token_wild token then
        (if last tokens = All \<or> token = All then butlast tokens @ [All]
         else if last tokens \<noteq> token then tokens @ [token]
         else tokens)
      else tokens @ [token])"

function tokens_loop :: "token list \<Rightarrow> string \<Rightarrow> token list" where
  "tokens_loop tokens [] = tokens"
| "tokens_loop tokens (byte # after) =
     (case next_token byte after of
        (token, rest) \<Rightarrow> tokens_loop (push_token tokens token) rest)"
  by pat_completeness auto
termination
  by (relation "measure (\<lambda>(tokens, rest). length rest)")
    (auto simp: less_Suc_eq_le, metis next_token_shorter snd_conv)

definition tokens :: "string \<Rightarrow> token list" where
  "tokens pattern = tokens_loop [] pattern"

section \<open>The matcher\<close>

text \<open>\<open>next\<close> after one token, from \<open>row\<close> and the text.\<close>

definition byte_row :: "char \<Rightarrow> string \<Rightarrow> bool list \<Rightarrow> bool list" where
  "byte_row want text row = False # map2 (\<lambda>r byte. r \<and> byte = want) row text"

definition one_row :: "string \<Rightarrow> bool list \<Rightarrow> bool list" where
  "one_row text row = False # map2 (\<lambda>r byte. r \<and> byte \<noteq> CHR ''/'') row text"

text \<open>\<open>next[j + 1]\<close> for each byte in turn, given \<open>next[j]\<close> and the row from \<open>j + 1\<close> on.\<close>

fun star_loop :: "bool \<Rightarrow> bool list \<Rightarrow> string \<Rightarrow> bool list" where
  "star_loop prev (r # row) (byte # text) =
     (let n = r \<or> (prev \<and> byte \<noteq> CHR ''/'') in n # star_loop n row text)"
| "star_loop prev _ _ = []"

definition star_row :: "string \<Rightarrow> bool list \<Rightarrow> bool list" where
  "star_row text row = hd row # star_loop (hd row) (tl row) text"

fun all_loop :: "bool \<Rightarrow> bool list \<Rightarrow> string \<Rightarrow> bool list" where
  "all_loop prev (r # row) (byte # text) = (let n = r \<or> prev in n # all_loop n row text)"
| "all_loop prev _ _ = []"

definition all_row :: "string \<Rightarrow> bool list \<Rightarrow> bool list" where
  "all_row text row = hd row # all_loop (hd row) (tl row) text"

fun dirs_loop :: "bool \<Rightarrow> bool list \<Rightarrow> string \<Rightarrow> bool list" where
  "dirs_loop seen (r # row) (byte # text) =
     (r \<or> (seen \<and> byte = CHR ''/'')) # dirs_loop (seen \<or> r) row text"
| "dirs_loop seen _ _ = []"

definition dirs_row :: "string \<Rightarrow> bool list \<Rightarrow> bool list" where
  "dirs_row text row = hd row # dirs_loop (hd row) (tl row) text"

fun token_row :: "string \<Rightarrow> bool list \<Rightarrow> token \<Rightarrow> bool list" where
  "token_row text row (Byte want) = byte_row want text row"
| "token_row text row One = one_row text row"
| "token_row text row Star = star_row text row"
| "token_row text row All = all_row text row"
| "token_row text row Dirs = dirs_row text row"

definition glob :: "string \<Rightarrow> string \<Rightarrow> bool" where
  "glob pattern text =
     (let toks = tokens pattern
      in if length text < length (filter needs_byte toks) then False
         else foldl (token_row text) (True # replicate (length text) False) toks ! length text)"

definition matches :: "string \<Rightarrow> string \<Rightarrow> bool" where
  "matches pattern path =
     (if CHR ''/'' \<in> set pattern then
        glob (case strip_prefix ''/'' pattern of Some anchored \<Rightarrow> anchored | None \<Rightarrow> pattern) path
      else glob pattern (last (str_split CHR ''/'' path)))"

section \<open>The language of a pattern\<close>

text \<open>
  What one token matches: \<open>?\<close> one byte of a component, \<open>*\<close> any run inside a component,
  \<open>**/\<close> whole components (nothing, or anything that ends in a slash), any other \<open>**\<close>
  anything.
\<close>

fun token_lang :: "token \<Rightarrow> string set" where
  "token_lang (Byte c) = {[c]}"
| "token_lang One = {[c] | c. c \<noteq> CHR ''/''}"
| "token_lang Star = {w. CHR ''/'' \<notin> set w}"
| "token_lang Dirs = {w. w = [] \<or> last w = CHR ''/''}"
| "token_lang All = UNIV"

fun tokens_lang :: "token list \<Rightarrow> string set" where
  "tokens_lang [] = {[]}"
| "tokens_lang (t # ts) = {u @ v | u v. u \<in> token_lang t \<and> v \<in> tokens_lang ts}"

text \<open>The tokens of a pattern as it is written, none folded.\<close>

function raw_tokens :: "string \<Rightarrow> token list" where
  "raw_tokens [] = []"
| "raw_tokens (byte # after) = (case next_token byte after of (token, rest) \<Rightarrow> token # raw_tokens rest)"
  by pat_completeness auto
termination
  by (relation "measure length") (auto simp: less_Suc_eq_le, metis next_token_shorter snd_conv)

definition pattern_lang :: "string \<Rightarrow> string set" where
  "pattern_lang pattern = tokens_lang (raw_tokens pattern)"

lemma tokens_lang_append:
  "tokens_lang (xs @ ys) = {u @ v | u v. u \<in> tokens_lang xs \<and> v \<in> tokens_lang ys}"
proof (induction xs)
  case (Cons t ts)
  show ?case by (auto simp: Cons) (metis append.assoc)+
qed simp

lemma tokens_lang_cong:
  assumes "tokens_lang a = tokens_lang b"
  shows "tokens_lang (xs @ a @ ys) = tokens_lang (xs @ b @ ys)"
  by (simp add: tokens_lang_append assms)

text \<open>Folding two adjacent wildcards keeps the language.\<close>

lemma wild_Nil: "token_wild t \<Longrightarrow> [] \<in> token_lang t"
  by (cases t) auto

lemma tokens_lang_pair: "tokens_lang [a, b] = {u @ v | u v. u \<in> token_lang a \<and> v \<in> token_lang b}"
  by simp

lemma fold_All:
  assumes "token_wild a" "token_wild b" "a = All \<or> b = All"
  shows "tokens_lang [a, b] = tokens_lang [All]"
proof -
  have "x \<in> tokens_lang [a, b]" for x
  proof (cases "a = All")
    case True
    then show ?thesis
      using wild_Nil [OF assms(2)] unfolding tokens_lang_pair
      by (intro CollectI exI [of _ x] exI [of _ "[]"]) simp
  next
    case False
    then have "b = All" using assms(3) by simp
    then show ?thesis
      using wild_Nil [OF assms(1)] unfolding tokens_lang_pair
      by (intro CollectI exI [of _ "[]"] exI [of _ x]) simp
  qed
  then show ?thesis by auto
qed

lemma fold_same:
  assumes "token_wild a"
  shows "tokens_lang [a, a] = tokens_lang [a]"
proof -
  have closed: "u @ v \<in> token_lang a" if "u \<in> token_lang a" "v \<in> token_lang a" for u v
    using assms that by (cases a; cases v) auto
  have "x \<in> tokens_lang [a, a]" if "x \<in> token_lang a" for x
    using that wild_Nil [OF assms] unfolding tokens_lang_pair
    by (intro CollectI exI [of _ x] exI [of _ "[]"]) simp
  with closed show ?thesis by auto
qed

lemma push_token_lang: "tokens_lang (push_token ts t) = tokens_lang (ts @ [t])"
proof (cases "ts \<noteq> [] \<and> token_wild (last ts) \<and> token_wild t")
  case True
  then have "ts = butlast ts @ [last ts]" by simp
  then have split: "ts @ [t] = butlast ts @ [last ts, t]" by (metis append.assoc append_Cons append_Nil)
  show ?thesis
  proof (cases "last ts = All \<or> t = All")
    case True
    with \<open>ts \<noteq> [] \<and> _\<close> have "tokens_lang [last ts, t] = tokens_lang [All]" by (intro fold_All) auto
    from tokens_lang_cong [OF this, of "butlast ts" "[]"] True \<open>ts \<noteq> [] \<and> _\<close> show ?thesis
      unfolding split by (simp add: push_token_def)
  next
    case False
    show ?thesis
    proof (cases "last ts = t")
      case same: True
      with True have "tokens_lang [last ts, t] = tokens_lang [t]" by (simp only: fold_same)
      from tokens_lang_cong [OF this, of "butlast ts" "[]"] have
        "tokens_lang (ts @ [t]) = tokens_lang (butlast ts @ [last ts])" unfolding split using same by simp
      also have "butlast ts @ [last ts] = ts" using True by simp
      finally show ?thesis using True False same by (simp add: push_token_def)
    qed (use True False in \<open>simp add: push_token_def\<close>)
  qed
qed (auto simp: push_token_def)

lemma tokens_loop_lang: "tokens_lang (tokens_loop ts p) = tokens_lang (ts @ raw_tokens p)"
proof (induction ts p rule: tokens_loop.induct)
  case (2 ts byte after)
  obtain t rest where nt: "next_token byte after = (t, rest)" by fastforce
  have "tokens_lang (tokens_loop (push_token ts t) rest) = tokens_lang (push_token ts t @ raw_tokens rest)"
    using 2 nt by simp
  also have "\<dots> = tokens_lang ((ts @ [t]) @ raw_tokens rest)"
    unfolding tokens_lang_append [of "push_token ts t"] push_token_lang
    by (simp only: tokens_lang_append [symmetric])
  finally show ?case using nt by simp
qed simp

lemma tokens_lang_tokens: "tokens_lang (tokens p) = pattern_lang p"
  using tokens_loop_lang [of "[]" p] by (simp add: tokens_def pattern_lang_def)


section \<open>The table decides the language\<close>

text \<open>\<open>row_of L text\<close> holds at \<open>j\<close> iff \<open>text[..j]\<close> is in \<open>L\<close>.\<close>

definition row_of :: "string set \<Rightarrow> string \<Rightarrow> bool list" where
  "row_of L text = map (\<lambda>j. take j text \<in> L) [0..<Suc (length text)]"

definition cat :: "string set \<Rightarrow> string set \<Rightarrow> string set" where
  "cat A B = {u @ v | u v. u \<in> A \<and> v \<in> B}"

lemma row_of_nth: "j \<le> length text \<Longrightarrow> row_of L text ! j \<longleftrightarrow> take j text \<in> L"
  by (simp add: row_of_def nth_append)

lemma length_row_of [simp]: "length (row_of L text) = Suc (length text)"
  by (simp add: row_of_def)

lemma row_ofI:
  assumes "length row = Suc (length text)"
    and "row ! 0 \<longleftrightarrow> [] \<in> L"
    and "\<And>j. j < length text \<Longrightarrow> row ! Suc j \<longleftrightarrow> take j text @ [text ! j] \<in> L"
  shows "row = row_of L text"
proof (rule nth_equalityI)
  fix j assume "j < length row"
  then show "row ! j = row_of L text ! j"
    using assms by (cases j) (auto simp: row_of_nth take_Suc_conv_app_nth)
qed (simp add: assms(1))

text \<open>The row after one token, entry by entry.\<close>

lemma star_loop_nth:
  "length row = length text \<Longrightarrow> j < length text \<Longrightarrow>
   star_loop prev row text ! j \<longleftrightarrow>
     row ! j \<or> ((if j = 0 then prev else star_loop prev row text ! (j - 1)) \<and> text ! j \<noteq> CHR ''/'')"
proof (induction prev row "text" arbitrary: j rule: star_loop.induct)
  case (1 prev r row byte "text")
  show ?case
  proof (cases j)
    case 0
    then show ?thesis by (simp add: Let_def)
  next
    case (Suc i)
    with 1 show ?thesis by (cases i) (simp_all add: Let_def)
  qed
qed auto

lemma all_loop_nth:
  "length row = length text \<Longrightarrow> j < length text \<Longrightarrow>
   all_loop prev row text ! j \<longleftrightarrow> row ! j \<or> (if j = 0 then prev else all_loop prev row text ! (j - 1))"
proof (induction prev row "text" arbitrary: j rule: all_loop.induct)
  case (1 prev r row byte "text")
  show ?case
  proof (cases j)
    case 0
    then show ?thesis by (simp add: Let_def)
  next
    case (Suc i)
    with 1 show ?thesis by (cases i) (simp_all add: Let_def)
  qed
qed auto

lemma dirs_loop_nth:
  "length row = length text \<Longrightarrow> j < length text \<Longrightarrow>
   dirs_loop seen row text ! j \<longleftrightarrow> row ! j \<or> ((seen \<or> (\<exists>i<j. row ! i)) \<and> text ! j = CHR ''/'')"
proof (induction seen row "text" arbitrary: j rule: dirs_loop.induct)
  case (1 seen r row byte "text")
  then show ?case
    by (cases j) (auto simp: Ex_less_Suc2)
qed auto

lemma length_star_loop [simp]: "length (star_loop prev row text) = min (length row) (length text)"
  by (induction prev row "text" rule: star_loop.induct) (auto simp: Let_def)

lemma length_all_loop [simp]: "length (all_loop prev row text) = min (length row) (length text)"
  by (induction prev row "text" rule: all_loop.induct) (auto simp: Let_def)

lemma length_dirs_loop [simp]: "length (dirs_loop prev row text) = min (length row) (length text)"
  by (induction prev row "text" rule: dirs_loop.induct) auto

text \<open>Appending one byte to a word of \<open>cat A B\<close>.\<close>

lemma cat_Nil: "[] \<in> cat A B \<longleftrightarrow> [] \<in> A \<and> [] \<in> B"
  by (auto simp: cat_def)

lemma cat_snoc:
  "w @ [c] \<in> cat A B \<longleftrightarrow> (w @ [c] \<in> A \<and> [] \<in> B) \<or> (\<exists>u v. w = u @ v \<and> u \<in> A \<and> v @ [c] \<in> B)"
proof -
  have "w @ [c] = u @ v \<longleftrightarrow> (v = [] \<and> u = w @ [c]) \<or> (\<exists>v'. v = v' @ [c] \<and> w = u @ v')" for u v
    by (cases v rule: rev_cases) auto
  then show ?thesis unfolding cat_def by auto
qed

lemma cat_Byte: "w @ [c] \<in> cat A {[b]} \<longleftrightarrow> w \<in> A \<and> c = b"
  by (auto simp: cat_snoc)

lemma cat_One: "w @ [c] \<in> cat A (token_lang One) \<longleftrightarrow> w \<in> A \<and> c \<noteq> CHR ''/''"
  by (auto simp: cat_snoc)

lemma cat_Star:
  "w @ [c] \<in> cat A (token_lang Star) \<longleftrightarrow> w @ [c] \<in> A \<or> (w \<in> cat A (token_lang Star) \<and> c \<noteq> CHR ''/'')"
  by (simp add: cat_snoc) (auto simp: cat_def)

lemma cat_All:
  "w @ [c] \<in> cat A (token_lang All) \<longleftrightarrow> w @ [c] \<in> A \<or> w \<in> cat A (token_lang All)"
  by (simp add: cat_snoc) (auto simp: cat_def)

lemma cat_Dirs:
  "w @ [c] \<in> cat A (token_lang Dirs) \<longleftrightarrow>
     w @ [c] \<in> A \<or> ((\<exists>i\<le>length w. take i w \<in> A) \<and> c = CHR ''/'')"
proof -
  have "(\<exists>u v. w = u @ v \<and> u \<in> A) \<longleftrightarrow> (\<exists>i\<le>length w. take i w \<in> A)"
    by (metis append_eq_conv_conj append_take_drop_id nat_le_linear take_all_iff)
  then show ?thesis by (auto simp: cat_snoc)
qed

lemma nth_hd: "xs \<noteq> [] \<Longrightarrow> hd xs = xs ! 0"
  by (simp add: hd_conv_nth)

lemma token_row_lang: "token_row text (row_of L text) t = row_of (cat L (token_lang t)) text"
proof -
  let ?row = "row_of L text"
  have ne: "?row \<noteq> []" and len: "length (tl ?row) = length text" by (simp_all add: row_of_def)
  have row: "?row ! j \<longleftrightarrow> take j text \<in> L" if "j \<le> length text" for j
    using that by (rule row_of_nth)
  have snoc: "take (Suc j) text = take j text @ [text ! j]" if "j < length text" for j
    using that by (rule take_Suc_conv_app_nth)
  note defs = byte_row_def one_row_def star_row_def all_row_def dirs_row_def
  have one: "[] \<notin> token_lang One" by simp
  show ?thesis
  proof (cases t)
    case (Byte c)
    then show ?thesis
      by (intro row_ofI) (auto simp: defs row cat_Byte cat_Nil)
  next
    case One
    then show ?thesis
      by (intro row_ofI) (auto simp: defs row cat_One cat_Nil one simp del: token_lang.simps(2))
  next
    case Star
    have entry: "star_row text ?row ! j \<longleftrightarrow> take j text \<in> cat L (token_lang Star)" if "j \<le> length text" for j
      using that
    proof (induction j)
      case 0
      then show ?case using row [of 0] by (simp add: defs cat_Nil nth_hd [OF ne])
    next
      case (Suc j)
      then have jl: "j < length text" by simp
      have "star_row text ?row ! Suc j \<longleftrightarrow> ?row ! Suc j \<or> (star_row text ?row ! j \<and> text ! j \<noteq> CHR ''/'')"
        using star_loop_nth [OF len jl, of "hd ?row"] jl len
        by (cases j) (simp_all add: defs nth_tl)
      then show ?case
        using Suc snoc [of j] row [of "Suc j"] by (simp add: cat_Star del: token_lang.simps)
    qed
    have "length (star_row text ?row) = Suc (length text)" using len by (simp add: defs)
    with Star show ?thesis
      by (intro nth_equalityI) (simp_all add: entry row_of_nth less_Suc_eq_le del: token_lang.simps)
  next
    case All
    have entry: "all_row text ?row ! j \<longleftrightarrow> take j text \<in> cat L (token_lang All)" if "j \<le> length text" for j
      using that
    proof (induction j)
      case 0
      then show ?case using row [of 0] by (simp add: defs cat_Nil nth_hd [OF ne])
    next
      case (Suc j)
      then have jl: "j < length text" by simp
      have "all_row text ?row ! Suc j \<longleftrightarrow> ?row ! Suc j \<or> (all_row text ?row ! j)"
        using all_loop_nth [OF len jl, of "hd ?row"] jl len
        by (cases j) (simp_all add: defs nth_tl)
      then show ?case
        using Suc snoc [of j] row [of "Suc j"] by (simp add: cat_All del: token_lang.simps)
    qed
    have "length (all_row text ?row) = Suc (length text)" using len by (simp add: defs)
    with All show ?thesis
      by (intro nth_equalityI) (simp_all add: entry row_of_nth less_Suc_eq_le del: token_lang.simps)
  next
    case Dirs
    have "dirs_row text ?row ! 0 \<longleftrightarrow> [] \<in> cat L (token_lang Dirs)"
      using row [of 0] by (simp add: defs cat_Nil nth_hd [OF ne])
    moreover have "dirs_row text ?row ! Suc j \<longleftrightarrow> take j text @ [text ! j] \<in> cat L (token_lang Dirs)"
      if j: "j < length text" for j
    proof -
      have "hd ?row \<or> (\<exists>i<j. tl ?row ! i) \<longleftrightarrow> (\<exists>i\<le>j. take i text \<in> L)"
      proof -
        have "(\<exists>i<j. tl ?row ! i) \<longleftrightarrow> (\<exists>i<j. take (Suc i) text \<in> L)"
          using j len row by (auto simp: nth_tl)
        then show ?thesis
          using row [of 0] by (auto simp: nth_hd [OF ne] less_Suc_eq_le [symmetric] Ex_less_Suc2 simp del: less_Suc_eq_le)
      qed
      then show ?thesis
        using dirs_loop_nth [OF len j, of "hd ?row"] row [of "Suc j"] j len
        by (simp add: defs cat_Dirs snoc nth_tl min_def del: token_lang.simps) blast
    qed
    moreover have "length (dirs_row text ?row) = Suc (length text)" using len by (simp add: defs)
    ultimately show ?thesis using Dirs by (intro row_ofI) (simp_all del: token_lang.simps)
  qed
qed


lemma cat_assoc: "cat (cat A B) C = cat A (cat B C)"
  by (auto simp: cat_def) (metis append.assoc)+

lemma tokens_lang_Cons: "tokens_lang (t # ts) = cat (token_lang t) (tokens_lang ts)"
  by (simp add: cat_def)

lemma foldl_token_row: "foldl (token_row text) (row_of L text) ts = row_of (cat L (tokens_lang ts)) text"
proof (induction ts arbitrary: L)
  case Nil
  then show ?case by (simp add: cat_def)
next
  case (Cons t ts)
  then show ?case by (simp add: token_row_lang cat_assoc tokens_lang_Cons del: tokens_lang.simps(2))
qed

lemma start_row: "True # replicate (length text) False = row_of {[]} text"
  by (intro row_ofI) (auto simp: nth_Cons split: nat.splits)

text \<open>A word of the language has a byte for each token that needs one.\<close>

lemma tokens_lang_length: "w \<in> tokens_lang ts \<Longrightarrow> length (filter needs_byte ts) \<le> length w"
proof (induction ts arbitrary: w)
  case (Cons t ts)
  then obtain u v where w: "w = u @ v" "u \<in> token_lang t" "v \<in> tokens_lang ts" by auto
  then have "length (filter needs_byte ts) \<le> length v" using Cons.IH by blast
  moreover have "needs_byte t \<Longrightarrow> 1 \<le> length u" using w(2) by (cases t) auto
  ultimately show ?case by (auto simp: w(1))
qed simp

lemma glob_lang: "glob pattern text \<longleftrightarrow> text \<in> pattern_lang pattern"
proof -
  have "foldl (token_row text) (True # replicate (length text) False) (tokens pattern) ! length text
      \<longleftrightarrow> text \<in> tokens_lang (tokens pattern)"
    unfolding start_row foldl_token_row by (simp add: row_of_nth cat_def)
  then show ?thesis
    using tokens_lang_length [of "text" "tokens pattern"]
    by (auto simp: glob_def Let_def tokens_lang_tokens)
qed

text \<open>
  C6. The policy matcher decides the language of its pattern: the tokeniser's folding of
  adjacent wildcards, the early exit on the byte count and the table of cuts together answer
  exactly whether the path is a word of the pattern read one token at a time (\<open>*\<close> and \<open>?\<close>
  within a component, \<open>**/\<close> whole components, any other \<open>**\<close> anything): the whole path where
  the pattern has a slash (a leading one anchors and is dropped), its last component where
  it has none.
\<close>

theorem matches_decides_language:
  "matches pattern path \<longleftrightarrow>
     (if CHR ''/'' \<in> set pattern then
        path \<in> pattern_lang (if hd pattern = CHR ''/'' then tl pattern else pattern)
      else \<exists>dir name. CHR ''/'' \<notin> set name \<and> name \<in> pattern_lang pattern \<and>
             (path = name \<and> dir = [] \<or> path = dir @ CHR ''/'' # name))"
proof (cases "CHR ''/'' \<in> set pattern")
  case True
  then obtain c p where "pattern = c # p" by (cases pattern) auto
  with True show ?thesis by (auto simp: matches_def glob_lang)
next
  case False
  have "(\<exists>dir name. CHR ''/'' \<notin> set name \<and> name \<in> L \<and>
           (path = name \<and> dir = [] \<or> path = dir @ CHR ''/'' # name)) \<longleftrightarrow>
        (\<exists>name. name = last (str_split CHR ''/'' path) \<and> name \<in> L)" for L
    unfolding last_component_iff by metis
  with False show ?thesis by (simp only: matches_def glob_lang if_False simp_thms) 
qed

section \<open>The token count is bounded by the bytes a match needs\<close>

text \<open>
  Between two tokens that take a byte a run of wildcards is at most \<open>**/\<close> and then \<open>*\<close>.
  \<open>run_ok\<close> says so of every suffix, together with what may still be pushed: after a \<open>*\<close>
  token the pattern does not go on with a star.
\<close>

fun run_ok :: "token list \<Rightarrow> bool" where
  "run_ok (a # b # ts) \<longleftrightarrow>
     (token_wild a \<and> token_wild b \<longrightarrow> a = Dirs \<and> b = Star) \<and> run_ok (b # ts)"
| "run_ok _ \<longleftrightarrow> True"

lemma run_ok_snoc: "run_ok (ts @ [t]) \<longleftrightarrow> run_ok ts \<and>
    (ts \<noteq> [] \<and> token_wild (last ts) \<and> token_wild t \<longrightarrow> last ts = Dirs \<and> t = Star)"
proof (induction ts rule: run_ok.induct)
  case (1 a b ts)
  then show ?case by auto
qed auto

lemma run_ok_length: "run_ok ts \<Longrightarrow> length ts \<le> 3 * length (filter needs_byte ts) + 2"
proof (induction ts rule: length_induct)
  case (1 ts)
  have wild: "needs_byte t \<longleftrightarrow> \<not> token_wild t" for t by (cases t) simp_all
  consider "length ts \<le> 2" | a b c rest where "ts = a # b # c # rest"
    by (cases ts; cases "tl ts"; cases "tl (tl ts)") auto
  then show ?case
  proof cases
    case 2
    then have ok: "run_ok rest" using 1(2) by (cases rest) auto
    have "\<not> (token_wild a \<and> token_wild b \<and> token_wild c)" using 1(2) 2 by auto
    then have "1 \<le> length (filter needs_byte [a, b, c])" by (auto simp: wild)
    moreover have "length rest \<le> 3 * length (filter needs_byte rest) + 2" using 1(1) ok 2 by simp
    ultimately show ?thesis using 2 by (auto split: if_splits)
  qed simp
qed

definition fresh :: "token list \<Rightarrow> string \<Rightarrow> bool" where
  "fresh ts rest \<longleftrightarrow> run_ok ts \<and> (ts \<noteq> [] \<and> last ts = Star \<longrightarrow> rest = [] \<or> hd rest \<noteq> CHR ''*'')"

lemma next_token_cases:
  assumes "next_token byte after = (t, rest)"
  shows "token_wild t \<Longrightarrow> byte = CHR ''*''"
    and "t = Star \<Longrightarrow> rest = [] \<or> hd rest \<noteq> CHR ''*''"
  using assms by (auto simp: next_token.simps split: if_splits list.splits option.splits)

lemma fresh_push:
  assumes "fresh ts (byte # after)" and nt: "next_token byte after = (t, rest)"
  shows "fresh (push_token ts t) rest"
proof (cases "ts \<noteq> [] \<and> token_wild (last ts) \<and> token_wild t")
  case False
  then show ?thesis
    using assms(1) next_token_cases(2) [OF nt]
    by (auto simp: fresh_def push_token_def run_ok_snoc)
next
  case True
  then have not_star: "last ts \<noteq> Star"
    using assms(1) next_token_cases(1) [OF nt] by (auto simp: fresh_def)
  have ts: "ts = butlast ts @ [last ts]" using True by simp
  have "run_ok (butlast ts @ [last ts])" using assms(1) True by (simp add: fresh_def)
  note this [unfolded run_ok_snoc]
  then have but: "run_ok (butlast ts)" "butlast ts \<noteq> [] \<Longrightarrow> \<not> token_wild (last (butlast ts))"
    using True not_star by blast+
  show ?thesis
    using True not_star but assms(1) next_token_cases(2) [OF nt]
    by (cases "last ts"; cases t) (auto simp: fresh_def push_token_def run_ok_snoc)
qed

lemma fresh_loop: "fresh ts p \<Longrightarrow> run_ok (tokens_loop ts p)"
proof (induction ts p rule: tokens_loop.induct)
  case (1 ts)
  then show ?case by (simp add: fresh_def)
next
  case (2 ts byte after)
  obtain t rest where nt: "next_token byte after = (t, rest)" by fastforce
  with 2(1) [OF nt [symmetric]] fresh_push [OF 2(2) nt] show ?case by simp
qed

text \<open>
  The cost bound the folding buys: a pattern that passes the early exit, whatever its
  runs of stars, has at most three tokens per byte of the text and two more, so the table
  has at most \<open>3 n + 2\<close> rows of \<open>n + 1\<close> cuts.
\<close>

theorem glob_rows_bounded:
  assumes "length (filter needs_byte (tokens pattern)) \<le> length text"
  shows "length (tokens pattern) \<le> 3 * length text + 2"
proof -
  have "run_ok (tokens pattern)" by (simp add: tokens_def fresh_def fresh_loop)
  from run_ok_length [OF this] assms show ?thesis by linarith
qed

theorem glob_rows_bounded_witness:
  "length (tokens ''a***/**/*b'') \<le> 3 * length ''a/b'' + 2 \<and> tokens ''a***/**/*b'' = [Byte CHR ''a'', All, Byte CHR ''/'', Dirs, Star, Byte CHR ''b'']"
proof -
  have t: "tokens ''a***/**/*b'' = [Byte CHR ''a'', All, Byte CHR ''/'', Dirs, Star, Byte CHR ''b'']"
    by code_simp
  have "length (filter needs_byte (tokens ''a***/**/*b'')) \<le> length ''a/b''" unfolding t by simp
  from glob_rows_bounded [OF this] t show ?thesis by blast
qed

end
