(* ===== verification/Git_Policy.thy ===== *)
theory Git_Policy
  imports Git_Pins Git_Glob
begin

text \<open>
  One repository under its pins (\<open>Repo\<close> of \<open>src/crates/git/src/vcs.rs\<close>) and the resolution
  of a merge by the guest's policy (\<open>src/crates/git/src/vcs/policy.rs\<close>). A \<open>BTreeSet\<close> of
  paths is its ascending list.
\<close>

section \<open>A repository\<close>

record repo =
  rp_at :: place
  rp_pins :: pins

definition repo_open :: "'w git_env \<Rightarrow> place \<Rightarrow> ('w, repo) git" where
  "repo_open env at = act_bind (pins_read env at) (\<lambda>p. act_return \<lparr>rp_at = at, rp_pins = p\<rparr>)"

definition repo_args :: "repo \<Rightarrow> string list \<Rightarrow> string list" where
  "repo_args rp args = ''--work-tree=.'' # pins_args (rp_pins rp) @ args"

definition repo_exec ::
  "'w git_env \<Rightarrow> repo \<Rightarrow> string list \<Rightarrow> (string \<times> string) list \<Rightarrow> ('w, git_output) git" where
  "repo_exec env rp args extra = client_git env (Some (rp_at rp)) (repo_args rp args) extra"

definition repo_refuse :: "repo \<Rightarrow> git_output \<Rightarrow> string \<Rightarrow> vcs_error" where
  "repo_refuse rp o1 missing = refuse o1 (rp_at rp) missing None"

definition repo_run :: "'w git_env \<Rightarrow> repo \<Rightarrow> string list \<Rightarrow> string \<Rightarrow> ('w, git_output) git" where
  "repo_run env rp args missing =
     act_bind (repo_exec env rp args []) (\<lambda>o1.
       if output_success o1 then act_return o1 else act_fail (repo_refuse rp o1 missing))"

definition repo_step :: "'w git_env \<Rightarrow> repo \<Rightarrow> string list \<Rightarrow> string \<Rightarrow> ('w, unit) git" where
  "repo_step env rp args missing = act_bind (repo_run env rp args missing) (\<lambda>_. act_return ())"

section \<open>Sets of paths\<close>

fun bset_insert :: "'a::linorder \<Rightarrow> 'a list \<Rightarrow> 'a list" where
  "bset_insert x [] = [x]"
| "bset_insert x (y # ys) = (if x < y then x # y # ys else if x = y then y # ys else y # bset_insert x ys)"

definition bset_extend :: "'a::linorder list \<Rightarrow> 'a list \<Rightarrow> 'a list" where
  "bset_extend s xs = foldl (\<lambda>t x. bset_insert x t) s xs"

lemma set_bset_insert [simp]: "set (bset_insert x s) = insert x (set s)"
  by (induction x s rule: bset_insert.induct) auto

lemma bset_insert_sorted: "sorted_wrt (<) s \<Longrightarrow> sorted_wrt (<) (bset_insert x s)"
  by (induction x s rule: bset_insert.induct) auto

lemma set_bset_extend [simp]: "set (bset_extend s xs) = set s \<union> set xs"
  unfolding bset_extend_def by (induction xs arbitrary: s) auto

lemma bset_extend_sorted: "sorted_wrt (<) s \<Longrightarrow> sorted_wrt (<) (bset_extend s xs)"
  unfolding bset_extend_def by (induction xs arbitrary: s) (auto simp: bset_insert_sorted)

lemma bset_unique: "sorted_wrt (<) s \<Longrightarrow> sorted_wrt (<) t \<Longrightarrow> set s = set t \<Longrightarrow> s = (t :: 'a::linorder list)"
  using strict_sorted_equal by blast

section \<open>Tree diffs\<close>

record tree_diff =
  td_paths :: "string list"
  td_renames :: "(string \<times> string) list"

definition tree_diff_default :: tree_diff where
  "tree_diff_default = \<lparr>td_paths = [], td_renames = []\<rparr>"

text \<open>\<open>TreeDiff::shared\<close>\<close>

definition tree_diff_shared :: "tree_diff \<Rightarrow> tree_diff \<Rightarrow> string list" where
  "tree_diff_shared self other =
     (let shared = filter (\<lambda>p. p \<in> set (td_paths other)) (td_paths self);
          followed = map snd (filter (\<lambda>(old, _). old \<in> set (td_paths other)) (td_renames self) @
                              filter (\<lambda>(old, _). old \<in> set (td_paths self)) (td_renames other))
      in bset_extend shared followed)"

text \<open>The fields of the \<open>-z\<close> records; a rename cut off at its new path ends the reading.\<close>

fun parse_diff_fields :: "string list \<Rightarrow> tree_diff \<Rightarrow> tree_diff" where
  "parse_diff_fields (status # path # toks) diff =
     (if starts_with status ''R'' then
        (case toks of
           [] \<Rightarrow> diff
         | new # toks' \<Rightarrow>
             parse_diff_fields toks'
               (diff\<lparr>td_paths := bset_insert path (bset_insert new (td_paths diff)),
                     td_renames := td_renames diff @ [(path, new)]\<rparr>))
      else parse_diff_fields toks (diff\<lparr>td_paths := bset_insert path (td_paths diff)\<rparr>))"
| "parse_diff_fields _ diff = diff"

definition parse_tree_diff :: "string \<Rightarrow> tree_diff" where
  "parse_tree_diff out = parse_diff_fields (str_split CHR 0x00 out) tree_diff_default"

section \<open>Rules\<close>

datatype strategy = Ours | Theirs | Union

record rule =
  ru_paths :: string
  ru_strategy :: strategy

definition rule_for :: "string \<Rightarrow> rule list \<Rightarrow> strategy option" where
  "rule_for path rules = map_option ru_strategy (List.find (\<lambda>r. matches (ru_paths r) path) rules)"

definition OURS :: string where "OURS = ''HEAD''"
definition THEIRS :: string where "THEIRS = ''MERGE_HEAD''"

section \<open>Resolving\<close>

definition repo_show :: "'w git_env \<Rightarrow> repo \<Rightarrow> string \<Rightarrow> string \<Rightarrow> ('w, string option) git" where
  "repo_show env rp revision path =
     act_bind (repo_exec env rp [''show'', revision @ '':'' @ path] []) (\<lambda>o1.
       act_return (if output_success o1 then Some (out_stdout o1) else None))"

definition dir_effect ::
  "(nat \<Rightarrow> 'w \<Rightarrow> bool \<times> 'w) \<Rightarrow> repo \<Rightarrow> string \<Rightarrow> ('w, unit) git" where
  "dir_effect f rp context1 =
     (\<lambda>s. case f (pl_dir (rp_at rp)) (gs_world s) of
        (ok, w) \<Rightarrow> (if ok then Inr () else Inl (Untyped context1), s\<lparr>gs_world := w\<rparr>))"

definition repo_write :: "'w git_env \<Rightarrow> repo \<Rightarrow> string \<Rightarrow> string \<Rightarrow> ('w, unit) git" where
  "repo_write env rp path content =
     act_then
       (case rsplit_once CHR ''/'' path of
          None \<Rightarrow> act_return ()
        | Some (parent, _) \<Rightarrow>
            dir_effect (\<lambda>d. ge_create_dir env d parent) rp
              (''creating '' @ parent @ '' for the merge of '' @ path))
       (dir_effect (\<lambda>d. ge_write env d path content) rp (''writing the merge of '' @ path))"

definition repo_keep :: "'w git_env \<Rightarrow> repo \<Rightarrow> string \<Rightarrow> string \<Rightarrow> ('w, unit) git" where
  "repo_keep env rp path side =
     act_bind (repo_show env rp side path) (\<lambda>shown.
       case shown of
         Some content \<Rightarrow>
           act_then (repo_write env rp path content) (repo_step env rp [''add'', ''--'', path] path)
       | None \<Rightarrow>
           repo_step env rp [''rm'', ''--quiet'', ''--force'', ''--ignore-unmatch'', ''--'', path] path)"

definition temp_file :: "'w git_env \<Rightarrow> string \<Rightarrow> ('w, string) git" where
  "temp_file env content =
     (\<lambda>s. case ge_temp env content (gs_world s) of
        (r, w) \<Rightarrow> (case r of Inl e \<Rightarrow> Inl (Untyped e) | Inr p \<Rightarrow> Inr p, s\<lparr>gs_world := w\<rparr>))"

definition write_temp_blob :: "'w git_env \<Rightarrow> repo \<Rightarrow> string option \<Rightarrow> string \<Rightarrow> ('w, string) git" where
  "write_temp_blob env rp revision path =
     act_bind
       (case revision of
          Some rev1 \<Rightarrow>
            act_bind (repo_show env rp rev1 path) (\<lambda>shown.
              act_return (case shown of Some content \<Rightarrow> content | None \<Rightarrow> []))
        | None \<Rightarrow> act_return [])
       (temp_file env)"

definition repo_union :: "'w git_env \<Rightarrow> repo \<Rightarrow> string \<Rightarrow> string option \<Rightarrow> ('w, unit) git" where
  "repo_union env rp path base =
     act_bind (write_temp_blob env rp (Some OURS) path) (\<lambda>ours.
     act_bind (write_temp_blob env rp base path) (\<lambda>basis.
     act_bind (write_temp_blob env rp (Some THEIRS) path) (\<lambda>theirs.
     act_bind (repo_exec env rp [''merge-file'', ''-p'', ''--union'', ours, basis, theirs] []) (\<lambda>merged.
       if \<not> output_success merged then
         act_fail (Untyped (display_path (rp_at rp) @ '': cannot union '' @ path @ '': '' @
           str_trim (out_stderr merged)))
       else
         act_then (repo_write env rp path (out_stdout merged))
           (repo_step env rp [''add'', ''--'', path] path)))))"

definition repo_apply ::
  "'w git_env \<Rightarrow> repo \<Rightarrow> string \<Rightarrow> strategy \<Rightarrow> string option \<Rightarrow> ('w, unit) git" where
  "repo_apply env rp path strategy base =
     (case strategy of
        Ours \<Rightarrow> repo_keep env rp path OURS
      | Theirs \<Rightarrow> repo_keep env rp path THEIRS
      | Union \<Rightarrow> repo_union env rp path base)"

definition merge_base :: "'w git_env \<Rightarrow> repo \<Rightarrow> ('w, string option) git" where
  "merge_base env rp =
     act_bind (repo_exec env rp [''merge-base'', OURS, THEIRS] []) (\<lambda>o1.
       act_return (if output_success o1 then Some (str_trim (output_text o1)) else None))"

definition repo_diff_tree :: "'w git_env \<Rightarrow> repo \<Rightarrow> string \<Rightarrow> string \<Rightarrow> ('w, tree_diff) git" where
  "repo_diff_tree env rp frm to1 =
     act_bind
       (repo_run env rp
          [''diff'', ''--no-ext-diff'', ''--no-textconv'', ''--find-renames'', ''--name-status'', ''-z'',
           frm, to1] ''HEAD'')
       (\<lambda>o1. act_return (parse_tree_diff (output_text o1)))"

definition repo_touched :: "'w git_env \<Rightarrow> repo \<Rightarrow> string option \<Rightarrow> ('w, string list) git" where
  "repo_touched env rp base =
     (case base of
        None \<Rightarrow> act_bind (repo_diff_tree env rp OURS THEIRS) (\<lambda>d. act_return (td_paths d))
      | Some b \<Rightarrow>
          act_bind (repo_diff_tree env rp b OURS) (\<lambda>ours.
          act_bind (repo_diff_tree env rp b THEIRS) (\<lambda>theirs.
            act_return (tree_diff_shared ours theirs))))"

definition repo_conflicts :: "'w git_env \<Rightarrow> repo \<Rightarrow> ('w, string list) git" where
  "repo_conflicts env rp =
     act_bind
       (repo_run env rp
          [''diff'', ''--no-ext-diff'', ''--no-textconv'', ''--name-only'', ''--diff-filter=U'', ''-z'']
          ''HEAD'')
       (\<lambda>o1. act_return (filter (\<lambda>p. p \<noteq> []) (str_split CHR 0x00 (output_text o1))))"

datatype resolution = Complete | Unresolved "string list"

definition repo_resolve :: "'w git_env \<Rightarrow> repo \<Rightarrow> rule list \<Rightarrow> ('w, resolution) git" where
  "repo_resolve env rp rules =
     act_bind (merge_base env rp) (\<lambda>base.
     act_bind (repo_touched env rp base) (\<lambda>paths.
     act_bind
       (act_for paths (\<lambda>path.
          case rule_for path rules of
            None \<Rightarrow> act_return ()
          | Some strategy \<Rightarrow> repo_apply env rp path strategy base))
       (\<lambda>_. act_bind (repo_conflicts env rp) (\<lambda>unresolved.
          act_return (if unresolved = [] then Complete else Unresolved unresolved)))))"

section \<open>The paths a rule may apply to\<close>

text \<open>A record of the diff: one path, or a rename with its old and new.\<close>

datatype diff_record = Changed string string | Renamed string string string

fun record_fields :: "diff_record \<Rightarrow> string list" where
  "record_fields (Changed status path) = [status, path]"
| "record_fields (Renamed score old new) = [''R'' @ score, old, new]"

fun record_ok :: "diff_record \<Rightarrow> bool" where
  "record_ok (Changed status path) \<longleftrightarrow> \<not> starts_with status ''R'' \<and> CHR 0x00 \<notin> set status \<and> CHR 0x00 \<notin> set path"
| "record_ok (Renamed score old new) \<longleftrightarrow>
     CHR 0x00 \<notin> set score \<and> CHR 0x00 \<notin> set old \<and> CHR 0x00 \<notin> set new"

fun record_paths :: "diff_record \<Rightarrow> string set" where
  "record_paths (Changed status path) = {path}"
| "record_paths (Renamed score old new) = {old, new}"

definition render_diff :: "diff_record list \<Rightarrow> string" where
  "render_diff rs = concat (map (\<lambda>t. t @ [CHR 0x00]) (concat (map record_fields rs)))"

definition diff_paths :: "diff_record list \<Rightarrow> string set" where
  "diff_paths rs = (\<Union>r\<in>set rs. record_paths r)"

text \<open>What reading one record adds.\<close>

fun diff_add :: "diff_record \<Rightarrow> tree_diff \<Rightarrow> tree_diff" where
  "diff_add (Changed status path) d = d\<lparr>td_paths := bset_insert path (td_paths d)\<rparr>"
| "diff_add (Renamed score old new) d =
     d\<lparr>td_paths := bset_insert old (bset_insert new (td_paths d)), td_renames := td_renames d @ [(old, new)]\<rparr>"

fun record_renames :: "diff_record \<Rightarrow> (string \<times> string) set" where
  "record_renames (Changed status path) = {}"
| "record_renames (Renamed score old new) = {(old, new)}"

lemma diff_add_view:
  "set (td_paths (diff_add r d)) = record_paths r \<union> set (td_paths d)"
  "sorted_wrt (<) (td_paths d) \<Longrightarrow> sorted_wrt (<) (td_paths (diff_add r d))"
  "set (td_renames (diff_add r d)) = set (td_renames d) \<union> record_renames r"
  by (cases r; simp add: bset_insert_sorted)+

lemma parse_diff_fields_one:
  "record_ok r \<Longrightarrow> parse_diff_fields (record_fields r @ rest) d = parse_diff_fields rest (diff_add r d)"
  by (cases r) (simp_all add: starts_with_def)

lemma parse_diff_fields_render:
  "list_all record_ok rs \<Longrightarrow> parse_diff_fields (concat (map record_fields rs) @ [[]]) d = fold diff_add rs d"
  by (induction rs arbitrary: d) (simp_all add: parse_diff_fields_one)

lemma fold_diff_add:
  "set (td_paths (fold diff_add rs d)) = set (td_paths d) \<union> diff_paths rs"
  "sorted_wrt (<) (td_paths d) \<Longrightarrow> sorted_wrt (<) (td_paths (fold diff_add rs d))"
  "set (td_renames (fold diff_add rs d)) = set (td_renames d) \<union> (\<Union>r\<in>set rs. record_renames r)"
  by (induction rs arbitrary: d) (auto simp: diff_add_view diff_paths_def)

lemma record_renames_iff: "(\<Union>r\<in>set rs. record_renames r) = {(old, new). \<exists>score. Renamed score old new \<in> set rs}"
proof -
  have "(old, new) \<in> record_renames r \<longleftrightarrow> (\<exists>score. r = Renamed score old new)" for r old new
    by (cases r) auto
  then show ?thesis by auto
qed

lemma parse_tree_diff_render:
  assumes "list_all record_ok rs"
  shows "set (td_paths (parse_tree_diff (render_diff rs))) = diff_paths rs"
    "sorted_wrt (<) (td_paths (parse_tree_diff (render_diff rs)))"
    "set (td_renames (parse_tree_diff (render_diff rs))) = {(old, new). \<exists>score. Renamed score old new \<in> set rs}"
proof -
  have "CHR 0x00 \<notin> set t" if t: "t \<in> set (concat (map record_fields rs))" for t
  proof -
    from t obtain r where r: "r \<in> set rs" "t \<in> set (record_fields r)" by auto
    with assms have "record_ok r" by (auto simp: list_all_iff)
    with r(2) show ?thesis by (cases r) auto
  qed
  from split_terminated [of "concat (map record_fields rs)" "CHR 0x00", OF this]
  have "parse_tree_diff (render_diff rs) = parse_diff_fields (concat (map record_fields rs) @ [[]]) tree_diff_default"
    by (simp add: parse_tree_diff_def render_diff_def)
  then show "set (td_paths (parse_tree_diff (render_diff rs))) = diff_paths rs"
    "sorted_wrt (<) (td_paths (parse_tree_diff (render_diff rs)))"
    "set (td_renames (parse_tree_diff (render_diff rs))) = {(old, new). \<exists>score. Renamed score old new \<in> set rs}"
    using fold_diff_add(2) [of tree_diff_default]
    by (simp_all add: parse_diff_fields_render [OF assms] fold_diff_add record_renames_iff
        tree_diff_default_def)
qed

lemma tree_diff_shared_set:
  "set (tree_diff_shared a b) =
     {p. p \<in> set (td_paths a) \<and> p \<in> set (td_paths b) \<or>
         (\<exists>old. (old, p) \<in> set (td_renames a) \<and> old \<in> set (td_paths b)) \<or>
         (\<exists>old. (old, p) \<in> set (td_renames b) \<and> old \<in> set (td_paths a))}"
  unfolding tree_diff_shared_def Let_def set_bset_extend by force

text \<open>
  Where a policy rule may apply: from what git prints for the two sides, the paths the
  merge is checked on are, ascending and once each, those both sides changed (a rename
  changing its two paths) and the new path of a rename whose old path the other side changed;
  which side is asked first makes no difference.
\<close>

theorem shared_paths_exact:
  assumes "list_all record_ok ours" and "list_all record_ok theirs"
  shows "let a = parse_tree_diff (render_diff ours); b = parse_tree_diff (render_diff theirs) in
    set (tree_diff_shared a b) =
      (diff_paths ours \<inter> diff_paths theirs) \<union>
      {new. \<exists>score old. Renamed score old new \<in> set ours \<and> old \<in> diff_paths theirs} \<union>
      {new. \<exists>score old. Renamed score old new \<in> set theirs \<and> old \<in> diff_paths ours} \<and>
    sorted_wrt (<) (tree_diff_shared a b) \<and>
    tree_diff_shared a b = tree_diff_shared b a"
proof -
  let ?a = "parse_tree_diff (render_diff ours)" and ?b = "parse_tree_diff (render_diff theirs)"
  note a = parse_tree_diff_render [OF assms(1)] and b = parse_tree_diff_render [OF assms(2)]
  have "set (tree_diff_shared ?a ?b) =
      (diff_paths ours \<inter> diff_paths theirs) \<union>
      {new. \<exists>score old. Renamed score old new \<in> set ours \<and> old \<in> diff_paths theirs} \<union>
      {new. \<exists>score old. Renamed score old new \<in> set theirs \<and> old \<in> diff_paths ours}"
    unfolding tree_diff_shared_set a b by blast
  moreover have sorted: "sorted_wrt (<) (tree_diff_shared ?a ?b)" "sorted_wrt (<) (tree_diff_shared ?b ?a)"
    using a(2) b(2) by (simp_all add: tree_diff_shared_def Let_def bset_extend_sorted sorted_wrt_filter)
  moreover have "set (tree_diff_shared ?a ?b) = set (tree_diff_shared ?b ?a)"
    unfolding tree_diff_shared_set by blast
  ultimately show ?thesis by (simp add: Let_def bset_unique [OF sorted])
qed

theorem shared_paths_exact_witness:
  "tree_diff_shared (parse_tree_diff (render_diff [Renamed ''100'' ''a'' ''b'', Changed ''M'' ''c'']))
     (parse_tree_diff (render_diff [Changed ''M'' ''a'', Changed ''D'' ''d''])) = [''a'', ''b''] \<and>
   set (tree_diff_shared (parse_tree_diff (render_diff [Renamed ''100'' ''a'' ''b'', Changed ''M'' ''c'']))
     (parse_tree_diff (render_diff [Changed ''M'' ''a'', Changed ''D'' ''d'']))) = {''a'', ''b''}"
proof -
  have "list_all record_ok [Renamed ''100'' ''a'' ''b'', Changed ''M'' ''c'']"
    "list_all record_ok [Changed ''M'' ''a'', Changed ''D'' ''d'']" by (simp_all add: starts_with_def)
  note t = shared_paths_exact [OF this, unfolded Let_def, THEN conjunct1]
  have "tree_diff_shared (parse_tree_diff (render_diff [Renamed ''100'' ''a'' ''b'', Changed ''M'' ''c'']))
     (parse_tree_diff (render_diff [Changed ''M'' ''a'', Changed ''D'' ''d''])) = [''a'', ''b'']" by code_simp
  then show ?thesis using t by (simp add: diff_paths_def)
qed

end
