(* ===== verification/Git_Vcs.thy ===== *)
theory Git_Vcs
  imports Git_Policy
begin

text \<open>
  \<open>VcsClient\<close> over git (\<open>src/crates/git/src/vcs.rs\<close>): every operation of the client as an
  action on the world, the map of working copies and the log of the processes run, and the
  readers of what git prints. Opening a place by the runtime, \<open>tracing\<close> and the futures
  machinery are left out; an operation's steps run in the order of its \<open>await\<close>s.
\<close>

section \<open>Reading what git prints\<close>

datatype change_kind = Added | Deleted | Modified

record change =
  ch_path :: string
  ch_kind :: change_kind

record log_entry =
  le_id :: string
  le_message :: string

definition change_kind_of :: "char \<Rightarrow> char \<Rightarrow> change_kind option" where
  "change_kind_of index tree =
     (if index = CHR ''A'' \<and> tree = CHR ''D'' then None
      else if index = CHR ''?'' \<and> tree = CHR ''?'' \<or> index = CHR ''A'' then Some Added
      else if tree = CHR ''D'' \<or> index = CHR ''D'' then Some Deleted
      else Some Modified)"

fun pending_loop :: "string list \<Rightarrow> (string, change_kind) btree \<Rightarrow> (string, change_kind) btree" where
  "pending_loop [] changes = changes"
| "pending_loop (entry # entries) changes =
     (if length entry \<le> 3 then pending_loop entries changes
      else
        (let path = drop 3 entry in
         case change_kind_of (entry ! 0) (entry ! 1) of
           None \<Rightarrow> pending_loop entries changes
         | Some kind \<Rightarrow>
             pending_loop entries
               (bt_insert path
                 (case bt_get changes path of
                    Some previous \<Rightarrow> if previous \<noteq> kind then Modified else kind
                  | None \<Rightarrow> kind) changes)))"

definition pending_of :: "string \<Rightarrow> change list" where
  "pending_of porcelain =
     map (\<lambda>(path, kind). \<lparr>ch_path = path, ch_kind = kind\<rparr>)
       (pending_loop (str_split CHR 0x00 porcelain) [])"

definition trim_newlines_end :: "string \<Rightarrow> string" where
  "trim_newlines_end s = rev (dropWhile (\<lambda>c. c = CHR 0x0A) (rev s))"

definition entries_of :: "string \<Rightarrow> log_entry list" where
  "entries_of out =
     concat (map (\<lambda>rec1. case split_once CHR 0x1F rec1 of
         None \<Rightarrow> []
       | Some (i, message) \<Rightarrow> [\<lparr>le_id = i, le_message = trim_newlines_end message\<rparr>])
       (str_split CHR 0x00 out))"

section \<open>The client's helpers\<close>

definition validate_arg :: "string \<Rightarrow> ('w, unit) git" where
  "validate_arg v =
     (if v = [] \<or> starts_with v ''-'' then act_fail (Not_Found v) else act_return ())"

definition client_rev_parse :: "'w git_env \<Rightarrow> place \<Rightarrow> string \<Rightarrow> ('w, string) git" where
  "client_rev_parse env at revision =
     act_then (validate_arg revision)
       (act_bind
         (client_git env (Some at)
           [''rev-parse'', ''--verify'', ''--quiet'', ''--end-of-options'', revision @ ''^{commit}''] [])
         (\<lambda>o1.
           if output_success o1 then act_return (str_trim (output_text o1))
           else
             (case classify (out_stderr o1) of
                Class_NotARepository \<Rightarrow> act_fail Not_A_Repository
              | _ \<Rightarrow> act_fail (Not_Found revision))))"

definition client_read_ref :: "'w git_env \<Rightarrow> place \<Rightarrow> string \<Rightarrow> ('w, string option) git" where
  "client_read_ref env at full =
     act_bind (client_git env (Some at) [''show-ref'', ''--verify'', ''--hash'', ''--'', full] []) (\<lambda>o1.
       if output_success o1 then act_return (Some (str_trim (output_text o1)))
       else if classify (out_stderr o1) = Class_NotARepository then act_fail Not_A_Repository
       else act_return None)"

definition client_has_remote :: "'w git_env \<Rightarrow> place \<Rightarrow> string \<Rightarrow> ('w, bool) git" where
  "client_has_remote env at remote =
     act_bind (client_git env (Some at) [''remote'', ''get-url'', ''--'', remote] [])
       (\<lambda>o1. act_return (output_success o1))"

definition client_expand_url :: "'w git_env \<Rightarrow> place \<Rightarrow> string \<Rightarrow> ('w, string) git" where
  "client_expand_url env at address =
     act_bind (act_attempt (client_git env (Some at) [''ls-remote'', ''--get-url'', ''--'', address] []))
       (\<lambda>r. case r of
          Inr o1 \<Rightarrow> act_return (if output_success o1 then str_trim (output_text o1) else address)
        | Inl _ \<Rightarrow> act_return address)"

definition client_read_gitdir :: "'w git_env \<Rightarrow> place \<Rightarrow> string \<Rightarrow> ('w, string) git" where
  "client_read_gitdir env at revision =
     act_bind (client_git env (Some at) [''rev-parse'', ''--absolute-git-dir''] []) (\<lambda>o1.
       if output_success o1 then act_return (str_trim (output_text o1))
       else act_fail (refuse o1 at revision None))"

definition client_create ::
  "'w git_env \<Rightarrow> place \<Rightarrow> string list \<Rightarrow> (string \<times> string) list \<Rightarrow> string \<Rightarrow> ('w, unit) git" where
  "client_create env at args extra missing =
     act_then (client_forget env at)
       (act_bind (client_git env (Some at) (pins_args pins_forced @ args) extra) (\<lambda>o1.
          if output_success o1 then act_return () else act_fail (refuse o1 at missing None)))"

section \<open>The repository's helpers\<close>

definition repo_rev_parse :: "'w git_env \<Rightarrow> repo \<Rightarrow> string \<Rightarrow> ('w, string) git" where
  "repo_rev_parse env rp revision = client_rev_parse env (rp_at rp) revision"

definition check_transport_config :: "repo \<Rightarrow> ('w, unit) git" where
  "check_transport_config rp =
     (case pn_blocked (rp_pins rp) of
        Some key \<Rightarrow>
          act_fail (Other_Error (display_path (rp_at rp) @ '': the repository sets '' @ key @
            '', and how a transport runs is the host'' @ [CHR 0x27] @ ''s to set''))
      | None \<Rightarrow> act_return ())"

definition repo_expand :: "'w git_env \<Rightarrow> repo \<Rightarrow> string \<Rightarrow> bool \<Rightarrow> ('w, string) git" where
  "repo_expand env rp remote push =
     act_bind
       (act_attempt (repo_exec env rp
          ([''remote'', ''get-url''] @ (if push then [''--push''] else []) @ [''--'', remote]) []))
       (\<lambda>r. case r of
          Inr o1 \<Rightarrow>
            if output_success o1 then act_return (str_trim (output_text o1))
            else client_expand_url env (rp_at rp) remote
        | Inl _ \<Rightarrow> client_expand_url env (rp_at rp) remote)"

definition repo_status :: "'w git_env \<Rightarrow> repo \<Rightarrow> ('w, change list) git" where
  "repo_status env rp =
     act_bind
       (repo_run env rp
         [''status'', ''--porcelain'', ''-z'', ''--no-renames'', ''--untracked-files=all''] ''HEAD'')
       (\<lambda>o1. act_return (pending_of (output_text o1)))"

definition repo_is_ancestor :: "'w git_env \<Rightarrow> repo \<Rightarrow> string \<Rightarrow> string \<Rightarrow> ('w, bool) git" where
  "repo_is_ancestor env rp ancestor descendant =
     act_bind (repo_exec env rp [''merge-base'', ''--is-ancestor'', ancestor, descendant] []) (\<lambda>o1.
       if out_code o1 = Some 0 then act_return True
       else if out_code o1 = Some 1 then act_return False
       else act_fail (repo_refuse rp o1 descendant))"

definition repo_merging :: "'w git_env \<Rightarrow> repo \<Rightarrow> ('w, bool) git" where
  "repo_merging env rp =
     act_bind
       (repo_exec env rp
         [''rev-parse'', ''--verify'', ''--quiet'', ''--end-of-options'', ''MERGE_HEAD''] [])
       (\<lambda>o1. act_return (output_success o1))"

definition begin_merge :: "'w git_env \<Rightarrow> repo \<Rightarrow> string \<Rightarrow> string \<Rightarrow> ('w, bool) git" where
  "begin_merge env rp head revision =
     act_bind (repo_exec env rp [''merge'', ''--no-ff'', ''--no-commit'', ''--'', head] []) (\<lambda>o1.
     act_bind (repo_merging env rp) (\<lambda>merging.
       if merging then act_return True
       else if output_success o1 then act_return False
       else act_fail (repo_refuse rp o1 revision)))"

record merged =
  mg_commit :: "string option"
  mg_conflicts :: "string list"

definition commit_merge :: "'w git_env \<Rightarrow> repo \<Rightarrow> rule list \<Rightarrow> string \<Rightarrow> ('w, merged) git" where
  "commit_merge env rp policy message =
     act_bind (repo_resolve env rp policy) (\<lambda>resolved.
       case resolved of
         Unresolved conflicts \<Rightarrow> act_return \<lparr>mg_commit = None, mg_conflicts = conflicts\<rparr>
       | Complete \<Rightarrow>
           act_bind (repo_run env rp [''commit'', ''--quiet'', ''-m'', message] ''HEAD'') (\<lambda>_.
           act_bind (repo_rev_parse env rp ''HEAD'') (\<lambda>commit.
             act_return \<lparr>mg_commit = Some commit, mg_conflicts = []\<rparr>)))"

text \<open>Best effort: whatever the abort does, the operation goes on.\<close>

definition repo_abort :: "'w git_env \<Rightarrow> repo \<Rightarrow> ('w, unit) git" where
  "repo_abort env rp =
     act_bind (act_attempt (repo_exec env rp [''merge'', ''--abort''] [])) (\<lambda>_. act_return ())"

definition is_committed :: "vcs_error + merged \<Rightarrow> bool" where
  "is_committed r \<longleftrightarrow> (case r of Inr m \<Rightarrow> mg_commit m \<noteq> None | Inl _ \<Rightarrow> False)"

definition seal_merge :: "'w git_env \<Rightarrow> repo \<Rightarrow> rule list \<Rightarrow> string \<Rightarrow> ('w, merged) git" where
  "seal_merge env rp policy message =
     act_bind (act_attempt (commit_merge env rp policy message)) (\<lambda>merged1.
       act_then (if is_committed merged1 then act_return () else repo_abort env rp)
         (act_result merged1))"

definition detach_from :: "'w git_env \<Rightarrow> repo \<Rightarrow> string \<Rightarrow> ('w, unit) git" where
  "detach_from env rp name =
     act_bind (repo_exec env rp [''symbolic-ref'', ''--quiet'', ''HEAD''] []) (\<lambda>head.
       if str_trim (output_text head) \<noteq> ''refs/heads/'' @ name then act_return ()
       else
         act_bind (repo_exec env rp [''checkout'', ''--quiet'', ''--detach''] []) (\<lambda>o1.
           if output_success o1 then act_return ()
           else act_fail (Other_Error (''cannot label the branch '' @ name @ '' the repository is on''))))"

definition add_worktree :: "'w git_env \<Rightarrow> repo \<Rightarrow> place \<Rightarrow> string \<Rightarrow> ('w, unit) git" where
  "add_worktree env rp at revision =
     (case ge_absolute env (pl_path at) of
        None \<Rightarrow> act_fail (Untyped (''resolving '' @ display_path at))
      | Some destination \<Rightarrow>
          act_bind
            (repo_exec env rp [''worktree'', ''add'', ''--detach'', ''--'', destination, revision] [])
            (\<lambda>o1. if output_success o1 then act_return () else act_fail (refuse o1 at revision None)))"

definition remove_worktree :: "'w git_env \<Rightarrow> repo \<Rightarrow> ('w, unit) git" where
  "remove_worktree env rp =
     repo_step env rp [''worktree'', ''remove'', ''--force'', ''.''] (display_path (rp_at rp))"

section \<open>The operations\<close>

definition op_resolve :: "'w git_env \<Rightarrow> place \<Rightarrow> string \<Rightarrow> ('w, string) git" where
  "op_resolve env at revision = client_rev_parse env at revision"

definition op_descends :: "'w git_env \<Rightarrow> place \<Rightarrow> string \<Rightarrow> string \<Rightarrow> ('w, bool) git" where
  "op_descends env at ancestor descendant =
     act_bind (repo_open env at) (\<lambda>rp.
     act_bind (repo_rev_parse env rp ancestor) (\<lambda>a.
     act_bind (repo_rev_parse env rp descendant) (\<lambda>d. repo_is_ancestor env rp a d)))"

definition op_head :: "'w git_env \<Rightarrow> place \<Rightarrow> ('w, string) git" where
  "op_head env at = client_rev_parse env at ''HEAD''"

definition op_commit :: "'w git_env \<Rightarrow> place \<Rightarrow> string \<Rightarrow> ('w, string option) git" where
  "op_commit env at message =
     act_bind (repo_open env at) (\<lambda>rp.
     act_bind (repo_status env rp) (\<lambda>changes.
       if changes = [] then act_return None
       else
         act_then (repo_step env rp [''add'', ''-A''] ''HEAD'')
        (act_then (repo_step env rp [''commit'', ''--quiet'', ''-m'', message] ''HEAD'')
        (act_bind (repo_rev_parse env rp ''HEAD'') (\<lambda>c. act_return (Some c))))))"

definition op_merge ::
  "'w git_env \<Rightarrow> place \<Rightarrow> string \<Rightarrow> string \<Rightarrow> rule list \<Rightarrow> ('w, merged) git" where
  "op_merge env at revision message policy =
     act_then (validate_arg revision)
    (act_bind (repo_open env at) (\<lambda>rp.
     act_bind (repo_rev_parse env rp revision) (\<lambda>head.
     act_bind (begin_merge env rp head revision) (\<lambda>started.
       if \<not> started then
         act_bind (repo_rev_parse env rp ''HEAD'') (\<lambda>c.
           act_return \<lparr>mg_commit = Some c, mg_conflicts = []\<rparr>)
       else seal_merge env rp policy message))))"

definition op_log :: "'w git_env \<Rightarrow> place \<Rightarrow> string \<Rightarrow> string \<Rightarrow> ('w, log_entry list) git" where
  "op_log env at revision base =
     act_bind (repo_open env at) (\<lambda>rp.
     act_bind (repo_rev_parse env rp base) (\<lambda>b.
     act_bind (repo_rev_parse env rp revision) (\<lambda>r.
     act_bind
       (repo_run env rp
         [''log'', ''--first-parent'', ''-z'', ''--no-show-signature'', ''--format=%H%x1f%B'',
          ''--end-of-options'', b @ ''..'' @ r] revision)
       (\<lambda>o1. act_return (entries_of (output_text o1))))))"

definition op_init :: "'w git_env \<Rightarrow> place \<Rightarrow> ('w, unit) git" where
  "op_init env at =
     act_bind (act_gets (\<lambda>s. ge_exists env (pl_dir at) ''.git'' (gs_world s))) (\<lambda>ex.
       if ex then act_fail (Exists_At (display_path at))
       else client_create env at [''init'', ''--quiet''] [] ''HEAD'')"

definition op_add :: "'w git_env \<Rightarrow> place \<Rightarrow> place \<Rightarrow> string \<Rightarrow> ('w, unit) git" where
  "op_add env repo1 at revision =
     act_then (validate_arg revision)
    (act_bind (repo_open env repo1) (\<lambda>rp.
     act_then (add_worktree env rp at revision)
    (act_bind (client_read_gitdir env at revision) (\<lambda>gitdir. client_register env at gitdir))))"

definition op_remove :: "'w git_env \<Rightarrow> place \<Rightarrow> ('w, unit) git" where
  "op_remove env at =
     act_bind (repo_open env at) (\<lambda>rp.
     act_then (remove_worktree env rp) (client_forget env at))"

definition op_pending :: "'w git_env \<Rightarrow> place \<Rightarrow> ('w, change list) git" where
  "op_pending env at = act_bind (repo_open env at) (repo_status env)"

text \<open>The arguments of a clone; \<open>depth\<close> as its decimal text.\<close>

definition clone_args :: "string \<Rightarrow> string option \<Rightarrow> string \<Rightarrow> string list" where
  "clone_args pack depth url =
     [''clone'', ''--quiet'', pack] @
     (case depth of None \<Rightarrow> [] | Some d \<Rightarrow> [''--depth'', d, ''--no-single-branch'']) @ [''--'', url, ''.'']"

definition op_clone :: "'w git_env \<Rightarrow> string \<Rightarrow> place \<Rightarrow> string option \<Rightarrow> ('w, unit) git" where
  "op_clone env url at depth =
     act_then (validate_arg url)
    (act_bind (client_expand_url env at url) (\<lambda>address.
       case transport_args (ge_binary env) address False of
         (protocol, pack) \<Rightarrow>
           client_create env at (clone_args pack depth url) [(''GIT_ALLOW_PROTOCOL'', protocol)] url))"

definition op_fetch :: "'w git_env \<Rightarrow> place \<Rightarrow> string \<Rightarrow> ('w, unit) git" where
  "op_fetch env at remote =
     act_then (validate_arg remote)
    (act_bind (repo_open env at) (\<lambda>rp.
     act_then (check_transport_config rp)
    (act_bind (repo_expand env rp remote False) (\<lambda>address.
       case transport_args (ge_binary env) address False of
         (protocol, pack) \<Rightarrow>
           act_bind
             (repo_exec env rp [''fetch'', ''--quiet'', pack, ''--'', remote]
               [(''GIT_ALLOW_PROTOCOL'', protocol)])
             (\<lambda>o1. if output_success o1 then act_return () else act_fail (repo_refuse rp o1 remote))))))"

definition op_label :: "'w git_env \<Rightarrow> place \<Rightarrow> string \<Rightarrow> string \<Rightarrow> ('w, unit) git" where
  "op_label env at name revision =
     act_then (validate_arg name)
    (act_then (validate_arg revision)
    (act_bind (repo_open env at) (\<lambda>rp.
     act_bind (repo_rev_parse env rp revision) (\<lambda>head.
     act_then (detach_from env rp name)
       (repo_step env rp [''branch'', ''-f'', ''--'', name, head] revision)))))"

definition op_labelled :: "'w git_env \<Rightarrow> place \<Rightarrow> string \<Rightarrow> ('w, string) git" where
  "op_labelled env at name =
     act_then (validate_arg name)
       (act_bind (client_read_ref env at (''refs/heads/'' @ name)) (\<lambda>c.
          case c of Some commit \<Rightarrow> act_return commit | None \<Rightarrow> act_fail (Not_Found name)))"

definition op_fetched :: "'w git_env \<Rightarrow> place \<Rightarrow> string \<Rightarrow> string \<Rightarrow> ('w, string) git" where
  "op_fetched env at remote name =
     act_then (validate_arg remote)
    (act_then (validate_arg name)
    (act_bind (client_read_ref env at (''refs/remotes/'' @ remote @ ''/'' @ name)) (\<lambda>c.
       case c of
         Some commit \<Rightarrow> act_return commit
       | None \<Rightarrow>
           act_bind (client_has_remote env at remote) (\<lambda>has.
             act_fail (Not_Found (if has then name else remote))))))"

definition op_push :: "'w git_env \<Rightarrow> place \<Rightarrow> string \<Rightarrow> string \<Rightarrow> ('w, unit) git" where
  "op_push env at remote label =
     act_then (validate_arg remote)
    (act_then (validate_arg label)
    (act_bind (repo_open env at) (\<lambda>rp.
     act_then (check_transport_config rp)
    (act_bind (repo_expand env rp remote True) (\<lambda>address.
       case transport_args (ge_binary env) address True of
         (protocol, pack) \<Rightarrow>
           act_bind
             (repo_exec env rp
               [''push'', ''--quiet'', pack, ''--'', remote,
                ''refs/heads/'' @ label @ '':refs/heads/'' @ label]
               [(''GIT_ALLOW_PROTOCOL'', protocol)])
             (\<lambda>o1. if output_success o1 then act_return ()
                    else act_fail (refuse_push o1 (rp_at rp) remote label)))))))"

text \<open>One call of the client and its reply, to speak of all operations at once.\<close>

datatype vcs_call =
  Resolve place string
| Descends place string string
| Head place
| Commit place string
| Merge place string string "rule list"
| Log place string string
| Init place
| Add place place string
| Remove place
| Pending place
| Clone_Repo string place "string option"
| Fetch place string
| Label place string string
| Labelled place string
| Fetched place string string
| Push place string string

datatype vcs_reply =
  Nothing | Text string | Flag bool | Sealed "string option" | Merging merged
| Entries "log_entry list" | Changes "change list"

definition reply :: "('a \<Rightarrow> vcs_reply) \<Rightarrow> ('w, 'a) git \<Rightarrow> ('w, vcs_reply) git" where
  "reply f m = act_bind m (\<lambda>a. act_return (f a))"

fun vcs_run :: "'w git_env \<Rightarrow> vcs_call \<Rightarrow> ('w, vcs_reply) git" where
  "vcs_run env (Resolve at revision) = reply Text (op_resolve env at revision)"
| "vcs_run env (Descends at a d) = reply Flag (op_descends env at a d)"
| "vcs_run env (Head at) = reply Text (op_head env at)"
| "vcs_run env (Commit at message) = reply Sealed (op_commit env at message)"
| "vcs_run env (Merge at revision message policy) = reply Merging (op_merge env at revision message policy)"
| "vcs_run env (Log at revision base) = reply Entries (op_log env at revision base)"
| "vcs_run env (Init at) = reply (\<lambda>_. Nothing) (op_init env at)"
| "vcs_run env (Add repo1 at revision) = reply (\<lambda>_. Nothing) (op_add env repo1 at revision)"
| "vcs_run env (Remove at) = reply (\<lambda>_. Nothing) (op_remove env at)"
| "vcs_run env (Pending at) = reply Changes (op_pending env at)"
| "vcs_run env (Clone_Repo url at depth) = reply (\<lambda>_. Nothing) (op_clone env url at depth)"
| "vcs_run env (Fetch at remote) = reply (\<lambda>_. Nothing) (op_fetch env at remote)"
| "vcs_run env (Label at name revision) = reply (\<lambda>_. Nothing) (op_label env at name revision)"
| "vcs_run env (Labelled at name) = reply Text (op_labelled env at name)"
| "vcs_run env (Fetched at remote name) = reply Text (op_fetched env at remote name)"
| "vcs_run env (Push at remote label) = reply (\<lambda>_. Nothing) (op_push env at remote label)"

end
