(* ===== verification/Git_Lockdown.thy ===== *)
theory Git_Lockdown
  imports Git_Vcs
begin

text \<open>
  What every process of a client call is held to. The locale \<open>git_discipline\<close> states what an
  observer of the log may rely on for the three kinds of command line the client builds (a
  bare reader, a pinned one of an open repository, a creation under the forced pins); the
  client's operations are proved to keep to it, and the interpretation gives the lockdown of
  the code.
\<close>

section \<open>The discipline\<close>

text \<open>The command lines that read a repository and run no program it chooses.\<close>

inductive bare_reader :: "string list \<Rightarrow> bool" where
  "bare_reader [''config'', ''--show-scope'', ''--list'', ''-z'']"
| "bare_reader [''rev-parse'', ''--verify'', ''--quiet'', ''--end-of-options'', spec]"
| "bare_reader [''rev-parse'', ''--absolute-git-dir'']"
| "bare_reader [''show-ref'', ''--verify'', ''--hash'', ''--'', full]"
| "bare_reader [''remote'', ''get-url'', ''--'', remote]"
| "bare_reader [''ls-remote'', ''--get-url'', ''--'', address]"

definition logged :: "(invocation \<Rightarrow> bool) \<Rightarrow> invocation list \<Rightarrow> 'w git_st \<Rightarrow> bool" where
  "logged ok before s \<longleftrightarrow> (\<exists>new. gs_log s = before @ new \<and> list_all ok new)"

lemma logged_start: "logged ok (gs_log s) s"
  by (simp add: logged_def)

lemma logged_git:
  assumes "\<And>s. ok (git_invocation env at args extra s)"
  shows "act_keeps (logged ok before) (client_git env at args extra)"
proof (rule act_specI)
  fix s r s' assume l: "logged ok before s" and c: "client_git env at args extra s = (r, s')"
  from c have "gs_log s' = gs_log s @ [git_invocation env at args extra s]"
    by (metis client_git_log snd_conv)
  with l assms [of s] have "logged ok before s'" by (fastforce simp: logged_def)
  then show "case r of Inl e \<Rightarrow> logged ok before s' | Inr a \<Rightarrow> logged ok before s'"
    by (simp split: sum.split)
qed

locale git_discipline =
  fixes env :: "'w git_env" and ok :: "invocation \<Rightarrow> bool" and places :: "place set"
    and trusted :: "repo \<Rightarrow> bool"
  assumes reader_ok: "at \<in> places \<Longrightarrow> bare_reader args \<Longrightarrow> ok (git_invocation env (Some at) args [] s)"
    and pinned_ok: "trusted rp \<Longrightarrow> ok (git_invocation env (Some (rp_at rp)) (repo_args rp args) [] s)"
    and transport_ok:
      "trusted rp \<Longrightarrow> transport_args (ge_binary env) address push = (protocol, pack) \<Longrightarrow>
       pack \<in> set args \<Longrightarrow>
       ok (git_invocation env (Some (rp_at rp)) (repo_args rp args) [(''GIT_ALLOW_PROTOCOL'', protocol)] s)"
    and create_ok: "at \<in> places \<Longrightarrow> ok (git_invocation env (Some at) (pins_args pins_forced @ args) [] s)"
    and clone_ok:
      "at \<in> places \<Longrightarrow> transport_args (ge_binary env) address False = (protocol, pack) \<Longrightarrow>
       pack \<in> set args \<Longrightarrow>
       ok (git_invocation env (Some at) (pins_args pins_forced @ args) [(''GIT_ALLOW_PROTOCOL'', protocol)] s)"
    and trusted_place: "trusted rp \<Longrightarrow> rp_at rp \<in> places"
begin

abbreviation keeps :: "invocation list \<Rightarrow> ('w, 'a) git \<Rightarrow> bool" where
  "keeps before m \<equiv> act_keeps (logged ok before) m"

lemma keeps_reader: "at \<in> places \<Longrightarrow> bare_reader args \<Longrightarrow> keeps before (client_git env (Some at) args [])"
  by (intro logged_git reader_ok)

lemma keeps_exec: "trusted rp \<Longrightarrow> keeps before (repo_exec env rp args [])"
  unfolding repo_exec_def by (intro logged_git pinned_ok)

lemma keeps_transport:
  "trusted rp \<Longrightarrow> transport_args (ge_binary env) address push = (protocol, pack) \<Longrightarrow> pack \<in> set args \<Longrightarrow>
   keeps before (repo_exec env rp args [(''GIT_ALLOW_PROTOCOL'', protocol)])"
  unfolding repo_exec_def by (intro logged_git transport_ok)

lemma keeps_run: "trusted rp \<Longrightarrow> keeps before (repo_run env rp args missing)"
  unfolding repo_run_def by (intro inv_intros keeps_exec)

lemma keeps_step: "trusted rp \<Longrightarrow> keeps before (repo_step env rp args missing)"
  unfolding repo_step_def by (intro inv_intros keeps_run)

lemma keeps_world: "(\<And>s r s'. m s = (r, s') \<Longrightarrow> gs_log s' = gs_log s) \<Longrightarrow> keeps before m"
  by (rule act_specI) (auto simp: logged_def split: sum.split)

lemma keeps_dir: "keeps before (dir_effect f rp c)"
  by (rule keeps_world) (auto simp: dir_effect_def split: prod.splits)

lemma keeps_temp: "keeps before (temp_file env content)"
  by (rule keeps_world) (auto simp: temp_file_def split: prod.splits)

lemma keeps_forget: "keeps before (client_forget env at)"
  by (rule keeps_world) (auto simp: client_forget_def split: option.splits)

lemma keeps_register: "keeps before (client_register env at g)"
  by (rule keeps_world) (auto simp: client_register_def split: option.splits)

lemma keeps_validate: "keeps before (validate_arg v)"
  unfolding validate_arg_def by (intro inv_intros)

lemmas keeps_basic = inv_intros keeps_exec keeps_run keeps_step keeps_dir keeps_temp keeps_forget
  keeps_register keeps_validate

text \<open>The resolution of a merge.\<close>

lemma keeps_show: "trusted rp \<Longrightarrow> keeps before (repo_show env rp revision path)"
  unfolding repo_show_def by (intro keeps_basic)

lemma keeps_write: "keeps before (repo_write env rp path content)"
  unfolding repo_write_def by (intro keeps_basic)

lemma keeps_keep: "trusted rp \<Longrightarrow> keeps before (repo_keep env rp path side)"
  unfolding repo_keep_def by (intro keeps_basic keeps_show keeps_write)

lemma keeps_blob: "trusted rp \<Longrightarrow> keeps before (write_temp_blob env rp revision path)"
  unfolding write_temp_blob_def by (intro keeps_basic keeps_show)

lemma keeps_union: "trusted rp \<Longrightarrow> keeps before (repo_union env rp path base)"
  unfolding repo_union_def by (intro keeps_basic keeps_blob keeps_write)

lemma keeps_apply: "trusted rp \<Longrightarrow> keeps before (repo_apply env rp path strategy base)"
  unfolding repo_apply_def by (cases strategy) (simp_all add: keeps_keep keeps_union)

lemma keeps_diff: "trusted rp \<Longrightarrow> keeps before (repo_diff_tree env rp a b)"
  unfolding repo_diff_tree_def by (intro keeps_basic)

lemma keeps_resolve: "trusted rp \<Longrightarrow> keeps before (repo_resolve env rp rules)"
  unfolding repo_resolve_def merge_base_def repo_touched_def repo_conflicts_def
  by (intro keeps_basic keeps_apply keeps_diff)

text \<open>The client's helpers.\<close>

lemma keeps_rev_parse: "at \<in> places \<Longrightarrow> keeps before (client_rev_parse env at revision)"
  unfolding client_rev_parse_def
  by (intro keeps_basic keeps_reader bare_reader.intros) (auto split: refusal_class.split intro: inv_intros)

lemma keeps_repo_rev_parse: "trusted rp \<Longrightarrow> keeps before (repo_rev_parse env rp revision)"
  unfolding repo_rev_parse_def by (intro keeps_rev_parse trusted_place)

lemma keeps_read_ref: "at \<in> places \<Longrightarrow> keeps before (client_read_ref env at full)"
  unfolding client_read_ref_def by (intro keeps_basic keeps_reader bare_reader.intros)

lemma keeps_has_remote: "at \<in> places \<Longrightarrow> keeps before (client_has_remote env at remote)"
  unfolding client_has_remote_def by (intro keeps_basic keeps_reader bare_reader.intros)

lemma keeps_expand_url: "at \<in> places \<Longrightarrow> keeps before (client_expand_url env at address)"
  unfolding client_expand_url_def by (intro keeps_basic keeps_reader bare_reader.intros)

lemma keeps_read_gitdir: "at \<in> places \<Longrightarrow> keeps before (client_read_gitdir env at revision)"
  unfolding client_read_gitdir_def by (intro keeps_basic keeps_reader bare_reader.intros)

lemma keeps_expand: "trusted rp \<Longrightarrow> keeps before (repo_expand env rp remote push)"
  unfolding repo_expand_def by (intro keeps_basic keeps_expand_url trusted_place)

lemma keeps_create: "at \<in> places \<Longrightarrow> keeps before (client_create env at args [] missing)"
  unfolding client_create_def by (intro keeps_basic logged_git create_ok)

lemma keeps_clone:
  "at \<in> places \<Longrightarrow> transport_args (ge_binary env) address False = (protocol, pack) \<Longrightarrow>
   keeps before (client_create env at (clone_args pack depth url) [(''GIT_ALLOW_PROTOCOL'', protocol)] url)"
  unfolding client_create_def
  by (intro keeps_basic logged_git clone_ok) (assumption, assumption, simp add: clone_args_def)

lemma keeps_status: "trusted rp \<Longrightarrow> keeps before (repo_status env rp)"
  unfolding repo_status_def by (intro keeps_basic)

lemma keeps_ancestor: "trusted rp \<Longrightarrow> keeps before (repo_is_ancestor env rp a d)"
  unfolding repo_is_ancestor_def by (intro keeps_basic)

lemma keeps_begin: "trusted rp \<Longrightarrow> keeps before (begin_merge env rp head revision)"
  unfolding begin_merge_def repo_merging_def by (intro keeps_basic)

lemma keeps_commit_merge: "trusted rp \<Longrightarrow> keeps before (commit_merge env rp policy message)"
  unfolding commit_merge_def
  by (intro keeps_basic keeps_resolve)
    (auto split: resolution.split intro!: keeps_basic keeps_repo_rev_parse)

lemma keeps_seal: "trusted rp \<Longrightarrow> keeps before (seal_merge env rp policy message)"
  unfolding seal_merge_def repo_abort_def by (intro keeps_basic keeps_commit_merge)

lemma keeps_detach: "trusted rp \<Longrightarrow> keeps before (detach_from env rp name)"
  unfolding detach_from_def by (intro keeps_basic)

lemma keeps_worktree: "trusted rp \<Longrightarrow> keeps before (add_worktree env rp at revision)"
  unfolding add_worktree_def by (intro keeps_basic)

lemmas keeps_helpers = keeps_basic keeps_repo_rev_parse keeps_rev_parse keeps_read_ref
  keeps_has_remote keeps_expand_url keeps_read_gitdir keeps_expand keeps_create keeps_clone
  keeps_status keeps_ancestor keeps_begin keeps_seal keeps_detach keeps_worktree keeps_transport

lemma keeps_pins_read: "at \<in> places \<Longrightarrow> keeps before (pins_read env at)"
  unfolding pins_read_def by (intro keeps_basic keeps_reader bare_reader.intros)

end

section \<open>The lockdown of a call\<close>

fun call_places :: "vcs_call \<Rightarrow> place set" where
  "call_places (Resolve at _) = {at}"
| "call_places (Descends at _ _) = {at}"
| "call_places (Head at) = {at}"
| "call_places (Commit at _) = {at}"
| "call_places (Merge at _ _ _) = {at}"
| "call_places (Log at _ _) = {at}"
| "call_places (Init at) = {at}"
| "call_places (Add repo1 at _) = {repo1, at}"
| "call_places (Remove at) = {at}"
| "call_places (Pending at) = {at}"
| "call_places (Clone_Repo _ at _) = {at}"
| "call_places (Fetch at _) = {at}"
| "call_places (Label at _ _) = {at}"
| "call_places (Labelled at _) = {at}"
| "call_places (Fetched at _ _) = {at}"
| "call_places (Push at _ _) = {at}"

text \<open>A repository opened by the call: its pins are what its configuration read at the start.\<close>

definition opened :: "'w git_env \<Rightarrow> 'w git_st \<Rightarrow> vcs_call \<Rightarrow> repo \<Rightarrow> bool" where
  "opened env s0 call rp \<longleftrightarrow>
     rp_at rp \<in> call_places call \<and> fst (pins_read env (rp_at rp) s0) = Inr (rp_pins rp)"

definition command_of :: "invocation \<Rightarrow> string list \<Rightarrow> bool" where
  "command_of iv args \<longleftrightarrow> iv_args iv = args \<or> (\<exists>g. iv_args iv = (''--git-dir='' @ g) # args)"

definition locked :: "'w git_env \<Rightarrow> 'w git_st \<Rightarrow> vcs_call \<Rightarrow> invocation \<Rightarrow> bool" where
  "locked env s0 call iv \<longleftrightarrow>
     (\<exists>at\<in>call_places call. \<exists>args. command_of iv args \<and>
       iv_cwd iv = Some (pl_dir at) \<and> iv_unset iv = SCRUBBED \<and>
       iv_var iv ''GIT_TERMINAL_PROMPT'' = Some ''0'' \<and> iv_var iv ''GIT_EDITOR'' = Some '':'' \<and>
       iv_var iv ''GIT_NO_LAZY_FETCH'' = Some ''1'' \<and> iv_var iv ''LC_ALL'' = Some ''C'' \<and>
       (bare_reader args \<or>
        (\<exists>p rest. fst (pins_read env at s0) = Inr p \<and> args = ''--work-tree=.'' # pins_args p @ rest) \<or>
        (\<exists>rest. args = pins_args pins_forced @ rest)) \<and>
       (iv_var iv ''GIT_ALLOW_PROTOCOL'' = Some [] \<or>
        \<not> bare_reader args \<and>
        (\<exists>address push protocol pack. transport_args (ge_binary env) address push = (protocol, pack) \<and>
           iv_var iv ''GIT_ALLOW_PROTOCOL'' = Some protocol \<and> pack \<in> set args)))"

lemma invocation_shape:
  "command_of (git_invocation env (Some at) args extra s) args"
  "iv_cwd (git_invocation env (Some at) args extra s) = Some (pl_dir at)"
  "iv_unset (git_invocation env (Some at) args extra s) = SCRUBBED"
  by (auto simp: git_invocation_def command_of_def split: option.split)

lemma invocation_fixed:
  assumes "\<And>k v. (k, v) \<in> set extra \<Longrightarrow> k = ''GIT_ALLOW_PROTOCOL''"
  shows "iv_var (git_invocation env at args extra s) ''GIT_TERMINAL_PROMPT'' = Some ''0''"
    "iv_var (git_invocation env at args extra s) ''GIT_EDITOR'' = Some '':''"
    "iv_var (git_invocation env at args extra s) ''GIT_NO_LAZY_FETCH'' = Some ''1''"
    "iv_var (git_invocation env at args extra s) ''LC_ALL'' = Some ''C''"
proof -
  have "k \<notin> fst ` set extra" if "k \<noteq> ''GIT_ALLOW_PROTOCOL''" for k using assms that by force
  note f = fixed_vars [OF _ this]
  show "iv_var (git_invocation env at args extra s) ''GIT_TERMINAL_PROMPT'' = Some ''0''"
    "iv_var (git_invocation env at args extra s) ''GIT_EDITOR'' = Some '':''"
    "iv_var (git_invocation env at args extra s) ''GIT_NO_LAZY_FETCH'' = Some ''1''"
    "iv_var (git_invocation env at args extra s) ''LC_ALL'' = Some ''C''"
    by (subst f; simp add: FIXED_def)+
qed

lemma protocol_empty: "iv_var (git_invocation env at args [] s) ''GIT_ALLOW_PROTOCOL'' = Some []"
  by (subst fixed_vars) (simp_all add: FIXED_def)

lemma protocol_set:
  "iv_var (git_invocation env at args [(''GIT_ALLOW_PROTOCOL'', protocol)] s) ''GIT_ALLOW_PROTOCOL'' = Some protocol"
  by (rule extra_var) simp

lemma not_reader:
  "\<not> bare_reader (''--work-tree=.'' # xs)" "\<not> bare_reader (pins_args pins_forced @ xs)"
  by (auto simp: pins_forced_def pins_build_def FORCED_def pins_args_def elim: bare_reader.cases)

lemma lockedI:
  assumes "at \<in> call_places call" and "\<And>k v. (k, v) \<in> set extra \<Longrightarrow> k = ''GIT_ALLOW_PROTOCOL''"
    and "bare_reader args \<or>
        (\<exists>p rest. fst (pins_read env at s0) = Inr p \<and> args = ''--work-tree=.'' # pins_args p @ rest) \<or>
        (\<exists>rest. args = pins_args pins_forced @ rest)"
    and "extra = [] \<or> \<not> bare_reader args \<and>
        (\<exists>address push protocol pack. transport_args (ge_binary env) address push = (protocol, pack) \<and>
           extra = [(''GIT_ALLOW_PROTOCOL'', protocol)] \<and> pack \<in> set args)"
  shows "locked env s0 call (git_invocation env (Some at) args extra s)"
proof -
  let ?iv = "git_invocation env (Some at) args extra s"
  have "iv_var ?iv ''GIT_ALLOW_PROTOCOL'' = Some [] \<or>
        \<not> bare_reader args \<and>
        (\<exists>address push protocol pack. transport_args (ge_binary env) address push = (protocol, pack) \<and>
           iv_var ?iv ''GIT_ALLOW_PROTOCOL'' = Some protocol \<and> pack \<in> set args)"
    using assms(4) protocol_empty protocol_set by metis
  with assms(3) show ?thesis
    unfolding locked_def
    by (intro bexI [OF _ assms(1)] exI [of _ args] conjI invocation_shape invocation_fixed [OF assms(2)])
qed

interpretation lockdown: git_discipline env "locked env s0 call" "call_places call" "opened env s0 call"
  for env :: "'w git_env" and s0 call
proof unfold_locales
  show "locked env s0 call (git_invocation env (Some (rp_at rp)) (repo_args rp args)
      [(''GIT_ALLOW_PROTOCOL'', protocol)] s)"
    if "opened env s0 call rp" "transport_args (ge_binary env) address push = (protocol, pack)"
      "pack \<in> set args" for rp address push protocol pack args and s :: "'w git_st"
    using that by (intro lockedI) (auto simp: opened_def repo_args_def not_reader)
  show "locked env s0 call (git_invocation env (Some at) (pins_args pins_forced @ args)
      [(''GIT_ALLOW_PROTOCOL'', protocol)] s)"
    if "at \<in> call_places call" "transport_args (ge_binary env) address False = (protocol, pack)"
      "pack \<in> set args" for at address protocol pack args and s :: "'w git_st"
    using that by (intro lockedI) (auto simp: not_reader)
qed (auto intro!: lockedI simp: opened_def repo_args_def)

text \<open>From the start of a call.\<close>

definition from_start :: "'w git_env \<Rightarrow> 'w git_st \<Rightarrow> vcs_call \<Rightarrow> ('w, 'a) git \<Rightarrow> bool" where
  "from_start env s0 call m \<longleftrightarrow> logged (locked env s0 call) (gs_log s0) (snd (m s0))"

lemma from_start_keeps:
  "act_keeps (logged (locked env s0 call) (gs_log s0)) m \<Longrightarrow> from_start env s0 call m"
  unfolding from_start_def by (rule act_keepsD) (simp_all add: logged_start)

lemma from_start_validate: "from_start env s0 call m \<Longrightarrow> from_start env s0 call (act_then (validate_arg v) m)"
  by (simp add: from_start_def validate_arg_def act_then_def act_bind_apply logged_start)

lemma from_start_reply: "from_start env s0 call m \<Longrightarrow> from_start env s0 call (reply f m)"
  by (auto simp: from_start_def reply_def act_bind_apply split: prod.split sum.split)

lemma from_start_open:
  assumes "at \<in> call_places call"
    and "\<And>rp. opened env s0 call rp \<Longrightarrow> act_keeps (logged (locked env s0 call) (gs_log s0)) (f rp)"
  shows "from_start env s0 call (act_bind (repo_open env at) f)"
proof (cases "pins_read env at s0")
  case (Pair r s1)
  have l: "logged (locked env s0 call) (gs_log s0) s1"
    using act_keepsD [OF lockdown.keeps_pins_read [OF assms(1), of env s0 "gs_log s0"] logged_start] Pair
    by simp
  show ?thesis
  proof (cases r)
    case (Inl e)
    with Pair l show ?thesis by (simp add: from_start_def repo_open_def act_bind_apply)
  next
    case (Inr p)
    then have "opened env s0 call \<lparr>rp_at = at, rp_pins = p\<rparr>"
      using Pair assms(1) by (simp add: opened_def)
    from act_keepsD [OF assms(2) [OF this] l] Pair Inr show ?thesis
      by (simp add: from_start_def repo_open_def act_bind_apply)
  qed
qed

lemma keeps_reply: "act_keeps P m \<Longrightarrow> act_keeps P (reply f m)"
  unfolding reply_def by (intro inv_intros)

lemmas from_start = from_start_reply from_start_validate from_start_open from_start_keeps

text \<open>
  C4. The lockdown of every call: whatever the guest asks, whatever the repository and git
  answer, each process the call spawns enters one of the call's own places, has the operator's
  repository selection unset and the prompt, editor, lazy-fetch and locale variables fixed,
  and runs either one of six read-only command lines, or a command under \<open>--work-tree=.\<close> and
  the pins read from that place's own configuration at the start of the call, or a creation
  under the forced pins; no protocol is allowed but in a transport whose pack command is on
  the command line.
\<close>

theorem every_process_locked_down:
  "\<exists>spawned. gs_log (snd (vcs_run env call s)) = gs_log s @ spawned \<and> list_all (locked env s call) spawned"
proof -
  have "from_start env s call (vcs_run env call)"
  proof (cases call)
    case (Descends at a d)
    then show ?thesis
      by (auto simp: op_descends_def intro!: from_start(1,3) lockdown.keeps_helpers)
  next
    case (Fetch at remote)
    then show ?thesis
      by (auto simp: op_fetch_def check_transport_config_def split: prod.split
          intro!: from_start(1-3) lockdown.keeps_helpers)
  next
    case (Push at remote label)
    then show ?thesis
      by (auto simp: op_push_def check_transport_config_def split: prod.split
          intro!: from_start(1-3) lockdown.keeps_helpers)
  next
    case (Resolve at rev)
    then show ?thesis
      by (auto simp: op_resolve_def intro!: from_start(4) keeps_reply lockdown.keeps_helpers)
  next
    case (Head at)
    then show ?thesis
      by (auto simp: op_head_def intro!: from_start(4) keeps_reply lockdown.keeps_helpers)
  next
    case (Commit at m)
    then show ?thesis
      by (auto simp: op_commit_def intro!: from_start(1,3) lockdown.keeps_helpers)
  next
    case (Merge at rev m policy)
    then show ?thesis
      by (auto simp: op_merge_def intro!: from_start(1-3) lockdown.keeps_helpers)
  next
    case (Log at rev base)
    then show ?thesis
      by (auto simp: op_log_def intro!: from_start(1,3) lockdown.keeps_helpers)
  next
    case (Init at)
    then show ?thesis
      by (auto simp: op_init_def intro!: from_start(4) keeps_reply lockdown.keeps_helpers)
  next
    case (Add repo1 at rev)
    then show ?thesis
      by (auto simp: op_add_def intro!: from_start(1-3) lockdown.keeps_helpers)
  next
    case (Remove at)
    then show ?thesis
      by (auto simp: op_remove_def remove_worktree_def intro!: from_start(1,3) lockdown.keeps_helpers)
  next
    case (Pending at)
    then show ?thesis
      by (auto simp: op_pending_def intro!: from_start(1,3) lockdown.keeps_helpers)
  next
    case (Clone_Repo url at depth)
    then show ?thesis
      by (auto simp: op_clone_def split: prod.split intro!: from_start(1,2,4) keeps_reply lockdown.keeps_helpers)
  next
    case (Label at name rev)
    then show ?thesis
      by (auto simp: op_label_def intro!: from_start(1-3) lockdown.keeps_helpers)
  next
    case (Labelled at name)
    then show ?thesis
      by (auto simp: op_labelled_def intro!: from_start(1,2,4) keeps_reply lockdown.keeps_helpers)
  next
    case (Fetched at remote name)
    then show ?thesis
      by (auto simp: op_fetched_def intro!: from_start(1,2,4) keeps_reply lockdown.keeps_helpers)
  qed
  then show ?thesis by (simp add: from_start_def logged_def)
qed

end
