(* ===== verification/Git_Vcs_Props.thy ===== *)
theory Git_Vcs_Props
  imports Git_Vcs
begin

text \<open>
  What the operations of the git client answer: a merge that is sealed or unwound, guest
  strings that never reach git as options, transports refused over a repository's own
  settings, and the reading of the status and the log.
\<close>

section \<open>Merges\<close>

lemma resolve_result: "repo_resolve env rp rules s = (Inr (Unresolved ps), s') \<Longrightarrow> ps \<noteq> []"
  by (auto simp: repo_resolve_def act_bind_Inr split: if_splits)

lemma commit_merge_result:
  assumes "commit_merge env rp policy message s = (Inr m, s')"
  shows "mg_commit m = None \<longleftrightarrow> mg_conflicts m \<noteq> []"
proof -
  obtain res s1 where r: "repo_resolve env rp policy s = (Inr res, s1)"
    using assms by (auto simp: commit_merge_def act_bind_Inr)
  show ?thesis
  proof (cases res)
    case Complete
    with assms r show ?thesis by (auto simp: commit_merge_def act_bind_Inr)
  next
    case (Unresolved ps)
    with assms r resolve_result [of env rp policy s ps] show ?thesis
      by (auto simp: commit_merge_def act_bind_Inr)
  qed
qed

lemma repo_exec_log:
  "gs_log (snd (repo_exec env rp args extra s)) =
   gs_log s @ [git_invocation env (Some (rp_at rp)) (repo_args rp args) extra s]"
  by (simp add: repo_exec_def client_git_log)

lemma repo_abort_log:
  "gs_log (snd (repo_abort env rp s)) =
   gs_log s @ [git_invocation env (Some (rp_at rp)) (repo_args rp [''merge'', ''--abort'']) [] s]"
  "fst (repo_abort env rp s) = Inr ()"
  by (simp_all add: repo_abort_def act_bind_apply repo_exec_log)


section \<open>Guest strings\<close>

definition arg_ok :: "string \<Rightarrow> bool" where
  "arg_ok v \<longleftrightarrow> v \<noteq> [] \<and> \<not> starts_with v ''-''"

text \<open>The guest's strings that a call checks before anything else, in the order it does.\<close>

fun checked_args :: "vcs_call \<Rightarrow> string list" where
  "checked_args (Resolve at revision) = [revision]"
| "checked_args (Merge at revision message policy) = [revision]"
| "checked_args (Add repo1 at revision) = [revision]"
| "checked_args (Clone_Repo url at depth) = [url]"
| "checked_args (Fetch at remote) = [remote]"
| "checked_args (Label at name revision) = [name, revision]"
| "checked_args (Labelled at name) = [name]"
| "checked_args (Fetched at remote name) = [remote, name]"
| "checked_args (Push at remote label) = [remote, label]"
| "checked_args _ = []"

lemma validate_apply: "validate_arg v s = (if arg_ok v then Inr () else Inl (Not_Found v), s)"
  by (simp add: validate_arg_def arg_ok_def)

lemma validate_then:
  "act_then (validate_arg v) m s = (if arg_ok v then m s else (Inl (Not_Found v), s))"
  by (simp add: act_then_def act_bind_apply validate_apply)

lemma reply_fail: "m s = (Inl e, s') \<Longrightarrow> reply f m s = (Inl e, s')"
  by (simp add: reply_def act_bind_apply)

text \<open>
  A guest string git would read as an option, or the empty one it reads as a default, is
  refused as not found by name before any process is spawned and with nothing changed, in
  every operation that hands such a string to git first.
\<close>

theorem guest_option_refused:
  assumes "v = hd (filter (\<lambda>a. \<not> arg_ok a) (checked_args call))"
    and "\<exists>a\<in>set (checked_args call). \<not> arg_ok a"
  shows "vcs_run env call s = (Inl (Not_Found v), s)"
  using assms
  by (cases call)
    (auto simp: op_resolve_def client_rev_parse_def op_merge_def op_add_def op_clone_def op_fetch_def
      op_label_def op_labelled_def op_fetched_def op_push_def validate_then intro!: reply_fail)

definition quiet_env :: "unit git_env" where
  "quiet_env =
     \<lparr>ge_binary = ''git'', ge_run = (\<lambda>_ _ w. (Inr \<lparr>out_code = Some 0, out_stdout = [], out_stderr = []\<rparr>, w)),
      ge_absolute = Some, ge_exists = (\<lambda>_ _ _. False), ge_create_dir = (\<lambda>_ _ w. (True, w)),
      ge_write = (\<lambda>_ _ _ w. (True, w)), ge_temp = (\<lambda>_ w. (Inl ''none'', w))\<rparr>"

definition quiet_st :: "unit git_st" where
  "quiet_st = \<lparr>gs_world = (), gs_worktrees = [], gs_log = []\<rparr>"

theorem guest_option_refused_witness:
  "vcs_run quiet_env (Push \<lparr>pl_path = ''/r'', pl_dir = 3\<rparr> ''origin'' ''--force'') quiet_st =
     (Inl (Not_Found ''--force''), quiet_st)"
proof (rule guest_option_refused)
  let ?call = "Push \<lparr>pl_path = ''/r'', pl_dir = 3\<rparr> ''origin'' ''--force''"
  show "''--force'' = hd (filter (\<lambda>a. \<not> arg_ok a) (checked_args ?call))"
    by (simp add: arg_ok_def starts_with_def)
  show "\<exists>a\<in>set (checked_args ?call). \<not> arg_ok a" by (simp add: arg_ok_def starts_with_def)
qed

section \<open>Transports\<close>

lemma pins_read_log:
  "gs_log (snd (pins_read env at s)) =
   gs_log s @ [git_invocation env (Some at) [''config'', ''--show-scope'', ''--list'', ''-z''] [] s]"
proof -
  let ?c = "client_git env (Some at) [''config'', ''--show-scope'', ''--list'', ''-z''] []"
  have "snd (pins_read env at s) = snd (?c s)"
    unfolding pins_read_def act_bind_apply by (auto split: prod.split sum.split)
  then show ?thesis by (simp add: client_git_log)
qed

text \<open>
  A transport over a repository's own settings is refused: where the configuration read
  at the start sets a URL rewrite, an HTTP setting or a proxy in a repository scope, a fetch
  or a push ends in the error naming the first such key, and the one process it ran is the
  listing: no address is expanded and nothing is sent.
\<close>

theorem blocked_transport_refused:
  assumes "pins_read env at s = (Inr p, s1)" and "pn_blocked p = Some key"
    and "call = Fetch at remote \<and> arg_ok remote \<or> call = Push at remote label \<and> arg_ok remote \<and> arg_ok label"
  shows "vcs_run env call s =
      (Inl (Other_Error (display_path at @ '': the repository sets '' @ key @
         '', and how a transport runs is the host'' @ [CHR 0x27] @ ''s to set'')), s1) \<and>
    gs_log s1 = gs_log s @ [git_invocation env (Some at) [''config'', ''--show-scope'', ''--list'', ''-z''] [] s]"
proof
  have "repo_open env at s = (Inr \<lparr>rp_at = at, rp_pins = p\<rparr>, s1)"
    using assms(1) by (simp add: repo_open_def act_bind_apply)
  with assms(2,3) show "vcs_run env call s =
      (Inl (Other_Error (display_path at @ '': the repository sets '' @ key @
         '', and how a transport runs is the host'' @ [CHR 0x27] @ ''s to set'')), s1)"
    by (auto simp: op_fetch_def op_push_def validate_then act_bind_apply act_then_def
        check_transport_config_def validate_apply intro!: reply_fail)
  show "gs_log s1 = gs_log s @ [git_invocation env (Some at) [''config'', ''--show-scope'', ''--list'', ''-z''] [] s]"
    using pins_read_log [of env at s] assms(1) by simp
qed

definition proxied_env :: "unit git_env" where
  "proxied_env = quiet_env\<lparr>ge_run := (\<lambda>_ _ w.
     (Inr \<lparr>out_code = Some 0, out_stdout = ''local'' @ [CHR 0x00] @ ''http.proxy'' @ [CHR 0x0A] @ ''x'' @ [CHR 0x00],
           out_stderr = []\<rparr>, w))\<rparr>"

theorem blocked_transport_refused_witness:
  "fst (vcs_run proxied_env (Fetch \<lparr>pl_path = ''/r'', pl_dir = 3\<rparr> ''origin'') quiet_st) =
     Inl (Other_Error (''/r: the repository sets http.proxy, and how a transport runs is the host'' @
       [CHR 0x27] @ ''s to set''))"
proof -
  let ?at = "\<lparr>pl_path = ''/r'', pl_dir = 3\<rparr>"
  have blocked: "(case fst (pins_read proxied_env ?at quiet_st) of Inr p \<Rightarrow> pn_blocked p | Inl _ \<Rightarrow> None) =
      Some ''http.proxy''" by code_simp
  then obtain p s1 where p: "pins_read proxied_env ?at quiet_st = (Inr p, s1)" "pn_blocked p = Some ''http.proxy''"
    by (cases "pins_read proxied_env ?at quiet_st") (auto split: sum.splits)
  have "arg_ok ''origin''" by (simp add: arg_ok_def starts_with_def)
  then have "Fetch ?at ''origin'' = Fetch ?at ''origin'' \<and> arg_ok ''origin'' \<or>
      Fetch ?at ''origin'' = Push ?at ''origin'' ''origin'' \<and> arg_ok ''origin'' \<and> arg_ok ''origin''" by simp
  from blocked_transport_refused [OF p this]
  show ?thesis by (simp add: display_path_def utf8_lossy_valid utf8_valid_ascii ascii_def)
qed

section \<open>The status\<close>

text \<open>An entry of \<open>status --porcelain -z\<close>: the two columns and the path.\<close>

type_synonym status_entry = "char \<times> char \<times> string"

definition render_entry :: "status_entry \<Rightarrow> string" where
  "render_entry e = (case e of (index, tree, path) \<Rightarrow> [index, tree, CHR '' ''] @ path)"

definition entry_ok :: "status_entry \<Rightarrow> bool" where
  "entry_ok e \<longleftrightarrow> (case e of (index, tree, path) \<Rightarrow>
     path \<noteq> [] \<and> index \<noteq> CHR 0x00 \<and> tree \<noteq> CHR 0x00 \<and> CHR 0x00 \<notin> set path)"

definition render_status :: "status_entry list \<Rightarrow> string" where
  "render_status es = concat (map (\<lambda>t. t @ [CHR 0x00]) (map render_entry es))"

text \<open>The kinds listed for a path, and what they are read as together.\<close>

definition kinds_of :: "status_entry list \<Rightarrow> string \<Rightarrow> change_kind list" where
  "kinds_of es path =
     concat (map (\<lambda>(index, tree, p).
        if p = path then (case change_kind_of index tree of Some k \<Rightarrow> [k] | None \<Rightarrow> []) else []) es)"

definition merge_kinds :: "change_kind list \<Rightarrow> change_kind option" where
  "merge_kinds ks =
     (if ks = [] then None else if \<forall>k\<in>set ks. k = hd ks then Some (hd ks) else Some Modified)"

lemma merge_kinds_snoc:
  "merge_kinds (ks @ [k]) =
     Some (case merge_kinds ks of Some previous \<Rightarrow> if previous \<noteq> k then Modified else k | None \<Rightarrow> k)"
proof (cases ks)
  case (Cons a as)
  then show ?thesis by (cases a; cases k) (auto simp: merge_kinds_def)
qed (simp add: merge_kinds_def)

lemma kinds_of_snoc:
  "kinds_of (es @ [(index, tree, p)]) path =
     kinds_of es path @ (if p = path then (case change_kind_of index tree of Some k \<Rightarrow> [k] | None \<Rightarrow> []) else [])"
  by (simp add: kinds_of_def)

lemma pending_loop_append: "pending_loop (xs @ ys) m = pending_loop ys (pending_loop xs m)"
  by (induction xs m rule: pending_loop.induct) (auto simp: Let_def split: option.splits)

lemma pending_loop_entries:
  assumes "list_all entry_ok es"
  shows "bt_ok (pending_loop (map render_entry es) []) \<and>
    (\<forall>p. bt_get (pending_loop (map render_entry es) []) p = merge_kinds (kinds_of es p))"
  using assms
proof (induction es rule: rev_induct)
  case Nil
  then show ?case by (simp add: kinds_of_def merge_kinds_def)
next
  case (snoc e es)
  obtain i t q where e: "e = (i, t, q)" by (cases e)
  let ?m = "pending_loop (map render_entry es) []"
  have ih: "bt_ok ?m" "\<And>p. bt_get ?m p = merge_kinds (kinds_of es p)" using snoc by simp_all
  have "q \<noteq> []" using snoc.prems by (simp add: e entry_ok_def)
  then have step: "pending_loop (map render_entry (es @ [(i, t, q)])) [] =
      (case change_kind_of i t of
         None \<Rightarrow> ?m
       | Some k \<Rightarrow> bt_insert q (case bt_get ?m q of
             Some previous \<Rightarrow> if previous \<noteq> k then Modified else k | None \<Rightarrow> k) ?m)"
    by (simp add: pending_loop_append render_entry_def Let_def split: option.split)
  show ?case
  proof (cases "change_kind_of i t")
    case None
    then show ?thesis unfolding e step using ih by (simp add: kinds_of_snoc)
  next
    case (Some k)
    then show ?thesis
      unfolding e step using ih
      by (auto simp: kinds_of_snoc merge_kinds_snoc bt_ok_insert bt_get_insert)
  qed
qed

text \<open>
  What is pending: from the status git prints, the answer is each path once, in ascending
  order, with the kind of its entries where they agree and \<open>Modified\<close> where they do not (a
  path deleted from the index and back untracked); an entry added and deleted again is none.
\<close>

theorem pending_exact:
  assumes "list_all entry_ok es"
  shows "sorted_wrt (<) (map ch_path (pending_of (render_status es))) \<and>
    (\<forall>path kind. \<lparr>ch_path = path, ch_kind = kind\<rparr> \<in> set (pending_of (render_status es)) \<longleftrightarrow>
       merge_kinds (kinds_of es path) = Some kind)"
proof -
  have "CHR 0x00 \<notin> set t" if t: "t \<in> set (map render_entry es)" for t
    using t assms by (auto simp: render_entry_def entry_ok_def list_all_iff)
  then have split: "str_split CHR 0x00 (render_status es) = map render_entry es @ [[]]"
    unfolding render_status_def by (rule split_terminated)
  let ?m = "pending_loop (map render_entry es) []"
  have m: "pending_of (render_status es) = map (\<lambda>(path, kind). \<lparr>ch_path = path, ch_kind = kind\<rparr>) ?m"
    by (simp add: pending_of_def split pending_loop_append)
  have ok: "bt_ok ?m" and get: "\<And>p. bt_get ?m p = merge_kinds (kinds_of es p)"
    using pending_loop_entries [OF assms] by simp_all
  have "map ch_path (pending_of (render_status es)) = map fst ?m"
    by (simp add: m comp_def case_prod_beta)
  moreover have "\<lparr>ch_path = path, ch_kind = kind\<rparr> \<in> set (pending_of (render_status es)) \<longleftrightarrow>
      (path, kind) \<in> set ?m" for path kind
    by (force simp: m)
  ultimately show ?thesis
    using ok get bt.entries_iff [OF ok] by (simp add: bt_ok_def)
qed

theorem pending_exact_witness:
  "map ch_kind (pending_of (render_status [(CHR ''D'', CHR '' '', ''b''), (CHR ''?'', CHR ''?'', ''b''), (CHR ''A'', CHR ''D'', ''a'')])) = [Modified] \<and>
   \<lparr>ch_path = ''b'', ch_kind = Modified\<rparr> \<in> set (pending_of (render_status [(CHR ''D'', CHR '' '', ''b''), (CHR ''?'', CHR ''?'', ''b''), (CHR ''A'', CHR ''D'', ''a'')]))"
proof -
  let ?es = "[(CHR ''D'', CHR '' '', ''b''), (CHR ''?'', CHR ''?'', ''b''), (CHR ''A'', CHR ''D'', ''a'')]"
  have "list_all entry_ok ?es" by (simp add: entry_ok_def)
  note t = pending_exact [OF this, THEN conjunct2, rule_format, of "''b''" Modified]
  have "merge_kinds (kinds_of ?es ''b'') = Some Modified" by code_simp
  moreover have "map ch_kind (pending_of (render_status ?es)) = [Modified]" by code_simp
  ultimately show ?thesis using t by blast
qed

end
