(* ===== verification/Cursor_Failure.thy ===== *)
theory Cursor_Failure
  imports Rust_Num
begin

text \<open>
  How a completion of the Cursor backend fails (\<open>src/crates/cursor/src/failure.rs\<close> and the
  errors of \<open>protocol.rs\<close>): the typed failures, the outcome each is filed under, and which
  of them lose the worker.
\<close>

section \<open>The errors of a call\<close>

datatype rpc_error =
    Rpc_Connect string "nat option" string string
  | Rpc_Transport string string string

text \<open>Connect's error object; a missing code is \<open>unknown\<close>.\<close>

record connect_status =
  cs_code :: string
  cs_message :: string

definition connect_status_default :: connect_status where
  "connect_status_default = \<lparr>cs_code = ''unknown'', cs_message = []\<rparr>"

text \<open>What reads one from a body is a parameter: \<open>serde_json\<close>.\<close>

definition rpc_answered :: "string \<Rightarrow> nat option \<Rightarrow> connect_status \<Rightarrow> rpc_error" where
  "rpc_answered rpc status answer = Rpc_Connect rpc status (cs_code answer) (cs_message answer)"

definition rpc_unary :: "(string \<Rightarrow> connect_status option) \<Rightarrow> string \<Rightarrow> nat \<Rightarrow> string \<Rightarrow> rpc_error" where
  "rpc_unary parse rpc status body =
     (let answer = (case parse body of None \<Rightarrow> connect_status_default | Some a \<Rightarrow> a);
          answer = (if cs_message answer = [] then answer\<lparr>cs_message := str_trim (utf8_lossy body)\<rparr> else answer)
      in rpc_answered rpc (Some status) answer)"

text \<open>An end frame: unparsable is a clean end, as is one without an error.\<close>

definition rpc_end_stream :: "(string \<Rightarrow> connect_status option option) \<Rightarrow> string \<Rightarrow> string \<Rightarrow> rpc_error option" where
  "rpc_end_stream parse rpc payload =
     (case parse payload of
        Some (Some e) \<Rightarrow> Some (rpc_answered rpc None e)
      | _ \<Rightarrow> None)"

definition rpc_truncated :: "string \<Rightarrow> nat \<Rightarrow> rpc_error" where
  "rpc_truncated rpc buffered =
     Rpc_Transport rpc ''reading the stream'' (''stream ended mid-frame ('' @ dec_nat buffered @ '' bytes buffered)'')"

definition is_agent_gone :: "rpc_error \<Rightarrow> bool" where
  "is_agent_gone e =
     (case e of
        Rpc_Connect _ _ code message \<Rightarrow>
          (let message = map to_ascii_lower message in
           code = ''not_found'' \<or> str_contains message ''agent'' \<and> str_contains message ''not found'')
      | Rpc_Transport _ _ _ \<Rightarrow> False)"

section \<open>Failures\<close>

datatype run_status = Unspecified | Creating | Running | Finished | Run_Error | Cancelled | Expired | Unknown

definition status_by_number :: "run_status list" where
  "status_by_number = [Unspecified, Creating, Running, Finished, Run_Error, Cancelled, Expired]"

fun status_name :: "run_status \<Rightarrow> string" where
  "status_name Unspecified = ''RUN_LIFECYCLE_STATUS_UNSPECIFIED''"
| "status_name Creating = ''RUN_LIFECYCLE_STATUS_CREATING''"
| "status_name Running = ''RUN_LIFECYCLE_STATUS_RUNNING''"
| "status_name Finished = ''RUN_LIFECYCLE_STATUS_FINISHED''"
| "status_name Run_Error = ''RUN_LIFECYCLE_STATUS_ERROR''"
| "status_name Cancelled = ''RUN_LIFECYCLE_STATUS_CANCELLED''"
| "status_name Expired = ''RUN_LIFECYCLE_STATUS_EXPIRED''"
| "status_name Unknown = []"

fun status_text :: "run_status \<Rightarrow> string" where
  "status_text Unspecified = ''unspecified''"
| "status_text Creating = ''creating''"
| "status_text Running = ''running''"
| "status_text Finished = ''finished''"
| "status_text Run_Error = ''error''"
| "status_text Cancelled = ''cancelled''"
| "status_text Expired = ''expired''"
| "status_text Unknown = ''unknown''"

text \<open>A status on the wire: its name, or its number; anything else is unknown.\<close>

definition run_status_of :: "json \<Rightarrow> run_status" where
  "run_status_of v =
     (case v of
        JStr name \<Rightarrow> (case List.find (\<lambda>s. status_name s = name) status_by_number of Some s \<Rightarrow> s | None \<Rightarrow> Unknown)
      | JNum (Pos_Int n) \<Rightarrow> if n < length status_by_number then status_by_number ! n else Unknown
      | _ \<Rightarrow> Unknown)"

record exit =
  ex_status :: "string option"
  ex_pid :: nat

definition exit_text :: "exit \<Rightarrow> string" where
  "exit_text e = (case ex_status e of Some s \<Rightarrow> s | None \<Rightarrow> ''status unknown'')"

datatype cursor_failure =
    Fail_Run run_status "string option"
  | Fail_Timeout nat
  | Fail_Inactive string nat nat nat
  | Fail_Aborted string
  | Fail_Worker_Exited exit
  | Fail_Rpc rpc_error

text \<open>
  The errors of the crate: a failure, the guest's budget, its invalid request, or any other.
  The budget a timeout is surfaced as keeps the failure beneath.
\<close>

datatype cursor_error =
    Cu_Failure cursor_failure
  | Cu_Timeout_Budget string cursor_failure
  | Cu_Budget_Exhausted string
  | Cu_Invalid_Request string
  | Cu_Denied string
  | Cu_Other string

fun cursor_failure_text :: "cursor_failure \<Rightarrow> string" where
  "cursor_failure_text (Fail_Run status detail) =
     ''cursor run '' @ status_text status @ '': '' @ (case detail of None \<Rightarrow> ''<no detail>'' | Some d \<Rightarrow> d)"
| "cursor_failure_text (Fail_Timeout cap) =
     ''cursor run timed out after '' @ dec_nat cap @ ''s (absolute cap exceeded while still active)''"
| "cursor_failure_text (Fail_Inactive waiting idle inactivity cap) =
     ''cursor run inactive for '' @ dec_nat idle @ ''s waiting on '' @ waiting @
     '' (no stream events; inactivity limit '' @ dec_nat inactivity @ ''s, absolute cap '' @ dec_nat cap @ ''s)''"
| "cursor_failure_text (Fail_Aborted reason) = ''completion aborted: '' @ reason"
| "cursor_failure_text (Fail_Worker_Exited e) = ''cursor-sdk-bridge exited ('' @ exit_text e @ '')''"
| "cursor_failure_text (Fail_Rpc (Rpc_Connect rpc status code message)) =
     ''sdk.v1 RPC '' @ ticks rpc @ '' failed ('' @ (case status of None \<Rightarrow> [] | Some s \<Rightarrow> dec_nat s @ '', '') @ code @ ''): '' @ message"
| "cursor_failure_text (Fail_Rpc (Rpc_Transport rpc doing _)) = ''sdk.v1 RPC '' @ ticks rpc @ '' transport failed '' @ doing"

fun into_error :: "cursor_failure \<Rightarrow> cursor_error" where
  "into_error (Fail_Timeout cap) = Cu_Timeout_Budget (cursor_failure_text (Fail_Timeout cap)) (Fail_Timeout cap)"
| "into_error f = Cu_Failure f"

text \<open>A missing agent is the desired end state of close and delete.\<close>

definition gone_ok :: "cursor_error + unit \<Rightarrow> cursor_error + unit" where
  "gone_ok r =
     (case r of
        Inl (Cu_Failure (Fail_Rpc rpc)) \<Rightarrow> if is_agent_gone rpc then Inr () else r
      | _ \<Rightarrow> r)"

section \<open>Outcomes\<close>

datatype cursor_outcome =
    Cu_Ok | Cu_Corrected | Cu_Timeout | Cu_Inactive | Cu_Abort | Cu_Worker_Exit | Cu_Transport | Cu_Exhausted | Cu_Error

fun outcome_of_failure :: "cursor_failure \<Rightarrow> cursor_outcome" where
  "outcome_of_failure (Fail_Run _ _) = Cu_Error"
| "outcome_of_failure (Fail_Rpc (Rpc_Connect _ _ _ _)) = Cu_Error"
| "outcome_of_failure (Fail_Timeout _) = Cu_Timeout"
| "outcome_of_failure (Fail_Inactive _ _ _ _) = Cu_Inactive"
| "outcome_of_failure (Fail_Aborted _) = Cu_Abort"
| "outcome_of_failure (Fail_Worker_Exited _) = Cu_Worker_Exit"
| "outcome_of_failure (Fail_Rpc (Rpc_Transport _ _ _)) = Cu_Transport"

fun cursor_outcome_of :: "cursor_error \<Rightarrow> cursor_outcome" where
  "cursor_outcome_of (Cu_Failure f) = outcome_of_failure f"
| "cursor_outcome_of (Cu_Timeout_Budget _ f) = outcome_of_failure f"
| "cursor_outcome_of (Cu_Budget_Exhausted _) = Cu_Exhausted"
| "cursor_outcome_of _ = Cu_Error"

definition lost_worker :: "cursor_outcome \<Rightarrow> bool" where
  "lost_worker oc \<longleftrightarrow> oc = Cu_Worker_Exit \<or> oc = Cu_Transport"

definition cursor_answered :: "cursor_outcome \<Rightarrow> bool" where
  "cursor_answered oc \<longleftrightarrow> oc = Cu_Ok \<or> oc = Cu_Corrected"

fun cursor_outcome_str :: "cursor_outcome \<Rightarrow> string" where
  "cursor_outcome_str Cu_Ok = ''ok''"
| "cursor_outcome_str Cu_Corrected = ''corrected''"
| "cursor_outcome_str Cu_Timeout = ''timeout''"
| "cursor_outcome_str Cu_Inactive = ''inactive''"
| "cursor_outcome_str Cu_Abort = ''abort''"
| "cursor_outcome_str Cu_Worker_Exit = ''worker_exit''"
| "cursor_outcome_str Cu_Transport = ''transport''"
| "cursor_outcome_str Cu_Exhausted = ''exhausted''"
| "cursor_outcome_str Cu_Error = ''error''"

lemma cursor_outcome_str_inj: "cursor_outcome_str a = cursor_outcome_str b \<Longrightarrow> a = b"
  by (cases a; cases b) simp_all

lemma run_status_name: "s \<noteq> Unknown \<Longrightarrow> run_status_of (JStr (status_name s)) = s"
  by (cases s) (simp_all add: run_status_of_def status_by_number_def)

text \<open>Surfacing a timeout as the guest's budget keeps it filed as a timeout.\<close>

lemma into_error_outcome: "cursor_outcome_of (into_error f) = outcome_of_failure f"
  by (cases f) simp_all

end
