(* ===== verification/Cursor_Frames.thy ===== *)
theory Cursor_Frames
  imports Cursor_Failure
begin

text \<open>
  The Connect envelope of the \<open>sdk.v1\<close> protocol (\<open>src/crates/cursor/src/protocol.rs\<close>): framing
  a message, taking frames off a body that arrives in pieces, and the typed stream of a run. The
  pieces of a body are a list; reading one message's JSON is a parameter. What the frames are
  does not depend on where the body was cut.
\<close>

section \<open>Frames\<close>

record frame =
  fr_flags :: byte
  fr_payload :: bytes

definition COMPRESSED :: byte where "COMPRESSED = 1"
definition END_STREAM :: byte where "END_STREAM = 2"

definition is_end_stream :: "frame \<Rightarrow> bool" where
  "is_end_stream f \<longleftrightarrow> and (fr_flags f) END_STREAM \<noteq> 0"

text \<open>A message framed: a zero flag, its length, and its bytes.\<close>

definition envelope :: "bytes \<Rightarrow> cursor_error + bytes" where
  "envelope payload =
     (if length payload < 2 ^ 32 then Inr (0 # to_be 4 (length payload) @ payload)
      else Inl (Cu_Other (''a '' @ dec_nat (length payload) @ ''-byte message exceeds the Connect frame limit'')))"

definition decode_frame :: "bytes \<Rightarrow> cursor_error + (frame \<times> bytes) option" where
  "decode_frame buffer =
     (if length buffer < 5 then Inr None
      else if and (buffer ! 0) COMPRESSED \<noteq> 0 then Inl (Cu_Other ''cursor-sdk-bridge sent a compressed frame without negotiation'')
      else let n = from_be (take 4 (drop 1 buffer)) in
        if length buffer < 5 + n then Inr None
        else Inr (Some (\<lparr>fr_flags = buffer ! 0, fr_payload = take n (drop 5 buffer)\<rparr>, drop (5 + n) buffer)))"

section \<open>A body in pieces\<close>

datatype body_event = Body_Data bytes | Body_Trailers | Body_Error string

fun frame_next :: "string \<Rightarrow> body_event list \<Rightarrow> bytes \<Rightarrow> (cursor_error + frame option) \<times> body_event list \<times> bytes" where
  "frame_next rpc body buffer =
     (case decode_frame buffer of
        Inl e \<Rightarrow> (Inl e, body, buffer)
      | Inr (Some (f, rest)) \<Rightarrow> (Inr (Some f), body, rest)
      | Inr None \<Rightarrow>
          (case body of
             [] \<Rightarrow> (if buffer \<noteq> [] then Inl (Cu_Failure (Fail_Rpc (rpc_truncated rpc (length buffer)))) else Inr None, [], buffer)
           | Body_Error e # body \<Rightarrow> (Inl (Cu_Failure (Fail_Rpc (Rpc_Transport rpc ''reading the stream'' e))), body, buffer)
           | Body_Trailers # body \<Rightarrow> frame_next rpc body buffer
           | Body_Data d # body \<Rightarrow> frame_next rpc body (buffer @ d)))"

declare frame_next.simps [simp del]

fun body_bytes :: "body_event list \<Rightarrow> nat" where
  "body_bytes [] = 0"
| "body_bytes (Body_Data d # body) = length d + body_bytes body"
| "body_bytes (_ # body) = body_bytes body"

lemma decode_frame_less: "decode_frame buffer = Inr (Some (f, rest)) \<Longrightarrow> length rest + 5 \<le> length buffer"
  by (auto simp: decode_frame_def Let_def split: if_split_asm)

lemma frame_next_step:
  "frame_next rpc [] buffer =
     (case decode_frame buffer of
        Inl e \<Rightarrow> (Inl e, [], buffer)
      | Inr (Some (f, rest)) \<Rightarrow> (Inr (Some f), [], rest)
      | Inr None \<Rightarrow> (if buffer \<noteq> [] then Inl (Cu_Failure (Fail_Rpc (rpc_truncated rpc (length buffer)))) else Inr None, [], buffer))"
  "frame_next rpc (ev # body) buffer =
     (case decode_frame buffer of
        Inl e \<Rightarrow> (Inl e, ev # body, buffer)
      | Inr (Some (f, rest)) \<Rightarrow> (Inr (Some f), ev # body, rest)
      | Inr None \<Rightarrow>
          (case ev of
             Body_Error e \<Rightarrow> (Inl (Cu_Failure (Fail_Rpc (Rpc_Transport rpc ''reading the stream'' e))), body, buffer)
           | Body_Trailers \<Rightarrow> frame_next rpc body buffer
           | Body_Data d \<Rightarrow> frame_next rpc body (buffer @ d)))"
  by (simp_all add: frame_next.simps [of rpc "[]" buffer] frame_next.simps [of rpc "ev # body" buffer] cong: sum.case_cong option.case_cong body_event.case_cong)

text \<open>What a body holds: its bytes up to its end or its error.\<close>

fun body_flat :: "body_event list \<Rightarrow> bytes \<times> string option" where
  "body_flat [] = ([], None)"
| "body_flat (Body_Data d # body) = (d @ fst (body_flat body), snd (body_flat body))"
| "body_flat (Body_Trailers # body) = body_flat body"
| "body_flat (Body_Error e # body) = ([], Some e)"

lemma decode_frame_more:
  "decode_frame buffer = Inr (Some (f, rest)) \<Longrightarrow> decode_frame (buffer @ extra) = Inr (Some (f, rest @ extra))"
  "decode_frame buffer = Inl e \<Longrightarrow> decode_frame (buffer @ extra) = Inl e"
  by (auto simp: decode_frame_def Let_def nth_append split: if_split_asm)

text \<open>
  Taking one frame off a body in pieces is taking it off what the body holds: the frame, and what
  is left of the body afterwards; at its end, a clean one, a truncated one or the body's error.
\<close>

definition frame_spec :: "string \<Rightarrow> bytes \<Rightarrow> string option \<Rightarrow> cursor_error + (frame \<times> bytes) option" where
  "frame_spec rpc data ending =
     (case decode_frame data of
        Inl e \<Rightarrow> Inl e
      | Inr (Some y) \<Rightarrow> Inr (Some y)
      | Inr None \<Rightarrow>
          (case ending of
             Some e \<Rightarrow> Inl (Cu_Failure (Fail_Rpc (Rpc_Transport rpc ''reading the stream'' e)))
           | None \<Rightarrow> if data = [] then Inr None else Inl (Cu_Failure (Fail_Rpc (rpc_truncated rpc (length data))))))"

definition frame_agrees :: "(cursor_error + frame option) \<times> body_event list \<times> bytes \<Rightarrow> string option \<Rightarrow>
    cursor_error + (frame \<times> bytes) option \<Rightarrow> bool" where
  "frame_agrees r ending spec \<longleftrightarrow>
     (case r of (v, body, buffer) \<Rightarrow>
       (case spec of
          Inl e \<Rightarrow> v = Inl e
        | Inr None \<Rightarrow> v = Inr None
        | Inr (Some (f, rest)) \<Rightarrow> v = Inr (Some f) \<and> buffer @ fst (body_flat body) = rest \<and> snd (body_flat body) = ending))"

lemma frame_next_spec:
  "frame_agrees (frame_next rpc body buffer) (snd (body_flat body)) (frame_spec rpc (buffer @ fst (body_flat body)) (snd (body_flat body)))"
proof (induction body arbitrary: buffer)
  case Nil
  show ?case by (auto simp: frame_next_step frame_spec_def frame_agrees_def split: sum.split option.split)
next
  case (Cons ev body)
  let ?flat = "body_flat (ev # body)"
  show ?case
  proof (cases "decode_frame buffer")
    case (Inl e)
    with decode_frame_more(2) [OF Inl, of "fst ?flat"] show ?thesis
      by (simp add: frame_next_step frame_spec_def frame_agrees_def)
  next
    case (Inr x)
    show ?thesis
    proof (cases x)
      case (Some y)
      obtain f rest where y: "y = (f, rest)" by (cases y)
      with Inr Some have d: "decode_frame buffer = Inr (Some (f, rest))" by simp
      with decode_frame_more(1) [OF d, of "fst ?flat"] show ?thesis
        by (simp add: frame_next_step frame_spec_def frame_agrees_def)
    next
      case None
      with Inr Cons.IH [of buffer] Cons.IH [of "buffer @ d" for d] show ?thesis
        by (cases ev) (simp_all add: frame_next_step frame_spec_def frame_agrees_def)
    qed
  qed
qed

lemma frame_spec_less: "frame_spec rpc data ending = Inr (Some (f, rest)) \<Longrightarrow> length rest < length data"
  using decode_frame_less [of data f rest]
  by (fastforce simp: frame_spec_def split: sum.split_asm option.split_asm if_split_asm)

lemma length_body_flat: "snd (body_flat body) = e \<Longrightarrow> length (fst (body_flat body)) \<le> body_bytes body"
  by (induction body rule: body_flat.induct) auto

lemma frame_next_less:
  "frame_next rpc body buffer = (Inr (Some f), body', buffer') \<Longrightarrow>
     body_bytes body' + length buffer' < body_bytes body + length buffer"
proof (induction body arbitrary: buffer)
  case Nil
  then show ?case using decode_frame_less [of buffer]
    by (auto simp: frame_next_step split: sum.split_asm option.split_asm if_split_asm)
next
  case (Cons ev body)
  show ?case
  proof (cases "decode_frame buffer")
    case (Inl e)
    with Cons.prems show ?thesis by (simp add: frame_next_step)
  next
    case (Inr x)
    show ?thesis
    proof (cases x)
      case (Some y)
      with Inr Cons.prems decode_frame_less [of buffer] show ?thesis by (cases y) (auto simp: frame_next_step)
    next
      case None
      with Inr Cons show ?thesis by (cases ev) (fastforce simp: frame_next_step)+
    qed
  qed
qed

section \<open>The messages of a run\<close>

text \<open>
  One frame of a \<open>Send\<close> stream, decoded: an event, the result, the closing mark, an offset.
\<close>

record sdk_message =
  sm_kind :: string
  sm_message :: json

text \<open>Billed token counts, each an \<open>i64\<close>.\<close>

record token_usage =
  tu_input :: int
  tu_output :: int
  tu_reasoning :: "int option"
  tu_cache_read :: "int option"
  tu_cache_write :: "int option"
  tu_total :: "int option"

record run_result =
  rr_result :: string
  rr_usage :: "token_usage option"

record run_stream_result =
  rs_run_id :: string
  rs_status :: run_status
  rs_error_code :: "string option"
  rs_result :: "run_result option"

record run_message =
  rm_sdk_message :: "sdk_message option"
  rm_result :: "run_stream_result option"
  rm_done :: bool
  rm_offset :: bool

definition is_keepalive :: "run_message \<Rightarrow> bool" where
  "is_keepalive m \<longleftrightarrow> rm_sdk_message m = None \<and> rm_result m = None \<and> \<not> rm_done m \<and> \<not> rm_offset m"

text \<open>An \<open>int64\<close> as proto3 JSON spells it, a number or a string.\<close>

definition lenient_i64 :: "json \<Rightarrow> int option" where
  "lenient_i64 v =
     (case v of
        JNum n \<Rightarrow> num_i64 n
      | JStr s \<Rightarrow> parse_int_in i64_min i64_max s
      | _ \<Rightarrow> None)"

definition flexible_i64_opt :: "json \<Rightarrow> int option" where
  "flexible_i64_opt v = (if v = JNull then None else lenient_i64 v)"

definition flexible_i64 :: "json \<Rightarrow> int" where
  "flexible_i64 v = (case flexible_i64_opt v of None \<Rightarrow> 0 | Some n \<Rightarrow> n)"

text \<open>
  The derived deserializers, over the object a frame holds: a missing field is its default, a field
  no one knows is ignored, a value of another type refuses the message.
\<close>

definition de_field :: "json_map \<Rightarrow> string \<Rightarrow> 'a \<Rightarrow> (json \<Rightarrow> 'a option) \<Rightarrow> 'a option" where
  "de_field m k absent de = (case bt_get m k of None \<Rightarrow> Some absent | Some v \<Rightarrow> de v)"

definition de_option :: "(json \<Rightarrow> 'a option) \<Rightarrow> json \<Rightarrow> 'a option option" where
  "de_option de v = (if v = JNull then Some None else map_option Some (de v))"

definition de_present :: "json \<Rightarrow> bool option" where
  "de_present v = Some (v \<noteq> JNull)"

definition token_usage_of :: "json \<Rightarrow> token_usage option" where
  "token_usage_of v =
     Option.bind (as_object v) (\<lambda>m.
     Option.bind (de_field m ''inputTokens'' 0 (\<lambda>v. Some (flexible_i64 v))) (\<lambda>input.
     Option.bind (de_field m ''outputTokens'' 0 (\<lambda>v. Some (flexible_i64 v))) (\<lambda>outp.
     Option.bind (de_field m ''reasoningTokens'' None (\<lambda>v. Some (flexible_i64_opt v))) (\<lambda>reasoning.
     Option.bind (de_field m ''cacheReadTokens'' None (\<lambda>v. Some (flexible_i64_opt v))) (\<lambda>cache_read.
     Option.bind (de_field m ''cacheWriteTokens'' None (\<lambda>v. Some (flexible_i64_opt v))) (\<lambda>cache_write.
     Option.bind (de_field m ''totalTokens'' None (\<lambda>v. Some (flexible_i64_opt v))) (\<lambda>total1.
     Some \<lparr>tu_input = input, tu_output = outp, tu_reasoning = reasoning, tu_cache_read = cache_read,
           tu_cache_write = cache_write, tu_total = total1\<rparr>)))))))"

definition run_result_of :: "json \<Rightarrow> run_result option" where
  "run_result_of v =
     Option.bind (as_object v) (\<lambda>m.
     Option.bind (de_field m ''result'' [] as_str) (\<lambda>res.
     Option.bind (de_field m ''usage'' None (de_option token_usage_of)) (\<lambda>usage.
     Some \<lparr>rr_result = res, rr_usage = usage\<rparr>)))"

definition run_stream_result_of :: "json \<Rightarrow> run_stream_result option" where
  "run_stream_result_of v =
     Option.bind (as_object v) (\<lambda>m.
     Option.bind (de_field m ''runId'' [] as_str) (\<lambda>run.
     Option.bind (de_field m ''status'' Unspecified (\<lambda>v. Some (run_status_of v))) (\<lambda>status.
     Option.bind (de_field m ''errorCode'' None (de_option as_str)) (\<lambda>code.
     Option.bind (de_field m ''result'' None (de_option run_result_of)) (\<lambda>res.
     Some \<lparr>rs_run_id = run, rs_status = status, rs_error_code = code, rs_result = res\<rparr>)))))"

definition sdk_message_of :: "json \<Rightarrow> sdk_message option" where
  "sdk_message_of v =
     Option.bind (as_object v) (\<lambda>m.
     Option.bind (de_field m ''type'' [] as_str) (\<lambda>kind.
     Option.bind (de_field m ''message'' JNull Some) (\<lambda>message.
     Some \<lparr>sm_kind = kind, sm_message = message\<rparr>)))"

definition run_message_of :: "json \<Rightarrow> run_message option" where
  "run_message_of v =
     Option.bind (as_object v) (\<lambda>m.
     Option.bind (de_field m ''sdkMessage'' None (de_option sdk_message_of)) (\<lambda>sdk.
     Option.bind (de_field m ''result'' None (de_option run_stream_result_of)) (\<lambda>res.
     Option.bind (de_field m ''done'' False de_present) (\<lambda>done_mark.
     Option.bind (de_field m ''offset'' False de_present) (\<lambda>offset.
     Some \<lparr>rm_sdk_message = sdk, rm_result = res, rm_done = done_mark, rm_offset = offset\<rparr>)))))"

text \<open>The answer to \<open>GetUsage\<close>: the agent's total, below its breakdown.\<close>

definition agent_usage_of :: "json \<Rightarrow> token_usage option option" where
  "agent_usage_of v =
     Option.bind (as_object v) (\<lambda>m. de_field m ''usage'' None (de_option token_usage_of))"

definition get_usage_of :: "json \<Rightarrow> token_usage option option" where
  "get_usage_of v =
     Option.bind (as_object v) (\<lambda>m.
     Option.bind (de_field m ''usage'' None (de_option agent_usage_of)) (\<lambda>usage.
     Some (Option.bind usage (\<lambda>u. u))))"

section \<open>The stream of a run\<close>

text \<open>
  Reading a body's JSON is \<open>serde_json\<close>: parameters for a message and for Connect's closing one.
\<close>

record stream_env =
  se_message :: "bytes \<Rightarrow> run_message option"
  se_end :: "string \<Rightarrow> connect_status option option"

function (sequential) run_next ::
    "stream_env \<Rightarrow> string \<Rightarrow> body_event list \<Rightarrow> bytes \<Rightarrow> (cursor_error + run_message option) \<times> body_event list \<times> bytes" where
  "run_next env rpc body buffer =
     (case frame_next rpc body buffer of
        (Inl e, body', buffer') \<Rightarrow> (Inl e, body', buffer')
      | (Inr None, body', buffer') \<Rightarrow> (Inr None, body', buffer')
      | (Inr (Some f), body', buffer') \<Rightarrow>
          if is_end_stream f then
            (case rpc_end_stream (se_end env) rpc (bytes_str (fr_payload f)) of
               None \<Rightarrow> Inr None
             | Some e \<Rightarrow> Inl (Cu_Failure (Fail_Rpc e)), body', buffer')
          else
            (case se_message env (fr_payload f) of
               None \<Rightarrow> run_next env rpc body' buffer'
             | Some m \<Rightarrow> if is_keepalive m then run_next env rpc body' buffer' else (Inr (Some m), body', buffer')))"
  by pat_completeness auto
termination
  by (relation "measure (\<lambda>(env, rpc, body, buffer). body_bytes body + length buffer)")
     (auto dest: frame_next_less [OF sym])

declare run_next.simps [simp del]

text \<open>Reading a stream to its end: the messages, and the error it closed with.\<close>

lemma run_next_less:
  "run_next env rpc body buffer = (Inr (Some m), body', buffer') \<Longrightarrow>
     body_bytes body' + length buffer' < body_bytes body + length buffer"
proof (induction env rpc body buffer rule: run_next.induct)
  case (1 env rpc body buffer)
  obtain v b1 bf1 where n: "frame_next rpc body buffer = (v, b1, bf1)" by (metis prod_cases3)
  show ?case
  proof (cases "\<exists>f. v = Inr (Some f) \<and> \<not> is_end_stream f")
    case True
    then obtain f where v: "v = Inr (Some f)" and f: "\<not> is_end_stream f" by blast
    note less = frame_next_less [OF n [unfolded v]]
    show ?thesis
    proof (cases "se_message env (fr_payload f)")
      case None
      with "1.prems" n v f have "run_next env rpc b1 bf1 = (Inr (Some m), body', buffer')"
        by (simp add: run_next.simps [of env rpc body buffer])
      from "1.IH" (1) [OF n [symmetric, unfolded v] refl refl refl f None this] less show ?thesis by simp
    next
      case (Some m1)
      show ?thesis
      proof (cases "is_keepalive m1")
        case True
        with "1.prems" n v f Some have "run_next env rpc b1 bf1 = (Inr (Some m), body', buffer')"
          by (simp add: run_next.simps [of env rpc body buffer])
        from "1.IH" (2) [OF n [symmetric, unfolded v] refl refl refl f Some True this] less show ?thesis by simp
      next
        case False
        with "1.prems" n v f Some less show ?thesis by (simp add: run_next.simps [of env rpc body buffer])
      qed
    qed
  next
    case False
    with "1.prems" n show ?thesis
      by (auto simp: run_next.simps [of env rpc body buffer] split: sum.split_asm option.split_asm if_split_asm)
  qed
qed

function read_run :: "stream_env \<Rightarrow> string \<Rightarrow> body_event list \<Rightarrow> bytes \<Rightarrow> run_message list \<times> cursor_error option" where
  "read_run env rpc body buffer =
     (case run_next env rpc body buffer of
        (Inl e, _, _) \<Rightarrow> ([], Some e)
      | (Inr None, _, _) \<Rightarrow> ([], None)
      | (Inr (Some m), body', buffer') \<Rightarrow>
          (case read_run env rpc body' buffer' of (ms, ending) \<Rightarrow> (m # ms, ending)))"
  by pat_completeness auto
termination
  by (relation "measure (\<lambda>(env, rpc, body, buffer). body_bytes body + length buffer)")
     (auto dest: run_next_less [OF sym])

declare read_run.simps [simp del]

text \<open>The abstract stream: the frames of the whole bytes, one after the other.\<close>

function stream_spec :: "stream_env \<Rightarrow> string \<Rightarrow> bytes \<Rightarrow> string option \<Rightarrow> run_message list \<times> cursor_error option" where
  "stream_spec env rpc data ending =
     (case frame_spec rpc data ending of
        Inl e \<Rightarrow> ([], Some e)
      | Inr None \<Rightarrow> ([], None)
      | Inr (Some (f, rest)) \<Rightarrow>
          if is_end_stream f then
            ([], map_option (\<lambda>e. Cu_Failure (Fail_Rpc e)) (rpc_end_stream (se_end env) rpc (bytes_str (fr_payload f))))
          else
            (case se_message env (fr_payload f) of
               None \<Rightarrow> stream_spec env rpc rest ending
             | Some m \<Rightarrow>
                 if is_keepalive m then stream_spec env rpc rest ending
                 else (case stream_spec env rpc rest ending of (ms, e) \<Rightarrow> (m # ms, e))))"
  by pat_completeness auto
termination
  by (relation "measure (\<lambda>(env, rpc, data, ending). length data)") (auto dest: frame_spec_less)

declare stream_spec.simps [simp del]

text \<open>
  One step of reading a run against the abstract stream: a skipped frame is skipped in both.
\<close>

lemma run_next_frame:
  assumes "frame_next rpc body buffer = (Inr (Some f), body', buffer')" and "\<not> is_end_stream f"
    and "case se_message env (fr_payload f) of None \<Rightarrow> True | Some m \<Rightarrow> is_keepalive m"
  shows "read_run env rpc body buffer = read_run env rpc body' buffer'"
proof -
  from assms have "run_next env rpc body buffer = run_next env rpc body' buffer'"
    by (simp add: run_next.simps [of env rpc body buffer] split: option.split_asm)
  then show ?thesis by (simp add: read_run.simps [of env rpc body buffer] read_run.simps [of env rpc body' buffer'])
qed

lemma run_next_yield:
  assumes "frame_next rpc body buffer = (Inr (Some f), body', buffer')" and "\<not> is_end_stream f"
    and "se_message env (fr_payload f) = Some m" and "\<not> is_keepalive m"
  shows "read_run env rpc body buffer = (case read_run env rpc body' buffer' of (ms, e) \<Rightarrow> (m # ms, e))"
  using assms by (simp add: read_run.simps [of env rpc body buffer] run_next.simps [of env rpc body buffer])

lemma run_next_closed:
  assumes "frame_next rpc body buffer = (Inr (Some f), body', buffer')" and "is_end_stream f"
  shows "read_run env rpc body buffer =
     ([], map_option (\<lambda>e. Cu_Failure (Fail_Rpc e)) (rpc_end_stream (se_end env) rpc (bytes_str (fr_payload f))))"
  using assms by (simp add: read_run.simps [of env rpc body buffer] run_next.simps [of env rpc body buffer] split: option.split)

lemma run_next_over:
  assumes "frame_next rpc body buffer = (v, body', buffer')"
  shows "v = Inl e \<Longrightarrow> read_run env rpc body buffer = ([], Some e)"
    and "v = Inr None \<Longrightarrow> read_run env rpc body buffer = ([], None)"
  using assms by (simp_all add: read_run.simps [of env rpc body buffer] run_next.simps [of env rpc body buffer])

lemma read_run_stream:
  "read_run env rpc body buffer = stream_spec env rpc (buffer @ fst (body_flat body)) (snd (body_flat body))"
proof (induction "length buffer + body_bytes body" arbitrary: body buffer rule: less_induct)
  case less
  let ?data = "buffer @ fst (body_flat body)" and ?ending = "snd (body_flat body)"
  obtain v body' buffer' where n: "frame_next rpc body buffer = (v, body', buffer')" by (metis prod_cases3)
  note agree = frame_next_spec [of rpc body buffer, unfolded n frame_agrees_def prod.case]
  show ?case
  proof (cases "frame_spec rpc ?data ?ending")
    case (Inl e)
    with agree run_next_over(1) [OF n] show ?thesis by (simp add: stream_spec.simps [of env rpc ?data])
  next
    case (Inr x)
    show ?thesis
    proof (cases x)
      case None
      with Inr agree run_next_over(2) [OF n] show ?thesis by (simp add: stream_spec.simps [of env rpc ?data])
    next
      case (Some y)
      obtain f rest where y: "y = (f, rest)" by (cases y)
      with Inr Some agree have v: "v = Inr (Some f)" and rest: "buffer' @ fst (body_flat body') = rest"
        and e: "snd (body_flat body') = ?ending" by simp_all
      note n' = n [unfolded v]
      have "length buffer' + body_bytes body' < length buffer + body_bytes body" using frame_next_less [OF n'] by simp
      from less [OF this] rest e have IH: "read_run env rpc body' buffer' = stream_spec env rpc rest ?ending" by simp
      note run_next_frame [OF n', of env] run_next_yield [OF n', of env] run_next_closed [OF n', of env]
      with IH show ?thesis
        by (cases "is_end_stream f"; cases "se_message env (fr_payload f)")
           (simp_all add: stream_spec.simps [of env rpc ?data] Inr Some y)
    qed
  qed
qed

section \<open>Framing and reading back\<close>

lemma decode_envelope:
  assumes "envelope payload = Inr framed"
  shows "decode_frame (framed @ rest) = Inr (Some (\<lparr>fr_flags = 0, fr_payload = payload\<rparr>, rest))"
proof -
  from assms have n: "length payload < 2 ^ 32" and f: "framed = 0 # to_be 4 (length payload) @ payload"
    by (auto simp: envelope_def split: if_split_asm)
  have "from_be (to_be 4 (length payload)) = length payload"
    using n by (simp add: from_be_to_be)
  moreover have len: "length framed = 5 + length payload" using f by simp
  then have "drop (5 + length payload) (framed @ rest) = rest" by simp
  moreover have "(framed @ rest) ! 0 = 0" "take 4 (drop 1 (framed @ rest)) = to_be 4 (length payload)"
    "take (length payload) (drop 5 (framed @ rest)) = payload" using f by simp_all
  ultimately show ?thesis using len by (simp add: decode_frame_def COMPRESSED_def Let_def del: append_assoc drop_append take_append)
qed

lemma stream_spec_framed:
  assumes "list_all2 (\<lambda>p m. se_message env p = Some m \<and> \<not> is_keepalive m) payloads ms"
    and "res_traverse envelope payloads = Inr framed"
  shows "stream_spec env rpc (concat framed) None = (ms, None)"
  using assms
proof (induction payloads ms arbitrary: framed rule: list_all2_induct)
  case Nil
  then show ?case by (simp add: stream_spec.simps [of env rpc "[]"] frame_spec_def decode_frame_def)
next
  case (Cons p payloads m ms)
  from Cons.prems obtain b bs where b: "envelope p = Inr b" and bs: "res_traverse envelope payloads = Inr bs" and f: "framed = b # bs"
    by (auto split: sum.split_asm)
  have "frame_spec rpc (b @ concat bs) None = Inr (Some (\<lparr>fr_flags = 0, fr_payload = p\<rparr>, concat bs))"
    by (simp add: frame_spec_def decode_envelope [OF b])
  with Cons.IH [OF bs] Cons.hyps f show ?case
    by (simp add: stream_spec.simps [of env rpc "b @ concat bs"] is_end_stream_def)
qed

text \<open>
  C28. Messages framed for the wire and cut into whatever pieces the transport chooses, trailers in
  between, are read back as those messages, in order, with a clean end.
\<close>

theorem run_stream_roundtrip:
  assumes "list_all2 (\<lambda>p m. se_message env p = Some m \<and> \<not> is_keepalive m) payloads ms"
    and "res_traverse envelope payloads = Inr framed"
    and "body_flat body = (concat framed, None)"
  shows "read_run env rpc body [] = (ms, None)"
  using stream_spec_framed [OF assms(1,2)] assms(3) by (simp add: read_run_stream)

lemma to_be_4: "to_be 4 k = [word_of_nat (k div 256 div 256 div 256), word_of_nat (k div 256 div 256), word_of_nat (k div 256), word_of_nat k]"
proof -
  have "(4::nat) = Suc (Suc (Suc (Suc 0)))" by simp
  then show ?thesis by (simp only: to_be.simps append_Nil append_Cons)
qed

text \<open>One message in three pieces.\<close>

definition sample_message :: run_message where
  "sample_message = \<lparr>rm_sdk_message = None, rm_result = None, rm_done = True, rm_offset = False\<rparr>"

definition sample_stream_env :: stream_env where
  "sample_stream_env = \<lparr>se_message = (\<lambda>p. if p = [123, 125] then Some sample_message else None), se_end = (\<lambda>_. None)\<rparr>"

theorem run_stream_roundtrip_witness:
  "read_run sample_stream_env ''Send'' [Body_Data [0, 0], Body_Data [0, 0, 2, 123], Body_Trailers, Body_Data [125]] [] = ([sample_message], None)"
proof (rule run_stream_roundtrip)
  show "list_all2 (\<lambda>p m. se_message sample_stream_env p = Some m \<and> \<not> is_keepalive m) [[123, 125]] [sample_message]"
    by (simp add: sample_stream_env_def is_keepalive_def sample_message_def)
  show "res_traverse envelope [[123, 125]] = Inr [[0, 0, 0, 0, 2, 123, 125]]"
    by (simp add: envelope_def to_be_4)
  show "body_flat [Body_Data [0, 0], Body_Data [0, 0, 2, 123], Body_Trailers, Body_Data [125]] = (concat [[0, 0, 0, 0, 2, 123, 125]], None)"
    by simp
qed

text \<open>
  What a run's stream says does not depend on how the transport cut it: reading it is reading
  the frames of the bytes the body holds, up to its end or its error.
\<close>

theorem run_stream_whole:
  "read_run env rpc body buffer = stream_spec env rpc (buffer @ fst (body_flat body)) (snd (body_flat body))"
  by (rule read_run_stream)

section \<open>The counts are integers of their width\<close>

definition is_i64 :: "int \<Rightarrow> bool" where
  "is_i64 n \<longleftrightarrow> i64_min \<le> n \<and> n \<le> i64_max"

definition usage_typed :: "token_usage \<Rightarrow> bool" where
  "usage_typed u \<longleftrightarrow>
     is_i64 (tu_input u) \<and> is_i64 (tu_output u) \<and>
     list_all (\<lambda>c. case c of None \<Rightarrow> True | Some n \<Rightarrow> is_i64 n) [tu_reasoning u, tu_cache_read u, tu_cache_write u, tu_total u]"

definition result_typed :: "run_stream_result \<Rightarrow> bool" where
  "result_typed r \<longleftrightarrow>
     (case rs_result r of None \<Rightarrow> True | Some res \<Rightarrow> (case rr_usage res of None \<Rightarrow> True | Some u \<Rightarrow> usage_typed u))"

lemma lenient_i64_typed: "json_ok v \<Longrightarrow> lenient_i64 v = Some n \<Longrightarrow> is_i64 n"
proof (cases v)
  case (JNum k)
  assume "json_ok v" "lenient_i64 v = Some n"
  with JNum show ?thesis
    by (cases k) (auto simp: lenient_i64_def is_i64_def i64_min_def i64_max_def split: if_split_asm)
qed (auto simp: lenient_i64_def parse_int_in_def is_i64_def split: option.split_asm if_split_asm)

lemma flexible_typed:
  "json_ok v \<Longrightarrow> is_i64 (flexible_i64 v)"
  "json_ok v \<Longrightarrow> flexible_i64_opt v = Some n \<Longrightarrow> is_i64 n"
  using lenient_i64_typed [of v]
  by (auto simp: flexible_i64_def flexible_i64_opt_def is_i64_def i64_min_def i64_max_def split: option.split if_split_asm)

lemma object_typed: "json_ok v \<Longrightarrow> as_object v = Some m \<Longrightarrow> bt_get m k = Some x \<Longrightarrow> json_ok x"
  by (auto simp: as_object_def list_all_iff split: json.split_asm dest!: map_of_SomeD)

lemma de_field_typed:
  assumes "de_field m k absent de = Some a" and "Q absent"
    and "\<And>x. bt_get m k = Some x \<Longrightarrow> de x = Some a \<Longrightarrow> Q a"
  shows "Q a"
  using assms by (auto simp: de_field_def split: option.split_asm)

lemma token_usage_typed:
  assumes v: "json_ok v" and u: "token_usage_of v = Some u"
  shows "usage_typed u"
proof -
  from u obtain m where m: "as_object v = Some m" by (cases "as_object v") (auto simp: token_usage_of_def)
  note x = object_typed [OF v m]
  have i: "is_i64 n" if "de_field m k 0 (\<lambda>v. Some (flexible_i64 v)) = Some n" for k n
    using that
  proof (rule de_field_typed)
    show "is_i64 0" by (simp add: is_i64_def i64_min_def i64_max_def)
  qed (auto intro: x flexible_typed(1))
  have o: "case c of None \<Rightarrow> True | Some n \<Rightarrow> is_i64 n"
    if "de_field m k None (\<lambda>v. Some (flexible_i64_opt v)) = Some c" for k c
    using that by (rule de_field_typed) (auto dest: x flexible_typed(2) split: option.split)
  from u m show ?thesis by (auto simp: token_usage_of_def usage_typed_def bind_eq_Some_conv intro: i dest: o)
qed

lemma de_option_typed:
  assumes "de_field m k None (de_option de) = Some c" and "\<And>x a. bt_get m k = Some x \<Longrightarrow> de x = Some a \<Longrightarrow> Q a"
  shows "case c of None \<Rightarrow> True | Some a \<Rightarrow> Q a"
  using assms by (auto simp: de_field_def de_option_def split: option.split option.split_asm if_split_asm)

lemma run_result_typed:
  assumes v: "json_ok v" and r: "run_result_of v = Some r"
  shows "case rr_usage r of None \<Rightarrow> True | Some u \<Rightarrow> usage_typed u"
proof -
  from r obtain m where m: "as_object v = Some m" by (cases "as_object v") (auto simp: run_result_of_def)
  have "case c of None \<Rightarrow> True | Some u \<Rightarrow> usage_typed u"
    if "de_field m ''usage'' None (de_option token_usage_of) = Some c" for c
    using that by (rule de_option_typed) (rule token_usage_typed [OF object_typed [OF v m]])
  with r m show ?thesis by (auto simp: run_result_of_def bind_eq_Some_conv)
qed

lemma stream_result_typed:
  assumes v: "json_ok v" and r: "run_stream_result_of v = Some r"
  shows "result_typed r"
proof -
  from r obtain m where m: "as_object v = Some m" by (cases "as_object v") (auto simp: run_stream_result_of_def)
  have "case c of None \<Rightarrow> True | Some res \<Rightarrow> (case rr_usage res of None \<Rightarrow> True | Some u \<Rightarrow> usage_typed u)"
    if "de_field m ''result'' None (de_option run_result_of) = Some c" for c
    using that by (rule de_option_typed) (rule run_result_typed [OF object_typed [OF v m]])
  with r m show ?thesis by (auto simp: run_stream_result_of_def result_typed_def bind_eq_Some_conv)
qed


definition sample_result :: json where
  "sample_result = JObj [(''result'', JObj [(''result'', JObj [(''usage'', JObj [(''inputTokens'', JStr ''9223372036854775808''), (''outputTokens'', JStr ''12'')])])])]"


end
