(* ===== verification/Cursor_Stream.thy ===== *)
theory Cursor_Stream
  imports Cursor_Frames
begin

text \<open>
  What a run's stream says (\<open>src/crates/cursor/src/model/stream.rs\<close>): the log that follows the
  events of a run, rebuilds the tool transcript, and names the phase the run is in, which is what
  a silent stream is waiting on.
\<close>

section \<open>Phases and pending calls\<close>

datatype cu_phase = Cu_Opening | Cu_Tool string | Cu_Shell | Cu_Model

text \<open>Whether the inactivity window bounds the phase.\<close>

fun phase_bounded :: "cu_phase \<Rightarrow> bool" where
  "phase_bounded Cu_Opening \<longleftrightarrow> True"
| "phase_bounded (Cu_Tool _) \<longleftrightarrow> True"
| "phase_bounded Cu_Shell \<longleftrightarrow> False"
| "phase_bounded Cu_Model \<longleftrightarrow> False"

fun cu_phase_text :: "cu_phase \<Rightarrow> string" where
  "cu_phase_text Cu_Opening = ''the opening frame''"
| "cu_phase_text (Cu_Tool tool) = ''tool '' @ ticks tool"
| "cu_phase_text Cu_Shell = ''the shell''"
| "cu_phase_text Cu_Model = ''the model''"

record pending_call =
  pc_tool :: string
  pc_args :: json
  pc_shell :: bool

definition SHELL :: string where "SHELL = ''shell''"

text \<open>The first string under any of the keys.\<close>

definition first_match :: "json \<Rightarrow> string list \<Rightarrow> string option" where
  "first_match payload keys = find_map (\<lambda>k. Option.bind (json_get payload k) as_str) keys"

definition call_nested :: "json \<Rightarrow> pending_call option" where
  "call_nested tool_call =
     Option.bind (as_object tool_call)
       (find_map (\<lambda>(key, v).
          map_option (\<lambda>tool.
            \<lparr>pc_tool = tool,
             pc_args = (case json_get v ''args'' of None \<Rightarrow> v | Some a \<Rightarrow> a),
             pc_shell = (tool = SHELL)\<rparr>)
           (strip_suffix ''ToolCall'' key)))"

definition call_flat :: "json \<Rightarrow> pending_call option" where
  "call_flat payload =
     Option.bind (Option.bind (json_get payload ''name'') as_str) (\<lambda>name.
       let arguments = (case json_get payload ''args'' of None \<Rightarrow> JNull | Some a \<Rightarrow> a);
           custom = map_option (\<lambda>tool.
             \<lparr>pc_tool = tool,
              pc_args = (case json_get arguments ''args'' of None \<Rightarrow> JNull | Some a \<Rightarrow> a),
              pc_shell = False\<rparr>) (Option.bind (json_get arguments ''toolName'') as_str)
       in Some (case custom of
                  Some c \<Rightarrow> c
                | None \<Rightarrow> \<lparr>pc_tool = name, pc_args = arguments, pc_shell = (name = SHELL)\<rparr>))"

definition call_phase :: "pending_call \<Rightarrow> cu_phase" where
  "call_phase c = (if pc_shell c then Cu_Shell else Cu_Tool (pc_tool c))"

section \<open>The log\<close>

text \<open>
  The calls pending are a \<open>HashMap\<close>: the model keeps them by key and takes the place its
  iteration starts at as the parameter \<open>pick\<close>, any function of the map.
\<close>

record cu_turn =
  ct_tool :: string
  ct_args :: json
  ct_result :: json

record event_log =
  el_run_id :: "string option"
  el_status_message :: "string option"
  el_frames :: nat
  el_started :: nat
  el_pending :: "(string, pending_call) btree"
  el_last_pending :: "string option"
  el_thinking :: nat
  el_turns :: "cu_turn list"

type_synonym pick = "(string, pending_call) btree \<Rightarrow> nat"

definition log_new :: event_log where
  "log_new = \<lparr>el_run_id = None, el_status_message = None, el_frames = 0, el_started = 0, el_pending = [],
     el_last_pending = None, el_thinking = 0, el_turns = []\<rparr>"

definition hash_first :: "pick \<Rightarrow> (string, pending_call) btree \<Rightarrow> pending_call option" where
  "hash_first pick m = (if m = [] then None else Some (snd (m ! (pick m mod length m))))"

definition log_phase :: "pick \<Rightarrow> event_log \<Rightarrow> cu_phase" where
  "log_phase pick l =
     (if el_frames l = 0 then Cu_Opening
      else case Option.bind (el_last_pending l) (bt_get (el_pending l)) of
             Some c \<Rightarrow> call_phase c
           | None \<Rightarrow> (case hash_first pick (el_pending l) of Some c \<Rightarrow> call_phase c | None \<Rightarrow> Cu_Model))"

text \<open>The model spoke: every call still pending was answered off the stream.\<close>

definition resumed :: "event_log \<Rightarrow> event_log" where
  "resumed l = (if el_pending l = [] then l else l\<lparr>el_pending := [], el_last_pending := None\<rparr>)"

definition thinking_duration :: "json \<Rightarrow> nat option" where
  "thinking_duration payload =
     Option.bind (find_map (\<lambda>k. Option.bind (json_get payload k) lenient_i64) [''thinking_duration_ms'', ''thinkingDurationMs''])
       (\<lambda>d. if 0 \<le> d then Some (nat d) else None)"

text \<open>The result a terminal frame carries: beside the call's arguments, else at the top.\<close>

definition call_result :: "json \<Rightarrow> json option \<Rightarrow> json option" where
  "call_result payload nested =
     (case Option.bind (Option.bind nested as_object) (find_map (\<lambda>(_, v). json_get v ''result'')) of
        Some r \<Rightarrow> Some r
      | None \<Rightarrow> json_get payload ''result'')"

definition unknown_call :: pending_call where
  "unknown_call = \<lparr>pc_tool = ''unknown'', pc_args = JNull, pc_shell = False\<rparr>"

text \<open>
  A tool call's frame: its phase (the CLI stream spells it \<open>subtype\<close>, the SDK's message
  \<open>status\<close>), its id, and the call it describes, in either shape.
\<close>

definition frame_phase :: "json \<Rightarrow> string option" where
  "frame_phase payload = first_match payload [''subtype'', ''status'']"

definition frame_call_id :: "json \<Rightarrow> string option" where
  "frame_call_id payload = first_match payload [''call_id'', ''callId'', ''tool_call_id'', ''toolCallId'']"

definition frame_nested :: "json \<Rightarrow> json option" where
  "frame_nested payload = (case json_get payload ''tool_call'' of Some n \<Rightarrow> Some n | None \<Rightarrow> json_get payload ''toolCall'')"

definition frame_call :: "json \<Rightarrow> pending_call option" where
  "frame_call payload = (case Option.bind (frame_nested payload) call_nested of Some c \<Rightarrow> Some c | None \<Rightarrow> call_flat payload)"

definition phase_starts :: "string option \<Rightarrow> bool" where
  "phase_starts phase \<longleftrightarrow> phase = Some ''started'' \<or> phase = Some ''running''"

definition phase_ends :: "string option \<Rightarrow> bool" where
  "phase_ends phase \<longleftrightarrow> phase = Some ''completed'' \<or> phase = Some ''error''"

definition log_tool_call :: "json \<Rightarrow> event_log \<Rightarrow> event_log" where
  "log_tool_call payload l =
     (let phase = frame_phase payload; call_id = frame_call_id payload
      in if phase_starts phase then
           (case (call_id, frame_call payload) of
              (Some i, Some c) \<Rightarrow>
                l\<lparr>el_started := el_started l + 1, el_pending := bt_insert i c (el_pending l), el_last_pending := Some i\<rparr>
            | _ \<Rightarrow> l)
         else if phase_ends phase then
           (case call_id of
              None \<Rightarrow> l
            | Some i \<Rightarrow>
                (let known = bt_get (el_pending l) i;
                     l = l\<lparr>el_pending := bt_remove i (el_pending l)\<rparr>
                 in case call_result payload (frame_nested payload) of
                      None \<Rightarrow> l
                    | Some r \<Rightarrow>
                        (let c = (case known of
                                    Some c \<Rightarrow> c
                                  | None \<Rightarrow> (case frame_call payload of Some c \<Rightarrow> c | None \<Rightarrow> unknown_call))
                         in l\<lparr>el_turns := el_turns l @ [\<lparr>ct_tool = pc_tool c, ct_args = pc_args c, ct_result = r\<rparr>]\<rparr>)))
         else l)"

definition log_observe :: "sdk_message \<Rightarrow> event_log \<Rightarrow> event_log" where
  "log_observe ev l =
     (let payload = sm_message ev;
          l = (if el_run_id l = None then l\<lparr>el_run_id := first_match payload [''run_id'', ''runId'']\<rparr> else l)
      in if sm_kind ev = ''tool_call'' then log_tool_call payload l
         else if sm_kind ev = ''system'' \<or> sm_kind ev = ''status'' then
           (case Option.bind (json_get payload ''message'') as_str of
              Some m \<Rightarrow> l\<lparr>el_status_message := Some m\<rparr>
            | None \<Rightarrow> l)
         else if sm_kind ev = ''thinking'' then
           (let l = resumed l
            in case thinking_duration payload of
                 Some ms \<Rightarrow> l\<lparr>el_thinking := sat_add DURATION_TOP (el_thinking l) (ms * 1000000)\<rparr>
               | None \<Rightarrow> l)
         else if sm_kind ev = ''assistant'' then resumed l
         else l)"

definition log_message :: "run_message \<Rightarrow> event_log \<Rightarrow> event_log" where
  "log_message m l =
     (let l = l\<lparr>el_frames := el_frames l + 1\<rparr>;
          l = (case rm_sdk_message m of None \<Rightarrow> l | Some ev \<Rightarrow> log_observe ev l)
      in if el_run_id l = None then
           (case rm_result m of
              Some r \<Rightarrow> if rs_run_id r \<noteq> [] then l\<lparr>el_run_id := Some (rs_run_id r)\<rparr> else l
            | None \<Rightarrow> l)
         else l)"

text \<open>Taking the reasoning time booked since the last take.\<close>

definition log_thought :: "event_log \<Rightarrow> nat \<times> event_log" where
  "log_thought l = (el_thinking l, l\<lparr>el_thinking := 0\<rparr>)"

definition log_finish :: "event_log \<Rightarrow> cu_turn list option" where
  "log_finish l = (if el_turns l = [] then None else Some (el_turns l))"

section \<open>What a message does to the pending calls\<close>

definition tool_payload :: "run_message \<Rightarrow> json option" where
  "tool_payload m =
     Option.bind (rm_sdk_message m) (\<lambda>ev. if sm_kind ev = ''tool_call'' then Some (sm_message ev) else None)"

definition call_started :: "run_message \<Rightarrow> (string \<times> pending_call) option" where
  "call_started m =
     Option.bind (tool_payload m) (\<lambda>payload.
       if phase_starts (frame_phase payload)
       then Option.bind (frame_call_id payload) (\<lambda>i. map_option (Pair i) (frame_call payload))
       else None)"

definition call_ended :: "run_message \<Rightarrow> string option" where
  "call_ended m =
     Option.bind (tool_payload m) (\<lambda>payload. if phase_ends (frame_phase payload) then frame_call_id payload else None)"

definition model_spoke :: "run_message \<Rightarrow> bool" where
  "model_spoke m \<longleftrightarrow>
     (case rm_sdk_message m of None \<Rightarrow> False | Some ev \<Rightarrow> sm_kind ev = ''thinking'' \<or> sm_kind ev = ''assistant'')"

lemma phase_starts_ends: "phase_starts p \<Longrightarrow> \<not> phase_ends p"
  by (auto simp: phase_starts_def phase_ends_def)

lemma started_not_ended: "call_started m = Some x \<Longrightarrow> call_ended m = None"
  using phase_starts_ends
  by (auto simp: call_started_def call_ended_def bind_eq_Some_conv split: if_split_asm bind_split)

lemma tool_call_pending:
  "el_pending (log_tool_call payload l) =
     (if phase_starts (frame_phase payload) then
        (case (frame_call_id payload, frame_call payload) of (Some i, Some c) \<Rightarrow> bt_insert i c (el_pending l) | _ \<Rightarrow> el_pending l)
      else if phase_ends (frame_phase payload) then
        (case frame_call_id payload of None \<Rightarrow> el_pending l | Some i \<Rightarrow> bt_remove i (el_pending l))
      else el_pending l)"
  by (simp add: log_tool_call_def Let_def split: option.split)

lemma tool_call_last:
  "el_last_pending (log_tool_call payload l) =
     (if phase_starts (frame_phase payload) then
        (case (frame_call_id payload, frame_call payload) of (Some i, Some c) \<Rightarrow> Some i | _ \<Rightarrow> el_last_pending l)
      else el_last_pending l)"
  by (simp add: log_tool_call_def Let_def split: option.split)

lemma resumed_pending [simp]: "el_pending (resumed l) = []"
  by (simp add: resumed_def)

lemma observe_pending:
  "el_pending (log_observe ev l) =
     (if sm_kind ev = ''tool_call'' then
        (let payload = sm_message ev in
           if phase_starts (frame_phase payload) then
             (case (frame_call_id payload, frame_call payload) of (Some i, Some c) \<Rightarrow> bt_insert i c (el_pending l) | _ \<Rightarrow> el_pending l)
           else if phase_ends (frame_phase payload) then
             (case frame_call_id payload of None \<Rightarrow> el_pending l | Some i \<Rightarrow> bt_remove i (el_pending l))
           else el_pending l)
      else if sm_kind ev = ''thinking'' \<or> sm_kind ev = ''assistant'' then [] else el_pending l)"
  by (simp add: log_observe_def tool_call_pending Let_def split: option.split)

lemma message_run:
  "el_pending (log_message m l) = (case rm_sdk_message m of None \<Rightarrow> el_pending l | Some ev \<Rightarrow> el_pending (log_observe ev (l\<lparr>el_frames := el_frames l + 1\<rparr>)))"
  by (simp add: log_message_def Let_def split: option.split)

lemma message_pending:
  "el_pending (log_message m l) =
     (case call_started m of
        Some (i, c) \<Rightarrow> bt_insert i c (el_pending l)
      | None \<Rightarrow>
          (case call_ended m of
             Some i \<Rightarrow> bt_remove i (el_pending l)
           | None \<Rightarrow> if model_spoke m then [] else el_pending l))"
proof (cases "rm_sdk_message m")
  case None
  then show ?thesis by (simp add: message_run call_started_def call_ended_def tool_payload_def model_spoke_def)
next
  case (Some ev)
  show ?thesis
  proof (cases "sm_kind ev = ''tool_call''")
    case True
    let ?p = "sm_message ev"
    from Some True show ?thesis
      by (cases "phase_starts (frame_phase ?p)"; cases "frame_call_id ?p"; cases "frame_call ?p")
         (simp_all add: message_run observe_pending call_started_def call_ended_def tool_payload_def model_spoke_def
           phase_starts_ends Let_def)
  next
    case False
    then show ?thesis using Some
      by (simp add: message_run observe_pending call_started_def call_ended_def tool_payload_def model_spoke_def)
  qed
qed

text \<open>Whether a message says a started call is over, or starts it anew.\<close>

definition closes :: "string \<Rightarrow> run_message \<Rightarrow> bool" where
  "closes i m \<longleftrightarrow> call_ended m = Some i \<or> model_spoke m \<or> map_option fst (call_started m) = Some i"

definition log_of :: "run_message list \<Rightarrow> event_log" where
  "log_of ms = fold log_message ms log_new"

lemma log_of_snoc [simp]: "log_of [] = log_new" "log_of (ms @ [m]) = log_message m (log_of ms)"
  by (simp_all add: log_of_def)

lemma spoke_not_tool: "model_spoke m \<Longrightarrow> call_started m = None \<and> call_ended m = None"
  by (auto simp: model_spoke_def call_started_def call_ended_def tool_payload_def split: option.split_asm bind_split)

lemma log_pending_ok: "bt_ok (el_pending (log_of ms))"
proof (induction ms rule: rev_induct)
  case Nil
  show ?case by (simp add: log_new_def)
next
  case (snoc m ms)
  then show ?case by (auto simp: message_pending bt_ok_insert bt_ok_remove split: option.split prod.split)
qed

lemma log_pending_snoc:
  "bt_get (el_pending (log_of (ms @ [m]))) i =
     (case call_started m of
        Some (j, c) \<Rightarrow> if j = i then Some c else bt_get (el_pending (log_of ms)) i
      | None \<Rightarrow> if closes i m then None else bt_get (el_pending (log_of ms)) i)"
  using log_pending_ok [of ms] spoke_not_tool [of m]
  by (auto simp: message_pending bt_get_insert bt_get_remove closes_def split: option.split)

text \<open>
  A call is pending in the log of a run exactly when a message started it and no later message
  ended it, started it anew, or was the model speaking: a terminal frame the bridge drops leaves no
  call pending once the model resumes.
\<close>

theorem log_pending_exact:
  "bt_get (el_pending (log_of ms)) i = Some c \<longleftrightarrow>
     (\<exists>a m b. ms = a @ m # b \<and> call_started m = Some (i, c) \<and> \<not> list_ex (closes i) b)"
proof (induction ms rule: rev_induct)
  case Nil
  show ?case by (simp add: log_new_def)
next
  case (snoc m ms)
  have split: "(\<exists>a x b. ms @ [m] = a @ x # b \<and> P x b) \<longleftrightarrow> P m [] \<or> (\<exists>a x b. ms = a @ x # b \<and> P x (b @ [m]))" for P
  proof
    assume "\<exists>a x b. ms @ [m] = a @ x # b \<and> P x b"
    then obtain a x b where "ms @ [m] = a @ x # b" and P: "P x b" by blast
    then show "P m [] \<or> (\<exists>a x b. ms = a @ x # b \<and> P x (b @ [m]))"
      by (cases b rule: rev_cases) auto
  next
    assume "P m [] \<or> (\<exists>a x b. ms = a @ x # b \<and> P x (b @ [m]))"
    then show "\<exists>a x b. ms @ [m] = a @ x # b \<and> P x b"
    proof
      assume "P m []" then show ?thesis by blast
    next
      assume "\<exists>a x b. ms = a @ x # b \<and> P x (b @ [m])"
      then obtain a x b where "ms @ [m] = a @ x # (b @ [m])" and "P x (b @ [m])" by auto
      then show ?thesis by blast
    qed
  qed
  show ?case
  proof (cases "call_started m")
    case None
    with snoc show ?thesis unfolding split log_pending_snoc by (cases "closes i m") simp_all
  next
    case (Some x)
    obtain j d where x: "x = (j, d)" by (cases x)
    have c: "closes i m \<longleftrightarrow> j = i"
      using Some x started_not_ended [of m] spoke_not_tool [of m] by (auto simp: closes_def)
    show ?thesis unfolding split log_pending_snoc
      using snoc Some x c by (cases "j = i") simp_all
  qed
qed

section \<open>The phase of a run\<close>

lemma call_phase_waits [simp]: "call_phase c \<noteq> Cu_Opening" "call_phase c \<noteq> Cu_Model"
  by (simp_all add: call_phase_def)

lemma message_frames: "el_frames (log_message m l) = el_frames l + 1"
proof -
  have "el_frames (log_tool_call p l) = el_frames l" for p l by (simp add: log_tool_call_def Let_def split: option.split)
  then have "el_frames (log_observe ev l) = el_frames l" for ev l
    by (simp add: log_observe_def resumed_def Let_def split: option.split)
  then show ?thesis by (simp add: log_message_def Let_def split: option.split)
qed

lemma log_frames: "el_frames (log_of ms) = length ms"
  by (induction ms rule: rev_induct) (simp_all add: message_frames, simp add: log_new_def)

lemma hash_first_None: "hash_first pick m = None \<longleftrightarrow> m = []"
  by (simp add: hash_first_def)

lemma hash_first_in: "hash_first pick m = Some c \<Longrightarrow> c \<in> snd ` set m"
  by (auto simp: hash_first_def split: if_split_asm)

lemma log_phase_opening: "log_phase pick (log_of ms) = Cu_Opening \<longleftrightarrow> ms = []"
  by (simp add: log_phase_def log_frames split: option.split)

lemma log_phase_model: "ms \<noteq> [] \<Longrightarrow> log_phase pick (log_of ms) = Cu_Model \<longleftrightarrow> el_pending (log_of ms) = []"
  using hash_first_None [of pick "el_pending (log_of ms)"]
  by (auto simp: log_phase_def log_frames bind_eq_Some_conv split: option.split)

text \<open>Otherwise the phase is that of a call pending.\<close>

lemma log_phase_pending:
  assumes f: "el_frames l \<noteq> 0" and p: "log_phase pick l \<noteq> Cu_Model"
  shows "\<exists>c \<in> snd ` set (el_pending l). log_phase pick l = call_phase c"
proof (cases "Option.bind (el_last_pending l) (bt_get (el_pending l))")
  case (Some c)
  then obtain i where "bt_get (el_pending l) i = Some c" by (auto simp: bind_eq_Some_conv)
  then have "c \<in> snd ` set (el_pending l)" by (force dest: map_of_SomeD)
  moreover have "log_phase pick l = call_phase c" using f Some by (simp add: log_phase_def)
  ultimately show ?thesis by blast
next
  case None
  with f p obtain c where "hash_first pick (el_pending l) = Some c" "log_phase pick l = call_phase c"
    by (auto simp: log_phase_def split: option.split_asm)
  then show ?thesis using hash_first_in by blast
qed

end
