(* ===== verification/Cursor_Observe.thy ===== *)
theory Cursor_Observe
  imports Cursor_Stream
begin

text \<open>
  What a completion of the Cursor backend reports (\<open>src/crates/cursor/src/model/observe.rs\<close>):
  the tokens it was billed, how its wait split across the phases, and the one line it ends with.
  Counts saturate at their width; a duration is its nanoseconds.
\<close>

section \<open>The bill\<close>

record cu_bill =
  cb_input :: nat
  cb_cache_read :: nat
  cb_cache_write :: nat
  cb_output :: nat
  cb_reasoning :: nat
  cb_total :: "nat option"

text \<open>A wire count: negatives are 0, and towards the guest's 32 bits it saturates.\<close>

definition billed :: "int \<Rightarrow> nat" where
  "billed n = (if n < 0 then 0 else nat n)"

definition billed_opt :: "int option \<Rightarrow> nat" where
  "billed_opt n = (case n of None \<Rightarrow> billed 0 | Some n \<Rightarrow> billed n)"

definition clamp_u32 :: "int \<Rightarrow> nat" where
  "clamp_u32 n = (if n < 0 then 0 else if n \<le> int U32_TOP then nat n else U32_TOP)"

definition cu_bill_zero :: cu_bill where
  "cu_bill_zero = \<lparr>cb_input = 0, cb_cache_read = 0, cb_cache_write = 0, cb_output = 0, cb_reasoning = 0, cb_total = None\<rparr>"

definition cu_bill_of :: "token_usage \<Rightarrow> cu_bill" where
  "cu_bill_of u =
     \<lparr>cb_input = billed (tu_input u), cb_cache_read = billed_opt (tu_cache_read u),
      cb_cache_write = billed_opt (tu_cache_write u), cb_output = billed (tu_output u),
      cb_reasoning = billed_opt (tu_reasoning u), cb_total = map_option billed (tu_total u)\<rparr>"

definition cu_bill_add :: "cu_bill \<Rightarrow> cu_bill \<Rightarrow> cu_bill" where
  "cu_bill_add a b =
     \<lparr>cb_input = sat_add U64_TOP (cb_input a) (cb_input b),
      cb_cache_read = sat_add U64_TOP (cb_cache_read a) (cb_cache_read b),
      cb_cache_write = sat_add U64_TOP (cb_cache_write a) (cb_cache_write b),
      cb_output = sat_add U64_TOP (cb_output a) (cb_output b),
      cb_reasoning = sat_add U64_TOP (cb_reasoning a) (cb_reasoning b),
      cb_total =
        (case (cb_total a, cb_total b) of
           (None, None) \<Rightarrow> None
         | (Some t, None) \<Rightarrow> Some t
         | (None, Some t) \<Rightarrow> Some t
         | (Some x, Some y) \<Rightarrow> Some (sat_add U64_TOP x y))\<rparr>"

text \<open>\<open>Ord::max\<close> on options: \<open>None\<close> is below every count.\<close>

definition option_max :: "nat option \<Rightarrow> nat option \<Rightarrow> nat option" where
  "option_max a b =
     (case (a, b) of
        (None, _) \<Rightarrow> b
      | (Some x, None) \<Rightarrow> Some x
      | (Some x, Some y) \<Rightarrow> Some (max x y))"

definition cu_bill_raise :: "cu_bill \<Rightarrow> cu_bill \<Rightarrow> cu_bill" where
  "cu_bill_raise a sum1 =
     \<lparr>cb_input = max (cb_input a) (cb_input sum1),
      cb_cache_read = max (cb_cache_read a) (cb_cache_read sum1),
      cb_cache_write = max (cb_cache_write a) (cb_cache_write sum1),
      cb_output = max (cb_output a) (cb_output sum1),
      cb_reasoning = max (cb_reasoning a) (cb_reasoning sum1),
      cb_total = option_max (cb_total a) (cb_total sum1)\<rparr>"

definition cu_bill_le :: "cu_bill \<Rightarrow> cu_bill \<Rightarrow> bool" where
  "cu_bill_le a b \<longleftrightarrow>
     cb_input a \<le> cb_input b \<and> cb_cache_read a \<le> cb_cache_read b \<and> cb_cache_write a \<le> cb_cache_write b \<and>
     cb_output a \<le> cb_output b \<and> cb_reasoning a \<le> cb_reasoning b \<and>
     (case cb_total a of None \<Rightarrow> True | Some t \<Rightarrow> (case cb_total b of None \<Rightarrow> False | Some u \<Rightarrow> t \<le> u))"

definition cu_bill_ok :: "cu_bill \<Rightarrow> bool" where
  "cu_bill_ok b \<longleftrightarrow>
     list_all (\<lambda>n. n \<le> U64_TOP) [cb_input b, cb_cache_read b, cb_cache_write b, cb_output b, cb_reasoning b] \<and>
     (case cb_total b of None \<Rightarrow> True | Some t \<Rightarrow> t \<le> U64_TOP)"

text \<open>The guest's usage: three counts of 32 bits.\<close>

record cu_usage =
  us_input :: nat
  us_output :: nat
  us_reasoning :: "nat option"

definition cu_usage_of :: "token_usage \<Rightarrow> cu_usage" where
  "cu_usage_of u =
     \<lparr>us_input = clamp_u32 (tu_input u), us_output = clamp_u32 (tu_output u), us_reasoning = map_option clamp_u32 (tu_reasoning u)\<rparr>"

lemma clamp_u32_le: "clamp_u32 n \<le> U32_TOP"
  by (simp add: clamp_u32_def nat_le_iff)

lemma cu_bill_of_ok: "usage_typed u \<Longrightarrow> cu_bill_ok (cu_bill_of u)"
proof -
  assume u: "usage_typed u"
  have "billed n \<le> U64_TOP" if "is_i64 n" for n
    using that by (simp add: billed_def is_i64_def i64_max_def U64_TOP_def nat_le_iff)
  with u show ?thesis
    by (auto simp: usage_typed_def cu_bill_ok_def cu_bill_of_def billed_opt_def split: option.split option.split_asm)
       (simp_all add: billed_def)
qed

lemma cu_bill_add_ok: "cu_bill_ok a \<Longrightarrow> cu_bill_ok b \<Longrightarrow> cu_bill_ok (cu_bill_add a b)"
  using sat_add_le [of U64_TOP]
  by (auto simp: cu_bill_ok_def cu_bill_add_def split: option.split option.split_asm)

lemma cu_bill_raise_ok: "cu_bill_ok a \<Longrightarrow> cu_bill_ok b \<Longrightarrow> cu_bill_ok (cu_bill_raise a b)"
  by (auto simp: cu_bill_ok_def cu_bill_raise_def option_max_def split: option.split option.split_asm)

lemma cu_bill_raise_le: "cu_bill_le a (cu_bill_raise a t)" "cu_bill_le t (cu_bill_raise a t)"
  by (auto simp: cu_bill_le_def cu_bill_raise_def option_max_def split: option.split)

text \<open>Raising to a total that covers what is booked already is the total: nothing is counted twice.\<close>

lemma cu_bill_raise_covers: "cu_bill_le a t \<Longrightarrow> cu_bill_raise a t = t"
  by (auto simp: cu_bill_le_def cu_bill_raise_def option_max_def max_def split: option.split option.split_asm)

lemma cu_bill_raise_again: "cu_bill_raise (cu_bill_raise a t) t = cu_bill_raise a t"
  by (simp add: cu_bill_raise_def option_max_def split: option.split)

section \<open>A completion\<close>

text \<open>\<open>cm_lines\<close> holds the outcomes of the \<open>completion\<close> lines emitted.\<close>

record cu_completion =
  cm_started :: nat
  cm_attempts :: nat
  cm_corrected :: bool
  cm_bill :: cu_bill
  cm_opening :: nat
  cm_tool :: nat
  cm_model :: nat
  cm_check :: nat
  cm_thinking :: nat
  cm_emitted :: bool
  cm_lines :: "cursor_outcome list"

definition cu_completion_new :: "nat \<Rightarrow> cu_completion" where
  "cu_completion_new now =
     \<lparr>cm_started = now, cm_attempts = 0, cm_corrected = False, cm_bill = cu_bill_zero, cm_opening = 0, cm_tool = 0,
      cm_model = 0, cm_check = 0, cm_thinking = 0, cm_emitted = False, cm_lines = []\<rparr>"

definition cu_attempt :: "cu_completion \<Rightarrow> cu_completion" where
  "cu_attempt c = c\<lparr>cm_attempts := sat_add U32_TOP (cm_attempts c) 1\<rparr>"

definition cu_rejected :: "cu_completion \<Rightarrow> cu_completion" where
  "cu_rejected c = c\<lparr>cm_corrected := True\<rparr>"

definition cu_record :: "token_usage option \<Rightarrow> cu_completion \<Rightarrow> cu_completion" where
  "cu_record usage c =
     (case usage of None \<Rightarrow> c | Some u \<Rightarrow> c\<lparr>cm_bill := cu_bill_add (cm_bill c) (cu_bill_of u)\<rparr>)"

definition cu_settle :: "token_usage \<Rightarrow> cu_completion \<Rightarrow> cu_completion" where
  "cu_settle sum1 c = c\<lparr>cm_bill := cu_bill_raise (cm_bill c) (cu_bill_of sum1)\<rparr>"

definition cu_spent :: "cu_phase \<Rightarrow> nat \<Rightarrow> cu_completion \<Rightarrow> cu_completion" where
  "cu_spent phase waited c =
     (case phase of
        Cu_Opening \<Rightarrow> c\<lparr>cm_opening := sat_add DURATION_TOP (cm_opening c) waited\<rparr>
      | Cu_Tool _ \<Rightarrow> c\<lparr>cm_tool := sat_add DURATION_TOP (cm_tool c) waited\<rparr>
      | Cu_Shell \<Rightarrow> c\<lparr>cm_tool := sat_add DURATION_TOP (cm_tool c) waited\<rparr>
      | Cu_Model \<Rightarrow> c\<lparr>cm_model := sat_add DURATION_TOP (cm_model c) waited\<rparr>)"

definition cu_checked :: "nat \<Rightarrow> cu_completion \<Rightarrow> cu_completion" where
  "cu_checked waited c = c\<lparr>cm_check := sat_add DURATION_TOP (cm_check c) waited\<rparr>"

definition cu_thought :: "nat \<Rightarrow> cu_completion \<Rightarrow> cu_completion" where
  "cu_thought reported c = c\<lparr>cm_thinking := sat_add DURATION_TOP (cm_thinking c) reported\<rparr>"

definition cu_finish :: "cursor_outcome \<Rightarrow> cu_completion \<Rightarrow> cu_completion" where
  "cu_finish oc c = (if cm_emitted c then c else c\<lparr>cm_emitted := True, cm_lines := cm_lines c @ [oc]\<rparr>)"

text \<open>Dropping a completion that did not finish.\<close>

definition cu_drop :: "cu_completion \<Rightarrow> cu_completion" where
  "cu_drop c = cu_finish Cu_Abort c"

lemmas completion_ops = cu_attempt_def cu_rejected_def cu_record_def cu_settle_def cu_spent_def cu_checked_def cu_thought_def

lemma completion_ops_lines [simp]:
  "cm_lines (cu_attempt c) = cm_lines c" "cm_emitted (cu_attempt c) = cm_emitted c"
  "cm_lines (cu_rejected c) = cm_lines c" "cm_emitted (cu_rejected c) = cm_emitted c"
  "cm_lines (cu_record u c) = cm_lines c" "cm_emitted (cu_record u c) = cm_emitted c"
  "cm_lines (cu_settle t c) = cm_lines c" "cm_emitted (cu_settle t c) = cm_emitted c"
  "cm_lines (cu_spent p w c) = cm_lines c" "cm_emitted (cu_spent p w c) = cm_emitted c"
  "cm_lines (cu_checked w c) = cm_lines c" "cm_emitted (cu_checked w c) = cm_emitted c"
  "cm_lines (cu_thought w c) = cm_lines c" "cm_emitted (cu_thought w c) = cm_emitted c"
  by (simp_all add: completion_ops split: option.split cu_phase.split)

lemma completion_ops_corrected [simp]:
  "cm_corrected (cu_attempt c) = cm_corrected c" "cm_corrected (cu_rejected c)"
  "cm_corrected (cu_record u c) = cm_corrected c" "cm_corrected (cu_settle t c) = cm_corrected c"
  "cm_corrected (cu_spent p w c) = cm_corrected c" "cm_corrected (cu_checked w c) = cm_corrected c"
  "cm_corrected (cu_thought w c) = cm_corrected c" "cm_corrected (cu_finish oc c) = cm_corrected c"
  by (simp_all add: completion_ops cu_finish_def split: option.split cu_phase.split)

text \<open>Every nanosecond of a wait is booked once, on one phase (the durations saturate above 2^64 seconds alone).\<close>

definition cu_booked :: "cu_completion \<Rightarrow> nat" where
  "cu_booked c = cm_opening c + cm_tool c + cm_model c"

lemma cu_spent_booked: "cu_booked c + w \<le> DURATION_TOP \<Longrightarrow> cu_booked (cu_spent p w c) = cu_booked c + w"
  by (simp add: cu_booked_def cu_spent_def sat_add_def split: cu_phase.split)

lemma cu_ops_booked [simp]:
  "cu_booked (cu_attempt c) = cu_booked c" "cu_booked (cu_rejected c) = cu_booked c" "cu_booked (cu_record u c) = cu_booked c"
  "cu_booked (cu_settle t c) = cu_booked c" "cu_booked (cu_checked w c) = cu_booked c" "cu_booked (cu_thought w c) = cu_booked c"
  by (simp_all add: cu_booked_def completion_ops split: option.split)

end
