(* ===== verification/Cursor_Agent.thy ===== *)
theory Cursor_Agent
  imports Cursor_Observe Rust_Effect
begin

text \<open>
  One completion on a leased Cursor agent (\<open>src/crates/cursor/src/model/agent.rs\<close>): create the
  agent, send the prompt and at most one nudge and one correction, follow each run's stream, settle
  an open run, report, delete. What the tasks wait on comes as explicit sequences: the wakes of a
  \<open>select!\<close>, each with its time, up to the absolute cap, which ends the sequence. The worker's
  process, the guest and the clock are the world \<open>'w\<close>, reached through \<open>agent_env\<close>.
\<close>

section \<open>What an agent waits on\<close>

record deadlines =
  dl_inactivity :: nat
  dl_cap :: nat

text \<open>Durations and instants are nanoseconds.\<close>

definition secs :: "nat \<Rightarrow> nat" where "secs d = d div 1000000000"

datatype open_wake = Open_Answered "cursor_error + body_event list" | Open_Idle | Open_Gone

datatype wake = Wake_Next | Wake_Exited exit | Wake_Tick | Wake_Read | Wake_Idle | Wake_Aborted string | Wake_Gone

datatype created = Created string | Create_Failed cursor_error | Create_Silent

datatype cu_format = Fmt_Text | Fmt_Json | Fmt_Schema string string

datatype agent_effect =
    Did_Create | Did_Send string | Did_Check string | Did_Cancel string | Did_Usage | Did_Close | Did_Delete

record 'w agent_env =
  ae_deadlines :: deadlines
  ae_stream :: stream_env
  ae_pick :: pick
  ae_now :: "'w \<Rightarrow> nat"
  ae_live :: "'w \<Rightarrow> bool"
  ae_gone :: "'w \<Rightarrow> bool"
  ae_create :: "'w \<Rightarrow> created \<times> 'w"
  ae_open :: "string \<Rightarrow> 'w \<Rightarrow> (nat \<times> open_wake) list \<times> 'w"
  ae_wakes :: "'w \<Rightarrow> (nat \<times> wake) list \<times> 'w"
  ae_candidate :: "cu_format \<Rightarrow> string \<Rightarrow> string"
  ae_fault :: "string \<Rightarrow> string option"
  ae_check :: "string \<Rightarrow> 'w \<Rightarrow> (cursor_error + (string + unit)) \<times> 'w"
  ae_call :: "agent_effect \<Rightarrow> 'w \<Rightarrow> 'w"
  ae_usage :: "'w \<Rightarrow> token_usage option \<times> 'w"

definition abandoned :: cursor_error where
  "abandoned = Cu_Failure (Fail_Aborted ''the guest dropped the completion'')"

definition timed_out :: "deadlines \<Rightarrow> cursor_error" where
  "timed_out d = into_error (Fail_Timeout (secs (dl_cap d)))"

text \<open>The inactivity window: over the phase the watch last read, once it bounds it and has passed.\<close>

definition idle_fires :: "deadlines \<Rightarrow> nat \<Rightarrow> cu_phase \<Rightarrow> nat \<Rightarrow> bool" where
  "idle_fires d at phase now \<longleftrightarrow> phase_bounded phase \<and> at + dl_inactivity d \<le> now"

definition inactive :: "deadlines \<Rightarrow> nat \<Rightarrow> cu_phase \<Rightarrow> nat \<Rightarrow> cursor_error" where
  "inactive d at phase now =
     into_error (Fail_Inactive (cu_phase_text phase) (secs (now - at)) (secs (dl_inactivity d)) (secs (dl_cap d)))"

section \<open>Opening a send\<close>

fun open_stream :: "deadlines \<Rightarrow> nat \<Rightarrow> (nat \<times> open_wake) list \<Rightarrow> (cursor_error + body_event list) \<times> nat" where
  "open_stream d started [] = (Inl (timed_out d), started + dl_cap d)"
| "open_stream d started ((now, Open_Gone) # ws) = (Inl abandoned, now)"
| "open_stream d started ((now, Open_Answered r) # ws) = (r, now)"
| "open_stream d started ((now, Open_Idle) # ws) =
     (if idle_fires d started Cu_Opening now then (Inl (inactive d started Cu_Opening now), now)
      else open_stream d started ws)"

section \<open>Following a run\<close>

record follow_state =
  fo_body :: "body_event list"
  fo_buffer :: bytes
  fo_log :: event_log
  fo_result :: "run_stream_result option"
  fo_at :: nat
  fo_phase :: cu_phase
  fo_seen_at :: nat
  fo_seen_phase :: cu_phase
  fo_run_id :: "string option"
  fo_completion :: cu_completion

definition follow_start :: "nat \<Rightarrow> body_event list \<Rightarrow> string option \<Rightarrow> cu_completion \<Rightarrow> follow_state" where
  "follow_start started body run_id c =
     \<lparr>fo_body = body, fo_buffer = [], fo_log = log_new, fo_result = None, fo_at = started, fo_phase = Cu_Opening,
      fo_seen_at = started, fo_seen_phase = Cu_Opening, fo_run_id = run_id, fo_completion = c\<rparr>"

text \<open>Booking the wait since the last frame, and rearming the window.\<close>

definition follow_advance :: "nat \<Rightarrow> cu_phase \<Rightarrow> follow_state \<Rightarrow> follow_state" where
  "follow_advance now phase st =
     st\<lparr>fo_completion := cu_spent (fo_phase st) (now - fo_at st) (fo_completion st), fo_at := now, fo_phase := phase\<rparr>"

definition follow_message :: "pick \<Rightarrow> nat \<Rightarrow> run_message \<Rightarrow> follow_state \<Rightarrow> follow_state" where
  "follow_message pick now m st =
     (case log_thought (log_message m (fo_log st)) of
        (thought, l) \<Rightarrow>
          (let st = st\<lparr>fo_log := l, fo_completion := cu_thought thought (fo_completion st)\<rparr>;
               st = follow_advance now (log_phase pick l) st;
               st = (if fo_run_id st = None then st\<lparr>fo_run_id := el_run_id l\<rparr> else st)
           in if rm_result m \<noteq> None then st\<lparr>fo_result := rm_result m\<rparr> else st))"

fun follow_loop :: "stream_env \<Rightarrow> pick \<Rightarrow> deadlines \<Rightarrow> nat \<Rightarrow> (nat \<times> wake) list \<Rightarrow> follow_state \<Rightarrow>
    (cursor_error + unit) \<times> nat \<times> follow_state" where
  "follow_loop env pick d started [] st = (Inl (timed_out d), started + dl_cap d, st)"
| "follow_loop env pick d started ((now, w) # ws) st =
     (case w of
        Wake_Next \<Rightarrow>
          (case run_next env ''SdkAgentService/Send'' (fo_body st) (fo_buffer st) of
             (Inl e, body, buffer) \<Rightarrow> (Inl e, now, st\<lparr>fo_body := body, fo_buffer := buffer\<rparr>)
           | (Inr None, body, buffer) \<Rightarrow> (Inr (), now, st\<lparr>fo_body := body, fo_buffer := buffer\<rparr>)
           | (Inr (Some m), body, buffer) \<Rightarrow>
               (let st = follow_message pick now m (st\<lparr>fo_body := body, fo_buffer := buffer\<rparr>)
                in if rm_done m then (Inr (), now, st) else follow_loop env pick d started ws st))
      | Wake_Exited e \<Rightarrow> (Inl (Cu_Failure (Fail_Worker_Exited e)), now, st)
      | Wake_Tick \<Rightarrow> follow_loop env pick d started ws st
      | Wake_Read \<Rightarrow> follow_loop env pick d started ws (st\<lparr>fo_seen_at := fo_at st, fo_seen_phase := fo_phase st\<rparr>)
      | Wake_Idle \<Rightarrow>
          if idle_fires d (fo_seen_at st) (fo_seen_phase st) now
          then (Inl (inactive d (fo_seen_at st) (fo_seen_phase st) now), now, st)
          else follow_loop env pick d started ws st
      | Wake_Aborted reason \<Rightarrow> (Inl (Cu_Failure (Fail_Aborted reason)), now, st)
      | Wake_Gone \<Rightarrow> if fo_run_id st \<noteq> None then (Inl abandoned, now, st) else follow_loop env pick d started ws st)"

text \<open>The terminal result of a stream that ended.\<close>

record run_response =
  re_result :: string
  re_turns :: "cu_turn list option"
  re_usage :: "token_usage option"

definition run_detail :: "run_stream_result \<Rightarrow> event_log \<Rightarrow> string option" where
  "run_detail r l =
     (case rs_error_code r of
        Some code \<Rightarrow> if code \<noteq> [] then Some code else el_status_message l
      | None \<Rightarrow> el_status_message l)"

definition follow_end :: "run_stream_result option \<Rightarrow> event_log \<Rightarrow> cursor_error + run_response" where
  "follow_end result l =
     (case result of
        None \<Rightarrow> Inl (Cu_Other ''the run stream ended without a result'')
      | Some r \<Rightarrow>
          if rs_status r \<noteq> Finished then Inl (Cu_Failure (Fail_Run (rs_status r) (run_detail r l)))
          else (let res = (case rs_result r of None \<Rightarrow> \<lparr>rr_result = [], rr_usage = None\<rparr> | Some x \<Rightarrow> x)
                in Inr \<lparr>re_result = rr_result res, re_turns = log_finish l, re_usage = rr_usage res\<rparr>))"

section \<open>One send\<close>

text \<open>
  The agent between its calls: the world, what it did in order, its telemetry, its id, and the run
  still open.
\<close>

record 'w agent_state =
  as_world :: 'w
  as_effects :: "agent_effect list"
  as_completion :: cu_completion
  as_run_id :: "string option"

type_synonym ('w, 'e, 'a) agent_act = "('w agent_state, 'e, 'a) act"

definition did :: "agent_effect \<Rightarrow> 'w agent_state \<Rightarrow> 'w agent_state" where
  "did e s = s\<lparr>as_effects := as_effects s @ [e]\<rparr>"

definition book :: "(cu_completion \<Rightarrow> cu_completion) \<Rightarrow> 'w agent_state \<Rightarrow> 'w agent_state" where
  "book f s = s\<lparr>as_completion := f (as_completion s)\<rparr>"

definition agent_follow :: "'w agent_env \<Rightarrow> nat \<Rightarrow> body_event list \<Rightarrow> ('w, cursor_error, run_response) agent_act" where
  "agent_follow env started body = (\<lambda>s.
     case ae_wakes env (as_world s) of
       (ws, w) \<Rightarrow>
         (case follow_loop (ae_stream env) (ae_pick env) (ae_deadlines env) started ws
                 (follow_start started body (as_run_id s) (as_completion s)) of
            (r, now, st) \<Rightarrow>
              (let s = s\<lparr>as_world := w, as_completion := cu_spent (fo_phase st) (now - fo_at st) (fo_completion st),
                         as_run_id := fo_run_id st\<rparr>
               in case r of
                    Inl e \<Rightarrow> (Inl e, s)
                  | Inr _ \<Rightarrow> (follow_end (fo_result st) (fo_log st), s\<lparr>as_run_id := None\<rparr>))))"

definition agent_send :: "'w agent_env \<Rightarrow> string \<Rightarrow> ('w, cursor_error, run_response) agent_act" where
  "agent_send env prompt = (\<lambda>s.
     let s = book cu_attempt s; started = ae_now env (as_world s) in
     if ae_gone env (as_world s) then (Inl abandoned, book (cu_spent Cu_Opening 0) s)
     else
       (let s = did (Did_Send prompt) s in
        case ae_open env prompt (as_world s) of
          (ws, w) \<Rightarrow>
            (let s = s\<lparr>as_world := w\<rparr> in
             case open_stream (ae_deadlines env) started ws of
               (Inl e, now) \<Rightarrow> (Inl e, book (cu_spent Cu_Opening (now - started)) s)
             | (Inr body, now) \<Rightarrow>
                 (case agent_follow env started body s of
                    (Inl e, s) \<Rightarrow> (Inl e, s)
                  | (Inr r, s) \<Rightarrow> (Inr r, book (cu_record (re_usage r)) s)))))"

section \<open>The rounds\<close>

definition MAX_ROUNDS :: nat where "MAX_ROUNDS = 2"

record cu_prompt =
  pr_text :: string
  pr_format :: cu_format
  pr_check :: bool

record cu_answer =
  an_answer :: string
  an_usage :: "cu_usage option"
  an_turns :: "cu_turn list option"

text \<open>No answer: the error, and whether it struck while the completion was opening.\<close>

record unanswered =
  un_error :: cursor_error
  un_opening :: bool

definition answer_of :: "run_response \<Rightarrow> string \<Rightarrow> cu_answer" where
  "answer_of r candidate = \<lparr>an_answer = candidate, an_usage = map_option cu_usage_of (re_usage r), an_turns = re_turns r\<rparr>"

definition cu_nudge :: "string \<Rightarrow> string" where
  "cu_nudge fault =
     ''Your last reply is not one well-formed JSON value ('' @ fault @ ''), so it is not the answer. Reply now with only your final answer as a single JSON value in the shape the prompt asked for, and nothing else.''"

text \<open>A reply that is not JSON where the format asks for it, not yet nudged.\<close>

definition reply_fault :: "'w agent_env \<Rightarrow> cu_format \<Rightarrow> bool \<Rightarrow> string \<Rightarrow> string option" where
  "reply_fault env fmt nudged candidate = (if nudged \<or> fmt = Fmt_Text then None else ae_fault env candidate)"

definition agent_check :: "'w agent_env \<Rightarrow> string \<Rightarrow> ('w, cursor_error, string + unit) agent_act" where
  "agent_check env candidate = (\<lambda>s.
     let t0 = ae_now env (as_world s); s = did (Did_Check candidate) s in
     case ae_check env candidate (as_world s) of
       (r, w) \<Rightarrow> (r, book (cu_checked (ae_now env w - t0)) (s\<lparr>as_world := w\<rparr>)))"

function agent_rounds :: "'w agent_env \<Rightarrow> cu_prompt \<Rightarrow> string \<Rightarrow> nat \<Rightarrow> bool \<Rightarrow> bool \<Rightarrow> ('w, unanswered, cu_answer) agent_act" where
  "agent_rounds env p prompt round nudged opening s =
     (case agent_send env prompt s of
        (Inl e, s) \<Rightarrow> (Inl \<lparr>un_error = e, un_opening = opening\<rparr>, s)
      | (Inr r, s) \<Rightarrow>
          (let candidate = ae_candidate env (pr_format p) (re_result r) in
           if \<not> pr_check p then (Inr (answer_of r candidate), s)
           else
             (case reply_fault env (pr_format p) nudged candidate of
                Some fault \<Rightarrow> agent_rounds env p (cu_nudge fault) round True False s
              | None \<Rightarrow>
                  (case agent_check env candidate s of
                     (Inl e, s) \<Rightarrow> (Inl \<lparr>un_error = e, un_opening = False\<rparr>, s)
                   | (Inr (Inr _), s) \<Rightarrow> (Inr (answer_of r candidate), s)
                   | (Inr (Inl correction), s) \<Rightarrow>
                       if round < MAX_ROUNDS then agent_rounds env p correction (round + 1) nudged False (book cu_rejected s)
                       else (Inl \<lparr>un_error = Cu_Budget_Exhausted correction, un_opening = False\<rparr>, s)))))"
  by pat_completeness auto
termination
  by (relation "measure (\<lambda>(env, p, prompt, round, nudged, opening, s). 2 * (MAX_ROUNDS - round) + (if nudged then 0 else 1))")
     (auto simp: reply_fault_def split: if_split_asm)

declare agent_rounds.simps [simp del]

end
