(* ===== verification/Cursor_Idle.thy ===== *)
theory Cursor_Idle
  imports Cursor_Agent
begin

text \<open>
  What the inactivity window may end (\<open>src/crates/cursor/src/model/agent.rs\<close>,
  \<open>stream.rs\<close>): a run waiting on its opening frame or on a guest's tool, never one whose model
  is composing or whose shell is running. And the waits a run books, each on one phase.
\<close>

section \<open>The log a run keeps\<close>

text \<open>What the phase of a run depends on: taking the reasoning time leaves it alone.\<close>

definition log_sim :: "event_log \<Rightarrow> event_log \<Rightarrow> bool" where
  "log_sim a b \<longleftrightarrow> el_frames a = el_frames b \<and> el_pending a = el_pending b \<and> el_last_pending a = el_last_pending b"

lemma observe_last:
  "el_last_pending (log_observe ev l) =
     (if sm_kind ev = ''tool_call'' then el_last_pending (log_tool_call (sm_message ev) l)
      else if (sm_kind ev = ''thinking'' \<or> sm_kind ev = ''assistant'') \<and> el_pending l \<noteq> [] then None
      else el_last_pending l)"
  by (simp add: log_observe_def resumed_def tool_call_last Let_def split: option.split)

lemma message_last:
  "el_last_pending (log_message m l) =
     (case rm_sdk_message m of None \<Rightarrow> el_last_pending l | Some ev \<Rightarrow> el_last_pending (log_observe ev (l\<lparr>el_frames := el_frames l + 1\<rparr>)))"
  by (simp add: log_message_def Let_def split: option.split)

lemma log_message_sim: "log_sim a b \<Longrightarrow> log_sim (log_message m a) (log_message m b)"
  by (simp add: log_sim_def message_frames message_pending message_last observe_last tool_call_last split: option.split)

lemma log_phase_sim: "log_sim a b \<Longrightarrow> log_phase pick a = log_phase pick b"
  by (simp add: log_sim_def log_phase_def cong: option.case_cong)

lemma log_thought_sim: "log_thought l = (th, l') \<Longrightarrow> log_sim l' l"
  by (auto simp: log_thought_def log_sim_def)

section \<open>The messages a run has read\<close>

lemma read_run_next: "run_next env rpc body buffer = (Inr (Some m), body', buffer') \<Longrightarrow>
    fst (read_run env rpc body buffer) = m # fst (read_run env rpc body' buffer')"
  by (simp add: read_run.simps [of env rpc body buffer] split: prod.split)

text \<open>
  The state of a run that has read the messages \<open>ms\<close> of its stream: its log is theirs, its phase the
  log's, and what the watch last saw the phase after some of them.
\<close>

definition follows ::
    "stream_env \<Rightarrow> pick \<Rightarrow> run_message list \<Rightarrow> follow_state \<Rightarrow> run_message list \<Rightarrow> bool" where
  "follows env pick all st ms \<longleftrightarrow>
     all = ms @ fst (read_run env ''SdkAgentService/Send'' (fo_body st) (fo_buffer st)) \<and>
     log_sim (fo_log st) (log_of ms) \<and> fo_phase st = log_phase pick (log_of ms) \<and>
     (\<exists>k. fo_seen_phase st = log_phase pick (log_of (take k ms)))"

lemma follow_message_fields [simp]:
  "fo_body (follow_message pick now m st) = fo_body st" "fo_buffer (follow_message pick now m st) = fo_buffer st"
  "fo_seen_phase (follow_message pick now m st) = fo_seen_phase st" "fo_seen_at (follow_message pick now m st) = fo_seen_at st"
  "fo_log (follow_message pick now m st) = snd (log_thought (log_message m (fo_log st)))"
  "fo_phase (follow_message pick now m st) = log_phase pick (snd (log_thought (log_message m (fo_log st))))"
  "fo_at (follow_message pick now m st) = now"
  by (simp_all add: follow_message_def follow_advance_def Let_def split: prod.split)

lemma follows_message:
  assumes "follows env pick all st ms" and "run_next env ''SdkAgentService/Send'' (fo_body st) (fo_buffer st) = (Inr (Some m), body, buffer)"
  shows "follows env pick all (follow_message pick now m (st\<lparr>fo_body := body, fo_buffer := buffer\<rparr>)) (ms @ [m])"
proof -
  have sim: "log_sim (snd (log_thought (log_message m (fo_log st)))) (log_of (ms @ [m]))"
    using log_message_sim [of "fo_log st" "log_of ms" m] assms(1) by (simp add: follows_def log_thought_def log_sim_def)
  from assms(1) obtain k where k: "fo_seen_phase st = log_phase pick (log_of (take k ms))" by (auto simp: follows_def)
  have "take (min k (length ms)) (ms @ [m]) = take k ms" by (cases "k \<le> length ms") simp_all
  with k have "\<exists>k. fo_seen_phase st = log_phase pick (log_of (take k (ms @ [m])))" by metis
  with sim log_phase_sim [OF sim, of pick] read_run_next [OF assms(2)] assms(1) show ?thesis
    by (simp add: follows_def)
qed

lemma run_next_error:
  "run_next env rpc body buffer = (Inl e, body', buffer') \<Longrightarrow> e \<noteq> Cu_Failure (Fail_Inactive waiting idle lim cap)"
proof -
  assume "run_next env rpc body buffer = (Inl e, body', buffer')"
  then have "snd (read_run env rpc body buffer) = Some e" by (simp add: read_run.simps [of env rpc body buffer])
  then have s: "snd (stream_spec env rpc (buffer @ fst (body_flat body)) (snd (body_flat body))) = Some e" by (simp add: read_run_stream)
  have d: "decode_frame data = Inl x \<Longrightarrow> x \<noteq> Cu_Failure f" for data x f
    by (auto simp: decode_frame_def Let_def split: if_split_asm)
  have "snd (stream_spec env rpc data ending) = Some x \<Longrightarrow> x \<noteq> Cu_Failure (Fail_Inactive waiting idle lim cap)" for data ending x
  proof (induction env rpc data ending rule: stream_spec.induct)
    case (1 env rpc data ending)
    show ?case
    proof (cases "frame_spec rpc data ending")
      case (Inl y)
      with "1.prems" d [of data] show ?thesis
        by (auto simp: stream_spec.simps [of env rpc data] frame_spec_def split: sum.split_asm option.split_asm if_split_asm)
    next
      case (Inr y)
      show ?thesis
      proof (cases y)
        case None
        with "1.prems" Inr show ?thesis by (simp add: stream_spec.simps [of env rpc data])
      next
        case (Some z)
        obtain f rest where z: "z = (f, rest)" by (cases z)
        show ?thesis
        proof (cases "is_end_stream f")
          case True
          with "1.prems" Inr Some z show ?thesis by (auto simp: stream_spec.simps [of env rpc data])
        next
          case False
          note IH = "1.IH" [OF Inr Some z [symmetric] False]
          show ?thesis
            using "1.prems" Inr Some z False IH
            by (cases "se_message env (fr_payload f)")
               (auto simp: stream_spec.simps [of env rpc data] split: if_split_asm prod.split_asm)
        qed
      qed
    qed
  qed
  with s show ?thesis by blast
qed

lemma follow_inactive:
  assumes "follow_loop env pick d started ws st = (Inl (Cu_Failure (Fail_Inactive waiting idle lim cap)), now, st')"
    and "follows env pick all st ms"
  shows "\<exists>ms' k. follows env pick all st' ms' \<and> waiting = cu_phase_text (log_phase pick (log_of (take k ms'))) \<and>
     phase_bounded (log_phase pick (log_of (take k ms'))) \<and> fo_seen_at st' + dl_inactivity d \<le> now \<and> idle = secs (now - fo_seen_at st')"
  using assms
proof (induction env pick d started ws st arbitrary: ms rule: follow_loop.induct)
  case (1 env pick d started st)
  then show ?case by (simp add: timed_out_def)
next
  case (2 env pick d started now1 w ws st)
  show ?case
  proof (cases w)
    case Wake_Next
    obtain v body buffer where n: "run_next env ''SdkAgentService/Send'' (fo_body st) (fo_buffer st) = (v, body, buffer)"
      by (metis prod_cases3)
    show ?thesis
    proof (cases "\<exists>m. v = Inr (Some m)")
      case True
      then obtain m where v: "v = Inr (Some m)" ..
      note f = follows_message [OF "2.prems"(2) n [unfolded v], of now1]
      show ?thesis
      proof (cases "rm_done m")
        case True
        with "2.prems"(1) Wake_Next n v show ?thesis by (simp add: Let_def)
      next
        case False
        with "2.prems"(1) Wake_Next n v "2.IH" (1) [OF Wake_Next n [symmetric, unfolded v] refl refl refl refl False _ f]
        show ?thesis by (simp add: Let_def)
      qed
    next
      case False
      with "2.prems"(1) Wake_Next n run_next_error show ?thesis
        by (fastforce split: sum.split_asm option.split_asm)
    qed
  next
    case Wake_Read
    have "follows env pick all (st\<lparr>fo_seen_at := fo_at st, fo_seen_phase := fo_phase st\<rparr>) ms"
      using "2.prems"(2) by (auto simp: follows_def intro: exI [of _ "length ms"])
    with "2.prems"(1) "2.IH" (3) [OF Wake_Read] Wake_Read show ?thesis by simp
  next
    case Wake_Idle
    show ?thesis
    proof (cases "idle_fires d (fo_seen_at st) (fo_seen_phase st) now1")
      case True
      from "2.prems"(2) obtain k where k: "fo_seen_phase st = log_phase pick (log_of (take k ms))" by (auto simp: follows_def)
      from "2.prems"(1) Wake_Idle True have "st' = st" "now = now1" "waiting = cu_phase_text (fo_seen_phase st)" "idle = secs (now1 - fo_seen_at st)"
        by (auto simp: inactive_def)
      with True k "2.prems"(2) show ?thesis
        by (intro exI [of _ ms] exI [of _ k]) (simp add: idle_fires_def)
    next
      case False
      with "2.prems" "2.IH" (4) [OF Wake_Idle False] Wake_Idle show ?thesis by simp
    qed
  next
    case Wake_Tick
    with "2.prems" "2.IH" (2) show ?thesis by simp
  next
    case Wake_Gone
    with "2.prems" "2.IH" (5) [OF Wake_Gone] show ?thesis by (auto simp: abandoned_def split: if_split_asm)
  qed (use "2.prems"(1) in simp_all)
qed

section \<open>What the window ends, and what a run books\<close>

lemma follows_start:
  "follows env pick (fst (read_run env ''SdkAgentService/Send'' body [])) (follow_start started body run c) []"
  by (simp add: follows_def follow_start_def log_sim_def log_phase_def log_new_def)

lemma bounded_waits:
  assumes "phase_bounded (log_phase pick (log_of ms))"
  shows "ms = [] \<or> (\<exists>i p. bt_get (el_pending (log_of ms)) i = Some p \<and> \<not> pc_shell p)"
proof (rule disjCI)
  assume n: "\<not> (\<exists>i p. bt_get (el_pending (log_of ms)) i = Some p \<and> \<not> pc_shell p)"
  show "ms = []"
  proof (rule ccontr)
    assume "ms \<noteq> []"
    then have "el_frames (log_of ms) \<noteq> 0" by (simp add: log_frames)
    moreover have "log_phase pick (log_of ms) \<noteq> Cu_Model" using assms by auto
    ultimately obtain c where "c \<in> snd ` set (el_pending (log_of ms))" and p: "log_phase pick (log_of ms) = call_phase c"
      using log_phase_pending by blast
    then obtain i where "(i, c) \<in> set (el_pending (log_of ms))" by auto
    then have "bt_get (el_pending (log_of ms)) i = Some c" using bt_get_in [OF log_pending_ok] by fastforce
    with n have "pc_shell c" by blast
    with assms p show False by (simp add: call_phase_def)
  qed
qed



text \<open>Every instant of a run is booked on one phase: what is booked grows by the time that passed.\<close>

lemma follow_message_booked:
  assumes "fo_at st \<le> now" and "cu_booked (fo_completion st) + (now - fo_at st) \<le> DURATION_TOP"
  shows "cu_booked (fo_completion (follow_message pick now m st)) = cu_booked (fo_completion st) + (now - fo_at st)"
  using assms by (simp add: follow_message_def follow_advance_def Let_def cu_spent_booked split: prod.split)

lemma follow_loop_later:
  "follow_loop env pick d started ws st = (r, now, st') \<Longrightarrow> now \<in> set (map fst ws) \<union> {started + dl_cap d}"
proof (induction env pick d started ws st rule: follow_loop.induct)
  case (2 env pick d started now1 w ws st)
  show ?case
  proof (cases w)
    case Wake_Next
    obtain v body buffer where n: "run_next env ''SdkAgentService/Send'' (fo_body st) (fo_buffer st) = (v, body, buffer)"
      by (metis prod_cases3)
    show ?thesis
    proof (cases "\<exists>m. v = Inr (Some m) \<and> \<not> rm_done m")
      case True
      then obtain m where v: "v = Inr (Some m)" "\<not> rm_done m" by blast
      with "2.prems" Wake_Next n "2.IH" (1) [OF Wake_Next n [symmetric, unfolded v(1)] refl refl refl refl v(2)] show ?thesis
        by (auto simp: Let_def)
    next
      case False
      with "2.prems" Wake_Next n show ?thesis by (auto simp: Let_def split: sum.split_asm option.split_asm)
    qed
  qed (use "2" in \<open>auto split: if_split_asm\<close>)
qed simp

lemma follow_loop_booked:
  assumes "follow_loop env pick d started ws st = (r, now, st')"
    and "sorted (fo_at st # map fst ws @ [started + dl_cap d])"
    and "cu_booked (fo_completion st) + (now - fo_at st) \<le> DURATION_TOP"
  shows "fo_at st \<le> fo_at st' \<and> fo_at st' \<le> now \<and>
     cu_booked (fo_completion st') = cu_booked (fo_completion st) + (fo_at st' - fo_at st)"
  using assms
proof (induction env pick d started ws st rule: follow_loop.induct)
  case (1 env pick d started st)
  then show ?case by auto
next
  case (2 env pick d started now1 w ws st)
  have now1: "fo_at st \<le> now1" and rest: "sorted (now1 # map fst ws @ [started + dl_cap d])"
    and skip: "sorted (fo_at st # map fst ws @ [started + dl_cap d])" using "2.prems"(2) by auto
  show ?case
  proof (cases w)
    case Wake_Next
    obtain v body buffer where n: "run_next env ''SdkAgentService/Send'' (fo_body st) (fo_buffer st) = (v, body, buffer)"
      by (metis prod_cases3)
    show ?thesis
    proof (cases "\<exists>m. v = Inr (Some m)")
      case True
      then obtain m where v: "v = Inr (Some m)" ..
      let ?st = "follow_message pick now1 m (st\<lparr>fo_body := body, fo_buffer := buffer\<rparr>)"
      have later: "now1 \<le> now" if "follow_loop env pick d started ws ?st = (r, now, st')" "\<not> rm_done m"
        using follow_loop_later [OF that(1)] rest by auto
      show ?thesis
      proof (cases "rm_done m")
        case True
        with "2.prems" Wake_Next n v now1 follow_message_booked [of "st\<lparr>fo_body := body, fo_buffer := buffer\<rparr>" now1 pick m]
        show ?thesis by (auto simp: Let_def)
      next
        case False
        with "2.prems"(1) Wake_Next n v have l: "follow_loop env pick d started ws ?st = (r, now, st')" by (simp add: Let_def)
        from later [OF l False] "2.prems"(3) now1 follow_message_booked [of "st\<lparr>fo_body := body, fo_buffer := buffer\<rparr>" now1 pick m]
        have b: "cu_booked (fo_completion ?st) = cu_booked (fo_completion st) + (now1 - fo_at st)" by simp
        from "2.IH" (1) [OF Wake_Next n [symmetric, unfolded v] refl refl refl refl False l] rest b "2.prems"(3) later [OF l False] now1
        show ?thesis by simp
      qed
    next
      case False
      with "2.prems" Wake_Next n now1 show ?thesis by (auto split: sum.split_asm option.split_asm)
    qed
  next
    case Wake_Read
    with "2.prems" "2.IH" (3) [OF Wake_Read] skip show ?thesis by simp
  next
    case Wake_Tick
    with "2.prems" "2.IH" (2) skip show ?thesis by simp
  next
    case Wake_Idle
    with "2.prems" "2.IH" (4) [OF Wake_Idle] skip now1 show ?thesis by (auto split: if_split_asm)
  next
    case Wake_Gone
    with "2.prems" "2.IH" (5) [OF Wake_Gone] skip now1 show ?thesis by (auto split: if_split_asm)
  qed (use "2.prems" now1 in auto)
qed

text \<open>
  The time of a run is booked whole: from its send to its end, every instant is on exactly one
  phase, whatever ended it.
\<close>

theorem run_time_booked:
  assumes "follow_loop env pick d started ws (follow_start started body run c) = (r, now, st)"
    and "sorted (started # map fst ws @ [started + dl_cap d])"
    and "cu_booked c + (now - started) \<le> DURATION_TOP"
  shows "cu_booked (cu_spent (fo_phase st) (now - fo_at st) (fo_completion st)) = cu_booked c + (now - started)"
proof -
  from follow_loop_booked [OF assms(1)] assms(2,3)
  have "started \<le> fo_at st" "fo_at st \<le> now" "cu_booked (fo_completion st) = cu_booked c + (fo_at st - started)"
    by (simp_all add: follow_start_def)
  with assms(3) show ?thesis by (simp add: cu_spent_booked)
qed

theorem run_time_booked_witness:
  "cu_booked (cu_spent Cu_Opening 600 (cu_completion_new 10)) = 600"
proof -
  have l: "follow_loop sample_stream_env (\<lambda>_. 0) \<lparr>dl_inactivity = 120, dl_cap = 600\<rparr> 10 [(50, Wake_Tick)]
       (follow_start 10 [] None (cu_completion_new 10)) =
         (Inl (timed_out \<lparr>dl_inactivity = 120, dl_cap = 600\<rparr>), 610, follow_start 10 [] None (cu_completion_new 10))"
    by simp
  from run_time_booked [OF l] show ?thesis
    by (simp add: follow_start_def cu_completion_new_def cu_booked_def DURATION_TOP_def)
qed

end
