(* ===== verification/Cursor_Complete.thy ===== *)
theory Cursor_Complete
  imports Cursor_Agent
begin

text \<open>
  A completion whole (\<open>src/crates/cursor/src/model/agent.rs\<close>, \<open>model.rs\<close>): opening the
  agent, its rounds, settling the run it left open, its one line, its teardown, and the one restart
  on a fresh worker. How many prompts a completion sends, what it shows the guest, and that a restart
  repeats nothing, are read off the effects.
\<close>

section \<open>The life of an agent\<close>

definition call_effect :: "'w agent_env \<Rightarrow> agent_effect \<Rightarrow> 'w agent_state \<Rightarrow> 'w agent_state" where
  "call_effect env e s = did e (s\<lparr>as_world := ae_call env e (as_world s)\<rparr>)"

text \<open>Settling: a run still open is cancelled and what the agent was billed is booked.\<close>

definition agent_settle :: "'w agent_env \<Rightarrow> 'w agent_state \<Rightarrow> 'w agent_state" where
  "agent_settle env s =
     (case as_run_id s of
        None \<Rightarrow> s
      | Some run \<Rightarrow>
          (let s = s\<lparr>as_run_id := None\<rparr> in
           if ae_live env (as_world s) then
             (let s = call_effect env (Did_Cancel run) s in
              case ae_usage env (as_world s) of
                (usage, w) \<Rightarrow>
                  (let s = did Did_Usage (s\<lparr>as_world := w\<rparr>) in
                   case usage of None \<Rightarrow> s | Some u \<Rightarrow> book (cu_settle u) s))
           else s))"

definition run_outcome :: "unanswered + cu_answer \<Rightarrow> bool \<Rightarrow> cursor_outcome" where
  "run_outcome r corrected =
     (case r of
        Inr _ \<Rightarrow> if corrected then Cu_Corrected else Cu_Ok
      | Inl u \<Rightarrow> cursor_outcome_of (un_error u))"

definition agent_finish :: "unanswered + cu_answer \<Rightarrow> 'w agent_state \<Rightarrow> 'w agent_state" where
  "agent_finish r s = book (cu_finish (run_outcome r (cm_corrected (as_completion s)))) s"

definition agent_delete :: "'w agent_env \<Rightarrow> 'w agent_state \<Rightarrow> 'w agent_state" where
  "agent_delete env s =
     (if ae_live env (as_world s) then
        (let s = (case as_run_id s of None \<Rightarrow> s | Some run \<Rightarrow> call_effect env (Did_Cancel run) s)
         in call_effect env Did_Delete (call_effect env Did_Close s))
      else s)"

text \<open>\<open>CreateAgent\<close>, bounded by the inactivity window.\<close>

definition agent_create :: "'w agent_env \<Rightarrow> ('w, cursor_error, string) agent_act" where
  "agent_create env = (\<lambda>s.
     let t0 = ae_now env (as_world s); d = ae_deadlines env; s = did Did_Create s in
     case ae_create env (as_world s) of
       (c, w) \<Rightarrow>
         (let s = book (cu_spent Cu_Opening (ae_now env w - t0)) (s\<lparr>as_world := w\<rparr>);
              r = (case c of
                     Created i \<Rightarrow> if i = [] then Inl (Cu_Other ''sdk.v1 RPC `CreateAgent` returned an empty agent id'') else Inr i
                   | Create_Failed e \<Rightarrow> Inl e
                   | Create_Silent \<Rightarrow>
                       Inl (Cu_Failure (Fail_Inactive (ticks ''CreateAgent'') (secs (dl_inactivity d)) (secs (dl_inactivity d)) (secs (dl_cap d)))))
          in case r of
               Inl e \<Rightarrow> (Inl e, book (cu_finish (cursor_outcome_of e)) s)
             | Inr i \<Rightarrow> (Inr i, s)))"

text \<open>
  The whole life in order; the teardown's task runs once the answer is given, and its effects come
  last. What remains of the telemetry is dropped with the agent.
\<close>

definition agent_run :: "'w agent_env \<Rightarrow> cu_prompt \<Rightarrow> ('w, unanswered, cu_answer) agent_act" where
  "agent_run env p = (\<lambda>s.
     case agent_create env s of
       (Inl e, s) \<Rightarrow> (Inl \<lparr>un_error = e, un_opening = True\<rparr>, book cu_drop s)
     | (Inr _, s) \<Rightarrow>
         (case agent_rounds env p (pr_text p) 1 False True s of
            (r, s) \<Rightarrow> (r, book cu_drop (agent_delete env (agent_finish r (agent_settle env s))))))"

section \<open>A completion and its restart\<close>

record 'w client_state =
  cl_world :: 'w
  cl_effects :: "agent_effect list"
  cl_lines :: "cursor_outcome list"

definition agent_begin :: "'w agent_env \<Rightarrow> 'w \<Rightarrow> 'w agent_state" where
  "agent_begin env w = \<lparr>as_world = w, as_effects = [], as_completion = cu_completion_new (ae_now env w), as_run_id = None\<rparr>"

text \<open>
  One attempt: staging a session, a turn and a worker (a parameter, in the order of
  \<open>Client::stage\<close>), then the agent. Its effects and its line follow those before it.
\<close>

definition client_attempt ::
    "('w \<Rightarrow> (cursor_error + 'w agent_env \<times> cu_prompt) \<times> 'w) \<Rightarrow> ('w client_state, unanswered, cu_answer) act" where
  "client_attempt stage = (\<lambda>c.
     case stage (cl_world c) of
       (Inl e, w) \<Rightarrow> (Inl \<lparr>un_error = e, un_opening = False\<rparr>, c\<lparr>cl_world := w\<rparr>)
     | (Inr (env, p), w) \<Rightarrow>
         (case agent_run env p (agent_begin env w) of
            (r, s) \<Rightarrow> (r, \<lparr>cl_world = as_world s, cl_effects = cl_effects c @ as_effects s,
                           cl_lines = cl_lines c @ cm_lines (as_completion s)\<rparr>)))"

definition restartable :: "unanswered \<Rightarrow> bool" where
  "restartable u \<longleftrightarrow> un_opening u \<and> lost_worker (cursor_outcome_of (un_error u))"

definition cursor_complete ::
    "('w \<Rightarrow> (cursor_error + 'w agent_env \<times> cu_prompt) \<times> 'w) \<Rightarrow> ('w client_state, cursor_error, cu_answer) act" where
  "cursor_complete stage = (\<lambda>c.
     case client_attempt stage c of
       (Inr a, c) \<Rightarrow> (Inr a, c)
     | (Inl u, c) \<Rightarrow>
         if restartable u then
           (case client_attempt stage c of (Inr a, c) \<Rightarrow> (Inr a, c) | (Inl u, c) \<Rightarrow> (Inl (un_error u), c))
         else (Inl (un_error u), c))"

section \<open>What a send does\<close>

definition sent :: "agent_effect \<Rightarrow> bool" where
  "sent e \<longleftrightarrow> (\<exists>t. e = Did_Send t)"

definition checked :: "agent_effect \<Rightarrow> bool" where
  "checked e \<longleftrightarrow> (\<exists>t. e = Did_Check t)"

lemma did_simps [simp]:
  "as_effects (did e s) = as_effects s @ [e]" "as_world (did e s) = as_world s"
  "as_completion (did e s) = as_completion s" "as_run_id (did e s) = as_run_id s"
  "as_effects (book f s) = as_effects s" "as_world (book f s) = as_world s"
  "as_completion (book f s) = f (as_completion s)" "as_run_id (book f s) = as_run_id s"
  by (simp_all add: did_def book_def)

lemma follow_effects: "agent_follow env started body s = (r, s') \<Longrightarrow> as_effects s' = as_effects s"
  by (auto simp: agent_follow_def Let_def split: prod.split_asm sum.split_asm)

text \<open>A send either finds the guest gone, fails to open, or follows the stream it opened.\<close>

lemma agent_send_cases:
  assumes "agent_send env prompt s = (r, s')"
  obtains (gone) "ae_gone env (as_world s)" "r = Inl abandoned" "s' = book (cu_spent Cu_Opening 0) (book cu_attempt s)"
  | (unopened) ws w e now where "\<not> ae_gone env (as_world s)" "ae_open env prompt (as_world s) = (ws, w)"
      "open_stream (ae_deadlines env) (ae_now env (as_world s)) ws = (Inl e, now)" "r = Inl e"
      "s' = book (cu_spent Cu_Opening (now - ae_now env (as_world s))) ((did (Did_Send prompt) (book cu_attempt s))\<lparr>as_world := w\<rparr>)"
  | (followed) ws w body now r1 s1 where "\<not> ae_gone env (as_world s)" "ae_open env prompt (as_world s) = (ws, w)"
      "open_stream (ae_deadlines env) (ae_now env (as_world s)) ws = (Inr body, now)"
      "agent_follow env (ae_now env (as_world s)) body ((did (Did_Send prompt) (book cu_attempt s))\<lparr>as_world := w\<rparr>) = (r1, s1)"
      "r = r1" "s' = (case r1 of Inl _ \<Rightarrow> s1 | Inr x \<Rightarrow> book (cu_record (re_usage x)) s1)"
proof (cases "ae_gone env (as_world s)")
  case True
  with assms show ?thesis by (intro gone) (simp_all add: agent_send_def Let_def)
next
  case False
  obtain ws w where o1: "ae_open env prompt (as_world s) = (ws, w)" by (cases "ae_open env prompt (as_world s)")
  obtain x now where o2: "open_stream (ae_deadlines env) (ae_now env (as_world s)) ws = (x, now)"
    by (cases "open_stream (ae_deadlines env) (ae_now env (as_world s)) ws")
  show ?thesis
  proof (cases x)
    case (Inl e)
    with assms False o1 o2 show ?thesis by (intro unopened) (auto simp: agent_send_def Let_def)
  next
    case (Inr body)
    obtain r1 s1 where f: "agent_follow env (ae_now env (as_world s)) body ((did (Did_Send prompt) (book cu_attempt s))\<lparr>as_world := w\<rparr>) = (r1, s1)"
      by (cases "agent_follow env (ae_now env (as_world s)) body ((did (Did_Send prompt) (book cu_attempt s))\<lparr>as_world := w\<rparr>)")
    with assms False o1 o2 Inr show ?thesis by (intro followed) (auto simp: agent_send_def Let_def split: sum.splits)
  qed
qed

lemma send_effects:
  "agent_send env prompt s = (r, s') \<Longrightarrow>
     as_effects s' = as_effects s @ (if ae_gone env (as_world s) then [] else [Did_Send prompt])"
  by (erule agent_send_cases) (auto dest: follow_effects split: sum.splits)

lemma send_Inr: "agent_send env prompt s = (Inr r, s') \<Longrightarrow> as_effects s' = as_effects s @ [Did_Send prompt]"
  by (erule agent_send_cases) (auto dest: follow_effects split: sum.splits)

lemma check_effects: "agent_check env c s = (r, s') \<Longrightarrow> as_effects s' = as_effects s @ [Did_Check c]"
  by (auto simp: agent_check_def Let_def split: prod.split_asm)

section \<open>What the rounds do\<close>

lemma agent_rounds_cases:
  assumes "agent_rounds env p prompt round nudged fresh s = (r, s')"
  obtains (failed) e where "agent_send env prompt s = (Inl e, s')" "r = Inl \<lparr>un_error = e, un_opening = fresh\<rparr>"
  | (unasked) x where "agent_send env prompt s = (Inr x, s')" "\<not> pr_check p"
      "r = Inr (answer_of x (ae_candidate env (pr_format p) (re_result x)))"
  | (nudged) x s1 fault where "agent_send env prompt s = (Inr x, s1)" "pr_check p" "\<not> nudged"
      "agent_rounds env p (cu_nudge fault) round True False s1 = (r, s')"
  | (errored) x s1 c e where "agent_send env prompt s = (Inr x, s1)" "agent_check env c s1 = (Inl e, s')"
      "pr_check p" "r = Inl \<lparr>un_error = e, un_opening = False\<rparr>"
  | (accepted) x s1 c where "agent_send env prompt s = (Inr x, s1)" "agent_check env c s1 = (Inr (Inr ()), s')"
      "pr_check p" "r = Inr (answer_of x c)"
  | (corrected) x s1 c correction s2 where "agent_send env prompt s = (Inr x, s1)"
      "agent_check env c s1 = (Inr (Inl correction), s2)" "pr_check p" "round < MAX_ROUNDS"
      "agent_rounds env p correction (round + 1) nudged False (book cu_rejected s2) = (r, s')"
  | (exhausted) x s1 c correction where "agent_send env prompt s = (Inr x, s1)"
      "agent_check env c s1 = (Inr (Inl correction), s')" "pr_check p" "\<not> round < MAX_ROUNDS"
      "r = Inl \<lparr>un_error = Cu_Budget_Exhausted correction, un_opening = False\<rparr>"
proof -
  note eq = assms [unfolded agent_rounds.simps [of env p prompt round nudged fresh s]]
  obtain v s1 where send: "agent_send env prompt s = (v, s1)" by (cases "agent_send env prompt s")
  show ?thesis
  proof (cases v)
    case (Inl e)
    with eq send show ?thesis by (intro failed [of e]) auto
  next
    case (Inr x)
    let ?c = "ae_candidate env (pr_format p) (re_result x)"
    show ?thesis
    proof (cases "pr_check p")
      case False
      with eq send Inr show ?thesis by (intro unasked [of x]) auto
    next
      case True
      show ?thesis
      proof (cases "reply_fault env (pr_format p) nudged ?c")
        case (Some fault)
        then have "\<not> nudged" by (simp add: reply_fault_def split: if_split_asm)
        with eq send Inr True Some show ?thesis by (intro nudged [of x s1 fault]) auto
      next
        case None
        obtain u s2 where chk: "agent_check env ?c s1 = (u, s2)" by (cases "agent_check env ?c s1")
        show ?thesis
        proof (cases u)
          case (Inl e)
          with eq send Inr True None chk show ?thesis by (intro errored [of x s1 ?c e]) auto
        next
          case u: (Inr y)
          show ?thesis
          proof (cases y)
            case (Inl correction)
            show ?thesis
            proof (cases "round < MAX_ROUNDS")
              case True
              with eq send Inr \<open>pr_check p\<close> None chk u Inl show ?thesis by (intro corrected [of x s1 ?c correction s2]) auto
            next
              case False
              with eq send Inr \<open>pr_check p\<close> None chk u Inl show ?thesis by (intro exhausted [of x s1 ?c correction]) auto
            qed
          next
            case y: (Inr z)
            with eq send Inr True None chk u show ?thesis by (intro accepted [of x s1 ?c]) auto
          qed
        qed
      qed
    qed
  qed
qed

text \<open>What the effects of the rounds look like, from a round on.\<close>

definition rounds_did ::
    "'w agent_env \<Rightarrow> cu_prompt \<Rightarrow> nat \<Rightarrow> bool \<Rightarrow> bool \<Rightarrow> unanswered + cu_answer \<Rightarrow> agent_effect list \<Rightarrow> bool" where
  "rounds_did env p round nudged fresh r xs \<longleftrightarrow>
     length (filter sent xs) \<le> (MAX_ROUNDS - round) + (if nudged then 1 else 2) \<and>
     length (filter checked xs) \<le> (MAX_ROUNDS - round) + 1 \<and>
     list_all (\<lambda>e. sent e \<or> checked e) xs \<and>
     (case r of
        Inl u \<Rightarrow> un_opening u \<longrightarrow> fresh \<and> list_all sent xs \<and> length xs \<le> 1
      | Inr a \<Rightarrow> pr_check p \<longrightarrow> xs \<noteq> [] \<and> last xs = Did_Check (an_answer a) \<and> (\<exists>w. fst (ae_check env (an_answer a) w) = Inr (Inr ())))"

lemma kinds [simp]: "sent (Did_Send t)" "\<not> sent (Did_Check c)" "checked (Did_Check c)" "\<not> checked (Did_Send t)"
  by (simp_all add: sent_def checked_def)

lemma check_accepted: "agent_check env c s = (Inr (Inr ()), s') \<Longrightarrow> \<exists>w. fst (ae_check env c w) = Inr (Inr ())"
  by (auto simp: agent_check_def Let_def split: prod.split_asm intro: exI [of _ "as_world s"])

lemma answer_of_answer [simp]: "an_answer (answer_of x c) = c"
  by (simp add: answer_of_def)

lemma rounds_effects:
  assumes "agent_rounds env p prompt round nudged fresh s = (r, s')"
  shows "\<exists>xs. as_effects s' = as_effects s @ xs \<and> rounds_did env p round nudged fresh r xs"
  using assms
proof (induction "2 * (MAX_ROUNDS - round) + (if nudged then 0 else 1 :: nat)" arbitrary: prompt round nudged fresh s rule: less_induct)
  case less
  from less.prems show ?case
  proof (cases rule: agent_rounds_cases)
    case (failed e)
    from send_effects [OF failed(1)] show ?thesis
      by (auto simp: failed(2) rounds_did_def)
  next
    case (unasked x)
    from send_Inr [OF unasked(1)] unasked(2,3) show ?thesis by (auto simp: rounds_did_def)
  next
    case (nudged x s1 fault)
    from less.hyps [OF _ nudged(4)] nudged(3) obtain xs where
      "as_effects s' = as_effects s1 @ xs" "rounds_did env p round True False r xs" by auto
    with send_Inr [OF nudged(1)] nudged(3) show ?thesis
      by (intro exI [of _ "Did_Send prompt # xs"]) (auto simp: rounds_did_def split: sum.splits)
  next
    case (errored x s1 c e)
    from send_Inr [OF errored(1)] check_effects [OF errored(2)] errored(4) show ?thesis
      by (intro exI [of _ "[Did_Send prompt, Did_Check c]"]) (auto simp: rounds_did_def)
  next
    case (accepted x s1 c)
    from send_Inr [OF accepted(1)] check_effects [OF accepted(2)] accepted(4) check_accepted [OF accepted(2)] show ?thesis
      by (intro exI [of _ "[Did_Send prompt, Did_Check c]"]) (auto simp: rounds_did_def)
  next
    case (corrected x s1 c correction s2)
    have "2 * (MAX_ROUNDS - (round + 1)) + (if nudged then 0 else 1 :: nat) < 2 * (MAX_ROUNDS - round) + (if nudged then 0 else 1)"
      using corrected(4) by simp
    from less.hyps [OF this corrected(5)] obtain xs where
      "as_effects s' = as_effects s2 @ xs" "rounds_did env p (round + 1) nudged False r xs" by auto
    with send_Inr [OF corrected(1)] check_effects [OF corrected(2)] corrected(4) show ?thesis
      by (intro exI [of _ "Did_Send prompt # Did_Check c # xs"]) (auto simp: rounds_did_def split: sum.splits)
  next
    case (exhausted x s1 c correction)
    from send_Inr [OF exhausted(1)] check_effects [OF exhausted(2)] exhausted(5) show ?thesis
      by (intro exI [of _ "[Did_Send prompt, Did_Check c]"]) (auto simp: rounds_did_def)
  qed
qed

section \<open>The run of an agent and its line\<close>

text \<open>What an operation leaves alone: the line is emitted at the end alone.\<close>

definition quiet :: "'w agent_state \<Rightarrow> bool" where
  "quiet s \<longleftrightarrow> \<not> cm_emitted (as_completion s) \<and> cm_lines (as_completion s) = []"

lemma follow_message_quiet [simp]:
  "cm_emitted (fo_completion (follow_message pick now m st)) = cm_emitted (fo_completion st)"
  "cm_lines (fo_completion (follow_message pick now m st)) = cm_lines (fo_completion st)"
  "cm_corrected (fo_completion (follow_message pick now m st)) = cm_corrected (fo_completion st)"
  by (simp_all add: follow_message_def follow_advance_def Let_def split: prod.split)

lemma follow_loop_quiet:
  "follow_loop env pick d started ws st = (r, now, st') \<Longrightarrow>
     cm_emitted (fo_completion st') = cm_emitted (fo_completion st) \<and> cm_lines (fo_completion st') = cm_lines (fo_completion st) \<and>
     cm_corrected (fo_completion st') = cm_corrected (fo_completion st)"
proof (induction env pick d started ws st arbitrary: r now st' rule: follow_loop.induct)
  case (2 env pick d started now1 w ws st)
  show ?case
  proof (cases w)
    case Wake_Next
    obtain v body buffer where n: "run_next env ''SdkAgentService/Send'' (fo_body st) (fo_buffer st) = (v, body, buffer)"
      by (metis prod_cases3)
    show ?thesis
    proof (cases "\<exists>m. v = Inr (Some m)")
      case True
      then obtain m where v: "v = Inr (Some m)" ..
      show ?thesis
      proof (cases "rm_done m")
        case True
        with "2.prems" Wake_Next n v show ?thesis by (auto simp: Let_def)
      next
        case False
        with "2.prems" Wake_Next n v "2.IH" (1) [OF Wake_Next n [symmetric, unfolded v] refl refl refl refl False]
        show ?thesis by (simp add: Let_def)
      qed
    next
      case False
      with "2.prems" Wake_Next n show ?thesis by (auto split: sum.split_asm option.split_asm)
    qed
  next
    case Wake_Read
    with "2.prems" "2.IH" (3) [OF Wake_Read] show ?thesis by simp
  qed (use "2" in \<open>auto split: if_split_asm\<close>)
qed simp

lemma agent_follow_corrected: "agent_follow env started body s = (r, s') \<Longrightarrow> cm_corrected (as_completion s') = cm_corrected (as_completion s)"
  by (auto simp: agent_follow_def follow_start_def Let_def split: prod.split_asm sum.split_asm dest!: follow_loop_quiet)

lemma send_corrected: "agent_send env prompt s = (r, s') \<Longrightarrow> cm_corrected (as_completion s') = cm_corrected (as_completion s)"
  by (erule agent_send_cases) (auto dest!: agent_follow_corrected split: sum.splits)

lemma check_corrected: "agent_check env c s = (r, s') \<Longrightarrow> cm_corrected (as_completion s') = cm_corrected (as_completion s)"
  by (auto simp: agent_check_def Let_def split: prod.split_asm)

lemma agent_follow_quiet: "agent_follow env started body s = (r, s') \<Longrightarrow> quiet s \<Longrightarrow> quiet s'"
  by (auto simp: agent_follow_def quiet_def follow_start_def Let_def split: prod.split_asm sum.split_asm dest!: follow_loop_quiet)

lemma send_quiet: "agent_send env prompt s = (r, s') \<Longrightarrow> quiet s \<Longrightarrow> quiet s'"
  by (erule agent_send_cases) (auto dest!: agent_follow_quiet simp: quiet_def split: sum.splits)

lemma check_quiet: "agent_check env c s = (r, s') \<Longrightarrow> quiet s \<Longrightarrow> quiet s'"
  by (auto simp: agent_check_def quiet_def Let_def split: prod.split_asm)

text \<open>What every send, check and rejection keeps, the rounds keep.\<close>

lemma rounds_keep:
  assumes "agent_rounds env p prompt round nudged fresh s = (r, s')" and "I s"
    and send: "\<And>prompt s r s'. agent_send env prompt s = (r, s') \<Longrightarrow> I s \<Longrightarrow> I s'"
    and check: "\<And>c s r s'. agent_check env c s = (r, s') \<Longrightarrow> I s \<Longrightarrow> I s'"
    and rejected: "\<And>s. I s \<Longrightarrow> I (book cu_rejected s)"
  shows "I s'"
  using assms(1,2)
proof (induction "2 * (MAX_ROUNDS - round) + (if nudged then 0 else 1 :: nat)" arbitrary: prompt round nudged fresh s rule: less_induct)
  case less
  from less.prems(1) show ?case
  proof (cases rule: agent_rounds_cases)
    case (nudged x s1 fault)
    from less.hyps [OF _ nudged(4)] nudged(3) send [OF nudged(1) less.prems(2)] show ?thesis by simp
  next
    case (corrected x s1 c correction s2)
    have "2 * (MAX_ROUNDS - (round + 1)) + (if nudged then 0 else 1 :: nat) < 2 * (MAX_ROUNDS - round) + (if nudged then 0 else 1)"
      using corrected(4) by simp
    from less.hyps [OF this corrected(5)] send [OF corrected(1) less.prems(2)] show ?thesis
      by (blast intro: check [OF corrected(2)] rejected)
  qed (blast intro: less.prems(2) dest: send check)+
qed

lemma rounds_quiet: "agent_rounds env p prompt round nudged fresh s = (r, s') \<Longrightarrow> quiet s \<Longrightarrow> quiet s'"
  by (erule rounds_keep) (auto dest: send_quiet check_quiet, simp add: quiet_def)

lemma call_effect_simps [simp]:
  "as_completion (call_effect env e s) = as_completion s" "as_effects (call_effect env e s) = as_effects s @ [e]"
  "as_run_id (call_effect env e s) = as_run_id s"
  by (simp_all add: call_effect_def)

lemma settle_quiet: "quiet s \<Longrightarrow> quiet (agent_settle env s)"
  by (auto simp: agent_settle_def quiet_def Let_def split: option.split prod.split)

lemma settle_corrected [simp]: "cm_corrected (as_completion (agent_settle env s)) = cm_corrected (as_completion s)"
  by (simp add: agent_settle_def Let_def split: option.split prod.split)

lemma delete_completion [simp]: "as_completion (agent_delete env s) = as_completion s"
  by (simp add: agent_delete_def Let_def split: option.split)

lemma drop_lines: "cm_emitted c \<Longrightarrow> cu_drop c = c"
  by (simp add: cu_drop_def cu_finish_def)

lemma finish_lines: "quiet s \<Longrightarrow> cm_lines (as_completion (agent_finish r s)) = [run_outcome r (cm_corrected (as_completion s))]"
  "cm_emitted (as_completion (agent_finish r s))"
  by (simp_all add: agent_finish_def quiet_def cu_finish_def)

lemma create_cases:
  assumes "agent_create env s = (r, s')" and "quiet s"
  obtains (refused) e where "r = Inl e" "cm_lines (as_completion s') = [cursor_outcome_of e]" "cm_emitted (as_completion s')"
      "as_effects s' = as_effects s @ [Did_Create]" "as_run_id s' = as_run_id s"
  | (created) i where "r = Inr i" "i \<noteq> []" "quiet s'" "as_effects s' = as_effects s @ [Did_Create]" "as_run_id s' = as_run_id s"
      "cm_corrected (as_completion s') = cm_corrected (as_completion s)"
  using assms by (auto simp: agent_create_def quiet_def cu_finish_def Let_def split: prod.split_asm created.split_asm if_split_asm)

text \<open>An answer is a corrected one exactly when a candidate was checked before it.\<close>

lemma rounds_corrected:
  assumes "agent_rounds env p prompt round nudged fresh s = (Inr a, s')"
  shows "cm_corrected (as_completion s') \<longleftrightarrow>
     cm_corrected (as_completion s) \<or> 1 < length (filter checked (drop (length (as_effects s)) (as_effects s')))"
  using assms
proof (induction "2 * (MAX_ROUNDS - round) + (if nudged then 0 else 1 :: nat)" arbitrary: prompt round nudged fresh s rule: less_induct)
  case less
  from less.prems show ?case
  proof (cases rule: agent_rounds_cases)
    case (unasked x)
    from send_corrected [OF unasked(1)] send_Inr [OF unasked(1)] show ?thesis by simp
  next
    case (nudged x s1 fault)
    from less.hyps [OF _ nudged(4)] nudged(3) send_corrected [OF nudged(1)] send_Inr [OF nudged(1)]
      rounds_effects [OF nudged(4)] show ?thesis by auto
  next
    case (accepted x s1 c)
    from send_corrected [OF accepted(1)] send_Inr [OF accepted(1)] check_corrected [OF accepted(2)] check_effects [OF accepted(2)]
    show ?thesis by simp
  next
    case (corrected x s1 c correction s2)
    have "2 * (MAX_ROUNDS - (round + 1)) + (if nudged then 0 else 1 :: nat) < 2 * (MAX_ROUNDS - round) + (if nudged then 0 else 1)"
      using corrected(4) by simp
    from less.hyps [OF this corrected(5)] have yes: "cm_corrected (as_completion s')" by simp
    from rounds_effects [OF corrected(5)] corrected(3) obtain xs where xs: "as_effects s' = as_effects s2 @ xs"
      and l: "xs \<noteq> []" "last xs = Did_Check (an_answer a)" by (auto simp: rounds_did_def)
    from l have "xs = butlast xs @ [Did_Check (an_answer a)]" by (metis append_butlast_last_id)
    then have "0 < length (filter checked xs)" by (metis filter.simps kinds(3) filter_append length_append length_greater_0_conv append_is_Nil_conv not_Cons_self2)
    with yes xs send_Inr [OF corrected(1)] check_effects [OF corrected(2)] show ?thesis by simp
  qed auto
qed

lemma settle_checks: "filter checked (as_effects (agent_settle env s)) = filter checked (as_effects s)"
  by (auto simp: agent_settle_def checked_def Let_def split: option.split prod.split)

lemma delete_checks: "filter checked (as_effects (agent_delete env s)) = filter checked (as_effects s)"
  by (auto simp: agent_delete_def checked_def Let_def split: option.split)

lemma finish_effects [simp]: "as_effects (agent_finish r s) = as_effects s"
  by (simp add: agent_finish_def)

lemma agent_reports:
  "case agent_run env p (agent_begin env w) of
     (r, s) \<Rightarrow> cm_lines (as_completion s) = [run_outcome r (1 < length (filter checked (as_effects s)))]"
proof -
  have q: "quiet (agent_begin env w)" by (simp add: quiet_def agent_begin_def cu_completion_new_def)
  obtain v s1 where c: "agent_create env (agent_begin env w) = (v, s1)" by (cases "agent_create env (agent_begin env w)")
  from c q show ?thesis
  proof (cases rule: create_cases)
    case (refused e)
    with c show ?thesis by (simp add: agent_run_def drop_lines run_outcome_def)
  next
    case (created i)
    obtain r s2 where r: "agent_rounds env p (pr_text p) 1 False True s1 = (r, s2)"
      by (cases "agent_rounds env p (pr_text p) 1 False True s1")
    have c1: "as_effects s1 = [Did_Create]" "\<not> cm_corrected (as_completion s1)"
      using created by (simp_all add: agent_begin_def cu_completion_new_def)
    have "run_outcome r (cm_corrected (as_completion s2)) = run_outcome r (1 < length (filter checked (as_effects s2)))"
    proof (cases r)
      case (Inr a)
      from rounds_corrected [OF r [unfolded Inr]] rounds_effects [OF r] c1 show ?thesis by (auto simp: checked_def)
    qed (simp add: run_outcome_def)
    with settle_quiet [OF rounds_quiet [OF r created(3)]]
    have "cm_lines (as_completion (agent_finish r (agent_settle env s2))) = [run_outcome r (1 < length (filter checked (as_effects s2)))]"
      by (simp add: finish_lines)
    with c created r settle_quiet [OF rounds_quiet [OF r created(3)]] show ?thesis
      by (simp add: agent_run_def drop_lines finish_lines delete_checks settle_checks)
  qed
qed

lemma agent_reports_length: "agent_run env p (agent_begin env w) = (r, s) \<Longrightarrow> length (cm_lines (as_completion s)) = 1"
  using agent_reports [of env p w] by simp

text \<open>
  However an agent's run ends, in opening it or after its rounds, it emits one completion line,
  and that line's outcome is the run's: an answer's, corrected exactly when the guest was shown a
  candidate before it, or the class of its error.
\<close>

theorem agent_reports_once:
  "case agent_run env p (agent_begin env w) of
     (r, s) \<Rightarrow> cm_lines (as_completion s) = [run_outcome r (1 < length (filter checked (as_effects s)))]"
  by (rule agent_reports)

section \<open>The order of an agent's calls\<close>

lemma send_no_run: "agent_send env prompt s = (Inr r, s') \<Longrightarrow> as_run_id s' = None"
proof (erule agent_send_cases)
  fix ws w body now r1 s1
  assume f: "agent_follow env (ae_now env (as_world s)) body (did (Did_Send prompt) (book cu_attempt s)\<lparr>as_world := w\<rparr>) = (r1, s1)"
    and r: "Inr r = r1" and s: "s' = (case r1 of Inl _ \<Rightarrow> s1 | Inr x \<Rightarrow> book (cu_record (re_usage x)) s1)"
  from f r have "as_run_id s1 = None"
    by (auto simp: agent_follow_def Let_def split: prod.split_asm sum.split_asm)
  with r s show "as_run_id s' = None" by auto
qed simp_all

lemma check_run: "agent_check env c s = (r, s') \<Longrightarrow> as_run_id s' = as_run_id s"
  by (auto simp: agent_check_def Let_def split: prod.split_asm)

text \<open>Once a send was answered no run is open, so an answer leaves none.\<close>

lemma rounds_no_run:
  assumes "agent_rounds env p prompt round nudged fresh s = (Inr a, s')"
  shows "as_run_id s' = None"
  using assms
proof (induction "2 * (MAX_ROUNDS - round) + (if nudged then 0 else 1 :: nat)" arbitrary: prompt round nudged fresh s rule: less_induct)
  case less
  from less.prems show ?case
  proof (cases rule: agent_rounds_cases)
    case (nudged x s1 fault)
    from less.hyps [OF _ nudged(4)] nudged(3) show ?thesis by simp
  next
    case (corrected x s1 c correction s2)
    have "2 * (MAX_ROUNDS - (round + 1)) + (if nudged then 0 else 1 :: nat) < 2 * (MAX_ROUNDS - round) + (if nudged then 0 else 1)"
      using corrected(4) by simp
    from less.hyps [OF this corrected(5)] show ?thesis .
  next
    case (accepted x s1 c)
    with send_no_run [OF accepted(1)] check_run [OF accepted(2)] show ?thesis by simp
  qed (auto dest: send_no_run)
qed

lemma settle_effects:
  "\<exists>cancel. as_effects (agent_settle env s) = as_effects s @ cancel \<and>
     (cancel = [] \<or> (\<exists>run. as_run_id s = Some run \<and> cancel = [Did_Cancel run, Did_Usage])) \<and>
     as_run_id (agent_settle env s) = None"
  by (auto simp: agent_settle_def Let_def split: option.split prod.split)

lemma delete_effects:
  assumes "as_run_id s = None"
  shows "as_effects (agent_delete env s) = as_effects s @ (if ae_live env (as_world s) then [Did_Close, Did_Delete] else [])"
    and "as_run_id (agent_delete env s) = None"
  using assms by (simp_all add: agent_delete_def Let_def)

lemma finish_run [simp]: "as_run_id (agent_finish r s) = as_run_id s" "as_world (agent_finish r s) = as_world s"
  by (simp_all add: agent_finish_def)

lemma begin_quiet: "quiet (agent_begin env w)"
  by (simp add: quiet_def agent_begin_def cu_completion_new_def)

lemma begin_simps [simp]: "as_effects (agent_begin env w) = []" "as_run_id (agent_begin env w) = None"
  by (simp_all add: agent_begin_def)

text \<open>
  The effects of an agent: creating it, the sends and checks of its rounds, settling a run left open,
  which an answer never leaves, and its teardown.
\<close>

definition agent_order :: "unanswered + cu_answer \<Rightarrow> agent_effect list \<Rightarrow> bool" where
  "agent_order r es \<longleftrightarrow>
     (\<exists>xs cancel teardown. es = Did_Create # xs @ cancel @ teardown \<and>
        list_all (\<lambda>e. sent e \<or> checked e) xs \<and>
        (cancel = [] \<or> (\<exists>run u. r = Inl u \<and> cancel = [Did_Cancel run, Did_Usage])) \<and>
        (teardown = [] \<or> teardown = [Did_Close, Did_Delete]))"

lemma agent_run_cases:
  assumes "agent_run env p (agent_begin env w) = (r, s)"
  obtains (unopened) e where "r = Inl \<lparr>un_error = e, un_opening = True\<rparr>" "as_effects s = [Did_Create]" "as_run_id s = None"
  | (ran) xs cancel s1 s2 where "agent_rounds env p (pr_text p) 1 False True s1 = (r, s2)"
      "rounds_did env p 1 False True r xs" "as_effects s = Did_Create # xs @ cancel @
         (if ae_live env (as_world (agent_settle env s2)) then [Did_Close, Did_Delete] else [])"
      "cancel = [] \<or> (\<exists>run u. r = Inl u \<and> cancel = [Did_Cancel run, Did_Usage])" "as_run_id s = None"
proof -
  obtain v s1 where c: "agent_create env (agent_begin env w) = (v, s1)" by (cases "agent_create env (agent_begin env w)")
  from c begin_quiet show ?thesis
  proof (cases rule: create_cases)
    case (refused e)
    with c assms show ?thesis by (intro unopened [of e]) (auto simp: agent_run_def)
  next
    case (created i)
    obtain r2 s2 where r2: "agent_rounds env p (pr_text p) 1 False True s1 = (r2, s2)"
      by (cases "agent_rounds env p (pr_text p) 1 False True s1")
    with assms c created have r: "r2 = r" and s: "s = book cu_drop (agent_delete env (agent_finish r (agent_settle env s2)))"
      by (auto simp: agent_run_def)
    from rounds_effects [OF r2] r created obtain xs where
      xs: "as_effects s2 = Did_Create # xs" "rounds_did env p 1 False True r xs" by auto
    from settle_effects [of env s2] obtain cancel where cancel: "as_effects (agent_settle env s2) = as_effects s2 @ cancel"
      "cancel = [] \<or> (\<exists>run. as_run_id s2 = Some run \<and> cancel = [Did_Cancel run, Did_Usage])" "as_run_id (agent_settle env s2) = None" by blast
    have "cancel = [] \<or> (\<exists>run u. r = Inl u \<and> cancel = [Did_Cancel run, Did_Usage])"
    proof (cases r)
      case (Inr a)
      from rounds_no_run [OF r2 [unfolded r Inr]] cancel(2) show ?thesis by simp
    qed (use cancel(2) in auto)
    with r2 r xs cancel s delete_effects [of "agent_finish r (agent_settle env s2)" env] show ?thesis
      by (intro ran [of s1 s2 xs cancel]) simp_all
  qed
qed

text \<open>
  An agent's calls come in one order: it is created, prompted and checked in turns, a run it left
  open is cancelled and its bill read, and it is closed and deleted. No run is left open, and an agent
  that answered cancels none.
\<close>

theorem agent_calls_ordered:
  "case agent_run env p (agent_begin env w) of (r, s) \<Rightarrow> agent_order r (as_effects s) \<and> as_run_id s = None"
proof -
  obtain r s where run: "agent_run env p (agent_begin env w) = (r, s)" by (cases "agent_run env p (agent_begin env w)")
  then show ?thesis
  proof (cases rule: agent_run_cases)
    case (unopened e)
    with run show ?thesis by (simp add: agent_order_def)
  next
    case (ran xs cancel s1 s2)
    from ran(2) have all: "list_all (\<lambda>e. sent e \<or> checked e) xs" by (simp add: rounds_did_def)
    have "agent_order r (as_effects s)" unfolding agent_order_def
      by (intro exI conjI, rule ran(3), rule all, rule ran(4), simp)
    with run ran show ?thesis by simp
  qed
qed

section \<open>Bounds, checks and the restart\<close>

lemma not_kinds [simp]:
  "\<not> sent Did_Create" "\<not> sent (Did_Cancel run)" "\<not> sent Did_Usage" "\<not> sent Did_Close" "\<not> sent Did_Delete"
  "\<not> checked Did_Create" "\<not> checked (Did_Cancel run)" "\<not> checked Did_Usage" "\<not> checked Did_Close" "\<not> checked Did_Delete"
  by (simp_all add: sent_def checked_def)

definition sends :: "agent_effect list \<Rightarrow> nat" where "sends es = length (filter sent es)"
definition checks :: "agent_effect list \<Rightarrow> nat" where "checks es = length (filter checked es)"
definition creates :: "agent_effect list \<Rightarrow> nat" where "creates es = length (filter (\<lambda>e. e = Did_Create) es)"

lemma counts_append [simp]:
  "sends (a @ b) = sends a + sends b" "checks (a @ b) = checks a + checks b" "creates (a @ b) = creates a + creates b"
  by (simp_all add: sends_def checks_def creates_def)

lemma agent_run_counts:
  assumes "agent_run env p (agent_begin env w) = (r, s)"
  shows "sends (as_effects s) \<le> 3" and "checks (as_effects s) \<le> 2" and "creates (as_effects s) = 1"
    and "r = Inl u \<Longrightarrow> un_opening u \<Longrightarrow> sends (as_effects s) \<le> 1 \<and> checks (as_effects s) = 0"
proof -
  have "sends (as_effects s) \<le> 3 \<and> checks (as_effects s) \<le> 2 \<and> creates (as_effects s) = 1 \<and>
      (\<forall>u. r = Inl u \<longrightarrow> un_opening u \<longrightarrow> sends (as_effects s) \<le> 1 \<and> checks (as_effects s) = 0)"
    using assms
  proof (cases rule: agent_run_cases)
    case (unopened e)
    then show ?thesis by (simp add: sends_def checks_def creates_def)
  next
    case (ran xs cancel s1 s2)
    have tail: "sends cancel = 0" "checks cancel = 0" "creates cancel = 0"
      using ran(4) by (auto simp: sends_def checks_def creates_def)
    have none: "creates xs = 0"
      using ran(2) by (auto simp: rounds_did_def creates_def list_all_iff filter_empty_conv)
    have "checks xs = 0 \<and> sends xs \<le> 1" if "r = Inl u" "un_opening u" for u
      using ran(2) that by (cases xs) (auto simp: rounds_did_def checks_def sends_def sent_def list_all_iff)
    with tail none ran(2,3) show ?thesis
      by (auto simp: rounds_did_def MAX_ROUNDS_def sends_def checks_def creates_def)
  qed
  then show "sends (as_effects s) \<le> 3" "checks (as_effects s) \<le> 2" "creates (as_effects s) = 1"
    "r = Inl u \<Longrightarrow> un_opening u \<Longrightarrow> sends (as_effects s) \<le> 1 \<and> checks (as_effects s) = 0" by auto
qed

definition client_begin :: "'w \<Rightarrow> 'w client_state" where
  "client_begin w = \<lparr>cl_world = w, cl_effects = [], cl_lines = []\<rparr>"

lemma client_attempt_effects:
  assumes "client_attempt stage c = (r, c')"
  shows "\<exists>xs ls. cl_effects c' = cl_effects c @ xs \<and> cl_lines c' = cl_lines c @ ls \<and>
     sends xs \<le> 3 \<and> checks xs \<le> 2 \<and> creates xs \<le> 1 \<and> length ls = creates xs \<and>
     (case r of Inl u \<Rightarrow> un_opening u \<longrightarrow> sends xs \<le> 1 \<and> checks xs = 0 | Inr _ \<Rightarrow> True)"
proof -
  obtain v w where st: "stage (cl_world c) = (v, w)" by (cases "stage (cl_world c)")
  show ?thesis
  proof (cases v)
    case (Inl e)
    with assms st show ?thesis by (auto simp: client_attempt_def sends_def checks_def creates_def)
  next
    case (Inr x)
    obtain env p where x: "x = (env, p)" by (cases x)
    obtain r1 s where run: "agent_run env p (agent_begin env w) = (r1, s)" by (cases "agent_run env p (agent_begin env w)")
    from agent_reports_length [OF run] have l: "length (cm_lines (as_completion s)) = 1" .
    from assms st Inr x run have "r = r1" and
      c: "cl_effects c' = cl_effects c @ as_effects s" "cl_lines c' = cl_lines c @ cm_lines (as_completion s)"
      by (auto simp: client_attempt_def)
    with agent_run_counts [OF run] l show ?thesis
      by (intro exI [of _ "as_effects s"] exI [of _ "cm_lines (as_completion s)"]) (auto split: sum.split)
  qed
qed

text \<open>
  C25. A completion creates at most two agents, sends at most four prompts and shows the guest at most
  two candidates, restart included, and emits a line for each agent it created.
\<close>

theorem completion_sends_bounded:
  "case cursor_complete stage (client_begin w) of
     (r, c) \<Rightarrow> creates (cl_effects c) \<le> 2 \<and> sends (cl_effects c) \<le> 4 \<and> checks (cl_effects c) \<le> 2 \<and>
       length (cl_lines c) = creates (cl_effects c)"
proof -
  obtain r c where a: "client_attempt stage (client_begin w) = (r, c)" by (cases "client_attempt stage (client_begin w)")
  from client_attempt_effects [OF a] obtain xs ls where xs: "cl_effects c = xs" "cl_lines c = ls" "sends xs \<le> 3" "checks xs \<le> 2"
    "creates xs \<le> 1" "length ls = creates xs" "case r of Inl u \<Rightarrow> un_opening u \<longrightarrow> sends xs \<le> 1 \<and> checks xs = 0 | Inr _ \<Rightarrow> True"
    by (auto simp: client_begin_def)
  show ?thesis
  proof (cases "\<exists>u. r = Inl u \<and> restartable u")
    case False
    with a xs show ?thesis by (auto simp: cursor_complete_def split: sum.split)
  next
    case True
    then obtain u where u: "r = Inl u" "restartable u" by blast
    with xs(7) have few: "sends xs \<le> 1" "checks xs = 0" by (simp_all add: restartable_def)
    obtain r2 c2 where b: "client_attempt stage c = (r2, c2)" by (cases "client_attempt stage c")
    from client_attempt_effects [OF b] obtain ys ms where "cl_effects c2 = xs @ ys" "cl_lines c2 = ls @ ms"
      "sends ys \<le> 3" "checks ys \<le> 2" "creates ys \<le> 1" "length ms = creates ys" using xs(1,2) by auto
    with a u b xs few show ?thesis by (auto simp: cursor_complete_def split: sum.split)
  qed
qed


text \<open>A worker that exits under the opening send, and the attempt it fails.\<close>

definition exiting_env :: "unit agent_env" where
  "exiting_env = \<lparr>ae_deadlines = \<lparr>dl_inactivity = 120, dl_cap = 600\<rparr>,
     ae_stream = \<lparr>se_message = (\<lambda>_. None), se_end = (\<lambda>_. None)\<rparr>, ae_pick = (\<lambda>_. 0), ae_now = (\<lambda>_. 7),
     ae_live = (\<lambda>_. False), ae_gone = (\<lambda>_. False), ae_create = (\<lambda>w. (Created ''agent'', w)),
     ae_open = (\<lambda>_ w. ([(9, Open_Answered (Inl (Cu_Failure (Fail_Worker_Exited \<lparr>ex_status = None, ex_pid = 42\<rparr>))))], w)),
     ae_wakes = (\<lambda>w. ([], w)), ae_candidate = (\<lambda>_ c. c), ae_fault = (\<lambda>_. None), ae_check = (\<lambda>_ w. (Inr (Inr ()), w)),
     ae_call = (\<lambda>_ w. w), ae_usage = (\<lambda>w. (None, w))\<rparr>"

definition exiting_stage :: "unit \<Rightarrow> (cursor_error + unit agent_env \<times> cu_prompt) \<times> unit" where
  "exiting_stage w = (Inr (exiting_env, \<lparr>pr_text = ''hello'', pr_format = Fmt_Text, pr_check = True\<rparr>), w)"

lemma exiting_attempt:
  "\<exists>c. client_attempt exiting_stage (client_begin ()) =
     (Inl \<lparr>un_error = Cu_Failure (Fail_Worker_Exited \<lparr>ex_status = None, ex_pid = 42\<rparr>), un_opening = True\<rparr>, c) \<and>
     cl_effects c = [Did_Create, Did_Send ''hello''] \<and> cl_lines c = [Cu_Worker_Exit]"
  by (simp add: client_attempt_def exiting_stage_def client_begin_def agent_run_def agent_create_def agent_begin_def
      exiting_env_def agent_rounds.simps agent_send_def agent_settle_def agent_delete_def agent_finish_def run_outcome_def
      cu_completion_new_def cu_attempt_def cu_spent_def cu_drop_def cu_finish_def did_def book_def)


lemma last_filter: "xs \<noteq> [] \<Longrightarrow> P (last xs) \<Longrightarrow> last (filter P xs) = last xs"
  by (induction xs rule: rev_induct) auto

text \<open>
  An answer to a request that asked for a check is the candidate the guest was shown last, and
  the guest accepted it.
\<close>

theorem agent_answer_accepted:
  "case agent_run env p (agent_begin env w) of
     (Inl u, s) \<Rightarrow> True
   | (Inr a, s) \<Rightarrow>
       if pr_check p then last (filter checked (as_effects s)) = Did_Check (an_answer a) \<and>
         (\<exists>x. fst (ae_check env (an_answer a) x) = Inr (Inr ()))
       else True"
proof -
  obtain r s where run: "agent_run env p (agent_begin env w) = (r, s)" by (cases "agent_run env p (agent_begin env w)")
  show ?thesis
  proof (cases "\<exists>a. r = Inr a \<and> pr_check p")
    case True
    then obtain a where r: "r = Inr a" and c: "pr_check p" by blast
    from run show ?thesis
    proof (cases rule: agent_run_cases)
      case (ran xs cancel s1 s2)
      from ran(2) r c have x: "xs \<noteq> []" "last xs = Did_Check (an_answer a)" "\<exists>x. fst (ae_check env (an_answer a) x) = Inr (Inr ())"
        by (simp_all add: rounds_did_def)
      then have "last (filter checked xs) = Did_Check (an_answer a)" by (simp add: last_filter)
      moreover from x have "filter checked xs \<noteq> []" by (metis kinds(3) last_in_set filter_empty_conv)
      ultimately show ?thesis using run r c ran(3,4) x(3) by (auto simp: last_append)
    qed (use r in simp)
  qed (use run in \<open>auto split: sum.split\<close>)
qed

end
