(* ===== verification/Cursor_Proto.thy ===== *)
theory Cursor_Proto
  imports Rust_Num "HOL-Library.Log_Nat"
begin

text \<open>
  The values of a tool call in the protobuf codec (\<open>src/crates/cursor/src/callback/proto.rs\<close>):
  \<open>Struct\<close> to JSON and back. A \<open>Struct\<close> number is always a double; its 64 bits are taken apart
  here, and an integer up to \<open>2 ^ 53\<close> survives the way there and back.
\<close>

section \<open>Doubles and integers\<close>

definition f64_exponent :: "f64 \<Rightarrow> nat" where "f64_exponent f = (unat f div 2 ^ 52) mod 2048"
definition f64_mantissa :: "f64 \<Rightarrow> nat" where "f64_mantissa f = unat f mod 2 ^ 52"
definition f64_negative :: "f64 \<Rightarrow> bool" where "f64_negative f \<longleftrightarrow> 2 ^ 63 \<le> unat f"

text \<open>\<open>2 ^ 53\<close>: every integer up to here is exactly a double.\<close>

definition EXACT_INTEGER :: nat where "EXACT_INTEGER = 2 ^ 53"

text \<open>The magnitude of a double without a fraction, of at most \<open>2 ^ 53\<close>.\<close>

definition f64_magnitude :: "f64 \<Rightarrow> nat option" where
  "f64_magnitude f =
     (let e = f64_exponent f; m = f64_mantissa f in
      if e = 0 then (if m = 0 then Some 0 else None)
      else if e < 1023 then None
      else if e \<le> 1075 then
        (if (2 ^ 52 + m) mod 2 ^ (1075 - e) = 0 then Some ((2 ^ 52 + m) div 2 ^ (1075 - e)) else None)
      else if e = 1076 \<and> m = 0 then Some EXACT_INTEGER
      else None)"

definition f64_integral :: "f64 \<Rightarrow> int option" where
  "f64_integral f = map_option (\<lambda>n. if f64_negative f then - int n else int n) (f64_magnitude f)"

text \<open>The nearest double to a natural number, ties to even.\<close>

definition f64_bits_of_nat :: "nat \<Rightarrow> nat" where
  "f64_bits_of_nat n =
     (if n = 0 then 0
      else let e = floorlog 2 n - 1 in
        if e \<le> 52 then (e + 1023) * 2 ^ 52 + (n * 2 ^ (52 - e) - 2 ^ 52)
        else let k = e - 52; q = n div 2 ^ k; r = n mod 2 ^ k;
                 q = (if 2 ^ k < 2 * r \<or> 2 * r = 2 ^ k \<and> odd q then q + 1 else q)
             in (e + 1023) * 2 ^ 52 + (q - 2 ^ 52))"

definition f64_of_int :: "int \<Rightarrow> f64" where
  "f64_of_int i = word_of_nat (f64_bits_of_nat (nat \<bar>i\<bar>) + (if i < 0 then 2 ^ 63 else 0))"

text \<open>\<open>Number::as_f64\<close>.\<close>

fun num_f64 :: "json_num \<Rightarrow> f64" where
  "num_f64 (Pos_Int n) = f64_of_int (int n)"
| "num_f64 (Neg_Int i) = f64_of_int i"
| "num_f64 (Float f) = f"

section \<open>Values\<close>

datatype pkind =
    P_Unset
  | P_Null
  | P_Number f64
  | P_String string
  | P_Bool bool
  | P_Struct "(string \<times> pkind) list"
  | P_List "pkind list"

definition number_to_value :: "f64 \<Rightarrow> json" where
  "number_to_value f =
     (case f64_integral f of
        Some i \<Rightarrow> JNum (num_of_i64 i)
      | None \<Rightarrow> (case num_of_f64 f of Some n \<Rightarrow> JNum n | None \<Rightarrow> JNull))"

fun kind_to_value :: "pkind \<Rightarrow> json" where
  "kind_to_value P_Unset = JNull"
| "kind_to_value P_Null = JNull"
| "kind_to_value (P_Number f) = number_to_value f"
| "kind_to_value (P_String s) = JStr s"
| "kind_to_value (P_Bool b) = JBool b"
| "kind_to_value (P_Struct kvs) = JObj (json_collect (map (\<lambda>(k, v). (k, kind_to_value v)) kvs))"
| "kind_to_value (P_List vs) = JArr (map kind_to_value vs)"

definition struct_to_value :: "(string \<times> pkind) list \<Rightarrow> json" where
  "struct_to_value fields1 = JObj (json_collect (map (\<lambda>(k, v). (k, kind_to_value v)) fields1))"

fun value_to_kind :: "json \<Rightarrow> pkind" where
  "value_to_kind JNull = P_Null"
| "value_to_kind (JBool b) = P_Bool b"
| "value_to_kind (JNum n) = P_Number (num_f64 n)"
| "value_to_kind (JStr s) = P_String s"
| "value_to_kind (JArr vs) = P_List (map value_to_kind vs)"
| "value_to_kind (JObj kvs) = P_Struct (map (\<lambda>(k, v). (k, value_to_kind v)) kvs)"

definition value_to_struct :: "json_map \<Rightarrow> (string \<times> pkind) list" where
  "value_to_struct m = map (\<lambda>(k, v). (k, value_to_kind v)) m"

section \<open>The round trip\<close>

lemma floorlog_bits:
  assumes "0 < n" and "n < 2 ^ 53"
  defines "e \<equiv> floorlog 2 n - 1"
  shows "e \<le> 52" and "2 ^ 52 \<le> n * 2 ^ (52 - e)" and "n * 2 ^ (52 - e) < 2 ^ 53"
proof -
  have b: "2 ^ e \<le> n" "n < 2 ^ (e + 1)"
    using floorlog_bounds [of n 2] assms(1) floorlog_eq_zero_iff [of 2 n] by (auto simp: e_def)
  from b(1) assms(2) have "2 ^ e < (2 :: nat) ^ 53" by simp
  then have "e < 53" by (rule power_less_imp_less_exp [rotated]) simp
  then show e: "e \<le> 52" by simp
  have "2 ^ e * 2 ^ (52 - e) \<le> n * 2 ^ (52 - e)" using b(1) by simp
  moreover have "(2 :: nat) ^ e * 2 ^ (52 - e) = 2 ^ 52" using e by (simp flip: power_add)
  ultimately show "2 ^ 52 \<le> n * 2 ^ (52 - e)" by simp
  have "n * 2 ^ (52 - e) < 2 ^ (e + 1) * 2 ^ (52 - e)" using b(2) by (rule mult_strict_right_mono) simp
  also have "\<dots> = 2 ^ 53" using e by (simp flip: power_add del: power_Suc)
  finally show "n * 2 ^ (52 - e) < 2 ^ 53" .
qed

lemma f64_fields:
  assumes "unat f = s * 2 ^ 63 + e * 2 ^ 52 + m" and "s \<le> 1" and "e < 2048" and "m < 2 ^ 52"
  shows "f64_exponent f = e" and "f64_mantissa f = m" and "f64_negative f \<longleftrightarrow> s = 1"
proof -
  have f: "unat f = (s * 2048 + e) * 2 ^ 52 + m" using assms(1) by (simp add: algebra_simps)
  have "unat f div 2 ^ 52 = s * 2048 + e" unfolding f using assms(4) by simp
  then show "f64_exponent f = e" using assms(3) by (simp add: f64_exponent_def)
  show "f64_mantissa f = m" unfolding f64_mantissa_def f by (simp only: mod_mult_self3 mod_less [OF assms(4)])
  have "e * 2 ^ 52 + m < 2 ^ 63" using assms(3,4) by simp
  with assms(1,2) show "f64_negative f \<longleftrightarrow> s = 1" by (cases s) (auto simp: f64_negative_def)
qed

lemma f64_bits_integral:
  assumes "n < 2 ^ 53" and "s \<le> 1" and "unat f = f64_bits_of_nat n + s * 2 ^ 63"
  shows "f64_magnitude f = Some n" and "f64_negative f \<longleftrightarrow> s = 1"
proof -
  have "f64_magnitude f = Some n \<and> (f64_negative f \<longleftrightarrow> s = 1)"
  proof (cases "n = 0")
    case True
    with assms have "unat f = s * 2 ^ 63 + 0 * 2 ^ 52 + 0" by (simp add: f64_bits_of_nat_def)
    from f64_fields [OF this assms(2)] True show ?thesis by (simp add: f64_magnitude_def)
  next
    case False
    define e where "e = floorlog 2 n - 1"
    from False have p: "0 < n" by simp
    note b = floorlog_bits [OF p assms(1), folded e_def]
    define m where "m = n * 2 ^ (52 - e) - 2 ^ 52"
    have "f64_bits_of_nat n = (e + 1023) * 2 ^ 52 + m"
      unfolding f64_bits_of_nat_def Let_def e_def [symmetric] m_def using False b(1) by simp
    then have u: "unat f = s * 2 ^ 63 + (e + 1023) * 2 ^ 52 + m" using assms(3) by simp
    have "m < 2 ^ 52" using b(2,3) by (simp add: m_def)
    note f = f64_fields [OF u assms(2) _ this]
    have m: "2 ^ 52 + m = n * 2 ^ (52 - e)" using b(2) by (simp add: m_def)
    have e: "1075 - (e + 1023) = 52 - e" by simp
    have "(2 ^ 52 + m) mod 2 ^ (52 - e) = 0" "(2 ^ 52 + m) div 2 ^ (52 - e) = n" unfolding m by simp_all
    then have "f64_magnitude f = Some n"
      using f b(1) by (simp add: f64_magnitude_def Let_def e)
    with f b(1) show ?thesis by simp
  qed
  then show "f64_magnitude f = Some n" "f64_negative f \<longleftrightarrow> s = 1" by simp_all
qed

lemma f64_bits_small:
  assumes "n < 2 ^ 53"
  shows "f64_bits_of_nat n < 2 ^ 63"
proof (cases "n = 0")
  case False
  define e where "e = floorlog 2 n - 1"
  from False have p: "0 < n" by simp
  note b = floorlog_bits [OF p assms, folded e_def]
  have "f64_bits_of_nat n = (e + 1023) * 2 ^ 52 + (n * 2 ^ (52 - e) - 2 ^ 52)"
    unfolding f64_bits_of_nat_def Let_def e_def [symmetric] using False b(1) by simp
  moreover have "n * 2 ^ (52 - e) - 2 ^ 52 < 2 ^ 52" using b(2,3) by simp
  moreover have "(e + 1023) * 2 ^ 52 \<le> 1075 * 2 ^ 52" using b(1) by simp
  ultimately show ?thesis by simp
qed (simp add: f64_bits_of_nat_def)

lemma f64_of_int_integral:
  assumes "\<bar>i\<bar> < 2 ^ 53"
  shows "f64_integral (f64_of_int i) = Some i"
proof -
  let ?n = "nat \<bar>i\<bar>" and ?s = "if i < 0 then 1 else 0 :: nat"
  have n: "?n < 2 ^ 53" using assms by (simp add: nat_less_iff)
  have "f64_bits_of_nat ?n + ?s * 2 ^ 63 < 2 ^ 64" using f64_bits_small [OF n] by (cases "i < 0") simp_all
  moreover have "unat (word_of_nat x :: f64) = x" if "x < 2 ^ 64" for x using that by (simp add: unat_of_nat)
  moreover have "f64_of_int i = word_of_nat (f64_bits_of_nat ?n + ?s * 2 ^ 63)"
    by (cases "i < 0") (simp_all add: f64_of_int_def)
  ultimately have "unat (f64_of_int i) = f64_bits_of_nat ?n + ?s * 2 ^ 63" by metis
  from f64_bits_integral [OF n _ this] show ?thesis by (simp add: f64_integral_def)
qed

text \<open>What survives: integers below \<open>2 ^ 53\<close> and the finite doubles that are not integral.\<close>

fun num_exact :: "json_num \<Rightarrow> bool" where
  "num_exact (Pos_Int n) \<longleftrightarrow> n < 2 ^ 53"
| "num_exact (Neg_Int i) \<longleftrightarrow> - (2 ^ 53) < i \<and> i < 0"
| "num_exact (Float f) \<longleftrightarrow> f64_finite f \<and> f64_integral f = None"

fun json_exact :: "json \<Rightarrow> bool" where
  "json_exact (JNum n) \<longleftrightarrow> num_exact n"
| "json_exact (JArr vs) \<longleftrightarrow> list_all json_exact vs"
| "json_exact (JObj kvs) \<longleftrightarrow> bt_ok kvs \<and> list_all (\<lambda>(k, v). json_exact v) kvs"
| "json_exact _ \<longleftrightarrow> True"

lemma number_round_trip: "num_exact n \<Longrightarrow> number_to_value (num_f64 n) = JNum n"
proof (cases n)
  case (Pos_Int k)
  assume "num_exact n"
  with Pos_Int have "\<bar>int k\<bar> < 2 ^ 53" by simp
  from f64_of_int_integral [OF this] Pos_Int show ?thesis by (simp add: number_to_value_def num_of_i64_def)
next
  case (Neg_Int i)
  assume "num_exact n"
  with Neg_Int have i: "i < 0" "\<bar>i\<bar> < 2 ^ 53" by simp_all
  from f64_of_int_integral [OF i(2)] Neg_Int i show ?thesis by (simp add: number_to_value_def num_of_i64_def)
qed (simp add: number_to_value_def num_of_f64_def)

lemma json_collect_sorted:
  assumes "bt_ok kvs"
  shows "json_collect kvs = kvs"
proof (rule bt_ext [OF json_collect_ok assms])
  have d: "distinct (map fst kvs)" using assms by (simp add: bt_ok_def strict_sorted_iff)
  have "map_of (rev kvs) k = map_of kvs k" for k
  proof (cases "map_of kvs k")
    case None
    then have "k \<notin> fst ` set (rev kvs)" by (simp add: map_of_eq_None_iff)
    then have "map_of (rev kvs) k = None" unfolding map_of_eq_None_iff .
    with None show ?thesis by simp
  next
    case (Some v)
    have "distinct (map fst (rev kvs))" using d by (simp add: rev_map [symmetric])
    with Some map_of_eq_Some_iff [OF d, of k v] show ?thesis by (simp add: map_of_eq_Some_iff)
  qed
  then show "map_of (json_collect kvs) = map_of kvs" by (auto simp: json_collect_get)
qed

lemma value_round_trip: "json_exact v \<Longrightarrow> kind_to_value (value_to_kind v) = v"
proof (induction v rule: value_to_kind.induct)
  case (5 vs)
  then show ?case by (auto simp: list_all_iff intro: map_idI)
next
  case (6 kvs)
  have "map (\<lambda>(k, v). (k, kind_to_value v)) (map (\<lambda>(k, v). (k, value_to_kind v)) kvs) = kvs"
    using 6 by (auto simp: list_all_iff intro!: map_idI)
  moreover have "json_collect kvs = kvs" using "6.prems" by (simp add: json_collect_sorted)
  ultimately show ?case by simp
qed (simp_all add: number_round_trip)

text \<open>
  A tool's arguments and results mean the same in both codecs: an object written as a
  \<open>Struct\<close> reads back as itself, integers below \<open>2 ^ 53\<close> as integers, fractions as they were.
\<close>

theorem struct_round_trip:
  assumes "json_exact (JObj m)"
  shows "struct_to_value (value_to_struct m) = JObj m"
  using value_round_trip [OF assms] by (simp add: struct_to_value_def value_to_struct_def)

theorem struct_round_trip_witness:
  "struct_to_value (value_to_struct [(''n'', JNum (Pos_Int 42)), (''xs'', JArr [JNum (Neg_Int (- 7)), JNull, JStr ''a''])]) =
     JObj [(''n'', JNum (Pos_Int 42)), (''xs'', JArr [JNum (Neg_Int (- 7)), JNull, JStr ''a''])]"
  by (rule struct_round_trip) (simp add: bt_ok_def)

text \<open>One more than \<open>2 ^ 53\<close> rounds to it: the loss every mapping of a \<open>Struct\<close> accepts.\<close>

lemma big_integer_rounds: "f64_bits_of_nat (2 ^ 53 + 1) = f64_bits_of_nat (2 ^ 53)"
proof -
  have "floorlog 2 (9007199254740993 :: nat) = 54" "floorlog 2 (9007199254740992 :: nat) = 54"
    by (intro antisym floorlog_leI floorlog_geI; simp)+
  then show ?thesis by (simp add: f64_bits_of_nat_def Let_def)
qed

end
