(* ===== verification/Cursor_Callback.thy ===== *)
theory Cursor_Callback
  imports Cursor_Proto Cursor_Frames
begin

text \<open>
  The loopback server a worker calls back to run a guest's tool
  (\<open>src/crates/cursor/src/callback.rs\<close>): the workers' agent tables by bearer token, the routes
  of live completions, and a request from its head to its answer. Tokens, the guest's tool host, and
  the decoding of a body's text are parameters; a route's abort is the reason its channel was given.
\<close>

section \<open>Registrations and routes\<close>

record 'h target =
  tg_host :: 'h
  tg_declared :: "string list"
  tg_abort :: "string option"

type_synonym 'h routes = "(string, 'h target) btree"
type_synonym 'h workers = "(string, 'h routes) btree"

definition cb_register :: "string \<Rightarrow> 'h workers \<Rightarrow> 'h workers" where
  "cb_register token ws = bt_insert token [] ws"

definition cb_revoke :: "string \<Rightarrow> 'h workers \<Rightarrow> 'h workers" where
  "cb_revoke token ws = bt_remove token ws"

definition on_routes :: "string \<Rightarrow> ('h routes \<Rightarrow> 'h routes) \<Rightarrow> 'h workers \<Rightarrow> 'h workers" where
  "on_routes token f ws = (case bt_get ws token of None \<Rightarrow> ws | Some rs \<Rightarrow> bt_insert token (f rs) ws)"

definition cb_attach :: "string \<Rightarrow> string \<Rightarrow> 'h \<Rightarrow> string list \<Rightarrow> 'h workers \<Rightarrow> 'h workers" where
  "cb_attach token agent host declared1 =
     on_routes token (bt_insert agent \<lparr>tg_host = host, tg_declared = declared1, tg_abort = None\<rparr>)"

definition cb_detach :: "string \<Rightarrow> string \<Rightarrow> 'h workers \<Rightarrow> 'h workers" where
  "cb_detach token agent = on_routes token (bt_remove agent)"

text \<open>The first hard failure ends the completion, unless it is gone; later ones change nothing.\<close>

definition routes_abort :: "string \<Rightarrow> string \<Rightarrow> 'h routes \<Rightarrow> 'h routes" where
  "routes_abort agent reason rs =
     (case bt_get rs agent of
        None \<Rightarrow> rs
      | Some t \<Rightarrow> if tg_abort t = None then bt_insert agent (t\<lparr>tg_abort := Some reason\<rparr>) rs else rs)"

text \<open>What \<open>Route::aborted\<close> resolves to.\<close>

definition route_aborted :: "string \<Rightarrow> string \<Rightarrow> 'h workers \<Rightarrow> string option" where
  "route_aborted token agent ws = Option.bind (Option.bind (bt_get ws token) (\<lambda>rs. bt_get rs agent)) tg_abort"

section \<open>Requests and answers\<close>

definition CALL_PATH :: string where "CALL_PATH = ''/sdk.v1.SdkCustomToolCallbackService/CallCustomTool''"
definition MAX_BODY_BYTES :: nat where "MAX_BODY_BYTES = 2 * 1024 * 1024"

record callback_request =
  rq_method :: string
  rq_path :: string
  rq_authorization :: "string option"
  rq_content_type :: "string option"
  rq_body :: bytes
  rq_broken :: "string option"

datatype reply_body = Reply_Json json | Reply_Proto "(string \<times> pkind) list"

record callback_reply =
  rp_status :: nat
  rp_type :: string
  rp_body :: reply_body

definition connect_error :: "nat \<Rightarrow> string \<Rightarrow> string \<Rightarrow> callback_reply" where
  "connect_error status code message =
     \<lparr>rp_status = status, rp_type = ''application/json'',
      rp_body = Reply_Json (JObj (json_collect [(''code'', JStr code), (''message'', JStr message)]))\<rparr>"

datatype codec = Codec_Json | Codec_Proto

record custom_call =
  cc_tool_name :: string
  cc_args :: json
  cc_agent_id :: string

text \<open>The tool's answer: a hard error, a repairable failure, or its output.\<close>

record ('h, 'w) callback_env =
  ce_json :: "bytes \<Rightarrow> string + json"
  ce_proto :: "bytes \<Rightarrow> string + string \<times> (string \<times> pkind) list option \<times> string"
  ce_parse :: "string \<Rightarrow> json option"
  ce_print :: "json \<Rightarrow> string"
  ce_call_tool :: "'h \<Rightarrow> string \<Rightarrow> string \<Rightarrow> 'w \<Rightarrow> (string + (string + string)) \<times> 'w"

definition custom_call_of :: "json \<Rightarrow> custom_call option" where
  "custom_call_of v =
     Option.bind (as_object v) (\<lambda>m.
     Option.bind (de_field m ''toolName'' [] as_str) (\<lambda>tool.
     Option.bind (de_field m ''args'' JNull Some) (\<lambda>arguments.
     Option.bind (de_field m ''agentId'' [] as_str) (\<lambda>agent.
     Some \<lparr>cc_tool_name = tool, cc_args = arguments, cc_agent_id = agent\<rparr>))))"

definition call_decode :: "('h, 'w) callback_env \<Rightarrow> codec \<Rightarrow> bytes \<Rightarrow> string + custom_call" where
  "call_decode env codec body =
     res_map (\<lambda>call. if cc_args call = JNull then call\<lparr>cc_args := JObj []\<rparr> else call)
       (case codec of
          Codec_Json \<Rightarrow>
            (case ce_json env body of
               Inl e \<Rightarrow> Inl (''decoding the JSON callback body: '' @ e)
             | Inr v \<Rightarrow> (case custom_call_of v of
                          None \<Rightarrow> Inl ''decoding the JSON callback body: invalid type''
                        | Some call \<Rightarrow> Inr call))
        | Codec_Proto \<Rightarrow>
            (case ce_proto env body of
               Inl e \<Rightarrow> Inl (''decoding the protobuf callback body: '' @ e)
             | Inr (tool, arguments, agent) \<Rightarrow>
                 Inr \<lparr>cc_tool_name = tool, cc_args = (case arguments of None \<Rightarrow> JNull | Some s \<Rightarrow> struct_to_value s),
                      cc_agent_id = agent\<rparr>))"

text \<open>A result is a JSON object; anything else a tool returned rides under \<open>value\<close>.\<close>

definition wrap_output :: "('h, 'w) callback_env \<Rightarrow> string \<Rightarrow> json" where
  "wrap_output env outp =
     (case ce_parse env outp of
        Some v \<Rightarrow> (case v of JObj m \<Rightarrow> v | _ \<Rightarrow> JObj [(''value'', v)])
      | None \<Rightarrow> JObj [(''value'', JStr outp)])"

definition respond :: "codec \<Rightarrow> json \<Rightarrow> callback_reply" where
  "respond codec res =
     (case codec of
        Codec_Json \<Rightarrow> \<lparr>rp_status = 200, rp_type = ''application/json'', rp_body = Reply_Json (JObj [(''result'', res)])\<rparr>
      | Codec_Proto \<Rightarrow>
          \<lparr>rp_status = 200, rp_type = ''application/proto'',
           rp_body = Reply_Proto (case as_object res of None \<Rightarrow> [] | Some m \<Rightarrow> value_to_struct m)\<rparr>)"

definition undeclared_tool :: "string list \<Rightarrow> string \<Rightarrow> string" where
  "undeclared_tool declared1 name =
     (if declared1 = [] then ticks name @ '' is not declared; this request declares no tools''
      else ticks name @ '' is not declared; the tools are '' @ str_join '', '' (map ticks declared1))"

definition error_object :: "string \<Rightarrow> json" where
  "error_object failure1 = JObj [(''error'', JStr failure1)]"

section \<open>From a request to its answer\<close>

text \<open>
  The world beside the routes is the guests' tool hosts. A call runs without the routes' lock, so
  \<open>between\<close> is what other tasks do to the workers while it runs.
\<close>

definition routes_dispatch ::
    "('h, 'w) callback_env \<Rightarrow> ('h workers \<Rightarrow> 'h workers) \<Rightarrow> string \<Rightarrow> codec \<Rightarrow> custom_call \<Rightarrow> 'h workers \<Rightarrow> 'w \<Rightarrow>
       callback_reply \<times> 'h workers \<times> 'w" where
  "routes_dispatch env between token codec call ws w =
     (case Option.bind (bt_get ws token) (\<lambda>rs. bt_get rs (cc_agent_id call)) of
        None \<Rightarrow> (connect_error 404 ''not_found'' (''no live completion for agent '' @ ticks (cc_agent_id call)), ws, w)
      | Some t \<Rightarrow>
          if cc_tool_name call \<notin> set (tg_declared t) then
            (respond codec (error_object (undeclared_tool (tg_declared t) (cc_tool_name call))), ws, w)
          else
            (case ce_call_tool env (tg_host t) (cc_tool_name call) (ce_print env (cc_args call)) w of
               (Inr (Inr outp), w) \<Rightarrow> (respond codec (wrap_output env outp), between ws, w)
             | (Inr (Inl failure1), w) \<Rightarrow> (respond codec (error_object failure1), between ws, w)
             | (Inl e, w) \<Rightarrow>
                 (let message = ''tool '' @ ticks (cc_tool_name call) @ '' failed: '' @ e
                  in (connect_error 409 ''aborted'' message,
                      on_routes token (routes_abort (cc_agent_id call) message) (between ws), w))))"

definition codec_of :: "string \<Rightarrow> codec option" where
  "codec_of content_type =
     (if str_contains content_type ''json'' then Some Codec_Json
      else if str_contains content_type ''proto'' then Some Codec_Proto
      else None)"

definition routes_call_tool ::
    "('h, 'w) callback_env \<Rightarrow> ('h workers \<Rightarrow> 'h workers) \<Rightarrow> string \<Rightarrow> callback_request \<Rightarrow> 'h workers \<Rightarrow> 'w \<Rightarrow>
       callback_reply \<times> 'h workers \<times> 'w" where
  "routes_call_tool env between token rq ws w =
     (let content_type = (case rq_content_type rq of None \<Rightarrow> [] | Some c \<Rightarrow> c) in
      case codec_of content_type of
        None \<Rightarrow> (connect_error 415 ''unknown'' (''unsupported content type '' @ ticks content_type), ws, w)
      | Some codec \<Rightarrow>
          (case call_decode env codec (rq_body rq) of
             Inl e \<Rightarrow> (connect_error 400 ''invalid_argument'' e, ws, w)
           | Inr call \<Rightarrow> routes_dispatch env between token codec call ws w))"

text \<open>The token of a request's head, when a worker is registered under it.\<close>

definition cb_authorize :: "'h workers \<Rightarrow> callback_request \<Rightarrow> string option" where
  "cb_authorize ws rq =
     Option.bind (rq_authorization rq) (\<lambda>a.
     Option.bind (strip_prefix ''Bearer '' a) (\<lambda>token.
       if bt_get ws token = None then None else Some token))"

definition callback_handle ::
    "('h, 'w) callback_env \<Rightarrow> ('h workers \<Rightarrow> 'h workers) \<Rightarrow> callback_request \<Rightarrow> 'h workers \<Rightarrow> 'w \<Rightarrow>
       callback_reply \<times> 'h workers \<times> 'w" where
  "callback_handle env between rq ws w =
     (if rq_method rq \<noteq> ''POST'' then (connect_error 405 ''unimplemented'' ''POST required'', ws, w)
      else if rq_path rq \<noteq> CALL_PATH then (connect_error 404 ''not_found'' ''unknown callback path'', ws, w)
      else
        (case cb_authorize ws rq of
           None \<Rightarrow> (connect_error 401 ''unauthenticated'' ''bad bearer token'', ws, w)
         | Some token \<Rightarrow>
             if MAX_BODY_BYTES < length (rq_body rq) then
               (connect_error 413 ''invalid_argument'' (''request body exceeds '' @ dec_nat MAX_BODY_BYTES @ '' bytes''), ws, w)
             else
               (case rq_broken rq of
                  Some e \<Rightarrow> (connect_error 400 ''invalid_argument'' (''failed to read the request body: '' @ e), ws, w)
                | None \<Rightarrow> routes_call_tool env between token rq ws w)))"

section \<open>What a request can do\<close>

lemma wrap_output_object: "\<exists>m. wrap_output env outp = JObj m"
  by (auto simp: wrap_output_def split: option.split json.split)

lemma on_routes_other [simp]: "bt_ok ws \<Longrightarrow> other \<noteq> token \<Longrightarrow> bt_get (on_routes token f ws) other = bt_get ws other"
  by (simp add: on_routes_def bt_get_insert split: option.split)

lemma on_routes_same: "bt_get (on_routes token f ws) token = map_option f (bt_get ws token)"
  by (simp add: on_routes_def bt_get_insert split: option.split)

lemma on_routes_ok: "bt_ok ws \<Longrightarrow> bt_ok (on_routes token f ws)"
  by (simp add: on_routes_def bt_ok_insert split: option.split)

text \<open>What the routes may become under a call: as the other tasks left them, or with its route aborted.\<close>

definition call_lands :: "'h workers \<Rightarrow> string \<Rightarrow> string \<Rightarrow> 'h workers \<Rightarrow> bool" where
  "call_lands ws token agent ws' \<longleftrightarrow> ws' = ws \<or> (\<exists>reason. ws' = on_routes token (routes_abort agent reason) ws)"

lemma dispatch_lands:
  assumes "routes_dispatch env between token codec call ws w = (r, ws', w')"
  shows "ws' = ws \<and> w' = w \<or>
     (\<exists>t. Option.bind (bt_get ws token) (\<lambda>rs. bt_get rs (cc_agent_id call)) = Some t \<and> cc_tool_name call \<in> set (tg_declared t) \<and>
        w' = snd (ce_call_tool env (tg_host t) (cc_tool_name call) (ce_print env (cc_args call)) w) \<and>
        call_lands (between ws) token (cc_agent_id call) ws')"
proof (cases "Option.bind (bt_get ws token) (\<lambda>rs. bt_get rs (cc_agent_id call))")
  case None
  with assms show ?thesis by (simp add: routes_dispatch_def)
next
  case (Some t)
  show ?thesis
  proof (cases "cc_tool_name call \<in> set (tg_declared t)")
    case False
    with Some assms show ?thesis by (simp add: routes_dispatch_def)
  next
    case True
    with Some assms show ?thesis
      by (auto simp: routes_dispatch_def call_lands_def Let_def split: prod.split_asm sum.split_asm)
  qed
qed


text \<open>The first hard failure of a route is the reason its completion ends with; a later one is not.\<close>

lemma abort_first: "bt_ok rs \<Longrightarrow> bt_get rs agent = Some t \<Longrightarrow>
    map_option tg_abort (bt_get (routes_abort agent reason rs) agent) = Some (case tg_abort t of None \<Rightarrow> Some reason | Some r \<Rightarrow> Some r)"
  by (auto simp: routes_abort_def bt_get_insert split: option.split)

lemma abort_other: "other \<noteq> agent \<Longrightarrow> bt_get (routes_abort agent reason rs) other = bt_get rs other"
  by (simp add: routes_abort_def bt_get_insert split: option.split)

lemma call_keeps_routes:
  assumes "call_lands ws token agent ws'" and "bt_ok ws" and "(token', agent') \<noteq> (token, agent)"
  shows "Option.bind (bt_get ws' token') (\<lambda>rs. bt_get rs agent') = Option.bind (bt_get ws token') (\<lambda>rs. bt_get rs agent')"
  using assms by (cases "token' = token") (auto simp: call_lands_def on_routes_same abort_other split: bind_splits)

lemma call_keeps_abort:
  assumes "call_lands ws token agent ws'" and "bt_ok ws" and "route_aborted token' agent' ws = Some reason"
  shows "route_aborted token' agent' ws' = Some reason"
proof (cases "(token', agent') = (token, agent)")
  case False
  with call_keeps_routes [OF assms(1,2) this] assms(3) show ?thesis by (simp add: route_aborted_def)
next
  case True
  with assms show ?thesis
    by (auto simp: call_lands_def route_aborted_def on_routes_same routes_abort_def bind_eq_Some_conv)
qed

text \<open>A worker's routes are its own: two workers may choose the same agent id.\<close>

lemma attach_isolated:
  "bt_ok ws \<Longrightarrow> token' \<noteq> token \<Longrightarrow> bt_get (cb_attach token agent host ds ws) token' = bt_get ws token'"
  by (simp add: cb_attach_def)

lemma revoked_unauthorized: "bt_ok ws \<Longrightarrow> rq_authorization rq = Some (''Bearer '' @ token) \<Longrightarrow> cb_authorize (cb_revoke token ws) rq = None"
  by (simp add: cb_authorize_def cb_revoke_def bt_get_remove)

end
