(* ===== verification/Cursor_Pool.thy ===== *)
theory Cursor_Pool
  imports Cursor_Callback
begin

text \<open>
  The pool of workers (\<open>src/crates/cursor/src/pool.rs\<close>): slots behind a fair semaphore, a worker
  for each lease, and the slot and the callback token it holds. The tasks interleave, so the pool is a
  step function on events: what callers, handshakes and exiting processes do. A token's bytes and
  whether a spawn succeeds are part of the event.
\<close>

section \<open>Slots, workers and leases\<close>

definition MAX_PERMITS :: nat where "MAX_PERMITS = 2 ^ 61 - 1"

text \<open>A lease is the caller's side; the process may outlive it, and it the process.\<close>

datatype lease = Handshaking | Leased | Let_Go

record pool_worker =
  pw_token :: string
  pw_lease :: lease
  pw_running :: bool

record 'h pool =
  pl_free :: nat
  pl_queue :: "nat list"
  pl_workers :: "(nat, pool_worker) btree"
  pl_table :: "'h workers"

definition pool_connect :: "nat \<Rightarrow> 'h pool" where
  "pool_connect max_agents = \<lparr>pl_free = min max_agents MAX_PERMITS, pl_queue = [], pl_workers = [], pl_table = []\<rparr>"

text \<open>The token goes with the last of its two holders: the task that waits for the exit, and the lease.\<close>

definition pool_settle :: "nat \<Rightarrow> pool_worker \<Rightarrow> 'h pool \<Rightarrow> 'h pool" where
  "pool_settle n k p =
     (if pw_running k \<or> pw_lease k \<noteq> Let_Go then p\<lparr>pl_workers := bt_insert n k (pl_workers p)\<rparr>
      else p\<lparr>pl_workers := bt_remove n (pl_workers p), pl_table := cb_revoke (pw_token k) (pl_table p)\<rparr>)"

datatype 'h pool_event =
    Ask nat
  | Give_Up nat
  | Spawn_Failed
  | Spawned string
  | Handshaken nat
  | Lease_Over nat
  | Exited nat
  | Attach nat string 'h "string list"
  | Detach nat string

text \<open>
  A caller waits in the queue from \<open>Ask\<close>. The slot goes to the first of it: a registration or a spawn
  that fails gives it straight back. A handshake that fails, a caller that goes and a dropped lease are
  all \<open>Lease_Over\<close>; the slot comes back when the process is gone.
\<close>

fun pool_step :: "'h pool_event \<Rightarrow> 'h pool \<Rightarrow> 'h pool option" where
  "pool_step (Ask n) p =
     (if n \<in> set (pl_queue p) \<or> bt_get (pl_workers p) n \<noteq> None then None else Some (p\<lparr>pl_queue := pl_queue p @ [n]\<rparr>))"
| "pool_step (Give_Up n) p =
     (if n \<in> set (pl_queue p) then Some (p\<lparr>pl_queue := removeAll n (pl_queue p)\<rparr>) else None)"
| "pool_step Spawn_Failed p =
     (case pl_queue p of n # q \<Rightarrow> if 0 < pl_free p then Some (p\<lparr>pl_queue := q\<rparr>) else None | [] \<Rightarrow> None)"
| "pool_step (Spawned token) p =
     (case pl_queue p of
        n # q \<Rightarrow>
          if 0 < pl_free p \<and> bt_get (pl_table p) token = None then
            Some \<lparr>pl_free = pl_free p - 1, pl_queue = q,
              pl_workers = bt_insert n \<lparr>pw_token = token, pw_lease = Handshaking, pw_running = True\<rparr> (pl_workers p),
              pl_table = cb_register token (pl_table p)\<rparr>
          else None
      | [] \<Rightarrow> None)"
| "pool_step (Handshaken n) p =
     (case bt_get (pl_workers p) n of
        Some k \<Rightarrow> if pw_lease k = Handshaking then Some (pool_settle n (k\<lparr>pw_lease := Leased\<rparr>) p) else None
      | None \<Rightarrow> None)"
| "pool_step (Lease_Over n) p =
     (case bt_get (pl_workers p) n of
        Some k \<Rightarrow> if pw_lease k \<noteq> Let_Go then Some (pool_settle n (k\<lparr>pw_lease := Let_Go\<rparr>) p) else None
      | None \<Rightarrow> None)"
| "pool_step (Exited n) p =
     (case bt_get (pl_workers p) n of
        Some k \<Rightarrow>
          if pw_running k then Some (pool_settle n (k\<lparr>pw_running := False\<rparr>) (p\<lparr>pl_free := pl_free p + 1\<rparr>)) else None
      | None \<Rightarrow> None)"
| "pool_step (Attach n agent host declared1) p =
     (case bt_get (pl_workers p) n of
        Some k \<Rightarrow>
          if pw_lease k = Leased then Some (p\<lparr>pl_table := cb_attach (pw_token k) agent host declared1 (pl_table p)\<rparr>) else None
      | None \<Rightarrow> None)"
| "pool_step (Detach n agent) p =
     (case bt_get (pl_workers p) n of
        Some k \<Rightarrow>
          if pw_lease k = Leased then Some (p\<lparr>pl_table := cb_detach (pw_token k) agent (pl_table p)\<rparr>) else None
      | None \<Rightarrow> None)"

fun pool_run :: "'h pool_event list \<Rightarrow> 'h pool \<Rightarrow> 'h pool option" where
  "pool_run [] p = Some p"
| "pool_run (e # es) p = Option.bind (pool_step e p) (pool_run es)"

section \<open>The invariant\<close>

text \<open>The workers and the table: who is there is held, and a token is its worker's alone.\<close>

definition workers_ok :: "(nat, pool_worker) btree \<Rightarrow> 'h workers \<Rightarrow> bool" where
  "workers_ok ws table \<longleftrightarrow>
     bt_ok ws \<and> bt_ok table \<and>
     (\<forall>n k. bt_get ws n = Some k \<longrightarrow> (pw_running k \<or> pw_lease k \<noteq> Let_Go) \<and> bt_get table (pw_token k) \<noteq> None) \<and>
     (\<forall>t. bt_get table t \<noteq> None \<longrightarrow> (\<exists>n k. bt_get ws n = Some k \<and> pw_token k = t)) \<and>
     (\<forall>n n' k k'. bt_get ws n = Some k \<longrightarrow> bt_get ws n' = Some k' \<longrightarrow> pw_token k = pw_token k' \<longrightarrow> n = n')"

definition pool_ok :: "nat \<Rightarrow> 'h pool \<Rightarrow> bool" where
  "pool_ok slots p \<longleftrightarrow>
     pl_free p + bt_count pw_running (pl_workers p) = slots \<and> workers_ok (pl_workers p) (pl_table p) \<and>
     distinct (pl_queue p) \<and> (\<forall>n \<in> set (pl_queue p). bt_get (pl_workers p) n = None)"

lemma workers_okD:
  assumes "workers_ok ws table"
  shows "bt_ok ws" and "bt_ok table" and "bt_get ws n = Some k \<Longrightarrow> pw_running k \<or> pw_lease k \<noteq> Let_Go"
    and "bt_get ws n = Some k \<Longrightarrow> bt_get table (pw_token k) \<noteq> None"
    and "bt_get table t \<noteq> None \<Longrightarrow> \<exists>n k. bt_get ws n = Some k \<and> pw_token k = t"
    and "bt_get ws n = Some k \<Longrightarrow> bt_get ws n' = Some k' \<Longrightarrow> pw_token k = pw_token k' \<Longrightarrow> n = n'"
  using assms unfolding workers_ok_def by blast+

lemma workers_ok_spawn:
  assumes ok: "workers_ok ws table" and fresh: "bt_get table token = None" "bt_get ws n = None"
  shows "workers_ok (bt_insert n \<lparr>pw_token = token, pw_lease = Handshaking, pw_running = True\<rparr> ws) (cb_register token table)"
proof -
  note d = workers_okD [OF ok]
  have other: "pw_token k \<noteq> token" if "bt_get ws m = Some k" for m k using d(4) [OF that] fresh(1) by auto
  have new: "m = n \<and> pw_token k = token \<or> m \<noteq> n \<and> bt_get ws m = Some k"
    if "((map_of ws)(n \<mapsto> \<lparr>pw_token = token, pw_lease = Handshaking, pw_running = True\<rparr>)) m = Some k" for m k
    using that by (cases "m = n") auto
  show ?thesis
    unfolding workers_ok_def cb_register_def bt_get_insert
  proof (intro conjI allI impI)
    fix t assume t: "((map_of table)(token \<mapsto> [])) t \<noteq> None"
    show "\<exists>m k. ((map_of ws)(n \<mapsto> \<lparr>pw_token = token, pw_lease = Handshaking, pw_running = True\<rparr>)) m = Some k \<and> pw_token k = t"
    proof (cases "t = token")
      case False
      with t have "bt_get table t \<noteq> None" by simp
      with d(5) obtain m k where "bt_get ws m = Some k" "pw_token k = t" by blast
      with fresh(2) show ?thesis by (intro exI [of _ m] exI [of _ k]) auto
    qed (intro exI [of _ n], simp)
  next
    fix a b j j'
    assume "((map_of ws)(n \<mapsto> \<lparr>pw_token = token, pw_lease = Handshaking, pw_running = True\<rparr>)) a = Some j"
      "((map_of ws)(n \<mapsto> \<lparr>pw_token = token, pw_lease = Handshaking, pw_running = True\<rparr>)) b = Some j'" "pw_token j = pw_token j'"
    with new [of a j] new [of b j'] show "a = b" using d(6) [of a j b j'] other [of a j] other [of b j'] by metis
  next
    fix m k assume m: "((map_of ws)(n \<mapsto> \<lparr>pw_token = token, pw_lease = Handshaking, pw_running = True\<rparr>)) m = Some k"
    show "pw_running k \<or> pw_lease k \<noteq> Let_Go" using m d(3) [of m k] by (auto split: if_split_asm)
    show "((map_of table)(token \<mapsto> [])) (pw_token k) \<noteq> None" using m d(4) [of m k] by (auto split: if_split_asm)
  qed (use d(1,2) in \<open>simp_all add: bt_ok_insert\<close>)
qed

lemma workers_ok_update:
  assumes ok: "workers_ok ws table" and k: "bt_get ws n = Some k" "pw_token k' = pw_token k"
    and held: "pw_running k' \<or> pw_lease k' \<noteq> Let_Go"
  shows "workers_ok (bt_insert n k' ws) table"
proof -
  note d = workers_okD [OF ok]
  show ?thesis
    unfolding workers_ok_def bt_get_insert
  proof (intro conjI allI impI)
    fix t assume "bt_get table t \<noteq> None"
    then obtain m j where m: "bt_get ws m = Some j" "pw_token j = t" using d(5) by blast
    then show "\<exists>m k. ((map_of ws)(n \<mapsto> k')) m = Some k \<and> pw_token k = t"
      using k by (cases "m = n") auto
  next
    fix a b j j' assume "((map_of ws)(n \<mapsto> k')) a = Some j" "((map_of ws)(n \<mapsto> k')) b = Some j'" "pw_token j = pw_token j'"
    then show "a = b" using d(6) k by (auto split: if_split_asm)
  qed (use d k held in \<open>auto simp: bt_ok_insert split: if_split_asm\<close>)
qed

lemma workers_ok_gone:
  assumes ok: "workers_ok ws table" and k: "bt_get ws n = Some k"
  shows "workers_ok (bt_remove n ws) (cb_revoke (pw_token k) table)"
proof -
  note d = workers_okD [OF ok]
  have other: "pw_token j \<noteq> pw_token k" if "bt_get ws m = Some j" "m \<noteq> n" for m j using d(6) [OF that(1) k] that(2) by auto
  show ?thesis
    unfolding workers_ok_def cb_revoke_def bt_get_remove [OF d(1)] bt_get_remove [OF d(2)]
  proof (intro conjI allI impI)
    fix t assume "((map_of table)(pw_token k := None)) t \<noteq> None"
    then have "t \<noteq> pw_token k" "bt_get table t \<noteq> None" by (auto split: if_split_asm)
    with d(5) obtain m j where "bt_get ws m = Some j" "pw_token j = t" by blast
    with \<open>t \<noteq> pw_token k\<close> k show "\<exists>m j. ((map_of ws)(n := None)) m = Some j \<and> pw_token j = t" by (cases "m = n") auto
  next
    fix a b j j' assume "((map_of ws)(n := None)) a = Some j" "((map_of ws)(n := None)) b = Some j'" "pw_token j = pw_token j'"
    then show "a = b" using d(6) by (auto split: if_split_asm)
  qed (use d other in \<open>auto simp: bt_ok_remove split: if_split_asm\<close>)
qed

lemma on_routes_keeps_tokens: "bt_ok table \<Longrightarrow> bt_get (on_routes token f table) t = None \<longleftrightarrow> bt_get table t = None"
  by (cases "t = token") (auto simp: on_routes_same)

lemma workers_ok_routes: "workers_ok ws table \<Longrightarrow> workers_ok ws (on_routes token f table)"
  unfolding workers_ok_def by (simp add: on_routes_keeps_tokens on_routes_ok del: not_None_eq)

lemma pool_ok_settle:
  assumes ok: "workers_ok (pl_workers p) (pl_table p)" and k: "bt_get (pl_workers p) n = Some k" "pw_token k' = pw_token k"
    and slots: "pl_free p + bt_count pw_running (pl_workers p) + of_bool (pw_running k') = slots + of_bool (pw_running k)"
    and queue: "distinct (pl_queue p)" "\<forall>n \<in> set (pl_queue p). bt_get (pl_workers p) n = None"
  shows "pool_ok slots (pool_settle n k' p)"
proof (cases "pw_running k' \<or> pw_lease k' \<noteq> Let_Go")
  case True
  with True workers_ok_update [OF ok k True] bt_count_update [OF workers_okD(1) [OF ok] k(1), of pw_running k'] slots queue k(1) show ?thesis
    by (auto simp: pool_settle_def pool_ok_def bt_get_insert)
next
  case False
  from workers_ok_gone [OF ok k(1)] False bt_count_remove [OF workers_okD(1) [OF ok] k(1), of pw_running] slots queue k(2)
  show ?thesis by (simp add: pool_settle_def pool_ok_def bt_get_remove [OF workers_okD(1) [OF ok]])
qed

lemma pool_ok_step:
  assumes ok: "pool_ok slots p" and step: "pool_step e p = Some p'"
  shows "pool_ok slots p'"
proof -
  from ok have o: "workers_ok (pl_workers p) (pl_table p)" "pl_free p + bt_count pw_running (pl_workers p) = slots"
    "distinct (pl_queue p)" "\<forall>n \<in> set (pl_queue p). bt_get (pl_workers p) n = None"
    by (simp_all add: pool_ok_def)
  show ?thesis
  proof (cases e)
    case (Ask n)
    with step o show ?thesis by (auto simp: pool_ok_def simp del: map_of_eq_None_iff split: if_split_asm)
  next
    case (Give_Up n)
    with step o show ?thesis by (auto simp: pool_ok_def distinct_removeAll split: if_split_asm)
  next
    case Spawn_Failed
    with step o show ?thesis by (auto simp: pool_ok_def split: list.split_asm if_split_asm)
  next
    case (Spawned token)
    with step obtain n q where q: "pl_queue p = n # q" "0 < pl_free p" "bt_get (pl_table p) token = None"
      and p': "p' = \<lparr>pl_free = pl_free p - 1, pl_queue = q,
              pl_workers = bt_insert n \<lparr>pw_token = token, pw_lease = Handshaking, pw_running = True\<rparr> (pl_workers p),
              pl_table = cb_register token (pl_table p)\<rparr>"
      by (auto split: list.split_asm if_split_asm)
    from q(1) o(4) have n: "bt_get (pl_workers p) n = None" by simp
    from workers_ok_spawn [OF o(1) q(3) n] bt_count_new [OF n, of pw_running] q o p' show ?thesis
      by (simp add: pool_ok_def bt_get_insert) blast
  next
    case (Handshaken n)
    with step obtain k where k: "bt_get (pl_workers p) n = Some k" "p' = pool_settle n (k\<lparr>pw_lease := Leased\<rparr>) p"
      by (auto split: option.split_asm if_split_asm)
    from pool_ok_settle [OF o(1) k(1), of "k\<lparr>pw_lease := Leased\<rparr>" slots] o k(2) show ?thesis by simp
  next
    case (Lease_Over n)
    with step obtain k where k: "bt_get (pl_workers p) n = Some k" "p' = pool_settle n (k\<lparr>pw_lease := Let_Go\<rparr>) p"
      by (auto split: option.split_asm if_split_asm)
    from pool_ok_settle [OF o(1) k(1), of "k\<lparr>pw_lease := Let_Go\<rparr>" slots] o k(2) show ?thesis by simp
  next
    case (Exited n)
    with step obtain k where k: "bt_get (pl_workers p) n = Some k" "pw_running k"
      "p' = pool_settle n (k\<lparr>pw_running := False\<rparr>) (p\<lparr>pl_free := pl_free p + 1\<rparr>)"
      by (auto split: option.split_asm if_split_asm)
    from pool_ok_settle [of "p\<lparr>pl_free := pl_free p + 1\<rparr>" n k "k\<lparr>pw_running := False\<rparr>" slots] o k show ?thesis by simp
  next
    case (Attach n agent host ds)
    with step o show ?thesis
      by (auto simp: pool_ok_def cb_attach_def workers_ok_routes split: option.split_asm if_split_asm)
  next
    case (Detach n agent)
    with step o show ?thesis
      by (auto simp: pool_ok_def cb_detach_def workers_ok_routes split: option.split_asm if_split_asm)
  qed
qed

lemma pool_ok_run: "pool_ok slots p \<Longrightarrow> pool_run es p = Some p' \<Longrightarrow> pool_ok slots p'"
  by (induction es arbitrary: p) (auto simp: bind_eq_Some_conv dest: pool_ok_step)

lemma pool_ok_connect: "pool_ok (min m MAX_PERMITS) (pool_connect m)"
  by (simp add: pool_ok_def pool_connect_def workers_ok_def)

text \<open>
  C33. Whatever callers, handshakes and processes do and in whatever order, the free slots and the
  running workers always add up to the agents configured, and a callback token is honoured exactly while
  the worker it was made for runs or its lease is held.
\<close>

theorem pool_slots_held:
  assumes "pool_run es (pool_connect max_agents) = Some p"
  shows "pl_free p + bt_count pw_running (pl_workers p) = min max_agents MAX_PERMITS \<and>
    (\<forall>t. bt_get (pl_table p) t \<noteq> None \<longleftrightarrow>
      (\<exists>n k. bt_get (pl_workers p) n = Some k \<and> pw_token k = t \<and> (pw_running k \<or> pw_lease k \<noteq> Let_Go)))"
proof -
  from pool_ok_run [OF pool_ok_connect assms]
  have ok: "workers_ok (pl_workers p) (pl_table p)"
    and slots: "pl_free p + bt_count pw_running (pl_workers p) = min max_agents MAX_PERMITS"
    by (simp_all add: pool_ok_def)
  note d = workers_okD [OF ok]
  have "bt_get (pl_table p) t \<noteq> None \<longleftrightarrow>
      (\<exists>n k. bt_get (pl_workers p) n = Some k \<and> pw_token k = t \<and> (pw_running k \<or> pw_lease k \<noteq> Let_Go))" for t
    using d(3,4,5) by blast
  with slots show ?thesis by blast
qed

theorem pool_slots_held_witness:
  "\<exists>p :: unit pool. pool_run [Ask 1, Ask 2, Spawned ''a'', Handshaken 1, Attach 1 ''x'' () [], Lease_Over 1, Exited 1, Spawned ''b''] (pool_connect 1) = Some p \<and>
     pl_free p + bt_count pw_running (pl_workers p) = 1 \<and> bt_get (pl_table p) ''a'' = None \<and> bt_get (pl_table p) ''b'' \<noteq> None"
proof -
  let ?p = "\<lparr>pl_free = 0, pl_queue = [], pl_workers = [(2, \<lparr>pw_token = ''b'', pw_lease = Handshaking, pw_running = True\<rparr>)],
    pl_table = [(''b'', [])]\<rparr> :: unit pool"
  have r: "pool_run [Ask 1, Ask 2, Spawned ''a'', Handshaken 1, Attach 1 ''x'' () [], Lease_Over 1, Exited 1, Spawned ''b''] (pool_connect 1) = Some ?p"
    by (simp add: pool_connect_def MAX_PERMITS_def pool_settle_def cb_register_def cb_revoke_def cb_attach_def on_routes_def)
  from pool_slots_held [OF r] show ?thesis
    by (intro exI [of _ ?p] conjI r) (auto simp: MAX_PERMITS_def)
qed

section \<open>Order and progress\<close>

text \<open>A slot goes to the first caller waiting, and one is free once no worker runs.\<close>

lemma slot_to_first:
  "pool_step (Spawned token) p = Some p' \<Longrightarrow> \<exists>n q. pl_queue p = n # q \<and> pl_queue p' = q \<and> bt_get (pl_workers p') n \<noteq> None"
  by (auto simp: bt_get_insert split: list.split_asm if_split_asm)

lemma waiting_gets_slot:
  assumes "pool_ok slots p" and "0 < slots" and "pl_queue p \<noteq> []" and "bt_count pw_running (pl_workers p) = 0"
    and "bt_get (pl_table p) token = None"
  shows "\<exists>p'. pool_step (Spawned token) p = Some p'"
  using assms by (cases "pl_queue p") (auto simp: pool_ok_def)

end
