(* ===== verification/Cursor_Worker.thy ===== *)
theory Cursor_Worker
  imports Cursor_Frames Sandbox_Grant Sandbox_Proxy
begin

text \<open>
  Starting a worker (\<open>src/crates/cursor/src/worker.rs\<close>) and reading its ready line
  (\<open>worker/discovery.rs\<close>): the command and its environment over the session's, what the line may
  say, the address and token it leads to, and the handshake under its bounds and the process's exit.
\<close>

section \<open>The command\<close>

definition WORKER_INHERIT :: "string list" where
  "WORKER_INHERIT =
     [''SHELL'', ''USER'', ''LOGNAME'', ''CURSOR_WEBSITE_URL'', ''CURSOR_DATA_DIR'', ''CURSOR_RIPGREP_PATH'',
      ''CURSOR_TREE_SITTER_VENDOR_DIR'', ''CURSOR_SDK_BRIDGE_LOG'', ''CURSOR_SDK_BRIDGE_DEBUG_STARTUP'',
      ''SSL_CERT_FILE'', ''SSL_CERT_DIR'', ''NODE_EXTRA_CA_CERTS'']"

definition WORKER_REFUSED :: "string list" where "WORKER_REFUSED = [''CURSOR_API_KEY'', ''CURSOR_BACKEND_URL'']"

definition READY_WAIT :: nat where "READY_WAIT = 30"
definition CONNECT_WAIT :: nat where "CONNECT_WAIT = 10"
definition READY_PREFIX :: string where "READY_PREFIX = ''cursor-sdk-bridge ready ''"

record worker_command =
  wc_program :: string
  wc_args :: "string list"
  wc_env :: "(string, string) btree"
  wc_cwd :: string
  wc_ready :: string

definition worker_command_of :: "host_fs \<Rightarrow> string \<Rightarrow> string \<Rightarrow> string \<Rightarrow> session \<Rightarrow> sandbox_error + worker_command" where
  "worker_command_of fs callback_url token relay s =
     res_map (\<lambda>program.
       \<lparr>wc_program = program,
        wc_args = [''--state-root'', ss_scratch s, ''--tool-callback-url'', callback_url, ''--tool-callback-auth-token'', token],
        wc_env = bt_insert ''CURSOR_BACKEND_URL'' relay (bt_insert ''CURSOR_SDK_CLIENT_LANGUAGE'' ''rust'' (ss_env s)),
        wc_cwd = ss_cwd s, wc_ready = READY_PREFIX\<rparr>)
     (session_program fs s ''cursor-sdk-bridge'')"

section \<open>The ready line\<close>

text \<open>The version, transport and protocol have one value each, which an absent field stands for.\<close>

record discovery =
  di_url :: "string option"
  di_host :: "string option"
  di_port :: "nat option"
  di_auth_token :: "string option"
  di_auth_token_file :: "string option"

definition de_u16 :: "json \<Rightarrow> nat option" where
  "de_u16 v = (case v of JNum (Pos_Int n) \<Rightarrow> if n < 65536 then Some n else None | _ \<Rightarrow> None)"

definition de_only :: "json \<Rightarrow> json \<Rightarrow> unit option" where
  "de_only x v = (if v = x then Some () else None)"

definition discovery_of :: "json \<Rightarrow> discovery option" where
  "discovery_of v =
     Option.bind (as_object v) (\<lambda>m.
     Option.bind (de_field m ''schemaVersion'' () (de_only (JNum (Pos_Int 1)))) (\<lambda>_.
     Option.bind (de_field m ''url'' None (de_option as_str)) (\<lambda>url.
     Option.bind (de_field m ''host'' None (de_option as_str)) (\<lambda>host.
     Option.bind (de_field m ''port'' None (de_option de_u16)) (\<lambda>port.
     Option.bind (de_field m ''authToken'' None (de_option as_str)) (\<lambda>token.
     Option.bind (de_field m ''authTokenFile'' None (de_option as_str)) (\<lambda>file.
     Option.bind (de_field m ''transport'' () (de_only (JStr ''tcp''))) (\<lambda>_.
     Option.bind (de_field m ''protocol'' () (de_only (JStr ''connect''))) (\<lambda>_.
     Some \<lparr>di_url = url, di_host = host, di_port = port, di_auth_token = token, di_auth_token_file = file\<rparr>)))))))))"

definition discovery_parse :: "(string \<Rightarrow> json option) \<Rightarrow> string \<Rightarrow> string + discovery" where
  "discovery_parse parse payload =
     (case Option.bind (parse payload) discovery_of of None \<Rightarrow> Inl ''parsing discovery payload'' | Some d \<Rightarrow> Inr d)"

definition trim_end_slash :: "string \<Rightarrow> string" where
  "trim_end_slash s = rev (dropWhile (\<lambda>c. c = CHR ''/'') (rev s))"

text \<open>A host in brackets is taken out of them, and an IPv6 address put back; \<open>ip_text\<close> is its printing.\<close>

definition worker_base_url :: "(ip \<Rightarrow> string) \<Rightarrow> discovery \<Rightarrow> string + string" where
  "worker_base_url ip_text d =
     (case di_url d of
        Some url \<Rightarrow> Inr (trim_end_slash url)
      | None \<Rightarrow>
          (case (di_host d, di_port d) of
             (Some host, Some port) \<Rightarrow>
               (let host = (case Option.bind (strip_prefix ''['' host) (strip_suffix '']'') of Some h \<Rightarrow> h | None \<Rightarrow> host);
                    bracketed = (\<lambda>h. ''http://['' @ h @ '']:'' @ dec_nat port);
                    plain = (\<lambda>h. ''http://'' @ h @ '':'' @ dec_nat port)
                in Inr (case parse_ip host of
                     Some (V6 a) \<Rightarrow> bracketed (ip_text (V6 a))
                   | Some (V4 a) \<Rightarrow> plain (ip_text (V4 a))
                   | None \<Rightarrow> if CHR '':'' \<in> set host then bracketed host else plain host))
           | _ \<Rightarrow> Inl ''discovery payload carries neither a url nor host and port''))"

text \<open>A step races its bound and the process's exit.\<close>

datatype 'a raced = Ran "cursor_error + 'a" | Elapsed | Gone exit

definition discovery_token :: "(string \<Rightarrow> 'w \<Rightarrow> (string + string) raced \<times> 'w) \<Rightarrow> discovery \<Rightarrow> 'w \<Rightarrow> string raced \<times> 'w" where
  "discovery_token read_file d w =
     (case di_auth_token d of
        Some token \<Rightarrow> (Ran (Inr token), w)
      | None \<Rightarrow>
          (case di_auth_token_file d of
             None \<Rightarrow> (Ran (Inl (Cu_Other ''discovery payload carries no auth token or token file'')), w)
           | Some path \<Rightarrow>
               (case read_file path w of
                  (r, w) \<Rightarrow>
                    (case r of
                       Ran (Inl e) \<Rightarrow> Ran (Inl e)
                     | Ran (Inr (Inl e)) \<Rightarrow> Ran (Inl (Cu_Other (''reading token file '' @ path @ '': '' @ e)))
                     | Ran (Inr (Inr token)) \<Rightarrow> Ran (Inr (str_trim token))
                     | Elapsed \<Rightarrow> Elapsed
                     | Gone x \<Rightarrow> Gone x, w))))"

section \<open>The handshake\<close>

definition in_handshake :: "cursor_error \<Rightarrow> cursor_error" where
  "in_handshake e = (case e of Cu_Other s \<Rightarrow> Cu_Other (''cursor sdk handshake failed: '' @ s) | _ \<Rightarrow> e)"

definition handshake_step :: "string \<Rightarrow> nat \<Rightarrow> 'a raced \<Rightarrow> cursor_error + 'a" where
  "handshake_step missing bound r =
     (case r of
        Ran (Inr a) \<Rightarrow> Inr a
      | Ran (Inl e) \<Rightarrow> Inl (in_handshake e)
      | Elapsed \<Rightarrow> Inl (in_handshake (Cu_Other (missing @ '' within '' @ dec_nat bound @ ''s'')))
      | Gone x \<Rightarrow> Inl (Cu_Failure (Fail_Worker_Exited x)))"

record ('r, 'w) worker_env =
  we_parse :: "string \<Rightarrow> json option"
  we_ip_text :: "ip \<Rightarrow> string"
  we_ready :: "'w \<Rightarrow> string option raced \<times> 'w"
  we_read_file :: "string \<Rightarrow> 'w \<Rightarrow> (string + string) raced \<times> 'w"
  we_connect :: "string \<Rightarrow> string \<Rightarrow> 'w \<Rightarrow> 'r raced \<times> 'w"

definition ready_payload :: "(string \<Rightarrow> json option) \<Rightarrow> string option \<Rightarrow> cursor_error + discovery" where
  "ready_payload parse line =
     (case line of
        None \<Rightarrow> Inl (Cu_Other ''the stderr reader ended without a ready line'')
      | Some payload \<Rightarrow> (case discovery_parse parse payload of Inl e \<Rightarrow> Inl (Cu_Other e) | Inr d \<Rightarrow> Inr d))"

definition worker_handshake :: "('r, 'w) worker_env \<Rightarrow> 'w \<Rightarrow> (cursor_error + 'r) \<times> 'w" where
  "worker_handshake env w =
     (case we_ready env w of
        (ready, w) \<Rightarrow>
          (let scanned = (case ready of
                 Ran (Inr line) \<Rightarrow> Ran (ready_payload (we_parse env) line)
               | Ran (Inl e) \<Rightarrow> Ran (Inl e) | Elapsed \<Rightarrow> Elapsed | Gone x \<Rightarrow> Gone x)
           in case handshake_step ''no ready line'' READY_WAIT scanned of
             Inl e \<Rightarrow> (Inl e, w)
           | Inr d \<Rightarrow>
               (case worker_base_url (we_ip_text env) d of
                  Inl e \<Rightarrow> (Inl (in_handshake (Cu_Other e)), w)
                | Inr url \<Rightarrow>
                    (case discovery_token (we_read_file env) d w of
                       (token, w) \<Rightarrow>
                         (case handshake_step ''no answer to the sdk.v1 handshake'' CONNECT_WAIT token of
                            Inl e \<Rightarrow> (Inl e, w)
                          | Inr token \<Rightarrow>
                              (case we_connect env url token w of
                                 (r, w) \<Rightarrow> (handshake_step ''no answer to the sdk.v1 handshake'' CONNECT_WAIT r, w)))))))"

section \<open>What a worker is started with\<close>

text \<open>
  A worker never has the host's Cursor key in its environment, whatever the host's variables and
  the grant are, and the backend it is pointed at is the relay; its two callback arguments are the
  registration's.
\<close>

theorem worker_without_key:
  "case sandbox_connect fs0 vars home_var probed
     \<lparr>so_shell_roots = roots, so_inherit = WORKER_INHERIT, so_refused = WORKER_REFUSED\<rparr> of
     Inl e \<Rightarrow> True
   | Inr sb \<Rightarrow>
       (case session_prepare fs scratch_dir bind_proxy sb workspace g of
          Inl e \<Rightarrow> True
        | Inr s \<Rightarrow>
            (case worker_command_of fs callback_url token relay s of
               Inl e \<Rightarrow> True
             | Inr c \<Rightarrow>
                 bt_get (wc_env c) ''CURSOR_API_KEY'' = None \<and> bt_get (wc_env c) ''CURSOR_BACKEND_URL'' = Some relay \<and>
                 wc_cwd c = ss_cwd s \<and> [callback_url, token] = [wc_args c ! 3, wc_args c ! 5]))"
proof (cases "sandbox_connect fs0 vars home_var probed \<lparr>so_shell_roots = roots, so_inherit = WORKER_INHERIT, so_refused = WORKER_REFUSED\<rparr>")
  case sb: (Inr sb)
  note c = connect_facts [OF sb]
  show ?thesis
  proof (cases "session_prepare fs scratch_dir bind_proxy sb workspace g")
    case s: (Inr s)
    then obtain scratch proxy where env: "sandbox_env sb scratch proxy (gt_env g) = Inr (ss_env s)"
      by (auto simp: session_prepare_def res_bind_Inr_iff res_map_Inr_iff)
    have "bt_get (ss_env s) ''CURSOR_API_KEY'' = None"
    proof (rule ccontr)
      assume "bt_get (ss_env s) ''CURSOR_API_KEY'' \<noteq> None"
      then obtain v where v: "bt_get (ss_env s) ''CURSOR_API_KEY'' = Some v" by blast
      have "''CURSOR_API_KEY'' \<notin> set own_names" by code_simp
      moreover have "\<not> inherits ''CURSOR_API_KEY'' WORKER_INHERIT"
        by (simp add: inherits_def INHERITED_def WORKER_INHERIT_def starts_with_def)
      moreover have "reserved ''CURSOR_API_KEY'' WORKER_REFUSED \<noteq> None"
        by (simp add: reserved_def WORKER_REFUSED_def)
      ultimately show False using sandbox_env_other [OF c(4) env v] c(2) c(5) [of "''CURSOR_API_KEY''" v] by auto
    qed
    then show ?thesis using sb s
      by (auto simp: worker_command_of_def bt_get_insert res_map_def split: sum.split)
  qed (simp add: sb)
qed simp

text \<open>A handshake connects only with the address and token its own ready line led to.\<close>

lemma handshake_connects:
  assumes "worker_handshake env w = (Inr r, w')"
  shows "\<exists>line d url token w1 w2. we_ready env w = (Ran (Inr (Some line)), w1) \<and> discovery_parse (we_parse env) line = Inr d \<and>
     worker_base_url (we_ip_text env) d = Inr url \<and> discovery_token (we_read_file env) d w1 = (Ran (Inr token), w2) \<and>
     we_connect env url token w2 = (Ran (Inr r), w')"
  using assms
  by (auto simp: worker_handshake_def Let_def handshake_step_def ready_payload_def
      split: prod.split_asm sum.split_asm raced.split_asm option.split_asm)

end
