(* ===== verification/Cursor_Client.thy ===== *)
theory Cursor_Client
  imports Cursor_Complete Sandbox_Grant
begin

text \<open>
  From a host's request to a leased worker (\<open>src/crates/cursor/src/model.rs\<close>,
  \<open>model/options.rs\<close>, \<open>lib.rs\<close>): the client's options, the session prepared in the
  sandbox, the turn with its agent's options and prompt, and the order of staging. The sandbox is the
  one of \<open>Sandbox_Grant\<close>; the pool's wait for a slot and the worker's handshake are a parameter.
\<close>

section \<open>Requests\<close>

datatype cu_tool = Cu_Function string string string | Cu_Mcp string string "string list"

text \<open>A worker grant is what the sandbox takes one as; the prompt is the request as the host renders it.\<close>

record cu_request =
  cr_model :: "string option"
  cr_tools :: "cu_tool list"
  cr_format :: cu_format
  cr_check :: bool
  cr_worker :: "grant option"
  cr_prompt :: string

definition mcp_servers :: "cu_request \<Rightarrow> (string \<times> string list) list" where
  "mcp_servers r = List.map_filter (\<lambda>t. case t of Cu_Mcp name _ tools \<Rightarrow> Some (name, tools) | _ \<Rightarrow> None) (cr_tools r)"

section \<open>The agent's options\<close>

record agent_options =
  ao_model :: string
  ao_api_key :: string
  ao_cwd :: "string list"
  ao_source :: "string option"
  ao_custom_tools :: "(string, string option \<times> json) btree"
  ao_mcp_servers :: "(string, string) btree"
  ao_tools :: "string list"

text \<open>The agent's tools for what it may do in its working directory.\<close>

fun access_tools :: "session_access \<Rightarrow> string list" where
  "access_tools Private_Dir = []"
| "access_tools Lent_Read = [''glob'', ''grep'', ''ls'', ''mcp'', ''read'']"
| "access_tools Lent_Shell = [''glob'', ''grep'', ''ls'', ''mcp'', ''read'', ''shell'']"

definition access_lent :: "session_access \<Rightarrow> bool" where
  "access_lent a \<longleftrightarrow> a \<noteq> Private_Dir"

fun declare_tools ::
    "(string \<Rightarrow> json option) \<Rightarrow> cu_tool list \<Rightarrow> (string, string option \<times> json) btree \<times> (string, string) btree \<Rightarrow>
       cursor_error + (string, string option \<times> json) btree \<times> (string, string) btree" where
  "declare_tools parse [] acc = Inr acc"
| "declare_tools parse (Cu_Function name description parameters # ts) (custom, mcp) =
     (case parse parameters of
        None \<Rightarrow> Inl (Cu_Other (''function tool '' @ ticks name @ '' parameters is not valid JSON''))
      | Some schema \<Rightarrow>
          declare_tools parse ts (bt_insert name (if description = [] then None else Some description, schema) custom, mcp))"
| "declare_tools parse (Cu_Mcp name url _ # ts) (custom, mcp) = declare_tools parse ts (custom, bt_insert name url mcp)"

definition agent_options_of ::
    "(string \<Rightarrow> json option) \<Rightarrow> cu_request \<Rightarrow> string \<Rightarrow> session_access \<Rightarrow> string \<Rightarrow> string \<Rightarrow> cursor_error + agent_options" where
  "agent_options_of parse r cwd a default_model api_key =
     res_map (\<lambda>(custom, mcp).
       \<lparr>ao_model = (case cr_model r of None \<Rightarrow> default_model | Some m \<Rightarrow> m), ao_api_key = api_key, ao_cwd = [cwd],
        ao_source = (if access_lent a then Some ''SETTING_SOURCE_PROJECT'' else None),
        ao_custom_tools = custom, ao_mcp_servers = mcp, ao_tools = access_tools a\<rparr>)
     (declare_tools parse (cr_tools r) ([], []))"

definition mcp_line :: "string \<times> string list \<Rightarrow> string" where
  "mcp_line s =
     (if snd s = [] then ''- '' @ ticks (fst s) else ''- '' @ ticks (fst s) @ '' (use only: '' @ str_join '', '' (snd s) @ '')'')"

definition with_mcp_hint :: "(string \<times> string list) list \<Rightarrow> string \<Rightarrow> string" where
  "with_mcp_hint servers prompt =
     (if servers = [] then prompt
      else ''The following read-only MCP servers are available. Consult their tools and resources for authoritative reference material before answering, and prefer that material over assumptions:'' @
        ''\<newline>'' @ str_join ''\<newline>'' (map mcp_line servers) @ ''\<newline>\<newline>'' @ prompt)"

text \<open>The agent to create, the pin every later call on it repeats, and the prompt to send it.\<close>

record agent_turn =
  tn_options :: agent_options
  tn_cwd :: string
  tn_api_key :: string
  tn_prompt :: cu_prompt

definition turn_prepare ::
    "(string \<Rightarrow> json option) \<Rightarrow> cu_request \<Rightarrow> session \<Rightarrow> string \<Rightarrow> string \<Rightarrow> cursor_error + agent_turn" where
  "turn_prepare parse r s default_model api_key =
     (if \<not> utf8_valid (ss_cwd s) then Inl (Cu_Other (''working directory '' @ ss_cwd s @ '' is not UTF-8''))
      else res_map (\<lambda>options.
        \<lparr>tn_options = options, tn_cwd = ss_cwd s, tn_api_key = api_key,
         tn_prompt = \<lparr>pr_text = with_mcp_hint (mcp_servers r) (cr_prompt r), pr_format = cr_format r, pr_check = cr_check r\<rparr>\<rparr>)
       (agent_options_of parse r (ss_cwd s) (ss_access s) default_model api_key))"

text \<open>The JSON a created agent's options go out as: absent options are left out.\<close>

definition agent_options_json :: "agent_options \<Rightarrow> json" where
  "agent_options_json o1 =
     JObj (json_collect
       ([(''model'', JObj [(''id'', JStr (ao_model o1))]), (''apiKey'', JStr (ao_api_key o1)),
         (''local'', JObj (json_collect
            ([(''cwd'', JArr (map JStr (ao_cwd o1)))] @
             (case ao_source o1 of None \<Rightarrow> [] | Some s \<Rightarrow> [(''source'', JStr s)]) @
             (if ao_custom_tools o1 = [] then [] else
               [(''customTools'', JObj (map (\<lambda>(name, description, schema).
                  (name, JObj (json_collect
                    ((case description of None \<Rightarrow> [] | Some d \<Rightarrow> [(''description'', JStr d)]) @ [(''inputSchema'', schema)]))))
                  (ao_custom_tools o1)))]))))] @
        (if ao_mcp_servers o1 = [] then [] else
          [(''mcpServers'', JObj (map (\<lambda>(name, url).
             (name, JObj [(''http'', JObj (json_collect [(''type'', JStr ''HTTP_MCP_TRANSPORT_TYPE_HTTP''), (''url'', JStr url)]))]))
             (ao_mcp_servers o1)))]) @
        [(''tools'', JObj [(''names'', JArr (map JStr (ao_tools o1)))])]))"

section \<open>The client\<close>

record cursor_client =
  cc_deadlines :: deadlines
  cc_model :: string
  cc_api_key :: "string option"
  cc_max_agents :: nat
  cc_max_tool_calls :: nat

record cursor_options =
  co_model :: string
  co_backend_url :: string
  co_timeout_secs :: nat
  co_inactivity_secs :: nat
  co_max_agents :: nat
  co_max_tool_calls :: nat
  co_shell_roots :: "string list"

definition cu_ensure :: "bool \<Rightarrow> string \<Rightarrow> cursor_error + unit" where
  "cu_ensure b message = (if b then Inr () else Inl (Cu_Other message))"

text \<open>Connecting: the bounds are positive before the pool, its sandbox and its servers are made.\<close>

definition cursor_connect :: "cursor_options \<Rightarrow> string option \<Rightarrow> (nat \<Rightarrow> string \<Rightarrow> string list \<Rightarrow> cursor_error + unit) \<Rightarrow>
    cursor_error + cursor_client" where
  "cursor_connect o1 api_key pool_connect =
     res_bind (cu_ensure (0 < co_timeout_secs o1) ''timeout_secs must be greater than 0'') (\<lambda>_.
     res_bind (cu_ensure (0 < co_inactivity_secs o1) ''inactivity_secs must be greater than 0'') (\<lambda>_.
     res_bind (cu_ensure (0 < co_max_agents o1) ''max_agents must be greater than 0'') (\<lambda>_.
     res_bind (cu_ensure (0 < co_max_tool_calls o1) ''max_tool_calls must be greater than 0'') (\<lambda>_.
     res_map (\<lambda>_.
       \<lparr>cc_deadlines = \<lparr>dl_inactivity = co_inactivity_secs o1 * 1000000000, dl_cap = co_timeout_secs o1 * 1000000000\<rparr>,
        cc_model = co_model o1, cc_api_key = api_key, cc_max_agents = co_max_agents o1, cc_max_tool_calls = co_max_tool_calls o1\<rparr>)
       (pool_connect (co_max_agents o1) (co_backend_url o1) (co_shell_roots o1))))))"

definition BACKEND_URL :: string where "BACKEND_URL = ''https://api2.cursor.sh''"

definition cu_default_options :: cursor_options where
  "cu_default_options =
     \<lparr>co_model = ''auto'', co_backend_url = BACKEND_URL, co_timeout_secs = 600, co_inactivity_secs = 120, co_max_agents = 8, co_max_tool_calls = 128,
      co_shell_roots = []\<rparr>"

definition cu_split_paths :: "string \<Rightarrow> string list" where
  "cu_split_paths s = filter (\<lambda>p. p \<noteq> []) (str_split (CHR '':'') s)"

section \<open>Staging\<close>

text \<open>A session the sandbox denied for the grant's fault is the request's.\<close>

definition cu_refusal :: "sandbox_error \<Rightarrow> cursor_error" where
  "cu_refusal e =
     (case e of Denied why \<Rightarrow> Cu_Invalid_Request (''worker grant: '' @ why) | Sandbox_Failed why \<Rightarrow> Cu_Other why)"

definition client_prepare :: "(grant \<Rightarrow> sandbox_error + session) \<Rightarrow> cu_request \<Rightarrow> cursor_error + session" where
  "client_prepare prepare r =
     (case prepare (case cr_worker r of None \<Rightarrow> \<lparr>gt_egress = [], gt_read = [], gt_env = []\<rparr> | Some g \<Rightarrow> g) of
        Inl e \<Rightarrow> Inl (cu_refusal e)
      | Inr s \<Rightarrow>
          if cr_worker r \<noteq> None \<and> ss_access s \<noteq> Lent_Shell then
            Inl (Cu_Invalid_Request
              (if access_lent (ss_access s) then ''worker grant needs a shell: the workspace is not under a shell root''
               else ''worker grant needs a workspace''))
          else Inr s)"

text \<open>
  The key, the session, the turn, then the slot: \<open>prepare\<close> is the sandbox over the host's file
  system, \<open>acquire\<close> the pool's lease on a worker in the session, with what the agent reaches over it.
\<close>

definition client_stage ::
    "(string \<Rightarrow> json option) \<Rightarrow> ('w \<Rightarrow> (grant \<Rightarrow> sandbox_error + session) \<times> 'w) \<Rightarrow>
     (session \<Rightarrow> agent_turn \<Rightarrow> 'w \<Rightarrow> (cursor_error + 'w agent_env) \<times> 'w) \<Rightarrow> cursor_client \<Rightarrow> cu_request \<Rightarrow>
     'w \<Rightarrow> (cursor_error + 'w agent_env \<times> cu_prompt) \<times> 'w" where
  "client_stage parse prepare acquire client r w =
     (case cc_api_key client of
        None \<Rightarrow> (Inl (Cu_Other ''CURSOR_API_KEY must be set''), w)
      | Some api_key \<Rightarrow>
          (case prepare w of
             (sandboxed, w) \<Rightarrow>
               (case client_prepare sandboxed r of
                  Inl e \<Rightarrow> (Inl e, w)
                | Inr s \<Rightarrow>
                    (case turn_prepare parse r s (cc_model client) api_key of
                       Inl e \<Rightarrow> (Inl e, w)
                     | Inr turn \<Rightarrow>
                         (case acquire s turn w of
                            (Inl e, w) \<Rightarrow> (Inl e, w)
                          | (Inr env, w) \<Rightarrow> (Inr (env, tn_prompt turn), w))))))"

text \<open>\<open>ModelClient::complete\<close> of the client.\<close>

definition client_complete where
  "client_complete parse prepare acquire client r = cursor_complete (client_stage parse prepare acquire client r)"

section \<open>What a staged turn may do\<close>

lemma workspace_shell:
  assumes "workspace_of fs sb path = Inr (cwd, Lent_Shell)"
  shows "hf_canonical fs path = Inr cwd \<and>
     (\<exists>root \<in> set (so_shell_roots (sp_options sb)). path_starts_with cwd (case hf_canonical fs root of Inr r \<Rightarrow> r | Inl _ \<Rightarrow> root))"
proof -
  from assms obtain u where "hf_create_dir_all fs path = Inr u" by (cases "hf_create_dir_all fs path") (simp_all add: workspace_of_def)
  moreover from this assms obtain c where "hf_canonical fs path = Inr c" by (cases "hf_canonical fs path") (simp_all add: workspace_of_def)
  ultimately show ?thesis using assms by (simp add: workspace_of_def list_ex_iff split: if_split_asm)
qed

lemma prepared_shell:
  assumes "session_prepare fs scratch bind_proxy sb workspace g = Inr s" and "ss_access s = Lent_Shell"
  shows "\<exists>path root. workspace = Some path \<and> hf_canonical fs path = Inr (ss_cwd s) \<and> root \<in> set (so_shell_roots (sp_options sb)) \<and>
     path_starts_with (ss_cwd s) (case hf_canonical fs root of Inr r \<Rightarrow> r | Inl _ \<Rightarrow> root)"
proof (cases workspace)
  case None
  with assms show ?thesis by (auto simp: session_prepare_def res_bind_Inr_iff res_map_Inr_iff Let_def)
next
  case (Some path)
  with assms have "workspace_of fs sb path = Inr (ss_cwd s, Lent_Shell)"
    by (auto simp: session_prepare_def res_bind_Inr_iff res_map_Inr_iff)
  from workspace_shell [OF this] Some show ?thesis by blast
qed

lemma client_prepare_cases:
  "client_prepare prepare r = Inr s \<Longrightarrow>
     (\<exists>g. prepare g = Inr s \<and> (cr_worker r = None \<or> cr_worker r = Some g)) \<and> (cr_worker r = None \<or> ss_access s = Lent_Shell)"
  by (auto simp: client_prepare_def split: sum.split_asm if_split_asm option.split_asm)

lemma turn_prepare_fields:
  "turn_prepare parse r s m k = Inr t \<Longrightarrow> ao_tools (tn_options t) = access_tools (ss_access s) \<and> ao_cwd (tn_options t) = [ss_cwd s] \<and>
     ao_api_key (tn_options t) = k \<and> tn_cwd t = ss_cwd s \<and> utf8_valid (ss_cwd s)"
  by (auto simp: turn_prepare_def agent_options_of_def res_map_Inr_iff split: if_split_asm prod.split_asm)

lemma access_tools_shell: "''shell'' \<in> set (access_tools a) \<longleftrightarrow> a = Lent_Shell"
  by (cases a) simp_all

text \<open>
  A worker is leased only in the session the sandbox prepared for its request, with the session's
  directory as its agent's and the tools of its access: a shell only where the workspace lies under a
  shell root, and a worker grant only with a shell.
\<close>

theorem staged_within_session:
  assumes "client_stage parse (\<lambda>w. (session_prepare fs scratch bind_proxy sb workspace, w)) acquire client r w = (Inr (env, p), w')"
  shows "\<exists>g s turn. session_prepare fs scratch bind_proxy sb workspace g = Inr s \<and> (cr_worker r = None \<or> cr_worker r = Some g) \<and>
     acquire s turn w = (Inr env, w') \<and> p = tn_prompt turn \<and> ao_cwd (tn_options turn) = [ss_cwd s] \<and>
     (cr_worker r = None \<or> ''shell'' \<in> set (ao_tools (tn_options turn))) \<and>
     (if ''shell'' \<in> set (ao_tools (tn_options turn)) then
        (\<exists>path root. workspace = Some path \<and> hf_canonical fs path = Inr (ss_cwd s) \<and> root \<in> set (so_shell_roots (sp_options sb)) \<and>
           path_starts_with (ss_cwd s) (case hf_canonical fs root of Inr x \<Rightarrow> x | Inl _ \<Rightarrow> root))
      else True)"
proof -
  from assms obtain k s turn where s: "client_prepare (session_prepare fs scratch bind_proxy sb workspace) r = Inr s"
    and t: "turn_prepare parse r s (cc_model client) k = Inr turn" and a: "acquire s turn w = (Inr env, w')" and p: "p = tn_prompt turn"
    by (auto simp: client_stage_def split: option.split_asm sum.split_asm prod.split_asm)
  from client_prepare_cases [OF s] obtain g where g: "session_prepare fs scratch bind_proxy sb workspace g = Inr s"
    "cr_worker r = None \<or> cr_worker r = Some g" "cr_worker r = None \<or> ss_access s = Lent_Shell" by blast
  note f = turn_prepare_fields [OF t]
  have shell: "''shell'' \<in> set (ao_tools (tn_options turn)) \<longleftrightarrow> ss_access s = Lent_Shell" using f by (simp add: access_tools_shell)
  have "if ''shell'' \<in> set (ao_tools (tn_options turn)) then
        (\<exists>path root. workspace = Some path \<and> hf_canonical fs path = Inr (ss_cwd s) \<and> root \<in> set (so_shell_roots (sp_options sb)) \<and>
           path_starts_with (ss_cwd s) (case hf_canonical fs root of Inr x \<Rightarrow> x | Inl _ \<Rightarrow> root))
      else True"
    using prepared_shell [OF g(1)] shell by simp
  with g a p f shell show ?thesis by blast
qed

definition sample_fs :: host_fs where
  "sample_fs = \<lparr>hf_canonical = Inr, hf_is_dir = (\<lambda>_. Inr True), hf_executable = (\<lambda>_. True), hf_absolute = Inr,
     hf_create_dir_all = (\<lambda>_. Inr ()), hf_create_dir = (\<lambda>_. Inr ()), hf_open = (\<lambda>_. Inr ())\<rparr>"

definition sample_policy :: policy where
  "sample_policy = \<lparr>sp_options = \<lparr>so_shell_roots = [''/w''], so_inherit = [], so_refused = []\<rparr>, sp_inherited = [], sp_home = None\<rparr>"

definition sample_request :: cu_request where
  "sample_request = \<lparr>cr_model = None, cr_tools = [], cr_format = Fmt_Text, cr_check = True,
     cr_worker = Some \<lparr>gt_egress = [], gt_read = [], gt_env = []\<rparr>, cr_prompt = ''hello''\<rparr>"

theorem staged_within_session_witness:
  "\<exists>g s (turn :: agent_turn). session_prepare sample_fs (Inr ''/t'') (\<lambda>_. Inr ''p'') sample_policy (Some ''/w/a'') g = Inr s \<and>
     ''shell'' \<in> set (ao_tools (tn_options turn)) \<and> ao_cwd (tn_options turn) = [ss_cwd s]"
proof -
  let ?client = "\<lparr>cc_deadlines = \<lparr>dl_inactivity = 1, dl_cap = 2\<rparr>, cc_model = ''auto'', cc_api_key = Some ''k'', cc_max_agents = 1, cc_max_tool_calls = 1\<rparr>"
  have v: "utf8_valid ''/w/a''" by (rule utf8_valid_ascii) (simp add: ascii_def)
  have "path_starts_with ''/w/a'' ''/w''" by code_simp
  then have "\<exists>p. client_stage (\<lambda>_. None) (\<lambda>w. (session_prepare sample_fs (Inr ''/t'') (\<lambda>_. Inr ''p'') sample_policy (Some ''/w/a''), w))
     (\<lambda>_ _ w. (Inr exiting_env, w)) ?client sample_request () = (Inr (exiting_env, p), ())"
    by (simp add: client_stage_def client_prepare_def session_prepare_def workspace_of_def sample_fs_def sample_policy_def
        sample_request_def host_step_def read_roots_def sandbox_env_def turn_prepare_def agent_options_of_def v)
  then obtain p where st: "client_stage (\<lambda>_. None) (\<lambda>w. (session_prepare sample_fs (Inr ''/t'') (\<lambda>_. Inr ''p'') sample_policy (Some ''/w/a''), w))
     (\<lambda>_ _ w. (Inr exiting_env, w)) ?client sample_request () = (Inr (exiting_env, p), ())" ..
  have "cr_worker sample_request \<noteq> None" by (simp add: sample_request_def)
  from staged_within_session [OF st] show ?thesis
  proof (elim exE conjE)
    fix g s and turn :: agent_turn
    assume g: "session_prepare sample_fs (Inr ''/t'') (\<lambda>_. Inr ''p'') sample_policy (Some ''/w/a'') g = Inr s"
      and t: "cr_worker sample_request = None \<or> ''shell'' \<in> set (ao_tools (tn_options turn))" and c: "ao_cwd (tn_options turn) = [ss_cwd s]"
    from t \<open>cr_worker sample_request \<noteq> None\<close> have "''shell'' \<in> set (ao_tools (tn_options turn))" by simp
    with g c show ?thesis by (intro exI conjI)
  qed
qed

end
