(* ===== verification/Cursor_Relay.thy ===== *)
theory Cursor_Relay
  imports Cursor_Client
begin

text \<open>
  The relay a worker's API calls go through (\<open>src/crates/cursor/src/relay.rs\<close>): the upstream a
  request goes to, and the headers that go with it. Parsing a URL and sending a request are parameters;
  bodies are streamed through and stay abstract.
\<close>

section \<open>Headers\<close>

text \<open>A header map keeps every value of a name; names are lower case.\<close>

type_synonym header_list = "(string \<times> string) list"

definition REST_API :: string where "REST_API = ''https://api.cursor.com''"

definition PROHIBITED :: "string list" where
  "PROHIBITED =
     [''connection'', ''keep-alive'', ''proxy-connection'', ''proxy-authenticate'', ''proxy-authorization'', ''te'',
      ''trailer'', ''transfer-encoding'', ''upgrade'']"

text \<open>\<open>HeaderName::from_bytes\<close>: the token characters of RFC 9110, in lower case.\<close>

definition token_char :: "char \<Rightarrow> bool" where
  "token_char c \<longleftrightarrow> ascii_alpha c \<or> is_digit c \<or>
     c \<in> {CHR ''!'', CHR ''#'', CHR ''$'', CHR ''%'', CHR ''&'', CHR 0x27, CHR ''*'', CHR ''+'', CHR ''-'', CHR ''.'', CHR ''^'',
       CHR ''_'', CHR 0x60, CHR ''|'', CHR ''~''}"

definition header_name :: "string \<Rightarrow> string option" where
  "header_name s = (if s \<noteq> [] \<and> list_all token_char s \<and> length s < 65536 then Some (map to_ascii_lower s) else None)"

text \<open>\<open>HeaderValue::to_str\<close>: visible ASCII and tabs.\<close>

definition visible_value :: "string \<Rightarrow> bool" where
  "visible_value v \<longleftrightarrow> list_all (\<lambda>c. let n = of_char c :: nat in 32 \<le> n \<and> n < 127 \<or> n = 9) v"

definition connection_names :: "header_list \<Rightarrow> string list" where
  "connection_names headers =
     List.map_filter (\<lambda>s. header_name (str_trim s))
       (concat (map (\<lambda>(_, v). str_split (CHR '','') v)
          (filter (\<lambda>(name, v). name = ''connection'' \<and> visible_value v) headers)))"

definition header_remove :: "string \<Rightarrow> header_list \<Rightarrow> header_list" where
  "header_remove name headers = filter (\<lambda>(n, _). n \<noteq> name) headers"

definition permitted :: "header_list \<Rightarrow> header_list" where
  "permitted headers = fold header_remove (PROHIBITED @ connection_names headers @ [''host'']) headers"

section \<open>Forwarding\<close>

text \<open>A parsed URL's scheme, host and text.\<close>

definition upstream_new :: "(string \<Rightarrow> (string \<times> string option \<times> string) option) \<Rightarrow> (string + unit) \<Rightarrow> string \<Rightarrow> string + string" where
  "upstream_new parse_url built backend =
     (case parse_url backend of
        None \<Rightarrow> Inl (''the backend URL '' @ ticks backend @ '' does not parse'')
      | Some (scheme, host, text1) \<Rightarrow>
          if scheme \<in> {''http'', ''https''} \<and> host \<noteq> None then
            (case built of
               Inl e \<Rightarrow> Inl (''building the relay's upstream client: '' @ e)
             | Inr _ \<Rightarrow> Inr (rev (dropWhile (\<lambda>c. c = CHR ''/'') (rev text1))))
          else Inl (''the backend URL '' @ ticks backend @ '' must be an http or https URL naming a host''))"

definition is_api :: "string \<Rightarrow> bool" where
  "is_api path \<longleftrightarrow> path = ''/v1'' \<or> starts_with path ''/v1/''"

record 'b relay_request =
  lr_method :: string
  lr_path :: string
  lr_target :: "string option"
  lr_headers :: header_list
  lr_body :: 'b

record 'b relay_response =
  ls_status :: nat
  ls_headers :: header_list
  ls_body :: "string + 'b"

definition bad_gateway :: "string \<Rightarrow> 'b relay_response" where
  "bad_gateway message = \<lparr>ls_status = 502, ls_headers = [(''content-type'', ''text/plain'')], ls_body = Inl message\<rparr>"

text \<open>What is sent: a method, a URL, headers and the body as it came.\<close>

definition relay_forward ::
    "(string \<Rightarrow> string \<Rightarrow> header_list \<Rightarrow> 'b \<Rightarrow> 'w \<Rightarrow> (string + nat \<times> header_list \<times> 'b) \<times> 'w) \<Rightarrow> string \<Rightarrow> 'b relay_request \<Rightarrow>
       'w \<Rightarrow> 'b relay_response \<times> 'w" where
  "relay_forward send backend r w =
     (let target1 = (case lr_target r of None \<Rightarrow> ''/'' | Some t \<Rightarrow> t);
          upstream = (if is_api (lr_path r) then REST_API else backend)
      in case send (lr_method r) (upstream @ target1) (permitted (lr_headers r)) (lr_body r) w of
           (Inr (status, headers, body), w) \<Rightarrow> (\<lparr>ls_status = status, ls_headers = permitted headers, ls_body = Inr body\<rparr>, w)
         | (Inl e, w) \<Rightarrow> (bad_gateway (''relay: '' @ upstream @ '' did not answer: '' @ e), w))"

section \<open>What goes through\<close>

lemma fold_header_remove: "fold header_remove names headers = filter (\<lambda>(n, _). n \<notin> set names) headers"
proof (induction names arbitrary: headers)
  case (Cons a names)
  have "filter (\<lambda>(n, _). n \<notin> set names) (filter (\<lambda>(n, _). n \<noteq> a) headers) = filter (\<lambda>(n, _). n \<notin> set (a # names)) headers"
    by (induction headers) auto
  with Cons show ?case by (simp add: header_remove_def)
qed simp

text \<open>The headers of the connection and those it names stay behind, every other value goes through.\<close>

lemma permitted_exact:
  "permitted headers = filter (\<lambda>(n, _). n \<notin> set PROHIBITED \<and> n \<notin> set (connection_names headers) \<and> n \<noteq> ''host'') headers"
  unfolding permitted_def fold_header_remove by (rule filter_cong) auto

text \<open>Nothing is left to name another, so filtering again takes nothing more away.\<close>

lemma permitted_no_connection: "name = ''connection'' \<Longrightarrow> (name, v) \<notin> set (permitted headers)"
  by (simp add: permitted_exact PROHIBITED_def)

lemma permitted_again: "permitted (permitted headers) = permitted headers"
proof -
  have "filter (\<lambda>(name, v). name = ''connection'' \<and> visible_value v) (permitted headers) = []"
    using permitted_no_connection by (auto simp: filter_empty_conv)
  then have "connection_names (permitted headers) = []" by (simp add: connection_names_def List.map_filter_def)
  then have "permitted (permitted headers) = filter (\<lambda>(n, _). n \<notin> set PROHIBITED \<and> n \<noteq> ''host'') (permitted headers)"
    unfolding permitted_exact [of "permitted headers"] by simp
  also have "\<dots> = permitted headers" by (rule filter_True) (auto simp: permitted_exact)
  finally show ?thesis .
qed

text \<open>The REST calls go to Cursor's own API whatever backend is configured, and only they do.\<close>

lemma forward_upstream:
  "\<exists>up. (up = (if is_api (lr_path r) then REST_API else backend)) \<and>
     snd (relay_forward send backend r w) =
       snd (send (lr_method r) (up @ (case lr_target r of None \<Rightarrow> ''/'' | Some t \<Rightarrow> t)) (permitted (lr_headers r)) (lr_body r) w)"
  by (simp add: relay_forward_def Let_def split: prod.split sum.split)

end
