(* ===== verification/Nats_KeyValue.thy ===== *)
theory Nats_KeyValue
  imports Fs_KeyValue Rust_Num
begin

text \<open>
  The key-value surface over JetStream (\<open>src/crates/nats/src/keyvalue.rs\<close>): keys, snapshots, the one
  publish every write makes, and the revision-conditioned loops of \<open>increment\<close> and \<open>cas\<close>. The
  server is the environment \<open>nats_env\<close> over a world, and \<open>add_i64\<close> the host's.
\<close>

section \<open>Keys and messages\<close>

definition MAX_INCREMENT_RETRIES :: nat where "MAX_INCREMENT_RETRIES = 64"
definition SECOND :: nat where "SECOND = 1000000000"
definition MARKER_TTL :: nat where "MARKER_TTL = 60 * SECOND"

definition key_byte :: "char \<Rightarrow> bool" where
  "key_byte c \<longleftrightarrow> ascii_alpha c \<or> is_digit c \<or> c \<in> {CHR ''-'', CHR ''/'', CHR ''_'', CHR ''='', CHR ''.''}"

definition nats_validate_key :: "string \<Rightarrow> string + unit" where
  "nats_validate_key key =
     (if key \<noteq> [] \<and> \<not> starts_with key ''.'' \<and> \<not> ends_with key ''.'' \<and> list_all key_byte key then Inr ()
      else Inl (''invalid key '' @ ticks key @
        '': cannot be empty, start/end with '' @ ticks ''.'' @ '', or contain characters outside [-/_=.a-zA-Z0-9]''))"

text \<open>The headers of a message by name, and the message a subject's last sequence holds.\<close>

type_synonym header_map = "(string, string) btree"

definition EXPECTED_SEQUENCE :: string where "EXPECTED_SEQUENCE = ''Nats-Expected-Last-Subject-Sequence''"
definition MARKER_REASON :: string where "MARKER_REASON = ''Nats-Marker-Reason''"
definition MESSAGE_TTL :: string where "MESSAGE_TTL = ''Nats-TTL''"

record stream_message =
  sm_sequence :: nat
  sm_headers :: header_map
  sm_payload :: bytes
  sm_time :: nat

definition is_put :: "header_map \<Rightarrow> bool" where
  "is_put headers \<longleftrightarrow> bt_get headers MARKER_REASON = None \<and>
     (case bt_get headers ''KV-Operation'' of None \<Rightarrow> True | Some op \<Rightarrow> op = ''PUT'')"

text \<open>Durations are in nanoseconds, and the subtractions saturate.\<close>

definition remaining_ttl :: "nat \<Rightarrow> stream_message \<Rightarrow> nat option" where
  "remaining_ttl now1 m =
     Option.bind (bt_get (sm_headers m) MESSAGE_TTL) (\<lambda>s.
     map_option (\<lambda>ttl. ttl * SECOND - (now1 - sm_time m)) (parse_u64 s))"

record kv_snapshot =
  sn_revision :: nat
  sn_value :: "bytes option"
  sn_ttl :: "nat option"

definition snapshot_of :: "nat \<Rightarrow> stream_message \<Rightarrow> kv_snapshot" where
  "snapshot_of now1 m =
     (let ttl = remaining_ttl now1 m; live = is_put (sm_headers m) \<and> ttl \<noteq> Some 0
      in \<lparr>sn_revision = sm_sequence m, sn_value = (if live then Some (sm_payload m) else None),
          sn_ttl = (if live then ttl else None)\<rparr>)"

section \<open>The server\<close>

datatype get_error = No_Message | Get_Failed string
datatype publish_error = Wrong_Last_Sequence | Publish_Failed string
datatype bucket_error = Get_Bucket string | Bucket_Failed string

record kv_config =
  kc_bucket :: string
  kc_history :: nat
  kc_max_age :: nat
  kc_max_bytes :: nat
  kc_limit_markers :: "nat option"

record kv_store =
  st_prefix :: string
  st_put_prefix :: "string option"
  st_allow_direct :: bool

record 'w nats_env =
  ne_get_store :: "string \<Rightarrow> ('w, bucket_error, kv_store) act"
  ne_create_store :: "kv_config \<Rightarrow> ('w, string, kv_store) act"
  ne_direct_get :: "string \<Rightarrow> ('w, get_error, stream_message) act"
  ne_raw_get :: "string \<Rightarrow> ('w, get_error, stream_message) act"
  ne_publish :: "string \<Rightarrow> header_map \<Rightarrow> bytes \<Rightarrow> ('w, publish_error, unit) act"
  ne_delete :: "string \<Rightarrow> ('w, string, unit) act"
  ne_keys :: "('w, string, string list) act"
  ne_now :: "'w \<Rightarrow> nat"

definition nats_open_bucket :: "'w nats_env \<Rightarrow> nat option \<Rightarrow> string \<Rightarrow> ('w, string, kv_store) act" where
  "nats_open_bucket env kv_max_age identifier =
     act_match (ne_get_store env identifier) (\<lambda>r.
       case r of
         Inr store \<Rightarrow> act_return store
       | Inl (Get_Bucket _) \<Rightarrow>
           act_context ''failed to create bucket'' (ne_create_store env
             \<lparr>kc_bucket = identifier, kc_history = 1, kc_max_age = (case kv_max_age of None \<Rightarrow> 0 | Some a \<Rightarrow> a),
              kc_max_bytes = 100 * 1024 * 1024, kc_limit_markers = Some MARKER_TTL\<rparr>)
       | Inl (Bucket_Failed e) \<Rightarrow> act_fail (''failed to open bucket: '' @ e))"

section \<open>Snapshots and writes\<close>

definition last_message :: "'w nats_env \<Rightarrow> kv_store \<Rightarrow> string \<Rightarrow> ('w, string, stream_message option) act" where
  "last_message env b subject =
     act_match ((if st_allow_direct b then ne_direct_get env else ne_raw_get env) subject) (\<lambda>r.
       case r of
         Inr m \<Rightarrow> act_return (Some m)
       | Inl No_Message \<Rightarrow> act_return None
       | Inl (Get_Failed e) \<Rightarrow> act_fail e)"

definition nats_snapshot :: "'w nats_env \<Rightarrow> kv_store \<Rightarrow> string \<Rightarrow> ('w, string, kv_snapshot) act" where
  "nats_snapshot env b key =
     act_then (act_result (nats_validate_key key))
     (act_bind (act_context (''reading '' @ ticks key) (last_message env b (st_prefix b @ key))) (\<lambda>m.
      case m of
        None \<Rightarrow> act_return \<lparr>sn_revision = 0, sn_value = None, sn_ttl = None\<rparr>
      | Some m \<Rightarrow> act_bind (act_gets (ne_now env)) (\<lambda>now1. act_return (snapshot_of now1 m))))"

definition write_headers :: "nat option \<Rightarrow> nat option \<Rightarrow> header_map" where
  "write_headers revision ttl =
     (case ttl of None \<Rightarrow> id | Some t \<Rightarrow> bt_insert MESSAGE_TTL (dec_nat (max (t div SECOND) 1)))
     (case revision of None \<Rightarrow> [] | Some r \<Rightarrow> bt_insert EXPECTED_SEQUENCE (dec_nat r) [])"

definition put_subject :: "kv_store \<Rightarrow> string \<Rightarrow> string" where
  "put_subject b key = (case st_put_prefix b of None \<Rightarrow> st_prefix b | Some p \<Rightarrow> p) @ key"

definition nats_publish ::
    "'w nats_env \<Rightarrow> kv_store \<Rightarrow> string \<Rightarrow> bytes \<Rightarrow> nat option \<Rightarrow> nat option \<Rightarrow> ('w, publish_error, unit) act" where
  "nats_publish env b key data revision ttl = ne_publish env (put_subject b key) (write_headers revision ttl) data"

text \<open>A write conditioned on a revision; false when the key moved on first.\<close>

definition nats_update ::
    "'w nats_env \<Rightarrow> kv_store \<Rightarrow> string \<Rightarrow> bytes \<Rightarrow> nat \<Rightarrow> nat option \<Rightarrow> ('w, string, bool) act" where
  "nats_update env b key data revision ttl =
     act_then (act_result (nats_validate_key key))
     (act_match (nats_publish env b key data (Some revision) ttl) (\<lambda>r.
      case r of
        Inr _ \<Rightarrow> act_return True
      | Inl Wrong_Last_Sequence \<Rightarrow> act_return False
      | Inl (Publish_Failed e) \<Rightarrow> act_fail (''writing '' @ ticks key @ '': '' @ e)))"

section \<open>The bucket\<close>

definition nats_get :: "'w nats_env \<Rightarrow> kv_store \<Rightarrow> string \<Rightarrow> ('w, string, bytes option) act" where
  "nats_get env b key = act_bind (nats_snapshot env b key) (\<lambda>s. act_return (sn_value s))"

definition publish_error_text :: "publish_error \<Rightarrow> string" where
  "publish_error_text e = (case e of Wrong_Last_Sequence \<Rightarrow> ''wrong last sequence'' | Publish_Failed s \<Rightarrow> s)"

definition nats_set :: "'w nats_env \<Rightarrow> kv_store \<Rightarrow> string \<Rightarrow> bytes \<Rightarrow> nat option \<Rightarrow> ('w, string, unit) act" where
  "nats_set env b key data ttl =
     act_then (act_result (nats_validate_key key))
     (act_match (nats_publish env b key data None ttl) (\<lambda>r.
      act_result (case r of Inr x \<Rightarrow> Inr x | Inl e \<Rightarrow> Inl (''writing '' @ ticks key @ '': '' @ publish_error_text e))))"

definition nats_delete :: "'w nats_env \<Rightarrow> string \<Rightarrow> ('w, string, unit) act" where
  "nats_delete env key = act_context (''deleting '' @ ticks key) (ne_delete env key)"

definition nats_exists :: "'w nats_env \<Rightarrow> kv_store \<Rightarrow> string \<Rightarrow> ('w, string, bool) act" where
  "nats_exists env b key = act_bind (nats_snapshot env b key) (\<lambda>s. act_return (sn_value s \<noteq> None))"

definition nats_keys :: "'w nats_env \<Rightarrow> ('w, string, string list) act" where
  "nats_keys env = act_context ''listing keys'' (ne_keys env)"

fun increment_rounds ::
    "nat \<Rightarrow> 'w nats_env \<Rightarrow> counter_add \<Rightarrow> kv_store \<Rightarrow> string \<Rightarrow> 64 word \<Rightarrow> ('w, string, 64 word) act" where
  "increment_rounds 0 env add_fn b key delta =
     act_fail (''incrementing '' @ ticks key @ '' exceeded '' @ dec_nat MAX_INCREMENT_RETRIES @ '' CAS retries'')"
| "increment_rounds (Suc n) env add_fn b key delta =
     act_bind (nats_snapshot env b key) (\<lambda>s.
     act_bind (act_context (''incrementing '' @ ticks key) (act_result (add_fn (sn_value s) delta))) (\<lambda>incremented.
     act_bind (nats_update env b key (i64_to_be incremented) (sn_revision s) (sn_ttl s)) (\<lambda>won.
       if won then act_return incremented else increment_rounds n env add_fn b key delta)))"

definition nats_increment ::
    "'w nats_env \<Rightarrow> counter_add \<Rightarrow> kv_store \<Rightarrow> string \<Rightarrow> 64 word \<Rightarrow> ('w, string, 64 word) act" where
  "nats_increment = increment_rounds MAX_INCREMENT_RETRIES"

text \<open>A lost race carries what won; \<open>Ok(Err(observed))\<close> is the left injection.\<close>

definition nats_cas ::
    "'w nats_env \<Rightarrow> kv_store \<Rightarrow> string \<Rightarrow> bytes option \<Rightarrow> bytes \<Rightarrow> ('w, string, bytes option + unit) act" where
  "nats_cas env b key expected data =
     act_bind (nats_snapshot env b key) (\<lambda>s.
       if sn_value s \<noteq> expected then act_return (Inl (sn_value s))
       else act_bind (nats_update env b key data (sn_revision s) (sn_ttl s)) (\<lambda>won.
         if won then act_return (Inr ())
         else act_bind (nats_snapshot env b key) (\<lambda>s. act_return (Inl (sn_value s)))))"

end
