(* ===== verification/Nats_KV_Props.thy ===== *)
theory Nats_KV_Props
  imports Nats_KeyValue
begin

text \<open>
  What the revision-conditioned writes promise: under JetStream's documented contract, whatever other
  clients do meanwhile, an increment or a swap that reports success wrote exactly once, over the very
  message it had read. And what becomes of the time to live they carry over.
\<close>

section \<open>The server's contract\<close>

definition js_revision :: "stream_message option \<Rightarrow> nat" where
  "js_revision m = (case m of None \<Rightarrow> 0 | Some m \<Rightarrow> sm_sequence m)"

text \<open>
  \<open>held\<close> is the last message of each subject and \<open>step\<close> what time and other clients do to the
  world. A read returns what is held when it ends. A write lands at one instant, where the expected
  sequence it names, if any, is the one held; a write refused for its sequence left nothing. A
  sequence is never reused for another message.
\<close>

definition jetstream_laws ::
    "'w nats_env \<Rightarrow> ('w \<Rightarrow> string \<Rightarrow> stream_message option) \<Rightarrow> ('w \<Rightarrow> 'w \<Rightarrow> bool) \<Rightarrow> bool" where
  "jetstream_laws env held step \<longleftrightarrow>
     (\<forall>w. step w w) \<and> (\<forall>w1 w2 w3. step w1 w2 \<longrightarrow> step w2 w3 \<longrightarrow> step w1 w3) \<and>
     (\<forall>w1 w2 s. step w1 w2 \<longrightarrow> js_revision (held w1 s) = js_revision (held w2 s) \<longrightarrow> held w1 s = held w2 s) \<and>
     (\<forall>get s w r w'. get = ne_direct_get env \<or> get = ne_raw_get env \<longrightarrow> get s w = (r, w') \<longrightarrow>
        step w w' \<and> (\<forall>m. r = Inr m \<longrightarrow> held w' s = Some m) \<and> (r = Inl No_Message \<longrightarrow> held w' s = None)) \<and>
     (\<forall>s h d w w'. ne_publish env s h d w = (Inl Wrong_Last_Sequence, w') \<longrightarrow> step w w') \<and>
     (\<forall>s h d w w'. ne_publish env s h d w = (Inr (), w') \<longrightarrow>
        (\<exists>w0 w1 m. step w w0 \<and> step w1 w' \<and> held w1 = (held w0)(s \<mapsto> m) \<and> sm_payload m = d \<and> sm_headers m = h \<and>
          (\<forall>e. bt_get h EXPECTED_SEQUENCE = Some e \<longrightarrow> e = dec_nat (js_revision (held w0 s)))))"

text \<open>The value a message stands for at a time.\<close>

definition kv_seen :: "nat \<Rightarrow> stream_message option \<Rightarrow> bytes option" where
  "kv_seen now1 m = (case m of None \<Rightarrow> None | Some m \<Rightarrow> sn_value (snapshot_of now1 m))"

lemma js_refl: "jetstream_laws env held step \<Longrightarrow> step w w"
  by (simp add: jetstream_laws_def)

lemma js_trans:
  assumes "jetstream_laws env held step" and "step w1 w2" and "step w2 w3"
  shows "step w1 w3"
proof -
  from assms(1) have "\<forall>w1 w2 w3. step w1 w2 \<longrightarrow> step w2 w3 \<longrightarrow> step w1 w3"
    unfolding jetstream_laws_def by (elim conjE) assumption
  with assms(2,3) show ?thesis by blast
qed

lemma js_same:
  assumes "jetstream_laws env held step" and "step w1 w2" and "js_revision (held w1 s) = js_revision (held w2 s)"
  shows "held w1 s = held w2 s"
proof -
  from assms(1) have "\<forall>w1 w2 s. step w1 w2 \<longrightarrow> js_revision (held w1 s) = js_revision (held w2 s) \<longrightarrow> held w1 s = held w2 s"
    unfolding jetstream_laws_def by (elim conjE) assumption
  with assms(2,3) show ?thesis by blast
qed

lemma js_get:
  assumes "jetstream_laws env held step" and "get = ne_direct_get env \<or> get = ne_raw_get env" and "get s w = (r, w')"
  shows "step w w'" and "r = Inr m \<Longrightarrow> held w' s = Some m" and "r = Inl No_Message \<Longrightarrow> held w' s = None"
proof -
  from assms(1) have "\<forall>get s w r w'. get = ne_direct_get env \<or> get = ne_raw_get env \<longrightarrow> get s w = (r, w') \<longrightarrow>
      step w w' \<and> (\<forall>m. r = Inr m \<longrightarrow> held w' s = Some m) \<and> (r = Inl No_Message \<longrightarrow> held w' s = None)"
    unfolding jetstream_laws_def by (elim conjE) assumption
  from this [rule_format, OF assms(2,3)]
  show "step w w'" "r = Inr m \<Longrightarrow> held w' s = Some m" "r = Inl No_Message \<Longrightarrow> held w' s = None" by simp_all
qed

lemma js_lost:
  assumes "jetstream_laws env held step" and "ne_publish env s h d w = (Inl Wrong_Last_Sequence, w')"
  shows "step w w'"
proof -
  from assms(1) have "\<forall>s h d w w'. ne_publish env s h d w = (Inl Wrong_Last_Sequence, w') \<longrightarrow> step w w'"
    unfolding jetstream_laws_def by (elim conjE) assumption
  with assms(2) show ?thesis by blast
qed

lemma js_won:
  assumes "jetstream_laws env held step" and "ne_publish env s h d w = (Inr (), w')"
  obtains w0 w1 m where "step w w0" "step w1 w'" "held w1 = (held w0)(s \<mapsto> m)" "sm_payload m = d" "sm_headers m = h"
    "\<And>e. bt_get h EXPECTED_SEQUENCE = Some e \<Longrightarrow> e = dec_nat (js_revision (held w0 s))"
proof -
  from assms(1) have "\<forall>s h d w w'. ne_publish env s h d w = (Inr (), w') \<longrightarrow>
        (\<exists>w0 w1 m. step w w0 \<and> step w1 w' \<and> held w1 = (held w0)(s \<mapsto> m) \<and> sm_payload m = d \<and> sm_headers m = h \<and>
          (\<forall>e. bt_get h EXPECTED_SEQUENCE = Some e \<longrightarrow> e = dec_nat (js_revision (held w0 s))))"
    unfolding jetstream_laws_def by (elim conjE) assumption
  from this [rule_format, OF assms(2)] that show thesis by blast
qed

lemma write_expects: "bt_get (write_headers (Some r) ttl) EXPECTED_SEQUENCE = Some (dec_nat r)"
  by (simp add: write_headers_def bt_get_insert EXPECTED_SEQUENCE_def MESSAGE_TTL_def split: option.split)

text \<open>One write: at an instant where the message is still the one that was read.\<close>

definition swapped_at ::
    "('w \<Rightarrow> string \<Rightarrow> stream_message option) \<Rightarrow> ('w \<Rightarrow> 'w \<Rightarrow> bool) \<Rightarrow> string \<Rightarrow> 'w \<Rightarrow> bytes \<Rightarrow> 'w \<Rightarrow> bool" where
  "swapped_at held step s wr d w' \<longleftrightarrow>
     (\<exists>w0 w1 m. step wr w0 \<and> held w0 s = held wr s \<and> held w1 = (held w0)(s \<mapsto> m) \<and> sm_payload m = d \<and> step w1 w')"

section \<open>Snapshots and updates under the contract\<close>

lemma snapshot_reads:
  assumes "jetstream_laws env held step" and "nats_snapshot env b key w = (Inr sn, w')"
  shows "step w w'" and "sn_value sn = kv_seen (ne_now env w') (held w' (st_prefix b @ key))"
    and "sn_revision sn = js_revision (held w' (st_prefix b @ key))"
proof -
  let ?s = "st_prefix b @ key"
  let ?get = "if st_allow_direct b then ne_direct_get env else ne_raw_get env"
  have "?get = ne_direct_get env \<or> ?get = ne_raw_get env" by simp
  note get = js_get [OF assms(1) this]
  from assms(2) obtain mo w2 where l: "last_message env b ?s w = (Inr mo, w2)"
    and k: "(case mo of None \<Rightarrow> act_return \<lparr>sn_revision = 0, sn_value = None, sn_ttl = None\<rparr>
        | Some m \<Rightarrow> act_bind (act_gets (ne_now env)) (\<lambda>now1. act_return (snapshot_of now1 m))) w2 = (Inr sn :: string + kv_snapshot, w')"
    by (auto simp: nats_snapshot_def act_then_def act_bind_Inr act_context_Inr)
  from k have w2: "w2 = w'" by (cases mo) (simp_all add: act_bind_apply)
  from k have sn: "sn = (case mo of None \<Rightarrow> \<lparr>sn_revision = 0, sn_value = None, sn_ttl = None\<rparr> | Some m \<Rightarrow> snapshot_of (ne_now env w') m)"
    by (cases mo) (simp_all add: act_bind_apply w2)
  obtain r w1 where g: "?get ?s w = (r, w1)" by (cases "?get ?s w")
  with l w2 have "w1 = w' \<and> (r = Inr (the mo) \<and> mo \<noteq> None \<or> r = Inl No_Message \<and> mo = None)"
    by (auto simp: last_message_def act_match_apply split: sum.split_asm get_error.split_asm)
  with get [OF g] have "step w w' \<and> held w' ?s = mo" by auto
  with sn show "step w w'" "sn_value sn = kv_seen (ne_now env w') (held w' ?s)" "sn_revision sn = js_revision (held w' ?s)"
    by (auto simp: kv_seen_def js_revision_def snapshot_of_def Let_def split: option.split)
qed

lemma update_lost:
  assumes "jetstream_laws env held step" and "nats_update env b key d r ttl w = (Inr False, w')"
  shows "step w w'"
proof -
  from assms(2) obtain s h where "ne_publish env s h d w = (Inl Wrong_Last_Sequence, w')"
    by (auto simp: nats_update_def nats_publish_def act_then_def act_bind_Inr act_match_apply
        split: prod.split_asm sum.split_asm publish_error.split_asm)
  with assms(1) show ?thesis by (rule js_lost)
qed

lemma update_wins:
  assumes laws: "jetstream_laws env held step" and b: "st_put_prefix b = None"
    and u: "nats_update env b key d (js_revision (held wr (st_prefix b @ key))) ttl wr = (Inr True, w')"
  shows "swapped_at held step (st_prefix b @ key) wr d w'"
proof -
  let ?s = "st_prefix b @ key" and ?h = "write_headers (Some (js_revision (held wr (st_prefix b @ key)))) ttl"
  from u b have "ne_publish env ?s ?h d wr = (Inr (), w')"
    by (auto simp: nats_update_def nats_publish_def put_subject_def act_then_def act_bind_Inr act_match_apply
        split: prod.split_asm sum.split_asm publish_error.split_asm)
  with laws obtain w0 w1 m where m: "step wr w0" "step w1 w'" "held w1 = (held w0)(?s \<mapsto> m)" "sm_payload m = d"
    and e: "\<And>e. bt_get ?h EXPECTED_SEQUENCE = Some e \<Longrightarrow> e = dec_nat (js_revision (held w0 ?s))"
    by (rule js_won) blast
  from e have "js_revision (held wr ?s) = js_revision (held w0 ?s)" using write_expects by (simp add: dec_nat_inj)
  with laws m(1) have "held wr ?s = held w0 ?s" by (rule js_same)
  with m show ?thesis unfolding swapped_at_def by metis
qed

lemma increment_rounds_wins:
  assumes laws: "jetstream_laws env held step" and b: "st_put_prefix b = None"
  shows "increment_rounds k env add_fn b key delta w = (Inr n, w') \<Longrightarrow>
    \<exists>wr. step w wr \<and> add_fn (kv_seen (ne_now env wr) (held wr (st_prefix b @ key))) delta = Inr n \<and>
      swapped_at held step (st_prefix b @ key) wr (i64_to_be n) w'"
proof (induction k arbitrary: w)
  case (Suc k)
  from Suc.prems obtain sn w1 i won w2 where s: "nats_snapshot env b key w = (Inr sn, w1)"
    and a: "add_fn (sn_value sn) delta = Inr i"
    and u: "nats_update env b key (i64_to_be i) (sn_revision sn) (sn_ttl sn) w1 = (Inr won, w2)"
    and rest: "(if won then act_return i else increment_rounds k env add_fn b key delta) w2 = (Inr n, w')"
    by (auto simp: act_bind_Inr act_context_Inr)
  note sn = snapshot_reads [OF laws s]
  show ?case
  proof (cases won)
    case True
    with rest have "i = n" "w2 = w'" by simp_all
    moreover from u True sn(3) have "swapped_at held step (st_prefix b @ key) w1 (i64_to_be i) w2"
      using update_wins [OF laws b] by simp
    ultimately show ?thesis using sn a by auto
  next
    case False
    with u have "step w1 w2" using update_lost [OF laws] by simp
    with sn(1) have t: "step w w2" using js_trans [OF laws] by blast
    from False rest have "increment_rounds k env add_fn b key delta w2 = (Inr n, w')" by simp
    from Suc.IH [OF this] t show ?thesis using js_trans [OF laws] by blast
  qed
qed simp


section \<open>A server that keeps the contract\<close>

text \<open>A log, newest first; a message's sequence is its place, and other clients may append.\<close>

type_synonym js_log = "(string \<times> header_map \<times> bytes) list"

fun log_held :: "js_log \<Rightarrow> string \<Rightarrow> stream_message option" where
  "log_held [] s = None"
| "log_held ((s', h, d) # w) s =
     (if s' = s then Some \<lparr>sm_sequence = Suc (length w), sm_headers = h, sm_payload = d, sm_time = 0\<rparr> else log_held w s)"

definition log_step :: "js_log \<Rightarrow> js_log \<Rightarrow> bool" where
  "log_step w w' \<longleftrightarrow> (\<exists>ys. w' = ys @ w)"

definition log_get :: "string \<Rightarrow> (js_log, get_error, stream_message) act" where
  "log_get s w = (case log_held w s of None \<Rightarrow> Inl No_Message | Some m \<Rightarrow> Inr m, w)"

definition log_publish :: "string \<Rightarrow> header_map \<Rightarrow> bytes \<Rightarrow> (js_log, publish_error, unit) act" where
  "log_publish s h d w =
     (if bt_get h EXPECTED_SEQUENCE \<in> {None, Some (dec_nat (js_revision (log_held w s)))} then (Inr (), (s, h, d) # w)
      else (Inl Wrong_Last_Sequence, w))"

definition log_env :: "js_log nats_env" where
  "log_env = \<lparr>ne_get_store = (\<lambda>_. act_return \<lparr>st_prefix = ''$KV.b.'', st_put_prefix = None, st_allow_direct = True\<rparr>),
     ne_create_store = (\<lambda>_. act_fail ''refused''), ne_direct_get = log_get, ne_raw_get = log_get, ne_publish = log_publish,
     ne_delete = (\<lambda>_. act_return ()), ne_keys = act_return [], ne_now = (\<lambda>_. 0)\<rparr>"

lemma log_held_bound: "log_held w s = Some m \<Longrightarrow> sm_sequence m \<le> length w \<and> 0 < sm_sequence m"
  by (induction w s rule: log_held.induct) (auto split: if_splits)

lemma log_held_append: "log_held (ys @ w) s = log_held w s \<or> length w < js_revision (log_held (ys @ w) s)"
  by (induction ys) (auto simp: js_revision_def)

lemma log_held_revision: "js_revision (log_held w s) \<le> length w"
  using log_held_bound [of w s] by (auto simp: js_revision_def split: option.split)

lemma log_laws: "jetstream_laws log_env log_held log_step"
proof -
  have keeps: "log_step w1 w2 \<Longrightarrow> js_revision (log_held w1 s) = js_revision (log_held w2 s) \<Longrightarrow> log_held w1 s = log_held w2 s"
    for w1 w2 s
    using log_held_append [of _ w1 s] log_held_revision [of w1 s] unfolding log_step_def by (metis not_le)
  have trans1: "log_step w1 w2 \<Longrightarrow> log_step w2 w3 \<Longrightarrow> log_step w1 w3" for w1 w2 w3
    unfolding log_step_def by (metis append.assoc)
  have refl1: "log_step w w" for w unfolding log_step_def by simp
  have pub: "\<exists>w0 w1 m. log_step w w0 \<and> log_step w1 w' \<and> log_held w1 = (log_held w0)(s \<mapsto> m) \<and> sm_payload m = d \<and> sm_headers m = h \<and>
      (\<forall>e. bt_get h EXPECTED_SEQUENCE = Some e \<longrightarrow> e = dec_nat (js_revision (log_held w0 s)))"
    if "log_publish s h d w = (Inr (), w')" for s h d w w'
  proof (intro exI conjI)
    let ?m = "\<lparr>sm_sequence = Suc (length w), sm_headers = h, sm_payload = d, sm_time = 0\<rparr>"
    show "log_step w w" "log_step w' w'" by (rule refl1)+
    show "log_held w' = (log_held w)(s \<mapsto> ?m)" using that by (auto simp: log_publish_def split: if_split_asm)
    show "\<forall>e. bt_get h EXPECTED_SEQUENCE = Some e \<longrightarrow> e = dec_nat (js_revision (log_held w s))"
      using that by (auto simp: log_publish_def split: if_split_asm)
  qed simp_all
  have lost: "log_publish s h d w = (Inl Wrong_Last_Sequence, w') \<Longrightarrow> log_step w w'" for s h d w w'
    using refl1 by (auto simp: log_publish_def split: if_split_asm)
  show ?thesis unfolding jetstream_laws_def
    using refl1 trans1 keeps pub lost by (auto simp: log_env_def log_get_def split: option.split_asm)
qed

definition sample_add :: counter_add where
  "sample_add v delta = Inr (delta + (case v of None \<Rightarrow> 0 | Some d \<Rightarrow> i64_from_be d))"

definition sample_store :: kv_store where
  "sample_store = \<lparr>st_prefix = ''$KV.b.'', st_put_prefix = None, st_allow_direct = True\<rparr>"


text \<open>
  A compare-and-swap that succeeds replaced the message it compared, with nothing written between;
  one that does not reports the value held at an instant of the call and wrote nothing.
\<close>

theorem nats_cas_atomic:
  assumes laws: "jetstream_laws env held step" and b: "st_put_prefix b = None"
    and c: "nats_cas env b key expected d w = (Inr r, w')"
  shows "case r of
      Inr _ \<Rightarrow> \<exists>wr. step w wr \<and> kv_seen (ne_now env wr) (held wr (st_prefix b @ key)) = expected \<and>
        swapped_at held step (st_prefix b @ key) wr d w'
    | Inl seen \<Rightarrow> step w w' \<and> seen = kv_seen (ne_now env w') (held w' (st_prefix b @ key))"
proof -
  from c obtain sn w1 where s: "nats_snapshot env b key w = (Inr sn, w1)"
    and rest: "(if sn_value sn \<noteq> expected then act_return (Inl (sn_value sn))
       else act_bind (nats_update env b key d (sn_revision sn) (sn_ttl sn)) (\<lambda>won.
         if won then act_return (Inr ()) else act_bind (nats_snapshot env b key) (\<lambda>s. act_return (Inl (sn_value s))))) w1 = (Inr r, w')"
    by (auto simp: nats_cas_def act_bind_Inr)
  note sn = snapshot_reads [OF laws s]
  show ?thesis
  proof (cases "sn_value sn = expected")
    case False
    with rest sn show ?thesis by auto
  next
    case True
    with rest obtain won w2 where u: "nats_update env b key d (sn_revision sn) (sn_ttl sn) w1 = (Inr won, w2)"
      and fin: "(if won then act_return (Inr ()) else act_bind (nats_snapshot env b key) (\<lambda>s. act_return (Inl (sn_value s)))) w2 = (Inr r, w')"
      by (auto simp: act_bind_Inr)
    show ?thesis
    proof (cases won)
      case won: True
      with fin have "r = Inr ()" "w2 = w'" by simp_all
      with u won sn(3) have "swapped_at held step (st_prefix b @ key) w1 d w'" using update_wins [OF laws b] by simp
      with \<open>r = Inr ()\<close> sn(1,2) True show ?thesis by auto
    next
      case lost: False
      with fin obtain sn' where s': "nats_snapshot env b key w2 = (Inr sn', w')" and r: "r = Inl (sn_value sn')"
        by (auto simp: act_bind_Inr)
      from u lost have "step w1 w2" using update_lost [OF laws] by simp
      with sn(1) snapshot_reads(1) [OF laws s'] have "step w w'" using js_trans [OF laws] by blast
      with r snapshot_reads(2) [OF laws s'] show ?thesis by simp
    qed
  qed
qed

theorem nats_cas_atomic_witness:
  "\<exists>wr w'. log_step [] wr \<and> kv_seen 0 (log_held wr ''$KV.b.k'') = None \<and> swapped_at log_held log_step ''$KV.b.k'' wr [1, 2] w'"
proof -
  have "nats_validate_key ''k'' = Inr ()" by code_simp
  then have "nats_cas log_env sample_store ''k'' None [1, 2] [] = (Inr (Inr ()), [(''$KV.b.k'', [(EXPECTED_SEQUENCE, dec_nat 0)], [1, 2])])"
    by (simp add: nats_cas_def act_bind_apply act_then_def act_match_apply
        act_context_def nats_snapshot_def last_message_def log_env_def sample_store_def log_get_def nats_update_def
        nats_publish_def put_subject_def log_publish_def write_headers_def js_revision_def EXPECTED_SEQUENCE_def)
  from nats_cas_atomic [OF log_laws _ this] show ?thesis by (auto simp: sample_store_def log_env_def)
qed

section \<open>The time to live a write carries over\<close>

text \<open>
  The header is in whole seconds, at least one: a carried time to live is cut by up to a second at
  each write, and in the last second it is a whole second again, so a key written to more often than
  once a second then never expires.
\<close>

lemma carried_ttl_header: "bt_get (write_headers r (Some t)) MESSAGE_TTL = Some (dec_nat (max (t div SECOND) 1))"
  by (simp add: write_headers_def bt_get_insert)

lemma carried_ttl_cut:
  assumes "SECOND \<le> t"
  shows "max (t div SECOND) 1 * SECOND \<le> t" and "t < (max (t div SECOND) 1 + 1) * SECOND"
proof -
  have "0 < SECOND" by (simp add: SECOND_def)
  then have "max (t div SECOND) 1 = t div SECOND" using assms by (simp add: div_greater_zero_iff Suc_le_eq)
  then show "max (t div SECOND) 1 * SECOND \<le> t" "t < (max (t div SECOND) 1 + 1) * SECOND"
    using \<open>0 < SECOND\<close> dividend_less_div_times [of SECOND t] by (simp_all add: add.commute)
qed

lemma parse_u64_one: "parse_u64 (dec_nat 1) = Some 1"
proof -
  have "dec_nat 1 = ''1''" "parse_digits ''1'' = Some 1" by code_simp+
  then show ?thesis by (simp add: parse_u64_def)
qed

lemma last_second_renewed:
  assumes "remaining_ttl now1 m = Some t" and "0 < t" and "t < 2 * SECOND" and "sm_time m' = now1"
    and "sm_headers m' = write_headers r (Some t)"
  shows "remaining_ttl now1 m' = Some SECOND"
proof -
  from assms(3) have "t div SECOND < 2" by (rule less_mult_imp_div_less)
  then have "max (t div SECOND) 1 = 1" by simp
  with assms(4,5) carried_ttl_header [of r t] parse_u64_one show ?thesis by (simp add: remaining_ttl_def)
qed

end
