(* ===== verification/Redis_KeyValue.thy ===== *)
theory Redis_KeyValue
  imports Rust_Text Rust_Effect Rust_Num Prelude
begin

text \<open>
  The key-value surface over Redis (\<open>src/crates/redis/src/keyvalue.rs\<close>): keys under their bucket,
  one command each, the compare-and-set script, and the scan of a bucket's keys. The server's commands
  are the environment; its documented contract is \<open>redis_laws\<close>, under which a bucket is a map
  whose entries may carry a time to live.
\<close>

section \<open>The server's commands\<close>

text \<open>An integer reply is a signed 64-bit integer, and a scan's cursor a natural number.\<close>

type_synonym swap_reply = "int \<times> int \<times> bytes"

record 'w redis_env =
  rd_get :: "string \<Rightarrow> ('w, string, bytes option) act"
  rd_set :: "string \<Rightarrow> bytes \<Rightarrow> ('w, string, unit) act"
  rd_set_ex :: "string \<Rightarrow> bytes \<Rightarrow> nat \<Rightarrow> ('w, string, unit) act"
  rd_set_keepttl :: "string \<Rightarrow> bytes \<Rightarrow> ('w, string, unit) act"
  rd_del :: "string \<Rightarrow> ('w, string, unit) act"
  rd_exists :: "string \<Rightarrow> ('w, string, bool) act"
  rd_incr :: "string \<Rightarrow> 64 word \<Rightarrow> ('w, string, 64 word) act"
  rd_scan :: "nat \<Rightarrow> string \<Rightarrow> ('w, string, nat \<times> string list) act"
  rd_script :: "('w, string, swap_reply) act \<Rightarrow> ('w, string, swap_reply) act"

section \<open>The bucket\<close>

definition bucket_key :: "string \<Rightarrow> string \<Rightarrow> string" where
  "bucket_key identifier key = identifier @ '':'' @ key"

definition strip_bucket_prefix :: "string \<Rightarrow> string \<Rightarrow> string option" where
  "strip_bucket_prefix identifier raw_key = Option.bind (strip_prefix identifier raw_key) (strip_prefix '':'')"

definition redis_get :: "'w redis_env \<Rightarrow> string \<Rightarrow> string \<Rightarrow> ('w, string, bytes option) act" where
  "redis_get env b key = (let key = bucket_key b key in act_context (''failed to get value for '' @ key) (rd_get env key))"

text \<open>A time to live in nanoseconds goes out in whole seconds, at least one.\<close>

definition whole_seconds :: "nat \<Rightarrow> nat" where
  "whole_seconds ttl = max (ttl div 1000000000) 1"

definition redis_set :: "'w redis_env \<Rightarrow> string \<Rightarrow> string \<Rightarrow> bytes \<Rightarrow> nat option \<Rightarrow> ('w, string, unit) act" where
  "redis_set env b key data ttl =
     (let key = bucket_key b key in
      act_context (''failed to set value for '' @ key)
        (case ttl of Some t \<Rightarrow> rd_set_ex env key data (whole_seconds t) | None \<Rightarrow> rd_set env key data))"

definition redis_delete :: "'w redis_env \<Rightarrow> string \<Rightarrow> string \<Rightarrow> ('w, string, unit) act" where
  "redis_delete env b key = (let key = bucket_key b key in act_context (''failed to delete value for '' @ key) (rd_del env key))"

definition redis_exists :: "'w redis_env \<Rightarrow> string \<Rightarrow> string \<Rightarrow> ('w, string, bool) act" where
  "redis_exists env b key =
     (let key = bucket_key b key in act_context (''failed to check existence of key '' @ key) (rd_exists env key))"

definition redis_increment :: "'w redis_env \<Rightarrow> string \<Rightarrow> string \<Rightarrow> 64 word \<Rightarrow> ('w, string, 64 word) act" where
  "redis_increment env b key delta =
     (let key = bucket_key b key in act_context (''failed to increment '' @ key) (rd_incr env key delta))"

text \<open>The script: compare and write in one step of the server, the time to live kept.\<close>

definition cas_script :: "'w redis_env \<Rightarrow> string \<Rightarrow> bool \<Rightarrow> bytes \<Rightarrow> bytes \<Rightarrow> ('w, string, swap_reply) act" where
  "cas_script env key has_expected expected data =
     act_bind (rd_get env key) (\<lambda>current.
       if (if has_expected then current = Some expected else current = None) then
         act_then (rd_set_keepttl env key data) (act_return (1, 0, []))
       else act_return (case current of None \<Rightarrow> (0, 0, []) | Some c \<Rightarrow> (0, 1, c)))"

definition redis_cas ::
    "'w redis_env \<Rightarrow> string \<Rightarrow> string \<Rightarrow> bytes option \<Rightarrow> bytes \<Rightarrow> ('w, string, bytes option + unit) act" where
  "redis_cas env b key expected data =
     (let key = bucket_key b key in
      act_bind (act_context (''failed to swap '' @ key)
        (rd_script env (cas_script env key (expected \<noteq> None) (case expected of None \<Rightarrow> [] | Some e \<Rightarrow> e) data)))
      (\<lambda>(swapped, present, observed).
        if swapped = 1 then act_return (Inr ())
        else if (swapped, present) = (0, 1) then act_return (Inl (Some observed))
        else if (swapped, present) = (0, 0) then act_return (Inl None)
        else act_fail (''unexpected swap response for '' @ key @ '': ('' @ dec_int swapped @ '', '' @ dec_int present @ '')'')))"

text \<open>The scan goes on until the server's cursor is back at zero; out of fuel is None.\<close>

fun scan_rounds :: "nat \<Rightarrow> 'w redis_env \<Rightarrow> string \<Rightarrow> nat \<Rightarrow> string list \<Rightarrow> 'w \<Rightarrow> ((string + string list) \<times> 'w) option" where
  "scan_rounds 0 env b cursor1 acc w = None"
| "scan_rounds (Suc n) env b cursor1 acc w =
     (case act_context (''failed to list keys for '' @ b @ '':*'') (rd_scan env cursor1 (b @ '':*'')) w of
        (Inl e, w) \<Rightarrow> Some (Inl e, w)
      | (Inr (next_cursor, batch), w) \<Rightarrow>
          (let acc = acc @ List.map_filter (strip_bucket_prefix b) batch
           in if next_cursor = 0 then Some (Inr acc, w) else scan_rounds n env b next_cursor acc w))"

definition redis_keys :: "nat \<Rightarrow> 'w redis_env \<Rightarrow> string \<Rightarrow> 'w \<Rightarrow> ((string + string list) \<times> 'w) option" where
  "redis_keys fuel env b = scan_rounds fuel env b 0 []"

datatype redis_call = Rd_Get | Rd_Set bytes "nat option" | Rd_Delete | Rd_Exists | Rd_Increment "64 word" | Rd_Cas "bytes option" bytes

datatype redis_reply = Rd_Value "bytes option" | Rd_Done | Rd_Present bool | Rd_Count "64 word" | Rd_Stale "bytes option"

definition redis_run :: "'w redis_env \<Rightarrow> string \<Rightarrow> string \<Rightarrow> redis_call \<Rightarrow> ('w, string, redis_reply) act" where
  "redis_run env b key call =
     (case call of
        Rd_Get \<Rightarrow> act_bind (redis_get env b key) (\<lambda>v. act_return (Rd_Value v))
      | Rd_Set data ttl \<Rightarrow> act_then (redis_set env b key data ttl) (act_return Rd_Done)
      | Rd_Delete \<Rightarrow> act_then (redis_delete env b key) (act_return Rd_Done)
      | Rd_Exists \<Rightarrow> act_bind (redis_exists env b key) (\<lambda>x. act_return (Rd_Present x))
      | Rd_Increment delta \<Rightarrow> act_bind (redis_increment env b key delta) (\<lambda>n. act_return (Rd_Count n))
      | Rd_Cas expected data \<Rightarrow> act_bind (redis_cas env b key expected data)
          (\<lambda>r. act_return (case r of Inl seen \<Rightarrow> Rd_Stale seen | Inr _ \<Rightarrow> Rd_Done)))"

section \<open>The server's contract and the bucket as a map\<close>

text \<open>
  An entry is a value and the whole seconds it was last given to live, if any. A command answers and
  changes one entry; the script runs alone. \<open>INCRBY\<close> reads and writes a decimal text and keeps
  the time to live.
\<close>

type_synonym redis_entry = "bytes \<times> nat option"

definition counter_text :: "64 word \<Rightarrow> bytes" where
  "counter_text n = map (\<lambda>c. word_of_nat (of_char c)) (dec_int (sint n))"

definition redis_laws :: "'w redis_env \<Rightarrow> ('w \<Rightarrow> string \<Rightarrow> redis_entry option) \<Rightarrow> (bytes \<Rightarrow> 64 word option) \<Rightarrow> bool" where
  "redis_laws env held read_count \<longleftrightarrow>
     (\<forall>k w v w'. rd_get env k w = (Inr v, w') \<longrightarrow> held w' = held w \<and> v = map_option fst (held w k)) \<and>
     (\<forall>k d w w'. rd_set env k d w = (Inr (), w') \<longrightarrow> held w' = (held w)(k \<mapsto> (d, None))) \<and>
     (\<forall>k d t w w'. rd_set_ex env k d t w = (Inr (), w') \<longrightarrow> held w' = (held w)(k \<mapsto> (d, Some t))) \<and>
     (\<forall>k d w w'. rd_set_keepttl env k d w = (Inr (), w') \<longrightarrow> held w' = (held w)(k \<mapsto> (d, Option.bind (held w k) snd))) \<and>
     (\<forall>k w w'. rd_del env k w = (Inr (), w') \<longrightarrow> held w' = (held w)(k := None)) \<and>
     (\<forall>k w x w'. rd_exists env k w = (Inr x, w') \<longrightarrow> held w' = held w \<and> x = (held w k \<noteq> None)) \<and>
     (\<forall>k d w n w'. rd_incr env k d w = (Inr n, w') \<longrightarrow>
        held w' = (held w)(k \<mapsto> (counter_text n, Option.bind (held w k) snd)) \<and>
        (\<exists>n0. (case held w k of None \<Rightarrow> n0 = 0 | Some e \<Rightarrow> read_count (fst e) = Some n0) \<and> n = n0 + d)) \<and>
     (\<forall>p w r w'. rd_script env p w = (Inr r, w') \<longrightarrow> p w = (Inr r, w'))"

text \<open>What each call answers and leaves of the entry; None where the server refuses.\<close>

definition redis_spec :: "(bytes \<Rightarrow> 64 word option) \<Rightarrow> redis_call \<Rightarrow> redis_entry option \<Rightarrow> (redis_reply \<times> redis_entry option) option" where
  "redis_spec read_count call v =
     (case call of
        Rd_Get \<Rightarrow> Some (Rd_Value (map_option fst v), v)
      | Rd_Set data ttl \<Rightarrow> Some (Rd_Done, Some (data, map_option whole_seconds ttl))
      | Rd_Delete \<Rightarrow> Some (Rd_Done, None)
      | Rd_Exists \<Rightarrow> Some (Rd_Present (v \<noteq> None), v)
      | Rd_Increment delta \<Rightarrow>
          map_option (\<lambda>n. (Rd_Count (n + delta), Some (counter_text (n + delta), Option.bind v snd)))
            (case v of None \<Rightarrow> Some 0 | Some e \<Rightarrow> read_count (fst e))
      | Rd_Cas expected data \<Rightarrow>
          if map_option fst v = expected then Some (Rd_Done, Some (data, Option.bind v snd))
          else Some (Rd_Stale (map_option fst v), v))"

lemma rd_laws:
  assumes "redis_laws env held read_count"
  shows "rd_get env k w = (Inr v, w') \<Longrightarrow> held w' = held w \<and> v = map_option fst (held w k)"
    and "rd_set env k d w = (Inr (), w') \<Longrightarrow> held w' = (held w)(k \<mapsto> (d, None))"
    and "rd_set_ex env k d t w = (Inr (), w') \<Longrightarrow> held w' = (held w)(k \<mapsto> (d, Some t))"
    and "rd_set_keepttl env k d w = (Inr (), w') \<Longrightarrow> held w' = (held w)(k \<mapsto> (d, Option.bind (held w k) snd))"
    and "rd_del env k w = (Inr (), w') \<Longrightarrow> held w' = (held w)(k := None)"
    and "rd_exists env k w = (Inr x, w') \<Longrightarrow> held w' = held w \<and> x = (held w k \<noteq> None)"
    and "rd_incr env k delta w = (Inr n, w') \<Longrightarrow>
        held w' = (held w)(k \<mapsto> (counter_text n, Option.bind (held w k) snd)) \<and>
        (\<exists>n0. (case held w k of None \<Rightarrow> n0 = 0 | Some e \<Rightarrow> read_count (fst e) = Some n0) \<and> n = n0 + delta)"
    and "rd_script env p w = (Inr r, w') \<Longrightarrow> p w = (Inr r, w')"
  using assms unfolding redis_laws_def by metis+

lemma cas_script_exact:
  assumes laws: "redis_laws env held read_count" and s: "cas_script env k h e d w = (Inr (a, p, c), w')"
  shows "if (if h then map_option fst (held w k) = Some e else held w k = None)
    then a = 1 \<and> held w' = (held w)(k \<mapsto> (d, Option.bind (held w k) snd))
    else a = 0 \<and> held w' = held w \<and>
      (case held w k of None \<Rightarrow> p = 0 | Some x \<Rightarrow> p = 1 \<and> c = fst x)"
proof -
  from s obtain v w1 where g: "rd_get env k w = (Inr v, w1)"
    and r: "(if (if h then v = Some e else v = None) then act_then (rd_set_keepttl env k d) (act_return (1, 0, []))
       else act_return (case v of None \<Rightarrow> (0, 0, []) | Some c \<Rightarrow> (0, 1, c))) w1 = (Inr (a, p, c) :: string + swap_reply, w')"
    by (auto simp: cas_script_def act_bind_Inr)
  from rd_laws(1) [OF laws g] have v: "held w1 = held w" "v = map_option fst (held w k)" by simp_all
  show ?thesis
  proof (cases "if h then v = Some e else v = None")
    case True
    from r have "a = 1" "rd_set_keepttl env k d w1 = (Inr (), w')"
      unfolding if_P [OF True] by (auto simp: act_then_def act_bind_Inr)
    with rd_laws(4) [OF laws] v True show ?thesis by (cases "held w k") (auto split: if_splits)
  next
    case False
    from r v show ?thesis unfolding if_not_P [OF False] using False by (auto split: if_splits option.splits)
  qed
qed

text \<open>
  C32. A bucket behaves as a map: every call that returns answers as the map does, leaves in the one
  entry of its bucket and key what the map leaves, its time to live kept by a swap and an increment
  and replaced by a set, and leaves every other entry as it was.
\<close>

theorem redis_refines_map:
  assumes laws: "redis_laws env held read_count" and run: "redis_run env b key call w = (Inr reply, w')"
  shows "\<exists>v. redis_spec read_count call (held w (bucket_key b key)) = Some (reply, v) \<and>
    held w' = (held w)(bucket_key b key := v)"
proof (cases call)
  case Rd_Get
  with run rd_laws(1) [OF laws] show ?thesis
    by (auto simp: redis_run_def redis_get_def Let_def act_bind_Inr act_context_Inr redis_spec_def fun_upd_idem)
next
  case (Rd_Set data ttl)
  with run rd_laws(2,3) [OF laws] show ?thesis
    by (cases ttl) (auto simp: redis_run_def redis_set_def Let_def act_then_def act_bind_Inr act_context_Inr redis_spec_def)
next
  case Rd_Delete
  with run rd_laws(5) [OF laws] show ?thesis
    by (auto simp: redis_run_def redis_delete_def Let_def act_then_def act_bind_Inr act_context_Inr redis_spec_def)
next
  case Rd_Exists
  with run obtain x where x: "rd_exists env (bucket_key b key) w = (Inr x, w')" "reply = Rd_Present x"
    by (auto simp: redis_run_def redis_exists_def Let_def act_bind_Inr act_context_Inr)
  from rd_laws(6) [OF laws x(1)] x(2) Rd_Exists show ?thesis by (simp add: redis_spec_def fun_upd_idem)
next
  case (Rd_Increment delta)
  with run obtain n where n: "rd_incr env (bucket_key b key) delta w = (Inr n, w')" "reply = Rd_Count n"
    by (auto simp: redis_run_def redis_increment_def Let_def act_bind_Inr act_context_Inr)
  with rd_laws(7) [OF laws n(1)] Rd_Increment show ?thesis by (auto simp: redis_spec_def split: option.splits)
next
  case (Rd_Cas expected data)
  let ?k = "bucket_key b key" and ?e = "case expected of None \<Rightarrow> [] | Some e \<Rightarrow> e"
  from run Rd_Cas obtain a p c where s: "rd_script env (cas_script env ?k (expected \<noteq> None) ?e data) w = (Inr (a, p, c), w')"
    and r: "reply = (if a = 1 then Rd_Done else if (a, p) = (0, 1) then Rd_Stale (Some c) else Rd_Stale None)"
    by (auto simp: redis_run_def redis_cas_def Let_def act_bind_Inr act_context_Inr split: if_split_asm)
  from cas_script_exact [OF laws rd_laws(8) [OF laws s]] r Rd_Cas show ?thesis
    by (cases expected; cases "held w ?k") (auto simp: redis_spec_def fun_upd_idem split: if_split_asm)
qed

text \<open>A server of one map, for the witness.\<close>

type_synonym redis_map = "string \<Rightarrow> redis_entry option"

definition map_env :: "redis_map redis_env" where
  "map_env = \<lparr>rd_get = (\<lambda>k w. (Inr (map_option fst (w k)), w)),
     rd_set = (\<lambda>k d w. (Inr (), w(k \<mapsto> (d, None)))), rd_set_ex = (\<lambda>k d t w. (Inr (), w(k \<mapsto> (d, Some t)))),
     rd_set_keepttl = (\<lambda>k d w. (Inr (), w(k \<mapsto> (d, Option.bind (w k) snd)))),
     rd_del = (\<lambda>k w. (Inr (), w(k := None))), rd_exists = (\<lambda>k w. (Inr (w k \<noteq> None), w)),
     rd_incr = (\<lambda>k d w. if w k = None then (Inr d, w(k \<mapsto> (counter_text d, None))) else (Inl ''not an integer'', w)),
     rd_scan = (\<lambda>_ _ w. (Inr (0, []), w)), rd_script = (\<lambda>p. p)\<rparr>"

lemma map_env_laws: "redis_laws map_env (\<lambda>w. w) (\<lambda>_. None)"
  unfolding redis_laws_def map_env_def by (intro conjI) (auto split: if_split_asm)

theorem redis_refines_map_witness:
  "redis_spec (\<lambda>_. None) (Rd_Cas (Some [1]) [2]) (Some ([1], Some 9)) = Some (Rd_Done, Some ([2], Some 9)) \<and>
   fst (redis_run map_env ''b'' ''k'' (Rd_Cas (Some [1]) [2]) [''b:k'' \<mapsto> ([1], Some 9)]) = Inr Rd_Done"
proof -
  let ?w = "[''b:k'' \<mapsto> ([1 :: byte], Some (9 :: nat))]"
  have r: "redis_run map_env ''b'' ''k'' (Rd_Cas (Some [1]) [2]) ?w = (Inr Rd_Done, ?w(''b:k'' \<mapsto> ([2], Some 9)))"
    by (simp add: redis_run_def redis_cas_def Let_def cas_script_def map_env_def bucket_key_def act_bind_apply act_then_def
        act_context_def act_match_apply)
  from redis_refines_map [OF map_env_laws r] r show ?thesis by (simp add: redis_spec_def bucket_key_def)
qed

section \<open>Buckets and their keys\<close>

lemma strip_bucket_prefix_Some: "strip_bucket_prefix b raw = Some k \<longleftrightarrow> raw = bucket_key b k"
  by (auto simp: strip_bucket_prefix_def bucket_key_def bind_eq_Some_conv)

lemma buckets_apart: "CHR '':'' \<notin> set b \<Longrightarrow> CHR '':'' \<notin> set b' \<Longrightarrow> bucket_key b k = bucket_key b' k' \<longleftrightarrow> b = b' \<and> k = k'"
  using split_once_Some [of "CHR '':''" "bucket_key b k" b k] split_once_Some [of "CHR '':''" "bucket_key b k" b' k']
  by (auto simp: bucket_key_def)

text \<open>A bucket name with a colon shares entries with the bucket its name starts with.\<close>

lemma buckets_overlap: "bucket_key ''a'' ''b:c'' = bucket_key ''a:b'' ''c''"
  by (simp add: bucket_key_def)

text \<open>
  A listing names keys of its own bucket only: under whatever cursors and batches the server scans
  with, each name listed is the key of an entry the server returned under the bucket's prefix, and the
  listing is all of those in the order they came.
\<close>

lemma redis_keys_exact:
  assumes "redis_keys fuel env b w = Some (Inr ks, w')"
  shows "\<exists>batches. ks = List.map_filter (strip_bucket_prefix b) (concat batches) \<and>
    list_all (\<lambda>batch. \<exists>cursor1 w1 w2 next_cursor. rd_scan env cursor1 (bucket_key b ''*'') w1 = (Inr (next_cursor, batch), w2)) batches"
proof -
  have "scan_rounds fuel env b c acc w = Some (Inr ks, w') \<Longrightarrow>
      \<exists>batches. ks = acc @ List.map_filter (strip_bucket_prefix b) (concat batches) \<and>
        list_all (\<lambda>batch. \<exists>cursor1 w1 w2 next_cursor. rd_scan env cursor1 (bucket_key b ''*'') w1 = (Inr (next_cursor, batch), w2)) batches"
    for c acc
  proof (induction fuel arbitrary: c acc w)
    case (Suc n)
    obtain r w1 where r: "act_context (''failed to list keys for '' @ b @ '':*'') (rd_scan env c (b @ '':*'')) w = (r, w1)"
      by (cases "act_context (''failed to list keys for '' @ b @ '':*'') (rd_scan env c (b @ '':*'')) w")
    with Suc.prems obtain next_cursor batch where b: "r = Inr (next_cursor, batch)" by (cases r) auto
    with r have s: "rd_scan env c (bucket_key b ''*'') w = (Inr (next_cursor, batch), w1)"
      by (simp add: act_context_Inr bucket_key_def)
    show ?case
    proof (cases "next_cursor = 0")
      case True
      with Suc.prems r b have "ks = acc @ List.map_filter (strip_bucket_prefix b) batch" by simp
      with s show ?thesis by (intro exI [of _ "[batch]"]) auto
    next
      case False
      with Suc.prems r b have "scan_rounds n env b next_cursor (acc @ List.map_filter (strip_bucket_prefix b) batch) w1 = Some (Inr ks, w')"
        by simp
      from Suc.IH [OF this] obtain bs where
        "ks = (acc @ List.map_filter (strip_bucket_prefix b) batch) @ List.map_filter (strip_bucket_prefix b) (concat bs)"
        "list_all (\<lambda>batch. \<exists>cursor1 w1 w2 next_cursor. rd_scan env cursor1 (bucket_key b ''*'') w1 = (Inr (next_cursor, batch), w2)) bs"
        by blast
      with s show ?thesis by (intro exI [of _ "batch # bs"]) (auto simp: List.map_filter_def)
    qed
  qed simp
  from this [of 0 "[]"] assms show ?thesis by (simp add: redis_keys_def)
qed

end
