(* ===== verification/Postgres_Sql.thy ===== *)
theory Postgres_Sql
  imports Rust_Json Rust_Effect Rust_BTree Rust_Num
begin

text \<open>
  The SQL surface over Postgres (\<open>src/crates/postgres/src\<close>): a statement's parameters, its rows,
  the pools a connection comes from (\<open>sql.rs\<close>, \<open>lib.rs\<close>), and how a parameter is written
  for the wire (\<open>types.rs\<close>). Dates and times are chrono's and stay abstract, with their parsers and
  printers as a parameter; the driver and its pools are the environment.
\<close>

section \<open>Values\<close>

datatype data_type =
    D_Int32 "32 word option"
  | D_Int64 "64 word option"
  | D_Uint32 "32 word option"
  | D_Uint64 "64 word option"
  | D_Float "32 word option"
  | D_Double "f64 option"
  | D_Str "string option"
  | D_Boolean "bool option"
  | D_Date "string option"
  | D_Time "string option"
  | D_Timestamp "string option"
  | D_Binary "bytes option"

datatype ('d, 't, 'n, 'z) pg_value =
    Pg_Int32 "32 word option"
  | Pg_Int64 "64 word option"
  | Pg_Uint32 "32 word option"
  | Pg_Float "32 word option"
  | Pg_Double "f64 option"
  | Pg_Text "string option"
  | Pg_Bool "bool option"
  | Pg_Date "'d option"
  | Pg_Time "'t option"
  | Pg_Timestamp "'n option"
  | Pg_Timestamp_Tz "'z option"
  | Pg_Binary "bytes option"

record ('d, 't, 'n, 'z) chrono =
  ch_parse_date :: "string \<Rightarrow> 'd option"
  ch_parse_time :: "string \<Rightarrow> 't option"
  ch_parse_naive :: "string \<Rightarrow> 'n option"
  ch_parse_rfc3339 :: "string \<Rightarrow> 'z option"
  ch_date :: "'d \<Rightarrow> string"
  ch_time :: "'t \<Rightarrow> string"
  ch_naive :: "'n \<Rightarrow> string"
  ch_rfc3339 :: "'z \<Rightarrow> string"

section \<open>Parameters\<close>

text \<open>\<open>Option<Result>::transpose\<close> of a parse with its context.\<close>

definition parse_opt :: "string \<Rightarrow> (string \<Rightarrow> 'a option) \<Rightarrow> string option \<Rightarrow> string + 'a option" where
  "parse_opt c p source =
     (case source of
        None \<Rightarrow> Inr None
      | Some s \<Rightarrow> (case p s of None \<Rightarrow> Inl c | Some a \<Rightarrow> Inr (Some a)))"

definition I64_TOP :: nat where "I64_TOP = 2 ^ 63 - 1"

fun into_param :: "('d, 't, 'n, 'z) chrono \<Rightarrow> data_type \<Rightarrow> string + ('d, 't, 'n, 'z) pg_value" where
  "into_param ch (D_Int32 v) = Inr (Pg_Int32 v)"
| "into_param ch (D_Int64 v) = Inr (Pg_Int64 v)"
| "into_param ch (D_Uint32 v) = Inr (Pg_Uint32 v)"
| "into_param ch (D_Uint64 v) =
     (case v of
        None \<Rightarrow> Inr (Pg_Int64 None)
      | Some raw \<Rightarrow>
          if unat raw \<le> I64_TOP then Inr (Pg_Int64 (Some raw))
          else Inl (''uint64 value '' @ dec_nat (unat raw) @
            '' exceeds i64::MAX and cannot be stored: out of range integral type conversion attempted''))"
| "into_param ch (D_Float v) = Inr (Pg_Float v)"
| "into_param ch (D_Double v) = Inr (Pg_Double v)"
| "into_param ch (D_Str v) = Inr (Pg_Text v)"
| "into_param ch (D_Boolean v) = Inr (Pg_Bool v)"
| "into_param ch (D_Date v) = res_map Pg_Date (parse_opt ''invalid date format'' (ch_parse_date ch) v)"
| "into_param ch (D_Time v) = res_map Pg_Time (parse_opt ''invalid time format'' (ch_parse_time ch) v)"
| "into_param ch (D_Timestamp v) =
     (case v of
        None \<Rightarrow> Inr (Pg_Timestamp None)
      | Some s \<Rightarrow>
          (case ch_parse_rfc3339 ch s of
             Some ts \<Rightarrow> Inr (Pg_Timestamp_Tz (Some ts))
           | None \<Rightarrow> res_map Pg_Timestamp (parse_opt ''invalid naive timestamp format'' (ch_parse_naive ch) v)))"
| "into_param ch (D_Binary v) = Inr (Pg_Binary v)"

definition into_params :: "('d, 't, 'n, 'z) chrono \<Rightarrow> data_type list \<Rightarrow> string + ('d, 't, 'n, 'z) pg_value list" where
  "into_params ch ps = res_traverse (into_param ch) ps"

section \<open>Rows\<close>

text \<open>
  A column as the driver gives it: its name, its type's name, and what it decodes to. Asking for
  another Rust type than that is the driver's error.
\<close>

datatype ('d, 't, 'n, 'z) pg_cell = Cell "('d, 't, 'n, 'z) pg_value" | Cell_Json "json option" | Cell_Error string

record ('d, 't, 'n, 'z) pg_column =
  col_name :: string
  col_type :: string
  col_cell :: "('d, 't, 'n, 'z) pg_cell"

definition wrong_cell :: "('d, 't, 'n, 'z) pg_cell \<Rightarrow> string + data_type" where
  "wrong_cell c = Inl (case c of Cell_Error e \<Rightarrow> e | _ \<Rightarrow> ''error deserializing column'')"

definition column_value ::
    "('d, 't, 'n, 'z) chrono \<Rightarrow> (json \<Rightarrow> string) \<Rightarrow> string \<Rightarrow> ('d, 't, 'n, 'z) pg_cell \<Rightarrow> string + data_type" where
  "column_value ch print ty c =
     (if ty = ''int4'' then (case c of Cell (Pg_Int32 v) \<Rightarrow> Inr (D_Int32 v) | _ \<Rightarrow> wrong_cell c)
      else if ty = ''int8'' then (case c of Cell (Pg_Int64 v) \<Rightarrow> Inr (D_Int64 v) | _ \<Rightarrow> wrong_cell c)
      else if ty = ''oid'' then (case c of Cell (Pg_Uint32 v) \<Rightarrow> Inr (D_Uint32 v) | _ \<Rightarrow> wrong_cell c)
      else if ty = ''float4'' then (case c of Cell (Pg_Float v) \<Rightarrow> Inr (D_Float v) | _ \<Rightarrow> wrong_cell c)
      else if ty = ''float8'' then (case c of Cell (Pg_Double v) \<Rightarrow> Inr (D_Double v) | _ \<Rightarrow> wrong_cell c)
      else if ty \<in> {''text'', ''varchar'', ''name'', ''_char''} then
        (case c of Cell (Pg_Text v) \<Rightarrow> Inr (D_Str v) | _ \<Rightarrow> wrong_cell c)
      else if ty = ''bool'' then (case c of Cell (Pg_Bool v) \<Rightarrow> Inr (D_Boolean v) | _ \<Rightarrow> wrong_cell c)
      else if ty = ''date'' then (case c of Cell (Pg_Date v) \<Rightarrow> Inr (D_Date (map_option (ch_date ch) v)) | _ \<Rightarrow> wrong_cell c)
      else if ty = ''time'' then (case c of Cell (Pg_Time v) \<Rightarrow> Inr (D_Time (map_option (ch_time ch) v)) | _ \<Rightarrow> wrong_cell c)
      else if ty = ''timestamp'' then
        (case c of Cell (Pg_Timestamp v) \<Rightarrow> Inr (D_Timestamp (map_option (ch_naive ch) v)) | _ \<Rightarrow> wrong_cell c)
      else if ty = ''timestamptz'' then
        (case c of Cell (Pg_Timestamp_Tz v) \<Rightarrow> Inr (D_Timestamp (map_option (ch_rfc3339 ch) v)) | _ \<Rightarrow> wrong_cell c)
      else if ty \<in> {''json'', ''jsonb''} then (case c of Cell_Json v \<Rightarrow> Inr (D_Str (map_option print v)) | _ \<Rightarrow> wrong_cell c)
      else if ty = ''bytea'' then (case c of Cell (Pg_Binary v) \<Rightarrow> Inr (D_Binary v) | _ \<Rightarrow> wrong_cell c)
      else Inl (''unsupported column type: '' @ ty))"

record sql_row =
  row_index :: string
  row_fields :: "(string \<times> data_type) list"

definition into_wasi_row ::
    "('d, 't, 'n, 'z) chrono \<Rightarrow> (json \<Rightarrow> string) \<Rightarrow> nat \<Rightarrow> ('d, 't, 'n, 'z) pg_column list \<Rightarrow> string + sql_row" where
  "into_wasi_row ch print idx cols =
     res_map (\<lambda>fs. \<lparr>row_index = dec_nat idx, row_fields = fs\<rparr>)
       (res_traverse (\<lambda>col. res_map (\<lambda>v. (col_name col, v)) (column_value ch print (col_type col) (col_cell col))) cols)"

fun wasi_rows ::
    "('d, 't, 'n, 'z) chrono \<Rightarrow> (json \<Rightarrow> string) \<Rightarrow> nat \<Rightarrow> ('d, 't, 'n, 'z) pg_column list list \<Rightarrow> string + sql_row list" where
  "wasi_rows ch print idx [] = Inr []"
| "wasi_rows ch print idx (r # rs) =
     (case into_wasi_row ch print idx r of
        Inl e \<Rightarrow> Inl (''failed to convert row: '' @ e)
      | Inr row \<Rightarrow> res_map (\<lambda>rest. row # rest) (wasi_rows ch print (Suc idx) rs))"

section \<open>Statements\<close>

record ('d, 't, 'n, 'z, 'w) pg_conn =
  pc_query :: "string \<Rightarrow> ('d, 't, 'n, 'z) pg_value list \<Rightarrow> ('w, string, ('d, 't, 'n, 'z) pg_column list list) act"
  pc_execute :: "string \<Rightarrow> ('d, 't, 'n, 'z) pg_value list \<Rightarrow> ('w, string, nat) act"

definition pg_query ::
    "('d, 't, 'n, 'z) chrono \<Rightarrow> (json \<Rightarrow> string) \<Rightarrow> ('d, 't, 'n, 'z, 'w) pg_conn \<Rightarrow> string \<Rightarrow> data_type list \<Rightarrow>
       ('w, string, sql_row list) act" where
  "pg_query ch print cnn query params =
     act_bind (act_result (into_params ch params)) (\<lambda>ps.
     act_bind (act_context ''query failed'' (pc_query cnn query ps)) (\<lambda>rs.
     act_result (wasi_rows ch print 0 rs)))"

text \<open>The statement has run by the time its count is found to exceed 32 bits.\<close>

definition pg_exec ::
    "('d, 't, 'n, 'z) chrono \<Rightarrow> ('d, 't, 'n, 'z, 'w) pg_conn \<Rightarrow> string \<Rightarrow> data_type list \<Rightarrow> ('w, string, nat) act" where
  "pg_exec ch cnn query params =
     act_bind (act_result (into_params ch params)) (\<lambda>ps.
     act_bind (act_context ''exec failed'' (pc_execute cnn query ps)) (\<lambda>affected.
     if affected \<le> U32_TOP then act_return affected
     else act_fail ''affected row count exceeds u32::MAX: out of range integral type conversion attempted''))"

section \<open>A parameter on the wire\<close>

text \<open>The driver's own writers, one for each Rust type, and what types each accepts.\<close>

datatype pg_prim = Prim_I32 | Prim_I64 | Prim_U32 | Prim_F32 | Prim_F64 | Prim_String | Prim_Json | Prim_Bool
  | Prim_Date | Prim_Time | Prim_Naive | Prim_Utc | Prim_Bytes

record ('d, 't, 'n, 'z) pg_wire =
  pw_accepts :: "pg_prim \<Rightarrow> string \<Rightarrow> bool"
  pw_i32 :: "32 word \<Rightarrow> string \<Rightarrow> string + bytes"
  pw_i64 :: "64 word \<Rightarrow> string \<Rightarrow> string + bytes"
  pw_u32 :: "32 word \<Rightarrow> string \<Rightarrow> string + bytes"
  pw_f32 :: "32 word \<Rightarrow> string \<Rightarrow> string + bytes"
  pw_f64 :: "f64 \<Rightarrow> string \<Rightarrow> string + bytes"
  pw_string :: "string \<Rightarrow> string \<Rightarrow> string + bytes"
  pw_json :: "json \<Rightarrow> string \<Rightarrow> string + bytes"
  pw_bool :: "bool \<Rightarrow> string \<Rightarrow> string + bytes"
  pw_date :: "'d \<Rightarrow> string \<Rightarrow> string + bytes"
  pw_time :: "'t \<Rightarrow> string \<Rightarrow> string + bytes"
  pw_naive :: "'n \<Rightarrow> string \<Rightarrow> string + bytes"
  pw_utc :: "'z \<Rightarrow> string \<Rightarrow> string + bytes"
  pw_bytes :: "bytes \<Rightarrow> string \<Rightarrow> string + bytes"

text \<open>\<open>IsNull::Yes\<close> is None.\<close>

definition write_optional :: "('a \<Rightarrow> string \<Rightarrow> string + bytes) \<Rightarrow> 'a option \<Rightarrow> string \<Rightarrow> string + bytes option" where
  "write_optional put v ty = (case v of None \<Rightarrow> Inr None | Some a \<Rightarrow> res_map Some (put a ty))"

fun pg_to_sql ::
    "('d, 't, 'n, 'z) pg_wire \<Rightarrow> (string \<Rightarrow> json option) \<Rightarrow> ('d, 't, 'n, 'z) pg_value \<Rightarrow> string \<Rightarrow> string + bytes option" where
  "pg_to_sql pw parse (Pg_Int32 v) ty = write_optional (pw_i32 pw) v ty"
| "pg_to_sql pw parse (Pg_Int64 v) ty = write_optional (pw_i64 pw) v ty"
| "pg_to_sql pw parse (Pg_Uint32 v) ty = write_optional (pw_u32 pw) v ty"
| "pg_to_sql pw parse (Pg_Float v) ty = write_optional (pw_f32 pw) v ty"
| "pg_to_sql pw parse (Pg_Double v) ty = write_optional (pw_f64 pw) v ty"
| "pg_to_sql pw parse (Pg_Text v) ty =
     (if ty \<in> {''json'', ''jsonb''} then
        (case v of
           None \<Rightarrow> Inr None
         | Some raw \<Rightarrow> (case parse raw of None \<Rightarrow> Inl ''invalid JSON'' | Some j \<Rightarrow> res_map Some (pw_json pw j ty)))
      else write_optional (pw_string pw) v ty)"
| "pg_to_sql pw parse (Pg_Bool v) ty = write_optional (pw_bool pw) v ty"
| "pg_to_sql pw parse (Pg_Date v) ty = write_optional (pw_date pw) v ty"
| "pg_to_sql pw parse (Pg_Time v) ty = write_optional (pw_time pw) v ty"
| "pg_to_sql pw parse (Pg_Timestamp v) ty = write_optional (pw_naive pw) v ty"
| "pg_to_sql pw parse (Pg_Timestamp_Tz v) ty = write_optional (pw_utc pw) v ty"
| "pg_to_sql pw parse (Pg_Binary v) ty = write_optional (pw_bytes pw) v ty"

definition pg_accepts :: "('d, 't, 'n, 'z) pg_wire \<Rightarrow> string \<Rightarrow> bool" where
  "pg_accepts pw ty \<longleftrightarrow>
     list_ex (\<lambda>p. pw_accepts pw p ty)
       [Prim_I32, Prim_I64, Prim_U32, Prim_F32, Prim_F64, Prim_String, Prim_Json, Prim_Bool, Prim_Date, Prim_Time,
        Prim_Naive, Prim_Utc, Prim_Bytes]"

text \<open>\<open>to_sql_checked!\<close>: the type must be accepted before the value is written.\<close>

definition pg_to_sql_checked ::
    "('d, 't, 'n, 'z) pg_wire \<Rightarrow> (string \<Rightarrow> json option) \<Rightarrow> ('d, 't, 'n, 'z) pg_value \<Rightarrow> string \<Rightarrow> string + bytes option" where
  "pg_to_sql_checked pw parse v ty = (if pg_accepts pw ty then pg_to_sql pw parse v ty else Inl (''cannot convert to '' @ ty))"

section \<open>Pools\<close>

record pool_entry =
  pe_name :: string
  pe_uri :: string
  pe_size :: nat

definition ascii_upper :: "string \<Rightarrow> string" where
  "ascii_upper s = map to_ascii_upper s"

text \<open>An empty or unreadable size is the default's.\<close>

definition size_or :: "nat \<Rightarrow> string option \<Rightarrow> nat" where
  "size_or d v = (case Option.bind v parse_u64 of None \<Rightarrow> d | Some n \<Rightarrow> n)"

definition pool_of_env :: "(string \<Rightarrow> string option) \<Rightarrow> nat \<Rightarrow> string \<Rightarrow> string + pool_entry" where
  "pool_of_env var default_size name =
     (let name = ascii_upper name in
      case var (''POSTGRES_URL__'' @ name) of
        None \<Rightarrow> Inl (''missing POSTGRES_URL__'' @ name @ '' for pool '' @ name)
      | Some uri \<Rightarrow> Inr \<lparr>pe_name = name, pe_uri = uri, pe_size = size_or default_size (var (''POSTGRES_POOL_SIZE__'' @ name))\<rparr>)"

definition pool_names :: "string option \<Rightarrow> string list" where
  "pool_names v = filter (\<lambda>n. n \<noteq> []) (map str_trim (str_split (CHR '','') (case v of None \<Rightarrow> [] | Some s \<Rightarrow> s)))"

text \<open>The default pool, then the additional ones.\<close>

definition pg_load_env :: "(string \<Rightarrow> string option) \<Rightarrow> string + pool_entry \<times> pool_entry list" where
  "pg_load_env var =
     (let default_size = size_or 10 (var ''POSTGRES_POOL_SIZE'') in
      case var ''POSTGRES_URL'' of
        None \<Rightarrow> Inl ''POSTGRES_URL must be set''
      | Some uri \<Rightarrow>
          res_map (\<lambda>extras. (\<lparr>pe_name = ''DEFAULT'', pe_uri = uri, pe_size = default_size\<rparr>, extras))
            (res_traverse (pool_of_env var default_size) (pool_names (var ''POSTGRES_POOLS''))))"

text \<open>\<open>open_pool\<close> parses the URI, builds the pool and takes a connection from it.\<close>

fun pg_connect_each ::
    "(pool_entry \<Rightarrow> ('w, string, 'p) act) \<Rightarrow> pool_entry list \<Rightarrow> (string, 'p) btree \<Rightarrow> ('w, string, (string, 'p) btree) act" where
  "pg_connect_each open_pool [] pools = act_return pools"
| "pg_connect_each open_pool (e # es) pools =
     act_bind (open_pool e) (\<lambda>p. pg_connect_each open_pool es (bt_insert (pe_name e) p pools))"

definition pg_connect ::
    "(pool_entry \<Rightarrow> ('w, string, 'p) act) \<Rightarrow> pool_entry \<times> pool_entry list \<Rightarrow> ('w, string, (string, 'p) btree) act" where
  "pg_connect open_pool o1 = pg_connect_each open_pool (fst o1 # snd o1) []"

definition pg_open :: "('p \<Rightarrow> ('w, string, 'c) act) \<Rightarrow> (string, 'p) btree \<Rightarrow> string \<Rightarrow> ('w, string, 'c) act" where
  "pg_open checkout pools name =
     (case bt_get pools (ascii_upper name) of
        None \<Rightarrow> act_fail (''unknown postgres pool '' @ [CHR 0x27] @ name @ [CHR 0x27])
      | Some p \<Rightarrow> act_context ''issue getting connection'' (checkout p))"

section \<open>What a guest reads and writes back\<close>

text \<open>What chrono documents: printing and parsing are inverse, and no naive form is RFC 3339.\<close>

definition chrono_laws :: "('d, 't, 'n, 'z) chrono \<Rightarrow> bool" where
  "chrono_laws ch \<longleftrightarrow>
     (\<forall>d. ch_parse_date ch (ch_date ch d) = Some d) \<and> (\<forall>t. ch_parse_time ch (ch_time ch t) = Some t) \<and>
     (\<forall>n. ch_parse_naive ch (ch_naive ch n) = Some n \<and> ch_parse_rfc3339 ch (ch_naive ch n) = None) \<and>
     (\<forall>z. ch_parse_rfc3339 ch (ch_rfc3339 ch z) = Some z)"

text \<open>What a cell becomes, whatever its column is called.\<close>

fun cell_data :: "('d, 't, 'n, 'z) chrono \<Rightarrow> (json \<Rightarrow> string) \<Rightarrow> ('d, 't, 'n, 'z) pg_cell \<Rightarrow> data_type option" where
  "cell_data ch print (Cell (Pg_Int32 v)) = Some (D_Int32 v)"
| "cell_data ch print (Cell (Pg_Int64 v)) = Some (D_Int64 v)"
| "cell_data ch print (Cell (Pg_Uint32 v)) = Some (D_Uint32 v)"
| "cell_data ch print (Cell (Pg_Float v)) = Some (D_Float v)"
| "cell_data ch print (Cell (Pg_Double v)) = Some (D_Double v)"
| "cell_data ch print (Cell (Pg_Text v)) = Some (D_Str v)"
| "cell_data ch print (Cell (Pg_Bool v)) = Some (D_Boolean v)"
| "cell_data ch print (Cell (Pg_Date v)) = Some (D_Date (map_option (ch_date ch) v))"
| "cell_data ch print (Cell (Pg_Time v)) = Some (D_Time (map_option (ch_time ch) v))"
| "cell_data ch print (Cell (Pg_Timestamp v)) = Some (D_Timestamp (map_option (ch_naive ch) v))"
| "cell_data ch print (Cell (Pg_Timestamp_Tz v)) = Some (D_Timestamp (map_option (ch_rfc3339 ch) v))"
| "cell_data ch print (Cell (Pg_Binary v)) = Some (D_Binary v)"
| "cell_data ch print (Cell_Json v) = Some (D_Str (map_option print v))"
| "cell_data ch print (Cell_Error e) = None"

lemma if_InrE: "(if b then x else y) = Inr v \<Longrightarrow> (x = Inr v \<Longrightarrow> P) \<Longrightarrow> (y = Inr v \<Longrightarrow> P) \<Longrightarrow> P"
  by (cases b) simp_all

lemma wrong_cell_not [simp]: "wrong_cell c \<noteq> Inr v"
  by (simp add: wrong_cell_def)

lemma column_value_data: "column_value ch print ty c = Inr v \<Longrightarrow> cell_data ch print c = Some v"
  unfolding column_value_def
  by (elim if_InrE) (auto split: pg_cell.split_asm pg_value.split_asm)

text \<open>What a value read becomes as a parameter: itself, a JSON its text, and an absent instant a naive one.\<close>

fun passed_back :: "(json \<Rightarrow> string) \<Rightarrow> ('d, 't, 'n, 'z) pg_cell \<Rightarrow> ('d, 't, 'n, 'z) pg_value \<Rightarrow> bool" where
  "passed_back print (Cell (Pg_Timestamp_Tz None)) p \<longleftrightarrow> p = Pg_Timestamp None"
| "passed_back print (Cell v) p \<longleftrightarrow> p = v"
| "passed_back print (Cell_Json v) p \<longleftrightarrow> p = Pg_Text (map_option print v)"
| "passed_back print (Cell_Error _) p \<longleftrightarrow> False"

text \<open>
  Every value a row gives a guest is a parameter the guest may pass back, and it is then the value
  the column held: of the same type and with every bit, date and instant kept.
\<close>

theorem row_values_pass_back:
  assumes "chrono_laws ch" and "column_value ch print ty c = Inr v"
  shows "\<exists>p. into_param ch v = Inr p \<and> passed_back print c p"
proof -
  have d: "ch_parse_date ch (ch_date ch x) = Some x" for x using assms(1) by (simp add: chrono_laws_def)
  have t: "ch_parse_time ch (ch_time ch x) = Some x" for x using assms(1) by (simp add: chrono_laws_def)
  have n: "ch_parse_naive ch (ch_naive ch x) = Some x" "ch_parse_rfc3339 ch (ch_naive ch x) = None" for x
    using assms(1) by (simp_all add: chrono_laws_def)
  have z: "ch_parse_rfc3339 ch (ch_rfc3339 ch x) = Some x" for x using assms(1) by (simp add: chrono_laws_def)
  have "cell_data ch print c = Some v" using column_value_data [OF assms(2)] .
  then show ?thesis
  proof (cases c)
    case (Cell x)
    with \<open>cell_data ch print c = Some v\<close> show ?thesis
      by (cases x) (auto simp: parse_opt_def d t n z split: option.split)
  qed auto
qed

text \<open>Dates and times of one value each, for the witness.\<close>

definition unit_chrono :: "(unit, unit, unit, unit) chrono" where
  "unit_chrono = \<lparr>ch_parse_date = (\<lambda>s. if s = ''2024-01-20'' then Some () else None),
     ch_parse_time = (\<lambda>s. if s = ''15:30:45'' then Some () else None),
     ch_parse_naive = (\<lambda>s. if s = ''2024-01-20 15:30:45'' then Some () else None),
     ch_parse_rfc3339 = (\<lambda>s. if s = ''2024-01-20T13:30:45+00:00'' then Some () else None),
     ch_date = (\<lambda>_. ''2024-01-20''), ch_time = (\<lambda>_. ''15:30:45''), ch_naive = (\<lambda>_. ''2024-01-20 15:30:45''),
     ch_rfc3339 = (\<lambda>_. ''2024-01-20T13:30:45+00:00'')\<rparr>"

theorem row_values_pass_back_witness:
  "\<exists>p. into_param unit_chrono (D_Timestamp (Some ''2024-01-20 15:30:45'')) = Inr p \<and>
     passed_back (\<lambda>_. []) (Cell (Pg_Timestamp (Some ()) :: (unit, unit, unit, unit) pg_value)) p"
proof -
  have "chrono_laws unit_chrono" by (simp add: chrono_laws_def unit_chrono_def)
  moreover have "column_value unit_chrono (\<lambda>_. []) ''timestamp'' (Cell (Pg_Timestamp (Some ()))) =
      Inr (D_Timestamp (Some ''2024-01-20 15:30:45''))"
    by (simp add: column_value_def unit_chrono_def)
  ultimately show ?thesis by (rule row_values_pass_back)
qed

section \<open>Errors of a statement\<close>

text \<open>A parameter that does not convert stops a statement before the server sees it.\<close>

lemma refused_unsent:
  "into_params ch params = Inl e \<Longrightarrow> pg_exec ch cnn q params w = (Inl e, w) \<and> pg_query ch print cnn q params w = (Inl e, w)"
  by (simp add: pg_exec_def pg_query_def act_bind_apply)

lemma big_uint64_refused:
  assumes "D_Uint64 (Some raw) \<in> set params" and "I64_TOP < unat raw"
  shows "\<exists>e. into_params ch params = Inl e"
proof (cases "into_params ch params")
  case (Inr ps)
  then have l: "list_all2 (\<lambda>x y. into_param ch x = Inr y) params ps" by (simp add: into_params_def res_traverse_Inr_iff)
  from assms(1) obtain i where i: "i < length params" "params ! i = D_Uint64 (Some raw)" unfolding in_set_conv_nth by blast
  from list_all2_nthD [OF l i(1)] i(2) have "into_param ch (D_Uint64 (Some raw)) = Inr (ps ! i)" by simp
  with assms(2) show ?thesis by simp
qed simp

text \<open>A count beyond 32 bits is an error of a statement that has run all the same.\<close>

lemma big_count_ran:
  assumes "into_params ch params = Inr ps" and "pc_execute cnn q ps w = (Inr n, w')" and "U32_TOP < n"
  shows "\<exists>e. pg_exec ch cnn q params w = (Inl e, w')"
  using assms by (simp add: pg_exec_def act_bind_apply act_context_def act_match_apply)

text \<open>
  A parameter is checked against the types any of the writers accepts, then written by its own: an
  integer bound where the statement wants a float goes out as the integer's bits.
\<close>

lemma integer_written_as_float:
  "pw_accepts pw Prim_F32 ty \<Longrightarrow> pg_to_sql_checked pw parse (Pg_Int32 (Some n)) ty = res_map Some (pw_i32 pw n ty)"
  by (simp add: pg_to_sql_checked_def pg_accepts_def write_optional_def)

section \<open>Pools by name\<close>

lemma connect_each_gets:
  "pg_connect_each open_pool es pools w = (Inr pools', w') \<Longrightarrow>
     bt_get pools' n \<noteq> None \<longleftrightarrow> n \<in> pe_name ` set es \<or> bt_get pools n \<noteq> None"
proof (induction es arbitrary: pools w)
  case (Cons e es)
  then obtain p w1 where "pg_connect_each open_pool es (bt_insert (pe_name e) p pools) w1 = (Inr pools', w')"
    by (auto simp: act_bind_Inr)
  from Cons.IH [OF this] show ?case by (auto simp: bt_get_insert)
qed simp

text \<open>A connection is refused for its name exactly when no pool was configured under it, whatever its case.\<close>

lemma pg_open_known:
  assumes "pg_connect open_pool o1 w = (Inr pools, w')"
  shows "bt_get pools (ascii_upper name) \<noteq> None \<longleftrightarrow> ascii_upper name \<in> pe_name ` (insert (fst o1) (set (snd o1)))"
  using connect_each_gets [of open_pool "fst o1 # snd o1" "[]" w pools w' "ascii_upper name"] assms
  by (simp add: pg_connect_def)

end
