(* ===== verification/Blob_Range.thy ===== *)
theory Blob_Range
  imports Fs_Blob
begin

text \<open>
  The byte range every blob container reads by: what the host's interface asks of it, as a locale, and
  what follows for a guest that reads an object in pieces. Each backend interprets it with its own
  routine; \<open>None\<close> is a panic. The filesystem's is the first.
\<close>

locale byte_range =
  fixes slice :: "64 word \<Rightarrow> 64 word \<Rightarrow> bytes \<Rightarrow> (string + bytes) option"
  assumes unbounded: "end1 = 0 \<or> end1 = U64_MAX \<Longrightarrow> slice start end1 data = Some (Inr (drop (unat start) data))"
    and backwards: "end1 \<noteq> 0 \<Longrightarrow> end1 \<noteq> U64_MAX \<Longrightarrow> end1 < start \<Longrightarrow>
      slice start end1 data =
        Some (Inl (''invalid byte range: end ('' @ dec_nat (unat end1) @ '') < start ('' @ dec_nat (unat start) @ '')''))"
    and inclusive: "end1 \<noteq> 0 \<Longrightarrow> end1 \<noteq> U64_MAX \<Longrightarrow> start \<le> end1 \<Longrightarrow>
      slice start end1 data = Some (Inr (drop (unat start) (take (Suc (unat end1)) data)))"
begin

lemma never_panics: "slice start end1 data \<noteq> None"
  using unbounded backwards inclusive by (metis not_le option.distinct(1))

lemma whole: "slice 0 0 data = Some (Inr data)"
  by (simp add: unbounded)

lemma past_end:
  assumes "length data \<le> unat start" and "slice start end1 data = Some (Inr got)"
  shows "got = []"
  using assms unbounded [of end1 start data] backwards [of end1 start data] inclusive [of end1 start data] by force

text \<open>Two ranges that meet are the range they make together.\<close>

lemma pieces:
  assumes "start \<le> mid" and "mid \<noteq> 0" and "mid < end1" and "end1 \<noteq> U64_MAX"
    and "slice start mid data = Some (Inr a)" and "slice (mid + 1) end1 data = Some (Inr b)"
  shows "slice start end1 data = Some (Inr (a @ b))"
proof -
  have "unat mid < unat end1" using assms(3) by (simp add: word_less_nat_alt)
  moreover have "unat end1 < 2 ^ 64" using unsigned_less [of end1, where ?'a = nat] by simp
  ultimately have m: "unat (mid + 1) = Suc (unat mid)" by (simp add: unat_plus_simple unat_word_ariths)
  have e: "end1 \<noteq> 0" "mid \<noteq> U64_MAX" "start \<le> end1" "mid + 1 \<le> end1"
    using assms(1,3) m word_less_nat_alt [of mid end1] by (auto simp: U64_MAX_def word_le_nat_alt word_less_nat_alt)
  have "a = drop (unat start) (take (Suc (unat mid)) data)" using inclusive [OF assms(2) e(2) assms(1)] assms(5) by simp
  moreover have "b = drop (Suc (unat mid)) (take (Suc (unat end1)) data)"
    using inclusive [OF e(1) assms(4) e(4)] assms(6) m by simp
  moreover have "unat start \<le> Suc (unat mid)" "Suc (unat mid) \<le> Suc (unat end1)"
    using assms(1) \<open>unat mid < unat end1\<close> by (simp_all add: word_le_nat_alt)
  then have "drop (unat start) (take (Suc (unat mid)) data) @ drop (Suc (unat mid)) (take (Suc (unat end1)) data) =
      drop (unat start) (take (Suc (unat end1)) data)"
  proof -
    let ?d = "take (Suc (unat end1)) data"
    have "take (Suc (unat mid)) data = take (Suc (unat mid)) ?d" using \<open>Suc (unat mid) \<le> Suc (unat end1)\<close> by (simp add: min_def)
    then have "drop (unat start) (take (Suc (unat mid)) data) = take (Suc (unat mid) - unat start) (drop (unat start) ?d)"
      by (simp only: drop_take)
    moreover have "drop (Suc (unat mid)) ?d = drop (Suc (unat mid) - unat start) (drop (unat start) ?d)"
      using \<open>unat start \<le> Suc (unat mid)\<close> by simp
    ultimately show ?thesis by (metis append_take_drop_id)
  qed
  ultimately show ?thesis using inclusive [OF e(1) assms(4) e(3)] by simp
qed

end

interpretation fs_range: byte_range object_slice
  by unfold_locales (auto simp: object_range_exact not_less)

text \<open>Two routines with these laws are one function.\<close>

lemma ranges_unique:
  assumes "byte_range f" and "byte_range g"
  shows "f start end1 data = g start end1 data"
proof -
  consider "end1 = 0 \<or> end1 = U64_MAX" | "end1 \<noteq> 0" "end1 \<noteq> U64_MAX" "end1 < start" | "end1 \<noteq> 0" "end1 \<noteq> U64_MAX" "start \<le> end1"
    by fastforce
  then show ?thesis
    using byte_range.unbounded [OF assms(1)] byte_range.unbounded [OF assms(2)] byte_range.backwards [OF assms(1)]
      byte_range.backwards [OF assms(2)] byte_range.inclusive [OF assms(1)] byte_range.inclusive [OF assms(2)]
    by cases simp_all
qed

end
