(* ===== verification/Nats_Blob.thy ===== *)
theory Nats_Blob
  imports Blob_Range
begin

text \<open>
  The blob containers of NATS and MongoDB (\<open>src/crates/nats/src/blobstore.rs\<close>,
  \<open>src/crates/mongodb/src/blobstore.rs\<close>): their operations over the stores they call, and their byte
  ranges, which are the filesystem's.
\<close>

section \<open>NATS object stores\<close>

definition nats_slice :: "64 word \<Rightarrow> 64 word \<Rightarrow> bytes \<Rightarrow> (string + bytes) option" where
  "nats_slice start end1 data =
     (let unbounded = (end1 = 0 \<or> end1 = U64_MAX) in
      if \<not> unbounded \<and> end1 < start
      then Some (Inl (''invalid byte range: end ('' @ dec_nat (unat end1) @ '') < start ('' @ dec_nat (unat start) @ '')''))
      else let len = length data; from1 = clamp len start;
               to1 = (if unbounded then len else clamp len (saturating_succ end1))
           in map_option Inr (bytes_slice from1 to1 data))"

interpretation nats_range: byte_range nats_slice
proof -
  have "nats_slice = object_slice" by (intro ext) (simp add: nats_slice_def object_slice_def)
  then show "byte_range nats_slice" using fs_range.byte_range_axioms by simp
qed

text \<open>An error of the client: that the object is not there, or another.\<close>

datatype object_error = Object_Not_Found | Object_Failed string

record object_entry =
  oi_name :: string
  oi_size :: nat
  oi_modified :: "int option"
  oi_deleted :: bool

record ('s, 'w) object_env =
  oe_create :: "string \<Rightarrow> 'w \<Rightarrow> (string + 's) \<times> 'w"
  oe_get_store :: "string \<Rightarrow> 'w \<Rightarrow> (string + 's) \<times> 'w"
  oe_delete_store :: "string \<Rightarrow> 'w \<Rightarrow> (string + unit) \<times> 'w"
  oe_get :: "'s \<Rightarrow> string \<Rightarrow> 'w \<Rightarrow> (object_error + (string + bytes)) \<times> 'w"
  oe_put :: "'s \<Rightarrow> string \<Rightarrow> bytes \<Rightarrow> 'w \<Rightarrow> (string + unit) \<times> 'w"
  oe_list :: "'s \<Rightarrow> 'w \<Rightarrow> (string + (string + string) list) \<times> 'w"
  oe_delete :: "'s \<Rightarrow> string \<Rightarrow> 'w \<Rightarrow> (string + unit) \<times> 'w"
  oe_info :: "'s \<Rightarrow> string \<Rightarrow> 'w \<Rightarrow> (object_error + object_entry) \<times> 'w"
  oe_now :: "'w \<Rightarrow> int"

record 's nats_container =
  nc_name :: string
  nc_created :: nat
  nc_store :: 's

text \<open>\<open>u64::try_from\<close> of a time stamp, zero before the epoch.\<close>

definition nats_container_of :: "('s, 'w) object_env \<Rightarrow> string \<Rightarrow> string \<Rightarrow> (string + 's) \<times> 'w \<Rightarrow> (string + 's nats_container) \<times> 'w" where
  "nats_container_of env doing name r =
     (case r of
        (Inl e, w) \<Rightarrow> (Inl (doing @ '': '' @ e), w)
      | (Inr store, w) \<Rightarrow> (Inr \<lparr>nc_name = name, nc_created = nat (oe_now env w), nc_store = store\<rparr>, w))"

definition nats_create_container :: "('s, 'w) object_env \<Rightarrow> string \<Rightarrow> 'w \<Rightarrow> (string + 's nats_container) \<times> 'w" where
  "nats_create_container env name w = nats_container_of env ''creating object store'' name (oe_create env name w)"

definition nats_get_container :: "('s, 'w) object_env \<Rightarrow> string \<Rightarrow> 'w \<Rightarrow> (string + 's nats_container) \<times> 'w" where
  "nats_get_container env name w = nats_container_of env ''getting object store'' name (oe_get_store env name w)"

definition nats_delete_container :: "('s, 'w) object_env \<Rightarrow> string \<Rightarrow> 'w \<Rightarrow> (string + unit) \<times> 'w" where
  "nats_delete_container env name w = act_context ''issue deleting object store'' (oe_delete_store env name) w"

definition nats_container_exists :: "('s, 'w) object_env \<Rightarrow> string \<Rightarrow> 'w \<Rightarrow> (string + bool) \<times> 'w" where
  "nats_container_exists env name w = (case oe_get_store env name w of (r, w) \<Rightarrow> (Inr (\<exists>s. r = Inr s), w))"

text \<open>The outer option is None where the slice would panic.\<close>

definition nats_get_data ::
    "('s, 'w) object_env \<Rightarrow> 's nats_container \<Rightarrow> string \<Rightarrow> 64 word \<Rightarrow> 64 word \<Rightarrow> 'w \<Rightarrow> (string + bytes option) option \<times> 'w" where
  "nats_get_data env c name start end1 w =
     (case oe_get env (nc_store c) name w of
        (Inl Object_Not_Found, w) \<Rightarrow> (Some (Inr None), w)
      | (Inl (Object_Failed e), w) \<Rightarrow> (Some (Inl (''getting object: '' @ e)), w)
      | (Inr (Inl e), w) \<Rightarrow> (Some (Inl e), w)
      | (Inr (Inr data), w) \<Rightarrow> (map_option (res_map Some) (nats_slice start end1 data), w))"

definition nats_write_data :: "('s, 'w) object_env \<Rightarrow> 's nats_container \<Rightarrow> string \<Rightarrow> bytes \<Rightarrow> 'w \<Rightarrow> (string + unit) \<times> 'w" where
  "nats_write_data env c name data w = act_context ''writing object'' (oe_put env (nc_store c) name data) w"

text \<open>An entry that cannot be read is left out with a warning.\<close>

definition nats_list_objects :: "('s, 'w) object_env \<Rightarrow> 's nats_container \<Rightarrow> 'w \<Rightarrow> (string + string list) \<times> 'w" where
  "nats_list_objects env c w =
     (case oe_list env (nc_store c) w of
        (Inl e, w) \<Rightarrow> (Inl (''listing objects: '' @ e), w)
      | (Inr entries, w) \<Rightarrow> (Inr (List.map_filter (\<lambda>x. case x of Inr name \<Rightarrow> Some name | Inl _ \<Rightarrow> None) entries), w))"

definition nats_delete_object :: "('s, 'w) object_env \<Rightarrow> 's nats_container \<Rightarrow> string \<Rightarrow> 'w \<Rightarrow> (string + unit) \<times> 'w" where
  "nats_delete_object env c name w = act_context ''deleting object'' (oe_delete env (nc_store c) name) w"

definition nats_has_object :: "('s, 'w) object_env \<Rightarrow> 's nats_container \<Rightarrow> string \<Rightarrow> 'w \<Rightarrow> (string + bool) \<times> 'w" where
  "nats_has_object env c name w =
     (case oe_info env (nc_store c) name w of
        (Inr info, w) \<Rightarrow> (Inr (\<not> oi_deleted info), w)
      | (Inl Object_Not_Found, w) \<Rightarrow> (Inr False, w)
      | (Inl (Object_Failed e), w) \<Rightarrow> (Inl (''checking object: '' @ e), w))"

definition nats_object_info :: "('s, 'w) object_env \<Rightarrow> 's nats_container \<Rightarrow> string \<Rightarrow> 'w \<Rightarrow> (string + object_metadata) \<times> 'w" where
  "nats_object_info env c name w =
     (case oe_info env (nc_store c) name w of
        (Inl Object_Not_Found, w) \<Rightarrow> (Inl ''getting object info: not found'', w)
      | (Inl (Object_Failed e), w) \<Rightarrow> (Inl (''getting object info: '' @ e), w)
      | (Inr info, w) \<Rightarrow>
          (Inr \<lparr>om_name = oi_name info, om_container = nc_name c,
             om_created_at = (case oi_modified info of Some t \<Rightarrow> if 0 \<le> t then nat t else nc_created c | None \<Rightarrow> nc_created c),
             om_size = oi_size info\<rparr>, w))"

section \<open>MongoDB collections\<close>

definition mongo_slice :: "64 word \<Rightarrow> 64 word \<Rightarrow> bytes \<Rightarrow> (string + bytes) option" where
  "mongo_slice start end1 data =
     (if start = 0 \<and> (end1 = 0 \<or> end1 = U64_MAX) then Some (Inr data)
      else
        (let unbounded = (end1 = 0 \<or> end1 = U64_MAX) in
         if \<not> unbounded \<and> end1 < start
         then Some (Inl (''invalid byte range: end ('' @ dec_nat (unat end1) @ '') < start ('' @ dec_nat (unat start) @ '')''))
         else let len = length data; start_idx = min (unat start) len;
                  end_idx = (if unbounded then len else min (unat (saturating_succ end1)) len)
              in map_option Inr (bytes_slice start_idx end_idx data)))"

interpretation mongo_range: byte_range mongo_slice
proof -
  have "mongo_slice start end1 data = object_slice start end1 data" for start end1 data
    by (simp add: mongo_slice_def object_slice_def bytes_slice_def clamp_def Let_def)
  then have "mongo_slice = object_slice" by (intro ext)
  then show "byte_range mongo_slice" using fs_range.byte_range_axioms by simp
qed

record blob =
  bl_name :: string
  bl_data :: bytes
  bl_size :: nat
  bl_created :: nat

text \<open>A collection is its name; the database is None where the connection has no default one.\<close>

record 'w mongo_env =
  me_database :: bool
  me_create :: "string \<Rightarrow> 'w \<Rightarrow> (string + unit) \<times> 'w"
  me_drop :: "string \<Rightarrow> 'w \<Rightarrow> (string + unit) \<times> 'w"
  me_names :: "string \<Rightarrow> 'w \<Rightarrow> (string + string list) \<times> 'w"
  me_find_one :: "string \<Rightarrow> string \<Rightarrow> 'w \<Rightarrow> (string + blob option) \<times> 'w"
  me_replace :: "string \<Rightarrow> string \<Rightarrow> blob \<Rightarrow> 'w \<Rightarrow> (string + unit) \<times> 'w"
  me_find_all :: "string \<Rightarrow> 'w \<Rightarrow> (string + (string + blob) list) \<times> 'w"
  me_delete_one :: "string \<Rightarrow> string \<Rightarrow> 'w \<Rightarrow> (string + unit) \<times> 'w"
  me_now_millis :: "'w \<Rightarrow> int"

definition in_database :: "'w mongo_env \<Rightarrow> ('w \<Rightarrow> (string + 'a) \<times> 'w) \<Rightarrow> 'w \<Rightarrow> (string + 'a) \<times> 'w" where
  "in_database env m w = (if me_database env then m w else (Inl ''No default database'', w))"

definition mongo_create_container :: "'w mongo_env \<Rightarrow> string \<Rightarrow> 'w \<Rightarrow> (string + string) \<times> 'w" where
  "mongo_create_container env name =
     in_database env (\<lambda>w. case me_create env name w of
       (Inl e, w) \<Rightarrow> (Inl (''creating container: '' @ e), w) | (Inr _, w) \<Rightarrow> (Inr name, w))"

definition mongo_get_container :: "'w mongo_env \<Rightarrow> string \<Rightarrow> 'w \<Rightarrow> (string + string) \<times> 'w" where
  "mongo_get_container env name = in_database env (\<lambda>w. (Inr name, w))"

definition mongo_delete_container :: "'w mongo_env \<Rightarrow> string \<Rightarrow> 'w \<Rightarrow> (string + unit) \<times> 'w" where
  "mongo_delete_container env name = in_database env (act_context ''deleting container'' (me_drop env name))"

definition mongo_container_exists :: "'w mongo_env \<Rightarrow> string \<Rightarrow> 'w \<Rightarrow> (string + bool) \<times> 'w" where
  "mongo_container_exists env name =
     in_database env (\<lambda>w. case me_names env name w of
       (Inl e, w) \<Rightarrow> (Inl (''checking container existence: '' @ e), w) | (Inr names, w) \<Rightarrow> (Inr (names \<noteq> []), w))"

definition mongo_get_data :: "'w mongo_env \<Rightarrow> string \<Rightarrow> string \<Rightarrow> 64 word \<Rightarrow> 64 word \<Rightarrow> 'w \<Rightarrow> (string + bytes option) option \<times> 'w" where
  "mongo_get_data env c name start end1 w =
     (case me_find_one env c name w of
        (Inl e, w) \<Rightarrow> (Some (Inl e), w)
      | (Inr None, w) \<Rightarrow> (Some (Inr None), w)
      | (Inr (Some b), w) \<Rightarrow> (map_option (res_map Some) (mongo_slice start end1 (bl_data b)), w))"

definition mongo_write_data :: "'w mongo_env \<Rightarrow> string \<Rightarrow> string \<Rightarrow> bytes \<Rightarrow> 'w \<Rightarrow> (string + unit) \<times> 'w" where
  "mongo_write_data env c name data w =
     act_context ''writing object''
       (me_replace env c name \<lparr>bl_name = name, bl_data = data, bl_size = length data, bl_created = nat (me_now_millis env w)\<rparr>) w"

definition mongo_list_objects :: "'w mongo_env \<Rightarrow> string \<Rightarrow> 'w \<Rightarrow> (string + string list) \<times> 'w" where
  "mongo_list_objects env c w =
     (case me_find_all env c w of
        (Inl e, w) \<Rightarrow> (Inl e, w)
      | (Inr blobs, w) \<Rightarrow> (Inr (List.map_filter (\<lambda>x. case x of Inr b \<Rightarrow> Some (bl_name b) | Inl _ \<Rightarrow> None) blobs), w))"

definition mongo_delete_object :: "'w mongo_env \<Rightarrow> string \<Rightarrow> string \<Rightarrow> 'w \<Rightarrow> (string + unit) \<times> 'w" where
  "mongo_delete_object env c name w = act_context ''deleting object'' (me_delete_one env c name) w"

definition mongo_has_object :: "'w mongo_env \<Rightarrow> string \<Rightarrow> string \<Rightarrow> 'w \<Rightarrow> (string + bool) \<times> 'w" where
  "mongo_has_object env c name w =
     (case me_find_one env c name w of (Inl e, w) \<Rightarrow> (Inl e, w) | (Inr b, w) \<Rightarrow> (Inr (b \<noteq> None), w))"

definition mongo_object_info :: "'w mongo_env \<Rightarrow> string \<Rightarrow> string \<Rightarrow> 'w \<Rightarrow> (string + object_metadata) \<times> 'w" where
  "mongo_object_info env c name w =
     (case me_find_one env c name w of
        (Inl e, w) \<Rightarrow> (Inl e, w)
      | (Inr None, w) \<Rightarrow> (Inl ''Object not found'', w)
      | (Inr (Some b), w) \<Rightarrow>
          (Inr \<lparr>om_name = bl_name b, om_container = c, om_created_at = bl_created b, om_size = bl_size b\<rparr>, w))"

text \<open>
  The other backends give an object's age in seconds since the epoch, this one in milliseconds: one
  written 2 seconds after the epoch is dated 2000.
\<close>

lemma mongo_dates_milliseconds:
  assumes "me_now_millis env w = 2000" and "mongo_write_data env c name data w = (Inr (), w')"
  shows "\<exists>b. bl_created b = 2000 \<and> me_replace env c name b w = (Inr (), w')"
  using assms by (intro exI [of _ "\<lparr>bl_name = name, bl_data = data, bl_size = length data, bl_created = 2000\<rparr>"])
    (simp add: mongo_write_data_def act_context_Inr)

end
