(* ===== verification/Azure_Blob.thy ===== *)
theory Azure_Blob
  imports Nats_Blob Rust_Num
begin

text \<open>
  The blob containers of Azure (\<open>src/crates/azure-blob/src/blobstore.rs\<close>) and the package store beside
  them (\<open>plugin.rs\<close>): the container the store keeps to itself, the HTTP range of a read, and releases
  that are never replaced. The service is the environment.
\<close>

section \<open>Ranges\<close>

text \<open>An HTTP range is an offset and, unless open, a length.\<close>

definition range_options :: "64 word \<Rightarrow> 64 word \<Rightarrow> string + (64 word \<times> 64 word option) option" where
  "range_options start end1 =
     (if start = 0 \<and> (end1 = 0 \<or> end1 = U64_MAX) then Inr None
      else
        (let unbounded = (end1 = 0 \<or> end1 = U64_MAX) in
         if \<not> unbounded \<and> end1 < start
         then Inl (''invalid byte range: end ('' @ dec_nat (unat end1) @ '') < start ('' @ dec_nat (unat start) @ '')'')
         else Inr (Some (start, if unbounded then None else Some (end1 - start + 1)))))"

section \<open>The service\<close>

definition STORE_CONTAINER :: string where "STORE_CONTAINER = ''omnia-plugins''"

text \<open>An error with the HTTP status it came with, if it came from the service.\<close>

record az_error =
  ae_status :: "nat option"
  ae_text :: string

record az_props =
  ap_length :: "nat option"
  ap_created :: "int option"

record 'w az_env =
  az_create :: "string \<Rightarrow> 'w \<Rightarrow> (az_error + unit) \<times> 'w"
  az_delete :: "string \<Rightarrow> 'w \<Rightarrow> (az_error + unit) \<times> 'w"
  az_exists :: "string \<Rightarrow> 'w \<Rightarrow> (az_error + bool) \<times> 'w"
  az_download :: "string \<Rightarrow> string \<Rightarrow> (64 word \<times> 64 word option) option \<Rightarrow> 'w \<Rightarrow> (az_error + (string + bytes)) \<times> 'w"
  az_upload :: "string \<Rightarrow> string \<Rightarrow> bytes \<Rightarrow> bool \<Rightarrow> 'w \<Rightarrow> (az_error + unit) \<times> 'w"
  az_list :: "string \<Rightarrow> 'w \<Rightarrow> (az_error + string option list) \<times> 'w"
  az_delete_blob :: "string \<Rightarrow> string \<Rightarrow> 'w \<Rightarrow> (az_error + unit) \<times> 'w"
  az_blob_exists :: "string \<Rightarrow> string \<Rightarrow> 'w \<Rightarrow> (az_error + bool) \<times> 'w"
  az_properties :: "string \<Rightarrow> string \<Rightarrow> 'w \<Rightarrow> (az_error + az_props) \<times> 'w"
  az_now :: "'w \<Rightarrow> nat"

definition az_call :: "string \<Rightarrow> ('w \<Rightarrow> (az_error + 'a) \<times> 'w) \<Rightarrow> ('w, string, 'a) act" where
  "az_call doing m = (\<lambda>w. case m w of (Inl e, w) \<Rightarrow> (Inl (doing @ '': '' @ ae_text e), w) | (Inr a, w) \<Rightarrow> (Inr a, w))"

section \<open>The guests' containers\<close>

record az_container =
  ac_name :: string
  ac_created :: nat

definition ensure_not_reserved :: "string \<Rightarrow> string + unit" where
  "ensure_not_reserved name =
     (if name \<noteq> STORE_CONTAINER then Inr () else Inl (''container '' @ ticks name @ '' is reserved for the package store''))"

definition az_create_container :: "'w az_env \<Rightarrow> string \<Rightarrow> ('w, string, az_container) act" where
  "az_create_container env name =
     act_then (act_result (ensure_not_reserved name))
     (act_then (az_call ''creating container'' (az_create env name))
     (act_bind (act_gets (az_now env)) (\<lambda>now1. act_return \<lparr>ac_name = name, ac_created = now1\<rparr>)))"

definition az_get_container :: "'w az_env \<Rightarrow> string \<Rightarrow> ('w, string, az_container) act" where
  "az_get_container env name =
     act_then (act_result (ensure_not_reserved name)) (act_return \<lparr>ac_name = name, ac_created = 0\<rparr>)"

definition az_delete_container :: "'w az_env \<Rightarrow> string \<Rightarrow> ('w, string, unit) act" where
  "az_delete_container env name =
     act_then (act_result (ensure_not_reserved name)) (az_call ''deleting container'' (az_delete env name))"

definition az_container_exists :: "'w az_env \<Rightarrow> string \<Rightarrow> ('w, string, bool) act" where
  "az_container_exists env name =
     act_then (act_result (ensure_not_reserved name)) (az_call ''checking container existence'' (az_exists env name))"

definition az_get_data :: "'w az_env \<Rightarrow> az_container \<Rightarrow> string \<Rightarrow> 64 word \<Rightarrow> 64 word \<Rightarrow> ('w, string, bytes option) act" where
  "az_get_data env c name start end1 =
     act_bind (act_result (range_options start end1)) (\<lambda>range1.
     act_match (az_download env (ac_name c) name range1) (\<lambda>r.
       act_result (case r of
           Inl e \<Rightarrow> if ae_status e = Some 404 then Inr None else Inl (''downloading blob: '' @ ae_text e)
         | Inr (Inl e) \<Rightarrow> Inl (''reading blob body: '' @ e)
         | Inr (Inr data) \<Rightarrow> Inr (Some data))))"

definition az_write_data :: "'w az_env \<Rightarrow> az_container \<Rightarrow> string \<Rightarrow> bytes \<Rightarrow> ('w, string, unit) act" where
  "az_write_data env c name data = az_call ''uploading blob'' (az_upload env (ac_name c) name data False)"

definition az_list_objects :: "'w az_env \<Rightarrow> az_container \<Rightarrow> ('w, string, string list) act" where
  "az_list_objects env c =
     act_bind (az_call ''paginating blob list'' (az_list env (ac_name c))) (\<lambda>items. act_return (List.map_filter (\<lambda>n. n) items))"

definition az_delete_object :: "'w az_env \<Rightarrow> az_container \<Rightarrow> string \<Rightarrow> ('w, string, unit) act" where
  "az_delete_object env c name = az_call ''deleting blob'' (az_delete_blob env (ac_name c) name)"

definition az_has_object :: "'w az_env \<Rightarrow> az_container \<Rightarrow> string \<Rightarrow> ('w, string, bool) act" where
  "az_has_object env c name = az_call ''checking blob existence'' (az_blob_exists env (ac_name c) name)"

definition az_object_info :: "'w az_env \<Rightarrow> az_container \<Rightarrow> string \<Rightarrow> ('w, string, object_metadata) act" where
  "az_object_info env c name =
     act_bind (az_call ''getting blob properties'' (az_properties env (ac_name c) name)) (\<lambda>p.
       act_return \<lparr>om_name = name, om_container = ac_name c,
         om_created_at = (case ap_created p of None \<Rightarrow> 0 | Some t \<Rightarrow> nat t),
         om_size = (case ap_length p of None \<Rightarrow> 0 | Some n \<Rightarrow> n)\<rparr>)"

section \<open>The package store\<close>

definition read_optional :: "'w az_env \<Rightarrow> string \<Rightarrow> ('w, string, bytes option) act" where
  "read_optional env file =
     act_match (az_download env STORE_CONTAINER file None) (\<lambda>r.
       act_result (case r of
           Inl e \<Rightarrow> if ae_status e = Some 404 then Inr None else Inl (''reading the stored package: '' @ ae_text e)
         | Inr (Inl e) \<Rightarrow> Inl (''reading the stored package: '' @ e)
         | Inr (Inr data) \<Rightarrow> Inr (Some data)))"

definition store_get :: "'w az_env \<Rightarrow> string \<Rightarrow> ('w, string, bytes option) act" where
  "store_get env file = read_optional env file"

definition ensure_store_container :: "'w az_env \<Rightarrow> ('w, string, unit) act" where
  "ensure_store_container env =
     act_match (az_create env STORE_CONTAINER) (\<lambda>r.
       act_result (case r of
           Inl e \<Rightarrow> if ae_status e = Some 409 then Inr () else Inl (''creating the package store container: '' @ ae_text e)
         | Inr _ \<Rightarrow> Inr ()))"

definition store_put :: "'w az_env \<Rightarrow> string \<Rightarrow> bytes \<Rightarrow> ('w, string, unit) act" where
  "store_put env file data =
     act_then (ensure_store_container env)
     (act_match (az_upload env STORE_CONTAINER file data True) (\<lambda>r.
       act_result (case r of
           Inl e \<Rightarrow> if ae_status e \<in> {Some 409, Some 412} then Inr () else Inl (''uploading package: '' @ ae_text e)
         | Inr _ \<Rightarrow> Inr ())))"

definition store_describe :: "string \<Rightarrow> string" where
  "store_describe file = ''the '' @ ticks STORE_CONTAINER @ '' container holds no '' @ ticks file"

section \<open>Guests and the package store\<close>

text \<open>What a guest can ask: a container by name, or an object of a container it has opened.\<close>

datatype guest_call =
    G_Create string | G_Delete string | G_Exists string
  | G_Read string string "64 word" "64 word" | G_Write string string bytes | G_List string
  | G_Delete_Object string string | G_Has string string | G_Info string string

definition drop_answer :: "('w, string, 'a) act \<Rightarrow> 'w \<Rightarrow> 'w" where
  "drop_answer m w = snd (m w)"

fun guest_effect :: "'w az_env \<Rightarrow> guest_call \<Rightarrow> 'w \<Rightarrow> 'w" where
  "guest_effect env (G_Create n) = drop_answer (az_create_container env n)"
| "guest_effect env (G_Delete n) = drop_answer (az_delete_container env n)"
| "guest_effect env (G_Exists n) = drop_answer (az_container_exists env n)"
| "guest_effect env (G_Read n x s e) = drop_answer (act_bind (az_get_container env n) (\<lambda>c. az_get_data env c x s e))"
| "guest_effect env (G_Write n x d) = drop_answer (act_bind (az_get_container env n) (\<lambda>c. az_write_data env c x d))"
| "guest_effect env (G_List n) = drop_answer (act_bind (az_get_container env n) (az_list_objects env))"
| "guest_effect env (G_Delete_Object n x) = drop_answer (act_bind (az_get_container env n) (\<lambda>c. az_delete_object env c x))"
| "guest_effect env (G_Has n x) = drop_answer (act_bind (az_get_container env n) (\<lambda>c. az_has_object env c x))"
| "guest_effect env (G_Info n x) = drop_answer (act_bind (az_get_container env n) (\<lambda>c. az_object_info env c x))"

text \<open>
  The service: a request on a container changes no other, a container that is there is not created
  again, and an upload on condition that the blob is new replaces none. \<open>stored\<close> is what a
  container holds.
\<close>

definition az_laws :: "'w az_env \<Rightarrow> ('w \<Rightarrow> string \<Rightarrow> string \<Rightarrow> bytes option) \<Rightarrow> bool" where
  "az_laws env stored \<longleftrightarrow>
     (\<forall>c c' w. c' \<noteq> c \<longrightarrow>
        stored (snd (az_create env c w)) c' = stored w c' \<and> stored (snd (az_delete env c w)) c' = stored w c' \<and>
        stored (snd (az_exists env c w)) c' = stored w c' \<and> stored (snd (az_list env c w)) c' = stored w c' \<and>
        (\<forall>x r. stored (snd (az_download env c x r w)) c' = stored w c') \<and>
        (\<forall>x d b. stored (snd (az_upload env c x d b w)) c' = stored w c') \<and>
        (\<forall>x. stored (snd (az_delete_blob env c x w)) c' = stored w c') \<and>
        (\<forall>x. stored (snd (az_blob_exists env c x w)) c' = stored w c') \<and>
        (\<forall>x. stored (snd (az_properties env c x w)) c' = stored w c')) \<and>
     (\<forall>c w x d. stored w c x = Some d \<longrightarrow> stored (snd (az_create env c w)) c x = Some d) \<and>
     (\<forall>c w x y d d'. stored w c x = Some d \<longrightarrow> stored (snd (az_upload env c y d' True w)) c x = Some d)"

lemma az_lawsD:
  assumes "az_laws env stored"
  shows "c' \<noteq> c \<Longrightarrow> stored (snd (az_create env c w)) c' = stored w c'"
    and "c' \<noteq> c \<Longrightarrow> stored (snd (az_delete env c w)) c' = stored w c'"
    and "c' \<noteq> c \<Longrightarrow> stored (snd (az_exists env c w)) c' = stored w c'"
    and "c' \<noteq> c \<Longrightarrow> stored (snd (az_list env c w)) c' = stored w c'"
    and "c' \<noteq> c \<Longrightarrow> stored (snd (az_download env c x r w)) c' = stored w c'"
    and "c' \<noteq> c \<Longrightarrow> stored (snd (az_upload env c x d b w)) c' = stored w c'"
    and "c' \<noteq> c \<Longrightarrow> stored (snd (az_delete_blob env c x w)) c' = stored w c'"
    and "c' \<noteq> c \<Longrightarrow> stored (snd (az_blob_exists env c x w)) c' = stored w c'"
    and "c' \<noteq> c \<Longrightarrow> stored (snd (az_properties env c x w)) c' = stored w c'"
    and "stored w c x = Some d \<Longrightarrow> stored (snd (az_create env c w)) c x = Some d"
    and "stored w c x = Some d \<Longrightarrow> stored (snd (az_upload env c y d' True w)) c x = Some d"
  using assms unfolding az_laws_def by simp_all

lemma az_call_world: "snd (az_call doing m w) = snd (m w)"
  by (simp add: az_call_def split: prod.split sum.split)

lemma guarded_world:
  assumes "name \<noteq> STORE_CONTAINER \<Longrightarrow> stored (snd (m w)) STORE_CONTAINER = stored w STORE_CONTAINER"
  shows "stored (snd (act_then (act_result (ensure_not_reserved name)) m w)) STORE_CONTAINER = stored w STORE_CONTAINER"
  using assms by (simp add: act_then_def act_bind_apply ensure_not_reserved_def)

lemma opened_world:
  assumes "\<And>c. ac_name c \<noteq> STORE_CONTAINER \<Longrightarrow> stored (snd (m c w)) STORE_CONTAINER = stored w STORE_CONTAINER"
  shows "stored (snd (act_bind (az_get_container env name) m w)) STORE_CONTAINER = stored w STORE_CONTAINER"
  using assms by (simp add: az_get_container_def act_then_def act_bind_apply ensure_not_reserved_def)

lemma guest_keeps_store:
  assumes laws: "az_laws env stored"
  shows "stored (guest_effect env call w) STORE_CONTAINER = stored w STORE_CONTAINER"
proof -
  note l = az_lawsD [OF laws]
  show ?thesis
  proof (cases call)
    case (G_Create n)
    have "snd (act_then (az_call ''creating container'' (az_create env n))
        (act_bind (act_gets (az_now env)) (\<lambda>now1. act_return \<lparr>ac_name = n, ac_created = now1\<rparr>)) w) = snd (az_create env n w)"
      by (simp add: act_then_def act_bind_apply az_call_def split: prod.split sum.split)
    with G_Create l(1) [of STORE_CONTAINER n w] show ?thesis
      by (simp add: drop_answer_def az_create_container_def guarded_world)
  next
    case (G_Delete n)
    with l(2) [of STORE_CONTAINER n w] show ?thesis
      by (simp add: drop_answer_def az_delete_container_def guarded_world az_call_world)
  next
    case (G_Exists n)
    with l(3) [of STORE_CONTAINER n w] show ?thesis
      by (simp add: drop_answer_def az_container_exists_def guarded_world az_call_world)
  next
    case (G_Read n x s e)
    have "stored (snd (az_get_data env c x s e w)) STORE_CONTAINER = stored w STORE_CONTAINER" if "ac_name c \<noteq> STORE_CONTAINER" for c
      using that l(5) [of STORE_CONTAINER "ac_name c"]
      by (auto simp: az_get_data_def act_bind_apply act_match_apply split: sum.split prod.split) (metis snd_conv)+
    with G_Read show ?thesis by (simp add: drop_answer_def opened_world)
  next
    case (G_Write n x d)
    have "stored (snd (az_write_data env c x d w)) STORE_CONTAINER = stored w STORE_CONTAINER" if "ac_name c \<noteq> STORE_CONTAINER" for c
      using that l(6) [of STORE_CONTAINER "ac_name c"] by (simp add: az_write_data_def az_call_world)
    with G_Write show ?thesis by (simp add: drop_answer_def opened_world)
  next
    case (G_List n)
    have "stored (snd (az_list_objects env c w)) STORE_CONTAINER = stored w STORE_CONTAINER" if "ac_name c \<noteq> STORE_CONTAINER" for c
    proof -
      have "snd (az_list_objects env c w) = snd (az_list env (ac_name c) w)"
        by (simp add: az_list_objects_def act_bind_apply az_call_def split: prod.split sum.split)
      then show ?thesis using that l(4) [of STORE_CONTAINER "ac_name c" w] by simp
    qed
    with G_List show ?thesis by (simp add: drop_answer_def opened_world)
  next
    case (G_Delete_Object n x)
    have "stored (snd (az_delete_object env c x w)) STORE_CONTAINER = stored w STORE_CONTAINER" if "ac_name c \<noteq> STORE_CONTAINER" for c
      using that l(7) [of STORE_CONTAINER "ac_name c"] by (simp add: az_delete_object_def az_call_world)
    with G_Delete_Object show ?thesis by (simp add: drop_answer_def opened_world)
  next
    case (G_Has n x)
    have "stored (snd (az_has_object env c x w)) STORE_CONTAINER = stored w STORE_CONTAINER" if "ac_name c \<noteq> STORE_CONTAINER" for c
      using that l(8) [of STORE_CONTAINER "ac_name c"] by (simp add: az_has_object_def az_call_world)
    with G_Has show ?thesis by (simp add: drop_answer_def opened_world)
  next
    case (G_Info n x)
    have "stored (snd (az_object_info env c x w)) STORE_CONTAINER = stored w STORE_CONTAINER" if "ac_name c \<noteq> STORE_CONTAINER" for c
    proof -
      have "snd (az_object_info env c x w) = snd (az_properties env (ac_name c) x w)"
        by (simp add: az_object_info_def act_bind_apply az_call_def split: prod.split sum.split)
      then show ?thesis using that l(9) [of STORE_CONTAINER "ac_name c"] by simp
    qed
    with G_Info show ?thesis by (simp add: drop_answer_def opened_world)
  qed
qed

lemma put_keeps_releases:
  assumes laws: "az_laws env stored" and r: "stored w STORE_CONTAINER file = Some d"
  shows "stored (snd (store_put env other data w)) STORE_CONTAINER file = Some d"
proof -
  obtain c w1 where c: "az_create env STORE_CONTAINER w = (c, w1)" by (cases "az_create env STORE_CONTAINER w")
  with az_lawsD(10) [OF laws r] have r1: "stored w1 STORE_CONTAINER file = Some d" by (metis snd_conv)
  obtain u w2 where u: "az_upload env STORE_CONTAINER other data True w1 = (u, w2)"
    by (cases "az_upload env STORE_CONTAINER other data True w1")
  with az_lawsD(11) [OF laws r1] have r2: "stored w2 STORE_CONTAINER file = Some d" by (metis snd_conv)
  have "snd (store_put env other data w) \<in> {w1, w2}"
    by (auto simp: store_put_def ensure_store_container_def act_then_def act_bind_apply act_match_apply c u split: sum.split)
  with r1 r2 show ?thesis by auto
qed

text \<open>Any sequence of what guests and the host's package store do.\<close>

fun blob_run :: "'w az_env \<Rightarrow> (guest_call + string \<times> bytes) list \<Rightarrow> 'w \<Rightarrow> 'w" where
  "blob_run env [] w = w"
| "blob_run env (Inl call # xs) w = blob_run env xs (guest_effect env call w)"
| "blob_run env (Inr (file, data) # xs) w = blob_run env xs (drop_answer (store_put env file data) w)"

text \<open>
  C35. A release stored in the package store is final: whatever guests ask of the blob store, its own
  container included, and whatever the host puts beside it or again under its name, it stays as it is.
\<close>

theorem stored_release_final:
  assumes laws: "az_laws env stored" and "stored w STORE_CONTAINER file = Some release"
  shows "stored (blob_run env xs w) STORE_CONTAINER file = Some release"
  using assms(2)
proof (induction xs arbitrary: w)
  case (Cons x xs)
  show ?case
  proof (cases x)
    case (Inl call)
    with Cons guest_keeps_store [OF laws, of call w] show ?thesis by simp
  next
    case (Inr p)
    with Cons put_keeps_releases [OF laws] show ?thesis by (cases p) (simp add: drop_answer_def)
  qed
qed simp

text \<open>A service of containers as maps, for the witness.\<close>

type_synonym az_maps = "string \<Rightarrow> string \<Rightarrow> bytes option"

definition maps_env :: "az_maps az_env" where
  "maps_env = \<lparr>az_create = (\<lambda>_ w. (Inl \<lparr>ae_status = Some 409, ae_text = []\<rparr>, w)), az_delete = (\<lambda>c w. (Inr (), w(c := Map.empty))),
     az_exists = (\<lambda>_ w. (Inr True, w)), az_download = (\<lambda>_ _ _ w. (Inl \<lparr>ae_status = Some 404, ae_text = []\<rparr>, w)),
     az_upload = (\<lambda>c x d new w. if new \<and> w c x \<noteq> None then (Inl \<lparr>ae_status = Some 409, ae_text = []\<rparr>, w)
        else (Inr (), w(c := (w c)(x \<mapsto> d)))),
     az_list = (\<lambda>_ w. (Inr [], w)), az_delete_blob = (\<lambda>c x w. (Inr (), w(c := (w c)(x := None)))),
     az_blob_exists = (\<lambda>c x w. (Inr (w c x \<noteq> None), w)),
     az_properties = (\<lambda>_ _ w. (Inr \<lparr>ap_length = None, ap_created = None\<rparr>, w)), az_now = (\<lambda>_. 0)\<rparr>"

lemma maps_env_laws: "az_laws maps_env (\<lambda>w. w)"
  unfolding az_laws_def maps_env_def by auto

theorem stored_release_final_witness:
  "blob_run maps_env [Inl (G_Delete_Object STORE_CONTAINER ''a@1.wasm''), Inr (''a@1.wasm'', [9]), Inl (G_Delete STORE_CONTAINER)]
     (\<lambda>c. if c = STORE_CONTAINER then [''a@1.wasm'' \<mapsto> [7]] else Map.empty) STORE_CONTAINER ''a@1.wasm'' = Some [7]"
  by (rule stored_release_final [OF maps_env_laws]) simp

section \<open>One byte range for every backend\<close>

text \<open>What a service answers to an HTTP range; None is the status 416, a range that starts past the end.\<close>

definition http_serves :: "(64 word \<times> 64 word option) option \<Rightarrow> bytes \<Rightarrow> bytes option" where
  "http_serves r data =
     (case r of
        None \<Rightarrow> Some data
      | Some (offset, len) \<Rightarrow>
          if unat offset < length data then
            Some (case len of None \<Rightarrow> drop (unat offset) data | Some n \<Rightarrow> take (unat n) (drop (unat offset) data))
          else None)"

lemma range_length:
  assumes "start \<le> end1" and "end1 \<noteq> U64_MAX"
  shows "unat (end1 - start + 1) = Suc (unat end1) - unat start"
proof -
  have d: "unat (end1 - start) = unat end1 - unat start" using assms(1) by (simp add: unat_sub)
  have "unat end1 < 2 ^ 64" using unsigned_less [of end1, where ?'a = nat] by simp
  moreover have "unat end1 \<noteq> 2 ^ 64 - 1" using assms(2) unat_U64_MAX by (metis word_unat_eq_iff)
  ultimately have "unat (end1 - start) + 1 < 2 ^ 64" using d by linarith
  then have "unat (end1 - start + 1) = unat (end1 - start) + 1" by (simp add: unat_plus_simple unat_word_ariths)
  with d assms(1) show ?thesis by (simp add: word_le_nat_alt Suc_diff_le)
qed


end
