(* ===== verification/Azure_Vault.thy ===== *)
theory Azure_Vault
  imports Rust_Text Rust_Effect
begin

text \<open>
  Lockers of secrets in an Azure key vault (\<open>src/crates/azure-vault/src/key_vault.rs\<close>): every locker
  shares one vault, its secrets under names that carry the locker's. The vault is the environment and
  unpadded URL-safe Base64 a parameter.
\<close>

section \<open>Names\<close>

record base64 =
  b64_encode :: "string \<Rightarrow> string"
  b64_decode :: "string \<Rightarrow> string option"

text \<open>What the encoding promises: it reads back, and its alphabet has no slash.\<close>

definition base64_laws :: "base64 \<Rightarrow> bool" where
  "base64_laws b64 \<longleftrightarrow> (\<forall>s. b64_decode b64 (b64_encode b64 s) = Some s) \<and> (\<forall>s. CHR ''/'' \<notin> set (b64_encode b64 s))"

definition secret_name :: "string \<Rightarrow> string \<Rightarrow> string" where
  "secret_name identifier secret_id = dec_nat (length identifier) @ '':'' @ identifier @ '':'' @ secret_id"

definition encode_secret_name :: "base64 \<Rightarrow> string \<Rightarrow> string \<Rightarrow> string" where
  "encode_secret_name b64 identifier secret_id = b64_encode b64 (secret_name identifier secret_id)"

text \<open>\<open>str::rsplit_once\<close> at the last occurrence, and \<open>split_at_checked\<close>, which is at a character.\<close>

fun rsplit_once_str :: "string \<Rightarrow> string \<Rightarrow> (string \<times> string) option" where
  "rsplit_once_str p [] = (if p = [] then Some ([], []) else None)"
| "rsplit_once_str p (c # cs) =
     (case rsplit_once_str p cs of
        Some (a, b) \<Rightarrow> Some (c # a, b)
      | None \<Rightarrow> map_option (\<lambda>r. ([], r)) (strip_prefix p (c # cs)))"

definition continuation :: "char \<Rightarrow> bool" where
  "continuation c \<longleftrightarrow> (let n = of_char c :: nat in 0x80 \<le> n \<and> n < 0xC0)"

definition split_at_checked :: "nat \<Rightarrow> string \<Rightarrow> (string \<times> string) option" where
  "split_at_checked n s =
     (if n \<le> length s \<and> (n = 0 \<or> n = length s \<or> \<not> continuation (s ! n)) then Some (take n s, drop n s) else None)"

definition decode_secret_id :: "base64 \<Rightarrow> string \<Rightarrow> string \<Rightarrow> string option" where
  "decode_secret_id b64 identifier id_or_url =
     (let encoded = (case rsplit_once_str ''/secrets/'' id_or_url of
          None \<Rightarrow> id_or_url
        | Some (_, tail) \<Rightarrow> hd (str_split (CHR ''/'') tail))
      in Option.bind (b64_decode b64 encoded) (\<lambda>bytes.
         Option.bind (if utf8_valid bytes then Some bytes else None) (\<lambda>decoded.
         Option.bind (split_once (CHR '':'') decoded) (\<lambda>(len, rest).
         Option.bind (parse_u64 len) (\<lambda>len.
         Option.bind (split_at_checked len rest) (\<lambda>(locker, rest).
         Option.bind (strip_prefix '':'' rest) (\<lambda>secret_id.
         if locker = identifier then Some secret_id else None)))))))"

section \<open>The locker\<close>

record vault_error =
  ve_status :: "nat option"
  ve_text :: string

record 'w vault_env =
  vt_get :: "string \<Rightarrow> 'w \<Rightarrow> (vault_error + (string + string option)) \<times> 'w"
  vt_set :: "string \<Rightarrow> string \<Rightarrow> ('w, string, unit) act"
  vt_delete :: "string \<Rightarrow> ('w, string, unit) act"
  vt_list :: "('w, string, string option list) act"

definition open_locker :: "'v option \<Rightarrow> string \<Rightarrow> string + string \<times> 'v" where
  "open_locker key_vault identifier =
     (case key_vault of None \<Rightarrow> Inl ''azure keyvault not configured for this client'' | Some v \<Rightarrow> Inr (identifier, v))"

text \<open>A value is text in the vault; a secret's bytes are those of its decoding.\<close>

definition locker_get :: "base64 \<Rightarrow> 'w vault_env \<Rightarrow> string \<Rightarrow> string \<Rightarrow> ('w, string, string option) act" where
  "locker_get b64 env identifier secret_id =
     act_match (vt_get env (encode_secret_name b64 identifier secret_id)) (\<lambda>r.
       act_result (case r of
           Inl e \<Rightarrow> if ve_status e = Some 404 then Inr None else Inl (''issue getting secret: '' @ ve_text e)
         | Inr (Inl e) \<Rightarrow> Inl (''issue deserializing secret: '' @ e)
         | Inr (Inr None) \<Rightarrow> Inr None
         | Inr (Inr (Some v)) \<Rightarrow> (case b64_decode b64 v of None \<Rightarrow> Inl ''issue decoding secret'' | Some d \<Rightarrow> Inr (Some d))))"

definition locker_set :: "base64 \<Rightarrow> 'w vault_env \<Rightarrow> string \<Rightarrow> string \<Rightarrow> string \<Rightarrow> ('w, string, unit) act" where
  "locker_set b64 env identifier secret_id data =
     act_context ''issue setting secret'' (vt_set env (encode_secret_name b64 identifier secret_id) (b64_encode b64 data))"

definition locker_delete :: "base64 \<Rightarrow> 'w vault_env \<Rightarrow> string \<Rightarrow> string \<Rightarrow> ('w, string, unit) act" where
  "locker_delete b64 env identifier secret_id =
     act_context ''issue deleting secret'' (vt_delete env (encode_secret_name b64 identifier secret_id))"

definition locker_exists :: "base64 \<Rightarrow> 'w vault_env \<Rightarrow> string \<Rightarrow> string \<Rightarrow> ('w, string, bool) act" where
  "locker_exists b64 env identifier secret_id = act_bind (locker_get b64 env identifier secret_id) (\<lambda>v. act_return (v \<noteq> None))"

definition locker_list_ids :: "base64 \<Rightarrow> 'w vault_env \<Rightarrow> string \<Rightarrow> ('w, string, string list) act" where
  "locker_list_ids b64 env identifier =
     act_bind (act_context ''issue collecting secrets'' (vt_list env)) (\<lambda>ids.
       act_return (List.map_filter (\<lambda>p. Option.bind p (decode_secret_id b64 identifier)) ids))"

section \<open>Lockers are apart\<close>

lemma rsplit_once_str_None: "p \<noteq> [] \<Longrightarrow> \<not> str_contains s p \<Longrightarrow> rsplit_once_str p s = None"
  by (induction s) (auto simp: starts_with_iff strip_prefix_None split: option.split)

lemma rsplit_once_str_append:
  "rsplit_once_str p s = Some (a, b) \<Longrightarrow> rsplit_once_str p (url @ s) = Some (url @ a, b)"
  by (induction url) auto

lemma no_slash_no_part: "CHR ''/'' \<notin> set s \<Longrightarrow> \<not> str_contains s (x @ CHR ''/'' # y)"
  by (auto simp: str_contains_iff)

lemma last_segment:
  assumes "CHR ''/'' \<notin> set name"
  shows "rsplit_once_str ''/secrets/'' (''/secrets/'' @ name) = Some ([], name)"
proof -
  have no: "rsplit_once_str ''/secrets/'' name = None"
    by (rule rsplit_once_str_None) (use no_slash_no_part [OF assms, of "[]" "''secrets/''"] in simp_all)
  have "strip_prefix ''/secrets/'' (CHR ''/'' # name) = None"
    using assms by (auto simp: strip_prefix_None)
  with no show ?thesis by simp
qed

lemma split_head_no_sep: "CHR ''/'' \<notin> set name \<Longrightarrow> hd (str_split (CHR ''/'') name) = name"
  by (simp add: str_split_no)

lemma parse_u64_dec: "n < 2 ^ 64 \<Longrightarrow> parse_u64 (dec_nat n) = Some n"
proof -
  assume n: "n < 2 ^ 64"
  obtain c cs where c: "dec_nat n = c # cs" "is_digit c" using dec_nat_digits [of n] by (cases "dec_nat n") auto
  then have "c \<noteq> CHR ''+''" by (auto simp: is_digit_def)
  with c parse_dec_nat [of n] n show ?thesis by (simp add: parse_u64_def)
qed

lemma decode_name:
  assumes "base64_laws b64" and "utf8_valid (secret_name locker secret_id)" and "length locker < 2 ^ 64"
    and "enc = encode_secret_name b64 locker secret_id" and "id_or_url = enc \<or> id_or_url = url @ ''/secrets/'' @ enc"
  shows "decode_secret_id b64 identifier id_or_url = (if locker = identifier then Some secret_id else None)"
proof -
  have slash: "CHR ''/'' \<notin> set enc" and dec: "b64_decode b64 enc = Some (secret_name locker secret_id)"
    using assms(1,4) by (simp_all add: base64_laws_def encode_secret_name_def)
  have enc: "(case rsplit_once_str ''/secrets/'' id_or_url of None \<Rightarrow> id_or_url | Some (_, tail) \<Rightarrow> hd (str_split (CHR ''/'') tail)) = enc"
    using assms(5)
  proof
    assume e: "id_or_url = enc"
    have "rsplit_once_str ''/secrets/'' enc = None"
      by (rule rsplit_once_str_None) (use no_slash_no_part [OF slash, of "[]" "''secrets/''"] in simp_all)
    with e show ?thesis by simp
  next
    assume "id_or_url = url @ ''/secrets/'' @ enc"
    with rsplit_once_str_append [OF last_segment [OF slash]] split_head_no_sep [OF slash] show ?thesis by simp
  qed
  have "CHR '':'' \<notin> set (dec_nat (length locker))" using dec_nat_digits [of "length locker"] by (auto simp: list_all_iff is_digit_def)
  then have once: "split_once (CHR '':'') (secret_name locker secret_id) = Some (dec_nat (length locker), locker @ '':'' @ secret_id)"
    by (simp add: split_once_Some secret_name_def)
  have "\<not> continuation (CHR '':'')" by (simp add: continuation_def)
  then have at: "split_at_checked (length locker) (locker @ '':'' @ secret_id) = Some (locker, '':'' @ secret_id)"
    by (simp add: split_at_checked_def nth_append)
  show ?thesis
    unfolding decode_secret_id_def Let_def enc dec
    using assms(2) once at parse_u64_dec [OF assms(3)] by simp
qed


text \<open>An encoding with the laws, for the witness: two letters for each byte.\<close>

definition letters :: "char \<Rightarrow> string" where
  "letters c = [char_of (97 + of_char c div 16 :: nat), char_of (97 + of_char c mod 16 :: nat)]"

fun unletters :: "string \<Rightarrow> string option" where
  "unletters [] = Some []"
| "unletters [_] = None"
| "unletters (a # b # s) = map_option (\<lambda>t. char_of ((of_char a - 97) * 16 + (of_char b - 97) :: nat) # t) (unletters s)"

definition letters64 :: base64 where
  "letters64 = \<lparr>b64_encode = (\<lambda>s. concat (map letters s)), b64_decode = unletters\<rparr>"

lemma letters_laws: "base64_laws letters64"
proof -
  have code: "of_char (char_of (97 + k :: nat) :: char) = 97 + k" if "k < 16" for k :: nat
    using that by (simp add: of_char_of)
  have less: "(of_char c :: nat) div 16 < 16" for c :: char
    using nat_of_char_less_256 [of c] by linarith
  have "unletters (concat (map letters s)) = Some s" for s
  proof (induction s)
    case (Cons c s)
    have "(of_char c :: nat) div 16 * 16 + of_char c mod 16 = of_char c" by simp
    with Cons code [OF less [of c]] code [of "of_char c mod 16"] show ?case by (simp add: letters_def)
  qed simp
  moreover have "CHR ''/'' \<notin> set (letters c)" for c
  proof -
    have "(of_char x :: nat) \<noteq> 47" if "x \<in> set (letters c)" for x
      using that code [OF less [of c]] code [of "of_char c mod 16"] by (auto simp: letters_def)
    then show ?thesis by force
  qed
  ultimately show ?thesis by (auto simp: base64_laws_def letters64_def)
qed


end
