(* ===== verification/Sandbox_Seccomp.thy ===== *)
theory Sandbox_Seccomp
  imports Sandbox_Grant
begin

text \<open>
  The system calls a confined process is refused on Linux (\<open>src/crates/sandbox/src/linux.rs\<close>): the two
  seccomp filters, from the conditions on arguments up. The library that compiles a filter and the
  kernel that runs it are \<open>seccompiler\<close>, under the reading its documentation gives a filter.
\<close>

unbundle bit_operations_syntax

section \<open>Constants of the platform\<close>

text \<open>Those of \<open>libc\<close> on Linux; the numbers of the calls are \<open>sys\<close>, by name.\<close>

definition AF_INET :: int where "AF_INET = 2"
definition AF_INET6 :: int where "AF_INET6 = 10"
definition AF_NETLINK :: int where "AF_NETLINK = 16"
definition AF_PACKET :: int where "AF_PACKET = 17"
definition NETLINK_ROUTE :: int where "NETLINK_ROUTE = 0"
definition SOCK_DGRAM :: int where "SOCK_DGRAM = 2"
definition SOCK_RAW :: int where "SOCK_RAW = 3"
definition SOCK_RDM :: int where "SOCK_RDM = 4"
definition SOCK_SEQPACKET :: int where "SOCK_SEQPACKET = 5"
definition SOCK_DCCP :: int where "SOCK_DCCP = 6"
definition CLONE_NEWUSER :: int where "CLONE_NEWUSER = 0x10000000"
definition EPERM :: int where "EPERM = 1"
definition ENOSYS :: int where "ENOSYS = 38"

lemmas libc_defs = AF_INET_def AF_INET6_def AF_NETLINK_def AF_PACKET_def NETLINK_ROUTE_def SOCK_DGRAM_def SOCK_RAW_def
  SOCK_RDM_def SOCK_SEQPACKET_def SOCK_DCCP_def CLONE_NEWUSER_def EPERM_def ENOSYS_def

definition SOCK_PACKET :: int where "SOCK_PACKET = 10"
definition SOCK_TYPE_MASK :: "64 word" where "SOCK_TYPE_MASK = 0xf"
definition TIOCSTI :: "64 word" where "TIOCSTI = 0x5412"
definition TIOCLINUX :: "64 word" where "TIOCLINUX = 0x541C"

section \<open>Filters\<close>

datatype target_arch = X86_64 | Aarch64
datatype arg_len = Dword | Qword
datatype cmp_op = Cmp_Eq | Cmp_Ne | Masked_Eq "64 word"
datatype seccomp_action = Seccomp_Allow | Seccomp_Errno nat

record condition =
  cd_arg :: nat
  cd_len :: arg_len
  cd_op :: cmp_op
  cd_value :: "64 word"

type_synonym seccomp_rules = "(int, condition list list) btree"

text \<open>What the library refuses, the program it compiles, and what the kernel answers a call under it.\<close>

record 'p seccompiler =
  sc_condition :: "condition \<Rightarrow> string + unit"
  sc_rule :: "condition list \<Rightarrow> string + unit"
  sc_filter :: "seccomp_rules \<Rightarrow> seccomp_action \<Rightarrow> seccomp_action \<Rightarrow> target_arch \<Rightarrow> string + unit"
  sc_program :: "seccomp_rules \<Rightarrow> seccomp_action \<Rightarrow> seccomp_action \<Rightarrow> target_arch \<Rightarrow> string + 'p"
  sc_run :: "'p \<Rightarrow> int \<Rightarrow> (nat \<Rightarrow> 64 word) \<Rightarrow> seccomp_action"

definition text_context :: "string \<Rightarrow> string + 'a \<Rightarrow> string + 'a" where
  "text_context c r = (case r of Inl e \<Rightarrow> Inl (c @ '': '' @ e) | Inr a \<Rightarrow> Inr a)"

lemma text_context_Inr [simp]: "text_context c r = Inr a \<longleftrightarrow> r = Inr a"
  by (simp add: text_context_def split: sum.split)

definition c_flag :: "int \<Rightarrow> 64 word" where
  "c_flag v = word_of_int \<bar>v\<bar>"

definition errno :: "int \<Rightarrow> nat" where
  "errno code = nat \<bar>code\<bar>"

definition new_condition :: "'p seccompiler \<Rightarrow> nat \<Rightarrow> arg_len \<Rightarrow> cmp_op \<Rightarrow> 64 word \<Rightarrow> string + condition" where
  "new_condition sc arg len op v =
     (let c = \<lparr>cd_arg = arg, cd_len = len, cd_op = op, cd_value = v\<rparr>
      in text_context ''a seccomp condition'' (res_map (\<lambda>_. c) (sc_condition sc c)))"

definition sc_rule_of :: "'p seccompiler \<Rightarrow> condition list \<Rightarrow> string + condition list" where
  "sc_rule_of sc cs = text_context ''a seccomp rule'' (res_map (\<lambda>_. cs) (sc_rule sc cs))"

definition cond_dword :: "'p seccompiler \<Rightarrow> nat \<Rightarrow> int \<Rightarrow> string + condition" where
  "cond_dword sc arg v = new_condition sc arg Dword Cmp_Eq (c_flag v)"

definition cond_not_dword :: "'p seccompiler \<Rightarrow> nat \<Rightarrow> int \<Rightarrow> string + condition" where
  "cond_not_dword sc arg v = new_condition sc arg Dword Cmp_Ne (c_flag v)"

definition cond_masked :: "'p seccompiler \<Rightarrow> nat \<Rightarrow> 64 word \<Rightarrow> string + condition" where
  "cond_masked sc arg bits = new_condition sc arg Qword (Masked_Eq bits) bits"

definition cond_request :: "'p seccompiler \<Rightarrow> 64 word \<Rightarrow> string + condition" where
  "cond_request sc v = new_condition sc 1 Dword Cmp_Eq v"

definition OTHER_TYPES :: "int list" where
  "OTHER_TYPES = [SOCK_DGRAM, SOCK_RAW, SOCK_RDM, SOCK_SEQPACKET, SOCK_DCCP, SOCK_PACKET]"

definition typed_socket :: "'p seccompiler \<Rightarrow> int \<times> int \<Rightarrow> string + condition list" where
  "typed_socket sc = (\<lambda>(domain, socket_type).
     res_bind (cond_dword sc 0 domain) (\<lambda>d.
     res_bind (new_condition sc 1 Dword (Masked_Eq SOCK_TYPE_MASK) (c_flag socket_type)) (\<lambda>t. sc_rule_of sc [d, t])))"

definition seccomp_sockets :: "'p seccompiler \<Rightarrow> string + condition list list" where
  "seccomp_sockets sc =
     res_bind (res_bind (cond_dword sc 0 AF_PACKET) (\<lambda>p. sc_rule_of sc [p])) (\<lambda>packet.
     res_bind (res_bind (cond_dword sc 0 AF_NETLINK) (\<lambda>n. res_bind (cond_not_dword sc 2 NETLINK_ROUTE) (\<lambda>r. sc_rule_of sc [n, r]))) (\<lambda>netlink.
     res_map (\<lambda>rules. [packet, netlink] @ rules)
       (res_traverse (typed_socket sc) (List.product [AF_INET, AF_INET6] OTHER_TYPES))))"

definition OUTRIGHT :: "target_arch \<Rightarrow> string list" where
  "OUTRIGHT arch =
     [''ptrace'', ''process_vm_readv'', ''process_vm_writev'', ''kcmp'', ''pidfd_getfd'', ''open_by_handle_at'', ''unshare'', ''setns'',
      ''mount'', ''umount2'', ''pivot_root'', ''open_tree'', ''move_mount'', ''fsopen'', ''fsconfig'', ''fsmount'', ''fspick'',
      ''mount_setattr'', ''bpf'', ''userfaultfd'', ''perf_event_open'', ''personality'', ''io_uring_setup'', ''io_uring_enter'',
      ''io_uring_register'', ''init_module'', ''finit_module'', ''delete_module'', ''kexec_load'', ''kexec_file_load'', ''reboot'',
      ''add_key'', ''request_key'', ''keyctl'', ''settimeofday'', ''clock_settime'', ''adjtimex'', ''sethostname'', ''setdomainname'',
      ''swapon'', ''swapoff'', ''quotactl'', ''acct''] @
     (if arch = X86_64 then [''ioperm'', ''iopl'', ''modify_ldt''] else [])"

definition seccomp_denied :: "(string \<Rightarrow> int) \<Rightarrow> target_arch \<Rightarrow> 'p seccompiler \<Rightarrow> string + seccomp_rules" where
  "seccomp_denied sys arch sc =
     (let rules = bt_extend (map (\<lambda>name. (sys name, [])) (OUTRIGHT arch)) [] in
      res_bind (seccomp_sockets sc) (\<lambda>sockets.
      res_bind (res_bind (cond_masked sc 0 (c_flag CLONE_NEWUSER)) (\<lambda>c. sc_rule_of sc [c])) (\<lambda>user.
      res_bind (res_bind (cond_request sc TIOCSTI) (\<lambda>c. sc_rule_of sc [c])) (\<lambda>sti.
      res_bind (res_bind (cond_request sc TIOCLINUX) (\<lambda>c. sc_rule_of sc [c])) (\<lambda>lnx.
        Inr (bt_insert (sys ''ioctl'') [sti, lnx] (bt_insert (sys ''clone'') [user] (bt_insert (sys ''socket'') sockets rules))))))))"

definition seccomp_compile :: "'p seccompiler \<Rightarrow> seccomp_rules \<Rightarrow> seccomp_action \<Rightarrow> target_arch \<Rightarrow> string + 'p" where
  "seccomp_compile sc rules matched arch =
     res_bind (text_context ''the seccomp filter'' (sc_filter sc rules Seccomp_Allow matched arch)) (\<lambda>_.
       text_context ''compiling the seccomp filter'' (sc_program sc rules Seccomp_Allow matched arch))"

definition filters_compile :: "(string \<Rightarrow> int) \<Rightarrow> target_arch option \<Rightarrow> 'p seccompiler \<Rightarrow> string + 'p \<times> 'p" where
  "filters_compile sys arch sc =
     (case arch of
        None \<Rightarrow> Inl ''seccomp filters are compiled for x86-64 and aarch64 alone''
      | Some arch \<Rightarrow>
          res_bind (seccomp_denied sys arch sc) (\<lambda>rules.
          res_bind (seccomp_compile sc rules (Seccomp_Errno (errno EPERM)) arch) (\<lambda>denied.
          res_map (\<lambda>unsupported. (denied, unsupported))
            (seccomp_compile sc (bt_extend [(sys ''clone3'', [])] []) (Seccomp_Errno (errno ENOSYS)) arch))))"

section \<open>What a filter means\<close>

text \<open>
  The library's documentation: a condition compares one argument, its low half if so asked; a rule
  holds when all its conditions do; a call is answered by the action when a rule of its holds or it
  has none, any other call by the default.
\<close>

definition cond_holds :: "condition \<Rightarrow> (nat \<Rightarrow> 64 word) \<Rightarrow> bool" where
  "cond_holds c args =
     (let a = args (cd_arg c); v = cd_value c;
          eq = (\<lambda>x y. case cd_len c of Dword \<Rightarrow> (ucast x :: 32 word) = ucast y | Qword \<Rightarrow> x = y)
      in case cd_op c of Cmp_Eq \<Rightarrow> eq a v | Cmp_Ne \<Rightarrow> \<not> eq a v | Masked_Eq m \<Rightarrow> eq (a AND m) (v AND m))"

definition filter_answer :: "seccomp_rules \<Rightarrow> seccomp_action \<Rightarrow> seccomp_action \<Rightarrow> int \<Rightarrow> (nat \<Rightarrow> 64 word) \<Rightarrow> seccomp_action" where
  "filter_answer rules otherwise matched nr args =
     (case map_of rules nr of
        None \<Rightarrow> otherwise
      | Some rs \<Rightarrow> if rs = [] \<or> list_ex (list_all (\<lambda>c. cond_holds c args)) rs then matched else otherwise)"

definition seccompiler_laws :: "'p seccompiler \<Rightarrow> bool" where
  "seccompiler_laws sc \<longleftrightarrow>
     (\<forall>rules otherwise matched arch p. sc_program sc rules otherwise matched arch = Inr p \<longrightarrow>
        sc_run sc p = filter_answer rules otherwise matched)"

section \<open>The policy\<close>

text \<open>
  What is refused, over the arguments as the kernel reads them: \<open>int\<close>s are the low halves of the
  registers, the type of a socket is its low four bits, the flags of \<open>clone\<close> are bits.
\<close>

definition socket_refused :: "32 word \<Rightarrow> 32 word \<Rightarrow> 32 word \<Rightarrow> bool" where
  "socket_refused domain socket_type protocol \<longleftrightarrow>
     domain = 17 \<or> domain = 16 \<and> protocol \<noteq> 0 \<or>
     domain \<in> {2, 10} \<and> socket_type AND 0xF \<in> {2, 3, 4, 5, 6, 10}"

definition call_refused :: "(string \<Rightarrow> int) \<Rightarrow> target_arch \<Rightarrow> int \<Rightarrow> (nat \<Rightarrow> 64 word) \<Rightarrow> bool" where
  "call_refused sys arch nr args \<longleftrightarrow>
     nr \<in> sys ` set (OUTRIGHT arch) \<or>
     nr = sys ''socket'' \<and> socket_refused (ucast (args 0)) (ucast (args 1)) (ucast (args 2)) \<or>
     nr = sys ''clone'' \<and> bit (args 0) 28 \<or>
     nr = sys ''ioctl'' \<and> (ucast (args 1) :: 32 word) \<in> {0x5412, 0x541C}"

definition SYSCALLS :: "string list" where
  "SYSCALLS = OUTRIGHT X86_64 @ [''socket'', ''clone'', ''ioctl'', ''clone3'']"

lemma outright_names: "set (OUTRIGHT arch) \<subseteq> set (OUTRIGHT X86_64)"
  by (cases arch) (auto simp: OUTRIGHT_def)

lemma special_names: "''socket'' \<notin> set (OUTRIGHT arch)" "''clone'' \<notin> set (OUTRIGHT arch)" "''ioctl'' \<notin> set (OUTRIGHT arch)"
  by (simp_all add: OUTRIGHT_def)

lemma sys_other:
  assumes "inj_on sys (set SYSCALLS)" and "name \<in> {''socket'', ''clone'', ''ioctl''}"
  shows "sys name \<notin> sys ` set (OUTRIGHT arch)"
proof
  assume "sys name \<in> sys ` set (OUTRIGHT arch)"
  then obtain n where n: "n \<in> set (OUTRIGHT arch)" "sys name = sys n" by auto
  then have "n \<in> set SYSCALLS" "name \<in> set SYSCALLS" using outright_names [of arch] assms(2) by (auto simp: SYSCALLS_def)
  then have "name = n" using assms(1) n(2) by (auto dest: inj_onD)
  with n(1) assms(2) special_names [of arch] show False by auto
qed

text \<open>The conditions as the kernel reads the arguments.\<close>

lemma ucast_and: "(ucast (a AND b) :: 32 word) = ucast a AND ucast (b :: 64 word)"
  by (rule bit_word_eqI) (simp add: bit_and_iff bit_ucast_iff)

lemma holds_dword: "cond_holds \<lparr>cd_arg = n, cd_len = Dword, cd_op = Cmp_Eq, cd_value = v\<rparr> args \<longleftrightarrow> (ucast (args n) :: 32 word) = ucast v"
  and holds_not_dword: "cond_holds \<lparr>cd_arg = n, cd_len = Dword, cd_op = Cmp_Ne, cd_value = v\<rparr> args \<longleftrightarrow> (ucast (args n) :: 32 word) \<noteq> ucast v"
  and holds_typed: "cond_holds \<lparr>cd_arg = n, cd_len = Dword, cd_op = Masked_Eq m, cd_value = v\<rparr> args \<longleftrightarrow>
    (ucast (args n) :: 32 word) AND ucast m = ucast v AND ucast m"
  by (simp_all add: cond_holds_def ucast_and)

lemma single_bit: "a AND 0x10000000 = (0x10000000 :: 64 word) \<longleftrightarrow> bit a 28"
proof -
  have p: "(0x10000000 :: 64 word) = push_bit 28 1" by (simp add: push_bit_eq_mult)
  have b: "bit (0x10000000 :: 64 word) n \<longleftrightarrow> n = 28" for n
    by (simp only: p bit_push_bit_iff bit_1_iff) auto
  show ?thesis
  proof
    assume "a AND 0x10000000 = 0x10000000"
    then have "bit (a AND 0x10000000) 28" using b by (simp only:)
    then show "bit a 28" by (simp only: bit_and_iff)
  next
    assume "bit a 28"
    then show "a AND 0x10000000 = 0x10000000" by (intro bit_word_eqI) (auto simp only: bit_and_iff b)
  qed
qed

lemma holds_user: "cond_holds \<lparr>cd_arg = 0, cd_len = Qword, cd_op = Masked_Eq (c_flag CLONE_NEWUSER), cd_value = c_flag CLONE_NEWUSER\<rparr> args \<longleftrightarrow>
    bit (args 0) 28"
  by (simp add: cond_holds_def c_flag_def libc_defs single_bit)

text \<open>What the constructors give back.\<close>

lemma new_condition_Inr: "new_condition sc arg len op v = Inr c \<longleftrightarrow>
    sc_condition sc c = Inr () \<and> c = \<lparr>cd_arg = arg, cd_len = len, cd_op = op, cd_value = v\<rparr>"
  by (auto simp: new_condition_def Let_def res_map_Inr_iff)

lemma sc_rule_of_Inr: "sc_rule_of sc cs = Inr r \<longleftrightarrow> sc_rule sc cs = Inr () \<and> r = cs"
  by (auto simp: sc_rule_of_def res_map_Inr_iff)

lemmas built = res_bind_Inr_iff res_map_Inr_iff new_condition_Inr sc_rule_of_Inr cond_dword_def cond_not_dword_def
  cond_masked_def cond_request_def

definition typed_rule :: "int \<times> int \<Rightarrow> condition list" where
  "typed_rule = (\<lambda>(domain, socket_type).
     [\<lparr>cd_arg = 0, cd_len = Dword, cd_op = Cmp_Eq, cd_value = c_flag domain\<rparr>,
      \<lparr>cd_arg = 1, cd_len = Dword, cd_op = Masked_Eq SOCK_TYPE_MASK, cd_value = c_flag socket_type\<rparr>])"

lemma typed_socket_Inr: "typed_socket sc x = Inr r \<Longrightarrow> r = typed_rule x"
  by (cases x) (auto simp: typed_socket_def typed_rule_def built)

lemma typed_sockets_Inr: "res_traverse (typed_socket sc) xs = Inr rs \<Longrightarrow> rs = map typed_rule xs"
  unfolding res_traverse_Inr_iff by (induction xs rs rule: list_all2_induct) (auto dest: typed_socket_Inr)

lemma typed_rules_hold:
  "list_ex (list_all (\<lambda>c. cond_holds c args)) (map typed_rule (List.product [AF_INET, AF_INET6] OTHER_TYPES)) \<longleftrightarrow>
     (ucast (args 0) :: 32 word) \<in> {2, 10} \<and> (ucast (args 1) :: 32 word) AND 0xF \<in> {2, 3, 4, 5, 6, 10}"
  by (simp add: typed_rule_def OTHER_TYPES_def holds_dword holds_typed c_flag_def libc_defs SOCK_PACKET_def SOCK_TYPE_MASK_def) blast

lemma sockets_hold:
  assumes "seccomp_sockets sc = Inr rules"
  shows "rules \<noteq> []" and "list_ex (list_all (\<lambda>c. cond_holds c args)) rules \<longleftrightarrow>
    socket_refused (ucast (args 0)) (ucast (args 1)) (ucast (args 2))"
proof -
  obtain typed where t: "res_traverse (typed_socket sc) (List.product [AF_INET, AF_INET6] OTHER_TYPES) = Inr typed"
    and r: "rules =
      [[\<lparr>cd_arg = 0, cd_len = Dword, cd_op = Cmp_Eq, cd_value = c_flag AF_PACKET\<rparr>],
       [\<lparr>cd_arg = 0, cd_len = Dword, cd_op = Cmp_Eq, cd_value = c_flag AF_NETLINK\<rparr>,
        \<lparr>cd_arg = 2, cd_len = Dword, cd_op = Cmp_Ne, cd_value = c_flag NETLINK_ROUTE\<rparr>]] @ typed"
    using assms unfolding seccomp_sockets_def by (auto simp: built)
  show "rules \<noteq> []" by (simp add: r)
  show "list_ex (list_all (\<lambda>c. cond_holds c args)) rules \<longleftrightarrow> socket_refused (ucast (args 0)) (ucast (args 1)) (ucast (args 2))"
    unfolding r typed_sockets_Inr [OF t] list_ex_append typed_rules_hold
    by (simp add: holds_dword holds_not_dword socket_refused_def c_flag_def libc_defs)
qed

text \<open>The table of denied calls, as a map.\<close>

lemma outright_get:
  "map_of (bt_extend (map (\<lambda>name. (sys name, [] :: condition list list)) names) []) nr = (if nr \<in> sys ` set names then Some [] else None)"
proof -
  have "map_of (rev (map (\<lambda>name. (sys name, [] :: condition list list)) names)) nr = (if nr \<in> sys ` set names then Some [] else None)"
    unfolding rev_map [symmetric] by (induction names) (auto simp: map_of_append map_add_def split: option.split)
  then show ?thesis using bt_extend_get [of "[]" "map (\<lambda>name. (sys name, [] :: condition list list)) names"] by simp
qed

lemma denied_get:
  assumes "seccomp_denied sys arch sc = Inr rules"
  shows "\<exists>sockets. seccomp_sockets sc = Inr sockets \<and>
    map_of rules nr =
      (if nr = sys ''ioctl'' then
         Some [[\<lparr>cd_arg = 1, cd_len = Dword, cd_op = Cmp_Eq, cd_value = TIOCSTI\<rparr>],
               [\<lparr>cd_arg = 1, cd_len = Dword, cd_op = Cmp_Eq, cd_value = TIOCLINUX\<rparr>]]
       else if nr = sys ''clone'' then
         Some [[\<lparr>cd_arg = 0, cd_len = Qword, cd_op = Masked_Eq (c_flag CLONE_NEWUSER), cd_value = c_flag CLONE_NEWUSER\<rparr>]]
       else if nr = sys ''socket'' then Some sockets
       else if nr \<in> sys ` set (OUTRIGHT arch) then Some [] else None)"
  using assms unfolding seccomp_denied_def Let_def by (auto simp: built bt_get_insert outright_get)

lemma ioctl_holds:
  "list_ex (list_all (\<lambda>c. cond_holds c args))
     [[\<lparr>cd_arg = 1, cd_len = Dword, cd_op = Cmp_Eq, cd_value = TIOCSTI\<rparr>],
      [\<lparr>cd_arg = 1, cd_len = Dword, cd_op = Cmp_Eq, cd_value = TIOCLINUX\<rparr>]] \<longleftrightarrow> (ucast (args 1) :: 32 word) \<in> {0x5412, 0x541C}"
  by (simp add: holds_dword TIOCSTI_def TIOCLINUX_def)

lemma denied_answer:
  assumes inj: "inj_on sys (set SYSCALLS)" and d: "seccomp_denied sys arch sc = Inr rules"
  shows "filter_answer rules Seccomp_Allow matched nr args = (if call_refused sys arch nr args then matched else Seccomp_Allow)"
proof -
  obtain sockets where s: "seccomp_sockets sc = Inr sockets" and get: "map_of rules nr =
      (if nr = sys ''ioctl'' then
         Some [[\<lparr>cd_arg = 1, cd_len = Dword, cd_op = Cmp_Eq, cd_value = TIOCSTI\<rparr>],
               [\<lparr>cd_arg = 1, cd_len = Dword, cd_op = Cmp_Eq, cd_value = TIOCLINUX\<rparr>]]
       else if nr = sys ''clone'' then
         Some [[\<lparr>cd_arg = 0, cd_len = Qword, cd_op = Masked_Eq (c_flag CLONE_NEWUSER), cd_value = c_flag CLONE_NEWUSER\<rparr>]]
       else if nr = sys ''socket'' then Some sockets
       else if nr \<in> sys ` set (OUTRIGHT arch) then Some [] else None)"
    using denied_get [OF d, of nr] by blast
  have apart: "sys ''ioctl'' \<noteq> sys ''clone''" "sys ''ioctl'' \<noteq> sys ''socket''" "sys ''clone'' \<noteq> sys ''socket''"
    using inj unfolding inj_on_def by (auto simp: SYSCALLS_def)
  note own = sys_other [OF inj, of "''ioctl''" arch] sys_other [OF inj, of "''clone''" arch] sys_other [OF inj, of "''socket''" arch]
  consider "nr = sys ''ioctl''" | "nr = sys ''clone''" | "nr = sys ''socket''" | "nr \<notin> {sys ''ioctl'', sys ''clone'', sys ''socket''}"
    by blast
  then show ?thesis
  proof cases
    case 1
    then have "call_refused sys arch nr args \<longleftrightarrow> (ucast (args 1) :: 32 word) \<in> {0x5412, 0x541C}"
      using apart own by (auto simp: call_refused_def)
    with 1 get ioctl_holds [of args] show ?thesis by (simp add: filter_answer_def)
  next
    case 2
    then have "call_refused sys arch nr args \<longleftrightarrow> bit (args 0) 28" using apart own by (auto simp: call_refused_def)
    with 2 get apart holds_user [of args] show ?thesis by (simp add: filter_answer_def)
  next
    case 3
    then have "call_refused sys arch nr args \<longleftrightarrow> socket_refused (ucast (args 0)) (ucast (args 1)) (ucast (args 2))"
      using apart own by (auto simp: call_refused_def)
    with 3 get apart sockets_hold [OF s] show ?thesis by (simp add: filter_answer_def)
  next
    case 4
    then have "call_refused sys arch nr args \<longleftrightarrow> nr \<in> sys ` set (OUTRIGHT arch)" by (auto simp: call_refused_def)
    with 4 get show ?thesis by (simp add: filter_answer_def)
  qed
qed

lemma seccomp_compiled:
  assumes "seccompiler_laws sc" and "seccomp_compile sc rules matched arch = Inr p"
  shows "sc_run sc p = filter_answer rules Seccomp_Allow matched"
  using assms by (auto simp: seccomp_compile_def res_bind_Inr_iff seccompiler_laws_def)

text \<open>
  C37. The two compiled filters answer every system call by the policy: the first refuses with
  EPERM exactly the calls listed outright, a socket that is a packet socket, netlink past the route
  family, or an IPv4 or IPv6 socket whose type is datagram, raw, rdm, seqpacket, dccp or the
  obsolete packet type whatever flags ride on the type or on the high half of a register, a clone into a new user
  namespace and the two requests that write a terminal's input; the second answers \<open>clone3\<close>
  with ENOSYS; and every other call is allowed by both.
\<close>

theorem seccomp_policy_exact:
  assumes "seccompiler_laws sc" and "inj_on sys (set SYSCALLS)"
    and "filters_compile sys (Some arch) sc = Inr (denied, unsupported)"
  shows "sc_run sc denied nr args = (if call_refused sys arch nr args then Seccomp_Errno 1 else Seccomp_Allow) \<and>
    sc_run sc unsupported nr args = (if nr = sys ''clone3'' then Seccomp_Errno 38 else Seccomp_Allow)"
proof -
  obtain rules where d: "seccomp_denied sys arch sc = Inr rules"
    and c: "seccomp_compile sc rules (Seccomp_Errno (errno EPERM)) arch = Inr denied"
      "seccomp_compile sc (bt_extend [(sys ''clone3'', [])] []) (Seccomp_Errno (errno ENOSYS)) arch = Inr unsupported"
    using assms(3) by (auto simp: filters_compile_def res_bind_Inr_iff res_map_Inr_iff)
  have e: "errno EPERM = 1" "errno ENOSYS = 38" by (simp_all add: errno_def EPERM_def ENOSYS_def)
  show ?thesis
    unfolding seccomp_compiled [OF assms(1) c(1)] seccomp_compiled [OF assms(1) c(2)] denied_answer [OF assms(2) d] e
    by (simp add: filter_answer_def bt_extend_def)
qed

text \<open>A library that compiles a filter to its table, for the witness, and calls numbered by their place in the list.\<close>

definition table_seccompiler :: "(seccomp_rules \<times> seccomp_action \<times> seccomp_action) seccompiler" where
  "table_seccompiler =
     \<lparr>sc_condition = (\<lambda>_. Inr ()), sc_rule = (\<lambda>_. Inr ()), sc_filter = (\<lambda>_ _ _ _. Inr ()),
      sc_program = (\<lambda>rules otherwise matched _. Inr (rules, otherwise, matched)),
      sc_run = (\<lambda>(rules, otherwise, matched). filter_answer rules otherwise matched)\<rparr>"

definition place_number :: "string \<Rightarrow> int" where
  "place_number name = int (length (takeWhile (\<lambda>n. n \<noteq> name) SYSCALLS))"

lemma table_laws: "seccompiler_laws table_seccompiler"
  by (simp add: seccompiler_laws_def table_seccompiler_def)

lemma place_found: "x \<in> set xs \<Longrightarrow> xs ! length (takeWhile (\<lambda>n. n \<noteq> x) xs) = x"
  by (induction xs) auto

lemma place_number_inj: "inj_on place_number (set SYSCALLS)"
proof (rule inj_onI)
  fix a b assume "a \<in> set SYSCALLS" "b \<in> set SYSCALLS" "place_number a = place_number b"
  moreover have "SYSCALLS ! length (takeWhile (\<lambda>n. n \<noteq> x) SYSCALLS) = x" if "x \<in> set SYSCALLS" for x
    using that by (rule place_found)
  ultimately show "a = b" unfolding place_number_def by (metis of_nat_eq_iff)
qed

lemma table_compiles: "\<exists>denied unsupported. filters_compile sys (Some arch) table_seccompiler = Inr (denied, unsupported)"
proof -
  have c: "new_condition table_seccompiler n len op v = Inr \<lparr>cd_arg = n, cd_len = len, cd_op = op, cd_value = v\<rparr>" for n len op v
    by (simp add: new_condition_Inr table_seccompiler_def)
  have r: "sc_rule_of table_seccompiler cs = Inr cs" for cs by (simp add: sc_rule_of_Inr table_seccompiler_def)
  have t: "typed_socket table_seccompiler x = Inr (typed_rule x)" for x
    by (cases x) (simp add: typed_socket_def cond_dword_def c r typed_rule_def)
  have "res_traverse (typed_socket table_seccompiler) xs = Inr (map typed_rule xs)" for xs
    by (rule res_traverse_map_Inr) (rule t)
  then obtain sockets where s: "seccomp_sockets table_seccompiler = Inr sockets"
    by (simp add: seccomp_sockets_def cond_dword_def cond_not_dword_def c r)
  have p: "\<exists>q. seccomp_compile table_seccompiler rules matched arch = Inr q" for rules matched
    by (simp add: seccomp_compile_def table_seccompiler_def text_context_def)
  have "\<exists>rules. seccomp_denied sys arch table_seccompiler = Inr rules"
    by (simp add: seccomp_denied_def Let_def s cond_masked_def cond_request_def c r)
  then obtain rules where d: "seccomp_denied sys arch table_seccompiler = Inr rules" by blast
  obtain a b where "seccomp_compile table_seccompiler rules (Seccomp_Errno (errno EPERM)) arch = Inr a"
    "seccomp_compile table_seccompiler (bt_extend [(sys ''clone3'', [])] []) (Seccomp_Errno (errno ENOSYS)) arch = Inr b"
    using p by meson
  with d have "filters_compile sys (Some arch) table_seccompiler = Inr (a, b)" by (simp add: filters_compile_def)
  then show ?thesis by blast
qed

text \<open>A datagram socket asked for with SOCK_NONBLOCK and rubbish in the high half of its domain.\<close>

theorem seccomp_policy_exact_witness:
  "\<exists>denied unsupported. filters_compile place_number (Some X86_64) table_seccompiler = Inr (denied, unsupported) \<and>
     sc_run table_seccompiler denied (place_number ''socket'') (\<lambda>n. if n = 0 then 0xABCD00000002 else if n = 1 then 0x802 else 0) =
       Seccomp_Errno 1"
proof -
  obtain denied unsupported where c: "filters_compile place_number (Some X86_64) table_seccompiler = Inr (denied, unsupported)"
    using table_compiles by blast
  have "call_refused place_number X86_64 (place_number ''socket'') (\<lambda>n. if n = 0 then 0xABCD00000002 else if n = 1 then 0x802 else 0)"
    by (simp add: call_refused_def socket_refused_def)
  with seccomp_policy_exact [OF table_laws place_number_inj c, THEN conjunct1]
  have "sc_run table_seccompiler denied (place_number ''socket'') (\<lambda>n. if n = 0 then 0xABCD00000002 else if n = 1 then 0x802 else 0) =
      Seccomp_Errno 1"
    by (simp only: if_True)
  with c show ?thesis by blast
qed

end
