(* ===== verification/Sandbox_Linux.thy ===== *)
theory Sandbox_Linux
  imports Sandbox_Seccomp
begin

text \<open>
  The boundary around a process on Linux (\<open>src/crates/sandbox/src/linux.rs\<close>): what connecting asks of the
  kernel, the Landlock ruleset over the places of a process, and the command that runs under it with
  the filters of \<open>Sandbox_Seccomp\<close>. The kernel and the \<open>landlock\<close> library are
  \<open>linux_env\<close>.
\<close>

section \<open>Rights and the kernel\<close>

text \<open>The file rights of ABI 4.\<close>

datatype fs_right =
    FS_Execute | FS_Write_File | FS_Read_File | FS_Read_Dir | FS_Remove_Dir | FS_Remove_File | FS_Make_Char
  | FS_Make_Dir | FS_Make_Reg | FS_Make_Sock | FS_Make_Fifo | FS_Make_Block | FS_Make_Sym | FS_Refer | FS_Truncate

text \<open>The library's sets of rights, what the kernel answers, and the files read while probing.\<close>

record linux_env =
  lx_all :: "fs_right set"
  lx_read :: "fs_right set"
  lx_file :: "fs_right set"
  lx_probe :: "string + unit"
  lx_create :: "string + unit"
  lx_open :: "string \<Rightarrow> string + unit"
  lx_is_dir :: "string \<Rightarrow> bool"
  lx_add_rule :: "string \<Rightarrow> fs_right set \<Rightarrow> string + unit"
  lx_read_file :: "string \<Rightarrow> string + string"
  lx_undumpable :: "string + unit"

definition EXECUTABLE :: "string list" where
  "EXECUTABLE = [''/usr'', ''/bin'', ''/sbin'', ''/lib'', ''/lib64'', ''/lib32'']"

definition READABLE :: "string list" where "READABLE = [''/etc'', ''/proc'', ''/sys'', ''/run'']"
definition LX_DEVICES :: "string list" where "LX_DEVICES = [''/dev/null'', ''/dev/zero'', ''/dev/random'', ''/dev/urandom'']"
definition OSRELEASE :: string where "OSRELEASE = ''/proc/sys/kernel/osrelease''"
definition PTRACE_SCOPE :: string where "PTRACE_SCOPE = ''/proc/sys/kernel/yama/ptrace_scope''"

section \<open>Connecting\<close>

definition kernel_release :: "linux_env \<Rightarrow> string" where
  "kernel_release env = (case lx_read_file env OSRELEASE of Inl _ \<Rightarrow> ''[unknown]'' | Inr release \<Rightarrow> str_trim release)"

definition parse_u32 :: "string \<Rightarrow> nat option" where
  "parse_u32 s = Option.bind (parse_u64 s) (\<lambda>n. if n < 2 ^ 32 then Some n else None)"

definition linux_probe :: "linux_env \<Rightarrow> (string \<Rightarrow> int) \<Rightarrow> target_arch option \<Rightarrow> 'p seccompiler \<Rightarrow> string + 'p \<times> 'p" where
  "linux_probe env sys arch sc =
     (case lx_probe env of
        Inl e \<Rightarrow> Inl (''Landlock ABI 4 (kernel 6.7) is required and kernel '' @ kernel_release env @ '' cannot create its ruleset: '' @ e)
      | Inr _ \<Rightarrow>
          res_bind (text_context (sb_quoted ''kernel.yama.ptrace_scope'' @ '' is unset: '' @ PTRACE_SCOPE) (lx_read_file env PTRACE_SCOPE)) (\<lambda>scope.
          case parse_u32 (str_trim scope) of
            None \<Rightarrow> Inl (sb_quoted ''kernel.yama.ptrace_scope'' @ '' reads '' @ CHR 0x22 # scope @ [CHR 0x22])
          | Some n \<Rightarrow>
              if n < 1 then Inl (sb_quoted ''kernel.yama.ptrace_scope'' @ '' is '' @ dec_nat n @ ''; 1 or more is required'')
              else res_bind (filters_compile sys arch sc) (\<lambda>filters.
                res_map (\<lambda>_. filters) (text_context ''setting the host non-dumpable'' (lx_undumpable env)))))"

section \<open>The ruleset\<close>

type_synonym rules = "(string \<times> fs_right set) list"

definition linux_grant :: "linux_env \<Rightarrow> string \<Rightarrow> fs_right set \<Rightarrow> rules \<Rightarrow> string + rules" where
  "linux_grant env path access rules =
     (let access = (if lx_is_dir env path then access else access \<inter> lx_file env) in
      if access = {} then Inl (path @ '' is a file and takes no directory right'')
      else res_map (\<lambda>_. rules @ [(path, access)])
        (text_context (''Landlock refused the rule over '' @ path) (lx_add_rule env path access)))"

definition linux_optional :: "linux_env \<Rightarrow> string \<Rightarrow> fs_right set \<Rightarrow> rules \<Rightarrow> string + rules" where
  "linux_optional env path access rules =
     (case lx_open env path of Inr _ \<Rightarrow> linux_grant env path access rules | Inl _ \<Rightarrow> Inr rules)"

definition linux_required :: "linux_env \<Rightarrow> string \<Rightarrow> fs_right set \<Rightarrow> rules \<Rightarrow> string + rules" where
  "linux_required env path access rules =
     res_bind (text_context (''opening '' @ path) (lx_open env path)) (\<lambda>_. linux_grant env path access rules)"

text \<open>\<open>for path in paths { add(&mut ruleset, path, access)?; }\<close>\<close>

fun each_rule :: "(string \<Rightarrow> fs_right set \<Rightarrow> rules \<Rightarrow> string + rules) \<Rightarrow> fs_right set \<Rightarrow> string list \<Rightarrow> rules \<Rightarrow> string + rules" where
  "each_rule add access [] rules = Inr rules"
| "each_rule add access (path # paths) rules = res_bind (add path access rules) (each_rule add access paths)"

record sandbox_place =
  sl_cwd :: string
  sl_scratch :: string
  sl_program :: string
  sl_read :: "string list"

definition linux_ruleset :: "linux_env \<Rightarrow> sandbox_place \<Rightarrow> string + rules" where
  "linux_ruleset env place =
     res_bind (text_context ''creating the Landlock ruleset'' (lx_create env)) (\<lambda>_.
     res_bind (each_rule (linux_optional env) {FS_Read_File, FS_Read_Dir, FS_Execute} EXECUTABLE []) (\<lambda>rules.
     res_bind (each_rule (linux_optional env) (lx_read env) READABLE rules) (\<lambda>rules.
     res_bind (each_rule (linux_optional env) (lx_file env) LX_DEVICES rules) (\<lambda>rules.
     res_bind (linux_required env (sl_cwd place) (lx_all env) rules) (\<lambda>rules.
     res_bind (linux_required env (sl_scratch place) (lx_all env) rules) (\<lambda>rules.
     res_bind (linux_required env (sl_program place) {FS_Read_File, FS_Execute} rules) (\<lambda>rules.
       each_rule (linux_required env) (lx_read env \<union> {FS_Execute}) (sl_read place) rules)))))))"

section \<open>A command\<close>

text \<open>
  What a spawned process runs under, in the order the child applies it: its working directory by
  descriptor, then the ruleset, then the filters.
\<close>

record 'p linux_process =
  lc_program :: string
  lc_env :: "(string, string) btree"
  lc_cwd :: string
  lc_rules :: rules
  lc_filters :: "'p \<times> 'p"

definition linux_command :: "linux_env \<Rightarrow> 'p \<times> 'p \<Rightarrow> sandbox_place \<Rightarrow> string + 'p linux_process" where
  "linux_command env filters place =
     res_map (\<lambda>rules. \<lparr>lc_program = sl_program place, lc_env = [], lc_cwd = sl_cwd place, lc_rules = rules, lc_filters = filters\<rparr>)
       (linux_ruleset env place)"

definition session_place :: "session \<Rightarrow> string \<Rightarrow> sandbox_place" where
  "session_place s program = \<lparr>sl_cwd = ss_cwd s, sl_scratch = ss_scratch s, sl_program = program, sl_read = ss_read s\<rparr>"

text \<open>\<open>Session::command\<close>: the kernel's command with the session's environment and nothing of the host's.\<close>

definition session_command ::
  "host_fs \<Rightarrow> linux_env \<Rightarrow> 'p \<times> 'p \<Rightarrow> session \<Rightarrow> string \<Rightarrow> sandbox_error + 'p linux_process" where
  "session_command fs env filters s program =
     res_bind (session_program fs s program) (\<lambda>program.
       case linux_command env filters (session_place s program) of
         Inl e \<Rightarrow> Inl (Sandbox_Failed e)
       | Inr c \<Rightarrow> Inr (c\<lparr>lc_env := ss_env s\<rparr>))"

section \<open>What the rules open\<close>

definition fs_writes :: "fs_right set" where
  "fs_writes = UNIV - {FS_Execute, FS_Read_File, FS_Read_Dir}"

text \<open>A rule over a path: its rights are some of those asked for, and over a file only those of a file.\<close>

definition rule_from :: "linux_env \<Rightarrow> fs_right set \<Rightarrow> string \<times> fs_right set \<Rightarrow> bool" where
  "rule_from env access r \<longleftrightarrow> snd r \<noteq> {} \<and> snd r \<subseteq> access \<and> (lx_is_dir env (fst r) \<or> snd r \<subseteq> lx_file env)"

lemma grant_rules:
  "linux_grant env path access rules = Inr rules' \<Longrightarrow> \<exists>a. rules' = rules @ [(path, a)] \<and> rule_from env access (path, a)"
  by (auto simp: linux_grant_def Let_def res_map_Inr_iff rule_from_def split: if_split_asm)

lemma required_rules:
  "linux_required env path access rules = Inr rules' \<Longrightarrow> \<exists>a. rules' = rules @ [(path, a)] \<and> rule_from env access (path, a)"
  by (auto simp: linux_required_def res_bind_Inr_iff dest: grant_rules)

lemma optional_rules:
  "linux_optional env path access rules = Inr rules' \<Longrightarrow>
     \<exists>added. rules' = rules @ added \<and> list_all (\<lambda>r. fst r = path \<and> rule_from env access r) added"
  by (auto simp: linux_optional_def split: sum.splits dest!: grant_rules)

lemma each_optional:
  "each_rule (linux_optional env) access paths rules = Inr rules' \<Longrightarrow>
     \<exists>added. rules' = rules @ added \<and> list_all (\<lambda>r. fst r \<in> set paths \<and> rule_from env access r) added"
proof (induction paths arbitrary: rules)
  case (Cons p ps)
  then obtain mid where m: "linux_optional env p access rules = Inr mid" "each_rule (linux_optional env) access ps mid = Inr rules'"
    by (auto simp: res_bind_Inr_iff)
  from optional_rules [OF m(1)] Cons.IH [OF m(2)] show ?case by (force simp: list_all_iff)
qed simp

lemma each_required:
  "each_rule (linux_required env) access paths rules = Inr rules' \<Longrightarrow>
     \<exists>added. rules' = rules @ added \<and> map fst added = paths \<and> list_all (rule_from env access) added"
proof (induction paths arbitrary: rules)
  case (Cons p ps)
  then obtain mid where m: "linux_required env p access rules = Inr mid" "each_rule (linux_required env) access ps mid = Inr rules'"
    by (auto simp: res_bind_Inr_iff)
  from required_rules [OF m(1)] Cons.IH [OF m(2)] show ?case by force
qed simp

lemma ruleset_parts:
  assumes "linux_ruleset env place = Inr rules"
  obtains system devices own program read where
    "rules = system @ devices @ own @ [program] @ read"
    "list_all (\<lambda>r. fst r \<in> set EXECUTABLE \<and> rule_from env {FS_Read_File, FS_Read_Dir, FS_Execute} r \<or>
       fst r \<in> set READABLE \<and> rule_from env (lx_read env) r) system"
    "list_all (\<lambda>r. fst r \<in> set LX_DEVICES \<and> rule_from env (lx_file env) r) devices"
    "map fst own = [sl_cwd place, sl_scratch place]" "list_all (rule_from env (lx_all env)) own"
    "fst program = sl_program place" "rule_from env {FS_Read_File, FS_Execute} program"
    "map fst read = sl_read place" "list_all (rule_from env (lx_read env \<union> {FS_Execute})) read"
proof -
  from assms obtain r1 r2 r3 r4 r5 r6 where
    "each_rule (linux_optional env) {FS_Read_File, FS_Read_Dir, FS_Execute} EXECUTABLE [] = Inr r1"
    "each_rule (linux_optional env) (lx_read env) READABLE r1 = Inr r2"
    "each_rule (linux_optional env) (lx_file env) LX_DEVICES r2 = Inr r3"
    "linux_required env (sl_cwd place) (lx_all env) r3 = Inr r4" "linux_required env (sl_scratch place) (lx_all env) r4 = Inr r5"
    "linux_required env (sl_program place) {FS_Read_File, FS_Execute} r5 = Inr r6"
    "each_rule (linux_required env) (lx_read env \<union> {FS_Execute}) (sl_read place) r6 = Inr rules"
    unfolding linux_ruleset_def res_bind_Inr_iff by blast
  then obtain x1 x2 x3 c s p x7 where
    "rules = (x1 @ x2) @ x3 @ [(sl_cwd place, c), (sl_scratch place, s)] @ [(sl_program place, p)] @ x7"
    "list_all (\<lambda>r. fst r \<in> set EXECUTABLE \<and> rule_from env {FS_Read_File, FS_Read_Dir, FS_Execute} r) x1"
    "list_all (\<lambda>r. fst r \<in> set READABLE \<and> rule_from env (lx_read env) r) x2"
    "list_all (\<lambda>r. fst r \<in> set LX_DEVICES \<and> rule_from env (lx_file env) r) x3"
    "rule_from env (lx_all env) (sl_cwd place, c)" "rule_from env (lx_all env) (sl_scratch place, s)"
    "rule_from env {FS_Read_File, FS_Execute} (sl_program place, p)"
    "map fst x7 = sl_read place" "list_all (rule_from env (lx_read env \<union> {FS_Execute})) x7"
    by (auto dest!: each_optional each_required required_rules)
  then show thesis by (intro that [of "x1 @ x2" x3 "[(sl_cwd place, c), (sl_scratch place, s)]" "(sl_program place, p)" x7]) (auto simp: list_all_iff)
qed

lemma session_reads: "session_prepare fs scratch_dir bind_proxy sb workspace g = Inr s \<Longrightarrow> list_all (root_ok fs sb) (ss_read s)"
  by (auto simp: session_prepare_def res_bind_Inr_iff res_map_Inr_iff read_roots_def dest!: read_roots_from_ok)

lemma session_command_parts:
  assumes "session_command fs env filters s program = Inr c"
  shows "lc_cwd c = ss_cwd s \<and> lc_env c = ss_env s \<and> lc_filters c = filters \<and>
    linux_ruleset env (session_place s (lc_program c)) = Inr (lc_rules c)"
proof -
  obtain p where p: "session_program fs s program = Inr p"
    and c: "(case linux_command env filters (session_place s p) of Inl e \<Rightarrow> Inl (Sandbox_Failed e) | Inr c \<Rightarrow> Inr (c\<lparr>lc_env := ss_env s\<rparr>)) = Inr c"
    using assms by (auto simp: session_command_def res_bind_Inr_iff)
  then show ?thesis by (cases "linux_ruleset env (session_place s p)") (auto simp: linux_command_def session_place_def)
qed

text \<open>One rule, by where it comes from.\<close>

definition rule_confined :: "host_fs \<Rightarrow> linux_env \<Rightarrow> policy \<Rightarrow> session \<Rightarrow> string \<Rightarrow> string \<times> fs_right set \<Rightarrow> bool" where
  "rule_confined fs env sb s program = (\<lambda>(path, access).
     (path \<in> set (EXECUTABLE @ READABLE @ LX_DEVICES) \<or> path \<in> {ss_cwd s, ss_scratch s, program} \<or> root_ok fs sb path) \<and>
     (access \<inter> fs_writes = {} \<or> path \<in> {ss_cwd s, ss_scratch s} \<or> path \<in> set LX_DEVICES) \<and>
     (lx_is_dir env path \<or> access \<subseteq> lx_file env))"

lemma rule_confinedI:
  assumes "rule_from env access r"
    and "fst r \<in> set (EXECUTABLE @ READABLE @ LX_DEVICES) \<or> fst r \<in> {ss_cwd s, ss_scratch s, program} \<or> root_ok fs sb (fst r)"
    and "access \<inter> fs_writes = {} \<or> fst r \<in> {ss_cwd s, ss_scratch s} \<or> fst r \<in> set LX_DEVICES"
  shows "rule_confined fs env sb s program r"
proof (cases r)
  case (Pair path a)
  then have "a \<subseteq> access" "lx_is_dir env path \<or> a \<subseteq> lx_file env" using assms(1) by (simp_all add: rule_from_def)
  moreover from this(1) have "access \<inter> fs_writes = {} \<Longrightarrow> a \<inter> fs_writes = {}" by blast
  ultimately show ?thesis using assms(2,3) unfolding Pair rule_confined_def by auto
qed

lemma ruleset_confined:
  assumes reads: "lx_read env \<inter> fs_writes = {}" and roots: "list_all (root_ok fs sb) (ss_read s)"
    and r: "linux_ruleset env (session_place s program) = Inr rules"
  shows "list_all (rule_confined fs env sb s program) rules \<and> set (ss_cwd s # ss_scratch s # program # ss_read s) \<subseteq> fst ` set rules"
proof -
  note p = session_place_def sandbox_place.simps
  obtain system devices own prog read where
    eq: "rules = system @ devices @ own @ [prog] @ read"
    and 1: "list_all (\<lambda>r. fst r \<in> set EXECUTABLE \<and> rule_from env {FS_Read_File, FS_Read_Dir, FS_Execute} r \<or>
       fst r \<in> set READABLE \<and> rule_from env (lx_read env) r) system"
    and 2: "list_all (\<lambda>r. fst r \<in> set LX_DEVICES \<and> rule_from env (lx_file env) r) devices"
    and 3: "map fst own = [ss_cwd s, ss_scratch s]" "list_all (rule_from env (lx_all env)) own"
    and 4: "fst prog = program" "rule_from env {FS_Read_File, FS_Execute} prog"
    and 5: "map fst read = ss_read s" "list_all (rule_from env (lx_read env \<union> {FS_Execute})) read"
    by (rule ruleset_parts [OF r, unfolded p])
  have only: "{FS_Read_File, FS_Read_Dir, FS_Execute} \<inter> fs_writes = {}" "(lx_read env \<union> {FS_Execute}) \<inter> fs_writes = {}"
    using reads by (auto simp: fs_writes_def)
  have "rule_confined fs env sb s program r" if "r \<in> set system" for r
    using bspec [OF 1 [unfolded list_all_iff] that] reads only(1) by (elim disjE conjE) (rule rule_confinedI, assumption, simp_all)+
  moreover have "rule_confined fs env sb s program r" if "r \<in> set devices" for r
    using bspec [OF 2 [unfolded list_all_iff] that] by (elim conjE) (rule rule_confinedI, assumption, simp_all)
  moreover have o: "fst ` set own = {ss_cwd s, ss_scratch s}" using arg_cong [OF 3(1), of set] by simp
  then have "rule_confined fs env sb s program r" if "r \<in> set own" for r
    using bspec [OF 3(2) [unfolded list_all_iff] that] that by (intro rule_confinedI) auto
  moreover have "rule_confined fs env sb s program prog"
    using 4 only(1) by (intro rule_confinedI) auto
  moreover have d: "fst ` set read = set (ss_read s)" using arg_cong [OF 5(1), of set] by simp
  then have "rule_confined fs env sb s program r" if "r \<in> set read" for r
    using bspec [OF 5(2) [unfolded list_all_iff] that] that only(2) roots by (intro rule_confinedI) (auto simp: list_all_iff)
  moreover have "set (ss_cwd s # ss_scratch s # program # ss_read s) \<subseteq> fst ` set rules"
    using o d 4(1) by (auto simp: eq image_Un)
  ultimately show ?thesis unfolding eq list_all_iff by auto
qed

text \<open>
  C38. A process on Linux runs in its session's directory with its session's environment, under the
  filters and a ruleset where every rule is over a system root, a device, its working directory,
  its scratch, its program or a directory beneath the home away from every credential store;
  a right to change anything is only over its working directory, its scratch and the devices; a
  rule over a file has no right of a directory; and every place the session promised has its rule.
\<close>

theorem linux_process_confined:
  assumes "lx_read env \<inter> fs_writes = {}"
  shows "case session_prepare fs scratch_dir bind_proxy sb workspace g of Inl e \<Rightarrow> True | Inr s \<Rightarrow>
   (case session_command fs env filters s program of Inl e \<Rightarrow> True | Inr c \<Rightarrow>
      lc_cwd c = ss_cwd s \<and> lc_env c = ss_env s \<and> lc_filters c = filters \<and>
      list_all (rule_confined fs env sb s (lc_program c)) (lc_rules c) \<and>
      set (ss_cwd s # ss_scratch s # lc_program c # ss_read s) \<subseteq> fst ` set (lc_rules c))"
proof (cases "session_prepare fs scratch_dir bind_proxy sb workspace g")
  case s: (Inr s)
  show ?thesis
  proof (cases "session_command fs env filters s program")
    case (Inr c)
    note parts = session_command_parts [OF Inr]
    note confined = ruleset_confined [OF assms session_reads [OF s] parts [THEN conjunct2, THEN conjunct2, THEN conjunct2]]
    show ?thesis unfolding s Inr sum.case by (intro conjI) (use parts confined in blast)+
  qed (simp add: s)
qed simp

text \<open>What a session may do in its working directory is not among what the boundary is laid over.\<close>

lemma boundary_ignores_access:
  "session_command fs env filters (s\<lparr>ss_access := a\<rparr>) program = session_command fs env filters s program"
  by (simp add: session_command_def session_program_def session_place_def cong: sum.case_cong)

text \<open>A host for the witness: every path is itself, and a session that reads one directory of the home.\<close>

definition plain_host :: host_fs where
  "plain_host = \<lparr>hf_canonical = Inr, hf_is_dir = (\<lambda>_. Inr True), hf_executable = (\<lambda>_. True), hf_absolute = Inr,
     hf_create_dir_all = (\<lambda>_. Inr ()), hf_create_dir = (\<lambda>_. Inr ()), hf_open = (\<lambda>_. Inr ())\<rparr>"

definition plain_policy :: policy where
  "plain_policy = \<lparr>sp_options = \<lparr>so_shell_roots = [''/w''], so_inherit = [], so_refused = []\<rparr>,
     sp_inherited = [(''PATH'', ''/bin'')], sp_home = Some ''/h''\<rparr>"

definition plain_linux :: linux_env where
  "plain_linux = \<lparr>lx_all = {FS_Execute, FS_Read_File, FS_Read_Dir, FS_Write_File, FS_Make_Reg},
     lx_read = {FS_Execute, FS_Read_File, FS_Read_Dir}, lx_file = {FS_Execute, FS_Read_File, FS_Write_File},
     lx_probe = Inr (), lx_create = Inr (), lx_open = (\<lambda>p. if p = ''/lib32'' then Inl ''absent'' else Inr ()),
     lx_is_dir = (\<lambda>p. p \<noteq> ''/bin/sh''), lx_add_rule = (\<lambda>_ _. Inr ()), lx_read_file = (\<lambda>_. Inr ''1''), lx_undumpable = Inr ()\<rparr>"

theorem linux_process_confined_witness:
  "\<exists>s c. session_prepare plain_host (Inr ''/t'') (\<lambda>_. Inr ''127.0.0.1:9'') plain_policy (Some ''/w/a'')
       \<lparr>gt_egress = [], gt_read = [''~/tools''], gt_env = []\<rparr> = Inr s \<and>
     session_command plain_host plain_linux ((), ()) s ''sh'' = Inr c \<and> ss_read s = [''/h/tools''] \<and>
     lc_program c = ''/bin/sh'' \<and> list_all (rule_confined plain_host plain_linux plain_policy s ''/bin/sh'') (lc_rules c)"
proof -
  let ?p = "session_prepare plain_host (Inr ''/t'') (\<lambda>_. Inr ''127.0.0.1:9'') plain_policy (Some ''/w/a'')
    \<lparr>gt_egress = [], gt_read = [''~/tools''], gt_env = []\<rparr>"
  have p: "(case ?p of Inl _ \<Rightarrow> False | Inr s \<Rightarrow> ss_read s = [''/h/tools''] \<and>
      (case session_command plain_host plain_linux ((), ()) s ''sh'' of Inl _ \<Rightarrow> False | Inr c \<Rightarrow> lc_program c = ''/bin/sh''))"
    by code_simp
  then obtain s where s: "?p = Inr s" "ss_read s = [''/h/tools'']"
    and c: "(case session_command plain_host plain_linux ((), ()) s ''sh'' of Inl _ \<Rightarrow> False | Inr c \<Rightarrow> lc_program c = ''/bin/sh'')"
    by (auto split: sum.splits)
  then obtain c where c: "session_command plain_host plain_linux ((), ()) s ''sh'' = Inr c" "lc_program c = ''/bin/sh''"
    by (auto split: sum.splits)
  have "lx_read plain_linux \<inter> fs_writes = {}" by (auto simp: plain_linux_def fs_writes_def)
  from linux_process_confined [OF this, where fs = plain_host and scratch_dir = "Inr ''/t''" and bind_proxy = "\<lambda>_. Inr ''127.0.0.1:9''"
      and sb = plain_policy and workspace = "Some ''/w/a''" and g = "\<lparr>gt_egress = [], gt_read = [''~/tools''], gt_env = []\<rparr>"
      and filters = "((), ())" and program = "''sh''"]
  have "list_all (rule_confined plain_host plain_linux plain_policy s ''/bin/sh'') (lc_rules c)" using s c by simp
  with s c show ?thesis by blast
qed

end
