(* ===== verification/Sandbox_Seatbelt.thy ===== *)
theory Sandbox_Seatbelt
  imports Sandbox_Linux
begin

text \<open>
  The boundary around a process on macOS (\<open>src/crates/sandbox/src/seatbelt.rs\<close>): the profile
  \<open>sandbox-exec\<close> applies, rendered per command, and the parameters its paths are passed by. The
  base policy is the text of \<open>seatbelt.sbpl\<close>, a parameter, as the file is only included.
\<close>

section \<open>Fixed parts\<close>

abbreviation newline :: char where "newline \<equiv> CHR 0x0A"

definition sb_dquoted :: "string \<Rightarrow> string" where
  "sb_dquoted s = CHR 0x22 # s @ [CHR 0x22]"

definition SANDBOX_EXEC :: string where "SANDBOX_EXEC = ''/usr/bin/sandbox-exec''"

definition PROTECTIONS :: string where
  "PROTECTIONS = str_join [newline]
     [[], ''; --- protections ---'', ''(deny process-info*)'', ''(allow process-info* (target same-sandbox))'', ''(deny mach-priv-task-port)'',
      ''(deny mach-lookup (xpc-service-name-prefix '' @ sb_dquoted [] @ ''))'', ''(deny system-fcntl (fcntl-command 80 110))'',
      ''(allow ipc-posix-shm)'', []]"

definition literal_of :: "string \<Rightarrow> string" where
  "literal_of path = ''(literal '' @ sb_dquoted path @ '')''"

definition DEVICES :: string where
  "DEVICES = str_join [newline]
     [[], ''; --- devices ---'', ''(allow file-read*'', ''  '' @ literal_of ''/dev/null'', ''  '' @ literal_of ''/dev/zero'',
      ''  '' @ literal_of ''/dev/random'', ''  '' @ literal_of ''/dev/urandom'', ''  '' @ literal_of ''/dev/dtracehelper'' @ '')'',
      ''(allow file-write* '' @ literal_of ''/dev/null'' @ '' '' @ literal_of ''/dev/zero'' @ '')'',
      ''(allow file-write-data file-ioctl '' @ literal_of ''/dev/dtracehelper'' @ '')'',
      ''(allow file-read-data file-test-existence file-write-data (subpath '' @ sb_dquoted ''/dev/fd'' @ ''))'',
      ''(allow file-read-metadata '' @ literal_of ''/dev'' @ '')'', []]"

definition NETWORK :: string where
  "NETWORK = str_join [newline]
     [[], ''; --- network ---'', ''(deny network*)'', ''(allow network-outbound (remote ip '' @ sb_dquoted ''localhost:*'' @ ''))'',
      ''(allow network-bind network-inbound (local ip '' @ sb_dquoted ''*:*'' @ ''))'', []]"

definition SYSTEM :: "string list" where
  "SYSTEM = [''/usr'', ''/bin'', ''/sbin'', ''/System'', ''/Library/Frameworks'', ''/Library/Developer/CommandLineTools'', ''/etc'',
     ''/var/select'', ''/var/db/timezone'', ''/opt/homebrew'', ''/usr/local'']"

definition NODES :: "string list" where "NODES = [''/tmp'', ''/etc'', ''/var'']"
definition PROBE :: string where "PROBE = ''(version 1)(allow default)''"

section \<open>Connecting\<close>

datatype probe_answer = Probe_Slow | Probe_Failed string | Probe_Ran bool string

definition seatbelt_probe :: "(string \<Rightarrow> bool) \<Rightarrow> (string list \<Rightarrow> probe_answer) \<Rightarrow> (string \<Rightarrow> io_failure + string) \<Rightarrow> string + string list" where
  "seatbelt_probe exists run canonical =
     (if \<not> exists SANDBOX_EXEC then Inl (sb_quoted SANDBOX_EXEC @ '' is not available'')
      else case run [SANDBOX_EXEC, ''-p'', PROBE, ''/usr/bin/true''] of
        Probe_Slow \<Rightarrow> Inl (sb_quoted SANDBOX_EXEC @ '' did not answer within 10s'')
      | Probe_Failed e \<Rightarrow> Inl (''running '' @ sb_quoted SANDBOX_EXEC @ '': '' @ e)
      | Probe_Ran success stderr \<Rightarrow>
          if \<not> success then Inl (sb_quoted SANDBOX_EXEC @ '' cannot apply a profile: '' @ str_trim (utf8_lossy stderr))
          else Inr (List.map_filter (\<lambda>root. case canonical root of Inr r \<Rightarrow> Some r | Inl _ \<Rightarrow> None) SYSTEM))"

section \<open>Parameters\<close>

type_synonym params = "(string \<times> string) list"

definition reference :: "string \<Rightarrow> string" where
  "reference key = ''(param '' @ sb_dquoted key @ '')''"

definition params_add :: "string \<Rightarrow> string \<Rightarrow> params \<Rightarrow> string \<times> params" where
  "params_add key path ps = (reference key, ps @ [(key, path)])"

text \<open>\<open>for (index, path) in paths.iter().enumerate() { params.add(format!("{prefix}{index}"), path) }\<close>\<close>

fun params_each :: "string \<Rightarrow> nat \<Rightarrow> string list \<Rightarrow> params \<Rightarrow> string list \<times> params" where
  "params_each prefix index [] ps = ([], ps)"
| "params_each prefix index (path # paths) ps =
     (case params_add (prefix @ dec_nat index) path ps of (r, ps) \<Rightarrow>
      case params_each prefix (Suc index) paths ps of (rs, ps) \<Rightarrow> (r # rs, ps))"

text \<open>
  Every proper ancestor but the root, once each, in the order of a \<open>BTreeSet\<close> of paths: a path is
  its names.
\<close>

definition path_text :: "string list \<Rightarrow> string" where
  "path_text names = concat (map (\<lambda>n. CHR ''/'' # n) names)"

definition above :: "string \<Rightarrow> string list list" where
  "above path = (let names = snd (path_comps path) in map (\<lambda>k. take k names) (rev [1..<length names]))"

definition sb_ancestors :: "string list \<Rightarrow> string list list" where
  "sb_ancestors paths = map fst (bt_extend (map (\<lambda>p. (p, ())) (concat (map above paths))) [])"

section \<open>The command\<close>

record seatbelt_command =
  sc_launcher :: string
  sc_profile :: string
  sc_params :: params
  sc_target :: string
  sc_cwd :: string

definition subpath_of :: "string \<Rightarrow> string" where "subpath_of r = ''(subpath '' @ r @ '')''"
definition literal_ref :: "string \<Rightarrow> string" where "literal_ref r = ''(literal '' @ r @ '')''"

text \<open>
  The text over the references of its parameters: the system, the devices and the program, the
  grants, the directories closed after them, the root, and what resolving a granted path reads.
\<close>

definition seatbelt_profile ::
  "string \<Rightarrow> string list \<Rightarrow> string \<Rightarrow> string list \<Rightarrow> string \<Rightarrow> string \<Rightarrow> string \<Rightarrow> string \<Rightarrow> string list \<Rightarrow> string list \<Rightarrow> string" where
  "seatbelt_profile base systems program roots cwd home git emery refs listed =
     base @ PROTECTIONS @
     [newline] @ ''; --- the system ---'' @ [newline] @ ''(allow file-read*'' @
     concat (map (\<lambda>r. [newline] @ ''  '' @ subpath_of r) systems) @ '')'' @ [newline] @ DEVICES @
     ''(allow file-read* '' @ literal_ref program @ '')'' @ [newline] @
     [newline] @ ''; --- the grants ---'' @ [newline] @
     concat (map (\<lambda>r. ''(allow file-read* '' @ subpath_of r @ '')'' @ [newline]) roots) @
     ''(allow file-read* file-write* '' @ subpath_of cwd @ '' '' @ subpath_of home @ '')'' @ [newline] @
     ''(deny file-write-unlink (require-all (vnode-type DIRECTORY) '' @ literal_ref cwd @ ''))'' @ [newline] @
     ''(deny file-read* file-write* '' @ literal_ref git @ '' '' @ subpath_of git @ '' '' @ literal_ref emery @ '' '' @
       subpath_of emery @ '')'' @ [newline] @
     ''(allow file-read* '' @ literal_of ''/'' @ '')'' @ [newline] @ ''(allow file-read-metadata'' @
     concat (map (\<lambda>node. '' '' @ literal_of node) NODES) @
     concat (map (\<lambda>r. [newline] @ ''  '' @ literal_ref r) refs) @ '')'' @ [newline] @
     (if listed = [] then []
      else ''(allow file-read-data'' @ concat (map (\<lambda>r. [newline] @ ''  '' @ literal_ref r) listed) @ '')'' @ [newline]) @
     NETWORK"

definition seatbelt_command_of :: "string \<Rightarrow> host_fs \<Rightarrow> string list \<Rightarrow> sandbox_place \<Rightarrow> string + seatbelt_command" where
  "seatbelt_command_of base fs system1 place =
     (case hf_canonical fs (sl_program place) of
        Inl _ \<Rightarrow> Inl (''resolving '' @ sl_program place)
      | Inr program \<Rightarrow>
          (let (systems, ps) = params_each ''SYSTEM_'' 0 system1 [];
               (program_ref, ps) = params_add ''PROGRAM'' program ps;
               (roots, ps) = params_each ''ROOT_'' 0 (sl_read place) ps;
               (cwd, ps) = params_add ''CWD'' (sl_cwd place) ps;
               (home, ps) = params_add ''SCRATCH'' (sl_scratch place) ps;
               (git, ps) = params_add ''CWD_GIT'' (path_add (sl_cwd place) ''.git'') ps;
               (emery, ps) = params_add ''CWD_EMERY'' (path_add (sl_cwd place) ''.emery'') ps;
               granted = [sl_cwd place, sl_scratch place, program] @ sl_read place @ system1;
               ancestors = sb_ancestors granted;
               above_cwd = sb_ancestors [sl_cwd place];
               (refs, ps) = params_each ''ANCESTOR_'' 0 (map path_text ancestors) ps;
               listed = map fst (filter (\<lambda>(r, a). a \<in> set above_cwd) (zip refs ancestors))
           in Inr \<lparr>sc_launcher = SANDBOX_EXEC,
                sc_profile = seatbelt_profile base systems program_ref roots cwd home git emery refs listed,
                sc_params = ps, sc_target = program, sc_cwd = sl_cwd place\<rparr>))"

definition seatbelt_args :: "seatbelt_command \<Rightarrow> string list" where
  "seatbelt_args c =
     [''-p'', sc_profile c] @ map (\<lambda>(key, path). ''-D'' @ key @ ''='' @ path) (sc_params c) @ [''--'', sc_target c]"

section \<open>Paths and the profile\<close>

lemma params_each_eq:
  "params_each prefix index paths ps =
     (map (\<lambda>i. reference (prefix @ dec_nat i)) [index..<index + length paths],
      ps @ zip (map (\<lambda>i. prefix @ dec_nat i) [index..<index + length paths]) paths)"
proof (induction paths arbitrary: index ps)
  case (Cons path paths)
  have u: "[index..<index + length (path # paths)] = index # [Suc index..<Suc index + length paths]"
    by (simp add: upt_conv_Cons del: upt_Suc)
  show ?case unfolding params_each.simps params_add_def prod.case Cons.IH u by simp
qed simp

definition numbered :: "string \<Rightarrow> nat \<Rightarrow> string list" where
  "numbered prefix n = map (\<lambda>i. prefix @ dec_nat i) [0..<n]"

lemma params_each_0: "params_each prefix 0 paths ps = (map reference (numbered prefix (length paths)), ps @ zip (numbered prefix (length paths)) paths)"
  by (simp add: params_each_eq numbered_def comp_def)

text \<open>The shape of a place: which of the directories above its paths are above its working directory.\<close>

definition sb_shape :: "string list \<Rightarrow> sandbox_place \<Rightarrow> string \<Rightarrow> bool list" where
  "sb_shape system1 place program =
     map (\<lambda>a. a \<in> set (sb_ancestors [sl_cwd place]))
       (sb_ancestors ([sl_cwd place, sl_scratch place, program] @ sl_read place @ system1))"

definition sb_keys :: "nat \<Rightarrow> nat \<Rightarrow> nat \<Rightarrow> string list" where
  "sb_keys systems roots ancestors =
     numbered ''SYSTEM_'' systems @ [''PROGRAM''] @ numbered ''ROOT_'' roots @
     [''CWD'', ''SCRATCH'', ''CWD_GIT'', ''CWD_EMERY''] @ numbered ''ANCESTOR_'' ancestors"

definition sb_text :: "string \<Rightarrow> nat \<Rightarrow> nat \<Rightarrow> bool list \<Rightarrow> string" where
  "sb_text base systems roots shape =
     (let refs = map reference (numbered ''ANCESTOR_'' (length shape))
      in seatbelt_profile base (map reference (numbered ''SYSTEM_'' systems)) (reference ''PROGRAM'')
           (map reference (numbered ''ROOT_'' roots)) (reference ''CWD'') (reference ''SCRATCH'') (reference ''CWD_GIT'')
           (reference ''CWD_EMERY'') refs (map fst (filter snd (zip refs shape))))"

lemma filter_zip_map: "map fst (filter (\<lambda>(r, a). P a) (zip rs as)) = map fst (filter snd (zip rs (map P as)))"
  by (induction rs as rule: list_induct2') auto

lemma numbered_distinct: "distinct (numbered prefix n)"
  by (simp add: numbered_def distinct_map inj_on_def dec_nat_inj)

lemma numbered_starts: "k \<in> set (numbered (c # prefix) n) \<Longrightarrow> \<exists>r. k = c # prefix @ r"
  by (auto simp: numbered_def)

lemma sb_keys_distinct: "distinct (sb_keys systems roots ancestors)"
proof -
  have s: "k \<in> set (numbered ''SYSTEM_'' systems) \<Longrightarrow> \<exists>r. k = ''SYSTEM_'' @ r"
    and r: "k \<in> set (numbered ''ROOT_'' roots) \<Longrightarrow> \<exists>r. k = ''ROOT_'' @ r"
    and a: "k \<in> set (numbered ''ANCESTOR_'' ancestors) \<Longrightarrow> \<exists>r. k = ''ANCESTOR_'' @ r" for k
    by (auto simp: numbered_def)
  show ?thesis unfolding sb_keys_def by (auto simp: numbered_distinct dest!: s r a)
qed

lemma seatbelt_command_eq:
  assumes "hf_canonical fs (sl_program place) = Inr program"
  shows "\<exists>ancestors. seatbelt_command_of base fs system1 place =
    Inr \<lparr>sc_launcher = SANDBOX_EXEC, sc_profile = sb_text base (length system1) (length (sl_read place)) (sb_shape system1 place program),
      sc_params = zip (sb_keys (length system1) (length (sl_read place)) (length ancestors))
        (system1 @ [program] @ sl_read place @
         [sl_cwd place, sl_scratch place, path_add (sl_cwd place) ''.git'', path_add (sl_cwd place) ''.emery''] @ ancestors),
      sc_target = program, sc_cwd = sl_cwd place\<rparr>"
proof -
  have n: "length (numbered prefix k) = k" for prefix k by (simp add: numbered_def)
  show ?thesis
    by (rule exI [of _ "map path_text (sb_ancestors ([sl_cwd place, sl_scratch place, program] @ sl_read place @ system1))"])
      (simp add: seatbelt_command_of_def assms params_each_0 params_add_def sb_text_def sb_shape_def Let_def filter_zip_map sb_keys_def n)
qed


end
