(* ===== verification/Sandbox_Child.thy ===== *)
theory Sandbox_Child
  imports Sandbox_Seatbelt
begin

text \<open>
  A process under supervision (\<open>src/crates/sandbox/src/child.rs\<close>): what is read of its standard error,
  how its supervisor ends it, and a one-shot held to a bound. A stream is the bytes read of it before its
  end or an error; times are milliseconds, a kill takes effect at once, and what a process does on its own
  is when it would exit and when its pipes would close.
\<close>

section \<open>Lines\<close>

definition EXIT_GRACE :: nat where "EXIT_GRACE = 250"
definition EXIT_WAIT :: nat where "EXIT_WAIT = EXIT_GRACE * 2"
definition TAIL_LINES :: nat where "TAIL_LINES = 20"
definition LINE_BYTES :: nat where "LINE_BYTES = 64 * 1024"
definition OUTPUT_BYTES :: nat where "OUTPUT_BYTES = 16 * 1024 * 1024"

text \<open>\<open>reader.take(n).read_until(b'\\n')\<close>\<close>

fun read_until :: "nat \<Rightarrow> string \<Rightarrow> string" where
  "read_until 0 s = []"
| "read_until (Suc n) [] = []"
| "read_until (Suc n) (c # cs) = (if c = newline then [c] else c # read_until n cs)"

lemma read_until_prefix: "\<exists>rest. s = read_until n s @ rest"
  by (induction n s rule: read_until.induct) auto

lemma read_until_length: "length (read_until n s) \<le> n"
  by (induction n s rule: read_until.induct) auto

lemma read_until_Nil: "read_until n s = [] \<longleftrightarrow> n = 0 \<or> s = []"
  by (cases "(n, s)" rule: read_until.cases) auto

lemma line_bytes_pos: "0 < LINE_BYTES"
  by (simp add: LINE_BYTES_def)

function raw_lines :: "string \<Rightarrow> string list" where
  "raw_lines s = (if s = [] then [] else read_until LINE_BYTES s # raw_lines (drop (length (read_until LINE_BYTES s)) s))"
  by pat_completeness auto
termination
  using read_until_Nil line_bytes_pos by (relation "measure length") auto

declare raw_lines.simps [simp del]

definition line_text :: "string \<Rightarrow> string" where
  "line_text line =
     (if line \<noteq> [] \<and> last line = newline then
        (let line = butlast line in if line \<noteq> [] \<and> last line = CHR 0x0D then butlast line else line)
      else line)"

definition each_line :: "string \<Rightarrow> string list" where
  "each_line s = map (\<lambda>line. utf8_lossy (line_text line)) (raw_lines s)"

section \<open>Standard error\<close>

definition tail_push :: "string list \<Rightarrow> string \<Rightarrow> string list" where
  "tail_push lines line = (if length lines = TAIL_LINES then tl lines else lines) @ [line]"

text \<open>What was sent to the waiting handshake, what was logged, and the tail.\<close>

record stderr_state =
  se_pending :: bool
  se_sent :: "string option"
  se_log :: "string list"
  se_tail :: "string list"

definition stderr_ready :: "string option \<Rightarrow> string \<Rightarrow> string option" where
  "stderr_ready ready line = Option.bind ready (\<lambda>prefix. strip_prefix prefix line)"

definition stderr_line :: "string option \<Rightarrow> stderr_state \<Rightarrow> string \<Rightarrow> stderr_state" where
  "stderr_line ready st line =
     (case stderr_ready ready line of
        Some payload \<Rightarrow> if se_pending st then st\<lparr>se_pending := False, se_sent := Some payload\<rparr> else st
      | None \<Rightarrow> st\<lparr>se_log := se_log st @ [line], se_tail := tail_push (se_tail st) line\<rparr>)"

definition read_stderr :: "string option \<Rightarrow> string \<Rightarrow> stderr_state" where
  "read_stderr ready s =
     foldl (stderr_line ready) \<lparr>se_pending = True, se_sent = None, se_log = [], se_tail = []\<rparr> (each_line s)"

definition tail_text :: "string list \<Rightarrow> string" where
  "tail_text lines = str_join [newline] (map (\<lambda>line. ''  '' @ line) lines)"

text \<open>Up to so many bytes of a pipe are kept, the rest read and dropped.\<close>

definition capture :: "string \<Rightarrow> string" where
  "capture s = take OUTPUT_BYTES s"

section \<open>The program's name\<close>

definition file_name :: "string \<Rightarrow> string option" where
  "file_name path =
     (case rev (snd (path_comps path)) of n # _ \<Rightarrow> if n \<in> {''.'', ''..''} then None else Some n | [] \<Rightarrow> None)"

text \<open>On macOS the launcher's own arguments end at its \<open>--\<close>.\<close>

definition launched :: "string \<Rightarrow> string list \<Rightarrow> string option" where
  "launched program args =
     (if program = SANDBOX_EXEC then (case dropWhile (\<lambda>a. a \<noteq> ''--'') args of _ # x # _ \<Rightarrow> Some x | _ \<Rightarrow> None) else None)"

definition program_of :: "string \<Rightarrow> string list \<Rightarrow> string" where
  "program_of program args =
     (let program = (case launched program args of Some p \<Rightarrow> p | None \<Rightarrow> program)
      in utf8_lossy (case file_name program of Some n \<Rightarrow> n | None \<Rightarrow> program))"

section \<open>The supervisor\<close>

record exit_state =
  ex_status :: "int option"
  ex_pid :: nat

text \<open>The first stop: when, how long its ask takes if it returns, and its wait. A drop without one has no ask.\<close>

record stop_request =
  sr_ask :: "nat option"
  sr_wait :: nat

datatype stop_event = Stopped stop_request | Dropped

record supervised =
  sv_self_exited :: bool
  sv_killed :: nat
  sv_published :: nat

text \<open>\<open>timeout(stop.wait, asked)\<close>: the ask, then the exit, each no later than the wait.\<close>

definition asked_until :: "nat \<Rightarrow> stop_request \<Rightarrow> nat option \<Rightarrow> nat" where
  "asked_until at1 stop exit1 =
     (case (sr_ask stop, exit1) of
        (Some ask, Some e) \<Rightarrow> min (max (at1 + ask) e) (at1 + sr_wait stop)
      | _ \<Rightarrow> at1 + sr_wait stop)"

definition published_at :: "nat \<Rightarrow> nat option \<Rightarrow> nat" where
  "published_at killed stderr_end =
     (case stderr_end of Some t \<Rightarrow> if t \<le> killed + EXIT_GRACE then max t killed else killed + EXIT_GRACE | None \<Rightarrow> killed + EXIT_GRACE)"

text \<open>None: the process runs on. An exit in the same tick as a stop is still an exit.\<close>

definition supervisor_run :: "nat option \<Rightarrow> (nat \<times> stop_event) option \<Rightarrow> nat option \<Rightarrow> supervised option" where
  "supervisor_run exit1 stop stderr_end =
     (let end_at = (\<lambda>self killed. \<lparr>sv_self_exited = self, sv_killed = killed, sv_published = published_at killed stderr_end\<rparr>)
      in case (exit1, stop) of
           (None, None) \<Rightarrow> None
         | (Some e, None) \<Rightarrow> Some (end_at True e)
         | (e, Some (s, ev)) \<Rightarrow>
             if (case e of Some e \<Rightarrow> e \<le> s | None \<Rightarrow> False) then Some (end_at True (the e))
             else Some (end_at False (case ev of Dropped \<Rightarrow> s | Stopped r \<Rightarrow> asked_until s r e)))"

definition wait_exit :: "exit_state option option \<Rightarrow> nat \<Rightarrow> exit_state" where
  "wait_exit published pid = (case published of Some (Some e) \<Rightarrow> e | _ \<Rightarrow> \<lparr>ex_status = None, ex_pid = pid\<rparr>)"

text \<open>
  A future under the process's life: when it resolves, with what, and when the exit is published. Where
  both are due at once the runtime polls either first: \<open>exit_first\<close>.
\<close>

definition fail_on_exit :: "bool \<Rightarrow> (nat \<times> ('e + 'a)) option \<Rightarrow> nat option \<Rightarrow> (unit + ('e + 'a)) option" where
  "fail_on_exit exit_first future exit1 =
     (case (future, exit1) of
        (None, None) \<Rightarrow> None
      | (None, Some _) \<Rightarrow> Some (Inl ())
      | (Some (t, r), e) \<Rightarrow>
          if (case e of Some e \<Rightarrow> e < t \<or> e = t \<and> exit_first | None \<Rightarrow> False) then Some (Inl ())
          else case r of
            Inr a \<Rightarrow> Some (Inr (Inr a))
          | Inl err \<Rightarrow> if (case e of Some e \<Rightarrow> e \<le> t + EXIT_WAIT | None \<Rightarrow> False) then Some (Inl ()) else Some (Inr (Inl err)))"

section \<open>A one-shot\<close>

record pipe =
  pp_chunks :: "(nat \<times> string) list"
  pp_eof :: "nat option"

definition pipe_until :: "nat \<Rightarrow> pipe option \<Rightarrow> string" where
  "pipe_until t p = (case p of None \<Rightarrow> [] | Some p \<Rightarrow> concat (map snd (filter (\<lambda>c. fst c \<le> t) (pp_chunks p))))"

definition pipe_closed :: "nat \<Rightarrow> pipe option \<Rightarrow> bool" where
  "pipe_closed t p \<longleftrightarrow> (case p of None \<Rightarrow> True | Some p \<Rightarrow> (case pp_eof p of Some e \<Rightarrow> e \<le> t | None \<Rightarrow> False))"

datatype one_shot_error = Timed_Out string nat | Wait_Failed string

record one_shot_output =
  os_status :: int
  os_stdout :: string
  os_stderr :: string

definition one_shot :: "string \<Rightarrow> nat \<Rightarrow> (nat \<times> (string + int)) option \<Rightarrow> pipe option \<Rightarrow> pipe option \<Rightarrow> one_shot_error + one_shot_output" where
  "one_shot program bound exit1 out err =
     (case exit1 of
        None \<Rightarrow> Inl (Timed_Out program bound)
      | Some (t, status) \<Rightarrow>
          if bound < t then Inl (Timed_Out program bound)
          else (case status of
              Inl e \<Rightarrow> Inl (Wait_Failed (''waiting on '' @ sb_quoted program @ '': '' @ e))
            | Inr status \<Rightarrow>
                (let drained = pipe_closed t out \<and> pipe_closed t err;
                     until = (if drained then t else t + EXIT_GRACE)
                 in Inr \<lparr>os_status = status, os_stdout = capture (pipe_until until out), os_stderr = capture (pipe_until until err)\<rparr>)))"

section \<open>Standard error is read exactly\<close>

lemma raw_lines_concat: "concat (raw_lines s) = s"
proof (induction s rule: raw_lines.induct)
  case (1 s)
  show ?case
  proof (cases "s = []")
    case False
    obtain rest where r: "s = read_until LINE_BYTES s @ rest" using read_until_prefix by blast
    then have "drop (length (read_until LINE_BYTES s)) s = rest" by (metis append_eq_conv_conj)
    with 1 [OF False] r show ?thesis by (subst raw_lines.simps) (simp add: False)
  qed (simp add: raw_lines.simps)
qed

lemma read_until_newline: "newline \<notin> set (butlast (read_until n s))"
  by (induction n s rule: read_until.induct) (auto simp: read_until_Nil split: if_split_asm)

definition line_cut :: "string \<Rightarrow> bool" where
  "line_cut line \<longleftrightarrow> line \<noteq> [] \<and> length line \<le> LINE_BYTES \<and> newline \<notin> set (butlast line)"

lemma raw_lines_cut: "list_all line_cut (raw_lines s)"
proof (induction s rule: raw_lines.induct)
  case (1 s)
  show ?case
  proof (cases "s = []")
    case False
    have "line_cut (read_until LINE_BYTES s)"
      using False line_bytes_pos read_until_length [of LINE_BYTES s] read_until_newline [of LINE_BYTES s]
      by (simp add: line_cut_def read_until_Nil)
    with 1 [OF False] show ?thesis by (subst raw_lines.simps) (simp add: False)
  qed (simp add: raw_lines.simps)
qed

lemma tail_push_last: "tail_push (drop (length xs - TAIL_LINES) xs) x = drop (length (xs @ [x]) - TAIL_LINES) (xs @ [x])"
proof (cases "length xs < TAIL_LINES")
  case False
  then have "length (drop (length xs - TAIL_LINES) xs) = TAIL_LINES" by simp
  moreover have "tl (drop (length xs - TAIL_LINES) xs) = drop (Suc (length xs) - TAIL_LINES) xs"
    using False by (simp add: tl_drop [symmetric] drop_Suc Suc_diff_le)
  ultimately show ?thesis using False by (simp add: tail_push_def TAIL_LINES_def)
qed (simp add: tail_push_def)

lemma stderr_fold:
  assumes "se_tail st = drop (length (se_log st) - TAIL_LINES) (se_log st)" and "se_pending st \<longleftrightarrow> se_sent st = None"
  shows "let st' = foldl (stderr_line ready) st lines; kept = se_log st @ filter (\<lambda>l. stderr_ready ready l = None) lines in
    se_log st' = kept \<and> se_tail st' = drop (length kept - TAIL_LINES) kept \<and>
    se_sent st' = (case se_sent st of None \<Rightarrow> find_map (stderr_ready ready) lines | Some p \<Rightarrow> Some p)"
  using assms
proof (induction lines arbitrary: st)
  case (Cons line lines)
  show ?case
  proof (cases "stderr_ready ready line")
    case None
    let ?st = "st\<lparr>se_log := se_log st @ [line], se_tail := tail_push (se_tail st) line\<rparr>"
    have "foldl (stderr_line ready) st (line # lines) = foldl (stderr_line ready) ?st lines" by (simp add: stderr_line_def None)
    moreover have "se_tail ?st = drop (length (se_log ?st) - TAIL_LINES) (se_log ?st)"
      using Cons.prems(1) tail_push_last [of "se_log st" line] by simp
    ultimately show ?thesis using Cons.IH [of ?st] Cons.prems(2) None by (simp add: Let_def cong: option.case_cong)
  next
    case (Some payload)
    let ?st = "if se_pending st then st\<lparr>se_pending := False, se_sent := Some payload\<rparr> else st"
    have "foldl (stderr_line ready) st (line # lines) = foldl (stderr_line ready) ?st lines" by (simp add: stderr_line_def Some)
    moreover have "se_tail ?st = drop (length (se_log ?st) - TAIL_LINES) (se_log ?st)" "se_pending ?st \<longleftrightarrow> se_sent ?st = None"
      using Cons.prems by auto
    ultimately show ?thesis using Cons.IH [of ?st] Cons.prems(2) Some by (auto simp: Let_def split: option.split)
  qed
qed (simp add: Let_def split: option.split)


text \<open>
  A handshake longer than a line is cut: the payload arrives short and what is left of it, which may
  carry the credential, is logged as a line of its own.
\<close>

lemma read_until_full: "length a = n \<Longrightarrow> newline \<notin> set a \<Longrightarrow> read_until n (a @ b) = a"
  by (induction n "a @ b" arbitrary: a rule: read_until.induct) (auto simp: Cons_eq_append_conv)

lemma read_until_line: "length a < n \<Longrightarrow> newline \<notin> set a \<Longrightarrow> read_until n (a @ newline # b) = a @ [newline]"
proof (induction a arbitrary: n)
  case Nil
  then show ?case by (cases n) auto
next
  case (Cons c a)
  then show ?case by (cases n) auto
qed

lemma long_handshake_logged:
  assumes "length (prefix @ payload) = LINE_BYTES" and "length more1 < LINE_BYTES" and "newline \<notin> set (prefix @ payload @ more1)"
    and "utf8_valid (prefix @ payload)" and "utf8_valid more1" and "strip_prefix prefix more1 = None" and "more1 \<noteq> []" and "last more1 \<noteq> CHR 0x0D"
  shows "let st = read_stderr (Some prefix) (prefix @ payload @ more1 @ [newline]) in se_sent st = Some payload \<and> se_log st = [more1]"
proof -
  let ?a = "prefix @ payload"
  have n: "?a \<noteq> []" using assms(1) line_bytes_pos by force
  have 1: "read_until LINE_BYTES (?a @ more1 @ [newline]) = ?a" by (rule read_until_full) (use assms(1,3) in auto)
  have 2: "read_until LINE_BYTES (more1 @ [newline]) = more1 @ [newline]" using read_until_line [of more1 LINE_BYTES "[]"] assms(2,3) by simp
  have "raw_lines (more1 @ [newline]) = [more1 @ [newline]]" by (subst raw_lines.simps) (simp add: 2 raw_lines.simps [of "[]"])
  then have "raw_lines (?a @ more1 @ [newline]) = [?a, more1 @ [newline]]"
    by (subst raw_lines.simps) (use n in \<open>simp add: 1 del: append_assoc\<close>)
  moreover have "last ?a \<noteq> newline" using last_in_set [OF n] assms(3) by auto
  then have "line_text ?a = ?a" by (simp add: line_text_def)
  moreover have "line_text (more1 @ [newline]) = more1" using assms(8) by (simp add: line_text_def)
  ultimately have l: "each_line (?a @ more1 @ [newline]) = [?a, more1]"
    using utf8_lossy_valid [OF assms(4)] utf8_lossy_valid [OF assms(5)] by (simp add: each_line_def)
  then show ?thesis using assms(6) by (simp add: read_stderr_def stderr_line_def stderr_ready_def Let_def)
qed

section \<open>The end of a process\<close>

text \<open>
  The name logged for a command of Seatbelt is the program's, though what is spawned is the launcher: no argument
  before the \<open>--\<close> is one.
\<close>

lemma launched_is_target:
  assumes "seatbelt_command_of base fs system1 place = Inr c"
  shows "launched (sc_launcher c) (seatbelt_args c) = Some (sc_target c)"
proof -
  obtain program where "hf_canonical fs (sl_program place) = Inr program"
    using assms by (auto simp: seatbelt_command_of_def split: sum.splits)
  from seatbelt_command_eq [OF this, of base system1] assms
  have c: "sc_launcher c = SANDBOX_EXEC" "sc_profile c = sb_text base (length system1) (length (sl_read place)) (sb_shape system1 place program)"
    by auto
  have "length (sc_profile c) \<noteq> 2" unfolding c(2) sb_text_def seatbelt_profile_def Let_def by (simp add: DEVICES_def)
  then have "sc_profile c \<noteq> ''--''" by auto
  moreover have "dropWhile (\<lambda>a. a \<noteq> ''--'') (map (\<lambda>(key, path). ''-D'' @ key @ ''='' @ path) ps @ [''--'', x]) = [''--'', x]" for ps x
    by (induction ps) auto
  ultimately show ?thesis by (simp add: launched_def seatbelt_args_def c(1))
qed

text \<open>
  Once a process is to end its group is killed: at its own exit, as it is dropped, or no later than the
  wait of its stop, and never before the ask of a stop has returned and the process gone within it.
\<close>

lemma supervisor_sweeps:
  "case supervisor_run exit1 stop stderr_end of
     None \<Rightarrow> exit1 = None \<and> stop = None
   | Some v \<Rightarrow>
       sv_killed v \<le> sv_published v \<and> sv_published v \<le> sv_killed v + EXIT_GRACE \<and>
       (sv_self_exited v \<longrightarrow> exit1 = Some (sv_killed v)) \<and>
       (\<forall>s r. stop = Some (s, Stopped r) \<and> \<not> sv_self_exited v \<longrightarrow>
          sv_killed v \<le> s + sr_wait r \<and>
          (sv_killed v < s + sr_wait r \<longrightarrow> (\<exists>ask e. sr_ask r = Some ask \<and> exit1 = Some e \<and> s + ask \<le> sv_killed v \<and> e \<le> sv_killed v))) \<and>
       (\<forall>s. stop = Some (s, Dropped) \<and> \<not> sv_self_exited v \<longrightarrow> sv_killed v = s)"
  by (auto simp: supervisor_run_def asked_until_def published_at_def Let_def split: option.splits stop_event.splits if_splits)

text \<open>A one-shot fails with the bound exactly where it outlived it, and keeps no more than the cap of either stream.\<close>

lemma one_shot_bounded:
  "case one_shot program bound exit1 out err of
     Inl (Timed_Out p b) \<Rightarrow> p = program \<and> b = bound \<and> (case exit1 of None \<Rightarrow> True | Some (t, _) \<Rightarrow> bound < t)
   | Inl (Wait_Failed _) \<Rightarrow> (\<exists>t e. exit1 = Some (t, Inl e) \<and> t \<le> bound)
   | Inr o1 \<Rightarrow> (\<exists>t. exit1 = Some (t, Inr (os_status o1)) \<and> t \<le> bound \<and>
       length (os_stdout o1) \<le> OUTPUT_BYTES \<and> length (os_stderr o1) \<le> OUTPUT_BYTES \<and>
       os_stdout o1 \<in> {capture (pipe_until t out), capture (pipe_until (t + EXIT_GRACE) out)} \<and>
       os_stderr o1 \<in> {capture (pipe_until t err), capture (pipe_until (t + EXIT_GRACE) err)})"
  by (auto simp: one_shot_def capture_def Let_def split: option.split sum.split)

end
