(* ===== verification/Spec2Isabelle.thy ===== *)
theory Spec2Isabelle
  imports Kafka_Delivery_Props Kafka_Client Kafka_Send Kafka_Cache Kafka_Registry Azure_Store Fs_Listing Fs_Locks Fs_Blob Genai_Props Genai_Client Sandbox_Egress Sandbox_Grant Git_Lockdown Git_Vcs_Props Cursor_Idle Cursor_Complete Cursor_Pool Cursor_Worker Cursor_Relay Nats_KV_Props Redis_KeyValue Postgres_Sql Azure_Blob Azure_Vault Sandbox_Child
begin

text \<open>
  The host backends of the omnia runtime (\<open>src/crates/\<close>), verified component by component. Each
  crate implements one or more host interfaces (messaging, version control, document and key-value
  stores, blob stores, model completions) against an external service or the host's own file system.
  The crates do not call each other, apart from the sandbox that runs the shell of a completion, so the
  library has one group of theories per crate over a shared base.

  \<^bold>\<open>How the code is modelled.\<close> A struct is a \<open>record\<close>, an enum a \<open>datatype\<close>, a
  \<open>Result\<close> the sum \<open>error + value\<close>. A \<open>str\<close> is the list of its UTF-8 bytes.
  Machine integers are words where the code computes on their bits (hashes, addresses, framing) and
  naturals with the width written out where it only bounds or saturates them. A \<open>BTreeMap\<close> is its
  sorted association list (\<open>Rust_BTree\<close>, with the map interface as a locale). Where the iteration order
  of a \<open>HashMap\<close> can be seen, that order is a parameter. An \<open>async fn\<close> that returns a
  \<open>Result\<close> is an action of \<open>Rust_Effect\<close>, explicit state passing with a Hoare triple; tasks
  that interleave are a step relation. What is outside \<open>src/\<close> (a broker, a database, git, a
  model provider, \<open>serde_json\<close>, the clock, the kernel) is a field of an environment record, so a
  theorem holds whatever it answers, or under a named hypothesis that states its documentation.

  \<^bold>\<open>The base.\<close> \<open>Prelude\<close>: sums, traversals, big-endian bytes, the \<open>named_theorems\<close>.
  \<open>Rust_BTree\<close>, \<open>Rust_Text\<close>, \<open>Rust_Json\<close>, \<open>Rust_Num\<close>, \<open>Rust_Effect\<close>: what the
  backends use of the standard library and of JSON values. \<open>Rust_Fs\<close>: a file system with directories,
  files, renames and failing calls.

  \<^bold>\<open>kafka.\<close> \<open>Kafka_Tracker\<close> is \<open>tracker.rs\<close>: the offsets outstanding on each partition;
  \<open>Kafka_Tracker_Spec\<close> refines it to sets of records and shows that a commit is safe and never missed.
  \<open>Kafka_Commit\<close> and \<open>Kafka_Delivery\<close> are \<open>consume.rs\<close> and \<open>lanes.rs\<close>: the
  delivery loop, its tasks, lanes and semaphores as the step relation \<open>dl_step\<close>; its invariants are
  in \<open>Kafka_Lanes_Inv\<close> and \<open>Kafka_Delivery_Inv\<close>, and \<open>Kafka_Delivery_Props\<close> shows the
  bounds 64 and 4096, order by key, stores only past handled records, progress and termination of the drain.
  \<open>Kafka_Partitioner\<close> is \<open>partitioner.rs\<close> (both producers' hashes against a reference written from
  their definition); \<open>Kafka_Registry\<close> and \<open>Kafka_Cache\<close> are \<open>registry.rs\<close> (framing,
  validation, the single-flight cache as a step relation); \<open>Kafka_Send\<close> is \<open>messaging.rs\<close> with
  the delivery reports, \<open>Kafka_Client\<close> the connecting of \<open>lib.rs\<close>.

  \<^bold>\<open>git.\<close> \<open>Git_Command\<close> is \<open>command.rs\<close> and \<open>lib.rs\<close>: one git process with its
  environment and arguments. \<open>Git_Pins\<close> is \<open>pins.rs\<close>: the settings a repository may not choose.
  \<open>Git_Refusal\<close>, \<open>Git_Glob\<close>, \<open>Git_Policy\<close> are \<open>refusal.rs\<close> and
  \<open>policy.rs\<close>. \<open>Git_Vcs\<close> holds the sixteen operations of \<open>vcs.rs\<close>; \<open>Git_Lockdown\<close>
  shows that every process they spawn is locked down, \<open>Git_Vcs_Props\<close> what merges, fetches, pushes and
  guest strings may do.

  \<^bold>\<open>azure-table.\<close> \<open>Azure_Document\<close>, \<open>Azure_Filter\<close>, \<open>Azure_Store\<close>:
  documents to entities and back, guest filters to OData text with the OData grammar they are read back
  by, and the store's operations with paging and retries.

  \<^bold>\<open>filesystem.\<close> \<open>Fs_Names\<close>, \<open>Fs_Listing\<close>, \<open>Fs_Locks\<close>, \<open>Fs_KeyValue\<close>,
  \<open>Fs_Blob\<close>: names to paths, atomic writes, listings, the lock of each key, buckets and containers.
  \<open>Fs_KV_Props\<close> refines a bucket to a map of live values, and bounds what a failing call may leave.

  \<^bold>\<open>genai.\<close> \<open>Genai_Request\<close>, \<open>Genai_Tools\<close>, \<open>Genai_Observe\<close> translate
  requests, run tools and book costs; \<open>Genai_Conversation\<close> and \<open>Genai_Run\<close> are the rounds of
  \<open>conversation.rs\<close>, \<open>Genai_Client\<close> the staging of \<open>model.rs\<close>; \<open>Genai_Props\<close>
  shows the budgets, that every call a provider made is answered in order, and that a checked answer was accepted.

  \<^bold>\<open>cursor.\<close> \<open>Cursor_Failure\<close> is \<open>failure.rs\<close> with the errors of an RPC.
  \<open>Cursor_Frames\<close> is the streaming half of \<open>protocol.rs\<close>: frames from a body in pieces against
  an abstract stream over its bytes. \<open>Cursor_Stream\<close> is the event log of \<open>stream.rs\<close>,
  \<open>Cursor_Observe\<close> the bill of \<open>observe.rs\<close>. \<open>Cursor_Agent\<close> and \<open>Cursor_Complete\<close>
  are \<open>agent.rs\<close> and the restart of \<open>model.rs\<close>, with what they did as a list of effects;
  \<open>Cursor_Idle\<close> ties the inactivity window to the messages read. \<open>Cursor_Proto\<close> and
  \<open>Cursor_Callback\<close> are \<open>proto.rs\<close> and \<open>callback.rs\<close>: the values of a tool call and the
  server a worker calls a guest's tool through, confined to its own agents and their declared tools.
  \<open>Cursor_Client\<close> is \<open>lib.rs\<close>, \<open>options.rs\<close> and the staging of \<open>model.rs\<close>; it
  composes with \<open>Sandbox_Grant\<close>: a completion runs in the session its grant was prepared with.
  \<open>Cursor_Pool\<close> is \<open>pool.rs\<close>, slots, leases and tokens as the steps of concurrent tasks;
  \<open>Cursor_Worker\<close> is \<open>worker.rs\<close> with \<open>discovery.rs\<close>, over a session of the sandbox;
  \<open>Cursor_Relay\<close> is \<open>relay.rs\<close>.

  \<^bold>\<open>sandbox.\<close> \<open>Sandbox_Proxy\<close> is the CONNECT proxy of \<open>proxy.rs\<close> down to parsing
  addresses, \<open>Sandbox_Egress\<close> what it can connect to; \<open>Sandbox_Grant\<close> is \<open>lib.rs\<close> and
  \<open>session.rs\<close>: what a session may read and what its environment holds. \<open>Sandbox_Seccomp\<close> and
  \<open>Sandbox_Linux\<close> are \<open>linux.rs\<close>: the filters, which answer each system call by a policy written from
  the README, and the ruleset laid over a session's places. \<open>Sandbox_Seatbelt\<close> is \<open>seatbelt.rs\<close>: the
  profile and the parameters that keep paths out of its text. \<open>Sandbox_Child\<close> is \<open>child.rs\<close>: the
  lines of a process, its handshake and tail, how its supervisor ends it, and one-shots under a bound.

  \<^bold>\<open>blob containers and lockers.\<close> \<open>Blob_Range\<close> is the contract of a byte range, as a locale the
  filesystem, NATS and MongoDB interpret with their own routines; \<open>Nats_Blob\<close> is \<open>blobstore.rs\<close> of
  nats and of mongodb; \<open>Azure_Blob\<close> is \<open>blobstore.rs\<close> of azure-blob with the package store of
  \<open>plugin.rs\<close>, kept from guests under \<open>az_laws\<close>; \<open>Azure_Vault\<close> is \<open>key_vault.rs\<close>: lockers apart
  in one vault by the names of their secrets.

  \<^bold>\<open>nats, redis, postgres.\<close> \<open>Nats_KeyValue\<close> is \<open>keyvalue.rs\<close> over JetStream;
  \<open>Nats_KV_Props\<close> shows its increments and swaps atomic under the server's contract
  \<open>jetstream_laws\<close>, other clients interleaved. \<open>Redis_KeyValue\<close> is \<open>keyvalue.rs\<close> over
  Redis, refining a map under \<open>redis_laws\<close>, its compare-and-set script included.
  \<open>Postgres_Sql\<close> is \<open>sql.rs\<close>, \<open>types.rs\<close> and the pools of \<open>lib.rs\<close>: parameters,
  rows and statements, with what a row gives passed back unchanged.

  \<^bold>\<open>Bounds and fuel.\<close> The scan of a Redis bucket is the one loop with fuel, for the server decides when
  its cursor is back at zero; its theorem is of the listings that return. The loops of the
  models end by a measure: bytes left (frames, parsers), rounds and nudges left (completions: two checks and one
  nudge for cursor, the request's budgets for genai), retries left, rows of a scan. The endless loops (the
  delivery loop, the schema cache) are step relations, with a measure for the part that must end. A run's stream
  waits on a finite sequence of wakes which the absolute cap ends, because before a deadline a task is woken
  finitely often. Word sizes are those of the code.

  \<^bold>\<open>Not modelled.\<close> Logging, tracing spans and heartbeats. Accept loops and the copying of bytes of
  sockets. Spawning a process, its group and its signals: system calls with no decisions of their own.
  What the kernel does with a ruleset, a filter or a profile beyond the reading its documentation gives a filter:
  the text of \<open>seatbelt.sbpl\<close> is a parameter. The messaging of \<open>nats\<close>, the clients of \<open>nats\<close>, \<open>redis\<close>,
  \<open>mongodb\<close>, \<open>azure-blob\<close> and \<open>azure-vault\<close>, the building of the pools of \<open>postgres\<close>, \<open>azure-id\<close> and
  \<open>opentelemetry\<close> choose options and hand their arguments to a client library. Test programs, examples
  and tests are not part of the backends.
\<close>

end
